(* ===== verification/Rust_Prelude.thy ===== *)
theory Rust_Prelude
  imports Main "HOL-Library.Sublist" "HOL-Library.List_Lexorder" "HOL-Library.Monad_Syntax"
begin

text \<open>
  Shared vocabulary of the development: the Rust string model, the Rust integer operations the
  components use, the replacement and slicing functions of \<^verbatim>\<open>str\<close>, and the ordered maps that
  stand for \<^verbatim>\<open>BTreeMap\<close>.

  A Rust \<^verbatim>\<open>String\<close> is a list of Unicode scalar values; byte offsets, which is what
  \<^verbatim>\<open>len\<close>, \<^verbatim>\<open>is_char_boundary\<close> and slices count, are computed through the UTF-8 width of each
  scalar value. A slice whose bound is out of range or splits a character panics in Rust and is
  \<open>None\<close> here.
\<close>

named_theorems blen_simps \<open>byte lengths of composed strings\<close>
named_theorems walk_simps \<open>unfolding of the JSON tree walkers\<close>

section \<open>Strings\<close>

type_synonym uchar = nat
type_synonym ustr = "uchar list"

definition lit :: "string \<Rightarrow> ustr" where
  "lit s = map of_char s"

definition len_utf8 :: "uchar \<Rightarrow> nat" where
  "len_utf8 c = (if c < 0x80 then 1 else if c < 0x800 then 2 else if c < 0x10000 then 3 else 4)"

definition blen :: "ustr \<Rightarrow> nat" where
  "blen s = sum_list (map len_utf8 s)"

fun is_char_boundary :: "ustr \<Rightarrow> nat \<Rightarrow> bool" where
  "is_char_boundary [] i \<longleftrightarrow> i = 0"
| "is_char_boundary (c # s) i \<longleftrightarrow>
     i = 0 \<or> (len_utf8 c \<le> i \<and> is_char_boundary s (i - len_utf8 c))"

fun split_at_byte :: "ustr \<Rightarrow> nat \<Rightarrow> (ustr \<times> ustr) option" where
  "split_at_byte [] i = (if i = 0 then Some ([], []) else None)"
| "split_at_byte (c # s) i =
     (if i = 0 then Some ([], c # s)
      else if i < len_utf8 c then None
      else map_option (\<lambda>(a, b). (c # a, b)) (split_at_byte s (i - len_utf8 c)))"

definition slice_to :: "ustr \<Rightarrow> nat \<Rightarrow> ustr option" where
  "slice_to s i = map_option fst (split_at_byte s i)"

definition slice_from :: "ustr \<Rightarrow> nat \<Rightarrow> ustr option" where
  "slice_from s i = map_option snd (split_at_byte s i)"

definition slice :: "ustr \<Rightarrow> nat \<Rightarrow> nat \<Rightarrow> ustr option" where
  "slice s a b = (if a \<le> b then slice_to s b \<bind> (\<lambda>p. slice_from p a) else None)"

text \<open>
  \<^verbatim>\<open>str::replace\<close> with a non-empty pattern: leftmost occurrences, not overlapping. Every call in the
  modelled code passes a literal non-empty pattern; an empty one leaves the text unchanged here.
\<close>

function replace_all :: "'a list \<Rightarrow> 'a list \<Rightarrow> 'a list \<Rightarrow> 'a list" where
  "replace_all pat rep [] = []"
| "replace_all pat rep (c # s) =
     (if pat \<noteq> [] \<and> prefix pat (c # s)
      then rep @ replace_all pat rep (drop (length pat) (c # s))
      else c # replace_all pat rep s)"
  by pat_completeness auto
termination
  by (relation "measure (\<lambda>(pat, rep, s). length s)") auto

fun intersperse_concat :: "'a list \<Rightarrow> 'a list list \<Rightarrow> 'a list" where
  "intersperse_concat sep [] = []"
| "intersperse_concat sep [x] = x"
| "intersperse_concat sep (x # y # xs) = x @ sep @ intersperse_concat sep (y # xs)"

text \<open>\<^verbatim>\<open>format!("{n}")\<close> of an unsigned integer.\<close>

function digits_of :: "nat \<Rightarrow> ustr" where
  "digits_of n = (if n < 10 then [48 + n] else digits_of (n div 10) @ [48 + n mod 10])"
  by pat_completeness auto
termination
  by (relation "measure id") auto

declare digits_of.simps [simp del]

section \<open>Machine integers\<close>

definition usize_max :: nat where
  "usize_max = 2 ^ 64 - 1"

definition u64_max :: nat where
  "u64_max = 2 ^ 64 - 1"

definition u32_max :: nat where
  "u32_max = 2 ^ 32 - 1"

definition from_secs :: "nat \<Rightarrow> nat" where
  "from_secs s = s * 10 ^ 9"

definition saturating_add :: "nat \<Rightarrow> nat \<Rightarrow> nat \<Rightarrow> nat" where
  "saturating_add mx a b = min mx (a + b)"

definition saturating_mul :: "nat \<Rightarrow> nat \<Rightarrow> nat \<Rightarrow> nat" where
  "saturating_mul mx a b = min mx (a * b)"

definition wrapping_mul_usize :: "nat \<Rightarrow> nat \<Rightarrow> nat" where
  "wrapping_mul_usize a b = (a * b) mod 2 ^ 64"

section \<open>Ordered maps\<close>

fun bt_insert :: "'k::linorder \<Rightarrow> 'v \<Rightarrow> ('k \<times> 'v) list \<Rightarrow> ('k \<times> 'v) list" where
  "bt_insert k v [] = [(k, v)]"
| "bt_insert k v ((k', v') # m) =
     (if k < k' then (k, v) # (k', v') # m
      else if k = k' then (k, v) # m
      else (k', v') # bt_insert k v m)"

fun bt_remove :: "'k::linorder \<Rightarrow> ('k \<times> 'v) list \<Rightarrow> ('k \<times> 'v) list" where
  "bt_remove k [] = []"
| "bt_remove k ((k', v') # m) = (if k = k' then m else (k', v') # bt_remove k m)"

abbreviation bt_ok :: "('k::linorder \<times> 'v) list \<Rightarrow> bool" where
  "bt_ok m \<equiv> sorted_wrt (<) (map fst m)"

definition bt_of :: "('k::linorder \<times> 'v) list \<Rightarrow> ('k \<times> 'v) list" where
  "bt_of kvs = foldl (\<lambda>m (k, v). bt_insert k v m) [] kvs"

section \<open>Generic lemmas\<close>

subsection \<open>Byte lengths\<close>

lemma blen_Nil [simp, blen_simps]: "blen [] = 0"
  and blen_Cons [simp, blen_simps]: "blen (c # s) = len_utf8 c + blen s"
  and blen_append [simp, blen_simps]: "blen (s @ t) = blen s + blen t"
  by (simp_all add: blen_def)

lemma len_utf8_pos [simp]: "0 < len_utf8 c"
  by (simp add: len_utf8_def)

lemma len_utf8_le4: "len_utf8 c \<le> 4"
  by (simp add: len_utf8_def)

lemma length_le_blen: "length s \<le> blen s"
proof (induction s)
  case (Cons c s)
  then show ?case using len_utf8_pos [of c] by (simp del: len_utf8_pos)
qed simp

lemma blen_eq_0 [simp]: "blen s = 0 \<longleftrightarrow> s = []"
  by (cases s) simp_all

lemma len_utf8_ascii [simp]: "c < 128 \<Longrightarrow> len_utf8 c = 1"
  by (simp add: len_utf8_def)

lemma blen_ascii: "(\<And>c. c \<in> set s \<Longrightarrow> c < 128) \<Longrightarrow> blen s = length s"
  by (induction s) auto

lemma lit_append [simp]: "lit (s @ t) = lit s @ lit t"
  by (simp add: lit_def)

lemma lit_eq_iff [simp]: "lit s = lit t \<longleftrightarrow> s = t"
  by (simp add: lit_def inj_map_eq_map [OF inj_of_char])

subsection \<open>Character boundaries and slices\<close>

lemma is_char_boundary_0 [simp]: "is_char_boundary s 0"
  by (cases s) simp_all

lemma is_char_boundary_blen [simp]: "is_char_boundary s (blen s)"
  by (induction s) simp_all

lemma is_char_boundary_le: "is_char_boundary s i \<Longrightarrow> i \<le> blen s"
  by (induction s arbitrary: i) fastforce+

lemma is_char_boundary_append: "is_char_boundary (s @ t) (blen s + i) = is_char_boundary t i"
  using len_utf8_pos by (induction s) (auto simp: add.assoc)

lemma split_at_byte_append: "split_at_byte (s @ t) (blen s) = Some (s, t)"
proof (induction s)
  case Nil
  show ?case by (cases t) simp_all
next
  case (Cons c s)
  then show ?case using len_utf8_pos [of c] by simp
qed

lemma split_at_byte_SomeD:
  "split_at_byte s i = Some (a, b) \<Longrightarrow> s = a @ b \<and> blen a = i"
proof (induction s arbitrary: i a b)
  case Nil
  then show ?case by (auto split: if_splits)
next
  case (Cons c s)
  then show ?case by (fastforce split: if_splits)
qed

lemma split_at_byte_iff: "split_at_byte s i = Some (a, b) \<longleftrightarrow> s = a @ b \<and> blen a = i"
  using split_at_byte_SomeD split_at_byte_append by blast

lemma is_char_boundary_iff: "is_char_boundary s i \<longleftrightarrow> (\<exists>a b. s = a @ b \<and> blen a = i)"
proof
  assume "is_char_boundary s i"
  then show "\<exists>a b. s = a @ b \<and> blen a = i"
  proof (induction s arbitrary: i)
    case (Cons c s)
    show ?case
    proof (cases "i = 0")
      case False
      with Cons.prems have le: "len_utf8 c \<le> i" and "is_char_boundary s (i - len_utf8 c)"
        by auto
      from Cons.IH [OF this(2)] obtain a b where "s = a @ b" "blen a = i - len_utf8 c"
        by blast
      with le have "c # s = (c # a) @ b \<and> blen (c # a) = i" by simp
      then show ?thesis by blast
    qed (auto intro: exI [of _ "[]"])
  qed simp
next
  assume "\<exists>a b. s = a @ b \<and> blen a = i"
  then obtain a b where "s = a @ b" "blen a = i" by blast
  then show "is_char_boundary s i" using is_char_boundary_append [of a b 0] by simp
qed

lemma slice_to_append [simp]: "slice_to (s @ t) (blen s) = Some s"
  by (simp add: slice_to_def split_at_byte_append)

lemma slice_from_append [simp]: "slice_from (s @ t) (blen s) = Some t"
  by (simp add: slice_from_def split_at_byte_append)

lemma slice_to_SomeD: "slice_to s i = Some a \<Longrightarrow> \<exists>b. s = a @ b \<and> blen a = i"
  by (auto simp: slice_to_def split_at_byte_iff)

lemma slice_from_SomeD: "slice_from s i = Some b \<Longrightarrow> \<exists>a. s = a @ b \<and> blen a = i"
  by (auto simp: slice_from_def split_at_byte_iff)

lemma boundary_slices:
  assumes "is_char_boundary s i"
  obtains a b where "s = a @ b" "blen a = i" "slice_to s i = Some a" "slice_from s i = Some b"
proof -
  from assms obtain a b where ab: "s = a @ b" "blen a = i"
    by (auto simp: is_char_boundary_iff)
  then have "slice_to s i = Some a" "slice_from s i = Some b" by auto
  with ab show ?thesis by (rule that)
qed

lemma slice_0 [simp]: "slice_from s 0 = Some s"
  using slice_from_append [of "[]" s] by simp

lemma slice_middle: "slice (a @ b @ c) (blen a) (blen a + blen b) = Some b"
proof -
  have "slice_to (a @ b @ c) (blen a + blen b) = Some (a @ b)"
    using slice_to_append [of "a @ b" c] by simp
  then show ?thesis by (simp add: slice_def)
qed

subsection \<open>Replacement\<close>

text \<open>
  A replacement text is safe for a pattern when no occurrence of the pattern can overlap it: no
  non-empty tail of the pattern and the replacement are prefixes of one another, and no
  non-empty tail of the replacement and the pattern are.
\<close>

definition safe_replacement :: "'a list \<Rightarrow> 'a list \<Rightarrow> bool" where
  "safe_replacement pat rep \<longleftrightarrow>
     list_all (\<lambda>p. p = [] \<or> (\<not> prefix p rep \<and> \<not> prefix rep p)) (suffixes pat) \<and>
     list_all (\<lambda>r. r = [] \<or> (\<not> prefix pat r \<and> \<not> prefix r pat)) (suffixes rep)"

lemma prefix_append_cases: "prefix p (a @ b) \<Longrightarrow> prefix p a \<or> prefix a p"
  by (rule prefix_same_cases [of p "a @ b" a]) auto

lemma prefix_replace_all:
  "prefix p (replace_all pat rep s) \<Longrightarrow>
   prefix p s \<or> (\<exists>p1 p2. p = p1 @ p2 \<and> p2 \<noteq> [] \<and> (prefix p2 rep \<or> prefix rep p2))"
proof (induction pat rep s arbitrary: p rule: replace_all.induct)
  case (1 pat rep)
  then show ?case by simp
next
  case (2 pat rep c s)
  show ?case
  proof (cases "p = []")
    case False
    show ?thesis
    proof (cases "pat \<noteq> [] \<and> prefix pat (c # s)")
      case True
      with "2.prems" have "prefix p (rep @ replace_all pat rep (drop (length pat) (c # s)))"
        by simp
      then have "prefix p rep \<or> prefix rep p"
        by (rule prefix_append_cases)
      with False have "p = [] @ p \<and> p \<noteq> [] \<and> (prefix p rep \<or> prefix rep p)" by simp
      then show ?thesis by blast
    next
      case not: False
      with "2.prems" False obtain p' where p: "p = c # p'" "prefix p' (replace_all pat rep s)"
        by (cases p) auto
      from "2.IH"(2) [OF not p(2)] p(1) show ?thesis by (metis append_Cons prefix_Cons)
    qed
  qed simp
qed

lemma safe_no_prefix:
  assumes "safe_replacement q rep" "q \<noteq> []" "prefix q (replace_all pat rep s)"
  shows "prefix q s"
proof (rule ccontr)
  assume "\<not> prefix q s"
  with prefix_replace_all [OF assms(3)] obtain p1 p2
    where "q = p1 @ p2" "p2 \<noteq> []" "prefix p2 rep \<or> prefix rep p2" by blast
  moreover from this have "p2 \<in> set (suffixes q)" by (simp add: suffix_def)
  ultimately show False using assms(1) by (auto simp: safe_replacement_def list_all_iff)
qed

lemma safe_no_overlap_left:
  assumes "safe_replacement q rep" "q \<noteq> []" "sublist q (rep @ t)"
  shows "sublist q t"
proof -
  have "\<forall>r. suffix r rep \<longrightarrow> sublist q (r @ t) \<longrightarrow> sublist q t"
  proof (intro allI impI)
    fix r assume "suffix r rep" "sublist q (r @ t)"
    then show "sublist q t"
    proof (induction r)
      case (Cons c r)
      from Cons.prems(1) have suf: "suffix r rep" by (rule suffix_ConsD)
      have "\<not> prefix q ((c # r) @ t)"
      proof
        assume "prefix q ((c # r) @ t)"
        then have "prefix q (c # r) \<or> prefix (c # r) q" by (rule prefix_append_cases)
        then show False using assms(1) Cons.prems(1)
          by (auto simp: safe_replacement_def list_all_iff)
      qed
      with Cons.prems(2) have "sublist q (r @ t)" by (simp add: sublist_Cons_right)
      with suf show ?case by (rule Cons.IH)
    qed simp
  qed
  with assms(3) show ?thesis by blast
qed

theorem replace_all_removes:
  assumes "safe_replacement pat rep" "pat \<noteq> []"
  shows "\<not> sublist pat (replace_all pat rep s)"
  using assms
proof (induction pat rep s rule: replace_all.induct)
  case (2 pat rep c s)
  show ?case
  proof (cases "pat \<noteq> [] \<and> prefix pat (c # s)")
    case True
    with "2.IH"(1) [OF True] "2.prems" show ?thesis
      using safe_no_overlap_left [of pat rep "replace_all pat rep (drop (length pat) (c # s))"]
      by auto
  next
    case False
    with "2.prems" have "\<not> prefix pat (c # s)" by blast
    then have "\<not> prefix pat (replace_all pat rep (c # s))"
      using safe_no_prefix [OF "2.prems"] by blast
    with "2.IH"(2) [OF False] "2.prems" False show ?thesis by (simp add: sublist_Cons_right)
  qed
qed simp

theorem replace_all_creates_none:
  assumes "safe_replacement q rep" "q \<noteq> []" "\<not> sublist q s"
  shows "\<not> sublist q (replace_all pat rep s)"
  using assms
proof (induction pat rep s rule: replace_all.induct)
  case (2 pat rep c s)
  show ?case
  proof (cases "pat \<noteq> [] \<and> prefix pat (c # s)")
    case True
    let ?t = "drop (length pat) (c # s)"
    have "\<not> sublist q ?t" using "2.prems"(3) sublist_drop [of "length pat" "c # s"] by (meson sublist_order.order_trans)
    with "2.IH"(1) [OF True] "2.prems" have "\<not> sublist q (replace_all pat rep ?t)" by blast
    with True "2.prems" show ?thesis
      using safe_no_overlap_left [of q rep "replace_all pat rep ?t"] by auto
  next
    case False
    from "2.prems"(3) have "\<not> sublist q s" "\<not> prefix q (c # s)"
      by (auto simp: sublist_Cons_right)
    moreover from this have "\<not> prefix q (replace_all pat rep (c # s))"
      using safe_no_prefix [OF "2.prems"(1,2)] by blast
    moreover from False have "replace_all pat rep (c # s) = c # replace_all pat rep s"
      by auto
    ultimately show ?thesis using "2.IH"(2) [OF False] "2.prems"
      by (simp add: sublist_Cons_right)
  qed
qed simp

lemma replace_all_id: "\<not> sublist pat s \<Longrightarrow> replace_all pat rep s = s"
  by (induction pat rep s rule: replace_all.induct) (auto simp: sublist_Cons_right)

subsection \<open>Ordered maps\<close>

lemma bt_insert_keys: "fst ` set (bt_insert k v m) = insert k (fst ` set m)"
  by (induction k v m rule: bt_insert.induct) auto

lemma bt_insert_ok: "bt_ok m \<Longrightarrow> bt_ok (bt_insert k v m)"
proof (induction k v m rule: bt_insert.induct)
  case (2 k v k' v' m)
  then show ?case
    using bt_insert_keys [of k v m] by (auto simp: image_iff)
qed simp

lemma bt_insert_lookup: "map_of (bt_insert k v m) = (map_of m)(k \<mapsto> v)"
  by (induction k v m rule: bt_insert.induct) (auto simp: fun_eq_iff)

lemma bt_remove_subset: "set (bt_remove k m) \<subseteq> set m"
  by (induction k m rule: bt_remove.induct) auto

lemma bt_remove_ok: "bt_ok m \<Longrightarrow> bt_ok (bt_remove k m)"
proof (induction k m rule: bt_remove.induct)
  case (2 k k' v' m)
  then show ?case using bt_remove_subset [of k m] by fastforce
qed simp

lemma bt_remove_lookup: "bt_ok m \<Longrightarrow> map_of (bt_remove k m) = (map_of m)(k := None)"
proof (induction k m rule: bt_remove.induct)
  case (2 k k' v' m)
  then show ?case by (fastforce simp: fun_eq_iff map_of_eq_None_iff)
qed auto

lemma bt_insert_set: "set (bt_insert k v m) \<subseteq> insert (k, v) (set m)"
  by (induction k v m rule: bt_insert.induct) auto

lemma bt_of_lookup: "distinct (map fst kvs) \<Longrightarrow> map_of (bt_of kvs) = map_of kvs"
proof -
  have "map_of (foldl (\<lambda>m (k, v). bt_insert k v m) acc kvs) = map_of acc ++ map_of kvs"
    if "distinct (map fst kvs)" for acc
    using that
  proof (induction kvs arbitrary: acc)
    case (Cons kv kvs)
    obtain k v where kv: "kv = (k, v)" by (cases kv)
    have "map_of kvs k = None" using Cons.prems kv by (simp add: map_of_eq_None_iff)
    then show ?case using Cons kv by (auto simp: bt_insert_lookup fun_eq_iff map_add_def split: option.splits)
  qed simp
  then show "distinct (map fst kvs) \<Longrightarrow> map_of (bt_of kvs) = map_of kvs" by (simp add: bt_of_def)
qed

end
