(* ===== verification/Json_Value.thy ===== *)
theory Json_Value
  imports Complex_Main Rust_Prelude
begin

text \<open>
  The JSON tree (\<^verbatim>\<open>serde_json::Value\<close>) every layer of the sanitizer walks, and the two interfaces
  the walkers of the layers share.

  \<^item> Objects are ordered maps: the workspace does not enable \<^verbatim>\<open>preserve_order\<close>, so
    \<^verbatim>\<open>serde_json::Map\<close> is a \<^verbatim>\<open>BTreeMap\<close> and iterates in key order.
  \<^item> \<open>leaf_walk\<close> is the contract of a walker that rewrites string leaves in place with an
    accumulator and leaves the shape of the tree alone (layers L2 and L5).
  \<^item> \<open>keyed_walk\<close> is the contract of a walker that also scans object keys, rebuilds an object
    whose keys need it and threads a JSON pointer (layers L3 and L4). It is stated for walkers
    that may panic (\<open>None\<close>).
\<close>

datatype jnumber = PosInt nat | NegInt int | Float real

datatype json =
    JNull
  | JBool bool
  | JNumber jnumber
  | JStr ustr
  | JArr "json list"
  | JObj "(ustr \<times> json) list"

abbreviation fields_size :: "(ustr \<times> json) list \<Rightarrow> nat" where
  "fields_size \<equiv> size_list (size_prod (\<lambda>_. 0) size)"

abbreviation json_measure :: "json + json list + (ustr \<times> json) list \<Rightarrow> nat" where
  "json_measure \<equiv> case_sum size (case_sum (size_list size) fields_size)"

section \<open>Views of a tree\<close>

function (sequential) leaves :: "json \<Rightarrow> ustr list"
  and leaves_list :: "json list \<Rightarrow> ustr list"
  and leaves_fields :: "(ustr \<times> json) list \<Rightarrow> ustr list" where
  "leaves (JStr s) = [s]"
| "leaves (JArr vs) = leaves_list vs"
| "leaves (JObj fs) = leaves_fields fs"
| "leaves v = []"
| "leaves_list [] = []"
| "leaves_list (v # vs) = leaves v @ leaves_list vs"
| "leaves_fields [] = []"
| "leaves_fields ((k, v) # fs) = leaves v @ leaves_fields fs"
  by pat_completeness auto
termination
  by (relation "measure json_measure") auto

lemmas json_induct = leaves_leaves_list_leaves_fields.induct

function (sequential) keys_of :: "json \<Rightarrow> ustr list"
  and keys_list :: "json list \<Rightarrow> ustr list"
  and keys_fields :: "(ustr \<times> json) list \<Rightarrow> ustr list" where
  "keys_of (JArr vs) = keys_list vs"
| "keys_of (JObj fs) = keys_fields fs"
| "keys_of v = []"
| "keys_list [] = []"
| "keys_list (v # vs) = keys_of v @ keys_list vs"
| "keys_fields [] = []"
| "keys_fields ((k, v) # fs) = k # keys_of v @ keys_fields fs"
  by pat_completeness auto
termination
  by (relation "measure json_measure") auto

text \<open>The shape of a tree: every string leaf blanked, everything else kept.\<close>

function (sequential) skeleton :: "json \<Rightarrow> json"
  and skeleton_list :: "json list \<Rightarrow> json list"
  and skeleton_fields :: "(ustr \<times> json) list \<Rightarrow> (ustr \<times> json) list" where
  "skeleton (JStr s) = JStr []"
| "skeleton (JArr vs) = JArr (skeleton_list vs)"
| "skeleton (JObj fs) = JObj (skeleton_fields fs)"
| "skeleton v = v"
| "skeleton_list [] = []"
| "skeleton_list (v # vs) = skeleton v # skeleton_list vs"
| "skeleton_fields [] = []"
| "skeleton_fields ((k, v) # fs) = (k, skeleton v) # skeleton_fields fs"
  by pat_completeness auto
termination
  by (relation "measure json_measure") auto

text \<open>The \<^verbatim>\<open>BTreeMap\<close> invariant at every object of a tree.\<close>

function (sequential) json_ok :: "json \<Rightarrow> bool"
  and json_ok_list :: "json list \<Rightarrow> bool"
  and json_ok_fields :: "(ustr \<times> json) list \<Rightarrow> bool" where
  "json_ok (JArr vs) \<longleftrightarrow> json_ok_list vs"
| "json_ok (JObj fs) \<longleftrightarrow> bt_ok fs \<and> json_ok_fields fs"
| "json_ok v \<longleftrightarrow> True"
| "json_ok_list [] \<longleftrightarrow> True"
| "json_ok_list (v # vs) \<longleftrightarrow> json_ok v \<and> json_ok_list vs"
| "json_ok_fields [] \<longleftrightarrow> True"
| "json_ok_fields ((k, v) # fs) \<longleftrightarrow> json_ok v \<and> json_ok_fields fs"
  by pat_completeness auto
termination
  by (relation "measure json_measure") auto

lemma skeleton_fields_keys: "map fst (skeleton_fields fs) = map fst fs"
  by (induction fs) auto

lemma json_ok_skeleton:
  "json_ok (skeleton v) = json_ok v"
  "json_ok_list (skeleton_list vs) = json_ok_list vs"
  "json_ok_fields (skeleton_fields fs) = json_ok_fields fs"
  by (induction v and vs and fs rule: json_induct) (simp_all add: skeleton_fields_keys)

lemma keys_skeleton:
  "keys_of (skeleton v) = keys_of v"
  "keys_list (skeleton_list vs) = keys_list vs"
  "keys_fields (skeleton_fields fs) = keys_fields fs"
  by (induction v and vs and fs rule: json_induct) simp_all

lemma length_leaves_skeleton:
  "length (leaves (skeleton v)) = length (leaves v)"
  "length (leaves_list (skeleton_list vs)) = length (leaves_list vs)"
  "length (leaves_fields (skeleton_fields fs)) = length (leaves_fields fs)"
  by (induction v and vs and fs rule: json_induct) simp_all

text \<open>A tree is determined by its shape and its string leaves.\<close>

lemma skeleton_leaves_inject:
  "skeleton v = skeleton w \<Longrightarrow> leaves v = leaves w \<Longrightarrow> v = w"
  "skeleton_list vs = skeleton_list ws \<Longrightarrow> leaves_list vs = leaves_list ws \<Longrightarrow> vs = ws"
  "skeleton_fields fs = skeleton_fields gs \<Longrightarrow> leaves_fields fs = leaves_fields gs \<Longrightarrow> fs = gs"
proof (induction v and vs and fs arbitrary: w and ws and gs rule: json_induct)
  case (6 v vs)
  from "6.prems"(1) obtain w ws' where ws: "ws = w # ws'" and sk: "skeleton v = skeleton w"
    "skeleton_list vs = skeleton_list ws'" by (cases ws) auto
  from sk(1) have "length (leaves v) = length (leaves w)" by (metis length_leaves_skeleton(1))
  with "6.prems"(2) ws have "leaves v = leaves w" "leaves_list vs = leaves_list ws'" by auto
  with sk ws "6.IH" show ?case by blast
next
  case (8 k v fs)
  from "8.prems"(1) obtain w gs' where gs: "gs = (k, w) # gs'" and sk: "skeleton v = skeleton w"
    "skeleton_fields fs = skeleton_fields gs'" by (cases gs rule: skeleton_fields.cases) auto
  from sk(1) have "length (leaves v) = length (leaves w)" by (metis length_leaves_skeleton(1))
  with "8.prems"(2) gs have "leaves v = leaves w" "leaves_fields fs = leaves_fields gs'" by auto
  with sk gs "8.IH" show ?case by blast
next
  case 5
  then show ?case by (cases ws) auto
next
  case 7
  then show ?case by (cases gs) auto
next
  case (1 s)
  then show ?case by (cases w) auto
next
  case (2 vs)
  then show ?case by (cases w) auto
next
  case (3 fs)
  then show ?case by (cases w) auto
next
  case "4_1"
  then show ?case by (cases w) auto
next
  case "4_2"
  then show ?case by (cases w) auto
next
  case "4_3"
  then show ?case by (cases w) auto
qed

lemma leaves_fields_iff: "s \<in> set (leaves_fields fs) \<longleftrightarrow> (\<exists>(k, v) \<in> set fs. s \<in> set (leaves v))"
  by (induction fs) auto

lemma keys_fields_iff:
  "s \<in> set (keys_fields fs) \<longleftrightarrow> s \<in> fst ` set fs \<or> (\<exists>(k, v) \<in> set fs. s \<in> set (keys_of v))"
  by (induction fs) auto

lemma json_ok_fields_iff: "json_ok_fields fs \<longleftrightarrow> (\<forall>(k, v) \<in> set fs. json_ok v)"
  by (induction fs) auto

text \<open>Every string of a tree, key or leaf.\<close>

definition strings_of :: "json \<Rightarrow> ustr set" where
  "strings_of v = set (leaves v) \<union> set (keys_of v)"

definition strings_fields :: "(ustr \<times> json) list \<Rightarrow> ustr set" where
  "strings_fields fs = set (leaves_fields fs) \<union> set (keys_fields fs)"

lemma strings_of_simps [simp]:
  "strings_of (JStr s) = {s}"
  "strings_of JNull = {}"
  "strings_of (JBool b) = {}"
  "strings_of (JNumber n) = {}"
  "strings_of (JArr []) = {}"
  "strings_of (JArr (v # vs)) = strings_of v \<union> strings_of (JArr vs)"
  "strings_of (JObj fs) = strings_fields fs"
  by (auto simp: strings_of_def strings_fields_def)

lemma strings_fields_simps [simp]:
  "strings_fields [] = {}"
  "strings_fields ((k, v) # fs) = insert k (strings_of v \<union> strings_fields fs)"
  by (auto simp: strings_of_def strings_fields_def)

lemma strings_fields_bt_insert:
  "strings_fields (bt_insert k v fs) \<subseteq> insert k (strings_of v \<union> strings_fields fs)"
  by (induction k v fs rule: bt_insert.induct) auto

lemma json_ok_fields_bt_insert:
  "json_ok v \<Longrightarrow> json_ok_fields fs \<Longrightarrow> json_ok_fields (bt_insert k v fs)"
  by (induction k v fs rule: bt_insert.induct) auto

section \<open>Walkers that rewrite string leaves\<close>

fun run_leaves :: "(ustr \<Rightarrow> 's \<Rightarrow> (ustr \<times> 's) option) \<Rightarrow> ustr list \<Rightarrow> 's \<Rightarrow> (ustr list \<times> 's) option" where
  "run_leaves leaf [] a = Some ([], a)"
| "run_leaves leaf (s # ss) a =
     (leaf s a \<bind> (\<lambda>(s', a1). run_leaves leaf ss a1 \<bind> (\<lambda>(ss', a2). Some (s' # ss', a2))))"

lemma run_leaves_append:
  "run_leaves leaf (xs @ ys) a =
     (run_leaves leaf xs a \<bind> (\<lambda>(xs', a1).
        run_leaves leaf ys a1 \<bind> (\<lambda>(ys', a2). Some (xs' @ ys', a2))))"
  by (induction xs arbitrary: a) (auto split: Option.bind_splits)

lemma run_leaves_invariant:
  assumes "\<And>s a. I a \<Longrightarrow> \<exists>s' a'. leaf s a = Some (s', a') \<and> I a' \<and> P s'" "I a"
  shows "\<exists>ss' a'. run_leaves leaf ss a = Some (ss', a') \<and> I a' \<and> list_all P ss'"
  using assms(2)
proof (induction ss arbitrary: a)
  case (Cons s ss)
  from assms(1) [OF Cons.prems, of s] obtain s' a1 where "leaf s a = Some (s', a1)" "I a1" "P s'"
    by blast
  moreover from Cons.IH [OF this(2)] obtain ss' a2
    where "run_leaves leaf ss a1 = Some (ss', a2)" "I a2" "list_all P ss'" by blast
  ultimately show ?case by simp
qed simp

locale leaf_walk =
  fixes walk :: "json \<Rightarrow> 's \<Rightarrow> (json \<times> 's) option"
    and walk_list :: "json list \<Rightarrow> 's \<Rightarrow> (json list \<times> 's) option"
    and walk_fields :: "(ustr \<times> json) list \<Rightarrow> 's \<Rightarrow> ((ustr \<times> json) list \<times> 's) option"
    and leaf :: "ustr \<Rightarrow> 's \<Rightarrow> (ustr \<times> 's) option"
  assumes walk_str: "walk (JStr s) a = (leaf s a \<bind> (\<lambda>(s', a'). Some (JStr s', a')))"
    and walk_arr: "walk (JArr vs) a = (walk_list vs a \<bind> (\<lambda>(vs', a'). Some (JArr vs', a')))"
    and walk_obj: "walk (JObj fs) a = (walk_fields fs a \<bind> (\<lambda>(fs', a'). Some (JObj fs', a')))"
    and walk_null: "walk JNull a = Some (JNull, a)"
    and walk_bool: "walk (JBool b) a = Some (JBool b, a)"
    and walk_number: "walk (JNumber n) a = Some (JNumber n, a)"
    and walk_list_Nil: "walk_list [] a = Some ([], a)"
    and walk_list_Cons: "walk_list (v # vs) a =
      (walk v a \<bind> (\<lambda>(v', a1). walk_list vs a1 \<bind> (\<lambda>(vs', a2). Some (v' # vs', a2))))"
    and walk_fields_Nil: "walk_fields [] a = Some ([], a)"
    and walk_fields_Cons: "walk_fields ((k, v) # fs) a =
      (walk v a \<bind> (\<lambda>(v', a1). walk_fields fs a1 \<bind> (\<lambda>(fs', a2). Some ((k, v') # fs', a2))))"
begin

lemmas walk_eqs = walk_str walk_arr walk_obj walk_null walk_bool walk_number
  walk_list_Nil walk_list_Cons walk_fields_Nil walk_fields_Cons

lemma walk_skeleton:
  "walk v a = Some (v', a') \<Longrightarrow> skeleton v' = skeleton v"
  "walk_list vs a = Some (vs', a') \<Longrightarrow> skeleton_list vs' = skeleton_list vs"
  "walk_fields fs a = Some (fs', a') \<Longrightarrow> skeleton_fields fs' = skeleton_fields fs"
  by (induction v and vs and fs arbitrary: a v' a' and a vs' a' and a fs' a' rule: json_induct)
     (fastforce simp: walk_eqs bind_eq_Some_conv)+

lemma walk_leaves:
  "run_leaves leaf (leaves v) a = map_option (\<lambda>(v', a'). (leaves v', a')) (walk v a)"
  "run_leaves leaf (leaves_list vs) a =
     map_option (\<lambda>(vs', a'). (leaves_list vs', a')) (walk_list vs a)"
  "run_leaves leaf (leaves_fields fs) a =
     map_option (\<lambda>(fs', a'). (leaves_fields fs', a')) (walk_fields fs a)"
  by (induction v and vs and fs arbitrary: a and a and a rule: json_induct)
     (auto simp: walk_eqs run_leaves_append split: Option.bind_splits)

lemma walk_json_ok: "json_ok v \<Longrightarrow> walk v a = Some (v', a') \<Longrightarrow> json_ok v'"
  using walk_skeleton(1) [of v a v' a'] by (metis json_ok_skeleton(1))

lemma walk_keys: "walk v a = Some (v', a') \<Longrightarrow> keys_of v' = keys_of v"
  using walk_skeleton(1) [of v a v' a'] by (metis keys_skeleton(1))

lemma walk_invariant:
  assumes "\<And>s a. I a \<Longrightarrow> \<exists>s' a'. leaf s a = Some (s', a') \<and> I a' \<and> P s'" "I a"
  shows "\<exists>v' a'. walk v a = Some (v', a') \<and> I a' \<and> (\<forall>s \<in> set (leaves v'). P s)"
  using run_leaves_invariant [of I leaf P a "leaves v", OF assms]
  by (auto simp: walk_leaves list_all_iff)

end

section \<open>Walkers that also scan keys\<close>

text \<open>RFC 6901 escaping of a pointer segment; layers L3 and L4 each carry the same two lines.\<close>

definition escape_pointer_segment :: "ustr \<Rightarrow> ustr" where
  "escape_pointer_segment s =
     replace_all (lit ''/'') (lit ''~1'') (replace_all (lit ''~'') (lit ''~0'') s)"

text \<open>
  The pointers a walker may hand out: array indices, positional key ids, and the escaped text of
  keys that do not need rewriting. The raw text of any other key never becomes part of one.
\<close>

inductive clean_pointer :: "(ustr \<Rightarrow> bool) \<Rightarrow> ustr \<Rightarrow> bool" for needs where
  clean_root: "clean_pointer needs []"
| clean_index: "clean_pointer needs p \<Longrightarrow> clean_pointer needs (p @ lit ''/'' @ digits_of i)"
| clean_positional: "clean_pointer needs p \<Longrightarrow> clean_pointer needs (p @ lit ''/_k'' @ digits_of i)"
| clean_key: "clean_pointer needs p \<Longrightarrow>
     clean_pointer needs (p @ lit ''/_k'' @ digits_of i @ lit ''#key'')"
| clean_member: "clean_pointer needs p \<Longrightarrow> \<not> needs k \<Longrightarrow>
     clean_pointer needs (p @ lit ''/'' @ escape_pointer_segment k)"

locale keyed_walk =
  fixes walk :: "json \<Rightarrow> ustr \<Rightarrow> 'a \<Rightarrow> (json \<times> 'a) option"
    and walk_list :: "json list \<Rightarrow> nat \<Rightarrow> ustr \<Rightarrow> 'a \<Rightarrow> (json list \<times> 'a) option"
    and walk_fields :: "(ustr \<times> json) list \<Rightarrow> ustr \<Rightarrow> 'a \<Rightarrow> ((ustr \<times> json) list \<times> 'a) option"
    and walk_rekey :: "(ustr \<times> json) list \<Rightarrow> nat \<Rightarrow> ustr \<Rightarrow> (ustr \<times> json) list \<Rightarrow> 'a \<Rightarrow>
      ((ustr \<times> json) list \<times> 'a) option"
    and scan :: "ustr \<Rightarrow> ustr \<Rightarrow> (ustr \<times> 'h list \<times> bool) option"
    and needs :: "ustr \<Rightarrow> bool"
    and drops :: "bool \<Rightarrow> bool"
    and absorb :: "'h list \<Rightarrow> bool \<Rightarrow> 'a \<Rightarrow> 'a"
  assumes walk_str: "walk (JStr s) p a =
      (scan p s \<bind> (\<lambda>(s', hs, c). Some (JStr s', absorb hs c a)))"
    and walk_arr: "walk (JArr vs) p a =
      (walk_list vs 0 p a \<bind> (\<lambda>(vs', a'). Some (JArr vs', a')))"
    and walk_obj: "walk (JObj fs) p a =
      (if list_ex (\<lambda>(k, v). needs k) fs
       then walk_rekey fs 0 p [] a \<bind> (\<lambda>(m, a'). Some (JObj m, a'))
       else walk_fields fs p a \<bind> (\<lambda>(fs', a'). Some (JObj fs', a')))"
    and walk_null: "walk JNull p a = Some (JNull, a)"
    and walk_bool: "walk (JBool b) p a = Some (JBool b, a)"
    and walk_number: "walk (JNumber n) p a = Some (JNumber n, a)"
    and walk_list_Nil: "walk_list [] i p a = Some ([], a)"
    and walk_list_Cons: "walk_list (v # vs) i p a =
      (walk v (p @ lit ''/'' @ digits_of i) a \<bind> (\<lambda>(v', a1).
         walk_list vs (Suc i) p a1 \<bind> (\<lambda>(vs', a2). Some (v' # vs', a2))))"
    and walk_fields_Nil: "walk_fields [] p a = Some ([], a)"
    and walk_fields_Cons: "walk_fields ((k, v) # fs) p a =
      (walk v (p @ lit ''/'' @ escape_pointer_segment k) a \<bind> (\<lambda>(v', a1).
         walk_fields fs p a1 \<bind> (\<lambda>(fs', a2). Some ((k, v') # fs', a2))))"
    and walk_rekey_Nil: "walk_rekey [] i p m a = Some (m, a)"
    and walk_rekey_Cons: "walk_rekey ((k, v) # fs) i p m a =
      (scan (p @ lit ''/_k'' @ digits_of i @ lit ''#key'') k \<bind> (\<lambda>(k', hs, c).
         if drops c then walk_rekey fs (Suc i) p m (absorb hs c a)
         else walk v (p @ lit ''/_k'' @ digits_of i) (absorb hs c a) \<bind> (\<lambda>(v', a1).
                walk_rekey fs (Suc i) p (bt_insert k' v' m) a1)))"
begin

lemmas walk_eqs = walk_str walk_arr walk_obj walk_null walk_bool walk_number
  walk_list_Nil walk_list_Cons walk_fields_Nil walk_fields_Cons walk_rekey_Nil walk_rekey_Cons

lemma walk_total_aux:
  assumes "\<And>p s. \<exists>s' hs c. scan p s = Some (s', hs, c)"
  shows "\<exists>v' a'. walk v p a = Some (v', a')"
    and "\<exists>vs' a'. walk_list vs i p a = Some (vs', a')"
    and "(\<forall>p a. \<exists>fs' a'. walk_fields fs p a = Some (fs', a')) \<and>
         (\<forall>i p m a. \<exists>fs' a'. walk_rekey fs i p m a = Some (fs', a'))"
proof (induction v and vs and fs arbitrary: p a and i p a rule: json_induct)
  case (1 s)
  then show ?case using assms [of p s] by (auto simp: walk_str)
next
  case (6 v vs)
  obtain v' a1 where "walk v (p @ lit ''/'' @ digits_of i) a = Some (v', a1)"
    using "6.IH"(1) by blast
  moreover obtain vs' a2 where "walk_list vs (Suc i) p a1 = Some (vs', a2)"
    using "6.IH"(2) by blast
  ultimately show ?case by (simp add: walk_list_Cons)
next
  case (8 k v fs)
  have "\<exists>fs' a'. walk_fields ((k, v) # fs) p a = Some (fs', a')" for p a
  proof -
    obtain v' a1 where "walk v (p @ lit ''/'' @ escape_pointer_segment k) a = Some (v', a1)"
      using "8.IH"(1) by blast
    moreover obtain fs' a2 where "walk_fields fs p a1 = Some (fs', a2)" using "8.IH"(2) by blast
    ultimately show ?thesis by (simp add: walk_fields_Cons)
  qed
  moreover have "\<exists>fs' a'. walk_rekey ((k, v) # fs) i p m a = Some (fs', a')" for i p m a
  proof -
    obtain k' hs c where sc: "scan (p @ lit ''/_k'' @ digits_of i @ lit ''#key'') k = Some (k', hs, c)"
      using assms by blast
    obtain v' a1 where "walk v (p @ lit ''/_k'' @ digits_of i) (absorb hs c a) = Some (v', a1)"
      using "8.IH"(1) by blast
    with sc "8.IH"(2) show ?thesis by (simp add: walk_rekey_Cons)
  qed
  ultimately show ?case by blast
qed (simp_all add: walk_eqs, (metis (no_types, lifting) bind.bind_lunit case_prod_conv)+)

lemmas walk_total = walk_total_aux(1)

lemma walk_strings_aux:
  assumes "\<And>p s s' hs c. scan p s = Some (s', hs, c) \<Longrightarrow> ok s'" and "\<And>k. \<not> needs k \<Longrightarrow> ok k"
  shows "walk v p a = Some (v', a') \<Longrightarrow> Ball (strings_of v') ok"
    and "walk_list vs i p a = Some (vs', a') \<Longrightarrow> Ball (strings_of (JArr vs')) ok"
    and "(\<forall>p a fs' a'. \<not> list_ex (\<lambda>(k, v). needs k) fs \<longrightarrow> walk_fields fs p a = Some (fs', a') \<longrightarrow>
             Ball (strings_fields fs') ok) \<and>
         (\<forall>i p m a fs' a'. Ball (strings_fields m) ok \<longrightarrow> walk_rekey fs i p m a = Some (fs', a') \<longrightarrow>
             Ball (strings_fields fs') ok)"
  using assms
proof (induction v and vs and fs arbitrary: p a v' a' and i p a vs' a' rule: json_induct)
  case (8 k v fs)
  have fields: "Ball (strings_fields fs') ok"
    if nl: "\<not> list_ex (\<lambda>(k, v). needs k) ((k, v) # fs)" and w: "walk_fields ((k, v) # fs) p a = Some (fs', a')"
    for p a fs' a'
  proof -
    from w obtain v' a1 fs1 where v': "walk v (p @ lit ''/'' @ escape_pointer_segment k) a = Some (v', a1)"
      and r: "walk_fields fs p a1 = Some (fs1, a')" and eq: "fs' = (k, v') # fs1"
      by (auto simp: walk_fields_Cons bind_eq_Some_conv)
    have "Ball (strings_of v') ok" using v' "8.IH"(1) "8.prems" by blast
    moreover have "Ball (strings_fields fs1) ok"
    proof -
      from nl have "\<not> list_ex (\<lambda>(k, v). needs k) fs" by simp
      with r "8.IH"(2) "8.prems" show ?thesis by blast
    qed
    moreover have "ok k" using nl "8.prems"(2) by auto
    ultimately show ?thesis by (auto simp: eq)
  qed
  have rekey: "Ball (strings_fields fs') ok"
    if m: "Ball (strings_fields m) ok" and w: "walk_rekey ((k, v) # fs) i p m a = Some (fs', a')"
    for i p m a fs' a'
  proof -
    from w obtain k' hs c where sc: "scan (p @ lit ''/_k'' @ digits_of i @ lit ''#key'') k = Some (k', hs, c)"
      by (auto simp: walk_rekey_Cons bind_eq_Some_conv)
    show ?thesis
    proof (cases "drops c")
      case True
      from True sc w have "walk_rekey fs (Suc i) p m (absorb hs c a) = Some (fs', a')"
        by (simp add: walk_rekey_Cons)
      with m "8.IH"(2) "8.prems" show ?thesis by blast
    next
      case False
      with sc w obtain v' a1 where v': "walk v (p @ lit ''/_k'' @ digits_of i) (absorb hs c a) = Some (v', a1)"
        and r: "walk_rekey fs (Suc i) p (bt_insert k' v' m) a1 = Some (fs', a')"
        by (auto simp: walk_rekey_Cons bind_eq_Some_conv)
      have "Ball (strings_of v') ok" using v' "8.IH"(1) "8.prems" by blast
      moreover have "ok k'" using sc "8.prems"(1) by blast
      ultimately have "Ball (strings_fields (bt_insert k' v' m)) ok"
        using m strings_fields_bt_insert [of k' v' m] by blast
      with r "8.IH"(2) "8.prems" show ?thesis by blast
    qed
  qed
  from fields rekey show ?case by blast
next
  case (3 fs)
  show ?case
  proof (cases "list_ex (\<lambda>(k, v). needs k) fs")
    case True
    with "3.prems"(1) obtain m where "walk_rekey fs 0 p [] a = Some (m, a')" "v' = JObj m"
      by (auto simp: walk_obj bind_eq_Some_conv)
    moreover have "Ball (strings_fields []) ok" by simp
    ultimately show ?thesis using "3.IH" "3.prems"(2,3) by (metis strings_of_simps(7))
  next
    case False
    with "3.prems"(1) obtain m where "walk_fields fs p a = Some (m, a')" "v' = JObj m"
      by (auto simp: walk_obj bind_eq_Some_conv)
    with False "3.IH" "3.prems"(2,3) show ?thesis by (metis strings_of_simps(7))
  qed
next
  case (6 v vs)
  from "6.prems"(1) obtain v1 a1 vs1 where "walk v (p @ lit ''/'' @ digits_of i) a = Some (v1, a1)"
    and "walk_list vs (Suc i) p a1 = Some (vs1, a')" and "vs' = v1 # vs1"
    by (auto simp: walk_list_Cons bind_eq_Some_conv)
  with "6.IH" "6.prems"(2,3) show ?case by (metis Un_iff strings_of_simps(6))
qed (fastforce simp: walk_eqs bind_eq_Some_conv)+

lemmas walk_strings = walk_strings_aux(1)

lemma walk_invariant_aux:
  assumes step: "\<And>p s s' hs c a. clean_pointer needs p \<Longrightarrow> scan p s = Some (s', hs, c) \<Longrightarrow> I a \<Longrightarrow>
    I (absorb hs c a)"
  shows "clean_pointer needs p \<Longrightarrow> I a \<Longrightarrow> walk v p a = Some (v', a') \<Longrightarrow> I a'"
    and "clean_pointer needs p \<Longrightarrow> I a \<Longrightarrow> walk_list vs i p a = Some (vs', a') \<Longrightarrow> I a'"
    and "(\<forall>p a fs' a'. clean_pointer needs p \<longrightarrow> I a \<longrightarrow> \<not> list_ex (\<lambda>(k, v). needs k) fs \<longrightarrow>
             walk_fields fs p a = Some (fs', a') \<longrightarrow> I a') \<and>
         (\<forall>i p m a fs' a'. clean_pointer needs p \<longrightarrow> I a \<longrightarrow>
             walk_rekey fs i p m a = Some (fs', a') \<longrightarrow> I a')"
proof (induction v and vs and fs arbitrary: p a v' a' and i p a vs' a' rule: json_induct)
  case (1 s)
  then show ?case using step by (auto simp: walk_str bind_eq_Some_conv)
next
  case (6 v vs)
  from "6.prems"(3) obtain v1 a1 vs1 where "walk v (p @ lit ''/'' @ digits_of i) a = Some (v1, a1)"
    and r: "walk_list vs (Suc i) p a1 = Some (vs1, a')"
    by (auto simp: walk_list_Cons bind_eq_Some_conv)
  with "6.IH"(1) [OF clean_index] "6.prems" have "I a1" by blast
  with r "6.IH"(2) "6.prems" show ?case by blast
next
  case (8 k v fs)
  have "I a'" if cl: "clean_pointer needs p" and ia: "I a"
    and nl: "\<not> list_ex (\<lambda>(k, v). needs k) ((k, v) # fs)"
    and w: "walk_fields ((k, v) # fs) p a = Some (fs', a')" for p a fs' a'
  proof -
    from nl have nk: "\<not> needs k" and nl': "\<not> list_ex (\<lambda>(k, v). needs k) fs" by auto
    from w obtain v' a1 fs1 where v': "walk v (p @ lit ''/'' @ escape_pointer_segment k) a = Some (v', a1)"
      and r: "walk_fields fs p a1 = Some (fs1, a')"
      by (auto simp: walk_fields_Cons bind_eq_Some_conv)
    from "8.IH"(1) [OF clean_member [OF cl nk] ia v'] have "I a1" .
    with "8.IH"(2) cl nl' r show ?thesis by blast
  qed
  moreover have "I a'" if cl: "clean_pointer needs p" and ia: "I a"
    and w: "walk_rekey ((k, v) # fs) i p m a = Some (fs', a')" for i p m a fs' a'
  proof -
    from w obtain k' hs c where sc: "scan (p @ lit ''/_k'' @ digits_of i @ lit ''#key'') k = Some (k', hs, c)"
      by (auto simp: walk_rekey_Cons bind_eq_Some_conv)
    have ab: "I (absorb hs c a)" by (rule step [OF clean_key [OF cl] sc ia])
    show ?thesis
    proof (cases "drops c")
      case True
      from True sc w have "walk_rekey fs (Suc i) p m (absorb hs c a) = Some (fs', a')"
        by (simp add: walk_rekey_Cons)
      with ab cl "8.IH"(2) show ?thesis by blast
    next
      case False
      with sc w obtain v' a1 where v': "walk v (p @ lit ''/_k'' @ digits_of i) (absorb hs c a) = Some (v', a1)"
        and r: "walk_rekey fs (Suc i) p (bt_insert k' v' m) a1 = Some (fs', a')"
        by (auto simp: walk_rekey_Cons bind_eq_Some_conv)
      from "8.IH"(1) [OF clean_positional [OF cl] ab v'] have "I a1" .
      with "8.IH"(2) cl r show ?thesis by blast
    qed
  qed
  ultimately show ?case by blast
next
  case (3 fs)
  show ?case
  proof (cases "list_ex (\<lambda>(k, v). needs k) fs")
    case True
    with "3.prems"(3) obtain m where "walk_rekey fs 0 p [] a = Some (m, a')"
      by (auto simp: walk_obj bind_eq_Some_conv)
    with "3.IH" "3.prems"(1,2) show ?thesis by blast
  next
    case False
    with "3.prems"(3) obtain m where "walk_fields fs p a = Some (m, a')"
      by (auto simp: walk_obj bind_eq_Some_conv)
    with False "3.IH" "3.prems"(1,2) show ?thesis by blast
  qed
qed (fastforce simp: walk_eqs bind_eq_Some_conv)+

lemma walk_invariant:
  assumes "\<And>p s s' hs c a. clean_pointer needs p \<Longrightarrow> scan p s = Some (s', hs, c) \<Longrightarrow> I a \<Longrightarrow>
    I (absorb hs c a)"
  shows "I a \<Longrightarrow> walk v [] a = Some (v', a') \<Longrightarrow> I a'"
  using walk_invariant_aux(1) [of I "[]" a v v' a'] assms clean_root by blast

lemma walk_json_ok_aux:
  shows "json_ok v \<Longrightarrow> walk v p a = Some (v', a') \<Longrightarrow> json_ok v'"
    and "json_ok_list vs \<Longrightarrow> walk_list vs i p a = Some (vs', a') \<Longrightarrow> json_ok_list vs'"
    and "json_ok_fields fs \<longrightarrow>
         (\<forall>p a fs' a'. walk_fields fs p a = Some (fs', a') \<longrightarrow>
             json_ok_fields fs' \<and> map fst fs' = map fst fs) \<and>
         (\<forall>i p m a fs' a'. bt_ok m \<longrightarrow> json_ok_fields m \<longrightarrow>
             walk_rekey fs i p m a = Some (fs', a') \<longrightarrow> bt_ok fs' \<and> json_ok_fields fs')"
proof (induction v and vs and fs arbitrary: p a v' a' and i p a vs' a' rule: json_induct)
  case (6 v vs)
  from "6.prems"(2) obtain v1 a1 vs1 where "walk v (p @ lit ''/'' @ digits_of i) a = Some (v1, a1)"
    and "walk_list vs (Suc i) p a1 = Some (vs1, a')" and "vs' = v1 # vs1"
    by (auto simp: walk_list_Cons bind_eq_Some_conv)
  with "6.IH" "6.prems"(1) show ?case by auto
next
  case (8 k v fs)
  have "bt_ok fs' \<and> json_ok_fields fs'" if ok: "json_ok_fields ((k, v) # fs)" and m: "bt_ok m" "json_ok_fields m"
    and w: "walk_rekey ((k, v) # fs) i p m a = Some (fs', a')" for i p m a fs' a'
  proof -
    from w obtain k' hs c where sc: "scan (p @ lit ''/_k'' @ digits_of i @ lit ''#key'') k = Some (k', hs, c)"
      by (auto simp: walk_rekey_Cons bind_eq_Some_conv)
    show ?thesis
    proof (cases "drops c")
      case True
      from True sc w have "walk_rekey fs (Suc i) p m (absorb hs c a) = Some (fs', a')"
        by (simp add: walk_rekey_Cons)
      moreover from ok have "json_ok_fields fs" by simp
      ultimately show ?thesis using m "8.IH"(2) by blast
    next
      case False
      with sc w obtain v' a1 where v': "walk v (p @ lit ''/_k'' @ digits_of i) (absorb hs c a) = Some (v', a1)"
        and r: "walk_rekey fs (Suc i) p (bt_insert k' v' m) a1 = Some (fs', a')"
        by (auto simp: walk_rekey_Cons bind_eq_Some_conv)
      have "json_ok v'" using v' ok "8.IH"(1) by auto
      then have "bt_ok (bt_insert k' v' m)" "json_ok_fields (bt_insert k' v' m)"
        using m by (auto intro: bt_insert_ok json_ok_fields_bt_insert)
      moreover from ok have "json_ok_fields fs" by simp
      ultimately show ?thesis using r "8.IH"(2) by blast
    qed
  qed
  moreover have "json_ok_fields fs' \<and> map fst fs' = map fst ((k, v) # fs)"
    if ok: "json_ok_fields ((k, v) # fs)" and w: "walk_fields ((k, v) # fs) p a = Some (fs', a')"
    for p a fs' a'
  proof -
    from w obtain v' a1 fs1 where v': "walk v (p @ lit ''/'' @ escape_pointer_segment k) a = Some (v', a1)"
      and r: "walk_fields fs p a1 = Some (fs1, a')" and eq: "fs' = (k, v') # fs1"
      by (auto simp: walk_fields_Cons bind_eq_Some_conv)
    from ok have "json_ok v" "json_ok_fields fs" by auto
    with v' r "8.IH" have "json_ok v'" "json_ok_fields fs1 \<and> map fst fs1 = map fst fs" by blast+
    then show ?thesis by (simp add: eq)
  qed
  ultimately show ?case by blast
next
  case (3 fs)
  from "3.prems"(1) have ok: "bt_ok fs" "json_ok_fields fs" by auto
  show ?case
  proof (cases "list_ex (\<lambda>(k, v). needs k) fs")
    case True
    with "3.prems"(2) obtain m where "walk_rekey fs 0 p [] a = Some (m, a')" "v' = JObj m"
      by (auto simp: walk_obj bind_eq_Some_conv)
    moreover have "bt_ok ([] :: (ustr \<times> json) list)" "json_ok_fields []" by simp_all
    ultimately show ?thesis using "3.IH" ok by (metis json_ok.simps(2))
  next
    case False
    with "3.prems"(2) obtain m where "walk_fields fs p a = Some (m, a')" "v' = JObj m"
      by (auto simp: walk_obj bind_eq_Some_conv)
    with "3.IH" ok show ?thesis by (metis json_ok.simps(2))
  qed
qed (fastforce simp: walk_eqs bind_eq_Some_conv)+

lemmas walk_json_ok = walk_json_ok_aux(1)

text \<open>
  A quiet run: if the final accumulator satisfies a predicate that any rewriting or key scan of
  note would have destroyed, nothing was rewritten and the tree is unchanged.
\<close>

lemma walk_quiet_aux:
  assumes quiet: "\<And>p s s' hs c a. scan p s = Some (s', hs, c) \<Longrightarrow> Q (absorb hs c a) \<Longrightarrow> Q a \<and> s' = s"
    and loud: "\<And>p k k' hs c a. needs k \<Longrightarrow> scan p k = Some (k', hs, c) \<Longrightarrow> \<not> Q (absorb hs c a)"
  shows "walk v p a = Some (v', a') \<Longrightarrow> Q a' \<Longrightarrow> v' = v \<and> Q a"
    and "walk_list vs i p a = Some (vs', a') \<Longrightarrow> Q a' \<Longrightarrow> vs' = vs \<and> Q a"
    and "(\<forall>p a fs' a'. walk_fields fs p a = Some (fs', a') \<longrightarrow> Q a' \<longrightarrow> fs' = fs \<and> Q a) \<and>
         (\<forall>i p m a fs' a'. walk_rekey fs i p m a = Some (fs', a') \<longrightarrow> Q a' \<longrightarrow>
             \<not> list_ex (\<lambda>(k, v). needs k) fs \<and> Q a)"
proof (induction v and vs and fs arbitrary: p a v' a' and i p a vs' a' rule: json_induct)
  case (1 s)
  then show ?case using quiet by (fastforce simp: walk_str bind_eq_Some_conv)
next
  case (6 v vs)
  from "6.prems"(1) obtain v1 a1 vs1 where w: "walk v (p @ lit ''/'' @ digits_of i) a = Some (v1, a1)"
    and r: "walk_list vs (Suc i) p a1 = Some (vs1, a')" and eq: "vs' = v1 # vs1"
    by (auto simp: walk_list_Cons bind_eq_Some_conv)
  from "6.IH"(2) [OF r "6.prems"(2)] have "vs1 = vs" "Q a1" by simp_all
  with "6.IH"(1) [OF w] eq show ?case by simp
next
  case (8 k v fs)
  have "fs' = (k, v) # fs \<and> Q a" if w: "walk_fields ((k, v) # fs) p a = Some (fs', a')" and q: "Q a'"
    for p a fs' a'
  proof -
    from w obtain v1 a1 fs1 where v1: "walk v (p @ lit ''/'' @ escape_pointer_segment k) a = Some (v1, a1)"
      and r: "walk_fields fs p a1 = Some (fs1, a')" and eq: "fs' = (k, v1) # fs1"
      by (auto simp: walk_fields_Cons bind_eq_Some_conv)
    from "8.IH"(2) r q have "fs1 = fs" "Q a1" by blast+
    with "8.IH"(1) [OF v1] eq show ?thesis by simp
  qed
  moreover have "\<not> list_ex (\<lambda>(k, v). needs k) ((k, v) # fs) \<and> Q a"
    if w: "walk_rekey ((k, v) # fs) i p m a = Some (fs', a')" and q: "Q a'" for i p m a fs' a'
  proof -
    from w obtain k' hs c where sc: "scan (p @ lit ''/_k'' @ digits_of i @ lit ''#key'') k = Some (k', hs, c)"
      by (auto simp: walk_rekey_Cons bind_eq_Some_conv)
    have "\<not> list_ex (\<lambda>(k, v). needs k) fs \<and> Q (absorb hs c a)"
    proof (cases "drops c")
      case True
      with sc w have "walk_rekey fs (Suc i) p m (absorb hs c a) = Some (fs', a')"
        by (simp add: walk_rekey_Cons)
      with "8.IH"(2) q show ?thesis by blast
    next
      case False
      with sc w obtain v1 a1 where v1: "walk v (p @ lit ''/_k'' @ digits_of i) (absorb hs c a) = Some (v1, a1)"
        and r: "walk_rekey fs (Suc i) p (bt_insert k' v1 m) a1 = Some (fs', a')"
        by (auto simp: walk_rekey_Cons bind_eq_Some_conv)
      from "8.IH"(2) r q have "\<not> list_ex (\<lambda>(k, v). needs k) fs" "Q a1" by blast+
      with "8.IH"(1) [OF v1] show ?thesis by simp
    qed
    with loud [OF _ sc] quiet [OF sc] show ?thesis by auto
  qed
  ultimately show ?case by blast
next
  case (3 fs)
  show ?case
  proof (cases "list_ex (\<lambda>(k, v). needs k) fs")
    case True
    with "3.prems"(1) obtain m where "walk_rekey fs 0 p [] a = Some (m, a')"
      by (auto simp: walk_obj bind_eq_Some_conv)
    with "3.IH" "3.prems"(2) True show ?thesis by blast
  next
    case False
    with "3.prems"(1) obtain m where "walk_fields fs p a = Some (m, a')" "v' = JObj m"
      by (auto simp: walk_obj bind_eq_Some_conv)
    with "3.IH" "3.prems"(2) show ?thesis by blast
  qed
qed (fastforce simp: walk_eqs bind_eq_Some_conv)+

lemmas walk_quiet = walk_quiet_aux(1)

end

end
