(* ===== verification/Sanitize_Policy.thy ===== *)
theory Sanitize_Policy
  imports Json_Value
begin

text \<open>
  Policies and reports of the prompt-injection sanitizer
  (\<^verbatim>\<open>crates/stealth-sanitize/src/policy.rs\<close> and \<^verbatim>\<open>report.rs\<close>): the execution mode, the three
  presets with their budgets and toggles, the canary hit, the report attached as
  \<^verbatim>\<open>_meta.sanitize\<close> and its JSON form, and the minimal error envelope.
\<close>

section \<open>Policies\<close>

datatype Mode = Off | Warn | Enforce

datatype Preset = Strict | Balanced | PassThrough

record LimitPolicy =
  per_field_max_bytes :: nat
  total_max_bytes :: nat

definition LimitPolicy_default :: LimitPolicy where
  "LimitPolicy_default = \<lparr>per_field_max_bytes = 256 * 1024, total_max_bytes = 512 * 1024\<rparr>"

record CanaryPolicy =
  enable_critical :: bool
  enable_high :: bool
  enable_suspicious :: bool
  critical_fail_closed :: bool

definition CanaryPolicy_default :: CanaryPolicy where
  "CanaryPolicy_default =
     \<lparr>enable_critical = True, enable_high = True, enable_suspicious = True,
      critical_fail_closed = True\<rparr>"

record UnicodePolicy =
  nfkc :: bool
  strip_zero_width :: bool
  strip_tag_chars :: bool
  strip_bidi_overrides :: bool

definition UnicodePolicy_default :: UnicodePolicy where
  "UnicodePolicy_default =
     \<lparr>nfkc = True, strip_zero_width = True, strip_tag_chars = True, strip_bidi_overrides = True\<rparr>"

record SanitizePolicy =
  mode :: Mode
  limits :: LimitPolicy
  canary :: CanaryPolicy
  unicode :: UnicodePolicy
  preset_of :: "Preset option"

fun preset :: "Preset \<Rightarrow> SanitizePolicy" where
  "preset Strict =
     \<lparr>mode = Enforce,
      limits = \<lparr>per_field_max_bytes = 64 * 1024, total_max_bytes = 128 * 1024\<rparr>,
      canary = CanaryPolicy_default, unicode = UnicodePolicy_default, preset_of = Some Strict\<rparr>"
| "preset Balanced =
     \<lparr>mode = Warn, limits = LimitPolicy_default,
      canary = CanaryPolicy_default, unicode = UnicodePolicy_default, preset_of = Some Balanced\<rparr>"
| "preset PassThrough =
     \<lparr>mode = Off, limits = LimitPolicy_default,
      canary = \<lparr>enable_critical = False, enable_high = False, enable_suspicious = False,
                critical_fail_closed = False\<rparr>,
      unicode = \<lparr>nfkc = False, strip_zero_width = False, strip_tag_chars = False,
                 strip_bidi_overrides = False\<rparr>,
      preset_of = Some PassThrough\<rparr>"

definition preset_name :: "SanitizePolicy \<Rightarrow> ustr" where
  "preset_name p =
     (case preset_of p of
        Some Strict \<Rightarrow> lit ''strict''
      | Some Balanced \<Rightarrow> lit ''balanced''
      | Some PassThrough \<Rightarrow> lit ''passthrough''
      | None \<Rightarrow> lit ''custom'')"

section \<open>Reports\<close>

datatype CanarySeverity = Critical | High | Suspicious

record CanaryHit =
  canary_id :: ustr
  severity :: CanarySeverity
  offset :: nat
  length_of :: nat
  pointer :: ustr

record SanitizationReport =
  schema_version :: nat
  policy_name :: ustr
  report_mode :: Mode
  bytes_in :: nat
  bytes_out :: nat
  truncated :: bool
  aborted :: bool
  layers_applied :: "ustr list"
  canary_hits :: "CanaryHit list"
  sanitize_id :: ustr

record SanitizedEnvelope =
  payload :: json
  report :: SanitizationReport

record SanitizeErrorEnvelope =
  err_code :: int
  err_message :: ustr
  err_data :: "json option"

text \<open>The JSON the derived \<^verbatim>\<open>Serialize\<close> implementations produce: one member per field, enum
  variants in lower case.\<close>

fun mode_name :: "Mode \<Rightarrow> ustr" where
  "mode_name Off = lit ''off''"
| "mode_name Warn = lit ''warn''"
| "mode_name Enforce = lit ''enforce''"

fun severity_name :: "CanarySeverity \<Rightarrow> ustr" where
  "severity_name Critical = lit ''critical''"
| "severity_name High = lit ''high''"
| "severity_name Suspicious = lit ''suspicious''"

definition hit_to_value :: "CanaryHit \<Rightarrow> json" where
  "hit_to_value h = JObj (bt_of
     [(lit ''canary_id'', JStr (canary_id h)),
      (lit ''severity'', JStr (severity_name (severity h))),
      (lit ''offset'', JNumber (PosInt (offset h))),
      (lit ''length'', JNumber (PosInt (length_of h))),
      (lit ''pointer'', JStr (pointer h))])"

definition report_to_value :: "SanitizationReport \<Rightarrow> json" where
  "report_to_value r = JObj (bt_of
     [(lit ''schema_version'', JNumber (PosInt (schema_version r))),
      (lit ''policy_name'', JStr (policy_name r)),
      (lit ''mode'', JStr (mode_name (report_mode r))),
      (lit ''bytes_in'', JNumber (PosInt (bytes_in r))),
      (lit ''bytes_out'', JNumber (PosInt (bytes_out r))),
      (lit ''truncated'', JBool (truncated r)),
      (lit ''aborted'', JBool (aborted r)),
      (lit ''layers_applied'', JArr (map JStr (layers_applied r))),
      (lit ''canary_hits'', JArr (map hit_to_value (canary_hits r))),
      (lit ''sanitize_id'', JStr (sanitize_id r))])"

section \<open>Lemmas\<close>

lemma preset_name_preset [simp]:
  "preset_name (preset Strict) = lit ''strict''"
  "preset_name (preset Balanced) = lit ''balanced''"
  "preset_name (preset PassThrough) = lit ''passthrough''"
  by (simp_all add: preset_name_def)

text \<open>
  The presets are ordered by strictness: a preset whose mode runs the layers enables every
  canary tier, fails closed on critical hits and applies the whole Unicode layer, and the strict
  preset's budgets are no larger than those of any other preset, with the per-field budget never
  above the total budget.
\<close>

lemma presets_ordered:
  "(mode (preset q) \<noteq> Off \<longrightarrow>
      canary (preset q) = CanaryPolicy_default \<and> unicode (preset q) = UnicodePolicy_default) \<and>
   per_field_max_bytes (limits (preset Strict)) \<le> per_field_max_bytes (limits (preset q)) \<and>
   total_max_bytes (limits (preset Strict)) \<le> total_max_bytes (limits (preset q)) \<and>
   per_field_max_bytes (limits (preset q)) \<le> total_max_bytes (limits (preset q)) \<and>
   (mode (preset q) = Enforce \<longleftrightarrow> q = Strict)"
  by (cases q) (simp_all add: LimitPolicy_default_def)

end
