(* ===== verification/Sanitize_Envelope.thy ===== *)
theory Sanitize_Envelope
  imports Sanitize_Policy
begin

text \<open>
  Layer L2 of the sanitizer (\<^verbatim>\<open>crates/stealth-sanitize/src/layer2_envelope.rs\<close>): every string leaf
  is wrapped in start and end markers that carry the nonce, after any marker already in the text
  has been replaced by a harmless token.
\<close>

section \<open>Definitions\<close>

definition FORGERY_REPLACEMENT :: ustr where
  "FORGERY_REPLACEMENT = lit ''<<<U_NOSTRTAG>>>''"

definition start_marker :: ustr where
  "start_marker = lit ''<<<UNTRUSTED_CONTENT''"

definition end_marker :: ustr where
  "end_marker = lit ''<<<END_UNTRUSTED_CONTENT''"

definition neutralize_forgery :: "ustr \<Rightarrow> ustr" where
  "neutralize_forgery s =
     (let step1 = replace_all end_marker FORGERY_REPLACEMENT s
      in replace_all start_marker FORGERY_REPLACEMENT step1)"

definition envelope_head :: "ustr \<Rightarrow> ustr \<Rightarrow> ustr \<Rightarrow> ustr" where
  "envelope_head origin tool sid =
     start_marker @ lit '' origin='' @ origin @ lit '' tool='' @ tool
       @ lit '' sanitize_id='' @ sid @ lit ''>>>''"

definition envelope_tail :: "ustr \<Rightarrow> ustr" where
  "envelope_tail sid = end_marker @ lit '' sanitize_id='' @ sid @ lit ''>>>''"

definition wrap_leaf :: "ustr \<Rightarrow> ustr \<Rightarrow> ustr \<Rightarrow> ustr \<Rightarrow> ustr" where
  "wrap_leaf origin tool sid s =
     envelope_head origin tool sid @ neutralize_forgery s @ envelope_tail sid"

function (sequential) walk_l2 :: "ustr \<Rightarrow> ustr \<Rightarrow> ustr \<Rightarrow> json \<Rightarrow> nat \<Rightarrow> json \<times> nat"
  and walk_l2_list :: "ustr \<Rightarrow> ustr \<Rightarrow> ustr \<Rightarrow> json list \<Rightarrow> nat \<Rightarrow> json list \<times> nat"
  and walk_l2_fields :: "ustr \<Rightarrow> ustr \<Rightarrow> ustr \<Rightarrow> (ustr \<times> json) list \<Rightarrow> nat \<Rightarrow>
    (ustr \<times> json) list \<times> nat" where
  "walk_l2 og t sid (JStr s) n = (JStr (wrap_leaf og t sid s), n + 1)"
| "walk_l2 og t sid (JArr vs) n =
     (case walk_l2_list og t sid vs n of (vs', n') \<Rightarrow> (JArr vs', n'))"
| "walk_l2 og t sid (JObj fs) n =
     (case walk_l2_fields og t sid fs n of (fs', n') \<Rightarrow> (JObj fs', n'))"
| "walk_l2 og t sid v n = (v, n)"
| "walk_l2_list og t sid [] n = ([], n)"
| "walk_l2_list og t sid (v # vs) n =
     (case walk_l2 og t sid v n of (v', n1) \<Rightarrow>
        (case walk_l2_list og t sid vs n1 of (vs', n2) \<Rightarrow> (v' # vs', n2)))"
| "walk_l2_fields og t sid [] n = ([], n)"
| "walk_l2_fields og t sid ((k, v) # fs) n =
     (case walk_l2 og t sid v n of (v', n1) \<Rightarrow>
        (case walk_l2_fields og t sid fs n1 of (fs', n2) \<Rightarrow> ((k, v') # fs', n2)))"
  by pat_completeness auto
termination
  by (relation "measure (case_sum (\<lambda>(_, _, _, v, _). size v)
        (case_sum (\<lambda>(_, _, _, vs, _). size_list size vs) (\<lambda>(_, _, _, fs, _). fields_size fs)))") auto

text \<open>\<^verbatim>\<open>Layer2Result\<close> is the number of wrapped leaves.\<close>

definition apply_l2 :: "json \<Rightarrow> ustr \<Rightarrow> ustr \<Rightarrow> ustr \<Rightarrow> json \<times> nat" where
  "apply_l2 v origin tool sid = walk_l2 origin tool sid v 0"

section \<open>The marker texts\<close>

lemmas marker_defs = start_marker_def end_marker_def FORGERY_REPLACEMENT_def lit_def

lemma start_marker_safe: "safe_replacement start_marker FORGERY_REPLACEMENT"
  by (simp add: safe_replacement_def marker_defs)

lemma end_marker_safe: "safe_replacement end_marker FORGERY_REPLACEMENT"
  by (simp add: safe_replacement_def marker_defs)

lemma marker_not_Nil [simp]: "start_marker \<noteq> []" "end_marker \<noteq> []"
  by (simp_all add: marker_defs)

lemma neutralize_no_markers:
  "\<not> sublist end_marker (neutralize_forgery s)" "\<not> sublist start_marker (neutralize_forgery s)"
proof -
  have "\<not> sublist end_marker (replace_all end_marker FORGERY_REPLACEMENT s)"
    by (rule replace_all_removes [OF end_marker_safe]) simp
  then show "\<not> sublist end_marker (neutralize_forgery s)"
    and "\<not> sublist start_marker (neutralize_forgery s)"
    unfolding neutralize_forgery_def Let_def
    by (simp_all add: replace_all_creates_none [OF end_marker_safe]
        replace_all_removes [OF start_marker_safe])
qed

text \<open>
  Whatever the page content, the body placed inside an envelope contains neither the start
  nor the end marker, so page text cannot close the envelope early or open a new one; text that
  has no marker is not altered, so neutralising twice is neutralising once.
\<close>

lemma neutralize_forgery_sound:
  "\<not> sublist end_marker (neutralize_forgery s) \<and> \<not> sublist start_marker (neutralize_forgery s) \<and>
   (\<not> sublist end_marker s \<and> \<not> sublist start_marker s \<longrightarrow> neutralize_forgery s = s) \<and>
   neutralize_forgery (neutralize_forgery s) = neutralize_forgery s"
proof -
  have "neutralize_forgery s = s" if "\<not> sublist end_marker s" "\<not> sublist start_marker s" for s
    using that by (simp add: neutralize_forgery_def replace_all_id)
  with neutralize_no_markers [of s] show ?thesis by blast
qed

section \<open>Where a marker can occur\<close>

definition occurs_at :: "'a list \<Rightarrow> 'a list \<Rightarrow> nat \<Rightarrow> bool" where
  "occurs_at pat s i \<longleftrightarrow> prefix pat (drop i s)"

lemma occurs_at_first:
  assumes "pat \<noteq> []" "occurs_at pat s i"
  shows "i < length s \<and> s ! i = hd pat"
proof -
  from assms obtain r where r: "drop i s = pat @ r" by (auto simp: occurs_at_def prefix_def)
  with assms(1) have "drop i s \<noteq> []" by simp
  then have "i < length s" by simp
  with r assms(1) show ?thesis using hd_drop_conv_nth [of i s] by simp
qed

lemma occurs_at_append_right: "length a \<le> i \<Longrightarrow> occurs_at pat (a @ b) i = occurs_at pat b (i - length a)"
  by (simp add: occurs_at_def)

lemma occurs_at_straddle:
  assumes "occurs_at pat (a @ b) i" "i < length a" "\<not> sublist pat a"
  obtains p1 p2 where "pat = p1 @ p2" "p1 \<noteq> []" "p2 \<noteq> []" "prefix p2 b"
proof -
  from assms(1,2) have pre: "prefix pat (drop i a @ b)" by (simp add: occurs_at_def)
  have "\<not> prefix pat (drop i a)"
    using assms(3) by (meson prefix_imp_sublist sublist_drop sublist_order.order_trans)
  with pre prefix_append_cases [OF pre] obtain p2 where p2: "pat = drop i a @ p2"
    by (auto simp: prefix_def)
  with pre have "prefix p2 b" by simp
  moreover have "p2 \<noteq> []" using p2 \<open>\<not> prefix pat (drop i a)\<close> by auto
  moreover have "drop i a \<noteq> []" using assms(2) by simp
  ultimately show ?thesis using p2 that by blast
qed

lemma occurs_at_first_chars:
  assumes "pat \<noteq> []" "hd pat \<notin> set a" "occurs_at pat (a @ b) i"
  shows "length a \<le> i"
proof (rule ccontr)
  assume "\<not> length a \<le> i"
  with occurs_at_first [OF assms(1,3)] have "a ! i = hd pat" "i < length a"
    by (auto simp: nth_append)
  with assms(2) show False by (metis nth_mem)
qed

definition cross_free :: "'a list \<Rightarrow> 'a list \<Rightarrow> bool" where
  "cross_free pat t \<longleftrightarrow>
     list_all (\<lambda>p. p = [] \<or> p = pat \<or> (\<not> prefix p t \<and> \<not> prefix t p)) (suffixes pat)"

lemma no_straddle:
  assumes "cross_free pat m" "occurs_at pat (a @ m @ b) i" "i < length a" "\<not> sublist pat a"
  shows False
proof -
  from occurs_at_straddle [OF assms(2-4)] obtain p1 p2
    where p: "pat = p1 @ p2" "p1 \<noteq> []" "p2 \<noteq> []" "prefix p2 (m @ b)" .
  then have "p2 \<in> set (suffixes pat)" "p2 \<noteq> pat" by (auto simp: suffix_def)
  moreover from p(4) have "prefix p2 m \<or> prefix m p2" by (rule prefix_append_cases)
  ultimately show False using assms(1) p(3) by (auto simp: cross_free_def list_all_iff)
qed

lemma marker_cross_free:
  "cross_free end_marker end_marker" "cross_free start_marker end_marker"
  by (simp_all add: cross_free_def marker_defs)

lemma hd_markers [simp]: "hd start_marker = 60" "hd end_marker = 60"
  by (simp_all add: marker_defs)

lemma marker_in_start:
  assumes "pat = start_marker \<or> pat = end_marker" "60 \<notin> set rest"
    and "occurs_at pat (start_marker @ rest @ b) i" "i < length start_marker + length rest"
  shows "pat = start_marker \<and> i = 0"
proof -
  have "i < length start_marker"
  proof (rule ccontr)
    assume *: "\<not> i < length start_marker"
    with assms(3) have "occurs_at pat (rest @ b) (i - length start_marker)"
      by (simp add: occurs_at_append_right)
    with assms(1,2) occurs_at_first_chars [of pat rest b] have "length rest \<le> i - length start_marker"
      by auto
    with assms(4) * show False by linarith
  qed
  then have "i < 20" by (simp add: marker_defs)
  with assms(1,3) show ?thesis
    by (auto simp: occurs_at_def marker_defs drop_Cons' split: if_splits)
qed

lemma marker_in_end:
  assumes "pat = start_marker \<or> pat = end_marker" "60 \<notin> set rest" "occurs_at pat (end_marker @ rest) i"
  shows "pat = end_marker \<and> i = 0"
proof -
  have "i < length end_marker"
  proof (rule ccontr)
    assume *: "\<not> i < length end_marker"
    with assms(3) have o: "occurs_at pat (rest @ []) (i - length end_marker)"
      by (simp add: occurs_at_append_right)
    with assms(1,2) occurs_at_first_chars [of pat rest "[]"] have "length rest \<le> i - length end_marker"
      by auto
    with occurs_at_first [OF _ o] assms(1) show False by auto
  qed
  then have "i < 24" by (simp add: marker_defs)
  with assms(1,3) show ?thesis
    by (auto simp: occurs_at_def marker_defs drop_Cons' split: if_splits)
qed

lemma envelope_head_rest:
  assumes "60 \<notin> set origin" "60 \<notin> set tool" "60 \<notin> set sid"
  obtains rest where "envelope_head origin tool sid = start_marker @ rest" "60 \<notin> set rest"
  using that assms by (auto simp: envelope_head_def lit_def)

lemma envelope_tail_rest:
  assumes "60 \<notin> set sid"
  obtains rest where "envelope_tail sid = end_marker @ rest" "60 \<notin> set rest"
  using that assms by (auto simp: envelope_tail_def lit_def)

lemma marker_positions:
  assumes "pat = start_marker \<or> pat = end_marker" "\<not> sublist pat body"
    and "60 \<notin> set origin" "60 \<notin> set tool" "60 \<notin> set sid"
    and occ: "occurs_at pat (envelope_head origin tool sid @ body @ envelope_tail sid) i"
  shows "(pat = start_marker \<and> i = 0) \<or>
         (pat = end_marker \<and> i = length (envelope_head origin tool sid) + length body)"
proof -
  let ?h = "envelope_head origin tool sid"
  obtain hr where h: "?h = start_marker @ hr" "60 \<notin> set hr"
    using envelope_head_rest assms(3-5) by blast
  obtain tr where t: "envelope_tail sid = end_marker @ tr" "60 \<notin> set tr"
    using envelope_tail_rest assms(5) by blast
  consider "i < length ?h" | "length ?h \<le> i" "i < length ?h + length body"
    | "length ?h + length body \<le> i" by linarith
  then show ?thesis
  proof cases
    case 1
    with occ h show ?thesis
      using marker_in_start [OF assms(1) h(2), of "body @ envelope_tail sid" i] by simp
  next
    case 2
    with occ t have "occurs_at pat (body @ end_marker @ tr) (i - length ?h)"
      by (simp add: occurs_at_append_right)
    then show ?thesis using no_straddle [of pat end_marker body tr] marker_cross_free assms(1,2) 2
      by fastforce
  next
    case 3
    with occ t have "occurs_at pat (end_marker @ tr) (i - (length ?h + length body))"
      using occurs_at_append_right [of "?h @ body" i pat "envelope_tail sid"] by simp
    with marker_in_end [OF assms(1) t(2)] 3 show ?thesis by fastforce
  qed
qed

text \<open>
  C3. In a wrapped leaf the start marker occurs only at the very beginning and the end marker only
  right after the body, whatever the page text is, as long as the origin, the tool name and the
  nonce contain no \<^verbatim>\<open><\<close> character.
\<close>

theorem envelope_markers_unique:
  assumes "60 \<notin> set origin" "60 \<notin> set tool" "60 \<notin> set sid"
  shows "(occurs_at start_marker (wrap_leaf origin tool sid s) i \<longleftrightarrow> i = 0) \<and>
         (occurs_at end_marker (wrap_leaf origin tool sid s) j \<longleftrightarrow>
            j = length (envelope_head origin tool sid) + length (neutralize_forgery s))"
proof -
  let ?h = "envelope_head origin tool sid" and ?b = "neutralize_forgery s"
  have "occurs_at start_marker (wrap_leaf origin tool sid s) 0"
    by (simp add: occurs_at_def wrap_leaf_def envelope_head_def)
  moreover have "occurs_at end_marker (wrap_leaf origin tool sid s) (length ?h + length ?b)"
    using occurs_at_append_right [of "?h @ ?b" "length ?h + length ?b" end_marker "envelope_tail sid"]
    by (simp add: wrap_leaf_def envelope_tail_def) (simp add: occurs_at_def)
  moreover have "start_marker \<noteq> end_marker" by (simp add: marker_defs)
  moreover have "i = 0" if "occurs_at start_marker (wrap_leaf origin tool sid s) i"
    using marker_positions [of start_marker ?b origin tool sid i] that assms
      neutralize_no_markers [of s] \<open>start_marker \<noteq> end_marker\<close> by (simp add: wrap_leaf_def)
  moreover have "j = length ?h + length ?b" if "occurs_at end_marker (wrap_leaf origin tool sid s) j"
    using marker_positions [of end_marker ?b origin tool sid j] that assms
      neutralize_no_markers [of s] \<open>start_marker \<noteq> end_marker\<close> by (simp add: wrap_leaf_def)
  ultimately show ?thesis by blast
qed

theorem envelope_markers_unique_witness:
  "occurs_at end_marker (wrap_leaf (lit ''x'') (lit ''t'') (lit ''0'') (lit ''hi'')) 55"
proof -
  have "length (envelope_head (lit ''x'') (lit ''t'') (lit ''0'')) + length (neutralize_forgery (lit ''hi'')) = 55"
    by (simp add: envelope_head_def neutralize_forgery_def marker_defs)
  then show ?thesis
    using envelope_markers_unique [of "lit ''x''" "lit ''t''" "lit ''0''" "lit ''hi''" 0 55]
    by (simp add: lit_def)
qed

section \<open>The walker\<close>

interpretation l2: leaf_walk "\<lambda>v n. Some (walk_l2 og t sid v n)"
  "\<lambda>vs n. Some (walk_l2_list og t sid vs n)" "\<lambda>fs n. Some (walk_l2_fields og t sid fs n)"
  "\<lambda>s n. Some (wrap_leaf og t sid s, Suc n)" for og t sid
  by unfold_locales (simp_all add: case_prod_beta)

lemma run_wrap:
  "run_leaves (\<lambda>s n. Some (wrap_leaf og t sid s, Suc n)) ss n =
     Some (map (wrap_leaf og t sid) ss, n + length ss)"
  by (induction ss arbitrary: n) simp_all

lemma apply_l2_leaves: "leaves (fst (apply_l2 v origin tool sid)) = map (wrap_leaf origin tool sid) (leaves v)"
  and apply_l2_count: "snd (apply_l2 v origin tool sid) = length (leaves v)"
  using l2.walk_leaves(1) [of origin tool sid v 0]
  by (auto simp: apply_l2_def run_wrap split: prod.splits)

text \<open>
  Layer L2 wraps every string leaf, in place: the leaves of the result are the wrapped leaves of
  the input in the same order, object keys, numbers, booleans, nulls and the shape of the tree are
  unchanged, and the counter it reports is the number of string leaves.
\<close>

lemma apply_l2_correct:
  "leaves (fst (apply_l2 v origin tool sid)) = map (wrap_leaf origin tool sid) (leaves v) \<and>
   skeleton (fst (apply_l2 v origin tool sid)) = skeleton v \<and>
   snd (apply_l2 v origin tool sid) = length (leaves v)"
  using l2.walk_skeleton(1) [of origin tool sid v 0]
  by (auto simp: apply_l2_leaves apply_l2_count) (auto simp: apply_l2_def prod_eq_iff)

lemma apply_l2_json_ok: "json_ok v \<Longrightarrow> json_ok (fst (apply_l2 v origin tool sid))"
  using l2.walk_json_ok [of v origin tool sid 0] by (simp add: apply_l2_def prod_eq_iff)

end
