(* ===== verification/Sanitize_Clamp.thy ===== *)
theory Sanitize_Clamp
  imports Sanitize_Policy
begin

text \<open>
  Layer L5 of the sanitizer (\<^verbatim>\<open>crates/stealth-sanitize/src/layer5_clamp.rs\<close>): the per-field byte
  budget (first 80 percent, marker, last 20 percent, cut at character boundaries) and the total
  budget over all string leaves. Slices are partial: \<open>None\<close> is the panic of a slice that is out of
  range or splits a character, and the layer is shown never to reach it.
\<close>

section \<open>Definitions\<close>

definition TRUNCATED_MARKER :: ustr where
  "TRUNCATED_MARKER = lit ''[...TRUNCATED...]''"

record Layer5Result =
  l5_truncated :: bool
  bytes_kept :: nat

fun floor_loop :: "ustr \<Rightarrow> nat \<Rightarrow> nat" where
  "floor_loop s i = (if 0 < i \<and> \<not> is_char_boundary s i then floor_loop s (i - 1) else i)"

declare floor_loop.simps [simp del]

definition char_boundary_floor :: "ustr \<Rightarrow> nat \<Rightarrow> nat" where
  "char_boundary_floor s idx = floor_loop s (min idx (blen s))"

function ceil_loop :: "ustr \<Rightarrow> nat \<Rightarrow> nat" where
  "ceil_loop s i = (if i < blen s \<and> \<not> is_char_boundary s i then ceil_loop s (i + 1) else i)"
  by pat_completeness auto
termination
  by (relation "measure (\<lambda>(s, i). blen s - i)") auto

declare ceil_loop.simps [simp del]

definition char_boundary_ceil :: "ustr \<Rightarrow> nat \<Rightarrow> nat" where
  "char_boundary_ceil s idx = ceil_loop s (min idx (blen s))"

definition head_tail_clamp :: "ustr \<Rightarrow> nat \<Rightarrow> ustr option" where
  "head_tail_clamp s limit =
     (let marker_len = blen TRUNCATED_MARKER in
      if limit \<le> marker_len then Some (take limit TRUNCATED_MARKER)
      else
        let budget = limit - marker_len;
            head_budget = wrapping_mul_usize budget 80 div 100;
            tail_budget = budget - head_budget;
            head_end = char_boundary_floor s head_budget;
            tail_start = char_boundary_ceil s (blen s - tail_budget)
        in if head_end \<ge> tail_start then Some s
           else do {
             h \<leftarrow> slice_to s head_end;
             t \<leftarrow> slice_from s tail_start;
             Some (h @ TRUNCATED_MARKER @ t)
           })"

text \<open>The \<^verbatim>\<open>Value::String\<close> arm of \<^verbatim>\<open>walk\<close>.\<close>

definition clamp_leaf :: "LimitPolicy \<Rightarrow> ustr \<Rightarrow> Layer5Result \<Rightarrow> (ustr \<times> Layer5Result) option" where
  "clamp_leaf policy s acc =
     do {
       (s1, acc1) \<leftarrow>
         (if per_field_max_bytes policy < blen s
          then do { s' \<leftarrow> head_tail_clamp s (per_field_max_bytes policy);
                    Some (s', acc\<lparr>l5_truncated := True\<rparr>) }
          else Some (s, acc));
       let remaining = total_max_bytes policy - bytes_kept acc1;
       let (s2, acc2) =
         (if remaining < blen s1
          then (if blen TRUNCATED_MARKER \<le> remaining then TRUNCATED_MARKER else [],
                acc1\<lparr>l5_truncated := True\<rparr>)
          else (s1, acc1));
       Some (s2, acc2\<lparr>bytes_kept := saturating_add usize_max (bytes_kept acc2) (blen s2)\<rparr>)
     }"

function (sequential) walk_l5 :: "LimitPolicy \<Rightarrow> json \<Rightarrow> Layer5Result \<Rightarrow> (json \<times> Layer5Result) option"
  and walk_l5_list :: "LimitPolicy \<Rightarrow> json list \<Rightarrow> Layer5Result \<Rightarrow> (json list \<times> Layer5Result) option"
  and walk_l5_fields :: "LimitPolicy \<Rightarrow> (ustr \<times> json) list \<Rightarrow> Layer5Result \<Rightarrow>
    ((ustr \<times> json) list \<times> Layer5Result) option" where
  "walk_l5 pol (JStr s) acc = do { (s', acc') \<leftarrow> clamp_leaf pol s acc; Some (JStr s', acc') }"
| "walk_l5 pol (JArr vs) acc = do { (vs', acc') \<leftarrow> walk_l5_list pol vs acc; Some (JArr vs', acc') }"
| "walk_l5 pol (JObj fs) acc = do { (fs', acc') \<leftarrow> walk_l5_fields pol fs acc; Some (JObj fs', acc') }"
| "walk_l5 pol v acc = Some (v, acc)"
| "walk_l5_list pol [] acc = Some ([], acc)"
| "walk_l5_list pol (v # vs) acc =
     do { (v', a1) \<leftarrow> walk_l5 pol v acc; (vs', a2) \<leftarrow> walk_l5_list pol vs a1; Some (v' # vs', a2) }"
| "walk_l5_fields pol [] acc = Some ([], acc)"
| "walk_l5_fields pol ((k, v) # fs) acc =
     do { (v', a1) \<leftarrow> walk_l5 pol v acc; (fs', a2) \<leftarrow> walk_l5_fields pol fs a1;
          Some ((k, v') # fs', a2) }"
  by pat_completeness auto
termination
  by (relation "measure (case_sum (\<lambda>(_, v, _). size v)
        (case_sum (\<lambda>(_, vs, _). size_list size vs) (\<lambda>(_, fs, _). fields_size fs)))") auto

definition apply_l5 :: "json \<Rightarrow> LimitPolicy \<Rightarrow> (json \<times> Layer5Result) option" where
  "apply_l5 v policy = walk_l5 policy v \<lparr>l5_truncated = False, bytes_kept = 0\<rparr>"

section \<open>Boundary loops\<close>

lemma floor_loop_le: "floor_loop s i \<le> i"
  by (induction s i rule: floor_loop.induct) (subst floor_loop.simps, auto)

lemma floor_loop_boundary: "is_char_boundary s (floor_loop s i)"
  by (induction s i rule: floor_loop.induct) (subst floor_loop.simps, auto)

lemma ceil_loop_ge: "i \<le> ceil_loop s i"
proof (induction s i rule: ceil_loop.induct)
  case (1 s i)
  show ?case
  proof (cases "i < blen s \<and> \<not> is_char_boundary s i")
    case True
    from "1.IH" [OF True] True show ?thesis by (subst ceil_loop.simps) simp
  next
    case False
    then show ?thesis by (subst ceil_loop.simps) auto
  qed
qed

lemma ceil_loop_boundary: "i \<le> blen s \<Longrightarrow> is_char_boundary s (ceil_loop s i)"
proof (induction s i rule: ceil_loop.induct)
  case (1 s i)
  show ?case
  proof (cases "i < blen s \<and> \<not> is_char_boundary s i")
    case True
    with "1.IH" show ?thesis by (subst ceil_loop.simps) simp
  next
    case False
    with "1.prems" have "is_char_boundary s i" by (cases "i = blen s") auto
    with False show ?thesis by (subst ceil_loop.simps) simp
  qed
qed

lemma char_boundary_floor_props:
  "is_char_boundary s (char_boundary_floor s i)" "char_boundary_floor s i \<le> i"
  "char_boundary_floor s i \<le> blen s"
  using floor_loop_le [of s "min i (blen s)"]
  by (auto simp: char_boundary_floor_def floor_loop_boundary)

lemma char_boundary_ceil_props:
  "is_char_boundary s (char_boundary_ceil s i)" "min i (blen s) \<le> char_boundary_ceil s i"
  by (simp_all add: char_boundary_ceil_def ceil_loop_boundary ceil_loop_ge)

section \<open>The clamp\<close>

lemma marker_bytes: "blen TRUNCATED_MARKER = 17" "length TRUNCATED_MARKER = 17"
  by (simp_all add: TRUNCATED_MARKER_def lit_def)

lemma blen_take_marker: "blen (take n TRUNCATED_MARKER) = min 17 n"
proof -
  have "c < 128" if "c \<in> set TRUNCATED_MARKER" for c
    using that by (auto simp: TRUNCATED_MARKER_def lit_def)
  then have "blen (take n TRUNCATED_MARKER) = length (take n TRUNCATED_MARKER)"
    by (intro blen_ascii) (meson in_set_takeD)
  then show ?thesis by (simp add: marker_bytes)
qed

lemma head_budget_le: "wrapping_mul_usize b 80 div 100 \<le> b"
proof -
  have "wrapping_mul_usize b 80 \<le> b * 80" by (simp add: wrapping_mul_usize_def)
  then have "wrapping_mul_usize b 80 div 100 \<le> b * 80 div 100" by (rule div_le_mono)
  also have "\<dots> \<le> b" by (rule order_trans [OF div_le_mono [of "b * 80" "b * 100" 100]]) auto
  finally show ?thesis .
qed

lemma head_tail_clamp_over:
  assumes "limit < blen s"
  shows "\<exists>r. head_tail_clamp s limit = Some r \<and> blen r \<le> limit \<and>
    (17 < limit \<longrightarrow> (\<exists>h t. r = h @ TRUNCATED_MARKER @ t \<and> prefix h s \<and> suffix t s))"
proof (cases "limit \<le> 17")
  case True
  then show ?thesis by (simp add: head_tail_clamp_def marker_bytes blen_take_marker)
next
  case False
  let ?b = "limit - 17"
  let ?hb = "wrapping_mul_usize ?b 80 div 100"
  let ?tb = "?b - ?hb"
  let ?he = "char_boundary_floor s ?hb" and ?ts = "char_boundary_ceil s (blen s - ?tb)"
  have hb: "?hb \<le> ?b" by (rule head_budget_le)
  have he: "?he \<le> ?hb" by (rule char_boundary_floor_props(2))
  have ts: "blen s - ?tb \<le> ?ts"
    using char_boundary_ceil_props(2) [of "blen s - ?tb" s] by (simp add: min_def split: if_splits)
  have lt: "?he < ?ts" using hb he ts assms False by linarith
  obtain h h' where h: "s = h @ h'" "blen h = ?he" "slice_to s ?he = Some h"
    using boundary_slices [OF char_boundary_floor_props(1)] by metis
  obtain t t' where t: "s = t' @ t" "blen t' = ?ts" "slice_from s ?ts = Some t"
    using boundary_slices [OF char_boundary_ceil_props(1)] by metis
  have "blen t = blen s - ?ts" using t(1,2) by (metis blen_append add_diff_cancel_left')
  then have "blen t \<le> ?tb" using ts by linarith
  then have "blen h + 17 + blen t \<le> limit" using h(2) he hb False by linarith
  then have "blen (h @ TRUNCATED_MARKER @ t) \<le> limit" by (simp add: marker_bytes)
  moreover have "prefix h s" using h(1) by simp
  moreover have "suffix t s" using t(1) by (auto simp: suffix_def)
  ultimately show ?thesis
    using False lt h(3) t(3) by (auto simp: head_tail_clamp_def marker_bytes Let_def)
qed

text \<open>
  The per-field clamp always returns (no slice panics) and its result fits the limit: for a
  text longer than the limit the result has at most \<open>limit\<close> bytes and, when the limit has room for
  more than the marker, it is a prefix of the text, the marker, and a suffix of the text.
\<close>

lemma head_tail_clamp_fits:
  assumes "limit < blen s"
  shows "\<exists>r. head_tail_clamp s limit = Some r \<and> blen r \<le> limit \<and>
    (17 < limit \<longrightarrow> (\<exists>h t. r = h @ TRUNCATED_MARKER @ t \<and> prefix h s \<and> suffix t s))"
  by (rule head_tail_clamp_over [OF assms])

section \<open>The walker\<close>

interpretation l5: leaf_walk "walk_l5 pol" "walk_l5_list pol" "walk_l5_fields pol" "clamp_leaf pol" for pol
  by unfold_locales simp_all

lemma clamp_leaf_ok:
  assumes "bytes_kept acc \<le> total_max_bytes pol" "total_max_bytes pol \<le> usize_max"
  shows "\<exists>s' acc'. clamp_leaf pol s acc = Some (s', acc') \<and>
    bytes_kept acc' = bytes_kept acc + blen s' \<and> bytes_kept acc' \<le> total_max_bytes pol \<and>
    blen s' \<le> per_field_max_bytes pol \<and>
    (l5_truncated acc \<longrightarrow> l5_truncated acc') \<and> (\<not> l5_truncated acc' \<longrightarrow> s' = s)"
proof -
  obtain s1 acc1 where 1: "(if per_field_max_bytes pol < blen s
      then do { s' \<leftarrow> head_tail_clamp s (per_field_max_bytes pol); Some (s', acc\<lparr>l5_truncated := True\<rparr>) }
      else Some (s, acc)) = Some (s1, acc1)"
    and b: "blen s1 \<le> per_field_max_bytes pol" "bytes_kept acc1 = bytes_kept acc"
      "l5_truncated acc \<longrightarrow> l5_truncated acc1" "\<not> l5_truncated acc1 \<longrightarrow> s1 = s"
    using head_tail_clamp_over [of "per_field_max_bytes pol" s]
    by (cases "per_field_max_bytes pol < blen s") auto
  show ?thesis
    using assms b unfolding clamp_leaf_def 1
    by (auto simp: saturating_add_def marker_bytes Let_def split: if_splits)
qed

lemma run_clamp:
  assumes "bytes_kept acc \<le> total_max_bytes pol" "total_max_bytes pol \<le> usize_max"
  shows "\<exists>ss' acc'. run_leaves (clamp_leaf pol) ss acc = Some (ss', acc') \<and>
    bytes_kept acc' = bytes_kept acc + sum_list (map blen ss') \<and>
    bytes_kept acc' \<le> total_max_bytes pol \<and>
    list_all (\<lambda>s. blen s \<le> per_field_max_bytes pol) ss' \<and>
    (l5_truncated acc \<longrightarrow> l5_truncated acc') \<and> (\<not> l5_truncated acc' \<longrightarrow> ss' = ss)"
  using assms(1)
proof (induction ss arbitrary: acc)
  case (Cons s ss)
  from clamp_leaf_ok [OF Cons.prems assms(2), of s] obtain s' a1
    where 1: "clamp_leaf pol s acc = Some (s', a1)" "bytes_kept a1 = bytes_kept acc + blen s'"
      "bytes_kept a1 \<le> total_max_bytes pol" "blen s' \<le> per_field_max_bytes pol"
      "l5_truncated acc \<longrightarrow> l5_truncated a1" "\<not> l5_truncated a1 \<longrightarrow> s' = s" by blast
  from Cons.IH [OF 1(3)] obtain ss' a2
    where "run_leaves (clamp_leaf pol) ss a1 = Some (ss', a2)"
      "bytes_kept a2 = bytes_kept a1 + sum_list (map blen ss')" "bytes_kept a2 \<le> total_max_bytes pol"
      "list_all (\<lambda>s. blen s \<le> per_field_max_bytes pol) ss'"
      "l5_truncated a1 \<longrightarrow> l5_truncated a2" "\<not> l5_truncated a2 \<longrightarrow> ss' = ss" by blast
  with 1 show ?case by auto
qed simp

lemma apply_l5_result:
  assumes "total_max_bytes pol \<le> usize_max"
  shows "\<exists>v' r. apply_l5 v pol = Some (v', r) \<and> skeleton v' = skeleton v \<and>
    bytes_kept r = sum_list (map blen (leaves v')) \<and> bytes_kept r \<le> total_max_bytes pol \<and>
    (\<forall>s \<in> set (leaves v'). blen s \<le> per_field_max_bytes pol) \<and> (\<not> l5_truncated r \<longrightarrow> v' = v)"
proof -
  let ?a = "\<lparr>l5_truncated = False, bytes_kept = 0\<rparr>"
  have "bytes_kept ?a \<le> total_max_bytes pol" by simp
  from run_clamp [OF this assms, of "leaves v"] obtain ss' r
    where r: "run_leaves (clamp_leaf pol) (leaves v) ?a = Some (ss', r)"
      "bytes_kept r = sum_list (map blen ss')" "bytes_kept r \<le> total_max_bytes pol"
      "list_all (\<lambda>s. blen s \<le> per_field_max_bytes pol) ss'" "\<not> l5_truncated r \<longrightarrow> ss' = leaves v"
    by auto
  then obtain v' where v': "walk_l5 pol v ?a = Some (v', r)" "ss' = leaves v'"
    by (auto simp: l5.walk_leaves)
  have "skeleton v' = skeleton v" using l5.walk_skeleton(1) v'(1) by blast
  with v' r show ?thesis
    by (auto simp: apply_l5_def list_all_iff intro: skeleton_leaves_inject(1))
qed

text \<open>
  C4. The length layer terminates without panicking on every payload and enforces both budgets:
  each string leaf of the result fits the per-field budget, all leaves together fit the total
  budget and their total is exactly the reported number of bytes kept, only string leaves change,
  and a run that reports no truncation returned the payload unchanged. The hypothesis is that the
  total budget is a \<^verbatim>\<open>usize\<close>.
\<close>

theorem apply_l5_budgets:
  assumes "total_max_bytes pol \<le> usize_max"
  shows "\<exists>v' r. apply_l5 v pol = Some (v', r) \<and>
    (\<forall>s \<in> set (leaves v'). blen s \<le> per_field_max_bytes pol) \<and>
    sum_list (map blen (leaves v')) = bytes_kept r \<and> bytes_kept r \<le> total_max_bytes pol \<and>
    skeleton v' = skeleton v \<and> (\<not> l5_truncated r \<longrightarrow> v' = v)"
  using apply_l5_result [OF assms, of v] by auto

theorem apply_l5_budgets_witness:
  "\<exists>v' r. apply_l5 (JArr [JStr (replicate 40 97), JStr (replicate 9 98)])
      \<lparr>per_field_max_bytes = 20, total_max_bytes = 25\<rparr> = Some (v', r) \<and> bytes_kept r \<le> 25"
  using apply_l5_budgets [of "\<lparr>per_field_max_bytes = 20, total_max_bytes = 25\<rparr>"
      "JArr [JStr (replicate 40 97), JStr (replicate 9 98)]"]
  by (auto simp: usize_max_def)

lemma apply_l5_json_ok: "json_ok v \<Longrightarrow> apply_l5 v pol = Some (v', r) \<Longrightarrow> json_ok v'"
  unfolding apply_l5_def by (rule l5.walk_json_ok)

lemma apply_l5_keys: "apply_l5 v pol = Some (v', r) \<Longrightarrow> keys_of v' = keys_of v"
  unfolding apply_l5_def by (rule l5.walk_keys)

end
