(* ===== verification/Sanitize_Unicode.thy ===== *)
theory Sanitize_Unicode
  imports Sanitize_Policy
begin

text \<open>
  Layer L4 of the sanitizer (\<^verbatim>\<open>crates/stealth-sanitize/src/layer4_unicode.rs\<close>): NFKC normalization,
  then removal of zero-width characters, tag characters and bidi overrides, in string leaves and in
  object keys. NFKC itself is the \<^verbatim>\<open>unicode_normalization\<close> crate and is the parameter \<open>nf\<close> of
  every definition; no fact about it is needed.
\<close>

section \<open>Definitions\<close>

record Layer4Result =
  bidi_canaries :: "CanaryHit list"
  l4_modified :: bool

definition is_zero_width :: "uchar \<Rightarrow> bool" where
  "is_zero_width c \<longleftrightarrow> c \<in> {0x200B, 0x200C, 0x200D, 0x2060, 0xFEFF}"

definition is_tag_char :: "uchar \<Rightarrow> bool" where
  "is_tag_char c \<longleftrightarrow> 0xE0000 \<le> c \<and> c \<le> 0xE007F"

definition is_bidi_override :: "uchar \<Rightarrow> bool" where
  "is_bidi_override c \<longleftrightarrow> c \<in> {0x202D, 0x202E, 0x2066, 0x2067, 0x2068, 0x2069}"

definition bidi_hit :: "nat \<Rightarrow> ustr \<Rightarrow> CanaryHit" where
  "bidi_hit off ptr =
     \<lparr>canary_id = lit ''bidi_override'', severity = Suspicious, offset = off, length_of = 0,
      pointer = ptr\<rparr>"

text \<open>The \<^verbatim>\<open>for c in normalized.chars()\<close> loop: output, hits, byte offset in the output, and
  whether something was stripped.\<close>

fun scrub_loop :: "UnicodePolicy \<Rightarrow> ustr \<Rightarrow> ustr \<Rightarrow> ustr \<Rightarrow> CanaryHit list \<Rightarrow> nat \<Rightarrow> bool \<Rightarrow>
    ustr \<times> CanaryHit list \<times> bool" where
  "scrub_loop pol ptr [] out hits off m = (out, hits, m)"
| "scrub_loop pol ptr (c # cs) out hits off m =
     (if strip_zero_width pol \<and> is_zero_width c then scrub_loop pol ptr cs out hits off True
      else if strip_tag_chars pol \<and> is_tag_char c then scrub_loop pol ptr cs out hits off True
      else if strip_bidi_overrides pol \<and> is_bidi_override c
        then scrub_loop pol ptr cs out (hits @ [bidi_hit off ptr]) off True
      else scrub_loop pol ptr cs (out @ [c]) hits (off + len_utf8 c) m)"

definition scrub_str :: "(ustr \<Rightarrow> ustr) \<Rightarrow> ustr \<Rightarrow> ustr \<Rightarrow> UnicodePolicy \<Rightarrow>
    ustr \<times> bool \<times> CanaryHit list" where
  "scrub_str nf input ptr pol =
     (let normalized = (if nfkc pol then nf input else input)
      in case scrub_loop pol ptr normalized [] [] 0 False of
           (out, hits, modified_by_strip) \<Rightarrow>
             (out, modified_by_strip \<or> normalized \<noteq> input, hits))"

definition key_needs_scrub :: "(ustr \<Rightarrow> ustr) \<Rightarrow> ustr \<Rightarrow> UnicodePolicy \<Rightarrow> bool" where
  "key_needs_scrub nf s pol =
     (if \<not> nfkc pol \<and> \<not> strip_zero_width pol \<and> \<not> strip_tag_chars pol \<and> \<not> strip_bidi_overrides pol
      then False
      else list_ex (\<lambda>c. (strip_zero_width pol \<and> is_zero_width c) \<or>
                        (strip_tag_chars pol \<and> is_tag_char c) \<or>
                        (strip_bidi_overrides pol \<and> is_bidi_override c)) s \<or>
           (nfkc pol \<and> nf s \<noteq> s))"

definition absorb_l4 :: "CanaryHit list \<Rightarrow> bool \<Rightarrow> Layer4Result \<Rightarrow> Layer4Result" where
  "absorb_l4 hits m acc =
     (if m then acc\<lparr>l4_modified := True, bidi_canaries := bidi_canaries acc @ hits\<rparr>
      else acc\<lparr>bidi_canaries := bidi_canaries acc @ hits\<rparr>)"

function (sequential) walk_l4 :: "(ustr \<Rightarrow> ustr) \<Rightarrow> UnicodePolicy \<Rightarrow> json \<Rightarrow> ustr \<Rightarrow> Layer4Result \<Rightarrow>
      json \<times> Layer4Result"
  and walk_l4_list :: "(ustr \<Rightarrow> ustr) \<Rightarrow> UnicodePolicy \<Rightarrow> json list \<Rightarrow> nat \<Rightarrow> ustr \<Rightarrow> Layer4Result \<Rightarrow>
      json list \<times> Layer4Result"
  and walk_l4_fields :: "(ustr \<Rightarrow> ustr) \<Rightarrow> UnicodePolicy \<Rightarrow> (ustr \<times> json) list \<Rightarrow> ustr \<Rightarrow>
      Layer4Result \<Rightarrow> (ustr \<times> json) list \<times> Layer4Result"
  and walk_l4_rekey :: "(ustr \<Rightarrow> ustr) \<Rightarrow> UnicodePolicy \<Rightarrow> (ustr \<times> json) list \<Rightarrow> nat \<Rightarrow> ustr \<Rightarrow>
      (ustr \<times> json) list \<Rightarrow> Layer4Result \<Rightarrow> (ustr \<times> json) list \<times> Layer4Result" where
  "walk_l4 nf pol (JStr s) ptr acc =
     (case scrub_str nf s ptr pol of (new_s, modified, hits) \<Rightarrow>
        (JStr (if modified then new_s else s), absorb_l4 hits modified acc))"
| "walk_l4 nf pol (JArr vs) ptr acc =
     (case walk_l4_list nf pol vs 0 ptr acc of (vs', acc') \<Rightarrow> (JArr vs', acc'))"
| "walk_l4 nf pol (JObj fs) ptr acc =
     (if list_ex (\<lambda>(k, v). key_needs_scrub nf k pol) fs
      then (case walk_l4_rekey nf pol fs 0 ptr [] acc of (m, acc') \<Rightarrow> (JObj m, acc'))
      else (case walk_l4_fields nf pol fs ptr acc of (fs', acc') \<Rightarrow> (JObj fs', acc')))"
| "walk_l4 nf pol v ptr acc = (v, acc)"
| "walk_l4_list nf pol [] i ptr acc = ([], acc)"
| "walk_l4_list nf pol (v # vs) i ptr acc =
     (case walk_l4 nf pol v (ptr @ lit ''/'' @ digits_of i) acc of (v', a1) \<Rightarrow>
        (case walk_l4_list nf pol vs (Suc i) ptr a1 of (vs', a2) \<Rightarrow> (v' # vs', a2)))"
| "walk_l4_fields nf pol [] ptr acc = ([], acc)"
| "walk_l4_fields nf pol ((k, v) # fs) ptr acc =
     (case walk_l4 nf pol v (ptr @ lit ''/'' @ escape_pointer_segment k) acc of (v', a1) \<Rightarrow>
        (case walk_l4_fields nf pol fs ptr a1 of (fs', a2) \<Rightarrow> ((k, v') # fs', a2)))"
| "walk_l4_rekey nf pol [] i ptr m acc = (m, acc)"
| "walk_l4_rekey nf pol ((k, v) # fs) i ptr m acc =
     (case scrub_str nf k (ptr @ lit ''/_k'' @ digits_of i @ lit ''#key'') pol of
        (new_key, modified, hits) \<Rightarrow>
          (case walk_l4 nf pol v (ptr @ lit ''/_k'' @ digits_of i) (absorb_l4 hits modified acc) of
             (v', a1) \<Rightarrow> walk_l4_rekey nf pol fs (Suc i) ptr (bt_insert new_key v' m) a1))"
  by pat_completeness auto
termination
  by (relation "measure (case_sum
        (case_sum (\<lambda>(_, _, v, _, _). size v) (\<lambda>(_, _, vs, _, _, _). size_list size vs))
        (case_sum (\<lambda>(_, _, fs, _, _). fields_size fs) (\<lambda>(_, _, fs, _, _, _, _). fields_size fs)))") auto

definition apply_l4 :: "(ustr \<Rightarrow> ustr) \<Rightarrow> json \<Rightarrow> UnicodePolicy \<Rightarrow> json \<times> Layer4Result" where
  "apply_l4 nf v pol = walk_l4 nf pol v [] \<lparr>bidi_canaries = [], l4_modified = False\<rparr>"

section \<open>One string\<close>

definition stripped :: "UnicodePolicy \<Rightarrow> uchar \<Rightarrow> bool" where
  "stripped pol c \<longleftrightarrow> (strip_zero_width pol \<and> is_zero_width c) \<or> (strip_tag_chars pol \<and> is_tag_char c) \<or>
     (strip_bidi_overrides pol \<and> is_bidi_override c)"

lemma scrub_loop_result:
  "\<exists>hs. scrub_loop pol ptr cs out hits off m =
     (out @ filter (\<lambda>c. \<not> stripped pol c) cs, hits @ hs, m \<or> list_ex (stripped pol) cs) \<and>
     (\<forall>h \<in> set hs. canary_id h = lit ''bidi_override'' \<and> severity h = Suspicious \<and> pointer h = ptr) \<and>
     length hs \<le> length (filter (stripped pol) cs)"
proof (induction pol ptr cs out hits off m rule: scrub_loop.induct)
  case (2 pol ptr c cs out hits off m)
  then show ?case by (auto simp: stripped_def bidi_hit_def)
qed simp

lemma scrub_str_result:
  assumes "scrub_str nf s ptr pol = (s', m, hs)"
  shows "s' = filter (\<lambda>c. \<not> stripped pol c) (if nfkc pol then nf s else s)"
    and "m \<longleftrightarrow> list_ex (stripped pol) (if nfkc pol then nf s else s) \<or> (nfkc pol \<and> nf s \<noteq> s)"
    and "\<forall>h \<in> set hs. canary_id h = lit ''bidi_override'' \<and> severity h = Suspicious \<and> pointer h = ptr"
    and "\<not> m \<Longrightarrow> hs = []"
  using assms scrub_loop_result [of pol ptr "if nfkc pol then nf s else s" "[]" "[]" 0 False]
  by (auto simp: scrub_str_def Let_def list_ex_iff filter_empty_conv split: if_splits)

lemma scrub_str_unmodified: "scrub_str nf s ptr pol = (s', False, hs) \<Longrightarrow> s' = s \<and> hs = []"
  using scrub_str_result [of nf s ptr pol s' False hs]
  by (auto simp: list_ex_iff filter_id_conv split: if_splits)

lemma key_needs_scrub_iff: "key_needs_scrub nf k pol \<longleftrightarrow> fst (snd (scrub_str nf k ptr pol))"
proof -
  obtain s' m hs where sc: "scrub_str nf k ptr pol = (s', m, hs)" by (cases "scrub_str nf k ptr pol")
  show ?thesis
    using scrub_str_result(2) [OF sc] sc
    by (auto simp: key_needs_scrub_def stripped_def list_ex_iff)
qed

section \<open>The walker\<close>

interpretation l4: keyed_walk
  "\<lambda>v p a. Some (walk_l4 nf pol v p a)"
  "\<lambda>vs i p a. Some (walk_l4_list nf pol vs i p a)"
  "\<lambda>fs p a. Some (walk_l4_fields nf pol fs p a)"
  "\<lambda>fs i p m a. Some (walk_l4_rekey nf pol fs i p m a)"
  "\<lambda>p s. Some (case scrub_str nf s p pol of (s', m, hs) \<Rightarrow> (s', hs, m))"
  "\<lambda>k. key_needs_scrub nf k pol" "\<lambda>_. False" absorb_l4 for nf pol
proof (unfold_locales, goal_cases)
  case (1 s p a)
  obtain s' m hs where sc: "scrub_str nf s p pol = (s', m, hs)" by (cases "scrub_str nf s p pol")
  then show ?case using scrub_str_unmodified [of nf s p pol s' hs] by auto
qed (simp_all add: case_prod_beta)

lemma apply_l4_strings:
  assumes "apply_l4 nf v pol = (v', r)" "s \<in> strings_of v'" "c \<in> set s"
  shows "\<not> stripped pol c"
proof -
  have "Ball (strings_of v') (\<lambda>s. \<forall>c \<in> set s. \<not> stripped pol c)"
  proof (rule l4.walk_strings)
    show "\<forall>c \<in> set s'. \<not> stripped pol c"
      if "Some (case scrub_str nf s p pol of (s', m, hs) \<Rightarrow> (s', hs, m)) = Some (s', hs, c)"
      for p s s' hs c
      using that scrub_str_result(1) [of nf s p pol] by (auto split: prod.splits)
    show "\<forall>c \<in> set k. \<not> stripped pol c" if "\<not> key_needs_scrub nf k pol" for k
      using that by (auto simp: key_needs_scrub_def stripped_def list_ex_iff split: if_splits)
    show "Some (walk_l4 nf pol v [] \<lparr>bidi_canaries = [], l4_modified = False\<rparr>) = Some (v', r)"
      using assms(1) by (simp add: apply_l4_def)
  qed
  with assms(2,3) show ?thesis by blast
qed

text \<open>
  After the Unicode layer no string of the payload, neither a value nor an object key, contains
  a character of a class the policy strips, for every normalization function.
\<close>

lemma apply_l4_clean:
  assumes "s \<in> strings_of (fst (apply_l4 nf v pol))" "c \<in> set s"
  shows "\<not> (strip_zero_width pol \<and> is_zero_width c) \<and> \<not> (strip_tag_chars pol \<and> is_tag_char c) \<and>
         \<not> (strip_bidi_overrides pol \<and> is_bidi_override c)"
  using apply_l4_strings [of nf v pol _ _ s c] assms
  by (metis prod.collapse stripped_def)

lemma apply_l4_hits:
  "let r = snd (apply_l4 nf v pol) in
   (\<forall>h \<in> set (bidi_canaries r). canary_id h = lit ''bidi_override'' \<and> severity h = Suspicious \<and>
      clean_pointer (\<lambda>k. key_needs_scrub nf k pol) (pointer h)) \<and>
   (bidi_canaries r \<noteq> [] \<longrightarrow> l4_modified r)"
proof -
  let ?I = "\<lambda>r. (\<forall>h \<in> set (bidi_canaries r). canary_id h = lit ''bidi_override'' \<and>
      severity h = Suspicious \<and> clean_pointer (\<lambda>k. key_needs_scrub nf k pol) (pointer h)) \<and>
      (bidi_canaries r \<noteq> [] \<longrightarrow> l4_modified r)"
  have "?I (snd (apply_l4 nf v pol))"
  proof (rule l4.walk_invariant [of nf pol ?I])
    show "?I (absorb_l4 hs c a)"
      if "clean_pointer (\<lambda>k. key_needs_scrub nf k pol) p"
        "Some (case scrub_str nf s p pol of (s', m, hs) \<Rightarrow> (s', hs, m)) = Some (s', hs, c)" "?I a"
      for p s s' hs c a
      using that scrub_str_result(3,4) [of nf s p pol s' c hs]
      by (auto simp: absorb_l4_def split: prod.splits)
    show "?I \<lparr>bidi_canaries = [], l4_modified = False\<rparr>" by simp
    show "Some (walk_l4 nf pol v [] \<lparr>bidi_canaries = [], l4_modified = False\<rparr>) =
      Some (fst (apply_l4 nf v pol), snd (apply_l4 nf v pol))"
      by (simp add: apply_l4_def)
  qed
  then show ?thesis by (simp add: Let_def)
qed

lemma apply_l4_quiet:
  assumes "apply_l4 nf v pol = (v', r)" "\<not> l4_modified r"
  shows "v' = v"
proof -
  have "v' = v \<and> \<not> l4_modified \<lparr>bidi_canaries = [], l4_modified = False\<rparr>"
  proof (rule l4.walk_quiet [where Q = "\<lambda>a. \<not> l4_modified a"])
    show "\<not> l4_modified a \<and> s' = s"
      if "Some (case scrub_str nf s p pol of (s', m, hs) \<Rightarrow> (s', hs, m)) = Some (s', hs, c)"
        "\<not> l4_modified (absorb_l4 hs c a)" for p s s' hs c a
      using that scrub_str_unmodified [of nf s p pol s' hs]
      by (auto simp: absorb_l4_def split: prod.splits if_splits)
    show "\<not> \<not> l4_modified (absorb_l4 hs c a)"
      if "key_needs_scrub nf k pol"
        "Some (case scrub_str nf k p pol of (s', m, hs) \<Rightarrow> (s', hs, m)) = Some (k', hs, c)" for p k k' hs c a
      using that key_needs_scrub_iff [of nf k pol p] by (auto simp: absorb_l4_def split: prod.splits)
    show "Some (walk_l4 nf pol v [] \<lparr>bidi_canaries = [], l4_modified = False\<rparr>) = Some (v', r)"
      using assms(1) by (simp add: apply_l4_def)
  qed (use assms(2) in simp)
  then show ?thesis ..
qed

text \<open>
  The report of the Unicode layer is honest: a run that says it modified nothing returned the
  payload unchanged and recorded no hit, every recorded hit is a suspicious bidi-override hit, and
  its pointer is built only from indices, positional key ids and keys that needed no scrubbing, so
  it never repeats the raw text of a key that was rewritten.
\<close>

lemma apply_l4_report:
  assumes "apply_l4 nf v pol = (v', r)"
  shows "(\<not> l4_modified r \<longrightarrow> v' = v \<and> bidi_canaries r = []) \<and>
    (\<forall>h \<in> set (bidi_canaries r). canary_id h = lit ''bidi_override'' \<and> severity h = Suspicious \<and>
       clean_pointer (\<lambda>k. key_needs_scrub nf k pol) (pointer h))"
  using apply_l4_hits [of nf v pol] apply_l4_quiet [OF assms] assms by (auto simp: Let_def)

lemma apply_l4_json_ok: "json_ok v \<Longrightarrow> json_ok (fst (apply_l4 nf v pol))"
  using l4.walk_json_ok [of v nf pol "[]"] unfolding apply_l4_def by (metis prod.collapse)

end
