(* ===== verification/Sanitize_Canary.thy ===== *)
theory Sanitize_Canary
  imports Sanitize_Policy "HOL-Library.Product_Lexorder"
begin

text \<open>
  Layer L3 of the sanitizer (\<^verbatim>\<open>crates/stealth-sanitize/src/layer3_canary.rs\<close>): the tables of
  literal and regex canaries, the scan of one string (collect, sort, drop overlaps, report,
  rewrite) and the walker over values and keys.

  The matching engines are the crates \<^verbatim>\<open>aho_corasick\<close> and \<^verbatim>\<open>regex\<close>. They are the parameter
  \<open>E\<close>, a record of the three calls the code makes; \<open>engines_ok\<close> states what their documentation
  promises: matches name an existing pattern, lie on character boundaries, and a regex set reports
  exactly the patterns that have a match.
\<close>

section \<open>Rules\<close>

definition REDACTED :: ustr where
  "REDACTED = lit ''[REDACTED:injection]''"

record CanarySpec =
  spec_id :: ustr
  spec_severity :: CanarySeverity

abbreviation spec :: "string \<Rightarrow> CanarySeverity \<Rightarrow> CanarySpec" where
  "spec i sev \<equiv> \<lparr>spec_id = lit i, spec_severity = sev\<rparr>"

definition literal_specs :: "(ustr \<times> CanarySpec) list" where
  "literal_specs =
     [(lit ''<|im_start|>'', spec ''c09a'' Critical),
      (lit ''<|im_end|>'', spec ''c09b'' Critical),
      (lit ''<|endoftext|>'', spec ''c09c'' Critical),
      (lit ''<|system|>'', spec ''c09d'' Critical),
      (lit ''<|user|>'', spec ''c09e'' Critical),
      (lit ''<|assistant|>'', spec ''c09f'' Critical),
      (lit ''[INST]'', spec ''c10a'' Critical),
      (lit ''[/INST]'', spec ''c10b'' Critical),
      (lit ''<<SYS>>'', spec ''c10c'' Critical),
      (lit ''<</SYS>>'', spec ''c10d'' Critical),
      (lit ''<|fim_prefix|>'', spec ''c12a'' Critical),
      (lit ''<|fim_middle|>'', spec ''c12b'' Critical),
      (lit ''<|fim_suffix|>'', spec ''c12c'' Critical)]"

text \<open>The text of a regular expression; a percent sign stands for the backslash, which a string
  literal cannot contain and none of the patterns uses.\<close>

definition rx :: "string \<Rightarrow> ustr" where
  "rx s = map (\<lambda>c. if c = CHR ''%'' then 92 else of_char c) s"

definition regex_specs :: "(ustr \<times> CanarySpec) list" where
  "regex_specs =
     [(rx ''(?i)%bignore%s+(all%s+)?(previous|prior|above)%s+(instructions?|prompts?|directions?)%b'',
         spec ''c01'' High),
      (rx ''(?i)%bdisregard%s+(the%s+)?(system|previous|above|developer)%b'', spec ''c02'' High),
      (rx ''(?i)%bforget%s+(everything|all)%s+(previous|above)%b'', spec ''c03'' High),
      (rx ''(?i)%byou%s+are%s+now%s+(an?%s+)?(different|new|chatgpt|claude|codex)%b'', spec ''c04'' High),
      (rx ''(?i)%bnew%s+(system%s+)?(instructions?|prompt|role)%b'', spec ''c05'' High),
      (rx ''%bSYSTEM%s*[:>]'', spec ''c06'' Critical),
      (rx ''%bASSISTANT%s*[:>]'', spec ''c07'' Suspicious),
      (rx ''%bUSER%s*[:>]'', spec ''c08'' Suspicious),
      (rx ''(?i)###%s+(instruction|response|system)[:%s]'', spec ''c11'' Critical),
      (rx ''(?i)tool_call%s*:%s*%{|function_call%s*:%s*%{'', spec ''c13'' Suspicious),
      (rx ''(?i)(execute|run|invoke)%s+(the%s+)?(following|this)%s+(command|tool|function)'',
         spec ''c14'' Suspicious),
      (rx ''base64[,:]%s*[A-Za-z0-9+/]{40,}'', spec ''c15'' Suspicious),
      (rx ''(?i)curl%s+[^%s]+%s+(--data|-d|-X%s+POST)'', spec ''c16'' High),
      (rx ''(?i)%bcookie%s*[:=].{0,50}%b(send|post|fetch)%b'', spec ''c17'' High),
      (rx ''data:text/html'', spec ''c18'' High),
      (rx ''<{3,}%s*(END_)?UNTRUSTED_CONTENT'', spec ''c19'' Critical),
      (rx ''(?i)%b(you%s+are%s+claude|you%s+are%s+chatgpt|as%s+an%s+ai%s+language%s+model)%b'',
         spec ''c20'' Suspicious)]"

definition lit_specs :: "CanarySpec list" where
  "lit_specs = map snd literal_specs"

definition regex_specs_v :: "CanarySpec list" where
  "regex_specs_v = map snd regex_specs"

section \<open>Engines\<close>

record engines =
  ac_find_iter :: "ustr \<Rightarrow> (nat \<times> nat \<times> nat) list"
  set_matches :: "ustr \<Rightarrow> nat list"
  re_find_iter :: "nat \<Rightarrow> ustr \<Rightarrow> (nat \<times> nat) list"

definition span_ok :: "ustr \<Rightarrow> nat \<Rightarrow> nat \<Rightarrow> bool" where
  "span_ok s a b \<longleftrightarrow> a \<le> b \<and> is_char_boundary s a \<and> is_char_boundary s b"

definition engines_ok :: "engines \<Rightarrow> bool" where
  "engines_ok E \<longleftrightarrow>
     (\<forall>s. (\<forall>(i, a, b) \<in> set (ac_find_iter E s). i < length lit_specs \<and> span_ok s a b) \<and>
          (\<forall>i \<in> set (set_matches E s). i < length regex_specs_v \<and> re_find_iter E i s \<noteq> []) \<and>
          (\<forall>i. \<forall>(a, b) \<in> set (re_find_iter E i s). span_ok s a b))"

definition nth_opt :: "'a list \<Rightarrow> nat \<Rightarrow> 'a option" where
  "nth_opt xs i = (if i < length xs then Some (xs ! i) else None)"

section \<open>Scanning one string\<close>

definition severity_enabled :: "CanaryPolicy \<Rightarrow> CanarySeverity \<Rightarrow> bool" where
  "severity_enabled policy sev =
     (case sev of
        Critical \<Rightarrow> enable_critical policy
      | High \<Rightarrow> enable_high policy
      | Suspicious \<Rightarrow> enable_suspicious policy)"

text \<open>An index outside the table panics. Here it counts as a match: the object then takes the
  rebuild path, where \<open>scan_string\<close> panics on the same key.\<close>

definition spec_enabled :: "CanaryPolicy \<Rightarrow> CanarySpec option \<Rightarrow> bool" where
  "spec_enabled policy sp =
     (case sp of None \<Rightarrow> True | Some sp \<Rightarrow> severity_enabled policy (spec_severity sp))"

definition has_any_canary_match :: "engines \<Rightarrow> ustr \<Rightarrow> CanaryPolicy \<Rightarrow> bool" where
  "has_any_canary_match E s policy \<longleftrightarrow>
     list_ex (\<lambda>(i, a, b). spec_enabled policy (nth_opt lit_specs i)) (ac_find_iter E s) \<or>
     list_ex (\<lambda>i. spec_enabled policy (nth_opt regex_specs_v i)) (set_matches E s)"

record Match =
  m_start :: nat
  m_end :: nat
  m_spec :: CanarySpec

fun literal_matches :: "CanaryPolicy \<Rightarrow> (nat \<times> nat \<times> nat) list \<Rightarrow> Match list option" where
  "literal_matches policy [] = Some []"
| "literal_matches policy ((i, a, b) # ms) = do {
     sp \<leftarrow> nth_opt lit_specs i;
     rest \<leftarrow> literal_matches policy ms;
     Some (if severity_enabled policy (spec_severity sp)
           then \<lparr>m_start = a, m_end = b, m_spec = sp\<rparr> # rest else rest) }"

fun regex_matches :: "engines \<Rightarrow> CanaryPolicy \<Rightarrow> ustr \<Rightarrow> nat list \<Rightarrow> Match list option" where
  "regex_matches E policy s [] = Some []"
| "regex_matches E policy s (i # is) = do {
     sp \<leftarrow> nth_opt regex_specs_v i;
     rest \<leftarrow> regex_matches E policy s is;
     Some (if severity_enabled policy (spec_severity sp)
           then map (\<lambda>(a, b). \<lparr>m_start = a, m_end = b, m_spec = sp\<rparr>) (re_find_iter E i s) @ rest
           else rest) }"

definition match_key :: "Match \<Rightarrow> nat \<times> int" where
  "match_key m = (m_start m, - int (m_end m - m_start m))"

fun drop_overlaps :: "Match option \<Rightarrow> Match list \<Rightarrow> Match list" where
  "drop_overlaps prev [] = []"
| "drop_overlaps prev (m # ms) =
     (if (case prev of None \<Rightarrow> False | Some p \<Rightarrow> m_start m < m_end p)
      then drop_overlaps prev ms
      else m # drop_overlaps (Some m) ms)"

definition hit_of :: "ustr \<Rightarrow> Match \<Rightarrow> CanaryHit" where
  "hit_of ptr m =
     \<lparr>canary_id = spec_id (m_spec m), severity = spec_severity (m_spec m),
      offset = m_start m, length_of = m_end m - m_start m, pointer = ptr\<rparr>"

definition replacement :: "Mode \<Rightarrow> Match \<Rightarrow> ustr option" where
  "replacement md m =
     (case spec_severity (m_spec m) of
        High \<Rightarrow> Some REDACTED
      | Critical \<Rightarrow> (if md = Enforce then Some [] else None)
      | Suspicious \<Rightarrow> None)"

fun rewrite_loop :: "ustr \<Rightarrow> Mode \<Rightarrow> Match list \<Rightarrow> nat \<Rightarrow> ustr \<Rightarrow> ustr option" where
  "rewrite_loop input md [] cursor out = do { t \<leftarrow> slice_from input cursor; Some (out @ t) }"
| "rewrite_loop input md (m # ms) cursor out =
     (case replacement md m of
        None \<Rightarrow> rewrite_loop input md ms cursor out
      | Some rep \<Rightarrow> do {
          gap \<leftarrow> slice input cursor (m_start m);
          rewrite_loop input md ms (m_end m) (out @ gap @ rep) })"

definition collect_matches :: "engines \<Rightarrow> CanaryPolicy \<Rightarrow> ustr \<Rightarrow> Match list option" where
  "collect_matches E policy input = do {
     lits \<leftarrow> literal_matches policy (ac_find_iter E input);
     regs \<leftarrow> regex_matches E policy input (set_matches E input);
     Some (lits @ regs) }"

definition kept_matches :: "Match list \<Rightarrow> Match list" where
  "kept_matches ms = drop_overlaps None (sort_key match_key ms)"

definition scan_string :: "engines \<Rightarrow> ustr \<Rightarrow> ustr \<Rightarrow> CanaryPolicy \<Rightarrow> Mode \<Rightarrow>
    (ustr \<times> CanaryHit list \<times> bool) option" where
  "scan_string E input ptr policy md = do {
     matches \<leftarrow> collect_matches E policy input;
     if matches = [] then Some (input, [], False)
     else do {
       let kept = kept_matches matches;
       let hits = map (hit_of ptr) kept;
       let critical_seen = list_ex (\<lambda>m. spec_severity (m_spec m) = Critical) kept;
       out \<leftarrow> rewrite_loop input md kept 0 [];
       Some (out, hits, critical_seen) } }"

section \<open>The walker\<close>

record Layer3Result =
  l3_hits :: "CanaryHit list"
  critical_seen :: bool

definition absorb_l3 :: "CanaryHit list \<Rightarrow> bool \<Rightarrow> Layer3Result \<Rightarrow> Layer3Result" where
  "absorb_l3 hits crit acc =
     (if crit then acc\<lparr>critical_seen := True, l3_hits := l3_hits acc @ hits\<rparr>
      else acc\<lparr>l3_hits := l3_hits acc @ hits\<rparr>)"

function (sequential) walk_l3 :: "engines \<Rightarrow> CanaryPolicy \<Rightarrow> Mode \<Rightarrow> json \<Rightarrow> ustr \<Rightarrow> Layer3Result \<Rightarrow>
      (json \<times> Layer3Result) option"
  and walk_l3_list :: "engines \<Rightarrow> CanaryPolicy \<Rightarrow> Mode \<Rightarrow> json list \<Rightarrow> nat \<Rightarrow> ustr \<Rightarrow> Layer3Result \<Rightarrow>
      (json list \<times> Layer3Result) option"
  and walk_l3_fields :: "engines \<Rightarrow> CanaryPolicy \<Rightarrow> Mode \<Rightarrow> (ustr \<times> json) list \<Rightarrow> ustr \<Rightarrow>
      Layer3Result \<Rightarrow> ((ustr \<times> json) list \<times> Layer3Result) option"
  and walk_l3_rekey :: "engines \<Rightarrow> CanaryPolicy \<Rightarrow> Mode \<Rightarrow> (ustr \<times> json) list \<Rightarrow> nat \<Rightarrow> ustr \<Rightarrow>
      (ustr \<times> json) list \<Rightarrow> Layer3Result \<Rightarrow> ((ustr \<times> json) list \<times> Layer3Result) option" where
  "walk_l3 E pol md (JStr s) ptr acc = do {
     (new_s, hits, crit) \<leftarrow> scan_string E s ptr pol md;
     Some (JStr (if new_s \<noteq> s then new_s else s), absorb_l3 hits crit acc) }"
| "walk_l3 E pol md (JArr vs) ptr acc = do {
     (vs', acc') \<leftarrow> walk_l3_list E pol md vs 0 ptr acc; Some (JArr vs', acc') }"
| "walk_l3 E pol md (JObj fs) ptr acc =
     (if list_ex (\<lambda>(k, v). has_any_canary_match E k pol) fs
      then do { (m, acc') \<leftarrow> walk_l3_rekey E pol md fs 0 ptr [] acc; Some (JObj m, acc') }
      else do { (fs', acc') \<leftarrow> walk_l3_fields E pol md fs ptr acc; Some (JObj fs', acc') })"
| "walk_l3 E pol md v ptr acc = Some (v, acc)"
| "walk_l3_list E pol md [] i ptr acc = Some ([], acc)"
| "walk_l3_list E pol md (v # vs) i ptr acc = do {
     (v', a1) \<leftarrow> walk_l3 E pol md v (ptr @ lit ''/'' @ digits_of i) acc;
     (vs', a2) \<leftarrow> walk_l3_list E pol md vs (Suc i) ptr a1;
     Some (v' # vs', a2) }"
| "walk_l3_fields E pol md [] ptr acc = Some ([], acc)"
| "walk_l3_fields E pol md ((k, v) # fs) ptr acc = do {
     (v', a1) \<leftarrow> walk_l3 E pol md v (ptr @ lit ''/'' @ escape_pointer_segment k) acc;
     (fs', a2) \<leftarrow> walk_l3_fields E pol md fs ptr a1;
     Some ((k, v') # fs', a2) }"
| "walk_l3_rekey E pol md [] i ptr m acc = Some (m, acc)"
| "walk_l3_rekey E pol md ((k, v) # fs) i ptr m acc = do {
     (new_key, hits, crit) \<leftarrow> scan_string E k (ptr @ lit ''/_k'' @ digits_of i @ lit ''#key'') pol md;
     let drop_entry = (crit \<and> md = Enforce);
     if drop_entry then walk_l3_rekey E pol md fs (Suc i) ptr m (absorb_l3 hits crit acc)
     else do {
       (v', a1) \<leftarrow> walk_l3 E pol md v (ptr @ lit ''/_k'' @ digits_of i) (absorb_l3 hits crit acc);
       walk_l3_rekey E pol md fs (Suc i) ptr (bt_insert new_key v' m) a1 } }"
  by pat_completeness auto
termination
  by (relation "measure (case_sum
        (case_sum (\<lambda>(_, _, _, v, _, _). size v) (\<lambda>(_, _, _, vs, _, _, _). size_list size vs))
        (case_sum (\<lambda>(_, _, _, fs, _, _). fields_size fs)
           (\<lambda>(_, _, _, fs, _, _, _, _). fields_size fs)))") auto

definition apply_l3 :: "engines \<Rightarrow> json \<Rightarrow> CanaryPolicy \<Rightarrow> Mode \<Rightarrow> (json \<times> Layer3Result) option" where
  "apply_l3 E v policy md = walk_l3 E policy md v [] \<lparr>l3_hits = [], critical_seen = False\<rparr>"

section \<open>Collecting and ordering matches\<close>

lemma literal_matches_ok:
  assumes "\<forall>(i, a, b) \<in> set ms. i < length lit_specs"
  shows "\<exists>r. literal_matches policy ms = Some r \<and>
    set r = {\<lparr>m_start = a, m_end = b, m_spec = lit_specs ! i\<rparr> | i a b.
       (i, a, b) \<in> set ms \<and> severity_enabled policy (spec_severity (lit_specs ! i))}"
  using assms
proof (induction policy ms rule: literal_matches.induct)
  case (2 policy i a b ms)
  then obtain r where "literal_matches policy ms = Some r" and
    "set r = {\<lparr>m_start = a, m_end = b, m_spec = lit_specs ! i\<rparr> | i a b.
       (i, a, b) \<in> set ms \<and> severity_enabled policy (spec_severity (lit_specs ! i))}"
    by (auto simp: nth_opt_def)
  with "2.prems" show ?case by (auto simp: nth_opt_def)
qed simp

lemma regex_matches_ok:
  assumes "\<forall>i \<in> set is. i < length regex_specs_v"
  shows "\<exists>r. regex_matches E policy s is = Some r \<and>
    set r = {\<lparr>m_start = a, m_end = b, m_spec = regex_specs_v ! i\<rparr> | i a b.
       i \<in> set is \<and> (a, b) \<in> set (re_find_iter E i s) \<and>
       severity_enabled policy (spec_severity (regex_specs_v ! i))}"
  using assms
proof (induction E policy s "is" rule: regex_matches.induct)
  case (2 E policy s i "is")
  then obtain r where "regex_matches E policy s is = Some r" and
    "set r = {\<lparr>m_start = a, m_end = b, m_spec = regex_specs_v ! i\<rparr> | i a b.
       i \<in> set is \<and> (a, b) \<in> set (re_find_iter E i s) \<and>
       severity_enabled policy (spec_severity (regex_specs_v ! i))}"
    by (auto simp: nth_opt_def)
  with "2.prems" show ?case by (auto simp: nth_opt_def)
qed simp

text \<open>What the engines report for a text under a policy, as a set of matches.\<close>

definition reported :: "engines \<Rightarrow> CanaryPolicy \<Rightarrow> ustr \<Rightarrow> Match set" where
  "reported E policy s =
     {\<lparr>m_start = a, m_end = b, m_spec = lit_specs ! i\<rparr> | i a b.
        (i, a, b) \<in> set (ac_find_iter E s) \<and> severity_enabled policy (spec_severity (lit_specs ! i))} \<union>
     {\<lparr>m_start = a, m_end = b, m_spec = regex_specs_v ! i\<rparr> | i a b.
        i \<in> set (set_matches E s) \<and> (a, b) \<in> set (re_find_iter E i s) \<and>
        severity_enabled policy (spec_severity (regex_specs_v ! i))}"

lemma collect_matches_ok:
  assumes "engines_ok E"
  obtains ms where "collect_matches E policy s = Some ms" "set ms = reported E policy s"
proof -
  from assms have "\<forall>(i, a, b) \<in> set (ac_find_iter E s). i < length lit_specs"
    and "\<forall>i \<in> set (set_matches E s). i < length regex_specs_v"
    by (auto simp: engines_ok_def)
  from literal_matches_ok [OF this(1), of policy] regex_matches_ok [OF this(2), of E policy s] that
  show ?thesis by (auto simp: collect_matches_def reported_def)
qed

lemma reported_span: "engines_ok E \<Longrightarrow> m \<in> reported E policy s \<Longrightarrow> span_ok s (m_start m) (m_end m)"
  by (fastforce simp: engines_ok_def reported_def)

lemma reported_enabled: "m \<in> reported E policy s \<Longrightarrow> severity_enabled policy (spec_severity (m_spec m))"
  by (auto simp: reported_def)

lemma reported_empty_iff:
  assumes "engines_ok E"
  shows "reported E policy s = {} \<longleftrightarrow> \<not> has_any_canary_match E s policy"
proof -
  have "re_find_iter E i s \<noteq> [] \<and> i < length regex_specs_v" if "i \<in> set (set_matches E s)" for i
    using assms that by (auto simp: engines_ok_def)
  moreover have "i < length lit_specs" if "(i, a, b) \<in> set (ac_find_iter E s)" for i a b
    using assms that by (auto simp: engines_ok_def)
  ultimately show ?thesis
    by (auto simp: reported_def has_any_canary_match_def spec_enabled_def nth_opt_def list_ex_iff)
       (metis list.set_intros(1) neq_Nil_conv surj_pair)+
qed

section \<open>Dropping overlaps\<close>

abbreviation before :: "Match \<Rightarrow> Match \<Rightarrow> bool" where
  "before x y \<equiv> m_end x \<le> m_start y"

lemma drop_overlaps_subset: "set (drop_overlaps prev ms) \<subseteq> set ms"
  by (induction prev ms rule: drop_overlaps.induct) auto

lemma drop_overlaps_after:
  assumes "sorted (map m_start ms)" "\<forall>m \<in> set ms. m_start m \<le> m_end m"
    and "m \<in> set (drop_overlaps (Some p) ms)"
  shows "before p m"
  using assms
proof (induction "Some p" ms arbitrary: p rule: drop_overlaps.induct)
  case (2 x xs)
  show ?case
  proof (cases "m_start x < m_end p")
    case True
    with 2 show ?thesis by auto
  next
    case False
    with 2 show ?thesis by (fastforce dest: order_trans)
  qed
qed simp

lemma drop_overlaps_disjoint:
  assumes "sorted (map m_start ms)" "\<forall>m \<in> set ms. m_start m \<le> m_end m"
  shows "sorted_wrt before (drop_overlaps prev ms)"
  using assms
proof (induction prev ms rule: drop_overlaps.induct)
  case (2 prev m ms)
  then show ?case using drop_overlaps_after [of ms _ m] by auto
qed simp

lemma drop_overlaps_covers:
  assumes "sorted (map m_start ms)" "m \<in> set ms" "\<forall>p m. prev = Some p \<longrightarrow> m \<in> set ms \<longrightarrow> m_start p \<le> m_start m"
  shows "\<exists>k. (k \<in> set (drop_overlaps prev ms) \<or> prev = Some k) \<and> m_start k \<le> m_start m \<and>
    (k = m \<or> m_start m < m_end k)"
  using assms
proof (induction prev ms rule: drop_overlaps.induct)
  case (2 prev x ms)
  show ?case
  proof (cases "case prev of None \<Rightarrow> False | Some p \<Rightarrow> m_start x < m_end p")
    case True
    then obtain p where p: "prev = Some p" "m_start x < m_end p" by (auto split: option.splits)
    show ?thesis
    proof (cases "m = x")
      case True
      with p "2.prems"(3) show ?thesis by auto
    next
      case False
      with True 2 show ?thesis by auto
    qed
  next
    case False
    show ?thesis
    proof (cases "m = x")
      case True
      with False show ?thesis by auto
    next
      case ne: False
      with "2.prems" have "m \<in> set ms" "sorted (map m_start ms)"
        "\<forall>p m. Some x = Some p \<longrightarrow> m \<in> set ms \<longrightarrow> m_start p \<le> m_start m" by auto
      from "2.IH"(2) [OF False this(2,1,3)] False show ?thesis by auto
    qed
  qed
qed simp

lemma sort_matches_start: "sorted (map m_start (sort_key match_key ms))"
proof -
  have "sorted (map match_key (sort_key match_key ms))" by simp
  then have "sorted_wrt (\<lambda>a b. match_key a \<le> match_key b) (sort_key match_key ms)"
    by (simp add: sorted_map)
  then have "sorted_wrt (\<lambda>a b. m_start a \<le> m_start b) (sort_key match_key ms)"
    by (rule sorted_wrt_mono_rel [rotated]) (auto simp: match_key_def less_eq_prod_def)
  then show ?thesis by (simp add: sorted_map)
qed

lemma kept_matches_props:
  assumes "\<forall>m \<in> set ms. m_start m \<le> m_end m"
  shows "set (kept_matches ms) \<subseteq> set ms" "sorted_wrt before (kept_matches ms)"
    and "m \<in> set ms \<Longrightarrow> \<exists>k \<in> set (kept_matches ms). m_start k \<le> m_start m \<and> (k = m \<or> m_start m < m_end k)"
  using drop_overlaps_subset [of None "sort_key match_key ms"]
    drop_overlaps_disjoint [of "sort_key match_key ms" None] assms sort_matches_start [of ms]
    drop_overlaps_covers [of "sort_key match_key ms" m None]
  by (auto simp: kept_matches_def)

lemma kept_matches_Nil: "kept_matches ms = [] \<longleftrightarrow> ms = []"
proof
  assume k: "kept_matches ms = []"
  show "ms = []"
  proof (cases "sort_key match_key ms")
    case Nil
    then show ?thesis by (metis set_sort set_empty)
  next
    case (Cons x xs)
    with k show ?thesis by (simp add: kept_matches_def)
  qed
qed (simp add: kept_matches_def)

section \<open>Rewriting\<close>

text \<open>
  A text cut at the kept matches: gaps and matched pieces in turn, the tail last. \<open>segs_at\<close> says
  the cut is at the reported byte offsets, \<open>segs_out\<close> is the text with each matched piece replaced
  as its severity and the mode demand.
\<close>

fun segs_text :: "(ustr \<times> ustr) list \<Rightarrow> ustr \<Rightarrow> ustr" where
  "segs_text [] t = t"
| "segs_text ((g, x) # ss) t = g @ x @ segs_text ss t"

fun segs_out :: "Mode \<Rightarrow> Match list \<Rightarrow> (ustr \<times> ustr) list \<Rightarrow> ustr \<Rightarrow> ustr" where
  "segs_out md (m # ms) ((g, x) # ss) t =
     g @ (case replacement md m of None \<Rightarrow> x | Some r \<Rightarrow> r) @ segs_out md ms ss t"
| "segs_out md _ _ t = t"

fun segs_at :: "nat \<Rightarrow> Match list \<Rightarrow> (ustr \<times> ustr) list \<Rightarrow> bool" where
  "segs_at off [] [] \<longleftrightarrow> True"
| "segs_at off (m # ms) ((g, x) # ss) \<longleftrightarrow>
     m_start m = off + blen g \<and> m_end m = m_start m + blen x \<and> segs_at (m_end m) ms ss"
| "segs_at off _ _ \<longleftrightarrow> False"

lemma split_span:
  assumes "span_ok (a @ r) (blen a + i) (blen a + j)"
  obtains g x r' where "r = g @ x @ r'" "blen g = i" "blen g + blen x = j"
proof -
  from assms have ij: "i \<le> j" "is_char_boundary r i" "is_char_boundary r j"
    by (auto simp: span_ok_def is_char_boundary_append)
  then obtain p q where pq: "r = p @ q" "blen p = j" by (auto simp: is_char_boundary_iff)
  from ij(2) obtain g h where gh: "r = g @ h" "blen g = i" by (auto simp: is_char_boundary_iff)
  from pq(1) gh(1) have "prefix g p \<or> prefix p g" by (metis prefixI prefix_same_cases)
  then show ?thesis
  proof
    assume "prefix g p"
    then obtain x where "p = g @ x" by (auto simp: prefix_def)
    with pq gh show ?thesis using that by simp
  next
    assume "prefix p g"
    then obtain x where x: "g = p @ x" by (auto simp: prefix_def)
    with pq(2) gh(2) ij(1) have "blen x = 0" by (simp del: blen_eq_0)
    then have "x = []" by simp
    with x pq gh show ?thesis using that [of g "[]" h] by simp
  qed
qed

lemma rewrite_loop_ok:
  assumes "sorted_wrt before ms" "\<forall>m \<in> set ms. span_ok input (m_start m) (m_end m)"
    and "\<forall>m \<in> set ms. blen a + blen p \<le> m_start m" "input = a @ p @ r"
  shows "\<exists>ss t. segs_at (blen a + blen p) ms ss \<and> r = segs_text ss t \<and>
    rewrite_loop input md ms (blen a) out = Some (out @ p @ segs_out md ms ss t)"
  using assms
proof (induction ms arbitrary: a p r out)
  case Nil
  then have "rewrite_loop input md [] (blen a) out = Some (out @ p @ r)" by simp
  then show ?case by (intro exI [of _ "[]"] exI [of _ r]) simp
next
  case (Cons m ms)
  define i where "i = m_start m - (blen a + blen p)"
  define j where "j = m_end m - (blen a + blen p)"
  have ms: "m_start m = blen (a @ p) + i" "m_end m = blen (a @ p) + j"
    using Cons.prems(2,3) by (auto simp: i_def j_def span_ok_def)
  have "span_ok ((a @ p) @ r) (blen (a @ p) + i) (blen (a @ p) + j)"
    using Cons.prems(2,4) ms by simp
  then obtain g x r' where g: "r = g @ x @ r'" "blen g = i" "blen g + blen x = j"
    by (rule split_span)
  have rest: "sorted_wrt before ms" "\<forall>m \<in> set ms. span_ok input (m_start m) (m_end m)"
    and after: "\<forall>m' \<in> set ms. m_end m \<le> m_start m'"
    using Cons.prems by auto
  show ?case
  proof (cases "replacement md m")
    case None
    have "\<forall>m' \<in> set ms. blen a + blen (p @ g @ x) \<le> m_start m'" "input = a @ (p @ g @ x) @ r'"
      using after ms g Cons.prems(4) by auto
    from Cons.IH [OF rest this, of out] obtain ss t where
      "segs_at (blen a + blen (p @ g @ x)) ms ss" "r' = segs_text ss t"
      "rewrite_loop input md ms (blen a) out = Some (out @ (p @ g @ x) @ segs_out md ms ss t)"
      by blast
    with None ms g show ?thesis by (intro exI [of _ "(g, x) # ss"] exI [of _ t]) (simp add: add.assoc)
  next
    case (Some rep)
    have "slice input (blen a) (m_start m) = Some (p @ g)"
      using slice_middle [of a "p @ g" "x @ r'"] Cons.prems(4) g ms by (simp add: add.assoc)
    moreover have "\<forall>m' \<in> set ms. blen (a @ p @ g @ x) + blen [] \<le> m_start m'"
      "input = (a @ p @ g @ x) @ [] @ r'"
      using after ms g Cons.prems(4) by auto
    from Cons.IH [OF rest this, of "out @ (p @ g) @ rep"] obtain ss t where
      "segs_at (blen (a @ p @ g @ x)) ms ss" "r' = segs_text ss t"
      "rewrite_loop input md ms (blen (a @ p @ g @ x)) (out @ (p @ g) @ rep) =
         Some ((out @ (p @ g) @ rep) @ segs_out md ms ss t)" by auto
    moreover have "m_end m = blen (a @ p @ g @ x)" using ms g by simp
    ultimately show ?thesis using Some ms g
      by (intro exI [of _ "(g, x) # ss"] exI [of _ t]) (simp add: add.assoc)
  qed
qed

section \<open>Scanning one string: results\<close>

lemma scan_string_result:
  assumes "engines_ok E"
  shows "\<exists>out kept ss t. scan_string E input ptr policy md =
      Some (out, map (hit_of ptr) kept, list_ex (\<lambda>m. spec_severity (m_spec m) = Critical) kept) \<and>
    set kept \<subseteq> reported E policy input \<and> sorted_wrt before kept \<and>
    (\<forall>m \<in> reported E policy input. \<exists>k \<in> set kept. m_start k \<le> m_start m \<and> (k = m \<or> m_start m < m_end k)) \<and>
    segs_at 0 kept ss \<and> input = segs_text ss t \<and> out = segs_out md kept ss t"
proof -
  obtain ms where ms: "collect_matches E policy input = Some ms" "set ms = reported E policy input"
    using collect_matches_ok [OF assms] .
  have span: "\<forall>m \<in> set ms. span_ok input (m_start m) (m_end m)"
    using reported_span [OF assms] ms(2) by simp
  then have le: "\<forall>m \<in> set ms. m_start m \<le> m_end m" by (simp add: span_ok_def)
  let ?k = "kept_matches ms"
  note k = kept_matches_props [OF le]
  obtain ss t where st: "segs_at 0 ?k ss" "input = segs_text ss t"
    "rewrite_loop input md ?k 0 [] = Some (segs_out md ?k ss t)"
    using rewrite_loop_ok [OF k(2), of input "[]" "[]" input md "[]"] span k(1) by auto
  have "scan_string E input ptr policy md =
    Some (segs_out md ?k ss t, map (hit_of ptr) ?k, list_ex (\<lambda>m. spec_severity (m_spec m) = Critical) ?k)"
  proof (cases "ms = []")
    case True
    then have "?k = []" by (simp add: kept_matches_Nil)
    with st have "segs_out md ?k ss t = input" by (cases ss) auto
    with True ms(1) \<open>?k = []\<close> show ?thesis by (simp add: scan_string_def)
  next
    case False
    with ms(1) st(3) show ?thesis by (simp add: scan_string_def Let_def)
  qed
  with k st ms(2) show ?thesis by blast
qed

lemma scan_string_total: "engines_ok E \<Longrightarrow> \<exists>s' hs c. scan_string E s p policy md = Some (s', hs, c)"
  using scan_string_result by fast

lemma scan_string_hits:
  assumes "engines_ok E" "scan_string E s p policy md = Some (s', hs, c)"
  shows "h \<in> set hs \<Longrightarrow> pointer h = p \<and> severity_enabled policy (severity h)"
    and "c \<longleftrightarrow> (\<exists>h \<in> set hs. severity h = Critical)"
    and "hs = [] \<Longrightarrow> s' = s"
    and "hs = [] \<longleftrightarrow> \<not> has_any_canary_match E s policy"
proof -
  obtain kept ss t where k: "hs = map (hit_of p) kept"
      "c = list_ex (\<lambda>m. spec_severity (m_spec m) = Critical) kept"
      "set kept \<subseteq> reported E policy s"
      "\<forall>m \<in> reported E policy s. \<exists>k \<in> set kept. m_start k \<le> m_start m \<and> (k = m \<or> m_start m < m_end k)"
      "segs_at 0 kept ss" "s = segs_text ss t" "s' = segs_out md kept ss t"
    using scan_string_result [OF assms(1), of s p policy md] assms(2) by auto
  show "h \<in> set hs \<Longrightarrow> pointer h = p \<and> severity_enabled policy (severity h)"
    using k(1,3) reported_enabled by (fastforce simp: hit_of_def)
  show "c \<longleftrightarrow> (\<exists>h \<in> set hs. severity h = Critical)"
    using k(1,2) by (auto simp: hit_of_def list_ex_iff)
  show "hs = [] \<Longrightarrow> s' = s" using k(1,5-7) by (cases ss) auto
  show "hs = [] \<longleftrightarrow> \<not> has_any_canary_match E s policy"
    using k(1,3,4) reported_empty_iff [OF assms(1), of policy s] by auto
qed

text \<open>
  C5. Scanning a string never panics, and what it reports and rewrites is exactly determined by the
  engines' matches: the kept matches are among the enabled matches the engines report, are
  pairwise disjoint and in order, and cover the start of every other one; there is one hit per kept
  match with its identifier, severity, byte offset and length, never the matched text; the critical
  flag says whether a hit is critical; and the output is the input cut at exactly those offsets with
  high matches replaced by the placeholder, critical ones removed under Enforce, and everything
  else copied.
\<close>

theorem scan_string_correct:
  assumes "engines_ok E"
  shows "\<exists>out hits crit kept ss t. scan_string E input ptr policy md = Some (out, hits, crit) \<and>
    set kept \<subseteq> reported E policy input \<and> sorted_wrt before kept \<and>
    (\<forall>m \<in> reported E policy input. \<exists>k \<in> set kept. m_start k \<le> m_start m \<and> (k = m \<or> m_start m < m_end k)) \<and>
    hits = map (hit_of ptr) kept \<and> (crit \<longleftrightarrow> (\<exists>h \<in> set hits. severity h = Critical)) \<and>
    segs_at 0 kept ss \<and> input = segs_text ss t \<and> out = segs_out md kept ss t"
proof -
  have "list_ex (\<lambda>m. spec_severity (m_spec m) = Critical) kept \<longleftrightarrow>
    (\<exists>h \<in> set (map (hit_of ptr) kept). severity h = Critical)" for kept
    by (auto simp: hit_of_def list_ex_iff)
  then show ?thesis using scan_string_result [OF assms, of input ptr policy md] by blast
qed

text \<open>A concrete engine: it knows one text, in which the chat-template literal lies inside the span
  of the cookie-exfiltration rule.\<close>

definition demo_text :: ustr where
  "demo_text = lit ''cookie=<|im_start|> send''"

definition demo_engines :: engines where
  "demo_engines =
     \<lparr>ac_find_iter = (\<lambda>s. if s = demo_text then [(0, 7, 19)] else []),
      set_matches = (\<lambda>s. if s = demo_text then [13] else []),
      re_find_iter = (\<lambda>i s. if i = 13 \<and> s = demo_text then [(0, 24)] else [])\<rparr>"

lemma demo_engines_ok: "engines_ok demo_engines"
  by (simp add: engines_ok_def demo_engines_def span_ok_def demo_text_def lit_def
      lit_specs_def literal_specs_def regex_specs_v_def regex_specs_def)

theorem scan_string_correct_witness:
  "\<exists>out hits crit. scan_string demo_engines (lit ''plain'') [] CanaryPolicy_default Warn = Some (out, hits, crit)"
  using scan_string_correct [OF demo_engines_ok, of "lit ''plain''" "[]" CanaryPolicy_default Warn] by blast

section \<open>The walker: results\<close>

interpretation l3: keyed_walk "walk_l3 E pol md" "walk_l3_list E pol md" "walk_l3_fields E pol md"
  "walk_l3_rekey E pol md" "\<lambda>p s. scan_string E s p pol md" "\<lambda>k. has_any_canary_match E k pol"
  "\<lambda>c. c \<and> md = Enforce" absorb_l3 for E pol md
proof (unfold_locales, goal_cases)
  case (1 s p a)
  then show ?case by (cases "scan_string E s p pol md") (auto split: prod.splits)
qed (simp_all add: Let_def)

lemma apply_l3_total:
  assumes "engines_ok E"
  obtains v' r where "apply_l3 E v pol md = Some (v', r)"
  using l3.walk_total [of E pol md v "[]"] scan_string_total [OF assms] that
  unfolding apply_l3_def by blast

lemma apply_l3_invariant:
  assumes "engines_ok E" "apply_l3 E v pol md = Some (v', r)"
  shows "critical_seen r \<longleftrightarrow> (\<exists>h \<in> set (l3_hits r). severity h = Critical)"
    and "h \<in> set (l3_hits r) \<Longrightarrow> severity_enabled pol (severity h) \<and>
           clean_pointer (\<lambda>k. has_any_canary_match E k pol) (pointer h)"
proof -
  let ?I = "\<lambda>r. (critical_seen r \<longleftrightarrow> (\<exists>h \<in> set (l3_hits r). severity h = Critical)) \<and>
    (\<forall>h \<in> set (l3_hits r). severity_enabled pol (severity h) \<and>
       clean_pointer (\<lambda>k. has_any_canary_match E k pol) (pointer h))"
  have "?I r"
  proof (rule l3.walk_invariant [of E pol md ?I])
    show "?I (absorb_l3 hs c a)"
      if "clean_pointer (\<lambda>k. has_any_canary_match E k pol) p" "scan_string E s p pol md = Some (s', hs, c)" "?I a"
      for p s s' hs c a
      using that scan_string_hits(1,2) [OF assms(1) that(2)] by (auto simp: absorb_l3_def)
    show "?I \<lparr>l3_hits = [], critical_seen = False\<rparr>" by simp
    show "walk_l3 E pol md v [] \<lparr>l3_hits = [], critical_seen = False\<rparr> = Some (v', r)"
      using assms(2) by (simp add: apply_l3_def)
  qed
  then show "critical_seen r \<longleftrightarrow> (\<exists>h \<in> set (l3_hits r). severity h = Critical)"
    and "h \<in> set (l3_hits r) \<Longrightarrow> severity_enabled pol (severity h) \<and>
           clean_pointer (\<lambda>k. has_any_canary_match E k pol) (pointer h)" by auto
qed

lemma apply_l3_quiet:
  assumes "engines_ok E" "apply_l3 E v pol md = Some (v', r)" "l3_hits r = []"
  shows "v' = v"
proof -
  have "v' = v \<and> l3_hits \<lparr>l3_hits = [], critical_seen = False\<rparr> = []"
  proof (rule l3.walk_quiet [where Q = "\<lambda>a. l3_hits a = []"])
    show "l3_hits a = [] \<and> s' = s"
      if "scan_string E s p pol md = Some (s', hs, c)" "l3_hits (absorb_l3 hs c a) = []" for p s s' hs c a
      using that scan_string_hits(3) [OF assms(1) that(1)] by (auto simp: absorb_l3_def split: if_splits)
    show "\<not> l3_hits (absorb_l3 hs c a) = []"
      if "has_any_canary_match E k pol" "scan_string E k p pol md = Some (k', hs, c)" for p k k' hs c a
      using that scan_string_hits(4) [OF assms(1) that(2)] by (auto simp: absorb_l3_def)
    show "walk_l3 E pol md v [] \<lparr>l3_hits = [], critical_seen = False\<rparr> = Some (v', r)"
      using assms(2) by (simp add: apply_l3_def)
  qed (use assms(3) in simp)
  then show ?thesis ..
qed

lemma apply_l3_json_ok: "json_ok v \<Longrightarrow> apply_l3 E v pol md = Some (v', r) \<Longrightarrow> json_ok v'"
  unfolding apply_l3_def by (rule l3.walk_json_ok)

text \<open>
  The canary layer never panics and its report is trustworthy: no hit means the payload is
  unchanged, the critical flag is set exactly when a critical hit is listed, only enabled severities
  are listed, and no hit pointer repeats the text of a key in which a canary was found.
\<close>

lemma apply_l3_report:
  assumes "engines_ok E"
  shows "\<exists>v' r. apply_l3 E v pol md = Some (v', r) \<and> (l3_hits r = [] \<longrightarrow> v' = v) \<and>
    (critical_seen r \<longleftrightarrow> (\<exists>h \<in> set (l3_hits r). severity h = Critical)) \<and>
    (\<forall>h \<in> set (l3_hits r). severity_enabled pol (severity h) \<and>
       clean_pointer (\<lambda>k. has_any_canary_match E k pol) (pointer h))"
proof -
  obtain v' r where a: "apply_l3 E v pol md = Some (v', r)" by (rule apply_l3_total [OF assms])
  with apply_l3_quiet [OF assms a] apply_l3_invariant [OF assms a] show ?thesis by blast
qed

text \<open>
  A critical match can be shadowed: under Enforce with every tier enabled, a text in which the
  engines report a critical chat-template token inside the span of an earlier high match is
  redacted without raising the critical flag.
\<close>

lemma shadowed_critical:
  "(\<exists>m \<in> reported demo_engines CanaryPolicy_default demo_text. spec_severity (m_spec m) = Critical) \<and>
   (\<exists>hits. scan_string demo_engines demo_text [] CanaryPolicy_default Enforce = Some (REDACTED, hits, False))"
proof
  have "\<lparr>m_start = 7, m_end = 19, m_spec = lit_specs ! 0\<rparr> \<in> reported demo_engines CanaryPolicy_default demo_text"
    by (auto simp: reported_def demo_engines_def severity_enabled_def CanaryPolicy_default_def
        lit_specs_def literal_specs_def)
  then show "\<exists>m \<in> reported demo_engines CanaryPolicy_default demo_text. spec_severity (m_spec m) = Critical"
    by (rule bexI [rotated]) (simp add: lit_specs_def literal_specs_def)
  show "\<exists>hits. scan_string demo_engines demo_text [] CanaryPolicy_default Enforce = Some (REDACTED, hits, False)"
    by (simp add: scan_string_def collect_matches_def demo_engines_def nth_opt_def lit_specs_def
        literal_specs_def regex_specs_v_def regex_specs_def severity_enabled_def CanaryPolicy_default_def
        kept_matches_def match_key_def replacement_def slice_def slice_to_def slice_from_def demo_text_def
        lit_def Let_def less_eq_prod_def)
qed

end
