(* ===== verification/Sanitize_Pipeline.thy ===== *)
theory Sanitize_Pipeline
  imports Sanitize_Envelope Sanitize_Clamp Sanitize_Unicode Sanitize_Canary
begin

text \<open>
  The sanitizer's entry points (\<^verbatim>\<open>crates/stealth-sanitize/src/lib.rs\<close>): the layer pipeline L4, L5,
  L3, fail-closed, L2, L7 over a tool payload, and the error-envelope variant that attaches the
  report under \<^verbatim>\<open>data._meta.sanitize\<close>.

  Code outside the repository is a parameter: the normalizer \<open>nf\<close>, the canary engines \<open>E\<close>, the
  serializer \<open>ser\<close> (\<^verbatim>\<open>serde_json::to_string\<close>, \<open>None\<close> on error) and the nonce drawn from the operating
  system's generator.
\<close>

section \<open>Definitions\<close>

definition REPORT_SCHEMA_VERSION :: nat where
  "REPORT_SCHEMA_VERSION = 1"

record WrapContext =
  origin :: ustr
  tool :: ustr

definition WrapContext_default :: WrapContext where
  "WrapContext_default = \<lparr>origin = lit ''unknown'', tool = lit ''unknown''\<rparr>"

definition estimate_bytes :: "(json \<Rightarrow> ustr option) \<Rightarrow> json \<Rightarrow> nat" where
  "estimate_bytes ser v = (case ser v of Some s \<Rightarrow> blen s | None \<Rightarrow> 0)"

definition initial_report :: "SanitizePolicy \<Rightarrow> nat \<Rightarrow> ustr \<Rightarrow> SanitizationReport" where
  "initial_report policy n sid =
     \<lparr>schema_version = REPORT_SCHEMA_VERSION, policy_name = preset_name policy,
      report_mode = mode policy, bytes_in = n, bytes_out = n, truncated = False, aborted = False,
      layers_applied = [], canary_hits = [], sanitize_id = sid\<rparr>"

abbreviation push_layer :: "string \<Rightarrow> SanitizationReport \<Rightarrow> SanitizationReport" where
  "push_layer l r \<equiv> r\<lparr>layers_applied := layers_applied r @ [lit l]\<rparr>"

definition sanitize_for_agent_with ::
  "(ustr \<Rightarrow> ustr) \<Rightarrow> engines \<Rightarrow> (json \<Rightarrow> ustr option) \<Rightarrow> ustr \<Rightarrow> json \<Rightarrow> SanitizePolicy \<Rightarrow> WrapContext \<Rightarrow>
   SanitizedEnvelope option" where
  "sanitize_for_agent_with nf E ser nonce v policy ctx =
     (let r0 = initial_report policy (estimate_bytes ser v) nonce in
      if mode policy = Off then Some \<lparr>payload = v, report = r0\<rparr>
      else do {
        let (v4, l4) = apply_l4 nf v (unicode policy);
        let r1 = (if l4_modified l4 \<or> bidi_canaries l4 \<noteq> [] then push_layer ''L4:unicode'' r0 else r0);
        let r2 = (if enable_suspicious (canary policy)
                  then r1\<lparr>canary_hits := canary_hits r1 @ bidi_canaries l4\<rparr> else r1);
        (v5, l5) \<leftarrow> apply_l5 v4 (limits policy);
        let r3 = (if l5_truncated l5 then (push_layer ''L5:clamp'' r2)\<lparr>truncated := True\<rparr> else r2);
        (v3, l3) \<leftarrow> apply_l3 E v5 (canary policy) (mode policy);
        let r4 = (if l3_hits l3 \<noteq> []
                  then (push_layer ''L3:canary'' r3)\<lparr>canary_hits := canary_hits r3 @ l3_hits l3\<rparr> else r3);
        let abort = (critical_seen l3 \<and> critical_fail_closed (canary policy) \<and> mode policy = Enforce);
        let (vf, rf) =
          (if abort then (JNull, r4\<lparr>aborted := True\<rparr>)
           else (case apply_l2 v3 (origin ctx) (tool ctx) nonce of
                   (v2, n) \<Rightarrow> (v2, if n > 0 then push_layer ''L2:envelope'' r4 else r4)));
        Some \<lparr>payload = vf,
              report = (push_layer ''L7:meta'' rf)\<lparr>bytes_out := estimate_bytes ser vf\<rparr>\<rparr> })"

definition sanitize_for_agent ::
  "(ustr \<Rightarrow> ustr) \<Rightarrow> engines \<Rightarrow> (json \<Rightarrow> ustr option) \<Rightarrow> ustr \<Rightarrow> json \<Rightarrow> SanitizePolicy \<Rightarrow>
   SanitizedEnvelope option" where
  "sanitize_for_agent nf E ser nonce v policy =
     sanitize_for_agent_with nf E ser nonce v policy WrapContext_default"

definition sanitize_error_envelope ::
  "(json \<Rightarrow> ustr option) \<Rightarrow> ustr \<Rightarrow> SanitizeErrorEnvelope \<Rightarrow> SanitizePolicy \<Rightarrow> SanitizeErrorEnvelope" where
  "sanitize_error_envelope ser nonce env policy =
     (let n = (case err_data env of Some d \<Rightarrow> estimate_bytes ser d | None \<Rightarrow> 0) + blen (err_message env);
          r0 = initial_report policy n nonce;
          rep = (if mode policy \<noteq> Off then push_layer ''L7:meta'' r0 else r0);
          data_obj = (case err_data env of
                        Some (JObj m) \<Rightarrow> m
                      | Some other \<Rightarrow> bt_insert (lit ''value'') other []
                      | None \<Rightarrow> []);
          prev_meta = map_of data_obj (lit ''_meta'');
          data_obj1 = bt_remove (lit ''_meta'') data_obj;
          meta_map = (case prev_meta of
                        Some (JObj m) \<Rightarrow> m
                      | Some other \<Rightarrow> bt_insert (lit ''_prev'') other []
                      | None \<Rightarrow> []);
          meta_map1 = bt_insert (lit ''sanitize'') (report_to_value rep) meta_map;
          data_obj2 = bt_insert (lit ''_meta'') (JObj meta_map1) data_obj1
      in env\<lparr>err_data := Some (JObj data_obj2)\<rparr>)"

section \<open>The run of the layers\<close>

text \<open>What a run that is not switched off consists of, with the layer results named.\<close>

lemma sanitize_run:
  assumes ok: "engines_ok E" and budget: "total_max_bytes (limits policy) \<le> usize_max"
    and on: "mode policy \<noteq> Off"
  obtains v4 l4 v5 l5 v3 l3 env where
    "apply_l4 nf v (unicode policy) = (v4, l4)"
    "apply_l5 v4 (limits policy) = Some (v5, l5)"
    "apply_l3 E v5 (canary policy) (mode policy) = Some (v3, l3)"
    "sanitize_for_agent_with nf E ser nonce v policy ctx = Some env"
    "aborted (report env) \<longleftrightarrow> critical_seen l3 \<and> critical_fail_closed (canary policy) \<and> mode policy = Enforce"
    "aborted (report env) \<longrightarrow> payload env = JNull"
    "\<not> aborted (report env) \<longrightarrow> payload env = fst (apply_l2 v3 (origin ctx) (tool ctx) nonce)"
    "canary_hits (report env) =
       (if enable_suspicious (canary policy) then bidi_canaries l4 else []) @ l3_hits l3"
    "truncated (report env) \<longleftrightarrow> l5_truncated l5"
    "sanitize_id (report env) = nonce"
    "bytes_out (report env) = estimate_bytes ser (payload env)"
    "layers_applied (report env) =
       (if l4_modified l4 \<or> bidi_canaries l4 \<noteq> [] then [lit ''L4:unicode''] else []) @
       (if l5_truncated l5 then [lit ''L5:clamp''] else []) @
       (if l3_hits l3 \<noteq> [] then [lit ''L3:canary''] else []) @
       (if \<not> aborted (report env) \<and> leaves v3 \<noteq> [] then [lit ''L2:envelope''] else []) @ [lit ''L7:meta'']"
proof -
  obtain v4 l4 where 4: "apply_l4 nf v (unicode policy) = (v4, l4)" by (cases "apply_l4 nf v (unicode policy)")
  obtain v5 l5 where 5: "apply_l5 v4 (limits policy) = Some (v5, l5)"
    using apply_l5_result [OF budget, of v4] by blast
  obtain v3 l3 where 3: "apply_l3 E v5 (canary policy) (mode policy) = Some (v3, l3)"
    by (rule apply_l3_total [OF ok])
  obtain v2 n where 2: "apply_l2 v3 (origin ctx) (tool ctx) nonce = (v2, n)"
    by (cases "apply_l2 v3 (origin ctx) (tool ctx) nonce")
  have "\<exists>env. sanitize_for_agent_with nf E ser nonce v policy ctx = Some env \<and>
    (aborted (report env) \<longleftrightarrow> critical_seen l3 \<and> critical_fail_closed (canary policy) \<and> mode policy = Enforce) \<and>
    (aborted (report env) \<longrightarrow> payload env = JNull) \<and>
    (\<not> aborted (report env) \<longrightarrow> payload env = fst (apply_l2 v3 (origin ctx) (tool ctx) nonce)) \<and>
    canary_hits (report env) =
      (if enable_suspicious (canary policy) then bidi_canaries l4 else []) @ l3_hits l3 \<and>
    (truncated (report env) \<longleftrightarrow> l5_truncated l5) \<and> sanitize_id (report env) = nonce \<and>
    bytes_out (report env) = estimate_bytes ser (payload env) \<and>
    layers_applied (report env) =
       (if l4_modified l4 \<or> bidi_canaries l4 \<noteq> [] then [lit ''L4:unicode''] else []) @
       (if l5_truncated l5 then [lit ''L5:clamp''] else []) @
       (if l3_hits l3 \<noteq> [] then [lit ''L3:canary''] else []) @
       (if \<not> aborted (report env) \<and> leaves v3 \<noteq> [] then [lit ''L2:envelope''] else []) @ [lit ''L7:meta'']"
    using on apply_l2_count [of v3 "origin ctx" "tool ctx" nonce]
    by (simp add: sanitize_for_agent_with_def 4 5 3 2 initial_report_def Let_def)
  with 4 5 3 that show ?thesis by blast
qed

text \<open>
  C2. The strict preset fails closed: for every payload the sanitizer returns (no layer panics), and
  the response is aborted with a null payload exactly when the report lists a critical canary hit;
  otherwise the payload is the wrapped output of the layers.
\<close>

theorem strict_fails_closed:
  assumes "engines_ok E"
  shows "\<exists>env. sanitize_for_agent_with nf E ser nonce v (preset Strict) ctx = Some env \<and>
    (aborted (report env) \<longleftrightarrow> (\<exists>h \<in> set (canary_hits (report env)). severity h = Critical)) \<and>
    (aborted (report env) \<longrightarrow> payload env = JNull) \<and>
    (\<not> aborted (report env) \<longrightarrow>
       (\<forall>s \<in> set (leaves (payload env)). \<exists>t. s = wrap_leaf (origin ctx) (tool ctx) nonce t))"
proof -
  have budget: "total_max_bytes (limits (preset Strict)) \<le> usize_max" by (simp add: usize_max_def)
  obtain v4 l4 v5 l5 v3 l3 env where r:
    "apply_l4 nf v (unicode (preset Strict)) = (v4, l4)"
    "apply_l3 E v5 (canary (preset Strict)) (mode (preset Strict)) = Some (v3, l3)"
    "sanitize_for_agent_with nf E ser nonce v (preset Strict) ctx = Some env"
    "aborted (report env) \<longleftrightarrow> critical_seen l3 \<and> critical_fail_closed (canary (preset Strict)) \<and>
       mode (preset Strict) = Enforce"
    "aborted (report env) \<longrightarrow> payload env = JNull"
    "\<not> aborted (report env) \<longrightarrow> payload env = fst (apply_l2 v3 (origin ctx) (tool ctx) nonce)"
    "canary_hits (report env) =
       (if enable_suspicious (canary (preset Strict)) then bidi_canaries l4 else []) @ l3_hits l3"
    by (rule sanitize_run [OF assms budget, of nf v ser nonce ctx], simp, rule that, assumption+)
  have crit: "critical_seen l3 \<longleftrightarrow> (\<exists>h \<in> set (l3_hits l3). severity h = Critical)"
    by (rule apply_l3_invariant(1) [OF assms r(2)])
  have "\<forall>h \<in> set (bidi_canaries l4). severity h = Suspicious"
    using apply_l4_hits [of nf v "unicode (preset Strict)"] r(1) by (simp add: Let_def)
  with crit r(4,7) have "aborted (report env) \<longleftrightarrow> (\<exists>h \<in> set (canary_hits (report env)). severity h = Critical)"
    by (auto simp: CanaryPolicy_default_def)
  moreover have "\<exists>t. s = wrap_leaf (origin ctx) (tool ctx) nonce t"
    if "\<not> aborted (report env)" "s \<in> set (leaves (payload env))" for s
    using that r(6) apply_l2_leaves [of v3 "origin ctx" "tool ctx" nonce] by auto
  ultimately show ?thesis using r(3,5) by blast
qed

theorem strict_fails_closed_witness:
  "\<exists>env. sanitize_for_agent_with id demo_engines (\<lambda>_. None) (lit ''00'') (JStr demo_text) (preset Strict)
      WrapContext_default = Some env \<and>
    (aborted (report env) \<longleftrightarrow> (\<exists>h \<in> set (canary_hits (report env)). severity h = Critical))"
  using strict_fails_closed [OF demo_engines_ok, of id "\<lambda>_. None" "lit ''00''" "JStr demo_text" WrapContext_default]
  by blast

text \<open>
  Everything an agent sees is fenced and within the declared layers: for every policy that is not
  switched off, a response that is not aborted has only wrapped string leaves, its report lists the
  layers that acted in execution order and always ends with the meta layer, carries the nonce of the
  envelope markers, and says truncated exactly when the clamp layer is listed.
\<close>

lemma sanitize_report_layers:
  assumes "engines_ok E" "total_max_bytes (limits policy) \<le> usize_max" "mode policy \<noteq> Off"
  shows "\<exists>env. sanitize_for_agent_with nf E ser nonce v policy ctx = Some env \<and>
    subseq (layers_applied (report env))
      [lit ''L4:unicode'', lit ''L5:clamp'', lit ''L3:canary'', lit ''L2:envelope'', lit ''L7:meta''] \<and>
    last (layers_applied (report env)) = lit ''L7:meta'' \<and>
    (truncated (report env) \<longleftrightarrow> lit ''L5:clamp'' \<in> set (layers_applied (report env))) \<and>
    sanitize_id (report env) = nonce \<and> bytes_out (report env) = estimate_bytes ser (payload env) \<and>
    (\<not> aborted (report env) \<longrightarrow>
       (\<forall>s \<in> set (leaves (payload env)). \<exists>t. s = wrap_leaf (origin ctx) (tool ctx) nonce t))"
proof -
  obtain v3 env and l4 :: Layer4Result and l5 :: Layer5Result and l3 :: Layer3Result where r:
    "sanitize_for_agent_with nf E ser nonce v policy ctx = Some env"
    "\<not> aborted (report env) \<longrightarrow> payload env = fst (apply_l2 v3 (origin ctx) (tool ctx) nonce)"
    "truncated (report env) \<longleftrightarrow> l5_truncated l5" "sanitize_id (report env) = nonce"
    "bytes_out (report env) = estimate_bytes ser (payload env)"
    "layers_applied (report env) =
       (if l4_modified l4 \<or> bidi_canaries l4 \<noteq> [] then [lit ''L4:unicode''] else []) @
       (if l5_truncated l5 then [lit ''L5:clamp''] else []) @
       (if l3_hits l3 \<noteq> [] then [lit ''L3:canary''] else []) @
       (if \<not> aborted (report env) \<and> leaves v3 \<noteq> [] then [lit ''L2:envelope''] else []) @ [lit ''L7:meta'']"
    by (rule sanitize_run [OF assms, of nf v ser nonce ctx], rule that, assumption+)
  have "\<exists>t. s = wrap_leaf (origin ctx) (tool ctx) nonce t"
    if "\<not> aborted (report env)" "s \<in> set (leaves (payload env))" for s
    using that r(2) apply_l2_leaves [of v3 "origin ctx" "tool ctx" nonce] by auto
  then show ?thesis using r(1,3-6) by auto
qed

text \<open>
  Only Enforce aborts: in mode Off the payload is returned as it came with an empty report, and in
  mode Warn the response is never aborted, even when critical hits are reported and the policy asks
  for fail-closed on critical hits.
\<close>

lemma only_enforce_aborts:
  assumes "engines_ok E" "total_max_bytes (limits policy) \<le> usize_max"
  shows "(mode policy = Off \<longrightarrow> sanitize_for_agent_with nf E ser nonce v policy ctx =
            Some \<lparr>payload = v, report = initial_report policy (estimate_bytes ser v) nonce\<rparr>) \<and>
    (mode policy = Warn \<longrightarrow> (\<exists>env. sanitize_for_agent_with nf E ser nonce v policy ctx = Some env \<and>
            \<not> aborted (report env)))"
proof -
  have "\<exists>env. sanitize_for_agent_with nf E ser nonce v policy ctx = Some env \<and> \<not> aborted (report env)"
    if "mode policy = Warn"
    by (rule sanitize_run [OF assms, of nf v ser nonce ctx]) (use that in \<open>auto 0 0\<close>)
  then show ?thesis by (simp add: sanitize_for_agent_with_def Let_def)
qed

section \<open>Error envelopes\<close>

definition jget :: "json \<Rightarrow> ustr \<Rightarrow> json option" where
  "jget v k = (case v of JObj m \<Rightarrow> map_of m k | _ \<Rightarrow> None)"

text \<open>
  Sanitizing an error envelope keeps its code and message, always makes the report reachable at
  \<^verbatim>\<open>data._meta.sanitize\<close>, keeps every other member of an object payload, keeps a payload that is not
  an object under \<^verbatim>\<open>value\<close> and a \<^verbatim>\<open>_meta\<close> that is not an object under \<^verbatim>\<open>_meta._prev\<close>.
\<close>

lemma error_envelope_report_reachable:
  assumes "pred_option json_ok (err_data env)"
  shows "\<exists>d m rep. err_data (sanitize_error_envelope ser nonce env policy) = Some d \<and>
    err_code (sanitize_error_envelope ser nonce env policy) = err_code env \<and>
    err_message (sanitize_error_envelope ser nonce env policy) = err_message env \<and>
    jget d (lit ''_meta'') = Some m \<and> jget m (lit ''sanitize'') = Some (report_to_value rep) \<and>
    sanitize_id rep = nonce \<and>
    (\<forall>k fs. err_data env = Some (JObj fs) \<longrightarrow> k \<noteq> lit ''_meta'' \<longrightarrow> jget d k = map_of fs k) \<and>
    (\<forall>w. err_data env = Some w \<longrightarrow> (\<forall>fs. w \<noteq> JObj fs) \<longrightarrow> jget d (lit ''value'') = Some w) \<and>
    (\<forall>fs w. err_data env = Some (JObj fs) \<longrightarrow> map_of fs (lit ''_meta'') = Some w \<longrightarrow> (\<forall>ms. w \<noteq> JObj ms) \<longrightarrow>
       jget m (lit ''_prev'') = Some w)"
proof -
  have rem: "map_of (bt_remove (lit ''_meta'') fs) = (map_of fs)(lit ''_meta'' := None)"
    if "err_data env = Some (JObj fs)" for fs
    using assms that by (simp add: bt_remove_lookup)
  show ?thesis
    by (cases "err_data env"; cases "the (err_data env)";
        cases "map_of (case err_data env of Some (JObj m) \<Rightarrow> m | _ \<Rightarrow> []) (lit ''_meta'')")
       (auto simp: sanitize_error_envelope_def jget_def bt_insert_lookup rem Let_def
          initial_report_def split: json.splits)
qed

end
