(* ===== verification/Error_Contract.thy ===== *)
theory Error_Contract
  imports Json_Value
begin

text \<open>
  The error contract of \<^verbatim>\<open>crates/stealth-agent-contracts/src/error.rs\<close>: the closed enumeration of
  error kinds, the envelope that crosses every process boundary, its wire form, and the table that
  documents each kind.

  The wire form is what the derived serializers produce: an enum value is its variant name in
  snake case, a struct is an object with one member per field, an absent option is null.
\<close>

section \<open>Definitions\<close>

datatype ErrorKind =
  Aup | Ssrf | VpnLeak | RateLimit | Timeout | Captcha | Auth | NotFound | Validation | Network
  | Internal | RecipeNotFound | RecipeInvalid | AuthSessionExpired | AuthSessionNotFound
  | AuthSessionPending | VpnNotConfigured | VpnAllInstancesFailed | VpnCountryMismatch
  | CdpProtocol | CdpDisconnected | CdpInjectionFailed | BrowserCrashed | BrowserNotFound
  | CookieDecryptFailed | Aborted

record ErrorEnvelope =
  ee_kind :: ErrorKind
  ee_message :: ustr
  ee_retryable :: bool
  ee_hint :: "ustr option"
  ee_retry_after_ms :: "nat option"

record ErrorKindDoc =
  wire_name :: ustr
  when_emitted :: ustr
  retriable :: bool
  doc_hint :: ustr

abbreviation kind_doc :: "ustr \<Rightarrow> ustr \<Rightarrow> bool \<Rightarrow> ustr \<Rightarrow> ErrorKindDoc" where
  "kind_doc w e r h \<equiv> \<lparr>wire_name = w, when_emitted = e, retriable = r, doc_hint = h\<rparr>"

fun doc_for :: "ErrorKind \<Rightarrow> ErrorKindDoc" where
  "doc_for Aup =
     kind_doc (lit ''aup'')
       (lit ''Acceptable Use Policy violation (site / robots / contract).'')
       False (lit ''Confirm target is on the AUP allowlist and robots.txt allows the path.'')"
| "doc_for Ssrf =
     kind_doc (lit ''ssrf'')
       (lit ''Server-Side Request Forgery guard tripped (private/internal target).'')
       False (lit ''Do not request loopback / RFC1918 / link-local targets.'')"
| "doc_for VpnLeak =
     kind_doc (lit ''vpn_leak'')
       (lit ''VPN / egress IP leak detected '' @ [0x2014] @ lit '' real IP would have been exposed.'')
       True (lit ''Bring VPN up and re-run `doctor`; rotate via `vpn_rotate`.'')"
| "doc_for RateLimit =
     kind_doc (lit ''rate_limit'')
       (lit ''Per-host or global rate limit exceeded.'')
       True (lit ''Honor `retry_after_ms`; reduce per-host QPS.'')"
| "doc_for Timeout =
     kind_doc (lit ''timeout'')
       (lit ''Operation exceeded its timeout budget.'')
       True (lit ''Retry with a larger budget or after backoff.'')"
| "doc_for Captcha =
     kind_doc (lit ''captcha'')
       (lit ''Captcha challenge encountered and not bypassable in current mode.'')
       False (lit ''Switch to an authenticated flow or solve out-of-band.'')"
| "doc_for Auth =
     kind_doc (lit ''auth'')
       (lit ''Authentication / authorization failure.'')
       False (lit ''Re-run `auth_login_start` / refresh the profile.'')"
| "doc_for NotFound =
     kind_doc (lit ''not_found'')
       (lit ''Target resource not found.'')
       False (lit ''Verify the URL / recipe / profile name.'')"
| "doc_for Validation =
     kind_doc (lit ''validation'')
       (lit ''Input validation failure.'')
       False (lit ''Inspect `message` and fix the offending field.'')"
| "doc_for Network =
     kind_doc (lit ''network'')
       (lit ''Lower-level network / transport failure.'')
       True (lit ''Retry with backoff; check egress connectivity.'')"
| "doc_for Internal =
     kind_doc (lit ''internal'')
       (lit ''Unclassified internal error (last resort).'')
       False (lit ''Capture logs and file a bug; do not silently retry.'')"
| "doc_for RecipeNotFound =
     kind_doc (lit ''recipe_not_found'')
       (lit ''Recipe lookup failed: the requested `domain` has no recipe on disk.'')
       False (lit ''Run `recipe_list` to see available domains.'')"
| "doc_for RecipeInvalid =
     kind_doc (lit ''recipe_invalid'')
       (lit ''Recipe payload (TOML/JSON) failed schema or semantic validation.'')
       False (lit ''Fix the recipe and re-import.'')"
| "doc_for AuthSessionExpired =
     kind_doc (lit ''auth_session_expired'')
       (lit ''`auth_login_complete` polled past `login_timeout` budget.'')
       True (lit ''Re-run `auth_login_start` to obtain a fresh session_token.'')"
| "doc_for AuthSessionNotFound =
     kind_doc (lit ''auth_session_not_found'')
       (lit ''`session_token` is unknown to the registry (never issued, GC'd, or already consumed).'')
       False (lit ''Start a new login flow with `auth_login_start`.'')"
| "doc_for AuthSessionPending =
     kind_doc (lit ''auth_session_pending'')
       (lit ''`session_token` exists but the login helper has not yet finished.'')
       True (lit ''Poll `auth_login_complete` again after a short delay.'')"
| "doc_for VpnNotConfigured =
     kind_doc (lit ''vpn_not_configured'')
       (lit ''VPN rotation requested but no VPN backend is configured.'')
       False (lit ''Configure Surfshark/Gluetun in policy.toml before requesting rotation.'')"
| "doc_for VpnAllInstancesFailed =
     kind_doc (lit ''vpn_all_instances_failed'')
       (lit ''VPN rotation tried every configured instance and none came up.'')
       True (lit ''Wait and retry; check VPN provider status.'')"
| "doc_for VpnCountryMismatch =
     kind_doc (lit ''vpn_country_mismatch'')
       (lit ''VPN egress is up but the resolved country does not match the requested `country` constraint.'')
       True (lit ''Retry rotation with a different region hint.'')"
| "doc_for CdpProtocol =
     kind_doc (lit ''cdp_protocol'')
       (lit ''Chrome DevTools Protocol returned an unexpected error code.'')
       True (lit ''Retry; if persistent, check Chrome version compatibility.'')"
| "doc_for CdpDisconnected =
     kind_doc (lit ''cdp_disconnected'')
       (lit ''CDP WebSocket disconnected before the operation completed.'')
       True (lit ''Retry; relaunch the browser if disconnects persist.'')"
| "doc_for CdpInjectionFailed =
     kind_doc (lit ''cdp_injection_failed'')
       (lit ''Stealth JS injection into the target page failed.'')
       True (lit ''Re-run; verify obscura binary version.'')"
| "doc_for BrowserCrashed =
     kind_doc (lit ''browser_crashed'')
       (lit ''Headless browser process crashed mid-operation.'')
       True (lit ''Retry; if reproducible, capture core dump and file a bug.'')"
| "doc_for BrowserNotFound =
     kind_doc (lit ''browser_not_found'')
       (lit ''Headless browser binary could not be located on PATH.'')
       False (lit ''Install Chrome/Chromium or set OBSCURA_BIN.'')"
| "doc_for CookieDecryptFailed =
     kind_doc (lit ''cookie_decrypt_failed'')
       (lit ''On-disk cookie store could not be decrypted (bad passphrase / corruption).'')
       False (lit ''Re-create the auth profile.'')"
| "doc_for Aborted =
     kind_doc (lit ''aborted'')
       (lit ''Operation cancelled by caller (e.g. shutdown signal).'')
       True (lit ''Resume the operation if still desired.'')"

definition kind_order :: "ErrorKind list" where
  "kind_order =
     [Aup, Ssrf, VpnLeak, RateLimit, Timeout, Captcha, Auth, NotFound, Validation,
      Network, Internal, RecipeNotFound, RecipeInvalid, AuthSessionExpired,
      AuthSessionNotFound, AuthSessionPending, VpnNotConfigured, VpnAllInstancesFailed,
      VpnCountryMismatch, CdpProtocol, CdpDisconnected, CdpInjectionFailed,
      BrowserCrashed, BrowserNotFound, CookieDecryptFailed, Aborted]"

definition all_error_kind_docs :: "(ErrorKind \<times> ErrorKindDoc) list" where
  "all_error_kind_docs = map (\<lambda>k. (k, doc_for k)) kind_order"

definition ErrorEnvelope_new :: "ErrorKind \<Rightarrow> ustr \<Rightarrow> ErrorEnvelope" where
  "ErrorEnvelope_new k msg =
     \<lparr>ee_kind = k, ee_message = msg, ee_retryable = False, ee_hint = None, ee_retry_after_ms = None\<rparr>"

definition retryable :: "ErrorEnvelope \<Rightarrow> nat option \<Rightarrow> ErrorEnvelope" where
  "retryable e ms = e\<lparr>ee_retryable := True, ee_retry_after_ms := ms\<rparr>"

definition with_hint :: "ErrorEnvelope \<Rightarrow> ustr \<Rightarrow> ErrorEnvelope" where
  "with_hint e h = e\<lparr>ee_hint := Some h\<rparr>"

subsection \<open>The derived wire form\<close>

fun variant_name :: "ErrorKind \<Rightarrow> ustr" where
  "variant_name Aup = lit ''Aup''"
| "variant_name Ssrf = lit ''Ssrf''"
| "variant_name VpnLeak = lit ''VpnLeak''"
| "variant_name RateLimit = lit ''RateLimit''"
| "variant_name Timeout = lit ''Timeout''"
| "variant_name Captcha = lit ''Captcha''"
| "variant_name Auth = lit ''Auth''"
| "variant_name NotFound = lit ''NotFound''"
| "variant_name Validation = lit ''Validation''"
| "variant_name Network = lit ''Network''"
| "variant_name Internal = lit ''Internal''"
| "variant_name RecipeNotFound = lit ''RecipeNotFound''"
| "variant_name RecipeInvalid = lit ''RecipeInvalid''"
| "variant_name AuthSessionExpired = lit ''AuthSessionExpired''"
| "variant_name AuthSessionNotFound = lit ''AuthSessionNotFound''"
| "variant_name AuthSessionPending = lit ''AuthSessionPending''"
| "variant_name VpnNotConfigured = lit ''VpnNotConfigured''"
| "variant_name VpnAllInstancesFailed = lit ''VpnAllInstancesFailed''"
| "variant_name VpnCountryMismatch = lit ''VpnCountryMismatch''"
| "variant_name CdpProtocol = lit ''CdpProtocol''"
| "variant_name CdpDisconnected = lit ''CdpDisconnected''"
| "variant_name CdpInjectionFailed = lit ''CdpInjectionFailed''"
| "variant_name BrowserCrashed = lit ''BrowserCrashed''"
| "variant_name BrowserNotFound = lit ''BrowserNotFound''"
| "variant_name CookieDecryptFailed = lit ''CookieDecryptFailed''"
| "variant_name Aborted = lit ''Aborted''"

text \<open>The snake-case rule of the serializer: an underscore before every capital but the first.\<close>

definition ascii_upper :: "uchar \<Rightarrow> bool" where
  "ascii_upper c = (65 \<le> c \<and> c \<le> 90)"

fun snake_tail :: "ustr \<Rightarrow> ustr" where
  "snake_tail [] = []"
| "snake_tail (c # cs) = (if ascii_upper c then [95, c + 32] else [c]) @ snake_tail cs"

fun snake_case :: "ustr \<Rightarrow> ustr" where
  "snake_case [] = []"
| "snake_case (c # cs) = (if ascii_upper c then c + 32 else c) # snake_tail cs"

definition kind_to_wire :: "ErrorKind \<Rightarrow> ustr" where
  "kind_to_wire k = snake_case (variant_name k)"

definition kind_of_wire :: "ustr \<Rightarrow> ErrorKind option" where
  "kind_of_wire s = find (\<lambda>k. kind_to_wire k = s) kind_order"

definition opt_value :: "('a \<Rightarrow> json) \<Rightarrow> 'a option \<Rightarrow> json" where
  "opt_value f x = (case x of Some v \<Rightarrow> f v | None \<Rightarrow> JNull)"

definition envelope_to_value :: "ErrorEnvelope \<Rightarrow> json" where
  "envelope_to_value e = JObj (bt_of
     [(lit ''kind'', JStr (kind_to_wire (ee_kind e))),
      (lit ''message'', JStr (ee_message e)),
      (lit ''retryable'', JBool (ee_retryable e)),
      (lit ''hint'', opt_value JStr (ee_hint e)),
      (lit ''retry_after_ms'', opt_value (\<lambda>n. JNumber (PosInt n)) (ee_retry_after_ms e))])"

text \<open>Reading an object back: unknown members are ignored, a missing optional member is absent, a
  missing or ill-typed mandatory member is an error (\<open>None\<close>).\<close>

definition str_value :: "json \<Rightarrow> ustr option" where
  "str_value v = (case v of JStr s \<Rightarrow> Some s | _ \<Rightarrow> None)"

definition bool_value :: "json \<Rightarrow> bool option" where
  "bool_value v = (case v of JBool b \<Rightarrow> Some b | _ \<Rightarrow> None)"

definition u64_value :: "json \<Rightarrow> nat option" where
  "u64_value v = (case v of JNumber (PosInt n) \<Rightarrow> if n \<le> u64_max then Some n else None | _ \<Rightarrow> None)"

definition opt_of_value :: "(json \<Rightarrow> 'a option) \<Rightarrow> json option \<Rightarrow> 'a option option" where
  "opt_of_value f v = (case v of None \<Rightarrow> Some None | Some JNull \<Rightarrow> Some None
     | Some w \<Rightarrow> (case f w of Some x \<Rightarrow> Some (Some x) | None \<Rightarrow> None))"

definition envelope_of_object :: "(ustr \<times> json) list \<Rightarrow> ErrorEnvelope option" where
  "envelope_of_object fs = do {
     k \<leftarrow> Option.bind (map_of fs (lit ''kind'')) str_value;
     kd \<leftarrow> kind_of_wire k;
     msg \<leftarrow> Option.bind (map_of fs (lit ''message'')) str_value;
     rt \<leftarrow> Option.bind (map_of fs (lit ''retryable'')) bool_value;
     h \<leftarrow> opt_of_value str_value (map_of fs (lit ''hint''));
     ms \<leftarrow> opt_of_value u64_value (map_of fs (lit ''retry_after_ms''));
     Some \<lparr>ee_kind = kd, ee_message = msg, ee_retryable = rt, ee_hint = h, ee_retry_after_ms = ms\<rparr> }"

section \<open>The table of kinds\<close>

lemma kind_order_all: "k \<in> set kind_order"
  by (cases k) (simp_all add: kind_order_def)

lemma wire_name_doc: "wire_name (doc_for k) = kind_to_wire k"
  by (cases k) (simp_all add: kind_to_wire_def lit_def ascii_upper_def)

lemma kind_to_wire_inject: "kind_to_wire j = kind_to_wire k \<longleftrightarrow> j = k"
  by (cases j; cases k) (simp_all flip: wire_name_doc)

lemma kind_of_wire_to_wire [simp]: "kind_of_wire (kind_to_wire k) = Some k"
proof -
  obtain j where j: "find (\<lambda>j. kind_to_wire j = kind_to_wire k) kind_order = Some j"
    using kind_order_all [of k] by (cases "find (\<lambda>j. kind_to_wire j = kind_to_wire k) kind_order")
      (auto simp: find_None_iff)
  then have "kind_to_wire j = kind_to_wire k" by (auto simp: find_Some_iff)
  with j show ?thesis by (simp add: kind_of_wire_def kind_to_wire_inject)
qed

text \<open>
  The documentation table is complete and consistent with the wire format: it lists each of the 26
  kinds exactly once, and the wire name of every row is the snake-case name the serializer emits, from
  which the kind can be read back.
\<close>

lemma all_error_kind_docs_complete:
  "distinct (map fst all_error_kind_docs) \<and> set (map fst all_error_kind_docs) = UNIV \<and>
   length all_error_kind_docs = 26 \<and>
   map (wire_name \<circ> snd) all_error_kind_docs = map (kind_to_wire \<circ> fst) all_error_kind_docs \<and>
   map (kind_of_wire \<circ> wire_name \<circ> snd) all_error_kind_docs = map (Some \<circ> fst) all_error_kind_docs \<and>
   distinct (map (wire_name \<circ> snd) all_error_kind_docs)"
proof -
  have "distinct kind_order" by (simp add: kind_order_def)
  moreover have "inj_on (wire_name \<circ> doc_for) (set kind_order)"
    by (simp add: inj_on_def wire_name_doc kind_to_wire_inject)
  ultimately show ?thesis
    using kind_order_all
    by (auto simp: all_error_kind_docs_def comp_def wire_name_doc distinct_map
        kind_order_def [THEN arg_cong [where f = length]])
qed

section \<open>Envelopes over the wire\<close>

text \<open>
  An error envelope survives the wire: whatever envelope is serialized (with a 64-bit backoff),
  reading the object back gives the same envelope, also when the receiver's object carries members the
  contract does not know.
\<close>

lemma envelope_round_trip:
  assumes "pred_option (\<lambda>n. n \<le> u64_max) (ee_retry_after_ms e)"
    and "k \<notin> {lit ''kind'', lit ''message'', lit ''retryable'', lit ''hint'', lit ''retry_after_ms''}"
    and "envelope_to_value e = JObj fs"
  shows "envelope_of_object fs = Some e \<and> envelope_of_object (bt_insert k v fs) = Some e"
proof -
  have look: "map_of fs (lit ''kind'') = Some (JStr (kind_to_wire (ee_kind e)))"
    "map_of fs (lit ''message'') = Some (JStr (ee_message e))"
    "map_of fs (lit ''retryable'') = Some (JBool (ee_retryable e))"
    "map_of fs (lit ''hint'') = Some (opt_value JStr (ee_hint e))"
    "map_of fs (lit ''retry_after_ms'') = Some (opt_value (\<lambda>n. JNumber (PosInt n)) (ee_retry_after_ms e))"
    using assms(3) by (auto simp: envelope_to_value_def bt_of_def bt_insert_lookup)
  have "opt_of_value str_value (Some (opt_value JStr h)) = Some h" for h
    by (cases h) (simp_all add: opt_of_value_def opt_value_def str_value_def)
  moreover have "opt_of_value u64_value (Some (opt_value (\<lambda>n. JNumber (PosInt n)) n)) = Some n"
    if "pred_option (\<lambda>n. n \<le> u64_max) n" for n
    using that by (cases n) (simp_all add: opt_of_value_def opt_value_def u64_value_def)
  moreover have "lit ''kind'' \<noteq> k" "lit ''message'' \<noteq> k" "lit ''retryable'' \<noteq> k" "lit ''hint'' \<noteq> k"
    "lit ''retry_after_ms'' \<noteq> k" using assms(2) by auto
  ultimately show ?thesis
    using assms(1) by (simp add: envelope_of_object_def bt_insert_lookup look str_value_def bool_value_def)
qed

end
