(* ===== verification/Tokens.thy ===== *)
theory Tokens
  imports Error_Contract "HOL-Library.Word"
begin

text \<open>
  The identifier newtypes of \<^verbatim>\<open>crates/stealth-agent-contracts/src/token.rs\<close>. Both wrap a UUID and
  promise the strict v4 form on every way in: generation, \<^verbatim>\<open>from_uuid\<close> and deserialization.

  The UUID library is not part of the repository. Its operations are the record \<open>uuid_lib\<close>, an argument
  of every definition, and \<open>uuid_lib_ok\<close> states what its documentation promises of them: generated
  UUIDs are random RFC 4122 ones and serialization can be read back.
\<close>

section \<open>Definitions\<close>

datatype Variant = NCS | RFC4122 | Microsoft | Future

text \<open>The library's \<^verbatim>\<open>Version\<close>, of which the code distinguishes \<^verbatim>\<open>Random\<close> only.\<close>

datatype Version = Random | OtherVersion nat

record 'u uuid_lib =
  get_version :: "'u \<Rightarrow> Version option"
  get_variant :: "'u \<Rightarrow> Variant"
  new_v4 :: "nat \<Rightarrow> 'u"
  uuid_serialize :: "'u \<Rightarrow> json"
  uuid_deserialize :: "json \<Rightarrow> 'u option"

definition is_strict_v4 :: "'u uuid_lib \<Rightarrow> 'u \<Rightarrow> bool" where
  "is_strict_v4 L u = (get_version L u = Some Random \<and> get_variant L u = RFC4122)"

text \<open>The two ways a token can fail to deserialize: the input is no UUID, or it is one of another form,
  whose variant the message reports.\<close>

datatype TokenError = NotAUuid | NotV4 "Version option" Variant

definition ensure_v4 :: "'u uuid_lib \<Rightarrow> 'u \<Rightarrow> TokenError + 'u" where
  "ensure_v4 L u = (if \<not> is_strict_v4 L u then Inl (NotV4 (get_version L u) (get_variant L u)) else Inr u)"

subsection \<open>Progress tokens\<close>

datatype 'u ProgressToken = ProgressToken 'u

definition ProgressToken_new :: "'u uuid_lib \<Rightarrow> nat \<Rightarrow> 'u ProgressToken" where
  "ProgressToken_new L seed = ProgressToken (new_v4 L seed)"

definition ProgressToken_from_uuid :: "'u uuid_lib \<Rightarrow> 'u \<Rightarrow> 'u ProgressToken option" where
  "ProgressToken_from_uuid L u = (if is_strict_v4 L u then Some (ProgressToken u) else None)"

fun ProgressToken_as_uuid :: "'u ProgressToken \<Rightarrow> 'u" where
  "ProgressToken_as_uuid (ProgressToken u) = u"

definition ProgressToken_serialize :: "'u uuid_lib \<Rightarrow> 'u ProgressToken \<Rightarrow> json" where
  "ProgressToken_serialize L t = uuid_serialize L (ProgressToken_as_uuid t)"

definition ProgressToken_deserialize :: "'u uuid_lib \<Rightarrow> json \<Rightarrow> TokenError + 'u ProgressToken" where
  "ProgressToken_deserialize L d =
     (case uuid_deserialize L d of
        None \<Rightarrow> Inl NotAUuid
      | Some u \<Rightarrow> map_sum id ProgressToken (ensure_v4 L u))"

subsection \<open>Session identifiers\<close>

datatype 'u SessionId = SessionId 'u

definition SessionId_new :: "'u uuid_lib \<Rightarrow> nat \<Rightarrow> 'u SessionId" where
  "SessionId_new L seed = SessionId (new_v4 L seed)"

definition SessionId_from_uuid :: "'u uuid_lib \<Rightarrow> 'u \<Rightarrow> 'u SessionId option" where
  "SessionId_from_uuid L u = (if is_strict_v4 L u then Some (SessionId u) else None)"

fun SessionId_as_uuid :: "'u SessionId \<Rightarrow> 'u" where
  "SessionId_as_uuid (SessionId u) = u"

definition SessionId_serialize :: "'u uuid_lib \<Rightarrow> 'u SessionId \<Rightarrow> json" where
  "SessionId_serialize L t = uuid_serialize L (SessionId_as_uuid t)"

definition SessionId_deserialize :: "'u uuid_lib \<Rightarrow> json \<Rightarrow> TokenError + 'u SessionId" where
  "SessionId_deserialize L d =
     (case uuid_deserialize L d of
        None \<Rightarrow> Inl NotAUuid
      | Some u \<Rightarrow> map_sum id SessionId (ensure_v4 L u))"

section \<open>The interface of a validated newtype\<close>

definition uuid_lib_ok :: "'u uuid_lib \<Rightarrow> bool" where
  "uuid_lib_ok L \<longleftrightarrow> (\<forall>s. is_strict_v4 L (new_v4 L s)) \<and>
     (\<forall>u. uuid_deserialize L (uuid_serialize L u) = Some u)"

text \<open>What a newtype over a UUID provides: the accessor is injective, the checked constructor and the
  deserializer agree with the test, and the serializer is the inner one.\<close>

locale uuid_newtype =
  fixes L :: "'u uuid_lib" and as_uuid :: "'t \<Rightarrow> 'u" and from_uuid :: "'u \<Rightarrow> 't option"
    and ser :: "'t \<Rightarrow> json" and de :: "json \<Rightarrow> TokenError + 't"
  assumes as_uuid_inject: "as_uuid s = as_uuid t \<Longrightarrow> s = t"
    and from_uuid_iff: "from_uuid u = Some t \<longleftrightarrow> is_strict_v4 L u \<and> as_uuid t = u"
    and ser_inner: "ser t = uuid_serialize L (as_uuid t)"
    and de_iff: "de d = Inr t \<longleftrightarrow> (\<exists>u. uuid_deserialize L d = Some u \<and> from_uuid u = Some t)"
begin

inductive minted :: "'t \<Rightarrow> bool" where
  minted_new: "as_uuid t = new_v4 L seed \<Longrightarrow> minted t"
| minted_from: "from_uuid u = Some t \<Longrightarrow> minted t"
| minted_de: "de d = Inr t \<Longrightarrow> minted t"

lemma minted_strict:
  assumes "uuid_lib_ok L" "minted t"
  shows "is_strict_v4 L (as_uuid t)"
  using assms(2)
proof cases
  case (minted_new seed)
  then show ?thesis using assms(1) by (simp add: uuid_lib_ok_def)
qed (auto simp: from_uuid_iff de_iff)

lemma round_trip:
  assumes "uuid_lib_ok L" "is_strict_v4 L (as_uuid t)"
  shows "from_uuid (as_uuid t) = Some t" "de (ser t) = Inr t"
  using assms by (auto simp: from_uuid_iff de_iff ser_inner uuid_lib_ok_def)

lemma de_rejects:
  assumes "uuid_deserialize L d = Some u" "\<not> is_strict_v4 L u"
  shows "\<exists>e. de d = Inl e"
  using assms de_iff [of d] by (cases "de d") (auto simp: from_uuid_iff)

end

interpretation pt: uuid_newtype L ProgressToken_as_uuid "ProgressToken_from_uuid L" "ProgressToken_serialize L"
  "ProgressToken_deserialize L" for L
proof
  fix s t :: "'a ProgressToken"
  show "ProgressToken_as_uuid s = ProgressToken_as_uuid t \<Longrightarrow> s = t" by (cases s; cases t) simp
  show "(ProgressToken_from_uuid L u = Some t) = (is_strict_v4 L u \<and> ProgressToken_as_uuid t = u)" for u
    by (cases t) (auto simp: ProgressToken_from_uuid_def)
qed (auto simp: ProgressToken_serialize_def ProgressToken_deserialize_def ProgressToken_from_uuid_def
       ensure_v4_def split: option.splits)

interpretation sid: uuid_newtype L SessionId_as_uuid "SessionId_from_uuid L" "SessionId_serialize L"
  "SessionId_deserialize L" for L
proof
  fix s t :: "'a SessionId"
  show "SessionId_as_uuid s = SessionId_as_uuid t \<Longrightarrow> s = t" by (cases s; cases t) simp
  show "(SessionId_from_uuid L u = Some t) = (is_strict_v4 L u \<and> SessionId_as_uuid t = u)" for u
    by (cases t) (auto simp: SessionId_from_uuid_def)
qed (auto simp: SessionId_serialize_def SessionId_deserialize_def SessionId_from_uuid_def
       ensure_v4_def split: option.splits)

section \<open>Properties\<close>

text \<open>The RFC 4122 bit layout on 128-bit words: the version is the high nibble of octet 6, the variant
  the leading bits of octet 8. It is a model of the library record.\<close>

unbundle bit_operations_syntax

definition rfc_variant :: "128 word \<Rightarrow> Variant" where
  "rfc_variant u = (if \<not> bit u 63 then NCS else if \<not> bit u 62 then RFC4122
     else if \<not> bit u 61 then Microsoft else Future)"

definition rfc_version :: "128 word \<Rightarrow> Version option" where
  "rfc_version u =
     (if \<not> bit u 79 \<and> bit u 78 \<and> \<not> bit u 77 \<and> \<not> bit u 76 then Some Random
      else let v = unat (drop_bit 76 u AND mask 4) in if v < 9 then Some (OtherVersion v) else None)"

definition rfc_lib :: "128 word uuid_lib" where
  "rfc_lib = \<lparr>get_version = rfc_version, get_variant = rfc_variant,
     new_v4 = (\<lambda>s. word_of_nat s AND NOT (push_bit 76 (mask 4) OR push_bit 62 (mask 2)) OR push_bit 78 1 OR push_bit 63 1),
     uuid_serialize = (\<lambda>u. JNumber (PosInt (unat u))),
     uuid_deserialize = (\<lambda>d. case d of JNumber (PosInt n) \<Rightarrow> Some (word_of_nat n) | _ \<Rightarrow> None)\<rparr>"

lemma rfc_lib_ok: "uuid_lib_ok rfc_lib"
  unfolding uuid_lib_ok_def is_strict_v4_def
  by (auto simp: rfc_lib_def rfc_version_def rfc_variant_def bit_simps)

text \<open>
  Every token is a strict version-4 UUID: a progress token or session identifier obtained by
  generation, by \<^verbatim>\<open>from_uuid\<close> or by deserialization has the random version and the RFC 4122 variant, is
  recovered from its serialized form and from its UUID, and an input with another version or variant
  is rejected with an error that reports both.
\<close>

lemma tokens_strict_v4:
  assumes "uuid_lib_ok L"
  shows "is_strict_v4 L (ProgressToken_as_uuid (ProgressToken_new L seed)) \<and>
    is_strict_v4 L (SessionId_as_uuid (SessionId_new L seed)) \<and>
    ProgressToken_deserialize L (ProgressToken_serialize L (ProgressToken_new L seed)) = Inr (ProgressToken_new L seed) \<and>
    SessionId_deserialize L (SessionId_serialize L (SessionId_new L seed)) = Inr (SessionId_new L seed) \<and>
    (\<forall>d p. ProgressToken_deserialize L d = Inr p \<longrightarrow> is_strict_v4 L (ProgressToken_as_uuid p) \<and>
       ProgressToken_from_uuid L (ProgressToken_as_uuid p) = Some p) \<and>
    (\<forall>d t. SessionId_deserialize L d = Inr t \<longrightarrow> is_strict_v4 L (SessionId_as_uuid t) \<and>
       SessionId_from_uuid L (SessionId_as_uuid t) = Some t) \<and>
    (\<forall>d u. uuid_deserialize L d = Some u \<longrightarrow> \<not> is_strict_v4 L u \<longrightarrow>
       ProgressToken_from_uuid L u = None \<and>
       ProgressToken_deserialize L d = Inl (NotV4 (get_version L u) (get_variant L u)) \<and>
       SessionId_from_uuid L u = None \<and>
       SessionId_deserialize L d = Inl (NotV4 (get_version L u) (get_variant L u)))"
proof -
  have "pt.minted L (ProgressToken_new L seed)" "sid.minted L (SessionId_new L seed)"
    by (auto intro: pt.minted_new sid.minted_new simp: ProgressToken_new_def SessionId_new_def)
  then have new: "is_strict_v4 L (ProgressToken_as_uuid (ProgressToken_new L seed))"
    "is_strict_v4 L (SessionId_as_uuid (SessionId_new L seed))"
    using pt.minted_strict [OF assms] sid.minted_strict [OF assms] by blast+
  have "ProgressToken_from_uuid L u = None \<and> SessionId_from_uuid L u = None" if "\<not> is_strict_v4 L u" for u
    using that by (simp add: ProgressToken_from_uuid_def SessionId_from_uuid_def)
  moreover have "ProgressToken_deserialize L d = Inl (NotV4 (get_version L u) (get_variant L u)) \<and>
      SessionId_deserialize L d = Inl (NotV4 (get_version L u) (get_variant L u))"
    if "uuid_deserialize L d = Some u" "\<not> is_strict_v4 L u" for d u
    using that by (simp add: ProgressToken_deserialize_def SessionId_deserialize_def ensure_v4_def)
  ultimately show ?thesis
    using new pt.minted_strict [OF assms pt.minted_de] sid.minted_strict [OF assms sid.minted_de]
      pt.round_trip [OF assms] sid.round_trip [OF assms] by blast
qed

end
