(* ===== verification/Progress.thy ===== *)
theory Progress
  imports Tokens
begin

text \<open>
  The progress and cancellation primitive of \<^verbatim>\<open>crates/stealth-agent-contracts/src/progress.rs\<close>.

  All handles of a tracker share one state, so the state is passed explicitly. An operation that
  touches two shared cells is a list of atomic actions (the write under the mutex or the atomic store,
  then the broadcast), and a concurrent execution of several handles is an interleaving of such lists.
  The broadcast primitive is modelled by its documented contract: a future remembers how many
  broadcasts had happened when it was created, awaited or not, and is ready once another one has.
\<close>

section \<open>Definitions\<close>

record ProgressState =
  completed :: nat
  total :: "nat option"
  p_message :: "ustr option"
  last_update :: nat

record 'u ProgressTracker =
  tr_token :: "'u ProgressToken"
  tr_state :: ProgressState
  tr_cancel :: bool
  tr_broadcasts :: nat

definition ProgressTracker_new :: "'u ProgressToken \<Rightarrow> nat option \<Rightarrow> nat \<Rightarrow> 'u ProgressTracker" where
  "ProgressTracker_new tk tot now =
     \<lparr>tr_token = tk,
      tr_state = \<lparr>completed = 0, total = tot, p_message = None, last_update = now\<rparr>,
      tr_cancel = False, tr_broadcasts = 0\<rparr>"

datatype action = WriteState nat "ustr option" nat | StoreCancel | Broadcast

fun act :: "action \<Rightarrow> 'u ProgressTracker \<Rightarrow> 'u ProgressTracker" where
  "act (WriteState c msg now) t =
     t\<lparr>tr_state := (tr_state t)\<lparr>completed := c, p_message := msg, last_update := now\<rparr>\<rparr>"
| "act StoreCancel t = t\<lparr>tr_cancel := True\<rparr>"
| "act Broadcast t = t\<lparr>tr_broadcasts := Suc (tr_broadcasts t)\<rparr>"

definition report_actions :: "nat \<Rightarrow> ustr option \<Rightarrow> nat \<Rightarrow> action list" where
  "report_actions c msg now = [WriteState c msg now, Broadcast]"

definition cancel_actions :: "action list" where
  "cancel_actions = [StoreCancel, Broadcast]"

definition report :: "'u ProgressTracker \<Rightarrow> nat \<Rightarrow> ustr option \<Rightarrow> nat \<Rightarrow> 'u ProgressTracker" where
  "report t c msg now = fold act (report_actions c msg now) t"

definition cancel :: "'u ProgressTracker \<Rightarrow> 'u ProgressTracker" where
  "cancel t = fold act cancel_actions t"

definition snapshot :: "'u ProgressTracker \<Rightarrow> ProgressState" where
  "snapshot t = tr_state t"

definition is_cancelled :: "'u ProgressTracker \<Rightarrow> bool" where
  "is_cancelled t = tr_cancel t"

text \<open>The future of \<^verbatim>\<open>wait_for_update\<close> and whether it resolves.\<close>

definition wait_for_update :: "'u ProgressTracker \<Rightarrow> nat" where
  "wait_for_update t = tr_broadcasts t"

definition resolved :: "'u ProgressTracker \<Rightarrow> nat \<Rightarrow> bool" where
  "resolved t fut = (fut < tr_broadcasts t)"

section \<open>Interleavings\<close>

text \<open>What concurrent handles may do: any interleaving of the action lists of their calls.\<close>

datatype call = Report nat "ustr option" nat | Cancel

fun actions_of :: "call \<Rightarrow> action list" where
  "actions_of (Report c msg now) = report_actions c msg now"
| "actions_of Cancel = cancel_actions"

inductive interleaved :: "action list list \<Rightarrow> action list \<Rightarrow> bool" where
  interleaved_done: "(\<And>p. p \<in> set ps \<Longrightarrow> p = []) \<Longrightarrow> interleaved ps []"
| interleaved_step: "i < length ps \<Longrightarrow> ps ! i = a # p \<Longrightarrow> interleaved (ps[i := p]) as \<Longrightarrow> interleaved ps (a # as)"

definition pending :: "call list list \<Rightarrow> action list list" where
  "pending handles = map (\<lambda>cs. concat (map actions_of cs)) handles"

definition is_write :: "action \<Rightarrow> bool" where
  "is_write a = (case a of WriteState _ _ _ \<Rightarrow> True | _ \<Rightarrow> False)"

lemma interleaved_set:
  assumes "interleaved ps as"
  shows "a \<in> set as \<longleftrightarrow> (\<exists>i < length ps. a \<in> set (ps ! i))"
  using assms
proof (induction rule: interleaved.induct)
  case (interleaved_done ps)
  then show ?case by (metis empty_iff list.set(1) nth_mem)
next
  case (interleaved_step i ps b p as)
  have "(\<exists>j < length ps. a \<in> set (ps ! j)) \<longleftrightarrow> a = b \<or> (\<exists>j < length (ps[i := p]). a \<in> set (ps[i := p] ! j))"
    using interleaved_step.hyps(1,2) by (auto simp: nth_list_update split: if_splits) (metis set_ConsD)
  then show ?case using interleaved_step.IH by simp
qed

lemma interleaved_last_write:
  assumes "interleaved ps as" "filter is_write as \<noteq> []"
  shows "\<exists>i < length ps. filter is_write (ps ! i) \<noteq> [] \<and> last (filter is_write as) = last (filter is_write (ps ! i))"
  using assms
proof (induction rule: interleaved.induct)
  case (interleaved_step i ps a p as)
  show ?case
  proof (cases "filter is_write as = []")
    case True
    moreover have "set p \<subseteq> set as"
      using interleaved_set [OF interleaved_step.hyps(3)] interleaved_step.hyps(1) by (auto intro!: exI [of _ i])
    ultimately have "filter is_write p = []" by (auto simp: filter_empty_conv)
    then show ?thesis using True interleaved_step by (intro exI [of _ i]) (auto split: if_splits)
  next
    case False
    then obtain j where "j < length ps" "filter is_write (ps[i := p] ! j) \<noteq> []"
      "last (filter is_write as) = last (filter is_write (ps[i := p] ! j))"
      using interleaved_step.IH by auto
    then show ?thesis using False interleaved_step.hyps(1,2)
      by (intro exI [of _ j]) (auto simp: nth_list_update split: if_splits)
  qed
qed simp

lemma interleaved_last:
  assumes "interleaved ps as" "\<And>p. p \<in> set ps \<Longrightarrow> p = [] \<or> last p = Broadcast"
  shows "as = [] \<or> last as = Broadcast"
  using assms
proof (induction rule: interleaved.induct)
  case (interleaved_step i ps a p as)
  have "a # p \<in> set ps" using interleaved_step.hyps by (metis nth_mem)
  with interleaved_step.prems have ap: "last (a # p) = Broadcast" by blast
  have "q = [] \<or> last q = Broadcast" if "q \<in> set (ps[i := p])" for q
    using that set_update_subset_insert [of ps i p] interleaved_step.prems ap by (auto split: if_splits)
  then have IH: "as = [] \<or> last as = Broadcast" by (rule interleaved_step.IH)
  show ?case
  proof (cases "as = []")
    case True
    moreover have "set p \<subseteq> set as"
      using interleaved_set [OF interleaved_step.hyps(3)] interleaved_step.hyps(1) by (auto intro!: exI [of _ i])
    ultimately show ?thesis using ap by simp
  qed (use IH in simp)
qed simp

section \<open>Runs\<close>

lemma run_fixed:
  "tr_token (fold act as t) = tr_token t \<and> total (tr_state (fold act as t)) = total (tr_state t)"
proof (induction as arbitrary: t)
  case (Cons a as)
  then show ?case by (cases a) auto
qed simp

lemma run_cancel: "tr_cancel (fold act as t) \<longleftrightarrow> tr_cancel t \<or> StoreCancel \<in> set as"
proof (induction as arbitrary: t)
  case (Cons a as)
  then show ?case by (cases a) auto
qed simp

lemma run_broadcasts: "tr_broadcasts (fold act as t) = tr_broadcasts t + count_list as Broadcast"
proof (induction as arbitrary: t)
  case (Cons a as)
  then show ?case by (cases a) auto
qed simp

lemma run_state:
  "filter is_write as = [] \<Longrightarrow> tr_state (fold act as t) = tr_state t"
  "filter is_write as \<noteq> [] \<Longrightarrow> last (filter is_write as) = WriteState c msg now \<Longrightarrow>
     tr_state (fold act as t) = (tr_state t)\<lparr>completed := c, p_message := msg, last_update := now\<rparr>"
proof (induction as arbitrary: t)
  case (Cons a as)
  { case 1
    then show ?case using Cons.IH(1) by (cases a) (auto simp: is_write_def split: if_splits)
  next
    case 2
    then show ?case
      using Cons.IH by (cases a; cases "filter is_write as = []") (auto simp: is_write_def split: if_splits) }
qed simp_all

lemma pending_writes:
  "filter is_write (concat (map actions_of cs)) =
     map (\<lambda>c. case c of Report n msg now \<Rightarrow> WriteState n msg now) (filter (\<lambda>c. c \<noteq> Cancel) cs)"
proof (induction cs)
  case (Cons c cs)
  then show ?case by (cases c) (auto simp: report_actions_def cancel_actions_def is_write_def)
qed simp

lemma pending_cancel: "StoreCancel \<in> set (concat (map actions_of cs)) \<longleftrightarrow> Cancel \<in> set cs"
proof (induction cs)
  case (Cons c cs)
  then show ?case by (cases c) (auto simp: report_actions_def cancel_actions_def)
qed simp

lemma pending_last:
  assumes "p \<in> set (pending handles)"
  shows "p = [] \<or> last p = Broadcast"
proof -
  have "concat (map actions_of cs) = [] \<or> last (concat (map actions_of cs)) = Broadcast" for cs
  proof (induction cs)
    case (Cons c cs)
    then show ?case by (cases c) (auto simp: report_actions_def cancel_actions_def)
  qed simp
  with assms show ?thesis unfolding pending_def by (metis (no_types, lifting) imageE list.set_map)
qed

lemma pending_ex:
  "(\<exists>i < length (pending handles). P (pending handles ! i)) \<longleftrightarrow>
     (\<exists>h \<in> set handles. P (concat (map actions_of h)))"
  by (simp add: pending_def Bex_def in_set_conv_nth) (metis nth_map)

lemma pending_last_write:
  assumes "interleaved (pending handles) as" "filter is_write as \<noteq> []"
  obtains h c msg now where "h \<in> set handles" "filter (\<lambda>c. c \<noteq> Cancel) h \<noteq> []"
    "last (filter (\<lambda>c. c \<noteq> Cancel) h) = Report c msg now" "last (filter is_write as) = WriteState c msg now"
proof -
  let ?w = "\<lambda>c. case c of Report n msg now \<Rightarrow> WriteState n msg now"
  obtain h where h: "h \<in> set handles" "filter is_write (concat (map actions_of h)) \<noteq> []"
    "last (filter is_write as) = last (filter is_write (concat (map actions_of h)))"
    using interleaved_last_write [OF assms] pending_ex [of handles
        "\<lambda>p. filter is_write p \<noteq> [] \<and> last (filter is_write as) = last (filter is_write p)"] by blast
  let ?f = "filter (\<lambda>c. c \<noteq> Cancel) h"
  have ne: "?f \<noteq> []" using h(2) by (simp only: pending_writes map_is_Nil_conv) simp
  then have "last ?f \<noteq> Cancel" using last_in_set [OF ne] by (simp only: set_filter) blast
  then obtain c msg now where "last ?f = Report c msg now" by (cases "last ?f") simp_all
  with h ne that show ?thesis by (simp only: pending_writes) (simp add: last_map)
qed

section \<open>Properties\<close>

text \<open>The counter can go back: a report with a smaller count than an earlier one is stored as it is.\<close>

lemma completed_can_decrease:
  "completed (snapshot (report (report t 5 m1 n1) 2 m2 n2)) = 2 \<and> completed (snapshot (report t 5 m1 n1)) = 5"
  by (simp add: snapshot_def report_def report_actions_def)

text \<open>
  C8. Whatever handles do concurrently, once their calls have finished the tracker keeps its token and
  total, is cancelled exactly when some handle called \<^verbatim>\<open>cancel\<close>, its snapshot is the last report of
  one of the reporting handles, untorn, and no wake-up is lost: a future created while any action is
  still outstanding has resolved. The count in the snapshot is that of the report written last, also when an earlier
  report had a larger one: the code does not enforce the non-decreasing count its comment promises. A future counts
  from its creation, whether or not it is awaited yet, as tokio documents; the comment in the source says that only
  edges after the start of the waiting are seen.
\<close>

theorem tracker_interleaving:
  assumes "interleaved (pending handles) (as @ bs)"
    and "t0 = ProgressTracker_new tk tot start" and "t = fold act (as @ bs) t0"
  shows "tr_token t = tk \<and> total (snapshot t) = tot \<and>
    (is_cancelled t \<longleftrightarrow> (\<exists>h \<in> set handles. Cancel \<in> set h)) \<and>
    (bs \<noteq> [] \<longrightarrow> resolved t (wait_for_update (fold act as t0))) \<and>
    ((\<forall>h \<in> set handles. set h \<subseteq> {Cancel}) \<longrightarrow> snapshot t = snapshot t0) \<and>
    ((\<exists>h \<in> set handles. \<not> set h \<subseteq> {Cancel}) \<longrightarrow>
       (\<exists>h \<in> set handles. \<exists>c msg now. filter (\<lambda>c. c \<noteq> Cancel) h \<noteq> [] \<and>
          last (filter (\<lambda>c. c \<noteq> Cancel) h) = Report c msg now \<and>
          snapshot t = \<lparr>completed = c, total = tot, p_message = msg, last_update = now\<rparr>))"
proof -
  note il = assms(1)
  have new: "tr_token t0 = tk" "total (tr_state t0) = tot" "\<not> tr_cancel t0"
    using assms(2) by (simp_all add: ProgressTracker_new_def)
  have cancelled: "tr_cancel t \<longleftrightarrow> (\<exists>h \<in> set handles. Cancel \<in> set h)"
    using run_cancel [of "as @ bs" t0] new(3) interleaved_set [OF il, of StoreCancel] assms(3)
      pending_ex [of handles "\<lambda>p. StoreCancel \<in> set p"] by (simp only: pending_cancel) blast
  have woken: "resolved t (wait_for_update (fold act as t0))" if "bs \<noteq> []"
  proof -
    have "last bs = Broadcast" using interleaved_last [OF il pending_last] that by auto
    then have "0 < count_list bs Broadcast" using that by (metis count_list_0_iff gr0I last_in_set)
    then show ?thesis using assms(3) by (simp add: resolved_def wait_for_update_def run_broadcasts)
  qed
  have writes: "filter is_write (as @ bs) = [] \<longleftrightarrow> (\<forall>h \<in> set handles. set h \<subseteq> {Cancel})"
  proof -
    have "filter is_write (as @ bs) = [] \<longleftrightarrow> (\<forall>h \<in> set handles. filter is_write (concat (map actions_of h)) = [])"
      using interleaved_set [OF il] pending_ex [of handles "\<lambda>p. _ \<in> set p"] by (simp only: filter_empty_conv) blast
    then show ?thesis by (auto simp: pending_writes filter_empty_conv)
  qed
  have last: "\<exists>h \<in> set handles. \<exists>c msg now. filter (\<lambda>c. c \<noteq> Cancel) h \<noteq> [] \<and>
      last (filter (\<lambda>c. c \<noteq> Cancel) h) = Report c msg now \<and>
      snapshot t = \<lparr>completed = c, total = tot, p_message = msg, last_update = now\<rparr>"
    if w: "filter is_write (as @ bs) \<noteq> []"
  proof -
    obtain h c msg now where h: "h \<in> set handles" "filter (\<lambda>c. c \<noteq> Cancel) h \<noteq> []"
      "last (filter (\<lambda>c. c \<noteq> Cancel) h) = Report c msg now"
      "last (filter is_write (as @ bs)) = WriteState c msg now" by (rule pending_last_write [OF il w])
    from run_state(2) [OF w h(4), of t0] h show ?thesis
      using assms(2,3) by (auto simp: snapshot_def ProgressTracker_new_def)
  qed
  show ?thesis
    using run_fixed [of "as @ bs" t0] new cancelled woken writes last run_state(1) [of "as @ bs" t0] assms(3)
    unfolding snapshot_def is_cancelled_def by metis
qed

theorem tracker_interleaving_witness:
  "resolved (fold act [WriteState 3 None 9, StoreCancel, Broadcast, Broadcast] (ProgressTracker_new (ProgressToken ()) None 1))
     (wait_for_update (fold act [WriteState 3 None 9] (ProgressTracker_new (ProgressToken ()) None 1)))"
proof -
  have "interleaved (pending [[Report 3 None 9], [Cancel]])
      ([WriteState 3 None 9] @ [StoreCancel, Broadcast, Broadcast])"
    by (auto simp: pending_def report_actions_def cancel_actions_def
        intro!: interleaved_step [of 0 _ "WriteState 3 None 9" "[Broadcast]"] interleaved_step [of 1 _ StoreCancel "[Broadcast]"]
          interleaved_step [of 0 "[[Broadcast], [Broadcast]]" _ "[]"] interleaved_step [of 1 "[[], [Broadcast]]" _ "[]"]
          interleaved_done)
  from tracker_interleaving [OF this refl refl, of "ProgressToken ()" None 1] show ?thesis by simp
qed

end
