(* ===== verification/Float64.thy ===== *)
theory Float64
  imports "HOL-Library.Log_Nat" Rust_Prelude
begin

text \<open>
  Double-precision arithmetic as the source's \<^verbatim>\<open>f64\<close> has it: the values of the IEEE 754 binary64 format and its
  operations, each the exact operation on real numbers followed by rounding to nearest, ties to even, with gradual
  underflow and overflow to infinity. The two zeros are not told apart, since no program here divides by zero or looks
  at a sign of zero.
\<close>

section \<open>Definitions\<close>

datatype f64 = Fin real | PosInf | NegInf | NaN

text \<open>The exponent of the power of two at or below a positive number.\<close>

definition binary_exponent :: "real \<Rightarrow> int" where
  "binary_exponent x = (if 1 \<le> x then bitlen \<lfloor>x\<rfloor> - 1 else - bitlen (\<lceil>1 / x\<rceil> - 1))"

definition round_half_even :: "real \<Rightarrow> int" where
  "round_half_even y =
     (let f = \<lfloor>y\<rfloor>; d = y - real_of_int f in if d < 1 / 2 \<or> (d = 1 / 2 \<and> even f) then f else f + 1)"

definition ulp_exponent :: "real \<Rightarrow> int" where
  "ulp_exponent x = max (binary_exponent \<bar>x\<bar> - 52) (- 1074)"

definition round_binary64 :: "real \<Rightarrow> real" where
  "round_binary64 x =
     (if x = 0 then 0
      else real_of_int (round_half_even (x / 2 powi ulp_exponent x)) * 2 powi ulp_exponent x)"

definition round_f64 :: "real \<Rightarrow> f64" where
  "round_f64 x =
     (let r = round_binary64 x in if \<bar>r\<bar> < 2 ^ 1024 then Fin r else if 0 < x then PosInf else NegInf)"

definition signed_inf :: "real \<Rightarrow> f64" where
  "signed_inf s = (if s = 0 then NaN else if 0 < s then PosInf else NegInf)"

fun f64_neg :: "f64 \<Rightarrow> f64" where
  "f64_neg (Fin a) = Fin (- a)"
| "f64_neg PosInf = NegInf"
| "f64_neg NegInf = PosInf"
| "f64_neg NaN = NaN"

fun f64_add :: "f64 \<Rightarrow> f64 \<Rightarrow> f64" where
  "f64_add (Fin a) (Fin b) = round_f64 (a + b)"
| "f64_add NaN b = NaN"
| "f64_add a NaN = NaN"
| "f64_add PosInf NegInf = NaN"
| "f64_add NegInf PosInf = NaN"
| "f64_add PosInf b = PosInf"
| "f64_add NegInf b = NegInf"
| "f64_add a PosInf = PosInf"
| "f64_add a NegInf = NegInf"

definition f64_sub :: "f64 \<Rightarrow> f64 \<Rightarrow> f64" where
  "f64_sub a b = f64_add a (f64_neg b)"

text \<open>A value of the sign of the operand, for products with an infinite one.\<close>

fun f64_sign :: "f64 \<Rightarrow> real" where
  "f64_sign (Fin a) = a"
| "f64_sign PosInf = 1"
| "f64_sign NegInf = - 1"
| "f64_sign NaN = 0"

fun f64_mul :: "f64 \<Rightarrow> f64 \<Rightarrow> f64" where
  "f64_mul (Fin a) (Fin b) = round_f64 (a * b)"
| "f64_mul NaN b = NaN"
| "f64_mul a NaN = NaN"
| "f64_mul a b = signed_inf (f64_sign a * f64_sign b)"

fun f64_div :: "f64 \<Rightarrow> f64 \<Rightarrow> f64" where
  "f64_div (Fin a) (Fin b) = (if b = 0 then signed_inf a else round_f64 (a / b))"
| "f64_div NaN b = NaN"
| "f64_div a NaN = NaN"
| "f64_div (Fin a) b = Fin 0"
| "f64_div a (Fin b) = signed_inf (f64_sign a * (if b = 0 then 1 else b))"
| "f64_div a b = NaN"

fun f64_less :: "f64 \<Rightarrow> f64 \<Rightarrow> bool" where
  "f64_less (Fin a) (Fin b) = (a < b)"
| "f64_less NaN b = False"
| "f64_less a NaN = False"
| "f64_less PosInf b = False"
| "f64_less a NegInf = False"
| "f64_less a b = True"

definition f64_le :: "f64 \<Rightarrow> f64 \<Rightarrow> bool" where
  "f64_le a b \<longleftrightarrow> f64_less a b \<or> (a = b \<and> a \<noteq> NaN)"

text \<open>\<^verbatim>\<open>f64::min\<close> and \<^verbatim>\<open>f64::max\<close> return the other operand when one is not a number.\<close>

definition f64_min :: "f64 \<Rightarrow> f64 \<Rightarrow> f64" where
  "f64_min a b = (if a = NaN then b else if b = NaN then a else if f64_less b a then b else a)"

definition f64_max :: "f64 \<Rightarrow> f64 \<Rightarrow> f64" where
  "f64_max a b = (if a = NaN then b else if b = NaN then a else if f64_less a b then b else a)"

fun f64_ceil :: "f64 \<Rightarrow> f64" where
  "f64_ceil (Fin a) = Fin (real_of_int \<lceil>a\<rceil>)"
| "f64_ceil a = a"

definition f64_is_finite :: "f64 \<Rightarrow> bool" where
  "f64_is_finite a \<longleftrightarrow> a \<noteq> PosInf \<and> a \<noteq> NegInf \<and> a \<noteq> NaN"

definition f64_of_nat :: "nat \<Rightarrow> f64" where
  "f64_of_nat n = round_f64 (real n)"

text \<open>The saturating cast to an unsigned integer.\<close>

fun f64_to_unsigned :: "nat \<Rightarrow> f64 \<Rightarrow> nat" where
  "f64_to_unsigned umax (Fin a) = (if a \<le> 0 then 0 else min umax (nat \<lfloor>a\<rfloor>))"
| "f64_to_unsigned umax PosInf = umax"
| "f64_to_unsigned umax a = 0"

section \<open>Rounding\<close>

lemma binary_exponent_bounds:
  assumes "0 < x"
  shows "2 powi binary_exponent x \<le> x" "x < 2 * 2 powi binary_exponent x"
proof -
  have "2 powi binary_exponent x \<le> x \<and> x < 2 * 2 powi binary_exponent x"
  proof (cases "1 \<le> x")
    case True
    let ?m = "\<lfloor>x\<rfloor>"
    have m: "0 < ?m" "1 \<le> bitlen ?m" using True bitlen_ge_iff_power [of 1 ?m] by (auto simp: one_le_floor)
    have b: "2 ^ nat (bitlen ?m - 1) \<le> ?m" "?m + 1 \<le> 2 ^ nat (bitlen ?m)" using bitlen_bounds [OF m(1)] by auto
    have "real_of_int (2 ^ nat (bitlen ?m - 1)) \<le> x" using b(1) by (meson le_floor_iff)
    moreover have "x < real_of_int (2 ^ nat (bitlen ?m))" using b(2) by (meson floor_less_iff less_le_trans zless_add1_eq order_refl less_add_one)
    moreover have "nat (bitlen ?m) = Suc (nat (bitlen ?m - 1))" using m(2) by simp
    ultimately show ?thesis using True m(2) by (simp add: binary_exponent_def power_int_def)
  next
    case False
    let ?y = "1 / x"
    let ?n = "\<lceil>?y\<rceil> - 1"
    have y: "1 < ?y" using False assms by simp
    then have n: "0 < ?n" "1 \<le> bitlen ?n" using bitlen_ge_iff_power [of 1 ?n] by (auto simp: less_ceiling_iff)
    have b: "2 ^ nat (bitlen ?n - 1) \<le> ?n" "?n < 2 ^ nat (bitlen ?n)" using bitlen_bounds [OF n(1)] by auto
    have "\<lceil>?y\<rceil> \<le> 2 ^ nat (bitlen ?n)" using b(2) by linarith
    then have up: "?y \<le> 2 ^ nat (bitlen ?n)" unfolding ceiling_le_iff by simp
    have lo: "2 ^ nat (bitlen ?n - 1) < ?y" using b(1) by (simp add: le_diff_eq add1_zle_eq less_ceiling_iff)
    have two: "(2::real) ^ nat (bitlen ?n) = 2 * 2 ^ nat (bitlen ?n - 1)"
      using n(2) by (simp flip: power_Suc)
    have p: "(2::real) powi binary_exponent x = 1 / 2 ^ nat (bitlen ?n)"
      using False n(2) by (simp add: binary_exponent_def power_int_def field_simps)
    have "1 / 2 ^ nat (bitlen ?n) \<le> x" using up assms by (simp add: field_simps)
    moreover have "x < 2 * (1 / 2 ^ nat (bitlen ?n))" using lo assms two by (simp add: field_simps)
    ultimately show ?thesis unfolding p by blast
  qed
  then show "2 powi binary_exponent x \<le> x" "x < 2 * 2 powi binary_exponent x" by simp_all
qed

lemma round_half_even_error: "\<bar>real_of_int (round_half_even y) - y\<bar> \<le> 1 / 2"
  by (simp add: round_half_even_def Let_def)

lemma round_half_even_of_int [simp]: "round_half_even (real_of_int n) = n"
  by (simp add: round_half_even_def)

lemma round_half_even_nonneg: "0 \<le> y \<Longrightarrow> 0 \<le> round_half_even y"
  by (simp add: round_half_even_def Let_def)

text \<open>The unit roundoff, and half of the smallest positive value.\<close>

definition roundoff :: real where
  "roundoff = 1 / 2 ^ 53"

definition half_tiny :: real where
  "half_tiny = 1 / 2 ^ 1075"

lemma roundoff_bounds: "0 < roundoff" "roundoff \<le> 1 / 4" "2 * roundoff = 1 / 2 ^ 52"
  by (simp_all add: roundoff_def)

lemma half_tiny_bounds: "0 < half_tiny" "n \<le> 1075 \<Longrightarrow> half_tiny \<le> 1 / 2 ^ n"
  unfolding half_tiny_def by (simp, intro divide_left_mono power_increasing) simp_all

lemma ulp_bound:
  assumes "0 < x"
  shows "2 powi ulp_exponent x / 2 \<le> roundoff * x \<or> 2 powi ulp_exponent x / 2 = half_tiny"
proof (cases "- 1074 \<le> binary_exponent x - 52")
  case True
  then have "(2::real) powi ulp_exponent x = 2 powi binary_exponent x * 2 powi (- 52)"
    using assms by (simp add: ulp_exponent_def power_int_diff power_int_minus field_simps)
  then show ?thesis using binary_exponent_bounds(1) [OF assms] by (simp add: roundoff_def power_int_minus field_simps)
next
  case False
  then have "ulp_exponent x = - 1074" using assms by (simp add: ulp_exponent_def)
  then show ?thesis by (simp add: half_tiny_def power_int_minus field_simps)
qed

lemma round_half_ulp:
  assumes "0 < x"
  shows "\<bar>round_binary64 x - x\<bar> \<le> 2 powi ulp_exponent x / 2"
proof -
  let ?u = "(2::real) powi ulp_exponent x"
  have "\<bar>round_binary64 x - x\<bar> = \<bar>real_of_int (round_half_even (x / ?u)) - x / ?u\<bar> * ?u"
    using assms by (simp add: round_binary64_def abs_mult_pos' field_simps flip: abs_mult_pos)
  also have "\<dots> \<le> 1 / 2 * ?u" by (rule mult_right_mono [OF round_half_even_error]) simp
  finally show ?thesis by simp
qed

lemma round_error:
  assumes "0 \<le> x"
  shows "\<bar>round_binary64 x - x\<bar> \<le> roundoff * x + half_tiny" "0 \<le> round_binary64 x"
proof -
  let ?u = "(2::real) powi ulp_exponent x"
  have u: "0 < ?u" by simp
  show "0 \<le> round_binary64 x" using assms u round_half_even_nonneg [of "x / ?u"] by (simp add: round_binary64_def)
  show "\<bar>round_binary64 x - x\<bar> \<le> roundoff * x + half_tiny"
  proof (cases "x = 0")
    case False
    then have "\<bar>round_binary64 x - x\<bar> \<le> ?u / 2" using assms by (intro round_half_ulp) simp
    moreover have "0 \<le> roundoff * x" "0 \<le> half_tiny" using assms roundoff_bounds half_tiny_bounds by simp_all
    ultimately show ?thesis using ulp_bound [of x] assms False by linarith
  qed (simp add: round_binary64_def half_tiny_bounds less_imp_le)
qed

text \<open>Natural numbers below two to the fifty-third are represented exactly.\<close>

lemma round_nat_exact:
  assumes "n < 2 ^ 53"
  shows "round_binary64 (real n) = real n"
proof (cases "n = 0")
  case False
  let ?e = "ulp_exponent (real n)"
  have "2 powi binary_exponent (real n) \<le> real n" using False by (intro binary_exponent_bounds) simp
  also have "\<dots> < 2 powi 53" using assms by (simp add: power_int_def flip: of_nat_less_numeral_power_cancel_iff)
  finally have "binary_exponent (real n) < 53" using power_int_increasing [of 53 "binary_exponent (real n)" "2 :: real"] by fastforce
  then have "?e \<le> 0" by (simp add: ulp_exponent_def)
  then have p: "2 powi ?e = (1::real) / 2 ^ nat (- ?e)" by (simp add: power_int_def power_one_over)
  then have "real n / 2 powi ?e = real n * 2 ^ nat (- ?e)" by simp
  also have "\<dots> = real_of_int (int n * 2 ^ nat (- ?e))" by simp
  finally have "round_half_even (real n / 2 powi ?e) = int n * 2 ^ nat (- ?e)" by (simp only: round_half_even_of_int)
  then show ?thesis using False p by (simp add: round_binary64_def)
qed (simp add: round_binary64_def)

lemma f64_of_nat_exact:
  assumes "n < 2 ^ 53"
  shows "f64_of_nat n = Fin (real n)"
proof -
  have "real n < 2 ^ 53" using assms by simp
  also have "\<dots> \<le> (2::real) ^ 1024" by (rule power_increasing) simp_all
  finally show ?thesis using round_nat_exact [OF assms] by (simp add: f64_of_nat_def round_f64_def)
qed

text \<open>A rounded result, bounded from above; an infinite one stands for a large number.\<close>

lemma round_f64_cases:
  assumes "0 \<le> x"
  obtains r where "round_f64 x = Fin r" "0 \<le> r" "r \<le> (1 + roundoff) * x + half_tiny"
  | "round_f64 x = PosInf" "2 ^ 1024 \<le> (1 + roundoff) * x + half_tiny"
proof -
  define r where "r = round_binary64 x"
  have r: "0 \<le> r" "r \<le> (1 + roundoff) * x + half_tiny"
    using round_error [OF assms] by (simp_all add: r_def distrib_right)
  show ?thesis
  proof (cases "r < 2 ^ 1024")
    case True
    then show ?thesis using r that(1) by (simp add: round_f64_def r_def [symmetric])
  next
    case False
    then have "x \<noteq> 0" by (auto simp: r_def round_binary64_def)
    then show ?thesis using False r assms that(2) by (simp add: round_f64_def r_def [symmetric])
  qed
qed

lemma round_f64_small:
  assumes "0 \<le> x" "x \<le> 2 ^ 70"
  obtains r where "round_f64 x = Fin r" "0 \<le> r" "r \<le> (1 + roundoff) * x + half_tiny"
proof -
  have "(1 + roundoff) * x + half_tiny \<le> 2 * 2 ^ 70 + 1"
    using assms roundoff_bounds half_tiny_bounds(2) [of 0] by (intro add_mono mult_mono) simp_all
  also have "\<dots> < (2::real) ^ 72" by simp
  also have "\<dots> \<le> 2 ^ 1024" by (rule power_increasing) simp_all
  finally show ?thesis using round_f64_cases [OF assms(1)] that by (metis not_less)
qed

text \<open>For numbers that are not tiny the error is relative.\<close>

lemma round_relative:
  assumes "1 / 2 ^ 60 \<le> x"
  shows "round_binary64 x \<le> (1 + roundoff) * x"
proof -
  have x: "0 < x" using assms by (smt (verit) zero_less_divide_1_iff zero_less_numeral zero_less_power)
  have "half_tiny \<le> 1 / 2 ^ 113" by (rule half_tiny_bounds) simp
  also have "\<dots> = roundoff * (1 / 2 ^ 60)" by (simp add: roundoff_def)
  also have "\<dots> \<le> roundoff * x" by (rule mult_left_mono [OF assms]) (simp add: roundoff_def)
  finally have tiny: "half_tiny \<le> roundoff * x" .
  have "2 powi ulp_exponent x / 2 \<le> roundoff * x" using ulp_bound [OF x] tiny by argo
  then have "round_binary64 x \<le> x + roundoff * x" using round_half_ulp [OF x] by linarith
  then show ?thesis by (simp only: distrib_right mult_1)
qed

text \<open>A rounded value that is capped.\<close>

lemma capped_round:
  assumes "y \<le> c" "y \<le> (1 + roundoff) * z + half_tiny" "0 \<le> c"
  shows "y \<le> min c z + roundoff * c + half_tiny"
proof (cases "z \<le> c")
  case True
  then have "roundoff * z \<le> roundoff * c" using roundoff_bounds by (intro mult_left_mono) simp_all
  then show ?thesis using assms(2) True by (simp add: distrib_right)
next
  case False
  moreover have "0 \<le> roundoff * c" "0 < half_tiny" using assms(3) roundoff_bounds half_tiny_bounds by simp_all
  ultimately show ?thesis using assms(1) by simp
qed

text \<open>Some values, among them a third and three times a third.\<close>

lemma rounded_third:
  "round_f64 (3 * (6004799503160661 / 2 ^ 54)) = Fin 1"
  by code_simp

lemma third_rounded:
  "round_f64 (1 / 3) = Fin (6004799503160661 / 2 ^ 54)"
  by code_simp

lemma rounded_naturals: "round_f64 0 = Fin 0" "round_f64 1 = Fin 1" "round_f64 10 = Fin 10"
  using f64_of_nat_exact [of 0] f64_of_nat_exact [of 1] f64_of_nat_exact [of 10] by (simp_all add: f64_of_nat_def)

lemmas rounded_examples = rounded_third third_rounded rounded_naturals

end
