(* ===== verification/Rate_Limiter.thy ===== *)
theory Rate_Limiter
  imports Error_Contract Float64
begin

text \<open>
  The per-host token-bucket limiter and the idempotency-key replay layer of
  \<^verbatim>\<open>crates/stealth-agent-contracts/src/rate.rs\<close>.

  Instants and durations are nanosecond counts; the clock reading of a call is an argument, so a
  concurrent execution is a sequence of calls whose readings need not be ordered. The bucket
  arithmetic is that of \<open>Float64\<close>, with every rounding the code makes. A map entry is locked for the whole of a call, so calls are atomic.
\<close>

section \<open>Definitions\<close>

record RateLimitConfig =
  per_host_qps :: f64
  burst :: nat

definition RateLimitConfig_default :: RateLimitConfig where
  "RateLimitConfig_default = \<lparr>per_host_qps = Fin 1, burst = 2\<rparr>"

datatype RateLimitReason = QpsExceeded | Retry429

record RateLimitWait =
  wait_for_ms :: nat
  reason :: RateLimitReason

definition DEFAULT_429_BACKOFF_SECS :: nat where
  "DEFAULT_429_BACKOFF_SECS = 30"

definition MAX_429_BACKOFF_SECS :: nat where
  "MAX_429_BACKOFF_SECS = 24 * 60 * 60"

text \<open>\<^verbatim>\<open>Duration::as_secs_f64\<close>: the seconds and the nanoseconds are converted apart and added.\<close>

definition as_secs_f64 :: "nat \<Rightarrow> f64" where
  "as_secs_f64 d = f64_add (f64_of_nat (d div 1000000000)) (f64_div (f64_of_nat (d mod 1000000000)) (Fin 1000000000))"

text \<open>\<^verbatim>\<open>Instant::saturating_duration_since\<close> is subtraction on the naturals; \<^verbatim>\<open>checked_add\<close> fails beyond
  the platform's last instant \<open>imax\<close>.\<close>

definition instant_checked_add :: "nat \<Rightarrow> nat \<Rightarrow> nat \<Rightarrow> nat option" where
  "instant_checked_add imax t d = (if t + d \<le> imax then Some (t + d) else None)"

record TokenBucket =
  tokens :: f64
  capacity :: f64
  refill_per_sec :: f64
  last_refill :: nat
  last_429_until :: "nat option"

definition TokenBucket_new :: "RateLimitConfig \<Rightarrow> nat \<Rightarrow> TokenBucket" where
  "TokenBucket_new cfg now =
     (let cap = f64_of_nat (max (burst cfg) 1) in
      \<lparr>tokens = cap, capacity = cap, refill_per_sec = f64_max (per_host_qps cfg) (Fin 0),
       last_refill = now, last_429_until = None\<rparr>)"

definition refill :: "TokenBucket \<Rightarrow> nat \<Rightarrow> TokenBucket" where
  "refill b now =
     (let elapsed = as_secs_f64 (now - last_refill b);
          b1 = (if f64_less (Fin 0) elapsed \<and> f64_less (Fin 0) (refill_per_sec b)
                then b\<lparr>tokens := f64_min (f64_add (tokens b) (f64_mul elapsed (refill_per_sec b))) (capacity b)\<rparr> else b)
      in b1\<lparr>last_refill := now\<rparr>)"

record PerHostRateLimiter =
  buckets :: "ustr \<rightharpoonup> TokenBucket"
  default_config :: RateLimitConfig

definition PerHostRateLimiter_new :: "RateLimitConfig \<Rightarrow> PerHostRateLimiter" where
  "PerHostRateLimiter_new cfg = \<lparr>buckets = Map.empty, default_config = cfg\<rparr>"

definition duration_to_ms_ceil :: "nat \<Rightarrow> nat" where
  "duration_to_ms_ceil d =
     (let nanos = d mod 1000000000;
          secs_ms = saturating_mul u64_max (d div 1000000000) 1000;
          extra = (if nanos = 0 then 0 else (nanos + 999999) div 1000000)
      in saturating_add u64_max secs_ms (if extra \<le> u64_max then extra else u64_max))"

text \<open>The literal \<^verbatim>\<open>18_446_744_073_709_551_000.0\<close>; the nearest double is two to the sixty-fourth.\<close>

definition u64_max_f64 :: f64 where
  "u64_max_f64 = Fin (2 ^ 64)"

definition entry_or_new :: "PerHostRateLimiter \<Rightarrow> ustr \<Rightarrow> nat \<Rightarrow> TokenBucket" where
  "entry_or_new l host now =
     (case buckets l host of Some b \<Rightarrow> b | None \<Rightarrow> TokenBucket_new (default_config l) now)"

definition qps_wait_ms :: "TokenBucket \<Rightarrow> nat" where
  "qps_wait_ms b =
     (let needed = f64_sub (Fin 1) (tokens b);
          wait_secs = (if f64_less (Fin 0) (refill_per_sec b) then f64_div needed (refill_per_sec b) else f64_of_nat u32_max);
          wait_ms = f64_max (f64_ceil (f64_mul wait_secs (Fin 1000))) (Fin 1)
      in if f64_is_finite wait_ms \<and> f64_less wait_ms u64_max_f64 then f64_to_unsigned u64_max wait_ms else u64_max)"

definition steady_acquire :: "TokenBucket \<Rightarrow> nat \<Rightarrow> (RateLimitWait + unit) \<times> TokenBucket" where
  "steady_acquire b now =
     (let b1 = refill b now in
      if f64_le (Fin 1) (tokens b1) then (Inr (), b1\<lparr>tokens := f64_sub (tokens b1) (Fin 1)\<rparr>)
      else (Inl \<lparr>wait_for_ms = qps_wait_ms b1, reason = QpsExceeded\<rparr>, b1))"

definition bucket_acquire :: "TokenBucket \<Rightarrow> nat \<Rightarrow> (RateLimitWait + unit) \<times> TokenBucket" where
  "bucket_acquire b now =
     (case last_429_until b of
        Some until \<Rightarrow>
          if now < until
          then (Inl \<lparr>wait_for_ms = duration_to_ms_ceil (until - now), reason = Retry429\<rparr>, b)
          else steady_acquire (b\<lparr>last_429_until := None\<rparr>) now
      | None \<Rightarrow> steady_acquire b now)"

definition try_acquire :: "PerHostRateLimiter \<Rightarrow> ustr \<Rightarrow> nat \<Rightarrow> (RateLimitWait + unit) \<times> PerHostRateLimiter" where
  "try_acquire l host now =
     (case bucket_acquire (entry_or_new l host now) now of
        (r, b) \<Rightarrow> (r, l\<lparr>buckets := (buckets l)(host \<mapsto> b)\<rparr>))"

definition record_429 :: "nat \<Rightarrow> PerHostRateLimiter \<Rightarrow> ustr \<Rightarrow> nat option \<Rightarrow> nat \<Rightarrow> PerHostRateLimiter" where
  "record_429 imax l host retry_after_secs now =
     (let backoff = min (case retry_after_secs of Some s \<Rightarrow> s | None \<Rightarrow> DEFAULT_429_BACKOFF_SECS)
                        MAX_429_BACKOFF_SECS;
          until = (case instant_checked_add imax now (from_secs backoff) of Some t \<Rightarrow> t | None \<Rightarrow> now)
      in l\<lparr>buckets := (buckets l)(host \<mapsto>
             (entry_or_new l host now)\<lparr>last_429_until := Some until, tokens := Fin 0\<rparr>)\<rparr>)"

definition record_success :: "PerHostRateLimiter \<Rightarrow> ustr \<Rightarrow> PerHostRateLimiter" where
  "record_success l host =
     (case buckets l host of
        Some b \<Rightarrow> l\<lparr>buckets := (buckets l)(host \<mapsto> b\<lparr>last_429_until := None\<rparr>)\<rparr>
      | None \<Rightarrow> l)"

subsection \<open>Calls and runs\<close>

datatype limiter_call = TryAcquire ustr | Record429 ustr "nat option" | RecordSuccess ustr

text \<open>One call: whether it admitted a request, and the limiter afterwards.\<close>

fun exec :: "nat \<Rightarrow> limiter_call \<Rightarrow> nat \<Rightarrow> PerHostRateLimiter \<Rightarrow> bool \<times> PerHostRateLimiter" where
  "exec imax (TryAcquire h) now l = (case try_acquire l h now of (r, l') \<Rightarrow> (r = Inr (), l'))"
| "exec imax (Record429 h ra) now l = (False, record_429 imax l h ra now)"
| "exec imax (RecordSuccess h) now l = (False, record_success l h)"

text \<open>A run with non-decreasing clock readings.\<close>

inductive reachable :: "nat \<Rightarrow> RateLimitConfig \<Rightarrow> nat \<Rightarrow> PerHostRateLimiter \<Rightarrow> bool" for imax cfg where
  reach_new: "reachable imax cfg t (PerHostRateLimiter_new cfg)"
| reach_call: "reachable imax cfg t l \<Longrightarrow> t \<le> now \<Longrightarrow> reachable imax cfg now (snd (exec imax c now l))"

section \<open>The metering argument\<close>

text \<open>A duration in seconds, exactly.\<close>

definition seconds :: "nat \<Rightarrow> real" where
  "seconds d = real d / 10 ^ 9"

lemma seconds_nonneg [simp]: "0 \<le> seconds d"
  by (simp add: seconds_def)

lemma seconds_split: "a \<le> b \<Longrightarrow> b \<le> c \<Longrightarrow> seconds (c - a) = seconds (b - a) + seconds (c - b)"
  by (simp add: seconds_def of_nat_diff field_simps)

text \<open>What a limiter promises of a run up to the last instant: a credit that grows at most at the nominal rate, never
  exceeds the capacity, and pays for every admission up to a small noise per call. From this the number of admissions
  in a window is bounded.\<close>

locale metered =
  fixes step :: "'c \<Rightarrow> nat \<Rightarrow> 's \<Rightarrow> bool \<times> 's" and inv :: "nat \<Rightarrow> 's \<Rightarrow> bool"
    and avail :: "'s \<Rightarrow> nat \<Rightarrow> real" and rate :: real and cap :: real and noise :: real and horizon :: nat
  assumes rate_nonneg: "0 \<le> rate"
    and inv_step: "inv t s \<Longrightarrow> t \<le> now \<Longrightarrow> now \<le> horizon \<Longrightarrow> inv now (snd (step c now s))"
    and avail_nonneg: "inv t s \<Longrightarrow> 0 \<le> avail s t"
    and avail_cap: "inv t s \<Longrightarrow> avail s t \<le> cap"
    and avail_grows: "inv t s \<Longrightarrow> t \<le> now \<Longrightarrow> avail s now \<le> avail s t + rate * seconds (now - t)"
    and avail_pays: "inv t s \<Longrightarrow> t \<le> now \<Longrightarrow> now \<le> horizon \<Longrightarrow>
      avail (snd (step c now s)) now + (if fst (step c now s) then 1 else 0) \<le> avail s now + noise"
begin

fun admissions :: "('c \<times> nat) list \<Rightarrow> 's \<Rightarrow> nat" where
  "admissions [] s = 0"
| "admissions ((c, now) # cs) s =
     (if fst (step c now s) then 1 else 0) + admissions cs (snd (step c now s))"

lemma admissions_avail:
  assumes "inv t s" "sorted (t # map snd cs @ [stop])" "stop \<le> horizon"
  shows "real (admissions cs s) \<le> avail s t + rate * seconds (stop - t) + real (length cs) * noise"
  using assms(1,2)
proof (induction cs arbitrary: t s)
  case Nil
  then show ?case using avail_nonneg [of t s] rate_nonneg by simp
next
  case (Cons cn cs)
  obtain c now where cn: "cn = (c, now)" by (cases cn)
  have t: "t \<le> now" "now \<le> stop" and s: "sorted (now # map snd cs @ [stop])" using Cons.prems(2) cn by auto
  have h: "now \<le> horizon" using t(2) assms(3) by simp
  let ?s = "snd (step c now s)"
  have "real (admissions cs ?s) \<le> avail ?s now + rate * seconds (stop - now) + real (length cs) * noise"
    by (rule Cons.IH [OF inv_step [OF Cons.prems(1) t(1) h] s])
  moreover have "avail ?s now + (if fst (step c now s) then 1 else 0) \<le> avail s t + rate * seconds (now - t) + noise"
    using avail_pays [OF Cons.prems(1) t(1) h, of c] avail_grows [OF Cons.prems(1) t(1)] by linarith
  moreover have "rate * seconds (stop - t) = rate * seconds (now - t) + rate * seconds (stop - now)"
    using seconds_split [OF t] by (simp add: distrib_left)
  ultimately show ?case by (simp add: cn distrib_right split: if_splits)
qed

lemma admissions_bounded:
  assumes "inv t s" "sorted (t # map snd cs @ [stop])" "stop \<le> horizon"
  shows "real (admissions cs s) \<le> cap + rate * seconds (stop - t) + real (length cs) * noise"
  using admissions_avail [OF assms] avail_cap [OF assms(1)] by linarith

end

section \<open>Buckets\<close>

text \<open>The last instant: seconds are 64-bit.\<close>

definition instant_end :: nat where
  "instant_end = 2 ^ 64 * 10 ^ 9 - 1"

abbreviation cfg_capacity :: "RateLimitConfig \<Rightarrow> real" where
  "cfg_capacity cfg \<equiv> real (max (burst cfg) 1)"

text \<open>The configured rate as a number: negative rates and those that are no numbers count as none.\<close>

definition cfg_rate :: "RateLimitConfig \<Rightarrow> real" where
  "cfg_rate cfg = (case per_host_qps cfg of Fin q \<Rightarrow> max q 0 | _ \<Rightarrow> 0)"

definition cfg_ok :: "RateLimitConfig \<Rightarrow> bool" where
  "cfg_ok cfg \<longleftrightarrow> per_host_qps cfg \<noteq> PosInf \<and> burst cfg \<le> u32_max"

text \<open>The rate with the roundings of the elapsed time and of the product.\<close>

abbreviation rounded_rate :: "RateLimitConfig \<Rightarrow> real" where
  "rounded_rate cfg \<equiv> (1 + roundoff) ^ 3 * cfg_rate cfg"

abbreviation call_noise :: "RateLimitConfig \<Rightarrow> real" where
  "call_noise cfg \<equiv> (cfg_capacity cfg + 1) / 2 ^ 52"

lemma cfg_rate_nonneg [simp]: "0 \<le> cfg_rate cfg"
  by (simp add: cfg_rate_def split: f64.splits)

lemma rounded_rate_nonneg [simp]: "0 \<le> rounded_rate cfg" "0 \<le> rounded_rate cfg * seconds d"
  using roundoff_bounds(1) by simp_all

lemma cfg_rate_f64: "cfg_ok cfg \<Longrightarrow> f64_max (per_host_qps cfg) (Fin 0) = Fin (cfg_rate cfg)"
  by (cases "per_host_qps cfg") (auto simp: cfg_ok_def cfg_rate_def f64_max_def)

lemma cfg_capacity_bounds: "cfg_ok cfg \<Longrightarrow> 1 \<le> cfg_capacity cfg \<and> cfg_capacity cfg < 2 ^ 32"
  by (auto simp: cfg_ok_def u32_max_def)

lemma cfg_capacity_f64:
  assumes "cfg_ok cfg"
  shows "f64_of_nat (max (burst cfg) 1) = Fin (cfg_capacity cfg)"
  using assms by (intro f64_of_nat_exact) (auto simp: cfg_ok_def u32_max_def)

text \<open>The elapsed time is finite and at most two roundings too large.\<close>

lemma round_seconds:
  assumes "0 \<le> x" "x \<le> 2 ^ 66" "x = 0 \<or> 1 / 2 ^ 60 \<le> x"
  obtains r where "round_f64 x = Fin r" "x / 2 \<le> r" "r \<le> (1 + roundoff) * x"
proof -
  obtain r where r: "round_f64 x = Fin r" by (rule round_f64_small [of x]) (use assms in simp_all)
  then have r': "r = round_binary64 x" by (auto simp: round_f64_def Let_def split: if_splits)
  have "x / 2 \<le> r \<and> r \<le> (1 + roundoff) * x"
  proof (cases "x = 0")
    case False
    then have x: "1 / 2 ^ 60 \<le> x" using assms(3) by simp
    have "half_tiny \<le> 1 / 2 ^ 62" by (rule half_tiny_bounds) simp
    also have "\<dots> \<le> x / 4" using x by simp
    finally have tiny: "half_tiny \<le> x / 4" .
    have "roundoff * x \<le> x / 4" using assms(1) mult_right_mono [OF roundoff_bounds(2)] by simp
    then have "x / 2 \<le> round_binary64 x" using tiny round_error(1) [OF assms(1)] by linarith
    then show ?thesis using round_relative [OF x] unfolding r' by blast
  qed (simp add: r' round_binary64_def)
  then show ?thesis using r that by blast
qed

lemma as_secs_bound:
  assumes "d \<le> instant_end"
  obtains e where "as_secs_f64 d = Fin e" "0 \<le> e" "e \<le> (1 + roundoff) ^ 2 * seconds d"
proof -
  define q r where "q = d div 1000000000" and "r = d mod 1000000000"
  have "d = q * 1000000000 + r" by (simp add: q_def r_def)
  then have d: "real d = real q * 1000000000 + real r" by (metis of_nat_add of_nat_mult of_nat_numeral)
  have q: "q < 2 ^ 64" using assms by (auto simp: q_def instant_end_def less_mult_imp_div_less)
  have r: "r < 2 ^ 53" "real r \<le> 10 ^ 9" unfolding r_def by simp_all
  have q': "real q \<le> 2 ^ 64" using q by (simp flip: of_nat_le_numeral_power_cancel_iff)
  obtain s where s: "f64_of_nat q = Fin s" "real q / 2 \<le> s" "s \<le> (1 + roundoff) * real q"
    unfolding f64_of_nat_def by (rule round_seconds [of "real q"]) (use q' in \<open>auto simp: field_simps\<close>)
  obtain f where f: "round_f64 (real r / 10 ^ 9) = Fin f" "real r / 10 ^ 9 / 2 \<le> f" "f \<le> (1 + roundoff) * (real r / 10 ^ 9)"
    by (rule round_seconds [of "real r / 10 ^ 9"]) (use r in \<open>auto simp: field_simps\<close>)
  have f': "f64_div (f64_of_nat r) (Fin 1000000000) = Fin f" using f(1) by (simp add: f64_of_nat_exact [OF r(1)])
  have "s + f = 0 \<or> 1 / 2 ^ 60 \<le> s + f"
  proof (cases "d = 0")
    case True
    then show ?thesis using s f by (simp add: q_def r_def)
  next
    case False
    then have "1 \<le> real q \<or> 1 \<le> real r" using d by (cases "q = 0"; cases "r = 0") auto
    then show ?thesis using s(2) f(2) by (auto simp: field_simps)
  qed
  moreover have "0 \<le> s + f" using s(2) f(2) by (smt (verit) divide_nonneg_nonneg of_nat_0_le_iff zero_le_power)
  moreover have "s + f \<le> 2 ^ 66"
  proof -
    have "(1 + roundoff) * real q \<le> 2 * 2 ^ 64" "(1 + roundoff) * (real r / 10 ^ 9) \<le> 2 * 1"
      using q' r(2) roundoff_bounds by (intro mult_mono; simp)+
    then show ?thesis using s(3) f(3) by simp
  qed
  ultimately obtain e where e: "round_f64 (s + f) = Fin e" "(s + f) / 2 \<le> e" "e \<le> (1 + roundoff) * (s + f)"
    using round_seconds [of "s + f"] by blast
  have "s + f \<le> (1 + roundoff) * seconds d" 
    using add_mono [OF s(3) f(3)] by (simp add: seconds_def d add_divide_distrib distrib_left)
  then have "(1 + roundoff) * (s + f) \<le> (1 + roundoff) * ((1 + roundoff) * seconds d)"
    using roundoff_bounds by (intro mult_left_mono) simp_all
  then have "e \<le> (1 + roundoff) ^ 2 * seconds d" using e(3) by (simp only: power2_eq_square mult.assoc)
  moreover have "as_secs_f64 d = Fin e" using s(1) f' e(1) by (simp add: as_secs_f64_def q_def r_def)
  ultimately show ?thesis using that e(2) \<open>0 \<le> s + f\<close> by simp
qed

definition bucket_ok :: "RateLimitConfig \<Rightarrow> nat \<Rightarrow> TokenBucket \<Rightarrow> bool" where
  "bucket_ok cfg t b \<longleftrightarrow> cfg_ok cfg \<and> (\<exists>x. tokens b = Fin x \<and> 0 \<le> x \<and> x \<le> cfg_capacity cfg) \<and>
     capacity b = Fin (cfg_capacity cfg) \<and> refill_per_sec b = Fin (cfg_rate cfg) \<and> last_refill b \<le> t"

definition token_count :: "TokenBucket \<Rightarrow> real" where
  "token_count b = (case tokens b of Fin x \<Rightarrow> x | _ \<Rightarrow> 0)"

definition bucket_avail :: "RateLimitConfig \<Rightarrow> TokenBucket \<Rightarrow> nat \<Rightarrow> real" where
  "bucket_avail cfg b t = min (cfg_capacity cfg) (token_count b + rounded_rate cfg * seconds (t - last_refill b))"

lemma bucket_new_ok: "cfg_ok cfg \<Longrightarrow> bucket_ok cfg now (TokenBucket_new cfg now)"
  by (simp add: bucket_ok_def TokenBucket_new_def Let_def cfg_capacity_f64 cfg_rate_f64 del: One_nat_def)

lemma bucket_ok_mono: "bucket_ok cfg t b \<Longrightarrow> t \<le> now \<Longrightarrow> bucket_ok cfg now b"
  by (simp add: bucket_ok_def)

lemma bucket_ok_429: "bucket_ok cfg t (b\<lparr>last_429_until := x\<rparr>) = bucket_ok cfg t b"
  by (simp add: bucket_ok_def)

lemma bucket_avail_429 [simp]: "bucket_avail cfg (b\<lparr>last_429_until := x\<rparr>) t = bucket_avail cfg b t"
  by (simp add: bucket_avail_def token_count_def)

lemma refill_sel [simp]:
  "last_refill (refill b now) = now" "capacity (refill b now) = capacity b"
  "refill_per_sec (refill b now) = refill_per_sec b" "last_429_until (refill b now) = last_429_until b"
  by (simp_all add: refill_def Let_def)

lemma bucket_avail_bounds:
  assumes "bucket_ok cfg t b"
  shows "0 \<le> bucket_avail cfg b t'" "bucket_avail cfg b t' \<le> cfg_capacity cfg"
  using assms by (auto simp: bucket_ok_def bucket_avail_def token_count_def)

lemma bucket_avail_grows:
  assumes "bucket_ok cfg t b" "t \<le> now"
  shows "bucket_avail cfg b now \<le> bucket_avail cfg b t + rounded_rate cfg * seconds (now - t)"
proof -
  have "seconds (now - last_refill b) = seconds (t - last_refill b) + seconds (now - t)"
    using assms by (intro seconds_split) (simp_all add: bucket_ok_def)
  moreover have "min c (a + d) \<le> min c a + d" if "0 \<le> d" for a c d :: real
    using that by (simp add: min_def)
  ultimately show ?thesis by (simp add: bucket_avail_def distrib_left flip: add.assoc)
qed

text \<open>What rounding adds to the sum of a refill.\<close>

lemma capped_sum:
  assumes "0 \<le> x" "0 \<le> g" "0 \<le> c" "c < 2 ^ 1024"
  obtains y where "f64_min (f64_add (Fin x) (Fin g)) (Fin c) = Fin y" "0 \<le> y" "y \<le> c"
    "y \<le> min c (x + g) + roundoff * c + half_tiny"
proof -
  have xg: "0 \<le> x + g" using assms(1,2) by simp
  show ?thesis
  proof (rule round_f64_cases [OF xg])
    fix r assume r: "round_f64 (x + g) = Fin r" "0 \<le> r" "r \<le> (1 + roundoff) * (x + g) + half_tiny"
    then have "f64_min (f64_add (Fin x) (Fin g)) (Fin c) = Fin (min r c)" by (simp add: f64_min_def min_def)
    then show ?thesis using r assms(3) by (intro that [of "min r c"] capped_round) simp_all
  next
    assume r: "round_f64 (x + g) = PosInf" "2 ^ 1024 \<le> (1 + roundoff) * (x + g) + half_tiny"
    then show ?thesis using assms(3,4) by (intro that [of c] capped_round) (simp_all add: f64_min_def)
  qed
qed

lemma refill_tokens:
  assumes "bucket_ok cfg t b" "now \<le> instant_end"
  shows "bucket_ok cfg now (refill b now) \<and>
    token_count (refill b now) \<le> bucket_avail cfg b now + roundoff * cfg_capacity cfg + 2 * half_tiny"
proof -
  let ?c = "cfg_capacity cfg" and ?r = "cfg_rate cfg" and ?d = "now - last_refill b"
  have b: "cfg_ok cfg" "capacity b = Fin ?c" "refill_per_sec b = Fin ?r" using assms(1) by (simp_all add: bucket_ok_def)
  obtain x where x: "tokens b = Fin x" "0 \<le> x" "x \<le> ?c" using assms(1) by (auto simp: bucket_ok_def)
  have c: "0 \<le> ?c" "?c < 2 ^ 1024"
    using cfg_capacity_bounds [OF b(1)] power_increasing [of 32 1024 "2 :: real"] by simp_all
  have noise: "0 \<le> roundoff * ?c" "0 < half_tiny" using c(1) roundoff_bounds half_tiny_bounds by simp_all
  obtain e where e: "as_secs_f64 ?d = Fin e" "0 \<le> e" "e \<le> (1 + roundoff) ^ 2 * seconds ?d"
    by (rule as_secs_bound [of ?d]) (use assms(2) in simp)
  have "(1 + roundoff) * (e * ?r) \<le> (1 + roundoff) * ((1 + roundoff) ^ 2 * seconds ?d * ?r)"
    using e(3) roundoff_bounds by (intro mult_left_mono mult_right_mono) simp_all
  then have er: "(1 + roundoff) * (e * ?r) \<le> rounded_rate cfg * seconds ?d" by (simp add: power3_eq_cube power2_eq_square mult_ac)
  show ?thesis
  proof (cases "0 < e \<and> 0 < ?r")
    case False
    then have "refill b now = b\<lparr>last_refill := now\<rparr>" by (auto simp: refill_def e(1) b(3))
    moreover have "x \<le> bucket_avail cfg b now" using x by (simp add: bucket_avail_def token_count_def)
    ultimately show ?thesis using assms(1) x noise by (auto simp: bucket_ok_def token_count_def)
  next
    case True
    obtain y where y: "f64_min (f64_add (Fin x) (f64_mul (Fin e) (Fin ?r))) (Fin ?c) = Fin y" "0 \<le> y" "y \<le> ?c"
        "y \<le> min ?c (x + (rounded_rate cfg * seconds ?d + half_tiny)) + roundoff * ?c + half_tiny"
    proof (rule round_f64_cases [of "e * ?r"])
      show "0 \<le> e * ?r" using True by simp
    next
      fix g assume g: "round_f64 (e * ?r) = Fin g" "0 \<le> g" "g \<le> (1 + roundoff) * (e * ?r) + half_tiny"
      show ?thesis
      proof (rule capped_sum [OF x(2) g(2) c])
        fix y assume y: "f64_min (f64_add (Fin x) (Fin g)) (Fin ?c) = Fin y" "0 \<le> y" "y \<le> ?c"
          "y \<le> min ?c (x + g) + roundoff * ?c + half_tiny"
        have "min ?c (x + g) \<le> min ?c (x + (rounded_rate cfg * seconds ?d + half_tiny))" using g(3) er by (intro min.mono) simp_all
        then have "y \<le> min ?c (x + (rounded_rate cfg * seconds ?d + half_tiny)) + roundoff * ?c + half_tiny" using y(4) by linarith
        then show ?thesis using y(1-3) g(1) by (intro that [of y]) simp_all
      qed
    next
      assume g: "round_f64 (e * ?r) = PosInf" "2 ^ 1024 \<le> (1 + roundoff) * (e * ?r) + half_tiny"
      then have "?c \<le> x + (rounded_rate cfg * seconds ?d + half_tiny)" using er c(2) x(2) by linarith
      then show ?thesis using g(1) c(1) noise by (intro that [of ?c]) (simp_all add: f64_min_def)
    qed
    have "refill b now = b\<lparr>tokens := Fin y, last_refill := now\<rparr>"
      using True y(1) by (simp add: refill_def e(1) b(2,3) x(1))
    moreover have "min ?c (x + (rounded_rate cfg * seconds ?d + half_tiny)) \<le> bucket_avail cfg b now + half_tiny"
      using noise x(1) by (simp add: bucket_avail_def token_count_def min_def)
    ultimately show ?thesis using y b by (simp add: bucket_ok_def token_count_def)
  qed
qed

lemma steady_acquire_ok:
  assumes "bucket_ok cfg t b" "t \<le> now" "now \<le> instant_end"
  shows "bucket_ok cfg now (snd (steady_acquire b now))"
    "bucket_avail cfg (snd (steady_acquire b now)) now + (if fst (steady_acquire b now) = Inr () then 1 else 0)
       \<le> bucket_avail cfg b now + call_noise cfg"
proof -
  let ?c = "cfg_capacity cfg" and ?b = "refill b now"
  note re = refill_tokens [OF assms(1,3)]
  then have ok: "bucket_ok cfg now ?b" "cfg_ok cfg" by (simp_all add: bucket_ok_def)
  obtain x where x: "tokens ?b = Fin x" "0 \<le> x" "x \<le> ?c" using ok by (auto simp: bucket_ok_def)
  have c: "1 \<le> ?c" "?c < 2 ^ 32" using cfg_capacity_bounds [OF ok(2)] by simp_all
  have xr: "x \<le> bucket_avail cfg b now + roundoff * ?c + 2 * half_tiny" using re x(1) by (simp add: token_count_def)
  have "3 * half_tiny \<le> 1 / 2 ^ 52" using half_tiny_bounds(2) [of 54] by simp
  then have noise: "2 * (roundoff * ?c) + 3 * half_tiny \<le> call_noise cfg"
    by (simp add: add_divide_distrib roundoff_def)
  have nn: "0 \<le> roundoff * ?c" "0 < half_tiny" using c(1) roundoff_bounds half_tiny_bounds by simp_all
  have avail: "bucket_avail cfg d now = min ?c y" if "last_refill d = now" "tokens d = Fin y" for d y
    using that by (simp add: bucket_avail_def token_count_def seconds_def)
  have both: "bucket_ok cfg now (snd (steady_acquire b now)) \<and>
    bucket_avail cfg (snd (steady_acquire b now)) now + (if fst (steady_acquire b now) = Inr () then 1 else 0)
       \<le> bucket_avail cfg b now + call_noise cfg"
  proof (cases "1 \<le> x")
    case True
    obtain y where y: "round_f64 (x - 1) = Fin y" "0 \<le> y" "y \<le> (1 + roundoff) * (x - 1) + half_tiny"
      by (rule round_f64_small [of "x - 1"]) (use True x(3) c(2) in simp_all)
    have "roundoff * (x - 1) \<le> roundoff * ?c" using x(3) roundoff_bounds by (intro mult_left_mono) simp_all
    then have le: "y \<le> x - 1 + roundoff * ?c + half_tiny" using y(3) by (simp add: algebra_simps)
    have "roundoff * ?c \<le> 1 / 4" using c by (simp add: roundoff_def)
    then have "y \<le> ?c" using le x(3) half_tiny_bounds(2) [of 1] by simp
    moreover have run: "steady_acquire b now = (Inr (), ?b\<lparr>tokens := Fin y\<rparr>)"
      using True x(1) y(1) by (auto simp: steady_acquire_def f64_le_def f64_sub_def Let_def)
    moreover have "bucket_avail cfg (?b\<lparr>tokens := Fin y\<rparr>) now = y" using avail [of "?b\<lparr>tokens := Fin y\<rparr>" y] \<open>y \<le> ?c\<close> by simp
    moreover have "y + 1 \<le> bucket_avail cfg b now + call_noise cfg" using le xr noise by linarith
    ultimately show ?thesis using ok(1) y(2) by (simp add: bucket_ok_def)
  next
    case False
    then have "steady_acquire b now = (Inl \<lparr>wait_for_ms = qps_wait_ms ?b, reason = QpsExceeded\<rparr>, ?b)"
      using x(1) by (auto simp: steady_acquire_def f64_le_def Let_def)
    moreover have "bucket_avail cfg ?b now = x" using avail [of ?b x] x by simp
    moreover have "x \<le> bucket_avail cfg b now + call_noise cfg" using xr noise nn by linarith
    ultimately show ?thesis using ok(1) by simp
  qed
  then show "bucket_ok cfg now (snd (steady_acquire b now))"
    "bucket_avail cfg (snd (steady_acquire b now)) now + (if fst (steady_acquire b now) = Inr () then 1 else 0)
       \<le> bucket_avail cfg b now + call_noise cfg" by simp_all
qed

lemma call_noise_nonneg [simp]: "0 \<le> call_noise cfg"
  by simp

lemma bucket_acquire_ok:
  assumes "bucket_ok cfg t b" "t \<le> now" "now \<le> instant_end"
  shows "bucket_ok cfg now (snd (bucket_acquire b now))"
    "bucket_avail cfg (snd (bucket_acquire b now)) now + (if fst (bucket_acquire b now) = Inr () then 1 else 0)
       \<le> bucket_avail cfg b now + call_noise cfg"
proof -
  have ok: "bucket_ok cfg t (b\<lparr>last_429_until := x\<rparr>)" for x using assms(1) by (simp add: bucket_ok_429)
  show "bucket_ok cfg now (snd (bucket_acquire b now))"
    using steady_acquire_ok(1) [OF assms] steady_acquire_ok(1) [OF ok assms(2,3)] bucket_ok_mono [OF assms(1,2)]
    by (simp add: bucket_acquire_def split: option.splits)
  show "bucket_avail cfg (snd (bucket_acquire b now)) now + (if fst (bucket_acquire b now) = Inr () then 1 else 0)
      \<le> bucket_avail cfg b now + call_noise cfg"
    using steady_acquire_ok(2) [OF assms] steady_acquire_ok(2) [OF ok assms(2,3), of None] call_noise_nonneg [of cfg]
    by (auto simp: bucket_acquire_def split: option.splits if_splits)
qed

section \<open>The limiter\<close>

definition limiter_ok :: "RateLimitConfig \<Rightarrow> nat \<Rightarrow> PerHostRateLimiter \<Rightarrow> bool" where
  "limiter_ok cfg t l \<longleftrightarrow> cfg_ok cfg \<and> default_config l = cfg \<and> (\<forall>b \<in> ran (buckets l). bucket_ok cfg t b)"

definition host_avail :: "RateLimitConfig \<Rightarrow> ustr \<Rightarrow> PerHostRateLimiter \<Rightarrow> nat \<Rightarrow> real" where
  "host_avail cfg h l t = (case buckets l h of Some b \<Rightarrow> bucket_avail cfg b t | None \<Rightarrow> cfg_capacity cfg)"

definition host_step :: "nat \<Rightarrow> ustr \<Rightarrow> limiter_call \<Rightarrow> nat \<Rightarrow> PerHostRateLimiter \<Rightarrow> bool \<times> PerHostRateLimiter" where
  "host_step imax h c now l = (fst (exec imax c now l) \<and> c = TryAcquire h, snd (exec imax c now l))"

lemma bucket_new_avail: "cfg_ok cfg \<Longrightarrow> bucket_avail cfg (TokenBucket_new cfg now) now = cfg_capacity cfg"
  by (simp add: bucket_avail_def token_count_def TokenBucket_new_def Let_def cfg_capacity_f64 seconds_def del: One_nat_def)

lemma limiter_ok_entry:
  assumes "limiter_ok cfg t l" "t \<le> now"
  shows "bucket_ok cfg now (entry_or_new l h now)" "limiter_ok cfg now l"
    "bucket_avail cfg (entry_or_new l h now) now = host_avail cfg h l now"
  using assms bucket_ok_mono bucket_new_ok [of cfg now] bucket_new_avail [of cfg now]
  by (auto simp: limiter_ok_def entry_or_new_def host_avail_def ran_def split: option.splits)

lemma limiter_ok_update:
  assumes "limiter_ok cfg t l" "bucket_ok cfg t b"
  shows "limiter_ok cfg t (l\<lparr>buckets := (buckets l)(h \<mapsto> b)\<rparr>)"
  using assms by (auto simp: limiter_ok_def ran_def split: if_splits)

lemma limiter_ok_exec:
  assumes "limiter_ok cfg t l" "t \<le> now" "now \<le> instant_end"
  shows "limiter_ok cfg now (snd (exec imax c now l))"
proof (cases c)
  case (TryAcquire h)
  then show ?thesis
    using limiter_ok_update [OF limiter_ok_entry(2) [OF assms(1,2)]
        bucket_acquire_ok(1) [OF limiter_ok_entry(1) [OF assms(1,2)] order_refl assms(3)], of h h]
    by (simp add: try_acquire_def case_prod_beta)
next
  case (Record429 h ra)
  have "bucket_ok cfg now ((entry_or_new l h now)\<lparr>last_429_until := x, tokens := Fin 0\<rparr>)" for x
    using limiter_ok_entry(1) [OF assms(1,2), of h] by (simp add: bucket_ok_def)
  then show ?thesis using Record429 limiter_ok_update [OF limiter_ok_entry(2) [OF assms(1,2)]]
    by (simp add: record_429_def Let_def)
next
  case (RecordSuccess h)
  have "bucket_ok cfg now (b\<lparr>last_429_until := None\<rparr>)" if "buckets l h = Some b" for b
    using that limiter_ok_entry(1) [OF assms(1,2), of h] by (simp add: entry_or_new_def bucket_ok_429)
  then show ?thesis using RecordSuccess limiter_ok_entry(2) [OF assms(1,2)] limiter_ok_update
    by (simp add: record_success_def split: option.splits)
qed

lemma host_avail_exec:
  assumes "limiter_ok cfg t l" "t \<le> now" "now \<le> instant_end"
  shows "host_avail cfg h (snd (host_step imax h c now l)) now + (if fst (host_step imax h c now l) then 1 else 0)
    \<le> host_avail cfg h l now + call_noise cfg"
proof (cases c)
  case (TryAcquire g)
  show ?thesis
  proof (cases "g = h")
    case True
    then show ?thesis
      using bucket_acquire_ok(2) [OF limiter_ok_entry(1) [OF assms(1,2), of h] order_refl assms(3)]
        limiter_ok_entry(3) [OF assms(1,2), of h]
      by (simp add: host_step_def TryAcquire try_acquire_def case_prod_beta host_avail_def split: if_splits)
  qed (simp add: host_step_def TryAcquire try_acquire_def case_prod_beta host_avail_def)
next
  case (Record429 g ra)
  have "bucket_avail cfg (b\<lparr>last_429_until := x, tokens := Fin 0\<rparr>) now \<le> bucket_avail cfg b now" if "bucket_ok cfg now b" for b x
    using that by (auto simp: bucket_avail_def bucket_ok_def token_count_def min_def)
  from this [OF limiter_ok_entry(1) [OF assms(1,2), of h]] limiter_ok_entry(3) [OF assms(1,2), of h] call_noise_nonneg [of cfg]
  show ?thesis by (cases "h = g") (simp_all add: host_step_def Record429 record_429_def Let_def host_avail_def add_increasing2)
next
  case (RecordSuccess g)
  then show ?thesis using call_noise_nonneg [of cfg]
    by (simp add: host_step_def record_success_def host_avail_def split: option.splits)
qed

text \<open>For every host the limiter is a meter with the configured rate and capacity, up to rounding.\<close>

interpretation host: metered "host_step imax h" "limiter_ok cfg" "host_avail cfg h" "rounded_rate cfg" "cfg_capacity cfg"
    "call_noise cfg" instant_end
  for imax h cfg
proof
  show "0 \<le> rounded_rate cfg" by simp
  show "limiter_ok cfg now (snd (host_step imax h c now l))" if "limiter_ok cfg t l" "t \<le> now" "now \<le> instant_end" for t l now c
    using limiter_ok_exec [OF that] by (simp add: host_step_def)
  show "0 \<le> host_avail cfg h l t" "host_avail cfg h l t \<le> cfg_capacity cfg" if "limiter_ok cfg t l" for t l
    using bucket_avail_bounds [OF limiter_ok_entry(1) [OF that order_refl], of h t]
      limiter_ok_entry(3) [OF that order_refl, of h] by simp_all
  show "host_avail cfg h l now \<le> host_avail cfg h l t + rounded_rate cfg * seconds (now - t)"
    if "limiter_ok cfg t l" "t \<le> now" for t l now
    using bucket_avail_grows [OF _ that(2)] limiter_ok_entry(1) [OF that(1) order_refl, of h]
    by (auto simp: host_avail_def entry_or_new_def split: option.splits)
  show "host_avail cfg h (snd (host_step imax h c now l)) now + (if fst (host_step imax h c now l) then 1 else 0)
      \<le> host_avail cfg h l now + call_noise cfg" if "limiter_ok cfg t l" "t \<le> now" "now \<le> instant_end" for t l now c
    by (rule host_avail_exec [OF that])
qed

lemma reachable_ok: "reachable imax cfg t l \<Longrightarrow> cfg_ok cfg \<Longrightarrow> t \<le> instant_end \<Longrightarrow> limiter_ok cfg t l"
proof (induction rule: reachable.induct)
  case (reach_new t)
  then show ?case by (simp add: limiter_ok_def PerHostRateLimiter_new_def)
next
  case (reach_call t l now c)
  then show ?case using limiter_ok_exec [of cfg t l now] by simp
qed

section \<open>Properties of the limiter\<close>

text \<open>Admissions of one host in a run.\<close>

fun admitted :: "nat \<Rightarrow> ustr \<Rightarrow> (limiter_call \<times> nat) list \<Rightarrow> PerHostRateLimiter \<Rightarrow> nat" where
  "admitted imax h [] l = 0"
| "admitted imax h ((c, now) # cs) l =
     (case exec imax c now l of (ok, l') \<Rightarrow> (if ok \<and> c = TryAcquire h then 1 else 0) + admitted imax h cs l')"

lemma admitted_admissions: "admitted imax h cs l = host.admissions imax h cs l"
  by (induction cs arbitrary: l) (auto simp: host_step_def split: prod.splits)

text \<open>
  C6. The limiter limits: in every reachable state and for every host, any sequence of calls (acquires
  of all hosts, recorded 429s and successes) with non-decreasing clock readings between \<open>start\<close> and
  \<open>stop\<close> admits at most the burst size plus the configured rate times the elapsed seconds, up to the roundings of
  double-precision arithmetic: three relative ones on the refilled amount, and for every call one part in two to the
  fifty-second of the bucket size plus one. The rate must not be infinite; a negative one, or one that is not a number,
  counts as zero. Without the allowance for rounding the bound is false, see \<^verbatim>\<open>rounding_admits\<close> below.
\<close>

theorem rate_bound:
  assumes "reachable imax cfg start l" "sorted (start # map snd cs @ [stop])"
    and "stop < 2 ^ 64 * 10 ^ 9" "burst cfg < 2 ^ 32" "per_host_qps cfg \<noteq> PosInf"
  shows "real (admitted imax h cs l) \<le>
    real (max (burst cfg) 1) +
    (1 + 1 / 2 ^ 53) ^ 3 * (case per_host_qps cfg of Fin q \<Rightarrow> max q 0 | _ \<Rightarrow> 0) * (real (stop - start) / 10 ^ 9) +
    real (length cs) * ((real (max (burst cfg) 1) + 1) / 2 ^ 52)"
proof -
  have "cfg_ok cfg" using assms(4,5) by (simp add: cfg_ok_def u32_max_def)
  moreover have stop: "stop \<le> instant_end" using assms(3) by (simp add: instant_end_def)
  moreover have "start \<le> instant_end" using assms(2) stop by simp
  ultimately have "limiter_ok cfg start l" using reachable_ok [OF assms(1)] by simp
  from host.admissions_bounded [OF this assms(2) stop, of imax h] show ?thesis
    by (simp only: admitted_admissions roundoff_def seconds_def cfg_rate_def)
qed

theorem rate_bound_witness:
  "real (admitted (10 ^ 20) (lit ''a'') [(TryAcquire (lit ''a''), 5), (Record429 (lit ''b'') None, 6)]
     (PerHostRateLimiter_new RateLimitConfig_default)) \<le> 2 + (1 + 1 / 2 ^ 53) ^ 3 * (4 / 10 ^ 9) + 2 * (3 / 2 ^ 52)"
  using rate_bound [OF reach_new [of "10 ^ 20" RateLimitConfig_default 5],
      of "[(TryAcquire (lit ''a''), 5), (Record429 (lit ''b'') None, 6)]" 9 "lit ''a''"]
  by (simp add: RateLimitConfig_default_def)

text \<open>
  A third of a request per second, as a double, is a little less than a third; yet three seconds of it are rounded to
  one token, so with a burst of one the calls at zero and at three seconds are both admitted.
\<close>

definition third_config :: RateLimitConfig where
  "third_config = \<lparr>per_host_qps = Fin (6004799503160661 / 2 ^ 54), burst = 1\<rparr>"

lemma as_secs_whole:
  assumes "n < 2 ^ 53"
  shows "as_secs_f64 (n * 1000000000) = Fin (real n)"
  using f64_of_nat_exact [OF assms] f64_of_nat_exact [of 0]
  by (simp add: as_secs_f64_def f64_of_nat_def)

lemma seconds_examples: "as_secs_f64 0 = Fin 0" "as_secs_f64 3000000000 = Fin 3" "as_secs_f64 10000000000 = Fin 10"
  using as_secs_whole [of 0] as_secs_whole [of 3] as_secs_whole [of 10] by simp_all

lemmas example_run = try_acquire_def PerHostRateLimiter_new_def entry_or_new_def TokenBucket_new_def bucket_acquire_def
  steady_acquire_def refill_def Let_def f64_max_def f64_min_def f64_le_def f64_sub_def rounded_examples seconds_examples

lemma rounding_admits:
  "admitted imax h [(TryAcquire h, 0), (TryAcquire h, 3000000000)] (PerHostRateLimiter_new third_config) = 2 \<and>
   round_f64 (1 / 3) = per_host_qps third_config \<and> 1 + 6004799503160661 / 2 ^ 54 * 3 < (2 :: real)"
proof -
  have "f64_of_nat (Suc 0) = Fin 1" "round_f64 (18014398509481983 / 18014398509481984) = Fin 1"
    using f64_of_nat_exact [of 1] rounded_third by simp_all
  then show ?thesis by (simp add: example_run third_config_def)
qed

lemma ms_ceil_eq:
  obtains c where "duration_to_ms_ceil d = min u64_max (min u64_max (d div 1000000000 * 1000) + c)"
    "d \<le> (d div 1000000000 * 1000 + c) * 1000000" "(d div 1000000000 * 1000 + c) * 1000000 < d + 1000000" "c \<le> 1000"
proof -
  define q r where qr: "q = d div 1000000000" "r = d mod 1000000000"
  define c where c: "c = (r + 999999) div 1000000"
  have d: "d = q * 1000000000 + r" and r: "r < 1000000000" by (simp_all add: qr)
  have rc: "r + 999999 = c * 1000000 + (r + 999999) mod 1000000" by (simp add: c)
  have m: "(r + 999999) mod 1000000 < 1000000" by simp
  have c1000: "c \<le> 1000" using r rc by linarith
  have "(if r = 0 then 0 else (r + 999999) div 1000000) = c" by (simp add: c)
  then have "duration_to_ms_ceil d =
      saturating_add u64_max (saturating_mul u64_max q 1000) (if c \<le> u64_max then c else u64_max)"
    by (simp only: duration_to_ms_ceil_def Let_def flip: qr)
  then have "duration_to_ms_ceil d = min u64_max (min u64_max (q * 1000) + c)"
    using c1000 by (simp add: saturating_add_def saturating_mul_def u64_max_def)
  moreover have "(q * 1000 + c) * 1000000 = q * 1000000000 + c * 1000000" by simp
  then have "d \<le> (q * 1000 + c) * 1000000 \<and> (q * 1000 + c) * 1000000 < d + 1000000" using d rc m by linarith
  ultimately show ?thesis using c1000 that unfolding qr by blast
qed

lemma ms_ceil:
  assumes "d < from_secs (2 ^ 50)"
  shows "d \<le> duration_to_ms_ceil d * 1000000" "duration_to_ms_ceil d * 1000000 < d + 1000000"
proof -
  obtain c where c: "duration_to_ms_ceil d = min u64_max (min u64_max (d div 1000000000 * 1000) + c)"
    "d \<le> (d div 1000000000 * 1000 + c) * 1000000" "(d div 1000000000 * 1000 + c) * 1000000 < d + 1000000" "c \<le> 1000"
    by (rule ms_ceil_eq)
  have "d div 1000000000 \<le> 2 ^ 50" using assms by (simp add: from_secs_def)
  then have "duration_to_ms_ceil d = d div 1000000000 * 1000 + c" using c(1,4) by (simp add: u64_max_def)
  then show "d \<le> duration_to_ms_ceil d * 1000000" "duration_to_ms_ceil d * 1000000 < d + 1000000"
    using c(2,3) by simp_all
qed

lemma ms_ceil_unsaturated:
  assumes "duration_to_ms_ceil d < u64_max"
  shows "d \<le> duration_to_ms_ceil d * 1000000"
  using assms by (rule_tac d = d in ms_ceil_eq) (auto simp: min_def split: if_splits)

text \<open>The host of a call, and what a call on a host in cooldown does.\<close>

fun clears :: "ustr \<Rightarrow> limiter_call \<Rightarrow> bool" where
  "clears h (TryAcquire g) = False"
| "clears h (Record429 g ra) = (g = h)"
| "clears h (RecordSuccess g) = (g = h)"

definition cooling :: "ustr \<Rightarrow> nat \<Rightarrow> PerHostRateLimiter \<Rightarrow> bool" where
  "cooling h until l \<longleftrightarrow> (\<exists>b. buckets l h = Some b \<and> last_429_until b = Some until)"

lemma cooling_exec:
  assumes "cooling h until l" "now < until" "\<not> clears h c"
  shows "cooling h until (snd (exec imax c now l))"
  using assms by (cases c)
    (auto simp: cooling_def try_acquire_def bucket_acquire_def entry_or_new_def record_429_def record_success_def
      Let_def case_prod_beta split: option.splits)

lemma cooling_denies:
  assumes "cooling h until l" "now < until"
  shows "try_acquire l h now = (Inl \<lparr>wait_for_ms = duration_to_ms_ceil (until - now), reason = Retry429\<rparr>,
    l\<lparr>buckets := (buckets l)(h \<mapsto> the (buckets l h))\<rparr>)"
  using assms by (auto simp: cooling_def try_acquire_def bucket_acquire_def entry_or_new_def)

fun run :: "nat \<Rightarrow> (limiter_call \<times> nat) list \<Rightarrow> PerHostRateLimiter \<Rightarrow> PerHostRateLimiter" where
  "run imax [] l = l"
| "run imax ((c, now) # cs) l = run imax cs (snd (exec imax c now l))"

lemma cooling_run:
  assumes "cooling h until l" "\<forall>(c, now) \<in> set cs. now < until \<and> \<not> clears h c"
  shows "cooling h until (run imax cs l)"
  using assms by (induction cs arbitrary: l) (auto simp: cooling_exec)

text \<open>
  A recorded 429 is honoured: after \<^verbatim>\<open>record_429\<close> every attempt on that host within the server's
  \<^verbatim>\<open>Retry-After\<close> (30 s when absent, at most a day) is denied as a 429 wait whatever other calls come in
  between, short of a recorded success or another 429 for the host, and the announced wait is the
  remaining time rounded up to a millisecond.
\<close>

lemma cooldown_denies:
  assumes "t + from_secs (24 * 60 * 60) \<le> imax"
    and "secs = min (case ra of Some s \<Rightarrow> s | None \<Rightarrow> 30) (24 * 60 * 60)"
    and "\<forall>(c, now) \<in> set cs. now < t + from_secs secs \<and> \<not> clears h c"
    and "t \<le> now" "now < t + from_secs secs"
  shows "\<exists>w l'. try_acquire (run imax cs (record_429 imax l h ra t)) h now =
      (Inl \<lparr>wait_for_ms = w, reason = Retry429\<rparr>, l') \<and>
    t + from_secs secs \<le> now + w * 1000000 \<and> now + w * 1000000 < t + from_secs secs + 1000000"
proof -
  have "t + from_secs secs \<le> imax" using assms(1,2) by (simp add: from_secs_def min_def split: if_splits)
  then have "cooling h (t + from_secs secs) (record_429 imax l h ra t)"
    using assms(2) by (cases ra) (simp_all add: cooling_def record_429_def Let_def instant_checked_add_def
        DEFAULT_429_BACKOFF_SECS_def MAX_429_BACKOFF_SECS_def)
  from cooling_denies [OF cooling_run [OF this assms(3)] assms(5)]
  have "\<exists>l'. try_acquire (run imax cs (record_429 imax l h ra t)) h now =
    (Inl \<lparr>wait_for_ms = duration_to_ms_ceil (t + from_secs secs - now), reason = Retry429\<rparr>, l')" by blast
  moreover have "t + from_secs secs - now < from_secs (2 ^ 50)"
    using assms(2,4) by (auto simp: from_secs_def min_def split: if_splits)
  from ms_ceil [OF this] have "t + from_secs secs \<le> now + duration_to_ms_ceil (t + from_secs secs - now) * 1000000"
    "now + duration_to_ms_ceil (t + from_secs secs - now) * 1000000 < t + from_secs secs + 1000000"
    using assms(5) by linarith+
  ultimately show ?thesis by blast
qed

text \<open>
  The wait announced in a cooldown is enough: a caller who waits the announced milliseconds and retries, with no other
  call for the host in between, is no longer denied because of the cooldown.
\<close>

lemma wait_is_enough:
  assumes "try_acquire l h now = (Inl w, l')" "reason w = Retry429"
    and "wait_for_ms w < u64_max" "now + wait_for_ms w * 1000000 \<le> later"
    and "fst (try_acquire l' h later) = Inl w'"
  shows "reason w' = QpsExceeded"
proof -
  define b where b: "b = entry_or_new l h now"
  obtain b' where acq: "bucket_acquire b now = (Inl w, b')" and l': "buckets l' h = Some b'"
    using assms(1) by (auto simp: try_acquire_def b split: prod.splits)
  have later: "fst (try_acquire l' h later) = fst (bucket_acquire b' later)"
    by (simp add: try_acquire_def case_prod_beta entry_or_new_def l')
  obtain until where u: "last_429_until b = Some until" "wait_for_ms w = duration_to_ms_ceil (until - now)" "b' = b"
    using acq assms(2) by (auto simp: bucket_acquire_def steady_acquire_def Let_def split: option.splits if_splits)
  then have "until - now \<le> wait_for_ms w * 1000000" using ms_ceil_unsaturated assms(3) by simp
  then have "\<not> later < until" using assms(4) by linarith
  then show ?thesis using assms(5) later u
    by (auto simp: bucket_acquire_def steady_acquire_def Let_def split: if_splits)
qed

text \<open>
  The clock reading is taken before the bucket is locked, and a stale reading moves the refill mark
  back: with a burst of one and one request per second, a call that read the clock ten seconds before
  it got the lock makes the next call at the latest instant admitted again, two admissions at one
  instant.
\<close>

lemma stale_reading_refunds:
  "admitted imax h [(TryAcquire h, 10000000000), (TryAcquire h, 0), (TryAcquire h, 10000000000)]
     (PerHostRateLimiter_new \<lparr>per_host_qps = Fin 1, burst = 1\<rparr>) = 2"
proof -
  have "f64_of_nat (Suc 0) = Fin 1" using f64_of_nat_exact [of 1] by simp
  then show ?thesis by (simp add: example_run)
qed

end
