(* ===== verification/Tool_Rate_Limiter.thy ===== *)
theory Tool_Rate_Limiter
  imports Rate_Limiter
begin

text \<open>
  The idempotency-key replay layer of \<^verbatim>\<open>crates/stealth-agent-contracts/src/rate.rs\<close>
  (\<^verbatim>\<open>ToolRateLimiter\<close>) over the per-host limiter.

  The sequential operations are functions of the state and of the clock readings they take. The
  concurrent behaviour is a step relation whose steps are the atomic map operations the code performs:
  the guarded lookup, the conditional eviction, the admission, the insertion of a completion, the
  garbage collection, and the passing of time.
\<close>

section \<open>Definitions\<close>

definition DEFAULT_IDEMPOTENCY_TTL_SECS :: nat where
  "DEFAULT_IDEMPOTENCY_TTL_SECS = 60 * 60"

datatype IdempotencyKey = IdempotencyKey (as_str: ustr)

record CompletionRecord =
  cr_result :: "ErrorEnvelope + json"
  completed_at :: nat

definition is_expired :: "CompletionRecord \<Rightarrow> nat \<Rightarrow> nat \<Rightarrow> bool" where
  "is_expired rec now ttl = (now - completed_at rec \<ge> ttl)"

record ToolRateLimiter =
  per_host :: PerHostRateLimiter
  completions :: "IdempotencyKey \<rightharpoonup> CompletionRecord"
  tl_ttl :: nat

definition ToolRateLimiter_new :: "PerHostRateLimiter \<Rightarrow> nat \<Rightarrow> ToolRateLimiter" where
  "ToolRateLimiter_new ph ttl = \<lparr>per_host = ph, completions = Map.empty, tl_ttl = ttl\<rparr>"

text \<open>The guarded lookup: a live record to replay, or the completion time of an expired one.\<close>

definition cache_lookup :: "ToolRateLimiter \<Rightarrow> IdempotencyKey \<Rightarrow> nat \<Rightarrow> CompletionRecord + nat option" where
  "cache_lookup trl key now =
     (case completions trl key of
        Some rec \<Rightarrow> if \<not> is_expired rec now (tl_ttl trl) then Inl rec else Inr (Some (completed_at rec))
      | None \<Rightarrow> Inr None)"

text \<open>\<^verbatim>\<open>remove_if\<close> on equality of the completion time.\<close>

definition evict :: "ToolRateLimiter \<Rightarrow> IdempotencyKey \<Rightarrow> nat \<Rightarrow> ToolRateLimiter" where
  "evict trl key observed_at =
     (case completions trl key of
        Some rec \<Rightarrow> if completed_at rec = observed_at then trl\<lparr>completions := (completions trl)(key := None)\<rparr> else trl
      | None \<Rightarrow> trl)"

text \<open>The call reads the clock twice, for the lookup and for the admission.\<close>

definition check_or_replay ::
  "ToolRateLimiter \<Rightarrow> IdempotencyKey \<Rightarrow> ustr \<Rightarrow> nat \<Rightarrow> nat \<Rightarrow>
   (RateLimitWait + CompletionRecord option) \<times> ToolRateLimiter" where
  "check_or_replay trl key host now1 now2 =
     (case cache_lookup trl key now1 of
        Inl rec \<Rightarrow> (Inr (Some rec), trl)
      | Inr observed \<Rightarrow>
          (let trl1 = (case observed of Some seen \<Rightarrow> evict trl key seen | None \<Rightarrow> trl) in
           case try_acquire (per_host trl1) host now2 of
             (Inl w, ph) \<Rightarrow> (Inl w, trl1\<lparr>per_host := ph\<rparr>)
           | (Inr (), ph) \<Rightarrow> (Inr None, trl1\<lparr>per_host := ph\<rparr>)))"

definition record_completion ::
  "ToolRateLimiter \<Rightarrow> IdempotencyKey \<Rightarrow> (ErrorEnvelope + json) \<Rightarrow> nat \<Rightarrow> ToolRateLimiter" where
  "record_completion trl key res now =
     trl\<lparr>completions := (completions trl)(key \<mapsto> \<lparr>cr_result = res, completed_at = now\<rparr>)\<rparr>"

definition gc_expired :: "ToolRateLimiter \<Rightarrow> nat \<Rightarrow> ToolRateLimiter" where
  "gc_expired trl now =
     trl\<lparr>completions := (\<lambda>k. case completions trl k of
          Some rec \<Rightarrow> if is_expired rec now (tl_ttl trl) then None else Some rec | None \<Rightarrow> None)\<rparr>"

definition cached_len :: "ToolRateLimiter \<Rightarrow> nat" where
  "cached_len trl = card (dom (completions trl))"

section \<open>Concurrent steps\<close>

text \<open>Calls in flight hold the completion time of the expired record they saw, until they evict.\<close>

record world =
  limiter :: ToolRateLimiter
  in_flight :: "(IdempotencyKey \<times> nat) set"
  clock :: nat

datatype label = Tick | Lookup IdempotencyKey | Evict IdempotencyKey | Admit ustr | Complete IdempotencyKey | Gc

inductive step :: "label \<Rightarrow> world \<Rightarrow> world \<Rightarrow> bool" where
  step_tick: "clock w \<le> t \<Longrightarrow> step Tick w (w\<lparr>clock := t\<rparr>)"
| step_hit: "cache_lookup (limiter w) k (clock w) = Inl rec \<Longrightarrow> step (Lookup k) w w"
| step_miss: "cache_lookup (limiter w) k (clock w) = Inr None \<Longrightarrow> step (Lookup k) w w"
| step_stale: "cache_lookup (limiter w) k (clock w) = Inr (Some t) \<Longrightarrow>
    step (Lookup k) w (w\<lparr>in_flight := insert (k, t) (in_flight w)\<rparr>)"
| step_evict: "(k, t) \<in> in_flight w \<Longrightarrow> S \<subseteq> in_flight w \<Longrightarrow>
    step (Evict k) w (w\<lparr>limiter := evict (limiter w) k t, in_flight := S\<rparr>)"
| step_admit: "step (Admit h) w (w\<lparr>limiter := (limiter w)\<lparr>per_host := snd (try_acquire (per_host (limiter w)) h t)\<rparr>\<rparr>)"
| step_complete: "t \<le> clock w \<Longrightarrow> step (Complete k) w (w\<lparr>limiter := record_completion (limiter w) k res t\<rparr>)"
| step_gc: "t \<le> clock w \<Longrightarrow> step Gc w (w\<lparr>limiter := gc_expired (limiter w) t\<rparr>)"

inductive run_avoiding :: "label set \<Rightarrow> world \<Rightarrow> world \<Rightarrow> bool" for A where
  run_refl: "run_avoiding A w w"
| run_step: "run_avoiding A w w' \<Longrightarrow> step l w' w'' \<Longrightarrow> l \<notin> A \<Longrightarrow> run_avoiding A w w''"

text \<open>Whatever a call in flight saw had expired.\<close>

definition flight_ok :: "world \<Rightarrow> bool" where
  "flight_ok w \<longleftrightarrow> (\<forall>(k, t) \<in> in_flight w. tl_ttl (limiter w) \<le> clock w - t)"

inductive_cases step_cases: "step l w w'"

lemma step_ttl: "step l w w' \<Longrightarrow> tl_ttl (limiter w') = tl_ttl (limiter w)"
  by (induction rule: step.induct)
    (auto simp: evict_def record_completion_def gc_expired_def split: option.splits)

lemma step_clock: "step l w w' \<Longrightarrow> clock w \<le> clock w'"
  by (induction rule: step.induct) auto

lemma step_flight: "step l w w' \<Longrightarrow> flight_ok w \<Longrightarrow> flight_ok w'"
proof (induction rule: step.induct)
  case (step_tick w t)
  then show ?case by (force simp: flight_ok_def intro: order_trans diff_le_mono)
next
  case (step_stale w k t)
  then show ?case
    by (auto simp: flight_ok_def cache_lookup_def is_expired_def split: option.splits if_splits)
qed (auto simp: flight_ok_def evict_def record_completion_def gc_expired_def split: option.splits)

lemma step_keeps:
  assumes "step l w w'" "l \<noteq> Complete k" "flight_ok w" "completions (limiter w) k = Some rec"
    and "completed_at rec \<le> clock w" "clock w < completed_at rec + tl_ttl (limiter w)"
  shows "completions (limiter w') k = Some rec"
  using assms
proof (induction rule: step.induct)
  case (step_evict k' t w S)
  then have "tl_ttl (limiter w) \<le> clock w - t" by (auto simp: flight_ok_def)
  then have "k' = k \<Longrightarrow> completed_at rec \<noteq> t" using step_evict.prems by linarith
  then show ?case using step_evict.prems by (auto simp: evict_def split: option.splits)
qed (auto simp: record_completion_def gc_expired_def is_expired_def)

lemma run_keeps:
  assumes "run_avoiding {Complete k} w w'" "flight_ok w" "completions (limiter w) k = Some rec" "completed_at rec \<le> clock w"
  shows "flight_ok w' \<and> completed_at rec \<le> clock w' \<and> tl_ttl (limiter w') = tl_ttl (limiter w) \<and>
    (clock w' < completed_at rec + tl_ttl (limiter w) \<longrightarrow> completions (limiter w') k = Some rec)"
  using assms
proof (induction rule: run_avoiding.induct)
  case (run_step w w' l w'')
  then show ?case using step_keeps [OF run_step.hyps(2)] step_flight [OF run_step.hyps(2)]
      step_ttl [OF run_step.hyps(2)] step_clock [OF run_step.hyps(2)] by auto
qed simp

section \<open>Properties\<close>

text \<open>
  C7. Replay is reliable under concurrency: once a completion is recorded for a key, then after any
  interleaving of lookups, evictions by calls that saw an older expired record, admissions, garbage
  collections and completions of other keys, a check within the time to live returns exactly that
  completion and leaves the host's tokens and the cache alone.
\<close>

theorem replay_within_ttl:
  assumes "flight_ok w" "t \<le> clock w"
    and "w1 = w\<lparr>limiter := record_completion (limiter w) k res t\<rparr>"
    and "run_avoiding {Complete k} w1 w'" "clock w' < t + tl_ttl (limiter w)"
  shows "check_or_replay (limiter w') k host (clock w') now2 =
    (Inr (Some \<lparr>cr_result = res, completed_at = t\<rparr>), limiter w')"
proof -
  let ?rec = "\<lparr>cr_result = res, completed_at = t\<rparr>"
  have "flight_ok w1" "completions (limiter w1) k = Some ?rec" "tl_ttl (limiter w1) = tl_ttl (limiter w)"
    "t \<le> clock w1" using assms(1-3) by (simp_all add: flight_ok_def record_completion_def)
  with run_keeps [OF assms(4)] assms(5)
  have "completions (limiter w') k = Some ?rec" "tl_ttl (limiter w') = tl_ttl (limiter w)" "t \<le> clock w'" by auto
  then show ?thesis using assms(5) by (auto simp: check_or_replay_def cache_lookup_def is_expired_def)
qed

theorem replay_within_ttl_witness:
  "check_or_replay (record_completion (ToolRateLimiter_new (PerHostRateLimiter_new RateLimitConfig_default) 100)
      (IdempotencyKey (lit ''k'')) (Inr JNull) 5) (IdempotencyKey (lit ''k'')) (lit ''h'') 60 0 =
    (Inr (Some \<lparr>cr_result = Inr JNull, completed_at = 5\<rparr>),
     record_completion (ToolRateLimiter_new (PerHostRateLimiter_new RateLimitConfig_default) 100)
      (IdempotencyKey (lit ''k'')) (Inr JNull) 5)"
proof -
  let ?trl = "ToolRateLimiter_new (PerHostRateLimiter_new RateLimitConfig_default) 100"
  let ?w = "\<lparr>limiter = ?trl, in_flight = {}, clock = 5\<rparr>"
  let ?w1 = "?w\<lparr>limiter := record_completion ?trl (IdempotencyKey (lit ''k'')) (Inr JNull) 5\<rparr>"
  have "run_avoiding {Complete (IdempotencyKey (lit ''k''))} ?w1 (?w1\<lparr>clock := 60\<rparr>)"
    by (rule run_step [OF run_refl step_tick]) simp_all
  from replay_within_ttl [OF _ _ _ this, of ?w 5 "Inr JNull" "lit ''h''" 0] show ?thesis
    by (simp add: flight_ok_def ToolRateLimiter_new_def)
qed

text \<open>
  On every other branch the check is the host's admission: when no completion is cached or the
  cached one has reached its time to live, the call answers as the per-host limiter does, with that
  limiter's new state, and the expired completion of the key is gone while all others stay.
\<close>

lemma check_consults_limiter:
  assumes "\<forall>rec. completions trl k = Some rec \<longrightarrow> completed_at rec + tl_ttl trl \<le> now1"
    and "try_acquire (per_host trl) host now2 = (r, ph)"
  shows "check_or_replay trl k host now1 now2 =
    (map_sum id (\<lambda>_. None) r,
     trl\<lparr>completions := (completions trl)(k := None), per_host := ph\<rparr>)"
proof (cases "completions trl k")
  case None
  then have "(completions trl)(k := None) = completions trl" by auto
  then show ?thesis using None assms(2)
    by (auto simp: check_or_replay_def cache_lookup_def split: sum.splits old.unit.splits)
next
  case (Some rec)
  then have "tl_ttl trl \<le> now1 - completed_at rec" using assms(1) by fastforce
  then show ?thesis using Some assms(2)
    by (auto simp: check_or_replay_def cache_lookup_def is_expired_def evict_def Let_def split: sum.splits old.unit.splits)
qed

end
