(* ===== verification/Rust_Str.thy ===== *)
theory Rust_Str
  imports Rust_Prelude
begin

text \<open>
  The text functions of \<^verbatim>\<open>str\<close> the components share: trimming, ASCII case, splitting at a character
  and parsing unsigned integers, with the lemmas that connect splitting with joining and parsing with
  printing.
\<close>

section \<open>Definitions\<close>

definition white_space :: "uchar \<Rightarrow> bool" where
  "white_space c = (9 \<le> c \<and> c \<le> 13 \<or> c \<in> {0x20, 0x85, 0xa0, 0x1680, 0x2028, 0x2029, 0x202f, 0x205f, 0x3000} \<or>
     0x2000 \<le> c \<and> c \<le> 0x200a)"

definition trim :: "ustr \<Rightarrow> ustr" where
  "trim s = rev (dropWhile white_space (rev (dropWhile white_space s)))"

definition ascii_lower :: "uchar \<Rightarrow> uchar" where
  "ascii_lower c = (if 65 \<le> c \<and> c \<le> 90 then c + 32 else c)"

definition eq_ignore_ascii_case :: "ustr \<Rightarrow> ustr \<Rightarrow> bool" where
  "eq_ignore_ascii_case s t = (map ascii_lower s = map ascii_lower t)"

definition ends_with :: "ustr \<Rightarrow> ustr \<Rightarrow> bool" where
  "ends_with s t = suffix t s"

definition starts_with :: "ustr \<Rightarrow> ustr \<Rightarrow> bool" where
  "starts_with s t = prefix t s"

definition strip_prefix :: "ustr \<Rightarrow> ustr \<Rightarrow> ustr option" where
  "strip_prefix s t = (if prefix t s then Some (drop (length t) s) else None)"

text \<open>\<^verbatim>\<open>split(c)\<close> yields one piece more than there are separators.\<close>

fun split_char :: "uchar \<Rightarrow> ustr \<Rightarrow> ustr list" where
  "split_char c [] = [[]]"
| "split_char c (x # s) =
     (if x = c then [] # split_char c s
      else case split_char c s of [] \<Rightarrow> [[x]] | p # ps \<Rightarrow> (x # p) # ps)"

text \<open>\<^verbatim>\<open>splitn(2, c)\<close>: the text up to the first separator and, if there is one, what follows it.\<close>

fun split_once :: "uchar \<Rightarrow> ustr \<Rightarrow> ustr \<times> ustr option" where
  "split_once c [] = ([], None)"
| "split_once c (x # s) =
     (if x = c then ([], Some s) else case split_once c s of (a, b) \<Rightarrow> (x # a, b))"

text \<open>
  \<^verbatim>\<open>parse\<close> of an unsigned integer: an optional plus sign, then at least one decimal digit, with the
  value in range.
\<close>

datatype ParseIntError = PIE_Empty | PIE_InvalidDigit | PIE_PosOverflow

definition is_digit :: "uchar \<Rightarrow> bool" where
  "is_digit c = (48 \<le> c \<and> c \<le> 57)"

text \<open>The digit loop stops at the first offending character or at the first overflow.\<close>

fun parse_digits :: "nat \<Rightarrow> ustr \<Rightarrow> nat \<Rightarrow> ParseIntError + nat" where
  "parse_digits mx [] acc = Inr acc"
| "parse_digits mx (c # s) acc =
     (if \<not> is_digit c then Inl PIE_InvalidDigit
      else if mx < acc * 10 + (c - 48) then Inl PIE_PosOverflow
      else parse_digits mx s (acc * 10 + (c - 48)))"

definition parse_unsigned :: "nat \<Rightarrow> ustr \<Rightarrow> ParseIntError + nat" where
  "parse_unsigned mx s =
     (case s of
        [] \<Rightarrow> Inl PIE_Empty
      | [c] \<Rightarrow> if c = 43 \<or> c = 45 then Inl PIE_InvalidDigit else parse_digits mx s 0
      | c # r \<Rightarrow> if c = 43 then parse_digits mx r 0 else parse_digits mx s 0)"

text \<open>The question mark on a \<^verbatim>\<open>Result\<close>.\<close>

definition and_then :: "'e + 'a \<Rightarrow> ('a \<Rightarrow> 'e + 'b) \<Rightarrow> 'e + 'b" where
  "and_then r f = (case r of Inl e \<Rightarrow> Inl e | Inr x \<Rightarrow> f x)"

section \<open>Lemmas\<close>

lemma white_space_code [code]:
  "white_space c =
     (if c < 128 then 9 \<le> c \<and> c \<le> 13 \<or> c = 32
      else c \<in> {0x85, 0xa0, 0x1680, 0x2028, 0x2029, 0x202f, 0x205f, 0x3000} \<or> 0x2000 \<le> c \<and> c \<le> 0x200a)"
  by (auto simp: white_space_def)

lemma and_then_simps [simp]: "and_then (Inl e) f = Inl e" "and_then (Inr x) f = f x"
  by (simp_all add: and_then_def)

lemma and_then_Inr: "and_then r f = Inr y \<longleftrightarrow> (\<exists>x. r = Inr x \<and> f x = Inr y)"
  by (cases r) simp_all

lemma and_then_Inl: "and_then r f = Inl e \<longleftrightarrow> r = Inl e \<or> (\<exists>x. r = Inr x \<and> f x = Inl e)"
  by (cases r) simp_all

lemma map_sum_Inr: "map_sum f g r = Inr y \<longleftrightarrow> (\<exists>x. r = Inr x \<and> g x = y)"
  by (cases r) simp_all

subsection \<open>Trimming\<close>

text \<open>A text is tight when trimming leaves it as it is.\<close>

definition tight :: "ustr \<Rightarrow> bool" where
  "tight s \<longleftrightarrow> s = [] \<or> (\<not> white_space (hd s) \<and> \<not> white_space (last s))"

lemma trim_tight: "tight s \<Longrightarrow> trim s = s"
proof (cases s)
  case (Cons c r)
  assume "tight s"
  with Cons have "\<not> white_space c" "\<not> white_space (hd (rev s))" by (simp_all add: tight_def hd_rev del: rev.simps)
  then have "dropWhile white_space s = s" "dropWhile white_space (rev s) = rev s"
    using Cons by (simp_all add: dropWhile_eq_self_iff)
  then show ?thesis by (simp add: trim_def)
qed (simp add: trim_def)

lemma dropWhile_front:
  assumes "\<forall>c \<in> set a. P c" "\<not> P (hd s)" "s \<noteq> []"
  shows "dropWhile P (a @ s) = s"
  using assms by (induction a) (auto simp: dropWhile_eq_self_iff)

lemma trim_pad:
  assumes "\<forall>c \<in> set a. white_space c" "\<forall>c \<in> set b. white_space c" "tight s"
  shows "trim (a @ s @ b) = s"
proof (cases "s = []")
  case True
  with assms(1,2) have "\<forall>c \<in> set (a @ b). white_space c" by auto
  then have "dropWhile white_space (a @ b) = []" by (simp only: dropWhile_eq_Nil_conv)
  then have "trim (a @ b) = []" by (simp only: trim_def rev.simps dropWhile.simps)
  with True show ?thesis by simp
next
  case False
  with assms(3) have t: "\<not> white_space (hd s)" "\<not> white_space (hd (rev s))" by (simp_all add: tight_def hd_rev)
  have "dropWhile white_space (a @ s @ b) = s @ b"
    using assms(1) False t(1) by (intro dropWhile_front) simp_all
  moreover have "dropWhile white_space (rev b @ rev s) = rev s"
    using assms(2) False t(2) by (intro dropWhile_front) simp_all
  ultimately show ?thesis by (simp add: trim_def)
qed

lemma tight_nospace: "(\<And>c. c \<in> set s \<Longrightarrow> \<not> white_space c) \<Longrightarrow> tight s"
  by (cases s) (auto simp: tight_def)

subsection \<open>Splitting and joining\<close>

lemma split_char_nonempty [simp]: "split_char c s \<noteq> []"
  by (cases s) (auto split: list.splits)

lemma split_char_free [simp]: "c \<notin> set s \<Longrightarrow> split_char c s = [s]"
  by (induction s) auto

lemma split_char_append: "c \<notin> set a \<Longrightarrow> split_char c (a @ c # s) = a # split_char c s"
  by (induction a) auto

lemma split_char_join:
  assumes "ps \<noteq> []" "\<forall>p \<in> set ps. c \<notin> set p"
  shows "split_char c (intersperse_concat [c] ps) = ps"
  using assms by (induction "[c]" ps rule: intersperse_concat.induct) (auto simp: split_char_append)

lemma join_split_char [simp]: "intersperse_concat [c] (split_char c s) = s"
proof (induction s)
  case (Cons x s)
  then show ?case by (cases "split_char c s"; cases "tl (split_char c s)") auto
qed simp

lemma split_char_free_pieces: "p \<in> set (split_char c s) \<Longrightarrow> c \<notin> set p"
proof (induction s arbitrary: p)
  case (Cons x s)
  then show ?case by (auto split: if_splits list.splits)
qed simp

lemma trim_all_white: "\<forall>c \<in> set s. white_space c \<Longrightarrow> trim s = []"
  using trim_pad [of s "[]" "[]"] by (simp add: tight_def)

lemma trim_front: "\<forall>c \<in> set a. white_space c \<Longrightarrow> trim (a @ s) = trim s"
  by (simp add: trim_def dropWhile_append2)

lemma trim_back:
  assumes "\<forall>c \<in> set b. white_space c"
  shows "trim (s @ b) = trim s"
proof (cases "\<forall>c \<in> set s. white_space c")
  case True
  then have "\<forall>c \<in> set (s @ b). white_space c" using assms by auto
  then show ?thesis using trim_all_white [of "s @ b"] trim_all_white [OF True] by simp
next
  case False
  then have "dropWhile white_space (s @ b) = dropWhile white_space s @ b"
    by (induction s) auto
  moreover have "dropWhile white_space (rev b @ t) = dropWhile white_space t" for t
    using assms dropWhile_append2 [of "rev b" white_space t] by simp
  ultimately show ?thesis by (simp add: trim_def)
qed

text \<open>Trimming a text before it is split changes nothing once its pieces are trimmed.\<close>

lemma split_char_back:
  "c \<notin> set b \<Longrightarrow> split_char c (s @ b) = butlast (split_char c s) @ [last (split_char c s) @ b]"
proof (induction s)
  case (Cons x s)
  then show ?case by (cases "split_char c s") auto
qed simp

lemma split_char_front:
  "c \<notin> set a \<Longrightarrow> split_char c (a @ s) = (a @ hd (split_char c s)) # tl (split_char c s)"
proof (induction a)
  case (Cons x a)
  then show ?case by (cases "split_char c s") auto
qed simp

lemma trim_split_pad:
  assumes "\<not> white_space c" "\<forall>d \<in> set a. white_space d" "\<forall>d \<in> set b. white_space d"
  shows "map trim (split_char c (a @ s @ b)) = map trim (split_char c s)"
proof -
  have free: "c \<notin> set a" "c \<notin> set b" using assms by auto
  have "map trim (split_char c (a @ s @ b)) = map trim (split_char c (s @ b))"
    using split_char_front [OF free(1), of "s @ b"] trim_front [OF assms(2)]
    by (cases "split_char c (s @ b)") simp_all
  also have "\<dots> = map trim (split_char c s)"
  proof -
    obtain ps q where q: "split_char c s = ps @ [q]" using split_char_nonempty by (metis rev_exhaust)
    then show ?thesis using split_char_back [OF free(2), of s] trim_back [OF assms(3), of q] by simp
  qed
  finally show ?thesis .
qed

lemma trim_split_trim:
  assumes "\<not> white_space c"
  shows "map trim (split_char c (trim s)) = map trim (split_char c s)"
proof -
  let ?a = "takeWhile white_space s" and ?t = "dropWhile white_space s"
  let ?b = "rev (takeWhile white_space (rev ?t))"
  have "?t = trim s @ ?b"
    using takeWhile_dropWhile_id [of white_space "rev ?t"] by (metis rev_append rev_rev_ident trim_def)
  then have "s = ?a @ trim s @ ?b" by (metis takeWhile_dropWhile_id)
  moreover have "\<forall>d \<in> set ?a. white_space d" "\<forall>d \<in> set ?b. white_space d" by (auto dest: set_takeWhileD)
  ultimately show ?thesis using trim_split_pad [OF assms] by metis
qed

lemma split_once_free: "c \<notin> set s \<Longrightarrow> split_once c s = (s, None)"
  by (induction s) auto

lemma split_once_append: "c \<notin> set a \<Longrightarrow> split_once c (a @ c # s) = (a, Some s)"
  by (induction a) auto

subsection \<open>Numbers\<close>

lemma digits_of_digits: "c \<in> set (digits_of n) \<Longrightarrow> is_digit c"
proof (induction n rule: digits_of.induct)
  case (1 n)
  have "n mod 10 < 10" by simp
  then show ?case using 1 digits_of.simps [of n] by (fastforce simp: is_digit_def split: if_splits)
qed

lemma digits_of_nonempty [simp]: "digits_of n \<noteq> []"
  by (simp add: digits_of.simps [of n])

lemma parse_digits_append:
  "parse_digits mx (s @ t) acc = (case parse_digits mx s acc of Inl e \<Rightarrow> Inl e | Inr v \<Rightarrow> parse_digits mx t v)"
  by (induction mx s acc rule: parse_digits.induct) simp_all

lemma parse_digits_of: "n \<le> mx \<Longrightarrow> parse_digits mx (digits_of n) 0 = Inr n"
proof (induction n rule: digits_of.induct)
  case (1 n)
  show ?case
  proof (cases "n < 10")
    case True
    with "1.prems" show ?thesis by (simp add: digits_of.simps [of n] is_digit_def)
  next
    case False
    have "n mod 10 < 10" by simp
    moreover have "parse_digits mx (digits_of (n div 10)) 0 = Inr (n div 10)"
      using "1.IH" [OF False] "1.prems" by (meson div_le_dividend le_trans)
    ultimately show ?thesis using False "1.prems"
      by (simp add: digits_of.simps [of n] parse_digits_append is_digit_def mult.commute)
  qed
qed

lemma parse_unsigned_digits_of:
  assumes "n \<le> mx"
  shows "parse_unsigned mx (digits_of n) = Inr n"
proof -
  obtain c r where d: "digits_of n = c # r" by (cases "digits_of n") auto
  then have "is_digit c" using digits_of_digits [of c n] by simp
  then have "parse_unsigned mx (c # r) = parse_digits mx (c # r) 0"
    by (cases r) (auto simp: parse_unsigned_def is_digit_def)
  then show ?thesis using parse_digits_of [OF assms] d by simp
qed

lemma parse_digits_bound: "parse_digits mx s acc = Inr v \<Longrightarrow> acc \<le> mx \<Longrightarrow> v \<le> mx"
  by (induction mx s acc rule: parse_digits.induct) (auto split: if_splits)

lemma parse_unsigned_bound: "parse_unsigned mx s = Inr v \<Longrightarrow> v \<le> mx"
  by (auto simp: parse_unsigned_def split: list.splits if_splits dest: parse_digits_bound)

end
