(* ===== verification/Ssrf.thy ===== *)
theory Ssrf
  imports Rust_Str "HOL-Library.Word"
begin

text \<open>
  The bridge's SSRF guard (\<^verbatim>\<open>crates/obscura-bridge/src/ssrf.rs\<close>): which URLs and IP addresses the
  browser bridge may navigate to.

  An IPv4 address is its four octets and an IPv6 address its eight segments, as machine words; the
  predicates of the standard library's address types are written out. The parsed URL is what the URL
  library exposes of it, and the environment switch is an argument.
\<close>

unbundle bit_operations_syntax

section \<open>Definitions\<close>

datatype Ipv4Addr = Ipv4Addr (oct0: "8 word") (oct1: "8 word") (oct2: "8 word") (oct3: "8 word")

datatype Ipv6Addr =
  Ipv6Addr "16 word" "16 word" "16 word" "16 word" "16 word" "16 word" "16 word" "16 word"

datatype IpAddr = V4 Ipv4Addr | V6 Ipv6Addr

subsection \<open>The standard library's classifications\<close>

definition v4_is_loopback :: "Ipv4Addr \<Rightarrow> bool" where
  "v4_is_loopback a = (oct0 a = 127)"

definition v4_is_private :: "Ipv4Addr \<Rightarrow> bool" where
  "v4_is_private a =
     (oct0 a = 10 \<or> (oct0 a = 172 \<and> 16 \<le> oct1 a \<and> oct1 a \<le> 31) \<or> (oct0 a = 192 \<and> oct1 a = 168))"

definition v4_is_link_local :: "Ipv4Addr \<Rightarrow> bool" where
  "v4_is_link_local a = (oct0 a = 169 \<and> oct1 a = 254)"

definition v4_is_broadcast :: "Ipv4Addr \<Rightarrow> bool" where
  "v4_is_broadcast a = (a = Ipv4Addr 255 255 255 255)"

definition v4_is_multicast :: "Ipv4Addr \<Rightarrow> bool" where
  "v4_is_multicast a = (224 \<le> oct0 a \<and> oct0 a \<le> 239)"

definition v4_is_unspecified :: "Ipv4Addr \<Rightarrow> bool" where
  "v4_is_unspecified a = (a = Ipv4Addr 0 0 0 0)"

definition v6_is_loopback :: "Ipv6Addr \<Rightarrow> bool" where
  "v6_is_loopback a = (a = Ipv6Addr 0 0 0 0 0 0 0 1)"

definition v6_is_unspecified :: "Ipv6Addr \<Rightarrow> bool" where
  "v6_is_unspecified a = (a = Ipv6Addr 0 0 0 0 0 0 0 0)"

fun segment0 :: "Ipv6Addr \<Rightarrow> 16 word" where
  "segment0 (Ipv6Addr s0 _ _ _ _ _ _ _) = s0"

definition v6_is_multicast :: "Ipv6Addr \<Rightarrow> bool" where
  "v6_is_multicast a = (segment0 a AND 0xff00 = 0xff00)"

definition v4_of_segments :: "16 word \<Rightarrow> 16 word \<Rightarrow> Ipv4Addr" where
  "v4_of_segments s6 s7 =
     Ipv4Addr (ucast (drop_bit 8 s6)) (ucast s6) (ucast (drop_bit 8 s7)) (ucast s7)"

fun to_ipv4_mapped :: "Ipv6Addr \<Rightarrow> Ipv4Addr option" where
  "to_ipv4_mapped (Ipv6Addr s0 s1 s2 s3 s4 s5 s6 s7) =
     (if [s0, s1, s2, s3, s4] = [0, 0, 0, 0, 0] \<and> s5 = 0xffff then Some (v4_of_segments s6 s7) else None)"

fun to_ipv4 :: "Ipv6Addr \<Rightarrow> Ipv4Addr option" where
  "to_ipv4 (Ipv6Addr s0 s1 s2 s3 s4 s5 s6 s7) =
     (if [s0, s1, s2, s3, s4] = [0, 0, 0, 0, 0] \<and> (s5 = 0 \<or> s5 = 0xffff) then Some (v4_of_segments s6 s7) else None)"

subsection \<open>The guard\<close>

datatype BridgeError = SsrfDenied ustr

definition IMDS_V4 :: Ipv4Addr where
  "IMDS_V4 = Ipv4Addr 169 254 169 254"

definition deny :: "string \<Rightarrow> BridgeError + unit" where
  "deny reason = Inl (SsrfDenied (lit reason))"

definition check_ipv4 :: "Ipv4Addr \<Rightarrow> BridgeError + unit" where
  "check_ipv4 a =
     (if a = IMDS_V4 then deny ''IPv4 IMDS (169.254.169.254)''
      else if v4_is_loopback a then deny ''IPv4 loopback''
      else if v4_is_private a then deny ''IPv4 private (RFC1918)''
      else if v4_is_link_local a then deny ''IPv4 link-local''
      else if v4_is_broadcast a then deny ''IPv4 broadcast''
      else if v4_is_multicast a then deny ''IPv4 multicast''
      else if v4_is_unspecified a then deny ''IPv4 unspecified (0.0.0.0)''
      else if oct0 a = 100 \<and> oct1 a AND 0xc0 = 0x40 then deny ''IPv4 CGNAT (100.64/10)''
      else Inr ())"

definition check_ipv6 :: "Ipv6Addr \<Rightarrow> BridgeError + unit" where
  "check_ipv6 a =
     (if v6_is_loopback a then deny ''IPv6 loopback''
      else if v6_is_unspecified a then deny ''IPv6 unspecified''
      else if v6_is_multicast a then deny ''IPv6 multicast''
      else if segment0 a AND 0xfe00 = 0xfc00 then deny ''IPv6 unique-local (fc00::/7)''
      else if segment0 a AND 0xffc0 = 0xfe80 then deny ''IPv6 link-local (fe80::/10)''
      else case to_ipv4_mapped a of
        Some v4 \<Rightarrow> check_ipv4 v4
      | None \<Rightarrow> (case to_ipv4 a of
          Some v4 \<Rightarrow> if v4 \<noteq> Ipv4Addr 0 0 0 0 then check_ipv4 v4 else Inr ()
        | None \<Rightarrow> Inr ()))"

fun is_blocked_ip :: "IpAddr \<Rightarrow> bool" where
  "is_blocked_ip (V4 v) = (check_ipv4 v \<noteq> Inr ())"
| "is_blocked_ip (V6 v) = (check_ipv6 v \<noteq> Inr ())"





section \<open>Address ranges\<close>

definition to_bits :: "Ipv4Addr \<Rightarrow> nat" where
  "to_bits a = ((unat (oct0 a) * 256 + unat (oct1 a)) * 256 + unat (oct2 a)) * 256 + unat (oct3 a)"

lemma octet_bound [simp]: "unat (w :: 8 word) < 256"
  using unsigned_less [of w, where 'a = nat] by simp

lemma digit_less:
  fixes a b r s B :: nat
  assumes "r < B" "s < B"
  shows "a * B + r < b * B + s \<longleftrightarrow> a < b \<or> a = b \<and> r < s"
proof (cases a b rule: linorder_cases)
  case less
  then have "Suc a * B \<le> b * B" by (intro mult_le_mono1) simp
  then show ?thesis using less assms by simp
next
  case greater
  then have "Suc b * B \<le> a * B" by (intro mult_le_mono1) simp
  then show ?thesis using greater assms by simp
qed simp

lemma digit_eq:
  fixes a b r s B :: nat
  assumes "r < B" "s < B"
  shows "a * B + r = b * B + s \<longleftrightarrow> a = b \<and> r = s"
  using digit_less [OF assms, of a b] digit_less [OF assms(2,1), of b a] by (metis less_irrefl nat_neq_iff)

lemma to_bits_inject: "to_bits a = to_bits b \<longleftrightarrow> a = b"
  by (cases a; cases b) (simp only: to_bits_def digit_eq [OF octet_bound octet_bound] Ipv4Addr.sel Ipv4Addr.inject
      word_unat_eq_iff, simp)

lemma to_bits_less:
  "to_bits a < to_bits b \<longleftrightarrow> oct0 a < oct0 b \<or> oct0 a = oct0 b \<and> (oct1 a < oct1 b \<or> oct1 a = oct1 b \<and>
     (oct2 a < oct2 b \<or> oct2 a = oct2 b \<and> oct3 a < oct3 b))"
  by (simp only: to_bits_def digit_less [OF octet_bound octet_bound] digit_eq [OF octet_bound octet_bound]
      word_less_nat_alt word_unat_eq_iff) blast

text \<open>Addresses are ordered as the standard library orders them, by their octets from the left.\<close>

instantiation Ipv4Addr :: linorder
begin

definition less_eq_Ipv4Addr :: "Ipv4Addr \<Rightarrow> Ipv4Addr \<Rightarrow> bool" where
  "less_eq_Ipv4Addr a b \<longleftrightarrow> to_bits a \<le> to_bits b"

definition less_Ipv4Addr :: "Ipv4Addr \<Rightarrow> Ipv4Addr \<Rightarrow> bool" where
  "less_Ipv4Addr a b \<longleftrightarrow> to_bits a < to_bits b"

instance
  by standard (auto simp: less_eq_Ipv4Addr_def less_Ipv4Addr_def to_bits_inject)

end

text \<open>The blocks the guard closes, first and last address.\<close>

definition blocked_v4 :: "(Ipv4Addr \<times> Ipv4Addr) list" where
  "blocked_v4 =
     [(Ipv4Addr 0 0 0 0, Ipv4Addr 0 0 0 0),
      (Ipv4Addr 10 0 0 0, Ipv4Addr 10 255 255 255),
      (Ipv4Addr 100 64 0 0, Ipv4Addr 100 127 255 255),
      (Ipv4Addr 127 0 0 0, Ipv4Addr 127 255 255 255),
      (Ipv4Addr 169 254 0 0, Ipv4Addr 169 254 255 255),
      (Ipv4Addr 172 16 0 0, Ipv4Addr 172 31 255 255),
      (Ipv4Addr 192 168 0 0, Ipv4Addr 192 168 255 255),
      (Ipv4Addr 224 0 0 0, Ipv4Addr 239 255 255 255),
      (Ipv4Addr 255 255 255 255, Ipv4Addr 255 255 255 255)]"

lemma octet_max: "\<not> 255 < (w :: 8 word)" "255 \<le> w \<longleftrightarrow> w = 255"
  using octet_bound [of w] by (auto simp: word_less_nat_alt word_le_nat_alt word_unat_eq_iff simp del: octet_bound)

lemma addr_le: "a \<le> b \<longleftrightarrow> \<not> to_bits b < to_bits a"
  by (simp add: less_eq_Ipv4Addr_def not_less)

lemma range_octet0:
  "Ipv4Addr x 0 0 0 \<le> a \<and> a \<le> Ipv4Addr y 255 255 255 \<longleftrightarrow> x \<le> oct0 a \<and> oct0 a \<le> y"
  by (auto simp: addr_le to_bits_less octet_max)

lemma range_octet1:
  "Ipv4Addr x y 0 0 \<le> a \<and> a \<le> Ipv4Addr x z 255 255 \<longleftrightarrow> oct0 a = x \<and> y \<le> oct1 a \<and> oct1 a \<le> z"
  by (auto simp: addr_le to_bits_less octet_max)

lemma and_top_bits: "(x :: 'a::len word) AND NOT (mask n) = push_bit n (drop_bit n x)"
  by (rule bit_word_eqI) (auto simp: bit_simps)

lemma drop_push_drop: "drop_bit n (push_bit n (drop_bit n x)) = drop_bit n (x :: 'a::len word)"
  by (rule bit_word_eqI) (auto simp: bit_simps dest: bit_imp_le_length)

lemma prefix_test:
  fixes x :: "'a::len word"
  assumes "NOT (mask n) = m" "b AND m = b"
  shows "x AND m = b \<longleftrightarrow> unat x div 2 ^ n = unat b div 2 ^ n"
proof -
  have "x AND m = b \<longleftrightarrow> push_bit n (drop_bit n x) = push_bit n (drop_bit n b)"
    using assms by (simp add: and_top_bits [symmetric])
  also have "\<dots> \<longleftrightarrow> drop_bit n x = drop_bit n b"
    using drop_push_drop [of n x] drop_push_drop [of n b] by metis
  also have "\<dots> \<longleftrightarrow> drop_bit n (unat x) = drop_bit n (unat b)" by (simp only: word_unat_eq_iff unat_drop_bit_eq)
  finally show ?thesis by (simp only: drop_bit_eq_div)
qed

lemma cgnat_octet: "(x :: 8 word) AND 0xc0 = 0x40 \<longleftrightarrow> 64 \<le> x \<and> x \<le> 127"
  by (subst prefix_test [of 6]) (auto simp: mask_eq_exp_minus_1 word_le_nat_alt)

lemma octet_le_255 [simp]: "(w :: 8 word) \<le> 255"
  using octet_max(1) [of w] by simp

lemma check_ipv4_ok: "check_ipv4 a = Inr () \<longleftrightarrow> (\<forall>(lo, hi) \<in> set blocked_v4. \<not> (lo \<le> a \<and> a \<le> hi))"
proof -
  have single: "b \<le> a \<and> a \<le> b \<longleftrightarrow> a = b" for b by auto
  have "check_ipv4 a = Inr () \<longleftrightarrow> \<not> (a = IMDS_V4 \<or> v4_is_loopback a \<or> v4_is_private a \<or> v4_is_link_local a \<or>
      v4_is_broadcast a \<or> v4_is_multicast a \<or> v4_is_unspecified a \<or> (oct0 a = 100 \<and> oct1 a AND 0xc0 = 0x40))"
    by (simp add: check_ipv4_def deny_def)
  also have "\<dots> \<longleftrightarrow> \<not> (v4_is_unspecified a \<or> oct0 a = 10 \<or> oct0 a = 100 \<and> 64 \<le> oct1 a \<and> oct1 a \<le> 127 \<or>
      oct0 a = 127 \<or> oct0 a = 169 \<and> oct1 a = 254 \<or> oct0 a = 172 \<and> 16 \<le> oct1 a \<and> oct1 a \<le> 31 \<or>
      oct0 a = 192 \<and> oct1 a = 168 \<or> v4_is_multicast a \<or> v4_is_broadcast a)"
    unfolding cgnat_octet v4_is_loopback_def v4_is_private_def v4_is_link_local_def IMDS_V4_def by auto
  also have "\<dots> \<longleftrightarrow> (\<forall>(lo, hi) \<in> set blocked_v4. \<not> (lo \<le> a \<and> a \<le> hi))"
    by (simp only: blocked_v4_def list.set ball_simps case_prod_conv single range_octet0 range_octet1
        v4_is_unspecified_def v4_is_broadcast_def v4_is_multicast_def order_eq_iff [of "oct0 a"]
        order_eq_iff [of "oct1 a"] octet_le_255 word_zero_le simp_thms) blast
  finally show ?thesis .
qed

lemma segment_prefixes:
  fixes x :: "16 word"
  shows "x AND 0xff00 = 0xff00 \<longleftrightarrow> 0xff00 \<le> x"
    and "x AND 0xfe00 = 0xfc00 \<longleftrightarrow> 0xfc00 \<le> x \<and> x \<le> 0xfdff"
    and "x AND 0xffc0 = 0xfe80 \<longleftrightarrow> 0xfe80 \<le> x \<and> x \<le> 0xfebf"
proof -
  have "unat x < 65536" using unsigned_less [of x, where 'a = nat] by simp
  then show "x AND 0xff00 = 0xff00 \<longleftrightarrow> 0xff00 \<le> x"
    by (subst prefix_test [of 8]) (auto simp: mask_eq_exp_minus_1 word_le_nat_alt)
  show "x AND 0xfe00 = 0xfc00 \<longleftrightarrow> 0xfc00 \<le> x \<and> x \<le> 0xfdff"
    by (subst prefix_test [of 9]) (auto simp: mask_eq_exp_minus_1 word_le_nat_alt)
  show "x AND 0xffc0 = 0xfe80 \<longleftrightarrow> 0xfe80 \<le> x \<and> x \<le> 0xfebf"
    by (subst prefix_test [of 6]) (auto simp: mask_eq_exp_minus_1 word_le_nat_alt)
qed

lemma segment_zero:
  fixes s :: "16 word"
  assumes "(ucast (drop_bit 8 s) :: 8 word) = 0" "(ucast s :: 8 word) = 0"
  shows "s = 0"
proof (rule bit_word_eqI)
  fix n assume "n < LENGTH(16)"
  moreover have "\<not> bit (ucast (drop_bit 8 s) :: 8 word) (n - 8)" "\<not> bit (ucast s :: 8 word) n" using assms by simp_all
  ultimately show "bit s n = bit 0 n" by (cases "n < 8") (auto simp: bit_simps)
qed

lemma check_ipv6_ok:
  "check_ipv6 (Ipv6Addr s0 s1 s2 s3 s4 s5 s6 s7) = Inr () \<longleftrightarrow>
     Ipv6Addr s0 s1 s2 s3 s4 s5 s6 s7 \<noteq> Ipv6Addr 0 0 0 0 0 0 0 1 \<and>
     \<not> 0xff00 \<le> s0 \<and> \<not> (0xfc00 \<le> s0 \<and> s0 \<le> 0xfdff) \<and> \<not> (0xfe80 \<le> s0 \<and> s0 \<le> 0xfebf) \<and>
     ([s0, s1, s2, s3, s4] = [0, 0, 0, 0, 0] \<and> (s5 = 0 \<or> s5 = 0xffff) \<longrightarrow> check_ipv4 (v4_of_segments s6 s7) = Inr ())"
proof -
  have zero: "check_ipv4 (Ipv4Addr 0 0 0 0) \<noteq> Inr ()"
    by (simp add: check_ipv4_ok) (simp add: blocked_v4_def)
  have "v4_of_segments s6 s7 = Ipv4Addr 0 0 0 0 \<longleftrightarrow> s6 = 0 \<and> s7 = 0"
    by (auto simp: v4_of_segments_def intro: segment_zero)
  then show ?thesis using zero
    by (auto simp: check_ipv6_def v6_is_loopback_def v6_is_unspecified_def v6_is_multicast_def segment_prefixes
        deny_def split: option.splits)
qed

text \<open>The blocks set aside for documentation: 192.0.2.0/24, 198.51.100.0/24 and 203.0.113.0/24.\<close>

definition documentation_v4 :: "(Ipv4Addr \<times> Ipv4Addr) list" where
  "documentation_v4 =
     [(Ipv4Addr 192 0 2 0, Ipv4Addr 192 0 2 255),
      (Ipv4Addr 198 51 100 0, Ipv4Addr 198 51 100 255),
      (Ipv4Addr 203 0 113 0, Ipv4Addr 203 0 113 255)]"

lemma range_octet2:
  "Ipv4Addr x y z 0 \<le> a \<and> a \<le> Ipv4Addr x y z 255 \<longleftrightarrow> oct0 a = x \<and> oct1 a = y \<and> oct2 a = z"
  by (auto simp: addr_le to_bits_less octet_max)

lemma documentation_admitted:
  assumes "(lo, hi) \<in> set documentation_v4" "lo \<le> a" "a \<le> hi"
  shows "check_ipv4 a = Inr ()"
proof -
  have "(\<exists>z. lo = Ipv4Addr 192 0 z 0 \<and> hi = Ipv4Addr 192 0 z 255) \<or> (\<exists>y z. lo = Ipv4Addr 198 y z 0 \<and> hi = Ipv4Addr 198 y z 255) \<or>
      (\<exists>y z. lo = Ipv4Addr 203 y z 0 \<and> hi = Ipv4Addr 203 y z 255)"
    using assms(1) by (simp add: documentation_v4_def) blast
  then consider "oct0 a = 192 \<and> oct1 a = 0" | "oct0 a = 198" | "oct0 a = 203"
    using assms(2,3) range_octet2 [of _ _ _ a] by metis
  then show ?thesis
    by cases (cases a, simp add: check_ipv4_def IMDS_V4_def v4_is_loopback_def v4_is_private_def v4_is_link_local_def
        v4_is_broadcast_def v4_is_multicast_def v4_is_unspecified_def word_le_nat_alt)+
qed

section \<open>Properties\<close>

text \<open>
  C9. The IPv4 check closes exactly the listed address blocks: an address is refused if and only if it
  lies in 0.0.0.0, 10/8, 100.64/10, 127/8, 169.254/16 (with the metadata address), 172.16/12,
  192.168/16, 224/4 or is the broadcast address. In particular every address of the three documentation blocks
  192.0.2/24, 198.51.100/24 and 203.0.113/24 is admitted, although the head of the source file says that they are
  denied.
\<close>

theorem check_ipv4_exact:
  "(is_blocked_ip (V4 a) \<longleftrightarrow> (\<exists>(lo, hi) \<in> set blocked_v4. lo \<le> a \<and> a \<le> hi)) \<and>
   ((\<exists>(lo, hi) \<in> set documentation_v4. lo \<le> a \<and> a \<le> hi) \<longrightarrow> \<not> is_blocked_ip (V4 a))"
proof -
  have "is_blocked_ip (V4 a) \<longleftrightarrow> (\<exists>(lo, hi) \<in> set blocked_v4. lo \<le> a \<and> a \<le> hi)" using check_ipv4_ok [of a] by auto
  moreover have "\<not> is_blocked_ip (V4 a)" if "\<exists>(lo, hi) \<in> set documentation_v4. lo \<le> a \<and> a \<le> hi"
    using that documentation_admitted [of _ _ a] by fastforce
  ultimately show ?thesis by blast
qed

theorem check_ipv4_exact_witness: "\<not> is_blocked_ip (V4 (Ipv4Addr 192 0 2 1)) \<and> is_blocked_ip (V4 (Ipv4Addr 172 31 0 1))"
proof -
  have "\<exists>(lo, hi) \<in> set documentation_v4. lo \<le> Ipv4Addr 192 0 2 1 \<and> Ipv4Addr 192 0 2 1 \<le> hi"
    "\<exists>(lo, hi) \<in> set blocked_v4. lo \<le> Ipv4Addr 172 31 0 1 \<and> Ipv4Addr 172 31 0 1 \<le> hi"
    by (simp_all add: documentation_v4_def blocked_v4_def less_eq_Ipv4Addr_def to_bits_def)
  then show ?thesis
    using check_ipv4_exact [of "Ipv4Addr 192 0 2 1"] check_ipv4_exact [of "Ipv4Addr 172 31 0 1"] by blast
qed

text \<open>
  The IPv6 check refuses exactly the loopback and unspecified addresses, multicast ff00::/8,
  unique-local fc00::/7, link-local fe80::/10, and every address that embeds a refused IPv4 address in
  mapped or compatible form, so no IPv4 rule can be bypassed by writing the address in IPv6.
\<close>

lemma check_ipv6_exact:
  "is_blocked_ip (V6 (Ipv6Addr s0 s1 s2 s3 s4 s5 s6 s7)) \<longleftrightarrow>
     Ipv6Addr s0 s1 s2 s3 s4 s5 s6 s7 = Ipv6Addr 0 0 0 0 0 0 0 1 \<or>
     0xff00 \<le> s0 \<or> (0xfc00 \<le> s0 \<and> s0 \<le> 0xfdff) \<or> (0xfe80 \<le> s0 \<and> s0 \<le> 0xfebf) \<or>
     (s0 = 0 \<and> s1 = 0 \<and> s2 = 0 \<and> s3 = 0 \<and> s4 = 0 \<and> (s5 = 0 \<or> s5 = 0xffff) \<and>
      is_blocked_ip (V4 (v4_of_segments s6 s7)))"
  using check_ipv6_ok [of s0 s1 s2 s3 s4 s5 s6 s7] by auto



end
