(* ===== verification/Utf8.thy ===== *)
theory Utf8
  imports Rust_Prelude
begin

text \<open>
  The UTF-8 bytes of a string (\<^verbatim>\<open>str::as_bytes\<close>), shared by the components that hash or compare
  bytes. A byte is a natural below 256.
\<close>

definition scalar :: "uchar \<Rightarrow> bool" where
  "scalar c \<longleftrightarrow> c < 0x110000"

definition encode_char :: "uchar \<Rightarrow> nat list" where
  "encode_char c =
     (if c < 0x80 then [c]
      else if c < 0x800 then [0xc0 + c div 64, 0x80 + c mod 64]
      else if c < 0x10000 then [0xe0 + c div 4096, 0x80 + c div 64 mod 64, 0x80 + c mod 64]
      else [0xf0 + c div 262144, 0x80 + c div 4096 mod 64, 0x80 + c div 64 mod 64, 0x80 + c mod 64])"

definition as_bytes :: "ustr \<Rightarrow> nat list" where
  "as_bytes s = concat (map encode_char s)"

lemma as_bytes_simps [simp]:
  "as_bytes [] = []" "as_bytes (c # s) = encode_char c @ as_bytes s" "as_bytes (s @ t) = as_bytes s @ as_bytes t"
  by (simp_all add: as_bytes_def)

lemma length_encode_char: "length (encode_char c) = len_utf8 c"
  by (simp add: encode_char_def len_utf8_def)

lemma length_as_bytes: "length (as_bytes s) = blen s"
  by (induction s) (simp_all add: length_encode_char blen_def)

lemma encode_char_bytes:
  assumes "scalar c" "b \<in> set (encode_char c)"
  shows "b < 0xf5"
proof -
  have "c div 262144 < 5" "c < 0x10000 \<Longrightarrow> c div 4096 < 16" "c < 0x800 \<Longrightarrow> c div 64 < 32"
    using assms(1) by (auto simp: scalar_def less_mult_imp_div_less)
  moreover have "c div 4096 mod 64 < 64" "c div 64 mod 64 < 64" "c mod 64 < 64" by simp_all
  ultimately show ?thesis using assms(2) by (auto simp: encode_char_def split: if_splits)
qed

lemma as_bytes_below:
  assumes "\<forall>c \<in> set s. scalar c" "b \<in> set (as_bytes s)"
  shows "b < 0xf5"
  using assms encode_char_bytes by (induction s) auto

text \<open>The code is prefix-free: the leading byte fixes the length, the rest the character.\<close>

lemma encode_char_hd:
  assumes "scalar c"
  shows "encode_char c \<noteq> []"
    "hd (encode_char c) < 0x80 \<longleftrightarrow> c < 0x80" "hd (encode_char c) < 0xe0 \<longleftrightarrow> c < 0x800" "hd (encode_char c) < 0xf0 \<longleftrightarrow> c < 0x10000"
proof -
  have "c < 0x800 \<Longrightarrow> c div 64 < 32" "c < 0x10000 \<Longrightarrow> c div 4096 < 16" by (auto simp: less_mult_imp_div_less)
  then show "encode_char c \<noteq> []"
    "hd (encode_char c) < 0x80 \<longleftrightarrow> c < 0x80" "hd (encode_char c) < 0xe0 \<longleftrightarrow> c < 0x800" "hd (encode_char c) < 0xf0 \<longleftrightarrow> c < 0x10000"
    by (auto simp: encode_char_def)
qed

lemma base64_digits:
  fixes c d :: nat
  assumes "c div 64 = d div 64" "c mod 64 = d mod 64"
  shows "c = d"
  using assms by (metis div_mult_mod_eq)

lemma encode_char_prefix_free:
  assumes "scalar c" "scalar d" "encode_char c @ xs = encode_char d @ ys"
  shows "c = d \<and> xs = ys"
proof -
  have h: "hd (encode_char c) = hd (encode_char d)"
    using assms(3) encode_char_hd(1) [OF assms(1)] encode_char_hd(1) [OF assms(2)] by (metis hd_append2)
  then have cls: "c < 0x80 \<longleftrightarrow> d < 0x80" "c < 0x800 \<longleftrightarrow> d < 0x800" "c < 0x10000 \<longleftrightarrow> d < 0x10000"
    using encode_char_hd(2-4) [OF assms(1)] encode_char_hd(2-4) [OF assms(2)] by metis+
  have div: "n div 64 div 64 = n div 4096" "n div 4096 div 64 = n div 262144" for n :: nat
    by (simp_all add: div_mult2_eq [symmetric])
  have "c = d"
  proof -
    consider "c < 0x80" | "\<not> c < 0x80" "c < 0x800" | "\<not> c < 0x800" "c < 0x10000" | "\<not> c < 0x10000" by linarith
    then show ?thesis
    proof cases
      case 1
      then show ?thesis using assms(3) cls by (simp add: encode_char_def)
    next
      case 2
      then have "c div 64 = d div 64" "c mod 64 = d mod 64" using assms(3) cls by (simp_all add: encode_char_def)
      then show ?thesis by (rule base64_digits)
    next
      case 3
      then have "c div 4096 = d div 4096" "c div 64 mod 64 = d div 64 mod 64" "c mod 64 = d mod 64"
        using assms(3) cls by (simp_all add: encode_char_def)
      then show ?thesis using base64_digits [of "c div 64" "d div 64"] base64_digits [of c d] by (simp only: div)
    next
      case 4
      then have "c div 262144 = d div 262144" "c div 4096 mod 64 = d div 4096 mod 64"
        "c div 64 mod 64 = d div 64 mod 64" "c mod 64 = d mod 64"
        using assms(3) cls by (simp_all add: encode_char_def)
      then show ?thesis using base64_digits [of "c div 4096" "d div 4096"] base64_digits [of "c div 64" "d div 64"]
          base64_digits [of c d] by (simp only: div)
    qed
  qed
  with assms(3) show ?thesis by simp
qed

lemma as_bytes_inject:
  assumes "\<forall>c \<in> set s. scalar c" "\<forall>c \<in> set t. scalar c"
  shows "as_bytes s = as_bytes t \<longleftrightarrow> s = t"
  using assms
proof (induction s arbitrary: t)
  case Nil
  then show ?case using encode_char_hd(1) by (cases t) simp_all
next
  case (Cons c s)
  show ?case
  proof (cases t)
    case Nil
    then show ?thesis using encode_char_hd(1) Cons.prems by simp
  next
    case (Cons d u)
    with Cons.prems have "scalar c" "scalar d" "as_bytes s = as_bytes u \<longleftrightarrow> s = u" using Cons.IH [of u] by simp_all
    then show ?thesis using Cons encode_char_prefix_free [of c d "as_bytes s" "as_bytes u"] by auto
  qed
qed

end
