(* ===== verification/Exit_Codes.thy ===== *)
theory Exit_Codes
  imports Rust_Prelude
begin

text \<open>
  The exit-code contract of the command line: the workspace-wide error taxonomy
  (\<^verbatim>\<open>crates/stealth-core/src/lib.rs\<close>) and the command-line codes
  (\<^verbatim>\<open>crates/stealth-cli/src/commands/exit.rs\<close>).
\<close>

section \<open>Definitions\<close>

datatype ExitCode = EC_Ok | EC_UserError | EC_TransientError | EC_PermanentError | EC_AuthExpired | EC_Leak

fun ExitCode_as_i32 :: "ExitCode \<Rightarrow> int" where
  "ExitCode_as_i32 EC_Ok = 0"
| "ExitCode_as_i32 EC_UserError = 1"
| "ExitCode_as_i32 EC_TransientError = 2"
| "ExitCode_as_i32 EC_PermanentError = 3"
| "ExitCode_as_i32 EC_AuthExpired = 4"
| "ExitCode_as_i32 EC_Leak = 7"

text \<open>An \<open>Other\<close> error is shown as its own text.\<close>

datatype StealthError =
    User ustr
  | TransientError ustr
  | Permanent ustr
  | AuthExpired ustr
  | Leak ustr
  | Other ustr

fun stealth_error_text :: "StealthError \<Rightarrow> ustr" where
  "stealth_error_text (User m) = lit ''user input error: '' @ m"
| "stealth_error_text (TransientError m) = lit ''transient failure (retryable): '' @ m"
| "stealth_error_text (Permanent m) = lit ''permanent failure: '' @ m"
| "stealth_error_text (AuthExpired m) = lit ''auth expired: '' @ m"
| "stealth_error_text (Leak m) = lit ''vpn leak detected (fail-closed): '' @ m"
| "stealth_error_text (Other m) = m"

fun exit_code :: "StealthError \<Rightarrow> ExitCode" where
  "exit_code (User m) = EC_UserError"
| "exit_code (TransientError m) = EC_TransientError"
| "exit_code (Permanent m) = EC_PermanentError"
| "exit_code (AuthExpired m) = EC_AuthExpired"
| "exit_code (Leak m) = EC_Leak"
| "exit_code (Other m) = EC_PermanentError"

datatype Phase2Exit =
    P2_Ok | P2_UserError | P2_Transient | P2_Permanent | P2_Leak | P2_CfUnsolved
  | P2_RelocateMiss | P2_RelocateAmbiguous | P2_ProxyExhausted

fun Phase2Exit_as_i32 :: "Phase2Exit \<Rightarrow> int" where
  "Phase2Exit_as_i32 P2_Ok = 0"
| "Phase2Exit_as_i32 P2_UserError = 1"
| "Phase2Exit_as_i32 P2_Transient = 2"
| "Phase2Exit_as_i32 P2_Permanent = 3"
| "Phase2Exit_as_i32 P2_Leak = 7"
| "Phase2Exit_as_i32 P2_CfUnsolved = 8"
| "Phase2Exit_as_i32 P2_RelocateMiss = 9"
| "Phase2Exit_as_i32 P2_RelocateAmbiguous = 10"
| "Phase2Exit_as_i32 P2_ProxyExhausted = 11"

definition map_spider_exit :: "bool \<Rightarrow> bool \<Rightarrow> bool \<Rightarrow> bool \<Rightarrow> Phase2Exit" where
  "map_spider_exit cf_blocked relocate_miss relocate_ambiguous strict =
     (if cf_blocked then P2_CfUnsolved
      else if relocate_ambiguous then (if strict then P2_RelocateAmbiguous else P2_RelocateMiss)
      else if relocate_miss then P2_RelocateMiss
      else P2_Ok)"

section \<open>Lemmas\<close>

lemma Phase2Exit_as_i32_inject: "Phase2Exit_as_i32 a = Phase2Exit_as_i32 b \<longleftrightarrow> a = b"
  by (cases a; cases b) simp_all

lemma spider_exit_ok: "map_spider_exit b m a s = P2_Ok \<longleftrightarrow> \<not> b \<and> \<not> m \<and> \<not> a"
  by (simp add: map_spider_exit_def)

end
