(* ===== verification/Auth_Crypto.thy ===== *)
theory Auth_Crypto
  imports Utf8 Exit_Codes "HOL-Library.Word"
begin

text \<open>
  The encrypted cookie-jar format (\<^verbatim>\<open>crates/stealth-auth/src/crypto.rs\<close>) and the errors of the auth
  store (\<^verbatim>\<open>errors.rs\<close>).

  SHA-256 and XChaCha20-Poly1305 are libraries and parameters (\<open>crypto_lib\<close>). What the code relies on is
  \<open>crypto_ok\<close>: digests have 32 bytes, and decryption succeeds exactly on the ciphertext that encryption
  under the same key, nonce and associated data produces. The random nonce is an argument.
\<close>

section \<open>Definitions\<close>

type_synonym bytes = "8 word list"

definition utf8 :: "ustr \<Rightarrow> bytes" where
  "utf8 s = map word_of_nat (as_bytes s)"

datatype AuthStoreError =
    NotFound ustr
  | BadKeyOrTamper
  | ProfileHashMismatch
  | KeyringUnavailable ustr
  | Io
  | Serde
  | Crypto ustr

text \<open>The messages of the error type, with the texts of wrapped library errors left open.\<close>

fun error_text :: "ustr \<Rightarrow> ustr \<Rightarrow> AuthStoreError \<Rightarrow> ustr" where
  "error_text io_msg serde_msg (NotFound p) = lit ''profile not found: '' @ p"
| "error_text io_msg serde_msg BadKeyOrTamper = lit ''decryption failed (bad key or tampered blob)''"
| "error_text io_msg serde_msg ProfileHashMismatch = lit ''profile hash mismatch (file renamed?)''"
| "error_text io_msg serde_msg (KeyringUnavailable m) = lit ''keyring unavailable: '' @ m"
| "error_text io_msg serde_msg Io = lit ''io: '' @ io_msg"
| "error_text io_msg serde_msg Serde = lit ''serde: '' @ serde_msg"
| "error_text io_msg serde_msg (Crypto m) = lit ''crypto: '' @ m"

fun stealth_error_from :: "ustr \<Rightarrow> ustr \<Rightarrow> AuthStoreError \<Rightarrow> StealthError" where
  "stealth_error_from io_msg serde_msg (NotFound p) = AuthExpired (lit ''profile not found: '' @ p)"
| "stealth_error_from io_msg serde_msg (KeyringUnavailable m) =
     Permanent (lit ''keyring unavailable; pass passphrase or enable keyring: '' @ m)"
| "stealth_error_from io_msg serde_msg Io = Permanent (lit ''auth store io: '' @ io_msg)"
| "stealth_error_from io_msg serde_msg Serde = Permanent (lit ''auth store metadata: '' @ serde_msg)"
| "stealth_error_from io_msg serde_msg BadKeyOrTamper = Permanent (error_text io_msg serde_msg BadKeyOrTamper)"
| "stealth_error_from io_msg serde_msg ProfileHashMismatch = Permanent (error_text io_msg serde_msg ProfileHashMismatch)"
| "stealth_error_from io_msg serde_msg (Crypto m) = Permanent (error_text io_msg serde_msg (Crypto m))"

record crypto_lib =
  sha256 :: "bytes \<Rightarrow> bytes"
  aead_encrypt :: "bytes \<Rightarrow> bytes \<Rightarrow> bytes \<Rightarrow> bytes \<Rightarrow> bytes option"
  aead_decrypt :: "bytes \<Rightarrow> bytes \<Rightarrow> bytes \<Rightarrow> bytes \<Rightarrow> bytes option"
  aead_error :: ustr

definition crypto_ok :: "crypto_lib \<Rightarrow> bool" where
  "crypto_ok C \<longleftrightarrow> (\<forall>x. length (sha256 C x) = 32) \<and>
     (\<forall>k n a msg ct. aead_decrypt C k n a ct = Some msg \<longleftrightarrow> aead_encrypt C k n a msg = Some ct)"

definition MAGIC :: bytes where
  "MAGIC = utf8 (lit ''REVAUTH1'')"

definition VERSION :: "16 word" where
  "VERSION = 1"

definition PROFILE_HASH_LEN :: nat where
  "PROFILE_HASH_LEN = 32"

definition NONCE_LEN :: nat where
  "NONCE_LEN = 24"

definition HEADER_LEN :: nat where
  "HEADER_LEN = 8 + 2 + PROFILE_HASH_LEN + NONCE_LEN"

record EncryptedJarEnvelopeV1 =
  env_profile_hash :: bytes
  env_nonce :: bytes
  env_ciphertext :: bytes

definition aad :: "ustr \<Rightarrow> ustr \<Rightarrow> bytes" where
  "aad profile aad_context =
     (if aad_context = [] then utf8 (lit ''rev_scraping:stealth-auth:v1:'' @ profile)
      else utf8 (lit ''rev_scraping:stealth-auth:v1:'' @ profile @ lit '':'' @ aad_context))"

definition profile_hash :: "crypto_lib \<Rightarrow> ustr \<Rightarrow> bytes" where
  "profile_hash C profile = sha256 C (utf8 profile)"

definition hex_digit :: "nat \<Rightarrow> uchar" where
  "hex_digit d = (if d < 10 then 48 + d else 87 + d)"

definition sha256_prefix_8 :: "crypto_lib \<Rightarrow> ustr \<Rightarrow> ustr" where
  "sha256_prefix_8 C v =
     concat (map (\<lambda>b. [hex_digit (unat b div 16), hex_digit (unat b mod 16)]) (take 4 (sha256 C (utf8 v))))"

definition u16_to_le_bytes :: "16 word \<Rightarrow> bytes" where
  "u16_to_le_bytes w = [ucast w, ucast (drop_bit 8 w)]"

definition u16_from_le_bytes :: "8 word \<Rightarrow> 8 word \<Rightarrow> 16 word" where
  "u16_from_le_bytes lo hi = word_of_nat (unat lo + 256 * unat hi)"

definition encode :: "EncryptedJarEnvelopeV1 \<Rightarrow> AuthStoreError + bytes" where
  "encode e = Inr (MAGIC @ u16_to_le_bytes VERSION @ env_profile_hash e @ env_nonce e @ env_ciphertext e)"

definition decode :: "bytes \<Rightarrow> AuthStoreError + EncryptedJarEnvelopeV1" where
  "decode encoded =
     (if length encoded < HEADER_LEN then Inl BadKeyOrTamper
      else if take 8 encoded \<noteq> MAGIC then Inl BadKeyOrTamper
      else if u16_from_le_bytes (encoded ! 8) (encoded ! 9) \<noteq> VERSION then Inl BadKeyOrTamper
      else Inr \<lparr>env_profile_hash = take 32 (drop 10 encoded), env_nonce = take 24 (drop 42 encoded),
                env_ciphertext = drop HEADER_LEN encoded\<rparr>)"

definition decode_for_profile :: "crypto_lib \<Rightarrow> ustr \<Rightarrow> bytes \<Rightarrow> AuthStoreError + EncryptedJarEnvelopeV1" where
  "decode_for_profile C profile encoded =
     (case decode encoded of
        Inl e \<Rightarrow> Inl e
      | Inr env \<Rightarrow> if env_profile_hash env \<noteq> profile_hash C profile then Inl ProfileHashMismatch else Inr env)"

text \<open>A 32-byte key is always accepted by the cipher's constructor.\<close>

definition encrypt :: "crypto_lib \<Rightarrow> bytes \<Rightarrow> ustr \<Rightarrow> ustr \<Rightarrow> bytes \<Rightarrow> bytes \<Rightarrow> AuthStoreError + bytes" where
  "encrypt C nonce profile aad_context key plaintext =
     (case aead_encrypt C key nonce (aad profile aad_context) plaintext of
        None \<Rightarrow> Inl (Crypto (aead_error C))
      | Some ct \<Rightarrow> encode \<lparr>env_profile_hash = profile_hash C profile, env_nonce = nonce, env_ciphertext = ct\<rparr>)"

definition decrypt :: "crypto_lib \<Rightarrow> ustr \<Rightarrow> ustr \<Rightarrow> bytes \<Rightarrow> bytes \<Rightarrow> AuthStoreError + bytes" where
  "decrypt C profile aad_context key encoded =
     (case decode_for_profile C profile encoded of
        Inl e \<Rightarrow> Inl e
      | Inr env \<Rightarrow>
          (case aead_decrypt C key (env_nonce env) (aad profile aad_context) (env_ciphertext env) of
             None \<Rightarrow> Inl BadKeyOrTamper
           | Some msg \<Rightarrow> Inr msg))"

section \<open>The envelope format\<close>

definition env_ok :: "EncryptedJarEnvelopeV1 \<Rightarrow> bool" where
  "env_ok e \<longleftrightarrow> length (env_profile_hash e) = PROFILE_HASH_LEN \<and> length (env_nonce e) = NONCE_LEN"

lemma length_MAGIC [simp]: "length MAGIC = 8"
  by (simp add: MAGIC_def utf8_def lit_def encode_char_def)

lemma version_bytes: "u16_from_le_bytes lo hi = VERSION \<longleftrightarrow> [lo, hi] = u16_to_le_bytes VERSION"
proof -
  have b: "unat lo < 256" "unat hi < 256"
    using unsigned_less [of lo, where 'a = nat] unsigned_less [of hi, where 'a = nat] by simp_all
  then have "unat lo + 256 * unat hi < 2 ^ LENGTH(16)" by simp
  moreover have "unat (word_of_nat n :: 16 word) = n" if "n < 2 ^ LENGTH(16)" for n
    using that by (simp only: unsigned_of_nat take_bit_nat_eq_self of_nat_id)
  ultimately have "unat (u16_from_le_bytes lo hi) = unat lo + 256 * unat hi"
    unfolding u16_from_le_bytes_def by blast
  then have "u16_from_le_bytes lo hi = 1 \<longleftrightarrow> unat lo + 256 * unat hi = 1" by (simp add: word_unat_eq_iff)
  also have "\<dots> \<longleftrightarrow> unat lo = 1 \<and> unat hi = 0" by (cases "unat hi") auto
  finally show ?thesis by (simp add: VERSION_def u16_to_le_bytes_def word_unat_eq_iff)
qed

lemma decode_iff: "decode bs = Inr e \<longleftrightarrow> env_ok e \<and> encode e = Inr bs"
proof
  assume d: "decode bs = Inr e"
  then have len: "66 \<le> length bs" and magic: "take 8 bs = MAGIC"
    and ver: "[bs ! 8, bs ! 9] = u16_to_le_bytes VERSION"
    and e: "e = \<lparr>env_profile_hash = take 32 (drop 10 bs), env_nonce = take 24 (drop 42 bs), env_ciphertext = drop 66 bs\<rparr>"
    by (auto simp: decode_def HEADER_LEN_def PROFILE_HASH_LEN_def NONCE_LEN_def version_bytes split: if_splits)
  have "bs = take 8 bs @ [bs ! 8, bs ! 9] @ take 32 (drop 10 bs) @ take 24 (drop 42 bs) @ drop 66 bs"
    using append_take_drop_id [of 8 bs] Cons_nth_drop_Suc [of 8 bs] Cons_nth_drop_Suc [of 9 bs]
      append_take_drop_id [of 32 "drop 10 bs"] append_take_drop_id [of 24 "drop 42 bs"] len
    by (simp only: drop_drop append_Cons append_Nil) simp
  then show "env_ok e \<and> encode e = Inr bs"
    using magic ver e len by (simp add: encode_def env_ok_def PROFILE_HASH_LEN_def NONCE_LEN_def)
next
  assume "env_ok e \<and> encode e = Inr bs"
  then show "decode bs = Inr e"
    by (auto simp: decode_def encode_def env_ok_def HEADER_LEN_def PROFILE_HASH_LEN_def NONCE_LEN_def
        version_bytes nth_append u16_to_le_bytes_def)
qed

section \<open>Properties\<close>

text \<open>
  The jar format is exact: decoding accepts a byte string if and only if it is the encoding of a
  well-formed envelope, and then returns that envelope; every other byte string (short, wrong magic,
  other version) is rejected as tampered, without a crash.
\<close>

lemma jar_format_exact:
  "(decode bs = Inr e \<longleftrightarrow> env_ok e \<and> encode e = Inr bs) \<and>
   ((\<nexists>e. env_ok e \<and> encode e = Inr bs) = (decode bs = Inl BadKeyOrTamper))"
proof -
  have "(\<nexists>e. decode bs = Inr e) = (decode bs = Inl BadKeyOrTamper)" by (auto simp: decode_def)
  then show ?thesis by (simp add: decode_iff)
qed

lemma encrypt_Inr:
  assumes "crypto_ok C" "length nonce = NONCE_LEN"
  shows "encrypt C nonce p ctx key msg = Inr bs \<longleftrightarrow>
    (\<exists>ct. aead_encrypt C key nonce (aad p ctx) msg = Some ct \<and>
       decode bs = Inr \<lparr>env_profile_hash = profile_hash C p, env_nonce = nonce, env_ciphertext = ct\<rparr>)"
  using assms by (auto simp: encrypt_def decode_iff env_ok_def crypto_ok_def profile_hash_def PROFILE_HASH_LEN_def
      split: option.splits)

lemma decrypt_encrypt:
  assumes "crypto_ok C" "length nonce = NONCE_LEN" "encrypt C nonce p ctx key msg = Inr bs"
  shows "decrypt C p ctx key bs = Inr msg" "\<exists>e. decode_for_profile C p bs = Inr e"
proof -
  obtain ct where ct: "aead_encrypt C key nonce (aad p ctx) msg = Some ct"
    "decode bs = Inr \<lparr>env_profile_hash = profile_hash C p, env_nonce = nonce, env_ciphertext = ct\<rparr>"
    using assms(3) by (auto simp: encrypt_Inr [OF assms(1,2)])
  then have "aead_decrypt C key nonce (aad p ctx) ct = Some msg" using assms(1) by (simp add: crypto_ok_def)
  with ct show "decrypt C p ctx key bs = Inr msg" "\<exists>e. decode_for_profile C p bs = Inr e"
    by (simp_all add: decrypt_def decode_for_profile_def)
qed

text \<open>
  C13. Encryption round-trips and binds its context: what was encrypted for a profile is decrypted with
  the same key and context to the same bytes; with any key, context or profile the plaintext that
  comes out is one whose encryption is that very envelope; and under a profile with another hash it is
  rejected as a renamed file before any decryption.
\<close>

theorem encrypt_round_trip:
  assumes "crypto_ok C" "length nonce = NONCE_LEN" "encrypt C nonce p ctx key msg = Inr bs"
  shows "decrypt C p ctx key bs = Inr msg \<and>
    (\<forall>p' ctx' key' msg'. decrypt C p' ctx' key' bs = Inr msg' \<longrightarrow>
       profile_hash C p' = profile_hash C p \<and> encrypt C nonce p' ctx' key' msg' = Inr bs) \<and>
    (\<forall>p' ctx' key'. profile_hash C p' \<noteq> profile_hash C p \<longrightarrow>
       decrypt C p' ctx' key' bs = Inl ProfileHashMismatch)"
proof -
  obtain ct where ct: "decode bs = Inr \<lparr>env_profile_hash = profile_hash C p, env_nonce = nonce, env_ciphertext = ct\<rparr>"
    using assms(3) by (auto simp: encrypt_Inr [OF assms(1,2)])
  have "profile_hash C p' = profile_hash C p \<and> encrypt C nonce p' ctx' key' msg' = Inr bs"
    if "decrypt C p' ctx' key' bs = Inr msg'" for p' ctx' key' msg'
    using that ct assms(1) by (auto simp: encrypt_Inr [OF assms(1,2)] decrypt_def decode_for_profile_def crypto_ok_def
        split: option.splits if_splits)
  moreover have "decrypt C p' ctx' key' bs = Inl ProfileHashMismatch" if "profile_hash C p' \<noteq> profile_hash C p"
    for p' ctx' key'
    using that ct by (simp add: decrypt_def decode_for_profile_def)
  ultimately show ?thesis using decrypt_encrypt(1) [OF assms] by blast
qed

text \<open>A cipher and a digest that satisfy the contract: the identity with the associated data in front.\<close>

definition demo_crypto :: crypto_lib where
  "demo_crypto =
     \<lparr>sha256 = (\<lambda>x. take 32 (x @ replicate 32 0)),
      aead_encrypt = (\<lambda>k n a msg. Some (k @ n @ a @ msg)),
      aead_decrypt = (\<lambda>k n a ct. if take (length (k @ n @ a)) ct = k @ n @ a then Some (drop (length (k @ n @ a)) ct) else None),
      aead_error = []\<rparr>"

lemma demo_crypto_ok: "crypto_ok demo_crypto"
  unfolding crypto_ok_def
proof (intro conjI allI)
  fix k n a msg ct :: bytes
  have "take (length x) ct = x \<and> drop (length x) ct = msg \<longleftrightarrow> ct = x @ msg" for x
    by (metis append_eq_conv_conj)
  from this [of "k @ n @ a"]
  show "aead_decrypt demo_crypto k n a ct = Some msg \<longleftrightarrow> aead_encrypt demo_crypto k n a msg = Some ct"
    by (auto simp: demo_crypto_def)
qed (simp add: demo_crypto_def)

theorem encrypt_round_trip_witness:
  "\<exists>bs. encrypt demo_crypto (replicate 24 7) (lit ''p'') (lit ''c'') (replicate 32 1) [1, 2] = Inr bs \<and>
     decrypt demo_crypto (lit ''p'') (lit ''c'') (replicate 32 1) bs = Inr [1, 2]"
proof -
  obtain bs where "encrypt demo_crypto (replicate 24 7) (lit ''p'') (lit ''c'') (replicate 32 1) [1, 2] = Inr bs"
    by (simp add: encrypt_def demo_crypto_def encode_def)
  with encrypt_round_trip [OF demo_crypto_ok _ this] show ?thesis by (auto simp: NONCE_LEN_def)
qed

end
