(* ===== verification/Auth_Cookies.thy ===== *)
theory Auth_Cookies
  imports Auth_Crypto Rust_Str "HOL-Library.Multiset" "HOL-Library.Sublist"
begin

text \<open>
  Cookies and the read-only cookie jar of \<^verbatim>\<open>crates/stealth-auth\<close> (\<^verbatim>\<open>types.rs\<close> and the matching part of
  \<^verbatim>\<open>jar.rs\<close>): which stored cookies are sent with a request, and how a profile's expiry is classified.

  Times are nanosecond counts since the epoch. The parsed URL is what the URL library exposes of it. The
  public-suffix lookup \<open>psl\<close> and the header constructor \<open>hv\<close> are library code and parameters. The jar's
  hash map has no iteration order of its own: the order in which it yields its keys is an argument.
\<close>

section \<open>Definitions\<close>

datatype SameSite = SS_Strict | SS_Lax | SS_None | SS_Unspecified

record Cookie =
  ck_name :: ustr
  ck_value :: ustr
  ck_domain :: ustr
  ck_path :: ustr
  ck_expires :: "int option"
  ck_secure :: bool
  ck_http_only :: bool
  ck_same_site :: SameSite

record BrowserReplayMetadata =
  user_agent :: "ustr option"
  accept_language :: "ustr option"

record ProfileMeta =
  pm_profile :: ustr
  pm_domains :: "ustr list"
  pm_created_at :: int
  pm_last_used :: int
  pm_prefixes :: "ustr list"

datatype ProfileStatus = Valid | ExpiringSoon | ExpiringCritical | PartiallyExpired | AllExpired | Missing

record RequestUrl =
  rq_scheme :: ustr
  rq_host_str :: "ustr option"
  rq_path :: ustr

subsection \<open>Domains\<close>

definition normalize_domain :: "ustr \<Rightarrow> ustr" where
  "normalize_domain domain =
     map ascii_lower (rev (dropWhile (\<lambda>c. c = 46) (rev (dropWhile (\<lambda>c. c = 46) (trim domain)))))"

definition domain_matches :: "(ustr \<Rightarrow> ustr option) \<Rightarrow> ustr \<Rightarrow> ustr \<Rightarrow> bool" where
  "domain_matches psl host cookie_domain =
     (if host = cookie_domain then True
      else case (psl host, psl cookie_domain) of
        (Some host_reg, Some cookie_reg) \<Rightarrow>
          if host_reg \<noteq> cookie_reg then False else ends_with host (lit ''.'' @ cookie_domain)
      | _ \<Rightarrow> ends_with host (lit ''.'' @ cookie_domain))"

subsection \<open>Matching a cookie against a request\<close>

definition get_byte :: "ustr \<Rightarrow> nat \<Rightarrow> nat option" where
  "get_byte s i = (if i < length (as_bytes s) then Some (as_bytes s ! i) else None)"

definition path_matches :: "ustr \<Rightarrow> ustr \<Rightarrow> bool" where
  "path_matches request_path path0 =
     (let cookie_path = (if path0 = [] then lit ''/'' else path0) in
      request_path = cookie_path \<or>
      (starts_with request_path cookie_path \<and>
       (ends_with cookie_path (lit ''/'') \<or> get_byte request_path (blen cookie_path) = Some 47)))"

definition expired :: "int option \<Rightarrow> int \<Rightarrow> bool" where
  "expired e now = (case e of Some t \<Rightarrow> t \<le> now | None \<Rightarrow> False)"

definition cookie_matches_url :: "(ustr \<Rightarrow> ustr option) \<Rightarrow> Cookie \<Rightarrow> RequestUrl \<Rightarrow> int \<Rightarrow> bool" where
  "cookie_matches_url psl cookie url now =
     (if expired (ck_expires cookie) now then False
      else if ck_secure cookie \<and> rq_scheme url \<noteq> lit ''https'' then False
      else case map_option normalize_domain (rq_host_str url) of
        None \<Rightarrow> False
      | Some host \<Rightarrow>
          (let cookie_domain = normalize_domain (ck_domain cookie) in
           if cookie_domain = [] \<or> \<not> domain_matches psl host cookie_domain then False
           else path_matches (rq_path url) (ck_path cookie)))"

subsection \<open>The jar\<close>

type_synonym AuthCookieJar = "ustr \<rightharpoonup> Cookie list"

definition jar_push :: "Cookie \<Rightarrow> AuthCookieJar \<Rightarrow> AuthCookieJar" where
  "jar_push c jar =
     (let key = normalize_domain (ck_domain c) in
      jar(key \<mapsto> (case jar key of Some cs \<Rightarrow> cs | None \<Rightarrow> []) @ [c]))"

definition from_cookies :: "Cookie list \<Rightarrow> AuthCookieJar" where
  "from_cookies cs = fold jar_push cs Map.empty"

definition jar_values :: "AuthCookieJar \<Rightarrow> ustr list \<Rightarrow> Cookie list" where
  "jar_values jar order = concat (map (\<lambda>k. the (jar k)) order)"

definition cookie_count :: "AuthCookieJar \<Rightarrow> ustr list \<Rightarrow> nat" where
  "cookie_count jar order = sum_list (map (\<lambda>k. length (the (jar k))) order)"

definition cookie_pair :: "Cookie \<Rightarrow> ustr" where
  "cookie_pair c = ck_name c @ lit ''='' @ ck_value c"

definition cookie_pairs ::
  "(ustr \<Rightarrow> ustr option) \<Rightarrow> AuthCookieJar \<Rightarrow> ustr list \<Rightarrow> RequestUrl \<Rightarrow> int \<Rightarrow> ustr list" where
  "cookie_pairs psl jar order url now =
     map cookie_pair (filter (\<lambda>c. cookie_matches_url psl c url now) (jar_values jar order))"

definition cookies ::
  "(ustr \<Rightarrow> ustr option) \<Rightarrow> (ustr \<Rightarrow> ustr option) \<Rightarrow> AuthCookieJar \<Rightarrow> ustr list \<Rightarrow> RequestUrl \<Rightarrow> int \<Rightarrow> ustr option" where
  "cookies psl hv jar order url now =
     (let pairs = cookie_pairs psl jar order url now in
      if pairs = [] then None else hv (intersperse_concat (lit ''; '') pairs))"

text \<open>Response cookies are ignored.\<close>

definition set_cookies :: "AuthCookieJar \<Rightarrow> ustr list \<Rightarrow> RequestUrl \<Rightarrow> AuthCookieJar" where
  "set_cookies jar headers url = jar"

subsection \<open>Expiry\<close>

fun min_remaining_loop :: "int \<Rightarrow> int option list \<Rightarrow> int option \<Rightarrow> int option" where
  "min_remaining_loop now [] acc = acc"
| "min_remaining_loop now (None # es) acc = min_remaining_loop now es acc"
| "min_remaining_loop now (Some e # es) acc =
     (let remaining = e - now in
      if remaining \<le> 0 then min_remaining_loop now es acc
      else min_remaining_loop now es
        (Some (case acc of Some prev \<Rightarrow> if prev < remaining then prev else remaining | None \<Rightarrow> remaining)))"

definition hours :: "int \<Rightarrow> int" where
  "hours h = h * 3600 * 10 ^ 9"

definition classify_status :: "int option list \<Rightarrow> int \<Rightarrow> ProfileStatus" where
  "classify_status expires now =
     (if expires = [] then Valid
      else let expired_count = length (filter (\<lambda>e. expired e now) expires) in
        if expired_count = length expires then AllExpired
        else if expired_count > 0 then PartiallyExpired
        else case min_remaining_loop now expires None of
          Some r \<Rightarrow> if r \<le> hours 24 then ExpiringCritical else if r \<le> hours (7 * 24) then ExpiringSoon else Valid
        | None \<Rightarrow> Valid)"

subsection \<open>Profile names\<close>

definition validate_profile :: "(ustr \<Rightarrow> ustr) \<Rightarrow> ustr \<Rightarrow> AuthStoreError + unit" where
  "validate_profile quote profile =
     (if profile = [] \<or> profile = lit ''.'' \<or> profile = lit ''..'' \<or> 47 \<in> set profile \<or> 92 \<in> set profile
      then Inl (Crypto (lit ''invalid profile name: '' @ quote profile)) else Inr ())"

section \<open>Matching\<close>

lemma get_byte_boundary:
  assumes "request_path = cookie_path @ rest" "\<forall>c \<in> set rest. scalar c"
  shows "get_byte request_path (blen cookie_path) = Some 47 \<longleftrightarrow> (\<exists>r. rest = 47 # r)"
proof (cases rest)
  case Nil
  then show ?thesis using assms by (simp add: get_byte_def length_as_bytes)
next
  case (Cons c r)
  then have sc: "scalar c" using assms(2) by simp
  have "encode_char c ! 0 = 47 \<longleftrightarrow> c = 47"
    by (auto simp: encode_char_def)
  moreover have "as_bytes request_path ! blen cookie_path = encode_char c ! 0"
    using assms(1) Cons encode_char_hd(1) [OF sc] by (simp add: nth_append flip: length_as_bytes)
  ultimately show ?thesis using assms(1) Cons encode_char_hd(1) [OF sc]
    by (simp add: get_byte_def length_as_bytes flip: length_as_bytes)
qed

text \<open>The scopes a cookie has by the cookie specification: a domain covers itself and its subdomains, a
  path covers itself and what lies below it at a segment boundary.\<close>

definition domain_scope :: "ustr \<Rightarrow> ustr \<Rightarrow> bool" where
  "domain_scope host d \<longleftrightarrow> host = d \<or> (\<exists>sub. host = sub @ 46 # d)"

definition path_scope :: "ustr \<Rightarrow> ustr \<Rightarrow> bool" where
  "path_scope p d \<longleftrightarrow> (\<exists>rest. p = d @ rest \<and> (rest = [] \<or> (\<exists>d'. d = d' @ [47]) \<or> (\<exists>r. rest = 47 # r)))"

lemma path_matches_scope:
  assumes "\<forall>c \<in> set p. scalar c"
  shows "path_matches p d \<longleftrightarrow> path_scope p (if d = [] then lit ''/'' else d)"
proof -
  define e where "e = (if d = [] then lit ''/'' else d)"
  have "p = e \<or> (starts_with p e \<and> (ends_with e (lit ''/'') \<or> get_byte p (blen e) = Some 47)) \<longleftrightarrow> path_scope p e"
  proof (cases "prefix e p")
    case True
    then obtain rest where r: "p = e @ rest" by (auto simp: prefix_def)
    then have "get_byte p (blen e) = Some 47 \<longleftrightarrow> (\<exists>r. rest = 47 # r)" using assms by (intro get_byte_boundary) auto
    then show ?thesis using r by (auto simp: starts_with_def ends_with_def path_scope_def suffix_def lit_def)
  next
    case False
    then show ?thesis by (auto simp: starts_with_def path_scope_def)
  qed
  then show ?thesis unfolding e_def path_matches_def Let_def .
qed

lemma domain_matches_scope:
  "domain_matches psl host d \<longleftrightarrow>
     domain_scope host d \<and> (host = d \<or> psl host = None \<or> psl d = None \<or> psl host = psl d)"
  by (auto simp: domain_matches_def domain_scope_def ends_with_def suffix_def lit_def split: option.splits)

section \<open>The jar\<close>

lemma from_cookies_at:
  "from_cookies cs k = (let f = filter (\<lambda>c. normalize_domain (ck_domain c) = k) cs in if f = [] then None else Some f)"
proof -
  have "fold jar_push cs jar k =
      (let f = filter (\<lambda>c. normalize_domain (ck_domain c) = k) cs in
       if f = [] then jar k else Some ((case jar k of Some xs \<Rightarrow> xs | None \<Rightarrow> []) @ f))" for jar
    by (induction cs arbitrary: jar) (auto simp: jar_push_def Let_def)
  from this [of Map.empty] show ?thesis by (simp add: from_cookies_def Let_def)
qed

lemma mset_filter_disjoint:
  assumes "\<And>x. P x \<Longrightarrow> \<not> Q x"
  shows "filter_mset P M + filter_mset Q M = filter_mset (\<lambda>x. P x \<or> Q x) M"
  using assms by (induction M) auto

lemma jar_values_mset:
  assumes "distinct order" "set order = dom (from_cookies cs)"
  shows "mset (jar_values (from_cookies cs) order) = mset cs"
proof -
  define key where "key = (\<lambda>c :: Cookie. normalize_domain (ck_domain c))"
  have "the (from_cookies cs k) = filter (\<lambda>c. key c = k) cs" if "k \<in> set order" for k
    using that assms(2) by (auto simp: from_cookies_at key_def Let_def dom_def split: if_splits)
  then have "jar_values (from_cookies cs) order = concat (map (\<lambda>k. filter (\<lambda>c. key c = k) cs) order)"
    by (simp add: jar_values_def cong: map_cong)
  moreover have "mset (concat (map (\<lambda>k. filter (\<lambda>c. key c = k) cs) ks)) = mset (filter (\<lambda>c. key c \<in> set ks) cs)"
    if "distinct ks" for ks
    using that by (induction ks) (auto intro!: mset_filter_disjoint)
  moreover have "filter (\<lambda>c. key c \<in> set order) cs = cs"
    using assms(2) by (auto simp: filter_id_conv from_cookies_at key_def Let_def dom_def filter_empty_conv)
  ultimately show ?thesis using assms(1) by metis
qed

section \<open>Expiry\<close>

lemma min_remaining_le:
  "(\<exists>r. min_remaining_loop now es acc = Some r \<and> r \<le> b) \<longleftrightarrow>
     (\<exists>a. acc = Some a \<and> a \<le> b) \<or> (\<exists>e. Some e \<in> set es \<and> now < e \<and> e - now \<le> b)"
proof (induction now es acc rule: min_remaining_loop.induct)
  case (3 now e es acc)
  show ?case
  proof (cases "e - now \<le> 0")
    case True
    then show ?thesis using "3.IH"(1) by (auto simp: Let_def)
  next
    case False
    then show ?thesis using "3.IH"(2) by (auto simp: Let_def split: option.splits if_splits)
  qed
qed auto

section \<open>Properties\<close>

text \<open>
  C14. A stored cookie is sent exactly within its scope: it has not expired, a secure cookie goes over
  https only, the request host is the cookie's domain or a subdomain of it (and not one across a
  registrable-domain boundary), and the request path is the cookie's path or below it at a segment
  boundary.
\<close>

theorem cookie_scope:
  assumes "\<forall>c \<in> set (rq_path url). scalar c"
  shows "cookie_matches_url psl ck url now \<longleftrightarrow>
    (\<forall>e. ck_expires ck = Some e \<longrightarrow> now < e) \<and> (ck_secure ck \<longrightarrow> rq_scheme url = lit ''https'') \<and>
    (\<exists>h host d. rq_host_str url = Some h \<and> host = normalize_domain h \<and> d = normalize_domain (ck_domain ck) \<and>
       d \<noteq> [] \<and> domain_scope host d \<and> (host = d \<or> psl host = None \<or> psl d = None \<or> psl host = psl d)) \<and>
    path_scope (rq_path url) (if ck_path ck = [] then lit ''/'' else ck_path ck)"
  using assms
  by (auto simp: cookie_matches_url_def expired_def path_matches_scope domain_matches_scope Let_def
      split: option.splits)

theorem cookie_scope_witness:
  "\<not> cookie_matches_url (\<lambda>_. None)
     \<lparr>ck_name = lit ''s'', ck_value = lit ''v'', ck_domain = lit ''a.b'', ck_path = lit ''/foo'', ck_expires = None,
      ck_secure = False, ck_http_only = True, ck_same_site = SS_Lax\<rparr>
     \<lparr>rq_scheme = lit ''http'', rq_host_str = Some (lit ''a.b''), rq_path = lit ''/foobar''\<rparr> 0"
proof -
  let ?u = "\<lparr>rq_scheme = lit ''http'', rq_host_str = Some (lit ''a.b''), rq_path = lit ''/foobar''\<rparr>"
  have "\<forall>c \<in> set (rq_path ?u). scalar c" by (simp add: lit_def scalar_def)
  from cookie_scope [OF this] show ?thesis by (simp add: path_scope_def lit_def Cons_eq_append_conv)
qed

text \<open>
  The jar loses and invents nothing: in whatever order the hash map yields its keys, the pairs sent
  with a request are, as a multiset, those of the stored cookies that match it, and the count is the
  number of stored cookies.
\<close>

lemma jar_sends_matching:
  assumes "distinct order" "set order = dom (from_cookies cs)"
  shows "mset (cookie_pairs psl (from_cookies cs) order url now) =
      mset (map cookie_pair (filter (\<lambda>c. cookie_matches_url psl c url now) cs)) \<and>
    cookie_count (from_cookies cs) order = length cs \<and>
    (cookies psl hv (from_cookies cs) order url now = None \<longleftrightarrow>
       filter (\<lambda>c. cookie_matches_url psl c url now) cs = [] \<or>
       hv (intersperse_concat (lit ''; '') (cookie_pairs psl (from_cookies cs) order url now)) = None)"
proof -
  have vals: "mset (jar_values (from_cookies cs) order) = mset cs" by (rule jar_values_mset [OF assms])
  then have pairs: "mset (cookie_pairs psl (from_cookies cs) order url now) =
      mset (map cookie_pair (filter (\<lambda>c. cookie_matches_url psl c url now) cs))"
    by (simp add: cookie_pairs_def mset_filter)
  moreover have "cookie_count (from_cookies cs) order = length (jar_values (from_cookies cs) order)"
    by (simp add: cookie_count_def jar_values_def length_concat comp_def)
  moreover have "length (jar_values (from_cookies cs) order) = length cs" using vals by (metis size_mset)
  moreover have "cookie_pairs psl (from_cookies cs) order url now = [] \<longleftrightarrow>
      filter (\<lambda>c. cookie_matches_url psl c url now) cs = []"
    using pairs by (metis map_is_Nil_conv mset_zero_iff)
  ultimately show ?thesis by (auto simp: cookies_def Let_def)
qed

text \<open>
  Profile status is exact: a profile with no cookies is valid; otherwise it is fully or partly
  expired according to its expired cookies, and a live profile is critical, expiring or valid
  according to whether some cookie ends within a day, within seven days, or none does.
\<close>

lemma classify_status_exact:
  "classify_status es now =
     (if es = [] then Valid
      else if list_all (\<lambda>e. expired e now) es then AllExpired
      else if list_ex (\<lambda>e. expired e now) es then PartiallyExpired
      else if (\<exists>e. Some e \<in> set es \<and> e - now \<le> hours 24) then ExpiringCritical
      else if (\<exists>e. Some e \<in> set es \<and> e - now \<le> hours (7 * 24)) then ExpiringSoon
      else Valid)"
proof (cases "list_ex (\<lambda>e. expired e now) es")
  case True
  then have "0 < length (filter (\<lambda>e. expired e now) es)" "es \<noteq> []"
    by (auto simp: list_ex_iff filter_empty_conv)
  then show ?thesis using True
    by (auto simp: classify_status_def Let_def list_all_iff dest: length_filter_less)
next
  case False
  then have live: "now < e" if "Some e \<in> set es" for e using that by (force simp: list_ex_iff expired_def)
  have none: "filter (\<lambda>e. expired e now) es = []" using False by (auto simp: list_ex_iff filter_empty_conv)
  have bound: "(\<exists>r. min_remaining_loop now es None = Some r \<and> r \<le> b) \<longleftrightarrow> (\<exists>e. Some e \<in> set es \<and> e - now \<le> b)" for b
    using min_remaining_le [of now es None b] live by auto
  show ?thesis using False none bound [of "hours 24"] bound [of "hours (7 * 24)"]
    by (cases "min_remaining_loop now es None")
      (auto simp: classify_status_def list_all_iff list_ex_iff split: if_splits)
qed

end
