(* ===== verification/Auth_Store.thy ===== *)
theory Auth_Store
  imports Auth_Cookies
begin

text \<open>
  The encrypted profile store of \<^verbatim>\<open>crates/stealth-auth\<close>: the file operations (\<^verbatim>\<open>storage.rs\<close>), the key
  sources (\<^verbatim>\<open>keystore.rs\<close>, built with the keyring) and the store itself (\<^verbatim>\<open>jar.rs\<close>).

  The state is the auth directory, its trash directory and the keyring. Every call into the operating
  system or the keyring may fail: the environment says for each such call, counted through the run,
  whether it does, so a statement about all environments covers every failure point. Key derivation,
  base64 and the JSON forms of cookies and metadata are library code and parameters of the
  environment, as are the clock, the random bytes and the order in which a directory is read.
  Permissions and synchronisation to disk have no effect on the modelled state besides failing.
\<close>

section \<open>The environment\<close>

record DiskProfileMeta =
  dm_profile :: ustr
  dm_domains :: "ustr list"
  dm_created_at :: int
  dm_last_used :: int
  dm_prefixes :: "ustr list"
  dm_expires :: "int option list"
  dm_salt_b64 :: "ustr option"
  dm_browser_replay :: "BrowserReplayMetadata option"

record disk =
  files :: "ustr \<rightharpoonup> bytes"
  trash :: "ustr \<rightharpoonup> bytes"
  keyring :: "ustr \<rightharpoonup> ustr"
  calls :: nat

record env =
  fault :: "nat \<Rightarrow> bool"
  partial_write :: "nat \<Rightarrow> nat"
  fault_text :: "nat \<Rightarrow> ustr"
  random_bytes :: "nat \<Rightarrow> nat \<Rightarrow> bytes"
  read_order :: "ustr set \<Rightarrow> ustr list"
  utc_now :: int
  timestamp :: nat
  quote :: "ustr \<Rightarrow> ustr"
  crypto :: crypto_lib
  argon2id :: "bytes \<Rightarrow> bytes \<Rightarrow> AuthStoreError + bytes"
  b64_encode :: "bytes \<Rightarrow> ustr"
  b64_decode :: "ustr \<Rightarrow> ustr + bytes"
  cookies_to_vec :: "Cookie list \<Rightarrow> bytes option"
  cookies_from_slice :: "bytes \<Rightarrow> Cookie list option"
  meta_to_vec :: "DiskProfileMeta \<Rightarrow> bytes option"
  meta_from_slice :: "bytes \<Rightarrow> DiskProfileMeta option"

type_synonym 'a io = "disk \<Rightarrow> (AuthStoreError + 'a) \<times> disk"

definition ret :: "'a \<Rightarrow> 'a io" where
  "ret x d = (Inr x, d)"

definition fail :: "AuthStoreError \<Rightarrow> 'a io" where
  "fail e d = (Inl e, d)"

definition bind_io :: "'a io \<Rightarrow> ('a \<Rightarrow> 'b io) \<Rightarrow> 'b io" where
  "bind_io c f d = (case c d of (Inl e, d') \<Rightarrow> (Inl e, d') | (Inr x, d') \<Rightarrow> f x d')"

definition lift_sum :: "AuthStoreError + 'a \<Rightarrow> 'a io" where
  "lift_sum r d = (r, d)"

definition gets :: "(disk \<Rightarrow> 'a) \<Rightarrow> 'a io" where
  "gets f d = (Inr (f d), d)"

text \<open>A call of the operating system: it fails, with \<open>broken\<close> as its partial effect, or has its effect.\<close>

definition syscall_with :: "env \<Rightarrow> (nat \<Rightarrow> disk \<Rightarrow> disk) \<Rightarrow> (disk \<Rightarrow> disk) \<Rightarrow> unit io" where
  "syscall_with S broken effect d =
     (let n = calls d; d1 = d\<lparr>calls := Suc n\<rparr> in
      if fault S n then (Inl Io, broken n d1) else (Inr (), effect d1))"

abbreviation syscall :: "env \<Rightarrow> (disk \<Rightarrow> disk) \<Rightarrow> unit io" where
  "syscall S effect \<equiv> syscall_with S (\<lambda>_ d. d) effect"

definition keyring_call :: "env \<Rightarrow> (disk \<Rightarrow> 'a \<times> disk) \<Rightarrow> 'a io" where
  "keyring_call S effect d =
     (let n = calls d; d1 = d\<lparr>calls := Suc n\<rparr> in
      if fault S n then (Inl (KeyringUnavailable (fault_text S n)), d1)
      else case effect d1 of (x, d2) \<Rightarrow> (Inr x, d2))"

definition draw :: "env \<Rightarrow> nat \<Rightarrow> bytes io" where
  "draw S len d = (Inr (random_bytes S (calls d) len), d\<lparr>calls := Suc (calls d)\<rparr>)"

abbreviation then_io :: "unit io \<Rightarrow> 'a io \<Rightarrow> 'a io" where
  "then_io c k \<equiv> bind_io c (\<lambda>_. k)"

section \<open>Files\<close>

definition enc_path :: "ustr \<Rightarrow> ustr" where
  "enc_path profile = profile @ lit ''.enc''"

definition meta_path :: "ustr \<Rightarrow> ustr" where
  "meta_path profile = profile @ lit ''.meta.json''"

definition tmp_path :: "ustr \<Rightarrow> ustr" where
  "tmp_path name = name @ lit ''.tmp''"

definition put_file :: "ustr \<Rightarrow> bytes \<Rightarrow> disk \<Rightarrow> disk" where
  "put_file n b d = d\<lparr>files := (files d)(n \<mapsto> b)\<rparr>"

definition drop_file :: "ustr \<Rightarrow> disk \<Rightarrow> disk" where
  "drop_file n d = d\<lparr>files := (files d)(n := None)\<rparr>"

definition fsync_parent :: "env \<Rightarrow> unit io" where
  "fsync_parent S = then_io (syscall S id) (syscall S id)"

definition atomic_write :: "env \<Rightarrow> ustr \<Rightarrow> bytes \<Rightarrow> unit io" where
  "atomic_write S name b =
     (let tmp = tmp_path name in
      then_io (syscall S (put_file tmp []))
      (then_io (syscall S id)
      (then_io (syscall_with S (\<lambda>n. put_file tmp (take (partial_write S n) b)) (put_file tmp b))
      (then_io (syscall S id)
      (then_io (syscall S (\<lambda>d. put_file name b (drop_file tmp d)))
       (fsync_parent S))))))"

definition drop_trash :: "ustr \<Rightarrow> disk \<Rightarrow> disk" where
  "drop_trash n d = d\<lparr>trash := (trash d)(n := None)\<rparr>"

fun remove_matching :: "env \<Rightarrow> ustr \<Rightarrow> ustr list \<Rightarrow> unit io" where
  "remove_matching S pre [] = ret ()"
| "remove_matching S pre (n # ns) =
     then_io (syscall S id)
     (then_io (if starts_with n pre \<and> ends_with n (lit ''.enc'') then syscall S (drop_trash n) else ret ())
      (remove_matching S pre ns))"

definition remove_existing_trash_generation :: "env \<Rightarrow> ustr \<Rightarrow> unit io" where
  "remove_existing_trash_generation S profile =
     then_io (syscall S id)
     (bind_io (gets (\<lambda>d. read_order S (dom (trash d))))
      (remove_matching S (profile @ lit ''.'')))"

definition trash_target :: "env \<Rightarrow> ustr \<Rightarrow> ustr" where
  "trash_target S profile = profile @ lit ''.'' @ digits_of (timestamp S) @ lit ''.enc''"

definition move_to_trash :: "ustr \<Rightarrow> ustr \<Rightarrow> disk \<Rightarrow> disk" where
  "move_to_trash source target d =
     d\<lparr>trash := (trash d)(target := files d source), files := (files d)(source := None)\<rparr>"

definition rotate_existing_to_trash :: "env \<Rightarrow> ustr \<Rightarrow> unit io" where
  "rotate_existing_to_trash S profile =
     (let source = enc_path profile; target = trash_target S profile in
      bind_io (gets (\<lambda>d. source \<in> dom (files d))) (\<lambda>present.
      if \<not> present then ret ()
      else
        then_io (syscall S id)
        (then_io (syscall S id)
        (then_io (remove_existing_trash_generation S profile)
        (bind_io (gets (\<lambda>d. target \<in> dom (trash d))) (\<lambda>old.
         then_io (if old then syscall S (drop_trash target) else ret ())
        (then_io (syscall S (move_to_trash source target))
         (fsync_parent S))))))))"

function shred_loop :: "env \<Rightarrow> ustr \<Rightarrow> nat \<Rightarrow> nat \<Rightarrow> unit io" where
  "shred_loop S name done remaining =
     (if remaining = 0 then ret ()
      else
        let write_len = min remaining 8192;
            over = (\<lambda>k d. put_file name (replicate (done + k) 0xff @ drop (done + k) (the (files d name))) d)
        in then_io (syscall_with S (\<lambda>n. over (min (partial_write S n) write_len)) (over write_len))
             (shred_loop S name (done + write_len) (remaining - write_len)))"
  by pat_completeness auto
termination by (relation "measure (\<lambda>(S, name, done, remaining). remaining)") auto

declare shred_loop.simps [simp del]

definition shred_delete :: "env \<Rightarrow> ustr \<Rightarrow> unit io" where
  "shred_delete S name =
     bind_io (gets (\<lambda>d. files d name)) (\<lambda>content.
     case content of
       None \<Rightarrow> ret ()
     | Some b \<Rightarrow>
         then_io (syscall S id)
         (then_io (syscall S id)
         (then_io (syscall S id)
         (then_io (shred_loop S name 0 (length b))
         (then_io (syscall S id)
         (then_io (syscall S (drop_file name))
          (fsync_parent S)))))))"

definition read_file :: "env \<Rightarrow> ustr \<Rightarrow> bytes io" where
  "read_file S name =
     then_io (syscall S id)
     (bind_io (gets (\<lambda>d. files d name)) (\<lambda>c. case c of Some b \<Rightarrow> ret b | None \<Rightarrow> fail Io))"

section \<open>Keys\<close>

datatype KeySource = Keyring | Passphrase ustr

definition KEY_LEN :: nat where
  "KEY_LEN = 32"

definition SALT_LEN :: nat where
  "SALT_LEN = 16"

definition account :: "ustr \<Rightarrow> ustr" where
  "account profile = lit ''cookie-jar:'' @ profile"

definition decode_keyring_key :: "env \<Rightarrow> ustr \<Rightarrow> AuthStoreError + bytes" where
  "decode_keyring_key S encoded =
     (case b64_decode S encoded of
        Inl err \<Rightarrow> Inl (KeyringUnavailable err)
      | Inr decoded \<Rightarrow>
          if length decoded \<noteq> KEY_LEN then Inl (KeyringUnavailable (lit ''stored key must be 32 bytes''))
          else Inr decoded)"

definition keyring_key :: "env \<Rightarrow> ustr \<Rightarrow> bytes io" where
  "keyring_key S profile =
     then_io (keyring_call S (\<lambda>d. ((), d)))
     (bind_io (keyring_call S (\<lambda>d. (keyring d (account profile), d))) (\<lambda>stored.
      case stored of
        Some encoded \<Rightarrow> lift_sum (decode_keyring_key S encoded)
      | None \<Rightarrow>
          bind_io (draw S KEY_LEN) (\<lambda>key.
          then_io (keyring_call S (\<lambda>d. ((), d\<lparr>keyring := (keyring d)(account profile \<mapsto> b64_encode S key)\<rparr>)))
          (ret key))))"

definition delete_keyring_key :: "env \<Rightarrow> ustr \<Rightarrow> unit io" where
  "delete_keyring_key S profile =
     then_io (keyring_call S (\<lambda>d. ((), d)))
       (keyring_call S (\<lambda>d. ((), d\<lparr>keyring := (keyring d)(account profile := None)\<rparr>)))"

definition ensure_keyring_available :: "env \<Rightarrow> unit io" where
  "ensure_keyring_available S =
     then_io (keyring_call S (\<lambda>d. ((), d))) (keyring_call S (\<lambda>d. ((), d)))"

definition ensure_available :: "env \<Rightarrow> KeySource \<Rightarrow> unit io" where
  "ensure_available S src =
     (case src of Keyring \<Rightarrow> ensure_keyring_available S | Passphrase _ \<Rightarrow> ret ())"

definition derive_passphrase_key :: "env \<Rightarrow> ustr \<Rightarrow> bytes \<Rightarrow> AuthStoreError + bytes" where
  "derive_passphrase_key S passphrase salt =
     (if length salt \<noteq> SALT_LEN then Inl (Crypto (lit ''passphrase salt must be 16 bytes''))
      else argon2id S (utf8 passphrase) salt)"

definition key_for_profile :: "env \<Rightarrow> KeySource \<Rightarrow> ustr \<Rightarrow> bytes option \<Rightarrow> bytes io" where
  "key_for_profile S src profile salt =
     (case src of
        Keyring \<Rightarrow> keyring_key S profile
      | Passphrase pw \<Rightarrow>
          (case salt of
             None \<Rightarrow> fail (Crypto (lit ''passphrase salt missing from metadata''))
           | Some sb \<Rightarrow> lift_sum (derive_passphrase_key S pw sb)))"

definition passphrase_salt_for_save :: "env \<Rightarrow> KeySource \<Rightarrow> ustr option \<Rightarrow> ustr option io" where
  "passphrase_salt_for_save S src existing =
     (case src of
        Keyring \<Rightarrow> ret None
      | Passphrase _ \<Rightarrow>
          (case existing of
             Some e \<Rightarrow> ret (Some e)
           | None \<Rightarrow> bind_io (draw S SALT_LEN) (\<lambda>salt. ret (Some (b64_encode S salt)))))"

definition delete_profile_key :: "env \<Rightarrow> KeySource \<Rightarrow> ustr \<Rightarrow> unit io" where
  "delete_profile_key S src profile =
     (\<lambda>d. if src = Keyring then (Inr (), snd (delete_keyring_key S profile d)) else (Inr (), d))"

definition decode_salt :: "env \<Rightarrow> ustr option \<Rightarrow> AuthStoreError + bytes option" where
  "decode_salt S encoded =
     (case encoded of
        None \<Rightarrow> Inr None
      | Some v \<Rightarrow>
          (case b64_decode S v of
             Inl err \<Rightarrow> Inl (Crypto (lit ''invalid passphrase salt: '' @ err))
           | Inr bs \<Rightarrow> Inr (Some bs)))"

section \<open>The store\<close>

definition ensure_auth_dir :: "env \<Rightarrow> unit io" where
  "ensure_auth_dir S =
     then_io (syscall S id) (then_io (syscall S id) (then_io (syscall S id) (syscall S id)))"

definition open_with_key_source :: "env \<Rightarrow> KeySource \<Rightarrow> KeySource io" where
  "open_with_key_source S src =
     then_io (ensure_auth_dir S) (then_io (ensure_available S src) (ret src))"

definition read_disk_meta :: "env \<Rightarrow> ustr \<Rightarrow> DiskProfileMeta io" where
  "read_disk_meta S profile =
     bind_io (read_file S (meta_path profile)) (\<lambda>b.
     case meta_from_slice S b of Some meta \<Rightarrow> ret meta | None \<Rightarrow> fail Serde)"

text \<open>\<^verbatim>\<open>Result::ok\<close>: an error becomes an absent value, its effects stay.\<close>

definition ok_io :: "'a io \<Rightarrow> 'a option io" where
  "ok_io c = (\<lambda>d. case c d of (Inr x, d') \<Rightarrow> (Inr (Some x), d') | (Inl _, d') \<Rightarrow> (Inr None, d'))"

definition build_meta ::
  "env \<Rightarrow> ustr \<Rightarrow> Cookie list \<Rightarrow> DiskProfileMeta option \<Rightarrow> ustr option \<Rightarrow> BrowserReplayMetadata option \<Rightarrow> int \<Rightarrow>
   DiskProfileMeta" where
  "build_meta S profile cs existing salt_b64 replay now =
     \<lparr>dm_profile = profile,
      dm_domains = sorted_list_of_set (set (map ck_domain cs)),
      dm_created_at = (case existing of Some meta \<Rightarrow> dm_created_at meta | None \<Rightarrow> now),
      dm_last_used = now,
      dm_prefixes = sorted_list_of_set (set (map (\<lambda>c. sha256_prefix_8 (crypto S) (ck_name c)) cs)),
      dm_expires = map ck_expires cs,
      dm_salt_b64 = salt_b64,
      dm_browser_replay = replay\<rparr>"

definition opt_io :: "AuthStoreError \<Rightarrow> 'a option \<Rightarrow> 'a io" where
  "opt_io e x = (case x of Some v \<Rightarrow> ret v | None \<Rightarrow> fail e)"

definition save_inner ::
  "env \<Rightarrow> KeySource \<Rightarrow> ustr \<Rightarrow> Cookie list \<Rightarrow> ustr \<Rightarrow> BrowserReplayMetadata option \<Rightarrow> unit io" where
  "save_inner S src profile cs aad_context replay =
     then_io (lift_sum (validate_profile (quote S) profile))
     (bind_io (ok_io (read_disk_meta S profile)) (\<lambda>existing.
      bind_io (passphrase_salt_for_save S src (Option.bind existing dm_salt_b64)) (\<lambda>salt_b64.
      bind_io (lift_sum (decode_salt S salt_b64)) (\<lambda>salt.
      bind_io (key_for_profile S src profile salt) (\<lambda>key.
      bind_io (opt_io Serde (cookies_to_vec S cs)) (\<lambda>plaintext.
      bind_io (draw S NONCE_LEN) (\<lambda>nonce.
      bind_io (lift_sum (encrypt (crypto S) nonce profile aad_context key plaintext)) (\<lambda>encrypted.
      then_io (rotate_existing_to_trash S profile)
      (then_io (atomic_write S (enc_path profile) encrypted)
      (let browser_replay = (case replay of Some r \<Rightarrow> Some r | None \<Rightarrow> Option.bind existing dm_browser_replay);
           meta = build_meta S profile cs existing salt_b64 browser_replay (utc_now S)
       in bind_io (opt_io Serde (meta_to_vec S meta)) (\<lambda>meta_json.
          atomic_write S (meta_path profile) meta_json)))))))))))"

definition save :: "env \<Rightarrow> KeySource \<Rightarrow> ustr \<Rightarrow> Cookie list \<Rightarrow> ustr \<Rightarrow> unit io" where
  "save S src profile cs aad_context = save_inner S src profile cs aad_context None"

definition save_with_browser_replay ::
  "env \<Rightarrow> KeySource \<Rightarrow> ustr \<Rightarrow> Cookie list \<Rightarrow> ustr \<Rightarrow> BrowserReplayMetadata \<Rightarrow> unit io" where
  "save_with_browser_replay S src profile cs aad_context replay =
     save_inner S src profile cs aad_context (Some replay)"

definition browser_replay_metadata :: "env \<Rightarrow> ustr \<Rightarrow> BrowserReplayMetadata option io" where
  "browser_replay_metadata S profile =
     then_io (lift_sum (validate_profile (quote S) profile))
       (bind_io (read_disk_meta S profile) (\<lambda>meta. ret (dm_browser_replay meta)))"

definition load :: "env \<Rightarrow> KeySource \<Rightarrow> ustr \<Rightarrow> ustr \<Rightarrow> Cookie list io" where
  "load S src profile aad_context =
     then_io (lift_sum (validate_profile (quote S) profile))
     (bind_io (gets (\<lambda>d. enc_path profile \<in> dom (files d))) (\<lambda>present.
      if \<not> present then fail (NotFound profile)
      else
        bind_io (read_file S (enc_path profile)) (\<lambda>encrypted.
        bind_io (lift_sum (decode_for_profile (crypto S) profile encrypted)) (\<lambda>_.
        bind_io (ok_io (read_disk_meta S profile)) (\<lambda>meta.
        bind_io (lift_sum (decode_salt S (Option.bind meta dm_salt_b64))) (\<lambda>salt.
        bind_io (key_for_profile S src profile salt) (\<lambda>key.
        bind_io (lift_sum (decrypt (crypto S) profile aad_context key encrypted)) (\<lambda>plaintext.
        opt_io Serde (cookies_from_slice S plaintext)))))))))"

definition into_public :: "DiskProfileMeta \<Rightarrow> ProfileMeta" where
  "into_public m =
     \<lparr>pm_profile = dm_profile m, pm_domains = dm_domains m, pm_created_at = dm_created_at m,
      pm_last_used = dm_last_used m, pm_prefixes = dm_prefixes m\<rparr>"

fun collect_profiles :: "env \<Rightarrow> ustr list \<Rightarrow> ProfileMeta list \<Rightarrow> ProfileMeta list io" where
  "collect_profiles S [] acc = ret acc"
| "collect_profiles S (n # ns) acc =
     then_io (syscall S id)
     (if \<not> ends_with n (lit ''.meta.json'') then collect_profiles S ns acc
      else bind_io (read_file S n) (\<lambda>b.
        bind_io (opt_io Serde (meta_from_slice S b)) (\<lambda>m.
        collect_profiles S ns (acc @ [into_public m]))))"

definition list_profiles :: "env \<Rightarrow> ProfileMeta list io" where
  "list_profiles S =
     then_io (syscall S id)
     (bind_io (gets (\<lambda>d. read_order S (dom (files d)))) (\<lambda>ns.
      bind_io (collect_profiles S ns []) (\<lambda>ps. ret (sort_key pm_profile ps))))"

definition delete_store :: "env \<Rightarrow> KeySource \<Rightarrow> ustr \<Rightarrow> unit io" where
  "delete_store S src profile =
     then_io (lift_sum (validate_profile (quote S) profile))
     (then_io (shred_delete S (enc_path profile))
     (then_io (shred_delete S (meta_path profile))
     (then_io (delete_profile_key S src profile)
      (ret ()))))"

definition status :: "env \<Rightarrow> ustr \<Rightarrow> disk \<Rightarrow> ProfileStatus \<times> disk" where
  "status S profile d =
     (case validate_profile (quote S) profile of
        Inl _ \<Rightarrow> (Missing, d)
      | Inr _ \<Rightarrow>
          (case read_disk_meta S profile d of
             (Inl _, d') \<Rightarrow> (Missing, d')
           | (Inr meta, d') \<Rightarrow> (classify_status (dm_expires meta) (utc_now S), d')))"

definition from_store :: "env \<Rightarrow> KeySource \<Rightarrow> ustr \<Rightarrow> ustr \<Rightarrow> AuthCookieJar io" where
  "from_store S src profile aad_context =
     bind_io (load S src profile aad_context) (\<lambda>cs. ret (from_cookies cs))"

end
