(* ===== verification/Auth_Store_Logic.thy ===== *)
theory Auth_Store_Logic
  imports Auth_Store
begin

text \<open>
  Reasoning about the store's failing, state-changing operations: which parts of the state an operation
  may touch on any outcome, and triples with one postcondition for success and one for failure. On top
  of them, what saving, loading and deleting a profile guarantee.
\<close>

named_theorems touch "operations confined to a set of names"

section \<open>Footprints\<close>

definition touches :: "ustr set \<Rightarrow> ustr set \<Rightarrow> ustr set \<Rightarrow> 'a io \<Rightarrow> bool" where
  "touches N T K c \<longleftrightarrow> (\<forall>d. (\<forall>n. n \<notin> N \<longrightarrow> files (snd (c d)) n = files d n) \<and>
     (\<forall>n. n \<notin> T \<longrightarrow> trash (snd (c d)) n = trash d n) \<and> (\<forall>k. k \<notin> K \<longrightarrow> keyring (snd (c d)) k = keyring d k))"

lemma touches_mono: "touches N T K c \<Longrightarrow> N \<subseteq> N' \<Longrightarrow> T \<subseteq> T' \<Longrightarrow> K \<subseteq> K' \<Longrightarrow> touches N' T' K' c"
  unfolding touches_def by blast

lemma touches_bind [touch]:
  assumes "touches N T K c" "\<And>x. touches N T K (f x)"
  shows "touches N T K (bind_io c f)"
  using assms unfolding touches_def bind_io_def
  by (auto split: prod.splits sum.splits) (metis snd_conv)+

lemma touches_pure [touch]:
  "touches N T K (ret x)" "touches N T K (fail e)" "touches N T K (lift_sum r)" "touches N T K (gets g)"
  "touches N T K (draw S len)" "touches N T K (opt_io e y)"
  by (auto simp: touches_def ret_def fail_def lift_sum_def gets_def draw_def opt_io_def split: option.splits)

lemma touches_syscall [touch]: "touches N T K (syscall S id)"
  by (auto simp: touches_def syscall_with_def Let_def)

lemma touches_if [touch]: "touches N T K c \<Longrightarrow> touches N T K c' \<Longrightarrow> touches N T K (if b then c else c')"
  by simp

lemma touches_option [touch]:
  "touches N T K c \<Longrightarrow> (\<And>x. touches N T K (f x)) \<Longrightarrow> touches N T K (case v of None \<Rightarrow> c | Some x \<Rightarrow> f x)"
  by (cases v) simp_all

lemma touches_keyring_read [touch]: "touches N T K (keyring_call S (\<lambda>d. (g d, d)))"
  by (auto simp: touches_def keyring_call_def Let_def)

lemma touches_ok [touch]: "touches N T K c \<Longrightarrow> touches N T K (ok_io c)"
  unfolding touches_def ok_io_def by (auto split: prod.splits sum.splits) (metis snd_conv)+

lemma touches_fsync [touch]: "touches N T K (fsync_parent S)"
  unfolding fsync_parent_def by (intro touch)

lemma touches_read_file [touch]: "touches N T K (read_file S n)"
  unfolding read_file_def by (intro touch)

lemma touches_read_meta [touch]: "touches N T K (read_disk_meta S p)"
  unfolding read_disk_meta_def by (intro touch)

lemma touches_put:
  "n \<in> N \<Longrightarrow> touches N T K (syscall S (put_file n b))" "n \<in> N \<Longrightarrow> touches N T K (syscall S (drop_file n))"
  "n \<in> N \<Longrightarrow> touches N T K (syscall_with S (\<lambda>k. put_file n (g k)) (put_file n b))"
  "n \<in> T \<Longrightarrow> touches N T K (syscall S (drop_trash n))"
  by (auto simp: touches_def syscall_with_def put_file_def drop_file_def drop_trash_def Let_def)

lemma touches_atomic_write:
  assumes "n \<in> N" "tmp_path n \<in> N"
  shows "touches N T K (atomic_write S n b)"
proof -
  have "touches N T K (syscall S (\<lambda>d. put_file n b (drop_file (tmp_path n) d)))"
    using assms by (auto simp: touches_def syscall_with_def put_file_def drop_file_def Let_def)
  then show ?thesis unfolding atomic_write_def Let_def by (intro touch touches_put assms)
qed

lemma touches_remove_matching:
  "touches N {n. starts_with n pre \<and> ends_with n (lit ''.enc'')} K (remove_matching S pre ns)"
  by (induction ns) (auto intro!: touch touches_put)

lemma touches_remove_generation:
  "touches N {n. starts_with n (p @ lit ''.'') \<and> ends_with n (lit ''.enc'')} K (remove_existing_trash_generation S p)"
  unfolding remove_existing_trash_generation_def by (intro touch touches_remove_matching)

lemma touches_shred_loop: "n \<in> N \<Longrightarrow> touches N T K (shred_loop S n i r)"
proof (induction S n i r rule: shred_loop.induct)
  case (1 S n i r)
  have "touches N T K (syscall_with S (\<lambda>k. \<lambda>d. put_file n (g k d) d) (\<lambda>d. put_file n (h d) d))" for g h
    using 1(2) by (auto simp: touches_def syscall_with_def put_file_def Let_def)
  then show ?case using 1 by (subst shred_loop.simps) (auto simp: Let_def intro!: touch)
qed

lemma touches_shred: "n \<in> N \<Longrightarrow> touches N T K (shred_delete S n)"
  unfolding shred_delete_def by (intro touch touches_put touches_shred_loop)

lemma touches_keyring_key: "account p \<in> K \<Longrightarrow> touches N T K (keyring_key S p)"
proof -
  assume "account p \<in> K"
  then have "touches N T K (keyring_call S (\<lambda>d. ((), d\<lparr>keyring := (keyring d)(account p \<mapsto> v)\<rparr>)))" for v
    by (auto simp: touches_def keyring_call_def Let_def)
  then show ?thesis unfolding keyring_key_def by (intro touch)
qed

definition own_files :: "ustr \<Rightarrow> ustr set" where
  "own_files p = {enc_path p, tmp_path (enc_path p), meta_path p, tmp_path (meta_path p)}"

definition own_trash :: "ustr \<Rightarrow> ustr set" where
  "own_trash p = {n. starts_with n (p @ lit ''.'') \<and> ends_with n (lit ''.enc'')}"

lemma trash_target_own: "trash_target S p \<in> own_trash p"
  by (auto simp: own_trash_def trash_target_def starts_with_def ends_with_def suffix_def prefix_def)

lemma touches_rotate: "enc_path p \<in> N \<Longrightarrow> touches N (own_trash p) K (rotate_existing_to_trash S p)"
proof -
  assume "enc_path p \<in> N"
  then have "touches N (own_trash p) K (syscall S (move_to_trash (enc_path p) (trash_target S p)))"
    using trash_target_own by (auto simp: touches_def syscall_with_def move_to_trash_def Let_def)
  then show ?thesis
    unfolding rotate_existing_to_trash_def Let_def
    using touches_remove_generation [folded own_trash_def] touches_put(4) [OF trash_target_own] by (intro touch)
qed

lemma touches_key: "touches N T {account p} (key_for_profile S src p salt)"
  unfolding key_for_profile_def by (cases src) (auto intro!: touch touches_keyring_key)

lemma touches_salt: "touches N T K (passphrase_salt_for_save S src e)"
  unfolding passphrase_salt_for_save_def by (cases src) (auto intro!: touch split: option.splits)

lemma touches_save: "touches (own_files p) (own_trash p) {account p} (save_inner S src p cs ctx replay)"
  unfolding save_inner_def Let_def
  by (intro touch touches_key touches_salt touches_rotate touches_atomic_write) (simp_all add: own_files_def)

lemma touches_delete: "touches (own_files p) T {account p} (delete_store S src p)"
proof -
  have "touches N T {account p} (delete_keyring_key S p)" for N
    unfolding delete_keyring_key_def
    by (intro touch) (auto simp: touches_def keyring_call_def Let_def)
  then have "touches N T {account p} (delete_profile_key S src p)" for N
    by (auto simp: touches_def delete_profile_key_def)
  then show ?thesis
    unfolding delete_store_def by (intro touch touches_shred) (simp_all add: own_files_def)
qed

lemma touches_load: "touches {} {} {account p} (load S src p ctx)"
  unfolding load_def by (intro touch touches_key)

lemma last_of_path: "last (enc_path x) = 99" "last (meta_path x) = 110" "last (tmp_path x) = 112"
  by (simp_all add: enc_path_def meta_path_def tmp_path_def lit_def)

lemma path_kinds: "enc_path x \<noteq> tmp_path y" "meta_path x \<noteq> tmp_path y" "enc_path x \<noteq> meta_path y"
proof -
  have "a \<noteq> b" if "last a = i" "last b = j" "i \<noteq> j" for a b :: ustr and i j using that by blast
  from this [OF last_of_path(1) last_of_path(3)] this [OF last_of_path(2) last_of_path(3)]
    this [OF last_of_path(1) last_of_path(2)]
  show "enc_path x \<noteq> tmp_path y" "meta_path x \<noteq> tmp_path y" "enc_path x \<noteq> meta_path y" by simp_all
qed

lemma own_files_apart:
  assumes "q \<noteq> p"
  shows "enc_path q \<notin> own_files p" "meta_path q \<notin> own_files p"
proof -
  have "enc_path q \<noteq> enc_path p" "meta_path q \<noteq> meta_path p" using assms by (simp_all add: enc_path_def meta_path_def)
  then show "enc_path q \<notin> own_files p" "meta_path q \<notin> own_files p"
    using path_kinds path_kinds(3) [symmetric] by (simp_all add: own_files_def)
qed

section \<open>Triples\<close>

definition triple :: "(disk \<Rightarrow> bool) \<Rightarrow> 'a io \<Rightarrow> ('a \<Rightarrow> disk \<Rightarrow> bool) \<Rightarrow> (disk \<Rightarrow> bool) \<Rightarrow> bool" where
  "triple P c Q E \<longleftrightarrow> (\<forall>d. P d \<longrightarrow> (case c d of (Inr x, d') \<Rightarrow> Q x d' | (Inl e, d') \<Rightarrow> E d'))"

lemma tripleD:
  assumes "triple P c Q E" "P d"
  shows "c d = (Inr x, d') \<Longrightarrow> Q x d'" "c d = (Inl e, d') \<Longrightarrow> E d'"
  using assms(1) [unfolded triple_def, rule_format, OF assms(2)] by simp_all

lemma tripleI:
  assumes "\<And>d x d'. P d \<Longrightarrow> c d = (Inr x, d') \<Longrightarrow> Q x d'" "\<And>d e d'. P d \<Longrightarrow> c d = (Inl e, d') \<Longrightarrow> E d'"
  shows "triple P c Q E"
  unfolding triple_def using assms by (simp split: prod.split sum.split)

lemma bind_io_cases:
  assumes "bind_io c f d = (r, d2)"
  obtains (ok) x d1 where "c d = (Inr x, d1)" "f x d1 = (r, d2)" | (err) e where "c d = (Inl e, d2)" "r = Inl e"
  using assms unfolding bind_io_def by (simp split: prod.splits sum.splits)

lemma triple_bind:
  assumes "triple P c R E" "\<And>x. triple (R x) (f x) Q E"
  shows "triple P (bind_io c f) Q E"
proof (rule tripleI)
  fix d y d2 assume "P d" "bind_io c f d = (Inr y, d2)"
  from this(2) show "Q y d2"
    by (rule bind_io_cases) (use tripleD [OF assms(1) \<open>P d\<close>] tripleD [OF assms(2)] in blast)+
next
  fix d e d2 assume "P d" "bind_io c f d = (Inl e, d2)"
  from this(2) show "E d2"
    by (rule bind_io_cases) (use tripleD [OF assms(1) \<open>P d\<close>] tripleD [OF assms(2)] in blast)+
qed

lemma triple_ret: "(\<And>d. P d \<Longrightarrow> Q x d) \<Longrightarrow> triple P (ret x) Q E"
  by (simp add: triple_def ret_def)

lemma triple_conseq:
  assumes "triple P c Q E" "\<And>d. P' d \<Longrightarrow> P d" "\<And>x d. Q x d \<Longrightarrow> Q' x d" "\<And>d. E d \<Longrightarrow> E' d"
  shows "triple P' c Q' E'"
  by (rule tripleI) (use tripleD [OF assms(1) assms(2)] assms(3,4) in blast)+

text \<open>A name outside the footprint keeps its content on every outcome.\<close>

lemma triple_files:
  assumes "touches N T K c" "n \<notin> N" "\<And>d. files d n = v \<Longrightarrow> E d"
  shows "triple (\<lambda>d. files d n = v) c (\<lambda>_ d. files d n = v) E"
proof (rule tripleI)
  have "c d = (r, d') \<Longrightarrow> files d' n = files d n" for d r d'
    using assms(1,2) unfolding touches_def by (metis snd_conv)
  then show "files d n = v \<Longrightarrow> c d = (Inr x, d') \<Longrightarrow> files d' n = v"
    "files d n = v \<Longrightarrow> c d = (Inl e, d') \<Longrightarrow> E d'" for d x d' e
    using assms(3) by simp_all
qed

lemma triple_trash:
  assumes "touches N T K c" "n \<notin> T" "\<And>d. trash d n = v \<Longrightarrow> E d"
  shows "triple (\<lambda>d. trash d n = v) c (\<lambda>_ d. trash d n = v) E"
proof (rule tripleI)
  have "c d = (r, d') \<Longrightarrow> trash d' n = trash d n" for d r d'
    using assms(1,2) unfolding touches_def by (metis snd_conv)
  then show "trash d n = v \<Longrightarrow> c d = (Inr x, d') \<Longrightarrow> trash d' n = v"
    "trash d n = v \<Longrightarrow> c d = (Inl e, d') \<Longrightarrow> E d'" for d x d' e
    using assms(3) by simp_all
qed

section \<open>Saving loses no ciphertext\<close>

definition preserved :: "env \<Rightarrow> ustr \<Rightarrow> bytes \<Rightarrow> disk \<Rightarrow> bool" where
  "preserved S p old d \<longleftrightarrow> files d (enc_path p) = Some old \<or> trash d (trash_target S p) = Some old"

lemma rotate_preserves:
  "triple (\<lambda>d. files d (enc_path p) = Some old) (rotate_existing_to_trash S p)
     (\<lambda>_ d. trash d (trash_target S p) = Some old) (preserved S p old)"
proof -
  let ?P = "\<lambda>d. files d (enc_path p) = Some old"
  let ?T = "\<lambda>d. trash d (trash_target S p) = Some old"
  have keep: "triple ?P c (\<lambda>_. ?P) (preserved S p old)" if "touches {} UNIV UNIV c" for c :: "unit io"
    by (rule triple_files [OF that]) (simp_all add: preserved_def)
  have move: "triple ?P (syscall S (move_to_trash (enc_path p) (trash_target S p))) (\<lambda>_. ?T) (preserved S p old)"
    by (simp add: triple_def syscall_with_def move_to_trash_def preserved_def Let_def)
  have sync: "triple ?T (fsync_parent S) (\<lambda>_. ?T) (preserved S p old)"
    by (rule triple_trash [OF touches_fsync [of UNIV "{}" UNIV]]) (simp_all add: preserved_def)
  have gen: "touches {} UNIV UNIV (remove_existing_trash_generation S p)"
    by (rule touches_mono [OF touches_remove_generation]) auto
  have rest: "triple ?P (then_io (syscall S id) (then_io (syscall S id)
      (then_io (remove_existing_trash_generation S p)
      (bind_io (gets (\<lambda>d. trash_target S p \<in> dom (trash d))) (\<lambda>old'.
       then_io (if old' then syscall S (drop_trash (trash_target S p)) else ret ())
      (then_io (syscall S (move_to_trash (enc_path p) (trash_target S p))) (fsync_parent S)))))))
      (\<lambda>_. ?T) (preserved S p old)"
    by (intro triple_bind [OF keep] triple_bind [OF move] sync touch gen touches_put
        triple_bind [of ?P "gets _" "\<lambda>_. ?P"])
      (auto simp: triple_def gets_def)
  have "triple ?P (gets (\<lambda>d. enc_path p \<in> dom (files d))) (\<lambda>b d. b \<and> ?P d) (preserved S p old)"
    by (auto simp: triple_def gets_def)
  then show ?thesis
    unfolding rotate_existing_to_trash_def Let_def
  proof (rule triple_bind)
    fix b
    show "triple (\<lambda>d. b \<and> ?P d) (if \<not> b then ret () else then_io (syscall S id) (then_io (syscall S id)
      (then_io (remove_existing_trash_generation S p)
      (bind_io (gets (\<lambda>d. trash_target S p \<in> dom (trash d))) (\<lambda>old'.
       then_io (if old' then syscall S (drop_trash (trash_target S p)) else ret ())
      (then_io (syscall S (move_to_trash (enc_path p) (trash_target S p))) (fsync_parent S)))))))
      (\<lambda>_. ?T) (preserved S p old)"
      using rest by (cases b) (auto simp: triple_def)
  qed
qed

lemma save_preserves:
  "triple (\<lambda>d. files d (enc_path p) = Some old) (save_inner S src p cs ctx replay)
     (\<lambda>_ d. trash d (trash_target S p) = Some old) (preserved S p old)"
proof -
  let ?P = "\<lambda>d. files d (enc_path p) = Some old"
  let ?T = "\<lambda>d. trash d (trash_target S p) = Some old"
  have keep: "triple ?P c (\<lambda>_. ?P) (preserved S p old)" if "touches {} {} {account p} c" for c :: "'x io"
    by (rule triple_files [OF that]) (simp_all add: preserved_def)
  have keep_T: "triple ?T c (\<lambda>_. ?T) (preserved S p old)" if "touches UNIV {} {} c" for c :: "'x io"
    by (rule triple_trash [OF that]) (simp_all add: preserved_def)
  show ?thesis
    unfolding save_inner_def Let_def
    by (intro triple_bind [OF keep] triple_bind [OF rotate_preserves] triple_bind [OF keep_T] keep_T
        touch touches_salt touches_key touches_atomic_write) simp_all
qed

section \<open>Saving and loading\<close>

lemma bind_io_Inr: "bind_io c f d = (Inr y, d2) \<longleftrightarrow> (\<exists>x d1. c d = (Inr x, d1) \<and> f x d1 = (Inr y, d2))"
  by (auto simp: bind_io_def split: prod.splits sum.splits)

lemma pure_Inr:
  "lift_sum r d = (Inr x, d') \<longleftrightarrow> r = Inr x \<and> d' = d" "ret y d = (Inr x, d') \<longleftrightarrow> x = y \<and> d' = d"
  "opt_io e v d = (Inr x, d') \<longleftrightarrow> v = Some x \<and> d' = d" "fail e d = (Inr x, d') \<longleftrightarrow> False"
  "gets g d = (Inr x, d') \<longleftrightarrow> x = g d \<and> d' = d"
  by (auto simp: lift_sum_def ret_def opt_io_def fail_def gets_def split: option.splits)

lemma syscall_Inr:
  "syscall_with S b eff d = (Inr x, d') \<longleftrightarrow> \<not> fault S (calls d) \<and> d' = eff (d\<lparr>calls := Suc (calls d)\<rparr>)"
  by (auto simp: syscall_with_def Let_def)

lemma keyring_call_Inr:
  "keyring_call S eff d = (Inr x, d') \<longleftrightarrow> \<not> fault S (calls d) \<and> eff (d\<lparr>calls := Suc (calls d)\<rparr>) = (x, d')"
  by (auto simp: keyring_call_def Let_def split: prod.splits)

lemmas run_Inr = bind_io_Inr pure_Inr syscall_Inr keyring_call_Inr

lemma atomic_write_ok: "atomic_write S n b d = (Inr u, d') \<Longrightarrow> files d' n = Some b"
  by (auto simp: atomic_write_def fsync_parent_def run_Inr put_file_def drop_file_def Let_def)

definition sys_ok :: "env \<Rightarrow> bool" where
  "sys_ok S \<longleftrightarrow> crypto_ok (crypto S) \<and> (\<forall>n len. length (random_bytes S n len) = len) \<and>
     (\<forall>b. b64_decode S (b64_encode S b) = Inr b) \<and>
     (\<forall>m b. meta_to_vec S m = Some b \<longrightarrow> meta_from_slice S b = Some m) \<and>
     (\<forall>cs b. cookies_to_vec S cs = Some b \<longrightarrow> cookies_from_slice S b = Some cs)"

text \<open>The key in use for a profile, as the key source has it.\<close>

definition key_is :: "env \<Rightarrow> KeySource \<Rightarrow> ustr \<Rightarrow> bytes option \<Rightarrow> bytes \<Rightarrow> (ustr \<rightharpoonup> ustr) \<Rightarrow> bool" where
  "key_is S src p salt key kr \<longleftrightarrow>
     (case src of
        Keyring \<Rightarrow> \<exists>v. kr (account p) = Some v \<and> decode_keyring_key S v = Inr key
      | Passphrase pw \<Rightarrow> \<exists>sb. salt = Some sb \<and> derive_passphrase_key S pw sb = Inr key)"

lemma key_for_profile_is:
  assumes "sys_ok S" "key_for_profile S src p salt d = (Inr key, d')"
  shows "key_is S src p salt key (keyring d')"
proof (cases src)
  case Keyring
  show ?thesis
  proof (cases "keyring d (account p)")
    case None
    then show ?thesis using assms Keyring
      by (auto simp: key_for_profile_def keyring_key_def run_Inr key_is_def draw_def decode_keyring_key_def sys_ok_def
          KEY_LEN_def)
  next
    case (Some v)
    then show ?thesis using assms Keyring
      by (auto simp: key_for_profile_def keyring_key_def run_Inr key_is_def)
  qed
next
  case (Passphrase pw)
  then show ?thesis using assms by (auto simp: key_for_profile_def run_Inr key_is_def split: option.splits)
qed

lemma key_is_loaded:
  assumes "key_is S src p salt key (keyring d)" "\<forall>n \<ge> calls d. \<not> fault S n"
  shows "\<exists>d'. key_for_profile S src p salt d = (Inr key, d') \<and> calls d \<le> calls d'"
proof (cases src)
  case Keyring
  then obtain v where "keyring d (account p) = Some v" "decode_keyring_key S v = Inr key"
    using assms(1) by (auto simp: key_is_def)
  then show ?thesis using Keyring assms(2)
    by (simp add: key_for_profile_def keyring_key_def bind_io_def keyring_call_def lift_sum_def Let_def)
next
  case (Passphrase pw)
  then show ?thesis using assms(1) by (auto simp: key_for_profile_def key_is_def lift_sum_def)
qed

definition saved :: "env \<Rightarrow> KeySource \<Rightarrow> ustr \<Rightarrow> Cookie list \<Rightarrow> ustr \<Rightarrow> disk \<Rightarrow> bool" where
  "saved S src p cs ctx d \<longleftrightarrow> (\<exists>enc meta mj salt key nonce plain.
     files d (enc_path p) = Some enc \<and> files d (meta_path p) = Some mj \<and> meta_to_vec S meta = Some mj \<and>
     decode_salt S (dm_salt_b64 meta) = Inr salt \<and> key_is S src p salt key (keyring d) \<and>
     cookies_to_vec S cs = Some plain \<and> length nonce = NONCE_LEN \<and>
     encrypt (crypto S) nonce p ctx key plain = Inr enc)"

lemma touches_same:
  assumes "touches N T K c" "c d = (r, d')"
  shows "n \<notin> N \<Longrightarrow> files d' n = files d n" "k \<notin> K \<Longrightarrow> keyring d' k = keyring d k"
  using assms unfolding touches_def by (metis snd_conv)+

lemma key_is_kept:
  assumes "key_is S src p salt key (keyring d)" "touches N T {} c" "c d = (r, d')"
  shows "key_is S src p salt key (keyring d')"
proof -
  have "keyring d' = keyring d" using touches_same(2) [OF assms(2,3)] by auto
  then show ?thesis using assms(1) by simp
qed

lemma save_ok:
  assumes "sys_ok S" "save_inner S src p cs ctx replay d = (Inr (), d')"
  shows "saved S src p cs ctx d'"
proof -
  from assms(2) obtain existing salt_b64 salt key plain nonce enc mj replay' u1 u2 u3 d2 d3 d4 d5 d6 where
    r: "decode_salt S salt_b64 = Inr salt" "key_for_profile S src p salt d2 = (Inr key, d3)"
      "cookies_to_vec S cs = Some plain" "draw S NONCE_LEN d3 = (Inr nonce, d4)"
      "encrypt (crypto S) nonce p ctx key plain = Inr enc"
      "rotate_existing_to_trash S p d4 = (Inr u1, d5)" "atomic_write S (enc_path p) enc d5 = (Inr u2, d6)"
      "meta_to_vec S (build_meta S p cs existing salt_b64 replay' (utc_now S)) = Some mj"
      "atomic_write S (meta_path p) mj d6 = (Inr u3, d')"
    unfolding save_inner_def Let_def by (simp only: bind_io_Inr pure_Inr) blast
  have w1: "touches {enc_path p, tmp_path (enc_path p)} {} {} (atomic_write S (enc_path p) enc)"
    and w2: "touches {meta_path p, tmp_path (meta_path p)} {} {} (atomic_write S (meta_path p) mj)"
    by (rule touches_atomic_write; simp)+
  have "key_is S src p salt key (keyring d3)" by (rule key_for_profile_is [OF assms(1) r(2)])
  then have "key_is S src p salt key (keyring d4)" by (rule key_is_kept [OF _ touches_pure(5) r(4)])
  then have "key_is S src p salt key (keyring d5)"
    by (rule key_is_kept [OF _ touches_rotate [of p UNIV] r(6)]) simp
  then have "key_is S src p salt key (keyring d6)" by (rule key_is_kept [OF _ w1 r(7)])
  then have "key_is S src p salt key (keyring d')" by (rule key_is_kept [OF _ w2 r(9)])
  moreover have "files d' (enc_path p) = Some enc"
    using atomic_write_ok [OF r(7)] touches_same(1) [OF w2 r(9), of "enc_path p"] path_kinds by simp
  moreover have "length nonce = NONCE_LEN" using r(4) assms(1) by (auto simp: draw_def sys_ok_def)
  moreover have "decode_salt S (dm_salt_b64 (build_meta S p cs existing salt_b64 replay' (utc_now S))) = Inr salt"
    using r(1) by (simp add: build_meta_def)
  ultimately show ?thesis unfolding saved_def using r atomic_write_ok [OF r(9)] by blast
qed

lemma load_saved:
  assumes "sys_ok S" "saved S src p cs ctx d" "validate_profile (quote S) p = Inr ()" "\<forall>n \<ge> calls d. \<not> fault S n"
  shows "\<exists>d'. load S src p ctx d = (Inr cs, d')"
proof -
  obtain enc meta mj salt key nonce plain where r: "files d (enc_path p) = Some enc" "files d (meta_path p) = Some mj"
    "meta_to_vec S meta = Some mj" "decode_salt S (dm_salt_b64 meta) = Inr salt"
    "key_is S src p salt key (keyring d)" "cookies_to_vec S cs = Some plain" "length nonce = NONCE_LEN"
    "encrypt (crypto S) nonce p ctx key plain = Inr enc"
    using assms(2) unfolding saved_def by blast
  have c: "crypto_ok (crypto S)" and m: "meta_from_slice S mj = Some meta" and v: "cookies_from_slice S plain = Some cs"
    using assms(1) r(3,6) by (auto simp: sys_ok_def)
  note dec = decrypt_encrypt [OF c r(7,8)]
  let ?d2 = "d\<lparr>calls := Suc (Suc (calls d))\<rparr>"
  obtain d3 where key: "key_for_profile S src p salt ?d2 = (Inr key, d3)"
    using key_is_loaded [of S src p salt key ?d2] r(5) assms(4) by auto
  obtain e where e: "decode_for_profile (crypto S) p enc = Inr e" using dec(2) by blast
  have enc: "read_file S (enc_path p) d = (Inr enc, d\<lparr>calls := Suc (calls d)\<rparr>)"
    using r(1) assms(4) by (simp add: read_file_def bind_io_def syscall_with_def gets_def ret_def Let_def)
  have meta: "ok_io (read_disk_meta S p) (d\<lparr>calls := Suc (calls d)\<rparr>) = (Inr (Some meta), ?d2)"
    using r(2) m assms(4)
    by (simp add: ok_io_def read_disk_meta_def read_file_def bind_io_def syscall_with_def gets_def ret_def Let_def)
  have "load S src p ctx d = (Inr cs, d3)"
    unfolding load_def bind_io_Inr pure_Inr
    using assms(3) r(1,4) enc meta key e dec(1) v by (auto simp: bind_io_Inr pure_Inr intro!: exI)
  then show ?thesis by blast
qed

subsection \<open>Other profiles\<close>

datatype store_call = SaveCall ustr "Cookie list" ustr "BrowserReplayMetadata option" | LoadCall ustr ustr | DeleteCall ustr

fun profile_of :: "store_call \<Rightarrow> ustr" where
  "profile_of (SaveCall q cs ctx r) = q"
| "profile_of (LoadCall q ctx) = q"
| "profile_of (DeleteCall q) = q"

fun perform :: "env \<Rightarrow> KeySource \<Rightarrow> store_call \<Rightarrow> disk \<Rightarrow> disk" where
  "perform S src (SaveCall q cs ctx r) d = snd (save_inner S src q cs ctx r d)"
| "perform S src (LoadCall q ctx) d = snd (load S src q ctx d)"
| "perform S src (DeleteCall q) d = snd (delete_store S src q d)"

lemma perform_apart:
  assumes "profile_of c \<noteq> p"
  shows "files (perform S src c d) (enc_path p) = files d (enc_path p)"
    "files (perform S src c d) (meta_path p) = files d (meta_path p)"
    "keyring (perform S src c d) (account p) = keyring d (account p)"
proof -
  have acc: "account p \<notin> {account (profile_of c)}" using assms by (simp add: account_def)
  note apart = own_files_apart [OF assms [symmetric]]
  show "files (perform S src c d) (enc_path p) = files d (enc_path p)"
    "files (perform S src c d) (meta_path p) = files d (meta_path p)"
    "keyring (perform S src c d) (account p) = keyring d (account p)"
    using apart acc touches_save [unfolded touches_def, rule_format] touches_load [unfolded touches_def, rule_format]
      touches_delete [unfolded touches_def, rule_format] by (cases c; simp)+
qed

lemma saved_kept:
  assumes "saved S src p cs ctx d" "profile_of c \<noteq> p"
  shows "saved S src p cs ctx (perform S src c d)"
proof -
  have "key_is S src p salt key (keyring (perform S src c d)) = key_is S src p salt key (keyring d)" for salt key
    using perform_apart(3) [OF assms(2)] by (cases src) (simp_all add: key_is_def)
  then show ?thesis using assms(1) perform_apart(1,2) [OF assms(2)] by (simp add: saved_def)
qed

lemma saved_run:
  "saved S src p cs ctx d \<Longrightarrow> \<forall>c \<in> set ops. profile_of c \<noteq> p \<Longrightarrow> saved S src p cs ctx (fold (perform S src) ops d)"
  by (induction ops arbitrary: d) (simp_all add: saved_kept)

text \<open>
  C11. What was saved is loaded: after a save that returned successfully, whatever saves, loads and
  deletions of other profiles follow, failed ones included, loading the profile with the same context
  and no further fault returns exactly the saved cookies, for keyring and passphrase stores alike.
\<close>

theorem save_then_load:
  assumes "sys_ok S" "save_inner S src p cs ctx replay d = (Inr (), d1)"
    and "\<forall>c \<in> set ops. profile_of c \<noteq> p" "d2 = fold (perform S src) ops d1"
    and "\<forall>n \<ge> calls d2. \<not> fault S n"
  shows "\<exists>d3. load S src p ctx d2 = (Inr cs, d3)"
proof -
  have "validate_profile (quote S) p = Inr ()"
    using assms(2) unfolding save_inner_def by (simp add: bind_io_Inr pure_Inr)
  then show ?thesis using load_saved [OF assms(1)] saved_run [OF save_ok [OF assms(1,2)] assms(3)] assms(4,5) by blast
qed

text \<open>
  C12. No save loses the previous jar: wherever a save stops, with success or with any fault of the file
  system or the keyring, the ciphertext that was stored before is still the stored one or lies in the
  trash under the profile's name; no other profile's jar, metadata or key is affected; and in the trash only files
  change whose name starts with the profile's name and a dot and ends in .enc. These need not be the profile's own:
  the trashed jar of a profile whose name extends it after a dot has such a name and is removed, see
  \<^verbatim>\<open>trash_collateral\<close> below.
\<close>

theorem save_never_loses:
  assumes "files d (enc_path p) = Some old" "q \<noteq> p"
  shows "(case save_inner S src p cs ctx replay d of (r, d') \<Rightarrow>
      (files d' (enc_path p) = Some old \<or> trash d' (trash_target S p) = Some old) \<and>
      files d' (enc_path q) = files d (enc_path q) \<and> files d' (meta_path q) = files d (meta_path q) \<and>
      keyring d' (account q) = keyring d (account q) \<and>
      (\<forall>n. trash d' n = trash d n \<or> (starts_with n (p @ lit ''.'') \<and> ends_with n (lit ''.enc''))))"
proof -
  obtain r d' where r: "save_inner S src p cs ctx replay d = (r, d')" by (cases "save_inner S src p cs ctx replay d")
  have "preserved S p old d'"
    using tripleD [OF save_preserves [of p old S src cs ctx replay] assms(1)] r by (cases r) (auto simp: preserved_def)
  moreover have "perform S src (SaveCall p cs ctx replay) d = d'" using r by simp
  moreover have "profile_of (SaveCall p cs ctx replay) \<noteq> q" using assms(2) by simp
  moreover have "trash d' n = trash d n \<or> (starts_with n (p @ lit ''.'') \<and> ends_with n (lit ''.enc''))" for n
  proof -
    have "n \<notin> own_trash p \<Longrightarrow> trash (snd (save_inner S src p cs ctx replay d)) n = trash d n"
      using touches_save [of p S src cs ctx replay] unfolding touches_def by blast
    then show ?thesis using r by (auto simp: own_trash_def)
  qed
  ultimately show ?thesis
    using r perform_apart [of "SaveCall p cs ctx replay" q S src d] by (simp add: preserved_def)
qed

section \<open>Deleting\<close>

lemma shred_loop_overwrites:
  "shred_loop S n i r d = (Inr u, d') \<Longrightarrow> files d n = Some (replicate i 0xff @ rest) \<Longrightarrow> length rest = r \<Longrightarrow>
   files d' n = Some (replicate (i + r) 0xff)"
proof (induction S n i r arbitrary: d rest rule: shred_loop.induct)
  case (1 S n i r)
  show ?case
  proof (cases "r = 0")
    case True
    then show ?thesis using 1(2-) by (simp add: shred_loop.simps ret_def)
  next
    case False
    let ?w = "min r 8192"
    let ?d1 = "put_file n (replicate (i + ?w) 0xff @ drop ?w rest) (d\<lparr>calls := Suc (calls d)\<rparr>)"
    have next_step: "shred_loop S n (i + ?w) (r - ?w) ?d1 = (Inr u, d')"
      using 1(2) [unfolded shred_loop.simps [of S n i r]] False 1(3,4) by (simp add: Let_def run_Inr)
    have "files d' n = Some (replicate (i + ?w + (r - ?w)) 0xff)"
      by (rule "1.IH" [OF False refl refl next_step]) (use 1(4) in \<open>auto simp: put_file_def\<close>)
    then show ?thesis by simp
  qed
qed

lemma shred_delete_ok: "shred_delete S n d = (Inr u, d') \<Longrightarrow> files d' n = None"
  by (auto simp: shred_delete_def fsync_parent_def run_Inr drop_file_def split: option.splits)

text \<open>The count of outside calls only grows.\<close>

definition forward :: "'a io \<Rightarrow> bool" where
  "forward c \<longleftrightarrow> (\<forall>d r d'. c d = (r, d') \<longrightarrow> calls d \<le> calls d')"

lemma forward_bind: "forward c \<Longrightarrow> (\<And>x. forward (f x)) \<Longrightarrow> forward (bind_io c f)"
  unfolding forward_def by (meson bind_io_cases order_trans)

lemma forward_basic:
  "forward (ret x)" "forward (gets g)"
  "(\<And>n d. calls (b n d) = calls d) \<Longrightarrow> (\<And>d. calls (eff d) = calls d) \<Longrightarrow> forward (syscall_with S b eff)"
  by (auto simp: forward_def ret_def gets_def syscall_with_def Let_def)

lemma forward_shred_loop: "forward (shred_loop S n i r)"
proof (induction S n i r rule: shred_loop.induct)
  case (1 S n i r)
  then show ?case
    by (subst shred_loop.simps) (auto simp: Let_def put_file_def intro!: forward_basic forward_bind)
qed

lemma forward_shred: "forward (shred_delete S n)"
proof -
  have content: "forward (case v of None \<Rightarrow> c | Some x \<Rightarrow> f x)" if "forward c" "\<And>x. forward (f x)"
    for v :: "bytes option" and c :: "unit io" and f using that by (cases v) simp_all
  show ?thesis
    unfolding shred_delete_def fsync_parent_def
    by (intro forward_bind content forward_basic forward_shred_loop) (simp_all add: drop_file_def)
qed

lemma delete_removes:
  assumes "delete_store S src p d = (Inr (), d')"
  shows "files d' (enc_path p) = None" "files d' (meta_path p) = None"
    "src = Keyring \<Longrightarrow> \<forall>n \<ge> calls d. \<not> fault S n \<Longrightarrow> keyring d' (account p) = None"
proof -
  obtain u1 u2 d1 d2 where r: "shred_delete S (enc_path p) d = (Inr u1, d1)" "shred_delete S (meta_path p) d1 = (Inr u2, d2)"
    "delete_profile_key S src p d2 = (Inr (), d')"
    using assms unfolding delete_store_def by (auto simp: bind_io_Inr pure_Inr)
  have t: "touches {} {} UNIV (delete_profile_key S src p)"
    by (auto simp: touches_def delete_profile_key_def delete_keyring_key_def bind_io_def keyring_call_def Let_def)
  have "files d2 (enc_path p) = files d1 (enc_path p)"
    using touches_same(1) [OF touches_shred [of "meta_path p" "{meta_path p}"] r(2)] path_kinds(3) by simp
  then show "files d' (enc_path p) = None" "files d' (meta_path p) = None"
    using shred_delete_ok [OF r(1)] shred_delete_ok [OF r(2)] touches_same(1) [OF t r(3)] by simp_all
  show "keyring d' (account p) = None" if "src = Keyring" "\<forall>n \<ge> calls d. \<not> fault S n"
  proof -
    have "calls d \<le> calls d2" using r(1,2) forward_shred unfolding forward_def by (meson order_trans)
    then show ?thesis using that r(3)
      by (auto simp: delete_profile_key_def delete_keyring_key_def bind_io_def keyring_call_def Let_def)
  qed
qed

text \<open>
  Deleting removes: after a successful deletion the profile's jar and metadata are gone, loading it
  reports it as not found and its status is missing, and without keyring faults its key is gone too;
  the shredding pass overwrites every byte of a file before the file is removed.
\<close>

lemma delete_forgets:
  assumes "delete_store S src p d = (Inr (), d')"
  shows "files d' (enc_path p) = None \<and> files d' (meta_path p) = None \<and>
    fst (load S src p ctx d') = Inl (NotFound p) \<and> fst (status S p d') = Missing \<and>
    (src = Keyring \<longrightarrow> (\<forall>n \<ge> calls d. \<not> fault S n) \<longrightarrow> keyring d' (account p) = None) \<and>
    (\<forall>n b d1 d2. files d1 n = Some b \<longrightarrow> shred_loop S n 0 (length b) d1 = (Inr (), d2) \<longrightarrow>
       files d2 n = Some (replicate (length b) 0xff))"
proof -
  note gone = delete_removes [OF assms]
  have v: "validate_profile (quote S) p = Inr ()"
    using assms unfolding delete_store_def by (simp add: bind_io_Inr pure_Inr)
  have load: "fst (load S src p ctx d') = Inl (NotFound p)"
    using gone(1) v by (simp add: load_def bind_io_def lift_sum_def gets_def fail_def dom_def)
  have "\<exists>e d2. read_disk_meta S p d' = (Inl e, d2)"
    using gone(2) by (simp add: read_disk_meta_def read_file_def bind_io_def syscall_with_def gets_def fail_def Let_def)
  then have status: "fst (status S p d') = Missing" using v by (auto simp: status_def)
  have shred: "files d2 n = Some (replicate (length b) 0xff)"
    if "files d1 n = Some b" "shred_loop S n 0 (length b) d1 = (Inr (), d2)" for n b d1 d2
    using shred_loop_overwrites [OF that(2), of b] that(1) by simp
  show ?thesis using gone load status shred by blast
qed

section \<open>The trash\<close>

lemma remove_matching_removes:
  assumes "remove_matching S pre ns d = (Inr u, d')"
  shows "\<forall>n \<in> set ns. starts_with n pre \<longrightarrow> ends_with n (lit ''.enc'') \<longrightarrow> trash d' n = None"
    "\<forall>n. trash d n = None \<longrightarrow> trash d' n = None"
  using assms
  by (induction ns arbitrary: d) (auto simp: run_Inr drop_trash_def split: if_splits)

text \<open>
  The trash holds one generation per name prefix, not per profile: when a jar is rotated, every
  trash file that starts with the profile's name and a dot is removed, so saving a profile also removes
  the trashed generation of any profile whose name extends it after a dot.
\<close>

lemma trash_collateral:
  assumes "remove_existing_trash_generation S p d = (Inr (), d')"
    and "set (read_order S (dom (trash d))) = dom (trash d)"
  shows "trash d' (trash_target S' (p @ lit ''.'' @ rest)) = None"
proof -
  let ?n = "trash_target S' (p @ lit ''.'' @ rest)"
  have n: "starts_with ?n (p @ lit ''.'')" "ends_with ?n (lit ''.enc'')"
    by (auto simp: trash_target_def starts_with_def ends_with_def prefix_def suffix_def)
  let ?d1 = "d\<lparr>calls := Suc (calls d)\<rparr>"
  have d1: "trash ?d1 = trash d" "remove_matching S (p @ lit ''.'') (read_order S (dom (trash d))) ?d1 = (Inr (), d')"
    using assms(1) by (simp_all add: remove_existing_trash_generation_def run_Inr)
  show ?thesis
  proof (cases "trash d ?n")
    case None
    then show ?thesis using remove_matching_removes(2) [OF d1(2)] d1(1) by simp
  next
    case (Some b)
    then have "?n \<in> set (read_order S (dom (trash d)))" using assms(2) by blast
    then show ?thesis using remove_matching_removes(1) [OF d1(2)] n by blast
  qed
qed

section \<open>A concrete environment\<close>

text \<open>The empty jar as the one value the serializers know, enough to run the store.\<close>

definition demo_meta :: DiskProfileMeta where
  "demo_meta =
     \<lparr>dm_profile = lit ''p'', dm_domains = [], dm_created_at = 0, dm_last_used = 0, dm_prefixes = [], dm_expires = [],
      dm_salt_b64 = None, dm_browser_replay = None\<rparr>"

definition demo_env :: env where
  "demo_env =
     \<lparr>fault = (\<lambda>_. False), partial_write = (\<lambda>_. 0), fault_text = (\<lambda>_. []), random_bytes = (\<lambda>_ len. replicate len 7),
      read_order = (\<lambda>_. []), utc_now = 0, timestamp = 5, quote = id, crypto = demo_crypto,
      argon2id = (\<lambda>_ _. Inr (replicate 32 1)), b64_encode = map unat, b64_decode = (\<lambda>s. Inr (map word_of_nat s)),
      cookies_to_vec = (\<lambda>cs. if cs = [] then Some [1] else None),
      cookies_from_slice = (\<lambda>b. if b = [1] then Some [] else None),
      meta_to_vec = (\<lambda>x. if x = demo_meta then Some [2] else None),
      meta_from_slice = (\<lambda>b. if b = [2] then Some demo_meta else None)\<rparr>"

lemma demo_sys_ok: "sys_ok demo_env"
  by (simp add: sys_ok_def demo_env_def demo_crypto_ok comp_def)

definition empty_disk :: disk where
  "empty_disk = \<lparr>files = Map.empty, trash = Map.empty, keyring = Map.empty, calls = 0\<rparr>"

lemmas store_run = save_inner_def load_def delete_store_def shred_delete_def bind_io_def lift_sum_def ret_def fail_def
  gets_def ok_io_def opt_io_def draw_def syscall_with_def keyring_call_def read_disk_meta_def read_file_def
  passphrase_salt_for_save_def decode_salt_def key_for_profile_def keyring_key_def rotate_existing_to_trash_def
  atomic_write_def fsync_parent_def delete_profile_key_def delete_keyring_key_def validate_profile_def

lemma demo_save: "\<exists>d. save_inner demo_env Keyring (lit ''p'') [] [] None empty_disk = (Inr (), d)"
proof -
  have "build_meta demo_env (lit ''p'') [] None None None 0 = demo_meta"
    by (simp add: build_meta_def demo_meta_def)
  then show ?thesis
    by (simp add: store_run demo_env_def empty_disk_def demo_crypto_def encrypt_def encode_def put_file_def drop_file_def
        lit_def Let_def)
qed

theorem save_then_load_witness:
  "\<exists>d1 d3. save_inner demo_env Keyring (lit ''p'') [] [] None empty_disk = (Inr (), d1) \<and>
     load demo_env Keyring (lit ''p'') [] (fold (perform demo_env Keyring) [DeleteCall (lit ''q'')] d1) = (Inr [], d3)"
proof -
  obtain d1 where "save_inner demo_env Keyring (lit ''p'') [] [] None empty_disk = (Inr (), d1)"
    using demo_save by blast
  with save_then_load [OF demo_sys_ok this, of "[DeleteCall (lit ''q'')]"] show ?thesis
    by (auto simp: demo_env_def lit_def)
qed

theorem save_never_loses_witness:
  "case save_inner demo_env Keyring (lit ''p'') [] [] None (empty_disk\<lparr>files := [enc_path (lit ''p'') \<mapsto> [9]]\<rparr>) of (r, d') \<Rightarrow>
     files d' (enc_path (lit ''p'')) = Some [9] \<or> trash d' (trash_target demo_env (lit ''p'')) = Some [9]"
  using save_never_loses [of "empty_disk\<lparr>files := [enc_path (lit ''p'') \<mapsto> [9]]\<rparr>" "lit ''p''" "[9]" "lit ''q''"
      demo_env Keyring "[]" "[]" None] by (auto simp: lit_def)

end
