(* ===== verification/Config_Loader.thy ===== *)
theory Config_Loader
  imports Rust_Str
begin

text \<open>
  The contract of the configuration loaders (the \<^verbatim>\<open>load_from\<close> functions of
  \<^verbatim>\<open>crates/vpn-rotate/src/proxy_resolver.rs\<close> and \<^verbatim>\<open>crates/stealth-cli/src/policy.rs\<close>): a missing file gives the
  default, a present file is parsed, and a file that cannot be read or parsed is an error.

  The file system maps a path to nothing, to a read error or to the text of the file.
\<close>

locale config_loader =
  fixes load_from :: "(ustr \<Rightarrow> ustr + 'c) \<Rightarrow> (ustr \<Rightarrow> (ustr + ustr) option) \<Rightarrow> ustr \<Rightarrow> 'e + 'c"
    and dflt :: 'c
  assumes missing: "fs path = None \<Longrightarrow> load_from toml fs path = Inr dflt"
    and unreadable: "fs path = Some (Inl e) \<Longrightarrow> isl (load_from toml fs path)"
    and malformed: "fs path = Some (Inr raw) \<Longrightarrow> toml raw = Inl e \<Longrightarrow> isl (load_from toml fs path)"
    and parsed: "fs path = Some (Inr raw) \<Longrightarrow> toml raw = Inr c \<Longrightarrow> load_from toml fs path = Inr c"
begin

text \<open>The default is used for a missing file only: a damaged file never turns into the default.\<close>

lemma loaded_iff:
  "load_from toml fs path = Inr c \<longleftrightarrow>
     fs path = None \<and> c = dflt \<or> (\<exists>raw. fs path = Some (Inr raw) \<and> toml raw = Inr c)"
proof (cases "fs path")
  case None
  then show ?thesis using missing by auto
next
  case (Some r)
  show ?thesis
  proof (cases r)
    case (Inl e)
    then show ?thesis using Some unreadable [of fs path e toml] by auto
  next
    case (Inr raw)
    then show ?thesis using Some malformed [of fs path raw toml] parsed [of fs path raw toml] by (cases "toml raw") auto
  qed
qed

lemma invariant_holds:
  assumes "load_from toml fs path = Inr c" "P dflt" "\<And>raw c. toml raw = Inr c \<Longrightarrow> P c"
  shows "P c"
  using assms by (auto simp: loaded_iff)

end

end
