(* ===== verification/Instance_Pool.thy ===== *)
theory Instance_Pool
  imports Utf8 "HOL-Library.Word"
begin

text \<open>
  The VPN instance pool (\<^verbatim>\<open>crates/vpn-rotate/src/instance_pool.rs\<close>): rendezvous hashing of a session to
  an instance, with eviction of an instance after consecutive failures until a cooldown has passed.

  Instants are nanosecond counts and the clock readings are arguments. The hash function \<open>xxh3\<close> is a
  library's and a parameter. Handles share the failure map, so operations are functions of the
  pool. The session files are modelled in the theory of that name.
\<close>

section \<open>Definitions\<close>

record VpnInstance =
  vi_name :: ustr
  http_proxy_port :: "16 word"
  control_port :: "16 word"

record FailurePolicy =
  threshold :: nat
  cooldown :: nat

definition FailurePolicy_default :: FailurePolicy where
  "FailurePolicy_default = \<lparr>threshold = 3, cooldown = 60 * 10 ^ 9\<rparr>"

record FailureRecord =
  consecutive_fails :: nat
  last_at :: nat

record InstancePool =
  instances :: "VpnInstance list"
  failed :: "ustr \<rightharpoonup> FailureRecord"
  pool_policy :: FailurePolicy
  seed :: "64 word"

definition DEFAULT_HRW_SEED :: "64 word" where
  "DEFAULT_HRW_SEED = 0x5f3759dfa4d26e7b"

definition with_failure_policy :: "VpnInstance list \<Rightarrow> FailurePolicy \<Rightarrow> InstancePool" where
  "with_failure_policy insts policy =
     \<lparr>instances = insts, failed = Map.empty, pool_policy = policy, seed = DEFAULT_HRW_SEED\<rparr>"

definition InstancePool_new :: "VpnInstance list \<Rightarrow> InstancePool" where
  "InstancePool_new insts = with_failure_policy insts FailurePolicy_default"

definition with_seed :: "InstancePool \<Rightarrow> 64 word \<Rightarrow> InstancePool" where
  "with_seed p s = p\<lparr>seed := s\<rparr>"

definition to_le_bytes :: "64 word \<Rightarrow> nat list" where
  "to_le_bytes w = map (\<lambda>i. unat (drop_bit (8 * i) w) mod 256) [0..<8]"

definition hash_input :: "64 word \<Rightarrow> ustr \<Rightarrow> ustr \<Rightarrow> nat list" where
  "hash_input s key nm = to_le_bytes s @ as_bytes nm @ [0xff] @ as_bytes key"

definition rendezvous_hash_seeded :: "(nat list \<Rightarrow> 64 word) \<Rightarrow> 64 word \<Rightarrow> ustr \<Rightarrow> ustr \<Rightarrow> 64 word" where
  "rendezvous_hash_seeded xxh3 s key nm = xxh3 (hash_input s key nm)"

definition rendezvous_hash :: "(nat list \<Rightarrow> 64 word) \<Rightarrow> ustr \<Rightarrow> ustr \<Rightarrow> 64 word" where
  "rendezvous_hash xxh3 key nm = rendezvous_hash_seeded xxh3 DEFAULT_HRW_SEED key nm"

definition is_healthy :: "InstancePool \<Rightarrow> nat \<Rightarrow> ustr \<Rightarrow> bool" where
  "is_healthy p now nm =
     (case failed p nm of
        None \<Rightarrow> True
      | Some rec \<Rightarrow>
          if consecutive_fails rec < threshold (pool_policy p) then True
          else now - last_at rec \<ge> cooldown (pool_policy p))"

fun pick_loop :: "('i \<Rightarrow> bool) \<Rightarrow> ('i \<Rightarrow> 's::linorder) \<Rightarrow> 'i list \<Rightarrow> ('s \<times> 'i) option \<Rightarrow> ('s \<times> 'i) option" where
  "pick_loop ok score [] best = best"
| "pick_loop ok score (i # is) best =
     (if \<not> ok i then pick_loop ok score is best
      else pick_loop ok score is
        (case best of
           None \<Rightarrow> Some (score i, i)
         | Some (s, _) \<Rightarrow> if score i > s then Some (score i, i) else best))"

text \<open>The clock is read once per instance; \<open>now\<close> gives the reading for each name.\<close>

definition pick :: "(nat list \<Rightarrow> 64 word) \<Rightarrow> InstancePool \<Rightarrow> (ustr \<Rightarrow> nat) \<Rightarrow> ustr \<Rightarrow> VpnInstance option" where
  "pick xxh3 p now session_id =
     map_option snd (pick_loop (\<lambda>i. is_healthy p (now (vi_name i)) (vi_name i))
       (\<lambda>i. rendezvous_hash_seeded xxh3 (seed p) session_id (vi_name i)) (instances p) None)"

text \<open>The record's own reading on creation is overwritten by the second one.\<close>

definition mark_failure :: "InstancePool \<Rightarrow> ustr \<Rightarrow> nat \<Rightarrow> nat \<Rightarrow> InstancePool" where
  "mark_failure p nm now1 now2 =
     (let rec = (case failed p nm of Some r \<Rightarrow> r | None \<Rightarrow> \<lparr>consecutive_fails = 0, last_at = now1\<rparr>);
          rec1 = rec\<lparr>consecutive_fails := saturating_add u32_max (consecutive_fails rec) 1, last_at := now2\<rparr>
      in p\<lparr>failed := (failed p)(nm \<mapsto> rec1)\<rparr>)"

definition mark_success :: "InstancePool \<Rightarrow> ustr \<Rightarrow> InstancePool" where
  "mark_success p nm = p\<lparr>failed := (failed p)(nm := None)\<rparr>"

definition all_failed :: "InstancePool \<Rightarrow> (ustr \<Rightarrow> nat) \<Rightarrow> bool" where
  "all_failed p now =
     (if instances p = [] then True
      else \<not> list_ex (\<lambda>i. is_healthy p (now (vi_name i)) (vi_name i)) (instances p))"

definition healthy_count :: "InstancePool \<Rightarrow> (ustr \<Rightarrow> nat) \<Rightarrow> nat" where
  "healthy_count p now = length (filter (\<lambda>i. is_healthy p (now (vi_name i)) (vi_name i)) (instances p))"

definition pick_by_name :: "InstancePool \<Rightarrow> ustr \<Rightarrow> VpnInstance option" where
  "pick_by_name p nm = find (\<lambda>i. vi_name i = nm) (instances p)"

lemma length_to_le_bytes: "length (to_le_bytes w) = 8"
  by (simp add: to_le_bytes_def)

section \<open>Selection by the highest score\<close>

text \<open>The specification: the first of the eligible instances that no eligible instance beats.\<close>

definition best_at :: "('i \<Rightarrow> bool) \<Rightarrow> ('i \<Rightarrow> 's::linorder) \<Rightarrow> 'i list \<Rightarrow> 'i \<Rightarrow> bool" where
  "best_at ok score is i \<longleftrightarrow> (\<exists>us vs. is = us @ i # vs \<and> ok i \<and> (\<forall>j \<in> set us. ok j \<longrightarrow> score j < score i) \<and>
     (\<forall>j \<in> set vs. ok j \<longrightarrow> score j \<le> score i))"

lemma best_at_unique:
  assumes "best_at ok score insts i" "best_at ok score insts j"
  shows "i = j"
proof -
  obtain us vs us' vs' where d: "insts = us @ i # vs" "ok i" "\<forall>k \<in> set us. ok k \<longrightarrow> score k < score i"
      "\<forall>k \<in> set vs. ok k \<longrightarrow> score k \<le> score i"
      "insts = us' @ j # vs'" "ok j" "\<forall>k \<in> set us'. ok k \<longrightarrow> score k < score j"
      "\<forall>k \<in> set vs'. ok k \<longrightarrow> score k \<le> score j"
    using assms unfolding best_at_def by blast
  then consider "us = us'" | "i \<in> set us'" "j \<in> set vs" | "j \<in> set us" "i \<in> set vs'"
    by (auto simp: append_eq_append_conv2 append_eq_Cons_conv Cons_eq_append_conv)
  then show ?thesis using d by cases (auto simp: not_less [symmetric])
qed

lemma best_at_mono:
  assumes "best_at ok score xs i" "ok' i" "\<forall>j \<in> set xs. ok' j \<longrightarrow> ok j \<or> score j < score i"
  shows "best_at ok' score xs i"
proof -
  obtain us vs where d: "xs = us @ i # vs" "\<forall>j \<in> set us. ok j \<longrightarrow> score j < score i"
    "\<forall>j \<in> set vs. ok j \<longrightarrow> score j \<le> score i"
    using assms(1) unfolding best_at_def by blast
  have "score j < score i" if "j \<in> set us" "ok' j" for j using that assms(3) d by auto
  moreover have "score j \<le> score i" if "j \<in> set vs" "ok' j" for j using that assms(3) d by force
  ultimately show ?thesis unfolding best_at_def using d(1) assms(2) by blast
qed

lemma pick_loop_snoc:
  "pick_loop ok score (insts @ [i]) best =
     (let r = pick_loop ok score insts best in
      if \<not> ok i then r
      else case r of None \<Rightarrow> Some (score i, i) | Some (s, _) \<Rightarrow> if score i > s then Some (score i, i) else r)"
  by (induction insts arbitrary: best) simp_all

lemma pick_loop_best:
  "case pick_loop ok score insts None of
     None \<Rightarrow> \<forall>i \<in> set insts. \<not> ok i
   | Some (s, i) \<Rightarrow> s = score i \<and> best_at ok score insts i"
proof (induction insts rule: rev_induct)
  case (snoc x xs)
  show ?case
  proof (cases "pick_loop ok score xs None")
    case None
    then have "\<forall>i \<in> set xs. \<not> ok i" using snoc by simp
    then have "best_at ok score (xs @ [x]) x" if "ok x"
      unfolding best_at_def using that by (intro exI [of _ xs] exI [of _ "[]"]) simp
    then show ?thesis using None \<open>\<forall>i \<in> set xs. \<not> ok i\<close> by (simp add: pick_loop_snoc)
  next
    case (Some si)
    obtain s i where si: "si = (s, i)" by (cases si)
    with Some snoc obtain us vs where d: "s = score i" "xs = us @ i # vs" "ok i"
      "\<forall>j \<in> set us. ok j \<longrightarrow> score j < score i" "\<forall>j \<in> set vs. ok j \<longrightarrow> score j \<le> score i"
      by (auto simp: best_at_def)
    have le: "score j \<le> score i" if "j \<in> set xs" "ok j" for j
      using that d(2,4,5) less_imp_le by (auto simp del: not_less)
    have "best_at ok score (xs @ [x]) x" if "ok x" "score i < score x"
    proof -
      have "\<forall>j \<in> set xs. ok j \<longrightarrow> score j < score x" using le that(2) order.strict_trans1 by blast
      then show ?thesis unfolding best_at_def using that(1) by (intro exI [of _ xs] exI [of _ "[]"]) simp
    qed
    moreover have "best_at ok score (xs @ [x]) i" if "ok x \<longrightarrow> \<not> score i < score x"
      unfolding best_at_def using d that by (rule_tac exI [of _ us], rule_tac exI [of _ "vs @ [x]"]) (simp add: not_less)
    ultimately show ?thesis using Some si d(1) by (auto simp: pick_loop_snoc Let_def)
  qed
qed simp

lemma pick_loop_iff:
  "map_option snd (pick_loop ok score xs None) = Some i \<longleftrightarrow> best_at ok score xs i"
  "map_option snd (pick_loop ok score xs None) = None \<longleftrightarrow> (\<forall>i \<in> set xs. \<not> ok i)"
proof -
  have some: "\<exists>i \<in> set xs. ok i" if "best_at ok score xs i" for i
    using that unfolding best_at_def by fastforce
  show "map_option snd (pick_loop ok score xs None) = Some i \<longleftrightarrow> best_at ok score xs i"
    using pick_loop_best [where ok = ok and score = score and insts = xs] some best_at_unique [of ok score xs]
    by (cases "pick_loop ok score xs None") auto
  show "map_option snd (pick_loop ok score xs None) = None \<longleftrightarrow> (\<forall>i \<in> set xs. \<not> ok i)"
    using pick_loop_best [where ok = ok and score = score and insts = xs] some by (cases "pick_loop ok score xs None") auto
qed

abbreviation eligible :: "InstancePool \<Rightarrow> (ustr \<Rightarrow> nat) \<Rightarrow> VpnInstance \<Rightarrow> bool" where
  "eligible p now i \<equiv> is_healthy p (now (vi_name i)) (vi_name i)"

abbreviation score_of :: "(nat list \<Rightarrow> 64 word) \<Rightarrow> InstancePool \<Rightarrow> ustr \<Rightarrow> VpnInstance \<Rightarrow> 64 word" where
  "score_of xxh3 p sess i \<equiv> rendezvous_hash_seeded xxh3 (seed p) sess (vi_name i)"

lemma pick_iff:
  "pick xxh3 p now sess = Some i \<longleftrightarrow> best_at (eligible p now) (score_of xxh3 p sess) (instances p) i"
  and pick_None: "pick xxh3 p now sess = None \<longleftrightarrow> (\<forall>i \<in> set (instances p). \<not> eligible p now i)"
  unfolding pick_def by (rule pick_loop_iff)+

section \<open>Properties\<close>

text \<open>
  Selection is rendezvous hashing, failing closed: the pool picks an instance exactly when it is the
  first healthy one whose score no healthy instance beats, it picks none exactly when every instance
  is excluded, and the two signals the caller uses agree with that.
\<close>

lemma pick_is_hrw:
  "(pick xxh3 p now sess = Some i \<longleftrightarrow> best_at (eligible p now) (score_of xxh3 p sess) (instances p) i) \<and>
   (pick xxh3 p now sess = None \<longleftrightarrow> all_failed p now) \<and> (healthy_count p now = 0 \<longleftrightarrow> all_failed p now)"
  by (auto simp: pick_iff pick_None all_failed_def healthy_count_def list_ex_iff filter_empty_conv)

text \<open>
  Sessions are sticky: a session keeps its instance as long as that instance stays healthy, whatever
  other instances fail; and recovering instances move it only when they beat its score.
\<close>

lemma pick_sticky:
  assumes "pick xxh3 p now sess = Some i"
    and "instances q = instances p" "seed q = seed p"
    and "eligible q now' i"
    and "\<forall>j \<in> set (instances p). eligible q now' j \<longrightarrow> eligible p now j \<or> score_of xxh3 p sess j < score_of xxh3 p sess i"
  shows "pick xxh3 q now' sess = Some i"
  using best_at_mono [of "eligible p now" "score_of xxh3 p sess" "instances p" i "eligible q now'"] assms
  by (simp add: pick_iff)

subsection \<open>Eviction and recovery\<close>

datatype mark = Failure ustr nat nat | Success ustr

fun apply_mark :: "mark \<Rightarrow> InstancePool \<Rightarrow> InstancePool" where
  "apply_mark (Failure nm t1 t2) p = mark_failure p nm t1 t2"
| "apply_mark (Success nm) p = mark_success p nm"

text \<open>The abstract view of a name: the times of its failures since its last success.\<close>

fun streak_step :: "ustr \<Rightarrow> mark \<Rightarrow> nat list \<Rightarrow> nat list" where
  "streak_step nm (Failure k t1 t2) ts = (if k = nm then ts @ [t2] else ts)"
| "streak_step nm (Success k) ts = (if k = nm then [] else ts)"

definition streak :: "ustr \<Rightarrow> mark list \<Rightarrow> nat list" where
  "streak nm ms = fold (streak_step nm) ms []"

definition record_of :: "nat list \<Rightarrow> FailureRecord option" where
  "record_of ts = (if ts = [] then None else Some \<lparr>consecutive_fails = min u32_max (length ts), last_at = last ts\<rparr>)"

lemma apply_mark_refines:
  assumes "failed p nm = record_of ts"
  shows "failed (apply_mark m p) nm = record_of (streak_step nm m ts)"
  using assms by (cases m) (auto simp: mark_failure_def mark_success_def record_of_def saturating_add_def Let_def)

lemma apply_mark_policy: "pool_policy (apply_mark m p) = pool_policy p" "instances (apply_mark m p) = instances p"
  by (cases m; simp add: mark_failure_def mark_success_def Let_def)+

lemma marks_refine:
  "failed p nm = record_of ts \<Longrightarrow> failed (fold apply_mark ms p) nm = record_of (fold (streak_step nm) ms ts) \<and>
     pool_policy (fold apply_mark ms p) = pool_policy p"
  by (induction ms arbitrary: p ts) (auto simp: apply_mark_refines apply_mark_policy)

text \<open>
  Eviction and recovery: after any sequence of reported failures and successes of all instances, an
  instance is excluded exactly when it failed at least the threshold number of times since its last
  success and the cooldown since its last failure has not passed.
\<close>

lemma healthy_iff_streak:
  assumes "threshold pol \<le> u32_max" "p = fold apply_mark ms (with_failure_policy insts pol)"
  shows "is_healthy p now nm \<longleftrightarrow> streak nm ms = [] \<or> length (streak nm ms) < threshold pol \<or>
    cooldown pol \<le> now - last (streak nm ms)"
proof -
  have "failed p nm = record_of (streak nm ms)" "pool_policy p = pol"
    using marks_refine [of "with_failure_policy insts pol" nm "[]" ms] assms(2)
    by (simp_all add: with_failure_policy_def record_of_def streak_def)
  then show ?thesis using assms(1) by (auto simp: is_healthy_def record_of_def)
qed

subsection \<open>Independent scores\<close>

lemma separator_split:
  assumes "xs @ [b] @ ys = us @ [b] @ vs" "b \<notin> set xs" "b \<notin> set us"
  shows "xs = us \<and> ys = vs"
  using assms by (induction xs arbitrary: us) (auto simp: Cons_eq_append_conv append_eq_Cons_conv)

text \<open>
  Scores of different pairs come from different hash inputs: under one seed, the byte strings hashed
  for two (session, instance) pairs are equal only for equal pairs, whatever the two names contain,
  because the separator byte occurs in no UTF-8 text.
\<close>

lemma hash_input_injective:
  assumes "\<forall>c \<in> set (key @ nm @ key' @ nm'). scalar c"
  shows "hash_input s key nm = hash_input s key' nm' \<longleftrightarrow> key = key' \<and> nm = nm'"
proof
  assume "hash_input s key nm = hash_input s key' nm'"
  then have "as_bytes nm @ [0xff] @ as_bytes key = as_bytes nm' @ [0xff] @ as_bytes key'"
    by (simp add: hash_input_def)
  moreover have "0xff \<notin> set (as_bytes nm)" "0xff \<notin> set (as_bytes nm')"
    using as_bytes_below [of nm "0xff"] as_bytes_below [of nm' "0xff"] assms by auto
  ultimately have "as_bytes nm = as_bytes nm' \<and> as_bytes key = as_bytes key'" by (rule separator_split)
  then show "key = key' \<and> nm = nm'" using assms by (simp add: as_bytes_inject)
qed simp

end
