(* ===== verification/Proxy_Config.thy ===== *)
theory Proxy_Config
  imports Config_Loader Instance_Pool
begin

text \<open>
  Proxy routing configuration (\<^verbatim>\<open>crates/vpn-rotate/src/proxy_resolver.rs\<close>, the data types and the
  load-time half): named proxy tiers are read from the policy, their URLs are checked for literal
  secrets and completed from the environment, the built-in tiers are added, and the authorized
  targets are validated against them.

  The URL library, the regular-expression engine for patterns the user writes, the TOML reader and the
  file system are parameters; the fixed regular expressions of the code are written out as scanners.
  \<^verbatim>\<open>BTreeMap\<close> is an association list in key order, and \<open>env\<close> is what \<^verbatim>\<open>std::env::var\<close> answers.
  The policy type of this crate is \<open>ResolverPolicy\<close>, as its client names it.
\<close>

section \<open>Definitions\<close>

subsection \<open>The URL library\<close>

record 'u url_lib =
  parse_url :: "ustr \<Rightarrow> ustr + 'u"
  as_str :: "'u \<Rightarrow> ustr"
  host_str :: "'u \<Rightarrow> ustr option"
  url_scheme :: "'u \<Rightarrow> ustr"
  url_username :: "'u \<Rightarrow> ustr"
  url_password :: "'u \<Rightarrow> ustr option"
  with_username :: "'u \<Rightarrow> ustr \<Rightarrow> 'u"
  with_password :: "'u \<Rightarrow> ustr option \<Rightarrow> 'u"

subsection \<open>Data\<close>

datatype ProxyKind = PK_None | PK_Http | PK_Socks5 | PK_HttpPool

datatype ProxyStrength = PS_None | Datacenter | Residential | Mobile

datatype FailSignal = Timeout | Http403 | Http429 | TlsHandshakeFailed | ConnectionRefused

datatype SelectionSource = Explicit | RecipeRecommendation | AutoFallback nat

record 'u ProxySelection =
  ps_tier_name :: ustr
  ps_proxy_kind :: ProxyKind
  ps_proxy_url :: "'u option"
  ps_no_proxy :: "ustr list"
  ps_strength :: ProxyStrength
  ps_from_session_cache :: bool
  ps_source :: SelectionSource
  ps_pool_healthy_count :: "nat option"

datatype ProxyResolverError =
    ReadError ustr ustr
  | ParseToml ustr ustr
  | SecretUrl ustr ustr
  | MissingEnv ustr ustr
  | InvalidUrl ustr ustr
  | ReservedAutoTier
  | MissingUrl ustr ProxyKind
  | InvalidInstancesFrom ustr
  | UnexpectedInstancesFrom ustr ProxyKind
  | UnsupportedPerRequestRotation ustr
  | UnknownAuthorizedTier ustr ustr
  | TierBelowRequiredStrength ustr ustr ProxyStrength ProxyStrength

datatype ResolveError =
    NoAuthorizedMatch ustr
  | UnknownTier ustr
  | TierBelowFloor ustr ProxyStrength ProxyStrength
  | TierUnavailable ustr ustr
  | NoEligibleTier ustr

record BlacklistEntry =
  be_name :: ustr
  age_days :: nat

record RecipeLookup =
  proxy_tier_recommended :: "ustr \<Rightarrow> ustr option"
  proxy_tier_blacklist :: "ustr \<Rightarrow> BlacklistEntry list"

datatype RotationMode = PerRequest | PerSession | Sticky

record RawTierConfig =
  raw_kind :: ProxyKind
  raw_url :: "ustr option"
  raw_instances_from :: "ustr option"
  raw_auth_env :: "ustr list"
  raw_no_proxy :: "ustr list"
  raw_rotation :: RotationMode
  raw_country_filter :: "ustr list"
  raw_enabled_by_default :: bool
  raw_strength :: ProxyStrength

datatype TierState = Ready | Disabled ustr

record 'u TierConfig =
  kind :: ProxyKind
  proxy_url :: "'u option"
  instances_from :: "ustr option"
  auth_env :: "ustr list"
  no_proxy :: "ustr list"
  rotation :: RotationMode
  country_filter :: "ustr list"
  strength :: ProxyStrength
  enabled_by_default :: bool
  state :: TierState

record FallbackChain =
  auto_chain :: "ustr list"
  fail_signals :: "FailSignal list"
  max_attempts_per_tier :: nat
  cooldown_ms_between_tiers :: nat
  blacklist_ttl_days :: nat

record VpnInstanceRef =
  vr_name :: ustr
  vr_http_proxy_port :: "16 word"
  vr_control_port :: "16 word"

record ResolverPolicy =
  rp_require_vpn :: bool
  rp_vpn_required_country :: "ustr option"
  rp_vpn_instances :: "VpnInstanceRef list"
  rp_proxies :: "(ustr \<times> RawTierConfig) list"
  rp_fallback_chain :: FallbackChain

record AuthorizedTarget =
  url_pattern :: ustr
  proxy_tier :: ustr
  min_proxy_strength :: ProxyStrength

record AuthorizedTargets =
  targets :: "AuthorizedTarget list"

record 'u ProxyResolver =
  policy_proxies :: "(ustr \<times> 'u TierConfig) list"
  authorized :: AuthorizedTargets
  fallback_chain :: FallbackChain
  surfshark_pool :: "InstancePool option"
  require_vpn :: bool
  recipe_lookup :: "RecipeLookup option"

subsection \<open>The order of strengths\<close>

fun rank :: "ProxyStrength \<Rightarrow> nat" where
  "rank PS_None = 0"
| "rank Datacenter = 1"
| "rank Residential = 2"
| "rank Mobile = 3"

lemma rank_inject: "rank a = rank b \<longleftrightarrow> a = b"
  by (cases a; cases b) simp_all

instantiation ProxyStrength :: linorder
begin

definition less_eq_ProxyStrength :: "ProxyStrength \<Rightarrow> ProxyStrength \<Rightarrow> bool" where
  "less_eq_ProxyStrength a b \<longleftrightarrow> rank a \<le> rank b"

definition less_ProxyStrength :: "ProxyStrength \<Rightarrow> ProxyStrength \<Rightarrow> bool" where
  "less_ProxyStrength a b \<longleftrightarrow> rank a < rank b"

instance
  by standard (auto simp: less_eq_ProxyStrength_def less_ProxyStrength_def rank_inject)

end

subsection \<open>Defaults\<close>

definition default_require_vpn :: bool where
  "default_require_vpn = True"

definition default_proxy_tier :: ustr where
  "default_proxy_tier = lit ''auto''"

definition default_enabled_by_default :: bool where
  "default_enabled_by_default = True"

definition default_fallback_auto :: "ustr list" where
  "default_fallback_auto = [lit ''direct'', lit ''surfshark'']"

definition default_fail_signals :: "FailSignal list" where
  "default_fail_signals = [Timeout, Http403, Http429, TlsHandshakeFailed, ConnectionRefused]"

definition default_max_attempts_per_tier :: nat where
  "default_max_attempts_per_tier = 1"

definition default_cooldown_ms_between_tiers :: nat where
  "default_cooldown_ms_between_tiers = 250"

definition default_blacklist_ttl_days :: nat where
  "default_blacklist_ttl_days = 14"

definition FallbackChain_default :: FallbackChain where
  "FallbackChain_default =
     \<lparr>auto_chain = default_fallback_auto, fail_signals = default_fail_signals,
      max_attempts_per_tier = default_max_attempts_per_tier,
      cooldown_ms_between_tiers = default_cooldown_ms_between_tiers,
      blacklist_ttl_days = default_blacklist_ttl_days\<rparr>"

definition ResolverPolicy_default :: ResolverPolicy where
  "ResolverPolicy_default =
     \<lparr>rp_require_vpn = default_require_vpn, rp_vpn_required_country = None, rp_vpn_instances = [],
      rp_proxies = [], rp_fallback_chain = FallbackChain_default\<rparr>"

definition VpnInstance_from :: "VpnInstanceRef \<Rightarrow> VpnInstance" where
  "VpnInstance_from v =
     \<lparr>vi_name = vr_name v, http_proxy_port = vr_http_proxy_port v, control_port = vr_control_port v\<rparr>"

text \<open>A file is missing, unreadable with a reason, or readable with its text.\<close>

definition ResolverPolicy_from_toml_str ::
  "(ustr \<Rightarrow> ustr + ResolverPolicy) \<Rightarrow> ustr \<Rightarrow> ustr \<Rightarrow> ProxyResolverError + ResolverPolicy" where
  "ResolverPolicy_from_toml_str toml raw path = map_sum (ParseToml path) id (toml raw)"

definition ResolverPolicy_load_from ::
  "(ustr \<Rightarrow> ustr + ResolverPolicy) \<Rightarrow> (ustr \<Rightarrow> (ustr + ustr) option) \<Rightarrow> ustr \<Rightarrow> ProxyResolverError + ResolverPolicy" where
  "ResolverPolicy_load_from toml fs path =
     (case fs path of
        None \<Rightarrow> Inr ResolverPolicy_default
      | Some (Inl e) \<Rightarrow> Inl (ReadError path e)
      | Some (Inr body) \<Rightarrow> ResolverPolicy_from_toml_str toml body path)"

definition AuthorizedTargets_default :: AuthorizedTargets where
  "AuthorizedTargets_default = \<lparr>targets = []\<rparr>"

definition AuthorizedTargets_from_toml_str ::
  "(ustr \<Rightarrow> ustr + AuthorizedTargets) \<Rightarrow> ustr \<Rightarrow> ustr \<Rightarrow> ProxyResolverError + AuthorizedTargets" where
  "AuthorizedTargets_from_toml_str toml raw path = map_sum (ParseToml path) id (toml raw)"

definition AuthorizedTargets_load_from ::
  "(ustr \<Rightarrow> ustr + AuthorizedTargets) \<Rightarrow> (ustr \<Rightarrow> (ustr + ustr) option) \<Rightarrow> ustr \<Rightarrow> ProxyResolverError + AuthorizedTargets" where
  "AuthorizedTargets_load_from toml fs path =
     (case fs path of
        None \<Rightarrow> Inr AuthorizedTargets_default
      | Some (Inl e) \<Rightarrow> Inl (ReadError path e)
      | Some (Inr body) \<Rightarrow> AuthorizedTargets_from_toml_str toml body path)"

interpretation resolver_policy: config_loader ResolverPolicy_load_from ResolverPolicy_default
  by unfold_locales (simp_all add: ResolverPolicy_load_from_def ResolverPolicy_from_toml_str_def)

interpretation authorized_targets: config_loader AuthorizedTargets_load_from AuthorizedTargets_default
  by unfold_locales (simp_all add: AuthorizedTargets_load_from_def AuthorizedTargets_from_toml_str_def)

subsection \<open>Placeholders\<close>

definition upper_snake :: "uchar \<Rightarrow> bool" where
  "upper_snake c = (65 \<le> c \<and> c \<le> 90 \<or> 48 \<le> c \<and> c \<le> 57 \<or> c = 95)"

text \<open>A match of \<^verbatim>\<open>\$\{([A-Z0-9_]+)\}\<close> at the start of the text: the variable and the rest.\<close>

definition placeholder_at :: "ustr \<Rightarrow> (ustr \<times> ustr) option" where
  "placeholder_at s =
     (case strip_prefix s [36, 123] of
        None \<Rightarrow> None
      | Some r \<Rightarrow>
          (case dropWhile upper_snake r of
             c # rest \<Rightarrow> if c = 125 \<and> takeWhile upper_snake r \<noteq> [] then Some (takeWhile upper_snake r, rest) else None
           | [] \<Rightarrow> None))"

lemma placeholder_at_shorter: "placeholder_at s = Some (v, r) \<Longrightarrow> length r < length s"
proof -
  assume a: "placeholder_at s = Some (v, r)"
  then obtain t where t: "s = [36, 123] @ t" "dropWhile upper_snake t = 125 # r"
    by (auto simp: placeholder_at_def strip_prefix_def prefix_def split: option.splits list.splits if_splits)
  then have "length (125 # r) \<le> length t" by (metis length_dropWhile_le)
  then show ?thesis using t(1) by simp
qed

text \<open>The leftmost matches of the expression, and the characters between them.\<close>

datatype piece = Chr uchar | Var ustr

function pieces :: "ustr \<Rightarrow> piece list" where
  "pieces s =
     (case placeholder_at s of
        Some (v, r) \<Rightarrow> Var v # pieces r
      | None \<Rightarrow> (case s of [] \<Rightarrow> [] | c # r \<Rightarrow> Chr c # pieces r))"
  by pat_completeness auto
termination
  by (relation "measure length") (auto dest: placeholder_at_shorter)

declare pieces.simps [simp del]

definition push_unique :: "'a list \<Rightarrow> 'a \<Rightarrow> 'a list" where
  "push_unique xs x = (if list_ex (\<lambda>y. y = x) xs then xs else xs @ [x])"

fun var_names :: "piece list \<Rightarrow> ustr list" where
  "var_names [] = []"
| "var_names (Chr c # ps) = var_names ps"
| "var_names (Var v # ps) = v # var_names ps"

definition placeholder_vars :: "ustr \<Rightarrow> ustr list" where
  "placeholder_vars raw = foldl push_unique [] (var_names (pieces raw))"

fun subst_piece :: "(ustr \<times> ustr) list \<Rightarrow> piece \<Rightarrow> ustr" where
  "subst_piece vals (Chr c) = [c]"
| "subst_piece vals (Var v) = (case map_of vals v of Some x \<Rightarrow> x | None \<Rightarrow> [])"

definition interpolate_env_once :: "ustr \<Rightarrow> (ustr \<times> ustr) list \<Rightarrow> ustr" where
  "interpolate_env_once raw vals = concat (map (subst_piece vals) (pieces raw))"

record EnvValues =
  ev_values :: "(ustr \<times> ustr) list"
  ev_missing :: "ustr list"

fun env_loop :: "(ustr \<Rightarrow> ustr option) \<Rightarrow> ustr list \<Rightarrow> EnvValues \<Rightarrow> EnvValues" where
  "env_loop env [] acc = acc"
| "env_loop env (v # vs) acc =
     env_loop env vs
       (case env v of
          Some x \<Rightarrow> if x \<noteq> [] then acc\<lparr>ev_values := bt_insert v x (ev_values acc)\<rparr>
                    else acc\<lparr>ev_missing := ev_missing acc @ [v]\<rparr>
        | None \<Rightarrow> acc\<lparr>ev_missing := ev_missing acc @ [v]\<rparr>)"

definition load_env_values :: "(ustr \<Rightarrow> ustr option) \<Rightarrow> ustr \<Rightarrow> ustr list \<Rightarrow> EnvValues" where
  "load_env_values env raw_u auth =
     env_loop env (foldl push_unique (placeholder_vars raw_u) auth) \<lparr>ev_values = [], ev_missing = []\<rparr>"

subsection \<open>Literal secrets\<close>

definition ascii_alpha :: "uchar \<Rightarrow> bool" where
  "ascii_alpha c = (65 \<le> c \<and> c \<le> 90 \<or> 97 \<le> c \<and> c \<le> 122)"

definition scheme_char :: "uchar \<Rightarrow> bool" where
  "scheme_char c = (ascii_alpha c \<or> is_digit c \<or> c \<in> {43, 46, 45})"

definition userinfo_char :: "uchar \<Rightarrow> bool" where
  "userinfo_char c = (c \<notin> {47, 63, 35, 64})"

text \<open>The capture of \<^verbatim>\<open>^[A-Za-z][A-Za-z0-9+.-]*://([^/?#@]*)@\<close>.\<close>

definition userinfo_of :: "ustr \<Rightarrow> ustr option" where
  "userinfo_of raw =
     (case raw of
        [] \<Rightarrow> None
      | c # r \<Rightarrow>
          if \<not> ascii_alpha c then None
          else case strip_prefix (dropWhile scheme_char r) (lit ''://'') of
              None \<Rightarrow> None
            | Some a \<Rightarrow>
                (case dropWhile userinfo_char a of
                   d # _ \<Rightarrow> if d = 64 then Some (takeWhile userinfo_char a) else None
                 | [] \<Rightarrow> None))"

text \<open>\<^verbatim>\<open>^\$\{[A-Z0-9_]+\}$\<close>.\<close>

definition is_placeholder :: "ustr \<Rightarrow> bool" where
  "is_placeholder s = (case placeholder_at s of Some (_, r) \<Rightarrow> r = [] | None \<Rightarrow> False)"

definition validate_url_secret_shape :: "ustr \<Rightarrow> ustr + unit" where
  "validate_url_secret_shape raw =
     (case userinfo_of raw of
        None \<Rightarrow> Inr ()
      | Some userinfo \<Rightarrow>
          if userinfo = [] then Inr ()
          else case split_once 58 userinfo of (user, pass) \<Rightarrow>
            if user \<noteq> [] \<and> \<not> is_placeholder user
            then Inl (lit ''userinfo username must be exactly ${UPPER_SNAKE_123}'')
            else case pass of
                Some p \<Rightarrow>
                  if p \<noteq> [] \<and> \<not> is_placeholder p
                  then Inl (lit ''userinfo password must be exactly ${UPPER_SNAKE_123}'')
                  else Inr ()
              | None \<Rightarrow> Inr ())"

definition redacted_url :: "'u url_lib \<Rightarrow> 'u \<Rightarrow> ustr" where
  "redacted_url U url =
     (if url_username U url = [] \<and> url_password U url = None then as_str U url
      else as_str U (with_password U (with_username U url (lit ''***'')) (Some (lit ''***''))))"

subsection \<open>Loading\<close>

definition ready_tier :: "RawTierConfig \<Rightarrow> 'u option \<Rightarrow> 'u TierConfig" where
  "ready_tier raw u =
     \<lparr>kind = raw_kind raw, proxy_url = u, instances_from = raw_instances_from raw, auth_env = raw_auth_env raw,
      no_proxy = raw_no_proxy raw, rotation = raw_rotation raw, country_filter = raw_country_filter raw,
      strength = raw_strength raw, enabled_by_default = raw_enabled_by_default raw, state = Ready\<rparr>"

definition disabled_tier :: "RawTierConfig \<Rightarrow> ustr \<Rightarrow> 'u TierConfig" where
  "disabled_tier raw reason =
     \<lparr>kind = raw_kind raw, proxy_url = None, instances_from = raw_instances_from raw, auth_env = raw_auth_env raw,
      no_proxy = raw_no_proxy raw, rotation = raw_rotation raw, country_filter = raw_country_filter raw,
      strength = raw_strength raw, enabled_by_default = raw_enabled_by_default raw, state = Disabled reason\<rparr>"

definition direct_tier :: "'u TierConfig" where
  "direct_tier =
     \<lparr>kind = PK_None, proxy_url = None, instances_from = None, auth_env = [], no_proxy = [],
      rotation = PerSession, country_filter = [], strength = PS_None, enabled_by_default = True, state = Ready\<rparr>"

definition surfshark_tier :: "'u TierConfig" where
  "surfshark_tier =
     \<lparr>kind = PK_HttpPool, proxy_url = None, instances_from = Some (lit ''policy.vpn_instances''), auth_env = [],
      no_proxy = [], rotation = PerSession, country_filter = [], strength = Datacenter,
      enabled_by_default = True, state = Ready\<rparr>"

text \<open>What both branches that read the environment do with its answer.\<close>

definition missing_env :: "ustr \<Rightarrow> RawTierConfig \<Rightarrow> ustr list \<Rightarrow> ProxyResolverError + 'u TierConfig" where
  "missing_env name raw missing =
     (if raw_enabled_by_default raw then Inl (MissingEnv name (hd missing))
      else Inr (disabled_tier raw (lit ''missing env '' @ intersperse_concat (lit '','') missing)))"

definition resolve_tier ::
  "'u url_lib \<Rightarrow> (ustr \<Rightarrow> ustr option) \<Rightarrow> ustr \<Rightarrow> RawTierConfig \<Rightarrow> ProxyResolverError + 'u TierConfig" where
  "resolve_tier U env name raw =
     (if raw_rotation raw = PerRequest then Inl (UnsupportedPerRequestRotation name)
      else case raw_kind raw of
        PK_HttpPool \<Rightarrow>
          if raw_instances_from raw \<noteq> Some (lit ''policy.vpn_instances'') then Inl (InvalidInstancesFrom name)
          else Inr (ready_tier raw None)
      | PK_None \<Rightarrow>
          if raw_instances_from raw \<noteq> None then Inl (UnexpectedInstancesFrom name (raw_kind raw))
          else let ev = load_env_values env [] (raw_auth_env raw) in
            if ev_missing ev \<noteq> [] then missing_env name raw (ev_missing ev)
            else Inr (ready_tier raw None)
      | _ \<Rightarrow>
          (case raw_url raw of
             None \<Rightarrow> Inl (MissingUrl name (raw_kind raw))
           | Some ru \<Rightarrow>
               and_then (map_sum (SecretUrl name) id (validate_url_secret_shape ru)) (\<lambda>_.
               let ev = load_env_values env ru (raw_auth_env raw) in
               if ev_missing ev \<noteq> [] then missing_env name raw (ev_missing ev)
               else and_then (map_sum (InvalidUrl name) id (parse_url U (interpolate_env_once ru (ev_values ev))))
                 (\<lambda>u. Inr (ready_tier raw (Some u))))))"

fun load_tiers :: "'u url_lib \<Rightarrow> (ustr \<Rightarrow> ustr option) \<Rightarrow> (ustr \<times> RawTierConfig) list \<Rightarrow>
  (ustr \<times> 'u TierConfig) list \<Rightarrow> ProxyResolverError + (ustr \<times> 'u TierConfig) list" where
  "load_tiers U env [] acc = Inr acc"
| "load_tiers U env ((name, raw) # rest) acc =
     and_then (resolve_tier U env name raw) (\<lambda>tier. load_tiers U env rest (bt_insert name tier acc))"

definition or_insert :: "'k::linorder \<Rightarrow> 'v \<Rightarrow> ('k \<times> 'v) list \<Rightarrow> ('k \<times> 'v) list" where
  "or_insert k v m = (case map_of m k of Some _ \<Rightarrow> m | None \<Rightarrow> bt_insert k v m)"

definition ensure_builtin_tiers ::
  "ResolverPolicy \<Rightarrow> (ustr \<times> 'u TierConfig) list \<Rightarrow> (ustr \<times> 'u TierConfig) list" where
  "ensure_builtin_tiers policy m =
     (let m1 = or_insert (lit ''direct'') direct_tier m in
      if rp_vpn_instances policy \<noteq> [] then or_insert (lit ''surfshark'') surfshark_tier m1 else m1)"

fun validate_targets :: "(ustr \<times> 'u TierConfig) list \<Rightarrow> AuthorizedTarget list \<Rightarrow> ProxyResolverError + unit" where
  "validate_targets m [] = Inr ()"
| "validate_targets m (t # ts) =
     (if proxy_tier t = lit ''auto'' then validate_targets m ts
      else case map_of m (proxy_tier t) of
          None \<Rightarrow> Inl (UnknownAuthorizedTier (url_pattern t) (proxy_tier t))
        | Some tier \<Rightarrow>
            if strength tier < min_proxy_strength t
            then Inl (TierBelowRequiredStrength (url_pattern t) (proxy_tier t) (strength tier) (min_proxy_strength t))
            else validate_targets m ts)"

definition validate_authorized_targets ::
  "AuthorizedTargets \<Rightarrow> (ustr \<times> 'u TierConfig) list \<Rightarrow> ProxyResolverError + unit" where
  "validate_authorized_targets auth m = validate_targets m (targets auth)"

definition ProxyResolver_load :: "'u url_lib \<Rightarrow> (ustr \<Rightarrow> ustr option) \<Rightarrow> ResolverPolicy \<Rightarrow> AuthorizedTargets \<Rightarrow>
  ProxyResolverError + 'u ProxyResolver" where
  "ProxyResolver_load U env policy auth =
     (if map_of (rp_proxies policy) (lit ''auto'') \<noteq> None then Inl ReservedAutoTier
      else and_then (load_tiers U env (rp_proxies policy) []) (\<lambda>loaded.
        let tiers = ensure_builtin_tiers policy loaded in
        and_then (validate_authorized_targets auth tiers) (\<lambda>_.
        Inr \<lparr>policy_proxies = tiers, authorized = auth, fallback_chain = rp_fallback_chain policy,
             surfshark_pool =
               (if rp_vpn_instances policy = [] then None
                else Some (InstancePool_new (map VpnInstance_from (rp_vpn_instances policy)))),
             require_vpn = rp_require_vpn policy, recipe_lookup = None\<rparr>)))"

definition with_recipe_lookup :: "'u ProxyResolver \<Rightarrow> RecipeLookup \<Rightarrow> 'u ProxyResolver" where
  "with_recipe_lookup r l = r\<lparr>recipe_lookup := Some l\<rparr>"

definition with_surfshark_pool :: "'u ProxyResolver \<Rightarrow> InstancePool \<Rightarrow> 'u ProxyResolver" where
  "with_surfshark_pool r p = r\<lparr>surfshark_pool := Some p\<rparr>"

definition tier_strength :: "'u ProxyResolver \<Rightarrow> ustr \<Rightarrow> ProxyStrength option" where
  "tier_strength r name = map_option strength (map_of (policy_proxies r) name)"

section \<open>Interpolation\<close>

fun render :: "piece list \<Rightarrow> ustr" where
  "render [] = []"
| "render (Chr c # ps) = c # render ps"
| "render (Var v # ps) = [36, 123] @ v @ 125 # render ps"

lemma placeholder_at_SomeD:
  assumes "placeholder_at s = Some (v, r)"
  shows "s = [36, 123] @ v @ 125 # r \<and> v \<noteq> [] \<and> (\<forall>c \<in> set v. upper_snake c)"
proof -
  obtain t where t: "s = [36, 123] @ t" "dropWhile upper_snake t = 125 # r" "v = takeWhile upper_snake t" "v \<noteq> []"
    using assms by (auto simp: placeholder_at_def strip_prefix_def prefix_def split: option.splits list.splits if_splits)
  have "t = v @ 125 # r" using t(2,3) by (metis takeWhile_dropWhile_id)
  then show ?thesis using t by (auto dest: set_takeWhileD)
qed

lemma placeholder_atI:
  assumes "v \<noteq> []" "\<forall>c \<in> set v. upper_snake c"
  shows "placeholder_at ([36, 123] @ v @ 125 # r) = Some (v, r)"
proof -
  have "\<not> upper_snake 125" by (simp add: upper_snake_def)
  then show ?thesis using assms
    by (simp add: placeholder_at_def strip_prefix_def dropWhile_append2 takeWhile_append2)
qed

lemma placeholder_at_dollar: "placeholder_at s \<noteq> None \<Longrightarrow> hd s = 36"
  by (auto dest!: placeholder_at_SomeD)

lemma placeholder_at_iff:
  "placeholder_at s = Some (v, r) \<longleftrightarrow> s = [36, 123] @ v @ 125 # r \<and> v \<noteq> [] \<and> (\<forall>c \<in> set v. upper_snake c)"
  using placeholder_at_SomeD placeholder_atI by blast

lemma is_placeholder_iff: "is_placeholder s \<longleftrightarrow> (\<exists>v. s = lit ''${'' @ v @ lit ''}'' \<and> v \<noteq> [] \<and> (\<forall>c \<in> set v. upper_snake c))"
proof -
  have "is_placeholder s \<longleftrightarrow> (\<exists>v. placeholder_at s = Some (v, []))"
    by (auto simp: is_placeholder_def split: option.splits)
  then show ?thesis by (simp add: placeholder_at_iff lit_def)
qed

lemma render_pieces: "render (pieces s) = s"
proof (induction s rule: pieces.induct)
  case (1 s)
  show ?case
  proof (cases "placeholder_at s")
    case None
    then show ?thesis using 1 pieces.simps [of s] by (cases s) simp_all
  next
    case (Some p)
    obtain v r where p: "p = (v, r)" by (cases p)
    then show ?thesis using 1(2) [OF Some p [symmetric]] placeholder_at_SomeD [of s v r] Some pieces.simps [of s] by simp
  qed
qed

lemma pieces_plain: "36 \<notin> set a \<Longrightarrow> pieces (a @ s) = map Chr a @ pieces s"
proof (induction a)
  case (Cons c a)
  then have "placeholder_at ((c # a) @ s) = None" using placeholder_at_dollar [of "(c # a) @ s"] by (cases "placeholder_at ((c # a) @ s)") auto
  then show ?case using Cons pieces.simps [of "(c # a) @ s"] by simp
qed simp

lemma pieces_var:
  assumes "v \<noteq> []" "\<forall>c \<in> set v. upper_snake c"
  shows "pieces ([36, 123] @ v @ 125 # r) = Var v # pieces r"
  using placeholder_atI [OF assms] pieces.simps [of "[36, 123] @ v @ 125 # r"] by simp

lemma pieces_Nil [simp]: "pieces [] = []"
  by (simp add: pieces.simps placeholder_at_def strip_prefix_def)

lemma concat_subst_Chr [simp]: "concat (map (subst_piece vals) (map Chr a)) = a"
  by (induction a) simp_all

text \<open>Substituted values are not scanned again.\<close>

lemma interpolate_single_pass:
  assumes "36 \<notin> set a" "v \<noteq> []" "\<forall>c \<in> set v. upper_snake c"
  shows "interpolate_env_once (a @ [36, 123] @ v @ 125 # r) vals =
    a @ (case map_of vals v of Some x \<Rightarrow> x | None \<Rightarrow> []) @ interpolate_env_once r vals"
  using pieces_plain [OF assms(1), of "[36, 123] @ v @ 125 # r"] pieces_var [OF assms(2,3), of r]
  by (simp add: interpolate_env_once_def del: map_map)

section \<open>The environment\<close>

lemma push_unique_set: "set (foldl push_unique xs ys) = set xs \<union> set ys"
  by (induction ys arbitrary: xs) (auto simp: push_unique_def list_ex_iff)

lemma push_unique_distinct: "distinct xs \<Longrightarrow> distinct (foldl push_unique xs ys)"
  by (induction ys arbitrary: xs) (auto simp: push_unique_def list_ex_iff)

definition env_value :: "(ustr \<Rightarrow> ustr option) \<Rightarrow> ustr \<Rightarrow> ustr" where
  "env_value env v = (case env v of Some x \<Rightarrow> x | None \<Rightarrow> [])"

lemma env_loop_missing:
  "ev_missing (env_loop env vs acc) = ev_missing acc @ filter (\<lambda>v. env_value env v = []) vs"
  by (induction env vs acc rule: env_loop.induct) (auto simp: env_value_def split: option.splits)

lemma env_loop_values:
  "map_of (ev_values (env_loop env vs acc)) v =
     (if v \<in> set vs \<and> env_value env v \<noteq> [] then env v else map_of (ev_values acc) v)"
  by (induction env vs acc rule: env_loop.induct) (auto simp: env_value_def bt_insert_lookup split: option.splits)

lemma var_names_set: "Var v \<in> set ps \<longleftrightarrow> v \<in> set (var_names ps)"
  by (induction ps rule: var_names.induct) auto

text \<open>The text with every placeholder replaced by the value of its variable.\<close>

fun expand_piece :: "(ustr \<Rightarrow> ustr option) \<Rightarrow> piece \<Rightarrow> ustr" where
  "expand_piece env (Chr c) = [c]"
| "expand_piece env (Var v) = env_value env v"

definition expand :: "(ustr \<Rightarrow> ustr option) \<Rightarrow> ustr \<Rightarrow> ustr" where
  "expand env s = concat (map (expand_piece env) (pieces s))"

lemma load_env_complete:
  assumes "ev_missing (load_env_values env ru auth) = []"
  shows "interpolate_env_once ru (ev_values (load_env_values env ru auth)) = expand env ru \<and>
    (\<forall>v \<in> set (var_names (pieces ru)) \<union> set auth. env_value env v \<noteq> [])"
proof -
  let ?vs = "foldl push_unique (placeholder_vars ru) auth"
  have vs: "set ?vs = set (var_names (pieces ru)) \<union> set auth"
    by (simp add: push_unique_set placeholder_vars_def)
  have all: "\<forall>v \<in> set ?vs. env_value env v \<noteq> []"
    using assms by (simp add: load_env_values_def env_loop_missing filter_empty_conv)
  have "subst_piece (ev_values (load_env_values env ru auth)) p = expand_piece env p" if "p \<in> set (pieces ru)" for p
  proof (cases p)
    case (Var v)
    then have "v \<in> set ?vs" using that vs by (simp add: var_names_set)
    then show ?thesis using all Var
      by (auto simp: load_env_values_def env_loop_values env_value_def split: option.splits)
  qed simp
  then have "interpolate_env_once ru (ev_values (load_env_values env ru auth)) = expand env ru"
    by (simp add: interpolate_env_once_def expand_def cong: map_cong)
  then show ?thesis using all vs by simp
qed

section \<open>Literal secrets\<close>

lemma userinfo_iff:
  "userinfo_of raw = Some ui \<longleftrightarrow>
     (\<exists>c sch rest. raw = c # sch @ lit ''://'' @ ui @ lit ''@'' @ rest \<and> ascii_alpha c \<and>
        (\<forall>d \<in> set sch. scheme_char d) \<and> (\<forall>d \<in> set ui. userinfo_char d))"
proof
  assume "userinfo_of raw = Some ui"
  then obtain c r a d rest where h: "raw = c # r" "ascii_alpha c"
      "strip_prefix (dropWhile scheme_char r) (lit ''://'') = Some a" "dropWhile userinfo_char a = 64 # rest"
      "ui = takeWhile userinfo_char a"
    by (auto simp: userinfo_of_def split: list.splits if_splits option.splits)
  have "dropWhile scheme_char r = lit ''://'' @ a"
    using h(3) by (auto simp: strip_prefix_def prefix_def split: if_splits)
  then have r: "r = takeWhile scheme_char r @ lit ''://'' @ a" by (metis takeWhile_dropWhile_id)
  have a: "a = ui @ lit ''@'' @ rest" using h(4,5) takeWhile_dropWhile_id [of userinfo_char a] by (simp add: lit_def)
  have "raw = c # takeWhile scheme_char r @ lit ''://'' @ ui @ lit ''@'' @ rest" using h(1) r a by simp
  moreover have "\<forall>d \<in> set (takeWhile scheme_char r). scheme_char d" "\<forall>d \<in> set ui. userinfo_char d"
    using h(5) by (auto dest: set_takeWhileD)
  ultimately show "\<exists>c sch rest. raw = c # sch @ lit ''://'' @ ui @ lit ''@'' @ rest \<and> ascii_alpha c \<and>
        (\<forall>d \<in> set sch. scheme_char d) \<and> (\<forall>d \<in> set ui. userinfo_char d)"
    using h(2) by blast
next
  assume "\<exists>c sch rest. raw = c # sch @ lit ''://'' @ ui @ lit ''@'' @ rest \<and> ascii_alpha c \<and>
        (\<forall>d \<in> set sch. scheme_char d) \<and> (\<forall>d \<in> set ui. userinfo_char d)"
  then obtain c sch rest where h: "raw = c # sch @ lit ''://'' @ ui @ lit ''@'' @ rest" "ascii_alpha c"
      "\<forall>d \<in> set sch. scheme_char d" "\<forall>d \<in> set ui. userinfo_char d" by blast
  have s: "dropWhile scheme_char (sch @ lit ''://'' @ ui @ lit ''@'' @ rest) = lit ''://'' @ ui @ lit ''@'' @ rest"
    by (rule dropWhile_front) (use h(3) in \<open>simp_all add: lit_def scheme_char_def ascii_alpha_def is_digit_def\<close>)
  have d: "dropWhile userinfo_char (ui @ lit ''@'' @ rest) = lit ''@'' @ rest"
    by (rule dropWhile_front) (use h(4) in \<open>simp_all add: lit_def userinfo_char_def\<close>)
  have t: "takeWhile userinfo_char (ui @ lit ''@'' @ rest) = ui"
    using h(4) by (simp add: takeWhile_append2 lit_def userinfo_char_def)
  have "strip_prefix (lit ''://'' @ ui @ lit ''@'' @ rest) (lit ''://'') = Some (ui @ lit ''@'' @ rest)"
    by (simp add: strip_prefix_def)
  then show "userinfo_of raw = Some ui" using h(1,2) s d t
    by (simp add: userinfo_of_def) (simp add: lit_def)
qed

text \<open>Credentials are templated when user name and password are empty or single placeholders.\<close>

definition templated :: "ustr \<Rightarrow> bool" where
  "templated s \<longleftrightarrow> s = [] \<or> is_placeholder s"

definition templated_userinfo :: "ustr \<Rightarrow> bool" where
  "templated_userinfo ui \<longleftrightarrow>
     (case split_once 58 ui of (u, None) \<Rightarrow> templated u | (u, Some p) \<Rightarrow> templated u \<and> templated p)"

lemma secret_shape_iff:
  "validate_url_secret_shape raw = Inr () \<longleftrightarrow>
     (case userinfo_of raw of None \<Rightarrow> True | Some ui \<Rightarrow> templated_userinfo ui)"
  by (auto simp: validate_url_secret_shape_def templated_userinfo_def templated_def split: option.splits prod.splits if_splits)

section \<open>What loading guarantees\<close>

text \<open>
  The invariant of a resolver: the reserved name is free, the direct tier exists, a ready tier has a URL
  exactly when its kind needs one, and every authorized target names a declared tier strong enough
  for it.
\<close>

definition tier_ok :: "'u TierConfig \<Rightarrow> bool" where
  "tier_ok t \<longleftrightarrow> rotation t \<noteq> PerRequest \<and>
     (state t = Ready \<longrightarrow> (proxy_url t \<noteq> None) = (kind t = PK_Http \<or> kind t = PK_Socks5))"

definition target_ok :: "(ustr \<times> 'u TierConfig) list \<Rightarrow> AuthorizedTarget \<Rightarrow> bool" where
  "target_ok m t \<longleftrightarrow> proxy_tier t = lit ''auto'' \<or>
     (\<exists>tier. map_of m (proxy_tier t) = Some tier \<and> min_proxy_strength t \<le> strength tier)"

definition resolver_ok :: "'u ProxyResolver \<Rightarrow> bool" where
  "resolver_ok r \<longleftrightarrow> map_of (policy_proxies r) (lit ''auto'') = None \<and>
     map_of (policy_proxies r) (lit ''direct'') \<noteq> None \<and>
     (\<forall>name tier. map_of (policy_proxies r) name = Some tier \<longrightarrow> tier_ok tier) \<and>
     (\<forall>t \<in> set (targets (authorized r)). target_ok (policy_proxies r) t)"

lemma resolve_tier_ok: "resolve_tier U env name raw = Inr t \<Longrightarrow> tier_ok t \<and> kind t = raw_kind raw"
  by (auto simp: resolve_tier_def missing_env_def ready_tier_def disabled_tier_def tier_ok_def Let_def and_then_Inr
      split: ProxyKind.splits option.splits if_splits)

lemma load_tiers_lookup:
  assumes "load_tiers U env raws acc = Inr m" "distinct (map fst raws)"
  shows "map_of m name = (case map_of raws name of
      None \<Rightarrow> map_of acc name
    | Some raw \<Rightarrow> (case resolve_tier U env name raw of Inr t \<Rightarrow> Some t | Inl _ \<Rightarrow> None))"
  using assms
proof (induction U env raws acc rule: load_tiers.induct)
  case (2 U env nm raw rest acc)
  then obtain t where t: "resolve_tier U env nm raw = Inr t" "load_tiers U env rest (bt_insert nm t acc) = Inr m"
    by (auto simp: and_then_Inr)
  have "map_of rest nm = None" using "2.prems"(2) by (simp add: map_of_eq_None_iff)
  then show ?case using "2.IH" [OF t(2)] "2.prems"(2) t(1) by (auto simp: bt_insert_lookup split: option.splits)
qed simp

lemma load_tiers_all:
  assumes "load_tiers U env raws acc = Inr m" "(name, raw) \<in> set raws"
  shows "\<exists>t. resolve_tier U env name raw = Inr t"
  using assms by (induction U env raws acc rule: load_tiers.induct) (auto simp: and_then_Inr)

lemma or_insert_lookup: "map_of (or_insert k v m) = (if map_of m k = None then (map_of m)(k \<mapsto> v) else map_of m)"
  by (simp add: or_insert_def bt_insert_lookup split: option.splits)

lemma validate_targets_iff: "validate_targets m ts = Inr () \<longleftrightarrow> (\<forall>t \<in> set ts. target_ok m t)"
  by (induction m ts rule: validate_targets.induct) (auto simp: target_ok_def not_less split: option.splits)

lemma builtin_lookup:
  "map_of (ensure_builtin_tiers p m) name =
     (case map_of m name of
        Some t \<Rightarrow> Some t
      | None \<Rightarrow> if name = lit ''direct'' then Some direct_tier
                else if name = lit ''surfshark'' \<and> rp_vpn_instances p \<noteq> [] then Some surfshark_tier else None)"
  by (auto simp: ensure_builtin_tiers_def Let_def or_insert_lookup split: option.splits)

lemma load_InrE:
  assumes "ProxyResolver_load U env p auth = Inr r"
  obtains m where "map_of (rp_proxies p) (lit ''auto'') = None" "load_tiers U env (rp_proxies p) [] = Inr m"
    "policy_proxies r = ensure_builtin_tiers p m" "authorized r = auth" "fallback_chain r = rp_fallback_chain p"
    "require_vpn r = rp_require_vpn p" "recipe_lookup r = None"
    "\<forall>t \<in> set (targets auth). target_ok (policy_proxies r) t"
    "surfshark_pool r = (if rp_vpn_instances p = [] then None
      else Some (InstancePool_new (map VpnInstance_from (rp_vpn_instances p))))"
  using assms
  by (auto simp: ProxyResolver_load_def and_then_Inr Let_def validate_authorized_targets_def validate_targets_iff
      split: if_splits)

lemma load_tier:
  assumes "ProxyResolver_load U env p auth = Inr r" "distinct (map fst (rp_proxies p))"
  shows "map_of (policy_proxies r) name =
    (case map_of (rp_proxies p) name of
       Some raw \<Rightarrow> (case resolve_tier U env name raw of Inr t \<Rightarrow> Some t | Inl _ \<Rightarrow> None)
     | None \<Rightarrow> if name = lit ''direct'' then Some direct_tier
               else if name = lit ''surfshark'' \<and> rp_vpn_instances p \<noteq> [] then Some surfshark_tier else None)"
proof -
  obtain m where m: "load_tiers U env (rp_proxies p) [] = Inr m" "policy_proxies r = ensure_builtin_tiers p m"
    using assms(1) by (elim load_InrE) blast
  have "map_of m name = (case map_of (rp_proxies p) name of None \<Rightarrow> None
      | Some raw \<Rightarrow> (case resolve_tier U env name raw of Inr t \<Rightarrow> Some t | Inl _ \<Rightarrow> None))"
    using load_tiers_lookup [OF m(1) assms(2), of name] by (simp split: option.splits)
  moreover have "\<exists>t. resolve_tier U env name raw = Inr t" if "map_of (rp_proxies p) name = Some raw" for raw
    using load_tiers_all [OF m(1) map_of_SomeD [OF that]] .
  ultimately show ?thesis unfolding m(2) builtin_lookup by (auto split: option.splits sum.splits)
qed

lemma load_resolver_ok:
  assumes "ProxyResolver_load U env p auth = Inr r" "distinct (map fst (rp_proxies p))"
  shows "resolver_ok r"
proof -
  have l: "map_of (rp_proxies p) (lit ''auto'') = None" "\<forall>t \<in> set (targets (authorized r)). target_ok (policy_proxies r) t"
    using assms(1) by (auto elim: load_InrE)
  have "tier_ok direct_tier" "tier_ok surfshark_tier" by (simp_all add: tier_ok_def direct_tier_def surfshark_tier_def)
  moreover have "map_of (policy_proxies r) (lit ''direct'') \<noteq> None"
  proof (cases "map_of (rp_proxies p) (lit ''direct'')")
    case (Some raw)
    obtain m where m: "load_tiers U env (rp_proxies p) [] = Inr m" using assms(1) by (elim load_InrE) blast
    then obtain t where "resolve_tier U env (lit ''direct'') raw = Inr t"
      using load_tiers_all map_of_SomeD [OF Some] by blast
    then show ?thesis using Some by (simp add: load_tier [OF assms])
  qed (simp add: load_tier [OF assms])
  ultimately show ?thesis using l
    by (auto simp: resolver_ok_def load_tier [OF assms] split: option.splits sum.splits if_splits dest: resolve_tier_ok)
qed

section \<open>Properties\<close>

text \<open>
  A loaded resolver is well formed and its tiers are those of the policy: the reserved name is
  undeclared, the direct tier exists, every tier that is ready has a proxy URL exactly when its kind
  needs one, and every authorized target names a tier at least as strong as it demands. A declared http
  or socks5 tier that is ready has the URL obtained by replacing each placeholder of the declared text
  once by the non-empty value of its variable, and the declared text carries no literal credentials.
\<close>

lemma load_sound:
  assumes "ProxyResolver_load U env p auth = Inr r" "distinct (map fst (rp_proxies p))"
  shows "resolver_ok r \<and>
    (map_of (rp_proxies p) name = Some raw \<and> (raw_kind raw = PK_Http \<or> raw_kind raw = PK_Socks5) \<longrightarrow>
      (\<exists>tier ru. map_of (policy_proxies r) name = Some tier \<and> raw_url raw = Some ru \<and>
         validate_url_secret_shape ru = Inr () \<and>
         (state tier = Ready \<longrightarrow> (\<exists>u. proxy_url tier = Some u \<and> parse_url U (expand env ru) = Inr u \<and>
            (\<forall>v \<in> set (var_names (pieces ru)). env_value env v \<noteq> [])))))"
proof -
  have "\<exists>tier ru. map_of (policy_proxies r) name = Some tier \<and> raw_url raw = Some ru \<and>
         validate_url_secret_shape ru = Inr () \<and>
         (state tier = Ready \<longrightarrow> (\<exists>u. proxy_url tier = Some u \<and> parse_url U (expand env ru) = Inr u \<and>
            (\<forall>v \<in> set (var_names (pieces ru)). env_value env v \<noteq> [])))"
    if raw: "map_of (rp_proxies p) name = Some raw" and k: "raw_kind raw = PK_Http \<or> raw_kind raw = PK_Socks5"
  proof -
    obtain m where "load_tiers U env (rp_proxies p) [] = Inr m" using assms(1) by (elim load_InrE) blast
    then obtain t where t: "resolve_tier U env name raw = Inr t" using load_tiers_all map_of_SomeD [OF raw] by blast
    then have m: "map_of (policy_proxies r) name = Some t" using raw by (simp add: load_tier [OF assms])
    obtain ru where ru: "raw_url raw = Some ru" "validate_url_secret_shape ru = Inr ()"
      using t k by (auto simp: resolve_tier_def and_then_Inr map_sum_Inr split: if_splits option.splits)
    let ?ev = "load_env_values env ru (raw_auth_env raw)"
    have "ev_missing ?ev = [] \<and> (\<exists>u. proxy_url t = Some u \<and> parse_url U (interpolate_env_once ru (ev_values ?ev)) = Inr u)"
      if "state t = Ready"
      using t k ru that
      by (auto simp: resolve_tier_def and_then_Inr map_sum_Inr Let_def missing_env_def disabled_tier_def ready_tier_def
          split: if_splits option.splits)
    then show ?thesis using m ru load_env_complete [of env ru "raw_auth_env raw"] by auto
  qed
  then show ?thesis using load_resolver_ok [OF assms] by blast
qed

definition demo_lib :: "ustr url_lib" where
  "demo_lib = \<lparr>parse_url = Inr, as_str = id, host_str = Some, url_scheme = (\<lambda>_. lit ''http''), url_username = (\<lambda>_. []),
     url_password = (\<lambda>_. None), with_username = (\<lambda>u _. u), with_password = (\<lambda>u _. u)\<rparr>"

definition demo_raw :: RawTierConfig where
  "demo_raw = \<lparr>raw_kind = PK_Http, raw_url = Some (lit ''http://${U}@h''), raw_instances_from = None, raw_auth_env = [],
     raw_no_proxy = [], raw_rotation = Sticky, raw_country_filter = [], raw_enabled_by_default = True,
     raw_strength = Mobile\<rparr>"

definition demo_policy :: ResolverPolicy where
  "demo_policy = ResolverPolicy_default\<lparr>rp_proxies := [(lit ''p'', demo_raw)]\<rparr>"

text \<open>
  The literal-secret check is exact for URLs written with a scheme and two slashes: such a URL is
  accepted if and only if its credentials, when it has any, are empty or single \<^verbatim>\<open>${NAME}\<close> placeholders;
  a URL in any other form (a leading space, or one slash) is accepted whatever credentials it has.
\<close>

lemma secret_shape_exact:
  "(ascii_alpha c \<and> list_all scheme_char sch \<and> list_all userinfo_char ui \<longrightarrow>
      (validate_url_secret_shape (c # sch @ lit ''://'' @ ui @ lit ''@'' @ rest) = Inr () \<longleftrightarrow> templated_userinfo ui)) \<and>
   validate_url_secret_shape (lit '' '' @ s) = Inr () \<and> validate_url_secret_shape (lit ''http:/'' @ lit ''user:pw@h'') = Inr ()"
proof (intro conjI impI)
  assume "ascii_alpha c \<and> list_all scheme_char sch \<and> list_all userinfo_char ui"
  then have "userinfo_of (c # sch @ lit ''://'' @ ui @ lit ''@'' @ rest) = Some ui"
    unfolding userinfo_iff list_all_iff by blast
  then show "validate_url_secret_shape (c # sch @ lit ''://'' @ ui @ lit ''@'' @ rest) = Inr () \<longleftrightarrow> templated_userinfo ui"
    by (simp add: secret_shape_iff)
next
  show "validate_url_secret_shape (lit '' '' @ s) = Inr ()"
    by (simp add: secret_shape_iff userinfo_of_def lit_def ascii_alpha_def)
  show "validate_url_secret_shape (lit ''http:/'' @ lit ''user:pw@h'') = Inr ()"
    by (simp add: secret_shape_iff userinfo_of_def lit_def ascii_alpha_def scheme_char_def is_digit_def strip_prefix_def)
qed

end
