(* ===== verification/Egress_Policy.thy ===== *)
theory Egress_Policy
  imports Proxy_Config
begin

text \<open>
  The operator's policy (\<^verbatim>\<open>crates/stealth-cli/src/policy.rs\<close>): loading with a fail-closed default, the
  \<^verbatim>\<open>VPN_INSTANCES\<close> override and the precedence that decides whether a VPN is required.

  Environment variables are arguments, the file system and the TOML reader parameters. Error texts are
  error constructors carrying their arguments.
\<close>

section \<open>Definitions\<close>

record PolicyVpnInstance =
  pv_name :: ustr
  pv_http_proxy_port :: "16 word"
  pv_control_port :: "16 word"

record Policy =
  schema_version :: nat
  pol_require_vpn :: bool
  vpn_required_country :: "ustr option"
  vpn_instances :: "PolicyVpnInstance list"
  proxies :: "(ustr \<times> RawTierConfig) list"
  pol_fallback_chain :: FallbackChain

datatype PolicyError =
    PolicyRead ustr ustr
  | PolicyParse ustr ustr
  | EntryShape nat ustr
  | EntryEmptyName nat
  | EntryHttpPort nat ustr ParseIntError
  | EntryControlPort nat ustr ParseIntError

definition default_schema_version_v1 :: nat where
  "default_schema_version_v1 = 1"

definition Policy_default_require_vpn :: bool where
  "Policy_default_require_vpn = True"

definition default_vpn_instances :: "PolicyVpnInstance list" where
  "default_vpn_instances = []"

definition Policy_default :: Policy where
  "Policy_default =
     \<lparr>schema_version = default_schema_version_v1, pol_require_vpn = Policy_default_require_vpn,
      vpn_required_country = None, vpn_instances = default_vpn_instances, proxies = [],
      pol_fallback_chain = FallbackChain_default\<rparr>"

definition Policy_supported_versions :: "nat list" where
  "Policy_supported_versions = [1]"

definition Policy_known_fields :: "ustr list" where
  "Policy_known_fields =
     map lit [''schema_version'', ''require_vpn'', ''vpn_required_country'', ''vpn_instances'', ''proxies'', ''fallback_chain'']"

definition Policy_load_from ::
  "(ustr \<Rightarrow> ustr + Policy) \<Rightarrow> (ustr \<Rightarrow> (ustr + ustr) option) \<Rightarrow> ustr \<Rightarrow> PolicyError + Policy" where
  "Policy_load_from toml fs path =
     (case fs path of
        None \<Rightarrow> Inr Policy_default
      | Some (Inl e) \<Rightarrow> Inl (PolicyRead path e)
      | Some (Inr raw) \<Rightarrow> map_sum (PolicyParse path) id (toml raw))"

interpretation policy_loader: config_loader Policy_load_from Policy_default
  by unfold_locales (simp_all add: Policy_load_from_def)

text \<open>\<open>path\<close> is the default path, absent without a home directory.\<close>

definition Policy_load ::
  "(ustr \<Rightarrow> ustr + Policy) \<Rightarrow> (ustr \<Rightarrow> (ustr + ustr) option) \<Rightarrow> ustr option \<Rightarrow> PolicyError + Policy" where
  "Policy_load toml fs path =
     (case path of None \<Rightarrow> Inr Policy_default | Some p \<Rightarrow> Policy_load_from toml fs p)"

definition u16_max :: nat where
  "u16_max = 65535"

definition parse_entry :: "nat \<Rightarrow> ustr \<Rightarrow> PolicyError + PolicyVpnInstance" where
  "parse_entry idx raw =
     (case map trim (split_char 58 raw) of
        [name, http, ctl] \<Rightarrow>
          if name = [] then Inl (EntryEmptyName idx)
          else and_then (map_sum (EntryHttpPort idx http) id (parse_unsigned u16_max http)) (\<lambda>hp.
               and_then (map_sum (EntryControlPort idx ctl) id (parse_unsigned u16_max ctl)) (\<lambda>cp.
               Inr \<lparr>pv_name = name, pv_http_proxy_port = of_nat hp, pv_control_port = of_nat cp\<rparr>))
      | _ \<Rightarrow> Inl (EntryShape idx raw))"

fun parse_entries :: "nat \<Rightarrow> ustr list \<Rightarrow> PolicyVpnInstance list \<Rightarrow> PolicyError + PolicyVpnInstance list" where
  "parse_entries idx [] out = Inr out"
| "parse_entries idx (r # rs) out =
     (let raw = trim r in
      if raw = [] then parse_entries (Suc idx) rs out
      else and_then (parse_entry idx raw) (\<lambda>i. parse_entries (Suc idx) rs (out @ [i])))"

definition parse_vpn_instances_env :: "ustr \<Rightarrow> PolicyError + PolicyVpnInstance list" where
  "parse_vpn_instances_env s =
     (let s = trim s in if s = [] then Inr [] else parse_entries 0 (split_char 44 s) [])"

definition with_env_overrides :: "ustr option \<Rightarrow> Policy \<Rightarrow> Policy" where
  "with_env_overrides vpn_instances_var p =
     (case vpn_instances_var of
        None \<Rightarrow> p
      | Some raw \<Rightarrow>
          (case parse_vpn_instances_env raw of
             Inl _ \<Rightarrow> p
           | Inr parsed \<Rightarrow> if parsed = [] then p else p\<lparr>vpn_instances := parsed\<rparr>))"

definition cli_flags_to_tristate :: "bool \<Rightarrow> bool \<Rightarrow> bool option" where
  "cli_flags_to_tristate req allow_no_vpn =
     (if req then Some True else if allow_no_vpn then Some False else None)"

definition effective_require_vpn :: "ustr option \<Rightarrow> bool option \<Rightarrow> Policy \<Rightarrow> bool" where
  "effective_require_vpn require_vpn_var cli_require p =
     (if require_vpn_var = Some (lit ''1'') then True
      else case cli_require of Some v \<Rightarrow> v | None \<Rightarrow> pol_require_vpn p)"

section \<open>Loading\<close>

text \<open>
  A policy that does not require a VPN was written by the operator: it comes from an existing file that
  says so, never from a missing or damaged one.
\<close>

lemma permissive_policy_from_file:
  assumes "Policy_load toml fs path = Inr p" "\<not> pol_require_vpn p"
  shows "\<exists>d raw. path = Some d \<and> fs d = Some (Inr raw) \<and> toml raw = Inr p"
  using assms policy_loader.loaded_iff
  by (auto simp: Policy_load_def Policy_default_def Policy_default_require_vpn_def split: option.splits)

section \<open>The override variable\<close>

text \<open>An instance written as \<^verbatim>\<open>name:port:port\<close> with white space around each part.\<close>

definition entry_text :: "ustr \<Rightarrow> PolicyVpnInstance \<Rightarrow> ustr" where
  "entry_text ws i =
     ws @ pv_name i @ ws @ lit '':'' @ ws @ digits_of (unat (pv_http_proxy_port i)) @ ws @ lit '':'' @
     ws @ digits_of (unat (pv_control_port i)) @ ws"

definition instances_text :: "ustr \<Rightarrow> PolicyVpnInstance list \<Rightarrow> ustr" where
  "instances_text ws is = intersperse_concat (lit '','') (map (entry_text ws) is)"

definition name_ok :: "ustr \<Rightarrow> bool" where
  "name_ok n \<longleftrightarrow> n \<noteq> [] \<and> tight n \<and> 58 \<notin> set n \<and> 44 \<notin> set n"

lemma white_not: "white_space c \<Longrightarrow> c \<noteq> 58 \<and> c \<noteq> 44 \<and> \<not> is_digit c"
  by (auto simp: white_space_def is_digit_def)

lemma digits_plain: "58 \<notin> set (digits_of n)" "44 \<notin> set (digits_of n)" "tight (digits_of n)"
proof -
  show "58 \<notin> set (digits_of n)" "44 \<notin> set (digits_of n)"
    using digits_of_digits [of 58 n] digits_of_digits [of 44 n] by (auto simp: is_digit_def)
  show "tight (digits_of n)" using digits_of_digits white_not by (blast intro: tight_nospace)
qed

lemma entry_parts:
  assumes "\<forall>c \<in> set ws. white_space c" "name_ok (pv_name i)"
  shows "map trim (split_char 58 (entry_text ws i)) =
    [pv_name i, digits_of (unat (pv_http_proxy_port i)), digits_of (unat (pv_control_port i))]"
proof -
  have ws: "58 \<notin> set ws" using assms(1) white_not by blast
  have t: "trim (ws @ s @ ws) = s" if "tight s" for s using trim_pad [OF assms(1,1) that] .
  have "split_char 58 (entry_text ws i) =
      [ws @ pv_name i @ ws, ws @ digits_of (unat (pv_http_proxy_port i)) @ ws, ws @ digits_of (unat (pv_control_port i)) @ ws]"
    using split_char_join [of "[ws @ pv_name i @ ws, ws @ digits_of (unat (pv_http_proxy_port i)) @ ws,
        ws @ digits_of (unat (pv_control_port i)) @ ws]" 58] ws assms(2) digits_plain
    by (simp add: entry_text_def lit_def name_ok_def)
  then show ?thesis using t assms(2) digits_plain(3) by (simp add: name_ok_def)
qed

lemma parse_entry_text:
  assumes "\<forall>c \<in> set ws. white_space c" "name_ok (pv_name i)"
  shows "parse_entry idx (trim (entry_text ws i)) = Inr i"
proof -
  have p: "parse_unsigned u16_max (digits_of (unat w)) = Inr (unat w)" for w :: "16 word"
    using parse_unsigned_digits_of [of "unat w" u16_max] unsigned_less [of w, where 'a = nat] by (simp add: u16_max_def)
  have "\<not> white_space 58" by (simp add: white_space_def)
  from trim_split_trim [OF this, of "entry_text ws i"] show ?thesis
    using entry_parts [OF assms] assms(2) by (simp add: parse_entry_def p name_ok_def)
qed

lemma parse_entries_cong:
  "map trim rs = map trim rs' \<Longrightarrow> parse_entries idx rs out = parse_entries idx rs' out"
proof (induction rs arbitrary: rs' idx out)
  case (Cons r rs)
  then obtain r' rest where r: "rs' = r' # rest" "trim r = trim r'" "map trim rs = map trim rest"
    by (auto simp: map_eq_Cons_conv Cons_eq_map_conv)
  then show ?case using Cons.IH [OF r(3)] by (simp add: Let_def)
qed simp

lemma parse_entries_text:
  assumes "\<forall>c \<in> set ws. white_space c" "\<forall>i \<in> set is. name_ok (pv_name i)"
  shows "parse_entries idx (map (entry_text ws) is) out = Inr (out @ is)"
  using assms(2)
proof (induction "is" arbitrary: idx out)
  case (Cons i "is")
  have "parse_entry idx [] \<noteq> Inr i" by (simp add: parse_entry_def)
  then have "trim (entry_text ws i) \<noteq> []" using parse_entry_text [OF assms(1), of i idx] Cons.prems by auto
  then show ?case using parse_entry_text [OF assms(1), of i idx] Cons by simp
qed simp

section \<open>Properties\<close>

text \<open>
  The override variable reads back what it was written from: instances whose names are non-empty, have
  no surrounding white space and no colon or comma, written with any white space around every part, are
  parsed to exactly those instances, ports included, and then replace the configured ones.
\<close>

lemma instances_env_round_trip:
  assumes "\<forall>c \<in> set ws. white_space c" "\<forall>i \<in> set is. name_ok (pv_name i)" "is \<noteq> []"
  shows "parse_vpn_instances_env (instances_text ws is) = Inr is \<and>
    vpn_instances (with_env_overrides (Some (instances_text ws is)) p) = is"
proof -
  have "44 \<notin> set ws" using assms(1) white_not by blast
  then have "\<forall>e \<in> set (map (entry_text ws) is). 44 \<notin> set e"
    using assms(2) digits_plain by (auto simp: entry_text_def name_ok_def lit_def)
  then have split: "split_char 44 (instances_text ws is) = map (entry_text ws) is"
    using split_char_join [of "map (entry_text ws) is" 44] assms(3) by (simp add: instances_text_def lit_def)
  have nw: "\<not> white_space 44" by (simp add: white_space_def)
  have all: "parse_entries 0 (split_char 44 (trim (instances_text ws is))) [] = Inr is"
    using parse_entries_cong [OF trim_split_trim [OF nw, of "instances_text ws is"], of 0 "[]"] split
      parse_entries_text [OF assms(1,2), of 0 "[]"] by simp
  moreover have "trim (instances_text ws is) \<noteq> []"
  proof
    assume "trim (instances_text ws is) = []"
    then show False using all assms(3) trim_tight [of "[]"] by (simp add: tight_def)
  qed
  ultimately have "parse_vpn_instances_env (instances_text ws is) = Inr is"
    by (simp add: parse_vpn_instances_env_def)
  then show ?thesis using assms(3) by (simp add: with_env_overrides_def)
qed

end
