(* ===== verification/Session_Files.thy ===== *)
theory Session_Files
  imports Instance_Pool Json_Value
begin

text \<open>
  The session files of the instance pool (\<^verbatim>\<open>crates/vpn-rotate/src/instance_pool.rs\<close>, the persistence
  part): a session's instance is remembered in \<^verbatim>\<open>~/.rev_scraping/sessions/<session>.json\<close>.

  The file system is explicit: which directories exist and what each file holds (\<open>None\<close> for bytes that
  are no UTF-8 text). Every call has an outcome chosen by the environment: a directory cannot be
  created, a write fails before or after the file was truncated, a read fails. Text and JSON values
  are related by the serializer, a parameter.
\<close>

section \<open>Definitions\<close>

datatype write_outcome = Written | OpenFailed | Torn "ustr option"

record sess_fs =
  sess_dirs :: "ustr \<Rightarrow> bool"
  sess_files :: "ustr \<Rightarrow> ustr option option"

record sess_env =
  home_var :: "ustr option"
  to_text :: "json \<Rightarrow> ustr"
  from_text :: "ustr \<Rightarrow> json option"
  read_ok :: bool
  mkdir_ok :: bool
  write_out :: write_outcome
  unix_secs :: nat

text \<open>\<^verbatim>\<open>Path::join\<close>: an absolute second part replaces the first.\<close>

definition path_join :: "ustr \<Rightarrow> ustr \<Rightarrow> ustr" where
  "path_join d s =
     (if prefix (lit ''/'') s then s
      else if d = [] \<or> suffix (lit ''/'') d then d @ s
      else d @ lit ''/'' @ s)"

definition directory_home :: "sess_env \<Rightarrow> ustr option" where
  "directory_home E = home_var E"

definition default_session_dir :: "sess_env \<Rightarrow> ustr option" where
  "default_session_dir E =
     map_option (\<lambda>h. path_join (path_join h (lit ''.rev_scraping'')) (lit ''sessions'')) (directory_home E)"

definition session_path :: "ustr \<Rightarrow> ustr \<Rightarrow> ustr" where
  "session_path dir sid = path_join dir (sid @ lit ''.json'')"

definition session_body :: "sess_env \<Rightarrow> ustr \<Rightarrow> ustr \<Rightarrow> json" where
  "session_body E sid inst =
     JObj (bt_of [(lit ''session_id'', JStr sid), (lit ''instance'', JStr inst),
       (lit ''ts_unix'', JNumber (PosInt (unix_secs E)))])"

definition write_text :: "sess_env \<Rightarrow> ustr \<Rightarrow> ustr \<Rightarrow> sess_fs \<Rightarrow> bool \<times> sess_fs" where
  "write_text E path txt fs =
     (case write_out E of
        Written \<Rightarrow> (True, fs\<lparr>sess_files := (sess_files fs)(path \<mapsto> Some txt)\<rparr>)
      | OpenFailed \<Rightarrow> (False, fs)
      | Torn c \<Rightarrow> (False, fs\<lparr>sess_files := (sess_files fs)(path \<mapsto> c)\<rparr>))"

definition persist_session :: "sess_env \<Rightarrow> ustr \<Rightarrow> ustr \<Rightarrow> ustr \<Rightarrow> sess_fs \<Rightarrow> bool \<times> sess_fs" where
  "persist_session E dir sid inst fs =
     (if \<not> sess_dirs fs dir \<and> \<not> mkdir_ok E then (False, fs)
      else write_text E (session_path dir sid) (to_text E (session_body E sid inst))
        (fs\<lparr>sess_dirs := (sess_dirs fs)(dir := True)\<rparr>))"

definition load_session :: "sess_env \<Rightarrow> ustr \<Rightarrow> ustr \<Rightarrow> sess_fs \<Rightarrow> ustr option" where
  "load_session E dir sid fs =
     (if \<not> read_ok E then None
      else case sess_files fs (session_path dir sid) of
          Some (Some raw) \<Rightarrow>
            (case from_text E raw of
               Some (JObj m) \<Rightarrow> (case map_of m (lit ''instance'') of Some (JStr s) \<Rightarrow> Some s | _ \<Rightarrow> None)
             | _ \<Rightarrow> None)
        | _ \<Rightarrow> None)"

section \<open>Lemmas\<close>

lemma session_body_instance: "\<exists>m. session_body E sid inst = JObj m \<and> map_of m (lit ''instance'') = Some (JStr inst)"
  by (simp add: session_body_def bt_of_lookup)

text \<open>A session file that was written completely is read back.\<close>

lemma session_round_trip:
  assumes "from_text E' (to_text E (session_body E sid inst)) = Some (session_body E sid inst)" "read_ok E'"
    and "persist_session E dir sid inst fs = (True, fs')"
  shows "load_session E' dir sid fs' = Some inst"
proof -
  obtain m where m: "session_body E sid inst = JObj m" "map_of m (lit ''instance'') = Some (JStr inst)"
    using session_body_instance by blast
  have "sess_files fs' (session_path dir sid) = Some (Some (to_text E (JObj m)))"
    using assms(3) m(1) by (auto simp: persist_session_def write_text_def split: if_splits write_outcome.splits)
  then show ?thesis using assms(1,2) m by (simp add: load_session_def)
qed

text \<open>Different session identifiers without a leading slash have different files.\<close>

lemma session_path_inject:
  assumes "\<not> prefix (lit ''/'') sid" "\<not> prefix (lit ''/'') sid'"
  shows "session_path d sid = session_path d sid' \<longleftrightarrow> sid = sid'"
proof -
  have "\<not> prefix (lit ''/'') (s @ lit ''.json'')" if "\<not> prefix (lit ''/'') s" for s
    using that by (cases s) (simp_all add: lit_def)
  then show ?thesis using assms by (simp add: session_path_def path_join_def)
qed

end
