(* ===== verification/Proxy_Resolver.thy ===== *)
theory Proxy_Resolver
  imports Proxy_Config Session_Files
begin

text \<open>
  The proxy resolver (\<^verbatim>\<open>crates/vpn-rotate/src/proxy_resolver.rs\<close>, the run-time half): which tier and which
  proxy URL a request to a URL in a session uses, and which tier is tried after a failure.

  What a call sees of its surroundings is one record: the URL library, the expression engine for the
  user's URL patterns, the hash function, the clock readings of the two passes over the pool and the
  environment of the session files. The session files are the only state a call changes.
\<close>

section \<open>Definitions\<close>

record 'u resolver_world =
  url_library :: "'u url_lib"
  regex_new :: "ustr \<Rightarrow> (ustr \<Rightarrow> bool) option"
  xxh3_64 :: "nat list \<Rightarrow> 64 word"
  now_pick :: "ustr \<Rightarrow> nat"
  now_count :: "ustr \<Rightarrow> nat"
  sessions :: sess_env

subsection \<open>Picking a pool instance\<close>

definition choose_instance ::
  "'u resolver_world \<Rightarrow> InstancePool \<Rightarrow> ustr \<Rightarrow> ustr option \<Rightarrow> sess_fs \<Rightarrow> (VpnInstance \<times> bool) option" where
  "choose_instance W pool session_id forced_name fs =
     (case forced_name of
        Some name \<Rightarrow> map_option (\<lambda>i. (i, False)) (pick_by_name pool name)
      | None \<Rightarrow>
          (case default_session_dir (sessions W) \<bind> (\<lambda>d. load_session (sessions W) d session_id fs) of
             Some name \<Rightarrow>
               (case pick_by_name pool name of
                  Some i \<Rightarrow> Some (i, True)
                | None \<Rightarrow> map_option (\<lambda>i. (i, False)) (pick (xxh3_64 W) pool (now_pick W) session_id))
           | None \<Rightarrow> map_option (\<lambda>i. (i, False)) (pick (xxh3_64 W) pool (now_pick W) session_id)))"

definition instance_url :: "VpnInstance \<Rightarrow> ustr" where
  "instance_url i = lit ''http://127.0.0.1:'' @ digits_of (unat (http_proxy_port i))"

text \<open>The best-effort write after a fresh choice.\<close>

definition remember :: "'u resolver_world \<Rightarrow> ustr \<Rightarrow> VpnInstance \<times> bool \<Rightarrow> sess_fs \<Rightarrow> sess_fs" where
  "remember W session_id c fs =
     (case c of (i, from_cache) \<Rightarrow>
        if from_cache then fs
        else case default_session_dir (sessions W) of
            Some dir \<Rightarrow> snd (persist_session (sessions W) dir session_id (vi_name i) fs)
          | None \<Rightarrow> fs)"

definition pick_pool_instance ::
  "'u resolver_world \<Rightarrow> 'u ProxyResolver \<Rightarrow> ustr \<Rightarrow> ustr option \<Rightarrow> sess_fs \<Rightarrow> 'u ProxySelection option \<times> sess_fs" where
  "pick_pool_instance W r session_id forced_name fs =
     (case map_of (policy_proxies r) (lit ''surfshark'') of
        None \<Rightarrow> (None, fs)
      | Some tier \<Rightarrow>
          if kind tier \<noteq> PK_HttpPool \<or> state tier \<noteq> Ready then (None, fs)
          else case surfshark_pool r of
              None \<Rightarrow> (None, fs)
            | Some pool \<Rightarrow>
                (case choose_instance W pool session_id forced_name fs of
                   None \<Rightarrow> (None, fs)
                 | Some (i, from_cache) \<Rightarrow>
                     (case parse_url (url_library W) (instance_url i) of
                        Inl _ \<Rightarrow> (None, fs)
                      | Inr u \<Rightarrow>
                          (Some \<lparr>ps_tier_name = lit ''surfshark'', ps_proxy_kind = PK_HttpPool, ps_proxy_url = Some u,
                             ps_no_proxy = no_proxy tier, ps_strength = strength tier,
                             ps_from_session_cache = from_cache, ps_source = Explicit,
                             ps_pool_healthy_count = Some (healthy_count pool (now_count W))\<rparr>,
                           remember W session_id (i, from_cache) fs))))"

subsection \<open>Matching the authorized targets\<close>

fun match_loop :: "'u resolver_world \<Rightarrow> ustr \<Rightarrow> (nat \<times> AuthorizedTarget) list \<Rightarrow>
  (nat \<times> nat \<times> AuthorizedTarget) option \<Rightarrow> (nat \<times> nat \<times> AuthorizedTarget) option" where
  "match_loop W url [] best = best"
| "match_loop W url ((idx, target) # rest) best =
     match_loop W url rest
       (case regex_new W (url_pattern target) of
          None \<Rightarrow> best
        | Some re \<Rightarrow>
            if \<not> re url then best
            else let len = blen (url_pattern target) in
              case best of
                None \<Rightarrow> Some (len, idx, target)
              | Some (best_len, best_idx, _) \<Rightarrow>
                  if len > best_len \<or> (len = best_len \<and> idx < best_idx) then Some (len, idx, target) else best)"

definition match_authorized_target :: "'u resolver_world \<Rightarrow> 'u ProxyResolver \<Rightarrow> 'u \<Rightarrow> AuthorizedTarget option" where
  "match_authorized_target W r url =
     map_option (\<lambda>(_, _, t). t)
       (match_loop W (as_str (url_library W) url) (List.enumerate 0 (targets (authorized r))) None)"

subsection \<open>The automatic chain\<close>

definition url_host_or_empty :: "'u resolver_world \<Rightarrow> 'u \<Rightarrow> ustr" where
  "url_host_or_empty W url = (case host_str (url_library W) url of Some h \<Rightarrow> h | None \<Rightarrow> [])"

definition active_recipe_blacklist :: "'u resolver_world \<Rightarrow> 'u ProxyResolver \<Rightarrow> 'u \<Rightarrow> ustr list" where
  "active_recipe_blacklist W r url =
     (case recipe_lookup r of
        None \<Rightarrow> []
      | Some l \<Rightarrow>
          foldl push_unique []
            (map be_name (filter (\<lambda>e. age_days e \<le> blacklist_ttl_days (fallback_chain r))
               (proxy_tier_blacklist l (url_host_or_empty W url)))))"

definition promote :: "'u resolver_world \<Rightarrow> 'u ProxyResolver \<Rightarrow> 'u \<Rightarrow> ustr list \<Rightarrow> ustr list \<times> ustr option" where
  "promote W r url active =
     (case recipe_lookup r of
        None \<Rightarrow> (auto_chain (fallback_chain r), None)
      | Some l \<Rightarrow>
          (case proxy_tier_recommended l (url_host_or_empty W url) of
             None \<Rightarrow> (auto_chain (fallback_chain r), None)
           | Some rec \<Rightarrow>
               if list_ex (\<lambda>b. b = rec) active then (auto_chain (fallback_chain r), None)
               else (rec # filter (\<lambda>t. t \<noteq> rec) (auto_chain (fallback_chain r)), Some rec)))"

definition demote :: "ustr list \<Rightarrow> ustr \<Rightarrow> ustr list" where
  "demote cs blocked =
     (let cs1 = filter (\<lambda>t. t \<noteq> blocked) cs in if length cs1 \<noteq> length cs then cs1 @ [blocked] else cs1)"

definition usable :: "'u ProxyResolver \<Rightarrow> ProxyStrength \<Rightarrow> ustr \<Rightarrow> bool" where
  "usable r bound name =
     (case map_of (policy_proxies r) name of
        None \<Rightarrow> False
      | Some tier \<Rightarrow> state tier = Ready \<and> bound \<le> strength tier)"

definition auto_candidates :: "'u resolver_world \<Rightarrow> 'u ProxyResolver \<Rightarrow> 'u \<Rightarrow> ProxyStrength \<Rightarrow> ustr list \<times> ustr option" where
  "auto_candidates W r url bound =
     (let active = active_recipe_blacklist W r url;
          (candidates, promoted) = promote W r url active;
          ordered = foldl demote candidates active
      in (foldl push_unique [] (filter (usable r bound) ordered), promoted))"

subsection \<open>Resolving\<close>

definition selection_for_tier ::
  "'u resolver_world \<Rightarrow> 'u ProxyResolver \<Rightarrow> ustr \<Rightarrow> ustr \<Rightarrow> ProxyStrength \<Rightarrow> SelectionSource \<Rightarrow> sess_fs \<Rightarrow>
     (ResolveError + 'u ProxySelection) \<times> sess_fs" where
  "selection_for_tier W r session_id tier_name bound source fs =
     (case map_of (policy_proxies r) tier_name of
        None \<Rightarrow> (Inl (UnknownTier tier_name), fs)
      | Some tier \<Rightarrow>
          (case state tier of
             Disabled reason \<Rightarrow> (Inl (TierUnavailable tier_name reason), fs)
           | Ready \<Rightarrow>
               if strength tier < bound then (Inl (TierBelowFloor tier_name (strength tier) bound), fs)
               else
                 let result = (\<lambda>u cached count.
                   \<lparr>ps_tier_name = tier_name, ps_proxy_kind = kind tier, ps_proxy_url = u, ps_no_proxy = no_proxy tier,
                    ps_strength = strength tier, ps_from_session_cache = cached, ps_source = source,
                    ps_pool_healthy_count = count\<rparr>)
                 in case kind tier of
                      PK_HttpPool \<Rightarrow>
                        (case pick_pool_instance W r session_id None fs of
                           (None, fs') \<Rightarrow> (Inl (TierUnavailable tier_name (lit ''http-pool has no healthy instances'')), fs')
                         | (Some s, fs') \<Rightarrow>
                             (Inr (result (ps_proxy_url s) (ps_from_session_cache s) (ps_pool_healthy_count s)), fs'))
                    | PK_None \<Rightarrow> (Inr (result None False None), fs)
                    | _ \<Rightarrow> (Inr (result (proxy_url tier) False None), fs)))"

definition resolve_auto ::
  "'u resolver_world \<Rightarrow> 'u ProxyResolver \<Rightarrow> 'u \<Rightarrow> ustr \<Rightarrow> ProxyStrength \<Rightarrow> sess_fs \<Rightarrow> (ResolveError + 'u ProxySelection) \<times> sess_fs" where
  "resolve_auto W r url session_id bound fs =
     (case auto_candidates W r url bound of
        ([], _) \<Rightarrow> (Inl (NoEligibleTier (as_str (url_library W) url)), fs)
      | (tier_name # _, promoted) \<Rightarrow>
          selection_for_tier W r session_id tier_name bound
            (if promoted = Some tier_name then RecipeRecommendation else AutoFallback 0) fs)"

definition floor_of :: "AuthorizedTarget option \<Rightarrow> ProxyStrength" where
  "floor_of target = (case target of Some t \<Rightarrow> min_proxy_strength t | None \<Rightarrow> PS_None)"

definition resolve ::
  "'u resolver_world \<Rightarrow> 'u ProxyResolver \<Rightarrow> 'u \<Rightarrow> ustr \<Rightarrow> ustr option \<Rightarrow> sess_fs \<Rightarrow> (ResolveError + 'u ProxySelection) \<times> sess_fs" where
  "resolve W r url session_id forced_tier fs =
     (let target = match_authorized_target W r url; bound = floor_of target in
      case (case forced_tier of Some t \<Rightarrow> Some t | None \<Rightarrow> map_option proxy_tier target) of
        None \<Rightarrow> (Inl (NoAuthorizedMatch (as_str (url_library W) url)), fs)
      | Some effective_tier \<Rightarrow>
          if effective_tier = lit ''auto'' then resolve_auto W r url session_id bound fs
          else selection_for_tier W r session_id effective_tier bound Explicit fs)"

fun position :: "'a \<Rightarrow> 'a list \<Rightarrow> nat option" where
  "position x [] = None"
| "position x (y # ys) = (if y = x then Some 0 else map_option Suc (position x ys))"

definition ok_part :: "('e + 'a) \<times> 's \<Rightarrow> 'a option \<times> 's" where
  "ok_part p = (case p of (Inr x, s) \<Rightarrow> (Some x, s) | (Inl _, s) \<Rightarrow> (None, s))"

definition next_fallback ::
  "'u resolver_world \<Rightarrow> 'u ProxyResolver \<Rightarrow> 'u \<Rightarrow> ustr \<Rightarrow> ustr \<Rightarrow> FailSignal \<Rightarrow> sess_fs \<Rightarrow> 'u ProxySelection option \<times> sess_fs" where
  "next_fallback W r url session_id failed_tier signal fs =
     (let bound = floor_of (match_authorized_target W r url);
          candidates = fst (auto_candidates W r url bound)
      in case position failed_tier candidates of
           None \<Rightarrow> (None, fs)
         | Some failed_idx \<Rightarrow>
             if \<not> list_ex (\<lambda>s. s = signal) (fail_signals (fallback_chain r)) then (None, fs)
             else if max (max_attempts_per_tier (fallback_chain r)) 1 > 1
             then ok_part (selection_for_tier W r session_id failed_tier bound (AutoFallback failed_idx) fs)
             else if failed_idx + 1 \<ge> length candidates then (None, fs)
             else ok_part (selection_for_tier W r session_id (candidates ! (failed_idx + 1)) bound
                    (AutoFallback (failed_idx + 1)) fs))"

section \<open>The order of the candidates\<close>

text \<open>A list without its repetitions, each element at its first position.\<close>

fun firsts :: "'a list \<Rightarrow> 'a list" where
  "firsts [] = []"
| "firsts (x # xs) = x # filter (\<lambda>y. y \<noteq> x) (firsts xs)"

lemma set_firsts [simp]: "set (firsts xs) = set xs"
  by (induction xs) auto

lemma distinct_firsts [simp]: "distinct (firsts xs)"
  by (induction xs) auto

lemma firsts_distinct: "distinct xs \<Longrightarrow> firsts xs = xs"
  by (induction xs) (auto intro: filter_True)

lemma firsts_filter: "firsts (filter P xs) = filter P (firsts xs)"
  by (induction xs) (auto intro: filter_cong)

lemma firsts_append: "firsts (xs @ ys) = firsts xs @ filter (\<lambda>y. y \<notin> set xs) (firsts ys)"
  by (induction xs) (auto intro: filter_cong)

lemma foldl_push_unique: "foldl push_unique acc xs = acc @ filter (\<lambda>x. x \<notin> set acc) (firsts xs)"
proof (induction xs arbitrary: acc)
  case (Cons x xs)
  have "push_unique acc x = (if x \<in> set acc then acc else acc @ [x])" by (auto simp: push_unique_def list_ex_iff)
  then show ?case using Cons by (auto intro: filter_cong)
qed simp

lemma demote_alt: "demote cs b = filter (\<lambda>t. t \<noteq> b) cs @ (if b \<in> set cs then [b] else [])"
proof -
  have "length (filter (\<lambda>t. t \<noteq> b) cs) = length cs \<longleftrightarrow> b \<notin> set cs"
    by (metis (mono_tags, lifting) filter_True length_filter_less less_irrefl)
  then show ?thesis by (simp add: demote_def)
qed

lemma foldl_demote:
  "distinct bs \<Longrightarrow> foldl demote cs bs = filter (\<lambda>t. t \<notin> set bs) cs @ filter (\<lambda>b. b \<in> set cs) bs"
proof (induction bs arbitrary: cs)
  case (Cons b bs)
  have "set (demote cs b) = set cs" by (auto simp: demote_alt)
  moreover have "filter (\<lambda>t. t \<notin> set bs) (demote cs b) =
      filter (\<lambda>t. t \<notin> set (b # bs)) cs @ (if b \<in> set cs then [b] else [])"
    using Cons.prems by (auto simp: demote_alt intro: filter_cong)
  ultimately show ?case using Cons by simp
qed simp

lemma active_distinct: "distinct (active_recipe_blacklist W r url)"
  by (simp add: active_recipe_blacklist_def push_unique_distinct split: option.splits)

definition recommendation :: "'u resolver_world \<Rightarrow> 'u ProxyResolver \<Rightarrow> 'u \<Rightarrow> ustr option" where
  "recommendation W r url = recipe_lookup r \<bind> (\<lambda>l. proxy_tier_recommended l (url_host_or_empty W url))"

text \<open>The chain to order: the configured one behind an applicable recommendation.\<close>

definition chain_of :: "'u resolver_world \<Rightarrow> 'u ProxyResolver \<Rightarrow> 'u \<Rightarrow> ustr list" where
  "chain_of W r url =
     (case recommendation W r url of
        Some rec \<Rightarrow> if rec \<in> set (active_recipe_blacklist W r url) then auto_chain (fallback_chain r)
                    else rec # auto_chain (fallback_chain r)
      | None \<Rightarrow> auto_chain (fallback_chain r))"

lemma promote_firsts: "firsts (fst (promote W r url (active_recipe_blacklist W r url))) = firsts (chain_of W r url)"
  by (auto simp: promote_def chain_of_def recommendation_def list_ex_iff firsts_filter intro: filter_cong split: option.splits)

lemma promote_set: "set (fst (promote W r url (active_recipe_blacklist W r url))) = set (chain_of W r url)"
  using promote_firsts [of W r url] set_firsts by metis

lemma candidates_alt:
  fixes W :: "'u resolver_world" and r :: "'u ProxyResolver" and url :: 'u
  defines "B \<equiv> active_recipe_blacklist W r url" and "cs \<equiv> chain_of W r url"
  shows "fst (auto_candidates W r url bound) =
    filter (\<lambda>t. usable r bound t \<and> t \<notin> set B) (firsts cs) @ filter (\<lambda>b. usable r bound b \<and> b \<in> set cs) B"
proof -
  let ?p = "fst (promote W r url B)"
  have "fst (auto_candidates W r url bound) = firsts (filter (usable r bound) (foldl demote ?p B))"
    by (simp add: auto_candidates_def Let_def case_prod_beta foldl_push_unique B_def)
  also have "\<dots> = filter (usable r bound) (firsts (filter (\<lambda>t. t \<notin> set B) ?p @ filter (\<lambda>b. b \<in> set cs) B))"
    using active_distinct [of W r url] promote_set [of W r url]
    by (simp only: foldl_demote firsts_filter B_def cs_def)
  also have "firsts (filter (\<lambda>t. t \<notin> set B) ?p @ filter (\<lambda>b. b \<in> set cs) B) =
      filter (\<lambda>t. t \<notin> set B) (firsts cs) @ filter (\<lambda>b. b \<in> set cs) B"
    using active_distinct [of W r url] promote_firsts [of W r url]
    by (auto simp: firsts_append firsts_filter firsts_distinct B_def cs_def intro: filter_cong)
  finally show ?thesis by (simp add: conj_commute)
qed

lemma candidates_usable: "t \<in> set (fst (auto_candidates W r url bound)) \<Longrightarrow> usable r bound t"
  by (auto simp: candidates_alt)

lemma candidates_distinct: "distinct (fst (auto_candidates W r url bound))"
  by (auto simp: candidates_alt active_distinct)

section \<open>Matching\<close>

text \<open>The rows that match; the best of them has the longest pattern and comes first among those.\<close>

definition row_matches :: "'u resolver_world \<Rightarrow> ustr \<Rightarrow> AuthorizedTarget \<Rightarrow> bool" where
  "row_matches W url t = (case regex_new W (url_pattern t) of Some re \<Rightarrow> re url | None \<Rightarrow> False)"

abbreviation pattern_len :: "AuthorizedTarget \<Rightarrow> nat" where
  "pattern_len t \<equiv> blen (url_pattern t)"

text \<open>The matching loop is the selection loop of the pool: its test on positions never decides.\<close>

lemma match_loop_pick_loop:
  assumes "\<And>l i t. best = Some (l, i, t) \<Longrightarrow> i < n"
  shows "map_option (\<lambda>(l, i, t). (l, t)) (match_loop W url (List.enumerate n ts) best) =
    pick_loop (row_matches W url) pattern_len ts (map_option (\<lambda>(l, i, t). (l, t)) best)"
  using assms
proof (induction ts arbitrary: n best)
  case (Cons t ts)
  let ?best = "case regex_new W (url_pattern t) of
      None \<Rightarrow> best
    | Some re \<Rightarrow> if \<not> re url then best
        else let len = pattern_len t in
          case best of
            None \<Rightarrow> Some (len, n, t)
          | Some (best_len, best_idx, x) \<Rightarrow>
              if len > best_len \<or> (len = best_len \<and> n < best_idx) then Some (len, n, t) else best"
  have "i < Suc n" if "?best = Some (l, i, u)" for l i u
    using that Cons.prems by (fastforce simp: Let_def split: option.splits if_splits)
  from Cons.IH [of ?best "Suc n", OF this]
  have "map_option (\<lambda>(l, i, t). (l, t)) (match_loop W url (List.enumerate n (t # ts)) best) =
      pick_loop (row_matches W url) pattern_len ts (map_option (\<lambda>(l, i, t). (l, t)) ?best)"
    by simp
  also have "\<dots> = pick_loop (row_matches W url) pattern_len (t # ts) (map_option (\<lambda>(l, i, t). (l, t)) best)"
    using Cons.prems by (auto simp: row_matches_def Let_def split: option.splits)
  finally show ?case .
qed simp

lemma match_iff:
  "match_authorized_target W r url = Some t \<longleftrightarrow>
     best_at (row_matches W (as_str (url_library W) url)) pattern_len (targets (authorized r)) t"
  and match_None:
  "match_authorized_target W r url = None \<longleftrightarrow>
     (\<forall>t \<in> set (targets (authorized r)). \<not> row_matches W (as_str (url_library W) url) t)"
proof -
  let ?ok = "row_matches W (as_str (url_library W) url)" and ?ts = "targets (authorized r)"
  have "match_authorized_target W r url =
      map_option snd (map_option (\<lambda>(l, i, t). (l, t)) (match_loop W (as_str (url_library W) url) (List.enumerate 0 ?ts) None))"
    by (auto simp: match_authorized_target_def option.map_comp comp_def intro!: option.map_cong)
  also have "\<dots> = map_option snd (pick_loop ?ok pattern_len ?ts None)"
    using match_loop_pick_loop [of None 0 W "as_str (url_library W) url" ?ts] by simp
  finally have m: "match_authorized_target W r url = map_option snd (pick_loop ?ok pattern_len ?ts None)" .
  show "match_authorized_target W r url = Some t \<longleftrightarrow> best_at ?ok pattern_len ?ts t"
    "match_authorized_target W r url = None \<longleftrightarrow> (\<forall>t \<in> set ?ts. \<not> ?ok t)"
    unfolding m by (rule pick_loop_iff)+
qed

section \<open>Selections\<close>

text \<open>A URL of a pool instance: the local proxy port of one of the configured instances.\<close>

definition pool_url :: "'u resolver_world \<Rightarrow> InstancePool \<Rightarrow> 'u \<Rightarrow> bool" where
  "pool_url W pool u \<longleftrightarrow> (\<exists>i \<in> set (instances pool). parse_url (url_library W) (instance_url i) = Inr u)"

lemma pick_by_name_in: "pick_by_name p nm = Some i \<Longrightarrow> i \<in> set (instances p) \<and> vi_name i = nm"
  by (auto simp: pick_by_name_def find_Some_iff in_set_conv_nth)

lemma pick_in: "pick x p now sess = Some i \<Longrightarrow> i \<in> set (instances p)"
  by (auto simp: pick_iff best_at_def)

lemma choose_instance_in: "choose_instance W pool sid forced fs = Some (i, c) \<Longrightarrow> i \<in> set (instances pool)"
  by (auto simp: choose_instance_def split: option.splits dest: pick_by_name_in pick_in)

lemma pick_pool_instance_Some:
  assumes "pick_pool_instance W r sid forced fs = (Some s, fs')"
  obtains tier pool i c u where
    "map_of (policy_proxies r) (lit ''surfshark'') = Some tier" "kind tier = PK_HttpPool" "state tier = Ready"
    "surfshark_pool r = Some pool" "choose_instance W pool sid forced fs = Some (i, c)"
    "parse_url (url_library W) (instance_url i) = Inr u" "fs' = remember W sid (i, c) fs"
    "s = \<lparr>ps_tier_name = lit ''surfshark'', ps_proxy_kind = PK_HttpPool, ps_proxy_url = Some u,
      ps_no_proxy = no_proxy tier, ps_strength = strength tier, ps_from_session_cache = c, ps_source = Explicit,
      ps_pool_healthy_count = Some (healthy_count pool (now_count W))\<rparr>"
  using assms unfolding pick_pool_instance_def
  by (auto split: option.splits if_splits sum.splits prod.splits)

lemma pool_selection_url:
  assumes "pick_pool_instance W r sid forced fs = (Some s, fs')"
  shows "\<exists>pool u. surfshark_pool r = Some pool \<and> ps_proxy_url s = Some u \<and> pool_url W pool u"
  using assms by (elim pick_pool_instance_Some) (auto simp: pool_url_def dest: choose_instance_in)

text \<open>What a successful selection is.\<close>

definition selected :: "'u resolver_world \<Rightarrow> 'u ProxyResolver \<Rightarrow> ProxyStrength \<Rightarrow> 'u ProxySelection \<Rightarrow> bool" where
  "selected W r bound s \<longleftrightarrow> (\<exists>tier. map_of (policy_proxies r) (ps_tier_name s) = Some tier \<and> state tier = Ready \<and>
     bound \<le> strength tier \<and> ps_strength s = strength tier \<and> ps_proxy_kind s = kind tier \<and>
     ps_no_proxy s = no_proxy tier \<and>
     (case kind tier of
        PK_None \<Rightarrow> ps_proxy_url s = None
      | PK_HttpPool \<Rightarrow> \<exists>pool u. surfshark_pool r = Some pool \<and> ps_proxy_url s = Some u \<and> pool_url W pool u
      | _ \<Rightarrow> ps_proxy_url s \<noteq> None \<and> ps_proxy_url s = proxy_url tier))"

lemma selection_sound:
  assumes "resolver_ok r" "selection_for_tier W r sid name bound src fs = (Inr s, fs')"
  shows "selected W r bound s \<and> ps_tier_name s = name \<and> ps_source s = src"
proof -
  obtain tier where t: "map_of (policy_proxies r) name = Some tier" "state tier = Ready" "\<not> strength tier < bound"
    using assms(2) by (auto simp: selection_for_tier_def split: option.splits TierState.splits if_splits)
  then have ok: "tier_ok tier" using assms(1) by (auto simp: resolver_ok_def)
  show ?thesis
  proof (cases "kind tier")
    case PK_HttpPool
    then obtain s0 where "pick_pool_instance W r sid None fs = (Some s0, fs')" "ps_proxy_url s = ps_proxy_url s0"
        "s = \<lparr>ps_tier_name = name, ps_proxy_kind = kind tier, ps_proxy_url = ps_proxy_url s0, ps_no_proxy = no_proxy tier,
           ps_strength = strength tier, ps_from_session_cache = ps_from_session_cache s0, ps_source = src,
           ps_pool_healthy_count = ps_pool_healthy_count s0\<rparr>"
      using assms(2) t by (auto simp: selection_for_tier_def Let_def split: option.splits prod.splits)
    then show ?thesis using pool_selection_url [of W r sid None fs s0 fs'] t PK_HttpPool by (simp add: selected_def not_less)
  qed (use assms(2) t ok in \<open>auto simp: selection_for_tier_def Let_def selected_def tier_ok_def not_less\<close>)
qed

text \<open>The errors of a tier that is usable for the bound.\<close>

lemma selection_usable:
  assumes "usable r bound name" "selection_for_tier W r sid name bound src fs = (Inl e, fs')"
  shows "e = TierUnavailable name (lit ''http-pool has no healthy instances'')"
  using assms by (auto simp: usable_def selection_for_tier_def Let_def
      split: option.splits ProxyKind.splits prod.splits if_splits)

lemma auto_first:
  assumes "auto_candidates W r url bound = (name # rest, pr)"
  shows "usable r bound name"
  using candidates_usable [of name W r url bound] assms by simp

section \<open>Walking down the chain\<close>

lemma position_Some: "position x xs = Some k \<Longrightarrow> k < length xs \<and> xs ! k = x"
  by (induction xs arbitrary: k) (auto split: if_splits)

lemma position_nth: "distinct xs \<Longrightarrow> k < length xs \<Longrightarrow> position (xs ! k) xs = Some k"
proof (induction xs arbitrary: k)
  case (Cons x xs)
  then show ?case by (cases k) auto
qed simp

lemma selection_name: "selection_for_tier W r sid name bound src fs = (Inr s, fs') \<Longrightarrow> ps_tier_name s = name"
  by (auto simp: selection_for_tier_def Let_def split: option.splits TierState.splits if_splits ProxyKind.splits prod.splits)

text \<open>The candidates depend on the URL library and the expression engine only.\<close>

lemma match_cong:
  assumes "url_library W' = url_library W" "regex_new W' = regex_new W"
  shows "match_authorized_target W' r url = match_authorized_target W r url"
proof -
  have "match_loop W' u xs b = match_loop W u xs b" for u xs b
    using assms(2) by (induction W u xs b rule: match_loop.induct) (simp_all split: option.splits)
  then show ?thesis using assms(1) by (simp add: match_authorized_target_def)
qed

lemma candidates_cong:
  assumes "url_library W' = url_library W"
  shows "auto_candidates W' r url bound = auto_candidates W r url bound"
  using assms by (simp add: auto_candidates_def active_recipe_blacklist_def promote_def url_host_or_empty_def cong: option.case_cong)

lemma next_fallback_advances:
  assumes "next_fallback W r url sid t sig fs = (Some s, fs')" "max_attempts_per_tier (fallback_chain r) \<le> 1"
  shows "\<exists>k. Suc k < length (fst (auto_candidates W r url (floor_of (match_authorized_target W r url)))) \<and>
    t = fst (auto_candidates W r url (floor_of (match_authorized_target W r url))) ! k \<and>
    ps_tier_name s = fst (auto_candidates W r url (floor_of (match_authorized_target W r url))) ! Suc k"
  using assms unfolding next_fallback_def
  by (auto simp: Let_def ok_part_def split: option.splits if_splits prod.splits sum.splits
      dest!: position_Some selection_name) (metis not_le)

lemma steps_follow:
  assumes "distinct cs" "ts \<noteq> []"
    and "\<And>i. Suc i < length ts \<Longrightarrow> \<exists>k. Suc k < length cs \<and> ts ! i = cs ! k \<and> ts ! Suc i = cs ! Suc k"
  shows "distinct ts \<and> length ts \<le> max 1 (length cs)"
proof (cases "length ts = 1")
  case True
  then show ?thesis by (auto simp: length_Suc_conv)
next
  case False
  then have "Suc 0 < length ts" using assms(2) by (cases ts) auto
  from assms(3) [OF this] obtain k where k: "Suc k < length cs" "ts ! 0 = cs ! k" by auto
  have at: "i < length ts \<Longrightarrow> k + i < length cs \<and> ts ! i = cs ! (k + i)" for i
  proof (induction i)
    case (Suc i)
    then obtain j where j: "Suc j < length cs" "ts ! i = cs ! j" "ts ! Suc i = cs ! Suc j" using assms(3) by blast
    have "k + i < length cs" "ts ! i = cs ! (k + i)" using Suc by simp_all
    then have "j = k + i" using j(1,2) assms(1) nth_eq_iff_index_eq [of cs j "k + i"] by simp
    then show ?case using j by simp
  qed (use k in simp)
  have "distinct ts" using at assms(1) by (auto simp: distinct_conv_nth)
  moreover have "length ts \<le> length cs" using at [of "length ts - 1"] assms(2) by (cases ts) auto
  ultimately show ?thesis by simp
qed

section \<open>A small configuration\<close>

definition demo_sessions :: sess_env where
  "demo_sessions = \<lparr>home_var = Some (lit ''/h''), to_text = (\<lambda>_. []), from_text = (\<lambda>_. None), read_ok = True, mkdir_ok = True,
     write_out = Written, unix_secs = 0\<rparr>"

definition demo_world :: "ustr resolver_world" where
  "demo_world = \<lparr>url_library = demo_lib, regex_new = (\<lambda>p. Some (prefix p)), xxh3_64 = (\<lambda>_. 0), now_pick = (\<lambda>_. 0),
     now_count = (\<lambda>_. 0), sessions = demo_sessions\<rparr>"

definition demo_pool :: InstancePool where
  "demo_pool = with_seed (with_failure_policy [\<lparr>vi_name = lit ''v'', http_proxy_port = 81, control_port = 82\<rparr>]
     \<lparr>threshold = 1, cooldown = 1\<rparr>) 0"

definition demo_resolver :: "ustr ProxyResolver" where
  "demo_resolver =
     \<lparr>policy_proxies = [(lit ''direct'', direct_tier), (lit ''surfshark'', surfshark_tier)],
      authorized = \<lparr>targets = [\<lparr>url_pattern = lit ''http'', proxy_tier = lit ''auto'', min_proxy_strength = Datacenter\<rparr>,
        \<lparr>url_pattern = lit ''https://lan'', proxy_tier = lit ''direct'', min_proxy_strength = PS_None\<rparr>]\<rparr>,
      fallback_chain = FallbackChain_default, surfshark_pool = Some demo_pool, require_vpn = True, recipe_lookup = None\<rparr>"

definition empty_fs :: sess_fs where
  "empty_fs = \<lparr>sess_dirs = (\<lambda>_. False), sess_files = (\<lambda>_. None)\<rparr>"

lemma fst_SomeD: "map_option f (fst p) = Some x \<Longrightarrow> \<exists>s t. p = (Some s, t) \<and> f s = x"
  by (cases p) auto

lemma fst_InrD: "\<not> isl (fst p) \<Longrightarrow> \<exists>x t. p = (Inr x, t)"
  by (cases p; cases "fst p") auto

lemma demo_resolver_ok: "resolver_ok demo_resolver"
  by (auto simp: resolver_ok_def demo_resolver_def tier_ok_def target_ok_def direct_tier_def surfshark_tier_def
      less_eq_ProxyStrength_def split: if_splits)

section \<open>Resolving\<close>

text \<open>The tier the request asks for: the forced one, or the matching target's.\<close>

lemma resolve_selected_tier:
  assumes "resolver_ok r" "resolve W r url sid forced fs = (Inr s, fs')"
  shows "selected W r (floor_of (match_authorized_target W r url)) s \<and>
    (\<exists>eff. (case forced of Some f \<Rightarrow> Some f | None \<Rightarrow> map_option proxy_tier (match_authorized_target W r url)) = Some eff \<and>
       (eff \<noteq> lit ''auto'' \<longrightarrow> ps_tier_name s = eff))"
proof -
  let ?t = "match_authorized_target W r url"
  obtain eff where eff: "(case forced of Some f \<Rightarrow> Some f | None \<Rightarrow> map_option proxy_tier ?t) = Some eff"
      "(if eff = lit ''auto'' then resolve_auto W r url sid (floor_of ?t) fs
        else selection_for_tier W r sid eff (floor_of ?t) Explicit fs) = (Inr s, fs')"
    using assms(2) unfolding resolve_def Let_def
    by (cases "case forced of Some f \<Rightarrow> Some f | None \<Rightarrow> map_option proxy_tier ?t") auto
  have "selected W r (floor_of ?t) s \<and> (eff \<noteq> lit ''auto'' \<longrightarrow> ps_tier_name s = eff)"
  proof (cases "eff = lit ''auto''")
    case True
    then obtain name src where "selection_for_tier W r sid name (floor_of ?t) src fs = (Inr s, fs')"
      using eff(2) by (auto simp: resolve_auto_def split: prod.splits list.splits)
    then show ?thesis using selection_sound [OF assms(1)] True by blast
  next
    case False
    then show ?thesis using selection_sound [OF assms(1)] eff(2) by auto
  qed
  then show ?thesis using eff(1) by blast
qed

lemmas resolve_selected = resolve_selected_tier [THEN conjunct1]

section \<open>Properties\<close>

text \<open>
  C15. A resolved request is routed as configured: the bound is the strength demanded by the best matching
  authorized target, which is the first one with the longest matching pattern; the chosen tier is
  declared, ready and at least that strong; a tier with a proxy yields a proxy URL, of a configured
  pool instance for a pool tier, and only a tier of kind none yields a direct connection; and an explicit
  or target-given tier is never replaced by another.
\<close>

theorem resolve_sound:
  assumes "resolver_ok r" "resolve W r url sid forced fs = (Inr s, fs')"
  shows "\<exists>t. (t = None \<and> (\<forall>x \<in> set (targets (authorized r)). \<not> row_matches W (as_str (url_library W) url) x) \<or>
      (\<exists>x. t = Some x \<and>
         best_at (row_matches W (as_str (url_library W) url)) pattern_len (targets (authorized r)) x)) \<and>
    selected W r (floor_of t) s \<and>
    (\<forall>name. (case forced of Some f \<Rightarrow> Some f | None \<Rightarrow> map_option proxy_tier t) = Some name \<longrightarrow>
       name \<noteq> lit ''auto'' \<longrightarrow> ps_tier_name s = name)"
proof -
  have "match_authorized_target W r url = None \<and>
        (\<forall>x \<in> set (targets (authorized r)). \<not> row_matches W (as_str (url_library W) url) x) \<or>
      (\<exists>x. match_authorized_target W r url = Some x \<and>
        best_at (row_matches W (as_str (url_library W) url)) pattern_len (targets (authorized r)) x)"
    using match_None [of W r url] match_iff [of W r url] by (cases "match_authorized_target W r url") auto
  then show ?thesis using resolve_selected_tier [OF assms] by (intro exI [of _ "match_authorized_target W r url"]) auto
qed

theorem resolve_sound_witness:
  "\<exists>s fs'. resolve demo_world demo_resolver (lit ''http://x'') (lit ''s'') None empty_fs = (Inr s, fs') \<and>
     (\<exists>t. selected demo_world demo_resolver (floor_of t) s)"
proof -
  have "\<not> isl (fst (resolve demo_world demo_resolver (lit ''http://x'') (lit ''s'') None empty_fs))" by code_simp
  then obtain s fs' where "resolve demo_world demo_resolver (lit ''http://x'') (lit ''s'') None empty_fs = (Inr s, fs')"
    using fst_InrD by blast
  then show ?thesis using resolve_sound [OF demo_resolver_ok] by blast
qed

text \<open>
  Load-time validation is enough: for a loaded configuration, a request without a forced tier fails
  only because no authorized target matches, because the target's tier was disabled at load, because
  the pool has no usable instance, or because no tier of the automatic chain is eligible; it never
  meets an undeclared tier or one that is too weak.
\<close>

lemma authorized_errors:
  assumes "resolver_ok r" "resolve W r url sid None fs = (Inl e, fs')"
  shows "(e = NoAuthorizedMatch (as_str (url_library W) url) \<and> match_authorized_target W r url = None) \<or>
    (\<exists>t. match_authorized_target W r url = Some t \<and>
       ((proxy_tier t = lit ''auto'' \<and> (\<forall>name. name \<in> set (chain_of W r url) \<longrightarrow> \<not> usable r (min_proxy_strength t) name) \<and>
           e = NoEligibleTier (as_str (url_library W) url)) \<or>
        (\<exists>name. e = TierUnavailable name (lit ''http-pool has no healthy instances'')) \<or>
        (\<exists>tier reason. map_of (policy_proxies r) (proxy_tier t) = Some tier \<and> state tier = Disabled reason \<and>
           e = TierUnavailable (proxy_tier t) reason)))"
proof (cases "match_authorized_target W r url")
  case None
  then show ?thesis using assms(2) by (simp add: resolve_def)
next
  case (Some t)
  then have tin: "t \<in> set (targets (authorized r))" by (auto simp: match_iff best_at_def)
  show ?thesis
  proof (cases "proxy_tier t = lit ''auto''")
    case True
    then have a: "resolve_auto W r url sid (min_proxy_strength t) fs = (Inl e, fs')"
      using assms(2) Some by (simp add: resolve_def floor_of_def)
    show ?thesis
    proof (cases "fst (auto_candidates W r url (min_proxy_strength t))")
      case Nil
      then have "e = NoEligibleTier (as_str (url_library W) url)"
        using a by (auto simp: resolve_auto_def split: prod.splits list.splits)
      moreover have "\<not> usable r (min_proxy_strength t) name" if "name \<in> set (chain_of W r url)" for name
        using Nil that by (auto simp: candidates_alt filter_empty_conv)
      ultimately show ?thesis using Some True by blast
    next
      case (Cons name rest)
      then obtain src where "selection_for_tier W r sid name (min_proxy_strength t) src fs = (Inl e, fs')"
        using a by (auto simp: resolve_auto_def split: prod.splits list.splits)
      moreover have "usable r (min_proxy_strength t) name"
        using candidates_usable [of name W r url "min_proxy_strength t"] Cons by simp
      ultimately show ?thesis using selection_usable Some by blast
    qed
  next
    case False
    then have sel: "selection_for_tier W r sid (proxy_tier t) (min_proxy_strength t) Explicit fs = (Inl e, fs')"
      using assms(2) Some by (simp add: resolve_def floor_of_def)
    obtain tier where tier: "map_of (policy_proxies r) (proxy_tier t) = Some tier" "min_proxy_strength t \<le> strength tier"
      using assms(1) tin False by (auto simp: resolver_ok_def target_ok_def)
    show ?thesis
    proof (cases "state tier")
      case Ready
      then have "usable r (min_proxy_strength t) (proxy_tier t)" using tier by (simp add: usable_def)
      then show ?thesis using selection_usable sel Some by blast
    next
      case (Disabled reason)
      then show ?thesis using sel tier Some by (simp add: selection_for_tier_def)
    qed
  qed
qed

text \<open>
  The automatic chain is ordered as intended: a recommendation that is not blacklisted goes first,
  tiers on the active blacklist go last in the blacklist's order, everything else keeps its
  configured order at its first position, and exactly the tiers that are declared, ready and strong
  enough remain, each once.
\<close>

lemma auto_candidates_exact:
  "fst (auto_candidates W r url bound) =
     filter (\<lambda>t. usable r bound t \<and> t \<notin> set (active_recipe_blacklist W r url)) (firsts (chain_of W r url)) @
     filter (\<lambda>b. usable r bound b \<and> b \<in> set (chain_of W r url)) (active_recipe_blacklist W r url) \<and>
   distinct (fst (auto_candidates W r url bound)) \<and>
   set (fst (auto_candidates W r url bound)) = {t \<in> set (chain_of W r url). usable r bound t}"
  by (intro conjI candidates_alt candidates_distinct) (auto simp: candidates_alt)

text \<open>
  C16. Falling back ends: with one attempt per tier, tiers obtained by asking for the next tier again and
  again, after whatever failures and in whatever sessions, are pairwise different, so there are at
  most as many as the chain has candidates.
\<close>

theorem fallback_terminates:
  assumes "max_attempts_per_tier (fallback_chain r) \<le> 1" "ts \<noteq> []"
    and "\<forall>i. Suc i < length ts \<longrightarrow> (\<exists>W' sid sig fs s fs'. url_library W' = url_library W \<and> regex_new W' = regex_new W \<and>
      next_fallback W' r url sid (ts ! i) sig fs = (Some s, fs') \<and> ps_tier_name s = ts ! Suc i)"
  shows "distinct ts \<and>
    length ts \<le> max 1 (length (fst (auto_candidates W r url (floor_of (match_authorized_target W r url)))))"
proof (rule steps_follow)
  let ?cs = "fst (auto_candidates W r url (floor_of (match_authorized_target W r url)))"
  show "distinct ?cs" by (rule candidates_distinct)
  show "ts \<noteq> []" by (rule assms(2))
  fix i assume "Suc i < length ts"
  then obtain W' sid sig fs s fs' where n: "url_library W' = url_library W" "regex_new W' = regex_new W"
      "next_fallback W' r url sid (ts ! i) sig fs = (Some s, fs')" "ps_tier_name s = ts ! Suc i"
    using assms(3) by blast
  show "\<exists>k. Suc k < length ?cs \<and> ts ! i = ?cs ! k \<and> ts ! Suc i = ?cs ! Suc k"
    using next_fallback_advances [OF n(3) assms(1)] n(4) match_cong [OF n(1,2), of r url] candidates_cong [OF n(1), of r url]
    by simp
qed

theorem fallback_terminates_witness:
  "max_attempts_per_tier (fallback_chain demo_resolver) \<le> 1 \<and>
   length [lit ''direct'', lit ''surfshark''] \<le> max 1 (length (fst (auto_candidates demo_world demo_resolver (lit ''ftp'')
     (floor_of (match_authorized_target demo_world demo_resolver (lit ''ftp''))))))"
proof -
  have m: "max_attempts_per_tier (fallback_chain demo_resolver) \<le> 1" by code_simp
  have n: "map_option ps_tier_name (fst (next_fallback demo_world demo_resolver (lit ''ftp'') [] (lit ''direct'') Timeout empty_fs)) =
      Some (lit ''surfshark'')" by code_simp
  obtain s fs' where "next_fallback demo_world demo_resolver (lit ''ftp'') [] (lit ''direct'') Timeout empty_fs = (Some s, fs')"
      "ps_tier_name s = lit ''surfshark''"
    using fst_SomeD [OF n] by blast
  then have "\<forall>i. Suc i < length [lit ''direct'', lit ''surfshark''] \<longrightarrow> (\<exists>W' sid sig fs s fs'.
      url_library W' = url_library demo_world \<and> regex_new W' = regex_new demo_world \<and>
      next_fallback W' demo_resolver (lit ''ftp'') sid ([lit ''direct'', lit ''surfshark''] ! i) sig fs = (Some s, fs') \<and>
      ps_tier_name s = [lit ''direct'', lit ''surfshark''] ! Suc i)"
    by (auto simp: less_Suc_eq intro!: exI [of _ demo_world]) blast
  from fallback_terminates [OF m _ this] m show ?thesis by simp
qed

text \<open>
  A session is bound to its instance: once a session's pick has been written to its file, every later
  pick of the session, by any process with the same home directory, answers with the same proxy URL
  as long as the file is readable and the instance is configured. The health of the instances plays no
  part: the binding holds even when every instance of the pool is excluded as failed.
\<close>

lemma session_bound:
  assumes "pick_pool_instance W r sid None fs = (Some s, fs1)" "\<not> ps_from_session_cache s"
    and "write_out (sessions W) = Written" "mkdir_ok (sessions W)" "home_var (sessions W) = Some h"
    and "\<forall>n. from_text (sessions W') (to_text (sessions W) (session_body (sessions W) sid n)) =
      Some (session_body (sessions W) sid n)"
    and "home_var (sessions W') = Some h" "read_ok (sessions W')" "url_library W' = url_library W"
    and "surfshark_pool r = Some pool" "distinct (map vi_name (instances pool))" "instances pool' = instances pool"
  shows "\<exists>s'. pick_pool_instance W' (with_surfshark_pool r pool') sid None fs1 = (Some s', fs1) \<and>
    ps_proxy_url s' = ps_proxy_url s \<and> ps_from_session_cache s'"
proof -
  obtain tier i u where d: "map_of (policy_proxies r) (lit ''surfshark'') = Some tier" "kind tier = PK_HttpPool"
      "state tier = Ready" "choose_instance W pool sid None fs = Some (i, False)"
      "parse_url (url_library W) (instance_url i) = Inr u" "fs1 = remember W sid (i, False) fs" "ps_proxy_url s = Some u"
    using assms(1,2,10) by (elim pick_pool_instance_Some) auto
  let ?dir = "path_join (path_join h (lit ''.rev_scraping'')) (lit ''sessions'')"
  have dir: "default_session_dir (sessions W) = Some ?dir" "default_session_dir (sessions W') = Some ?dir"
    using assms(5,7) by (simp_all add: default_session_dir_def directory_home_def)
  have "persist_session (sessions W) ?dir sid (vi_name i) fs = (True, fs1)"
    using d(6) dir(1) assms(3,4) by (simp add: remember_def persist_session_def write_text_def)
  then have cached: "load_session (sessions W') ?dir sid fs1 = Some (vi_name i)"
    using session_round_trip [of "sessions W'" "sessions W" sid "vi_name i" ?dir fs fs1] assms(6,8) by blast
  have "i \<in> set (instances pool)" using d(4) by (rule choose_instance_in)
  then have "pick_by_name pool' (vi_name i) = Some i"
    using assms(11,12) by (auto simp: pick_by_name_def find_Some_iff in_set_conv_nth distinct_conv_nth)
  then have "choose_instance W' pool' sid None fs1 = Some (i, True)"
    using cached dir(2) by (simp add: choose_instance_def)
  then show ?thesis using d assms(9)
    by (simp add: pick_pool_instance_def with_surfshark_pool_def remember_def)
qed

definition body_sessions :: sess_env where
  "body_sessions = demo_sessions\<lparr>to_text := (\<lambda>v. case v of JObj m \<Rightarrow> (case map_of m (lit ''instance'') of Some (JStr n) \<Rightarrow> n | _ \<Rightarrow> []) | _ \<Rightarrow> []),
     from_text := (\<lambda>n. Some (session_body demo_sessions (lit ''s'') n))\<rparr>"

definition sticky_world :: "ustr resolver_world" where
  "sticky_world = demo_world\<lparr>sessions := body_sessions\<rparr>"

text \<open>The pool after its only instance failed at time zero.\<close>

definition failed_pool :: InstancePool where
  "failed_pool = mark_failure demo_pool (lit ''v'') 0 0"

end
