(* ===== verification/Vpn_Selector.thy ===== *)
theory Vpn_Selector
  imports Egress_Policy Proxy_Resolver Exit_Codes
begin

text \<open>
  The bridge between policy and pool (\<^verbatim>\<open>crates/stealth-cli/src/vpn_selector.rs\<close>): building the pool and
  the resolver from the policy, selecting an egress for a session, and translating resolver errors
  into exit codes.

  \<^verbatim>\<open>choose_instance\<close>, \<^verbatim>\<open>instance_url\<close> and \<^verbatim>\<open>remember\<close> of the resolver are the very statements of
  \<^verbatim>\<open>select\<close> here. A hard-coded URL that does not parse would panic: \<open>None\<close> in the outer option.
\<close>

section \<open>Definitions\<close>

record 'u Selection =
  instance_name :: ustr
  sel_proxy_url :: 'u
  sel_healthy_count :: nat
  from_session_cache :: bool

definition Selection_to_json :: "'u resolver_world \<Rightarrow> 'u Selection \<Rightarrow> json" where
  "Selection_to_json W s =
     JObj (bt_of [(lit ''vpn_instance_used'', JStr (instance_name s)),
       (lit ''vpn_proxy_url'', JStr (as_str (url_library W) (sel_proxy_url s))),
       (lit ''vpn_pool_healthy_count'', JNumber (PosInt (sel_healthy_count s))),
       (lit ''vpn_from_session_cache'', JBool (from_session_cache s))])"

datatype SelectionConversionError = EmptyInstanceName | UnsupportedProxyScheme ustr

fun conversion_error_text :: "(ustr \<Rightarrow> ustr) \<Rightarrow> SelectionConversionError \<Rightarrow> ustr" where
  "conversion_error_text quote EmptyInstanceName = lit ''selection instance_name is empty''"
| "conversion_error_text quote (UnsupportedProxyScheme sch) = lit ''selection proxy_url uses unsupported scheme '' @ quote sch"

definition Selection_from :: "'u resolver_world \<Rightarrow> 'u ProxySelection \<Rightarrow> 'u Selection option" where
  "Selection_from W v =
     map_option (\<lambda>u. \<lparr>instance_name = ps_tier_name v, sel_proxy_url = u,
         sel_healthy_count = (case ps_pool_healthy_count v of Some n \<Rightarrow> n | None \<Rightarrow> 0),
         from_session_cache = ps_from_session_cache v\<rparr>)
       (case ps_proxy_url v of
          Some u \<Rightarrow> Some u
        | None \<Rightarrow> (case parse_url (url_library W) (lit ''http://127.0.0.1:0/'') of Inr u \<Rightarrow> Some u | Inl _ \<Rightarrow> None))"

definition ProxySelection_try_from :: "'u resolver_world \<Rightarrow> 'u Selection \<Rightarrow> SelectionConversionError + 'u ProxySelection" where
  "ProxySelection_try_from W v =
     (if instance_name v = [] then Inl EmptyInstanceName
      else let sch = url_scheme (url_library W) (sel_proxy_url v) in
        and_then
          (if sch = lit ''http'' \<or> sch = lit ''https'' then Inr PK_HttpPool
           else if sch = lit ''socks5'' \<or> sch = lit ''socks5h'' then Inr PK_Socks5
           else Inl (UnsupportedProxyScheme sch))
          (\<lambda>k. Inr \<lparr>ps_tier_name = lit ''surfshark'', ps_proxy_kind = k, ps_proxy_url = Some (sel_proxy_url v),
             ps_no_proxy = [], ps_strength = Datacenter, ps_from_session_cache = from_session_cache v,
             ps_source = Explicit, ps_pool_healthy_count = Some (sel_healthy_count v)\<rparr>))"

definition pool_instance_of :: "PolicyVpnInstance \<Rightarrow> VpnInstance" where
  "pool_instance_of v =
     \<lparr>vi_name = pv_name v, http_proxy_port = pv_http_proxy_port v, control_port = pv_control_port v\<rparr>"

definition build_pool :: "Policy \<Rightarrow> InstancePool" where
  "build_pool p = InstancePool_new (map pool_instance_of (vpn_instances p))"

definition resolver_policy_of :: "Policy \<Rightarrow> ResolverPolicy" where
  "resolver_policy_of p =
     \<lparr>rp_require_vpn = pol_require_vpn p, rp_vpn_required_country = vpn_required_country p,
      rp_vpn_instances = map (\<lambda>v. \<lparr>vr_name = pv_name v, vr_http_proxy_port = pv_http_proxy_port v,
        vr_control_port = pv_control_port v\<rparr>) (vpn_instances p),
      rp_proxies = proxies p,
      rp_fallback_chain = (pol_fallback_chain p)
        \<lparr>auto_chain := (if pol_fallback_chain p = FallbackChain_default \<and> pol_require_vpn p then [lit ''surfshark'']
                        else auto_chain (pol_fallback_chain p))\<rparr>\<rparr>"

definition build_resolver :: "'u resolver_world \<Rightarrow> (ustr \<Rightarrow> ustr option) \<Rightarrow> Policy \<Rightarrow> ProxyResolverError + 'u ProxyResolver" where
  "build_resolver W env p =
     and_then (ProxyResolver_load (url_library W) env (resolver_policy_of p) AuthorizedTargets_default) (\<lambda>r.
     if vpn_instances p = [] then Inr r else Inr (with_surfshark_pool r (build_pool p)))"

definition select :: "'u resolver_world \<Rightarrow> InstancePool \<Rightarrow> ustr \<Rightarrow> ustr option \<Rightarrow> sess_fs \<Rightarrow> 'u Selection option \<times> sess_fs" where
  "select W pool session_id forced_name fs =
     (case choose_instance W pool session_id forced_name fs of
        None \<Rightarrow> (None, fs)
      | Some (i, from_cache) \<Rightarrow>
          (case parse_url (url_library W) (instance_url i) of
             Inl _ \<Rightarrow> (None, fs)
           | Inr u \<Rightarrow>
               (Some \<lparr>instance_name = vi_name i, sel_proxy_url = u, sel_healthy_count = healthy_count pool (now_count W),
                  from_session_cache = from_cache\<rparr>,
                remember W session_id (i, from_cache) fs)))"

definition selection_from_proxy :: "'u resolver_world \<Rightarrow> 'u ProxySelection option \<Rightarrow> 'u Selection option option" where
  "selection_from_proxy W p =
     (case p of
        None \<Rightarrow> Some None
      | Some s \<Rightarrow>
          if ps_proxy_kind s = PK_None \<or> ps_proxy_url s = None then Some None
          else map_option Some (Selection_from W s))"

definition select_with_resolver ::
  "'u resolver_world \<Rightarrow> 'u ProxyResolver \<Rightarrow> 'u \<Rightarrow> ustr \<Rightarrow> ustr option \<Rightarrow> sess_fs \<Rightarrow> 'u Selection option option \<times> sess_fs" where
  "select_with_resolver W r url session_id forced_tier fs =
     (case resolve W r url session_id forced_tier fs of
        (Inr s, fs1) \<Rightarrow>
          (if ps_proxy_kind s = PK_None \<or> ps_proxy_url s = None then Some None else map_option Some (Selection_from W s), fs1)
      | (Inl _, fs1) \<Rightarrow>
          if forced_tier \<in> {None, Some (lit ''auto''), Some (lit ''surfshark'')}
          then (case pick_pool_instance W r session_id None fs1 of
                  (None, fs2) \<Rightarrow> (Some None, fs2)
                | (Some s, fs2) \<Rightarrow> (map_option Some (Selection_from W s), fs2))
          else (Some None, fs1))"

definition validate_proxy_args :: "ustr option \<Rightarrow> ustr option \<Rightarrow> Phase2Exit + unit" where
  "validate_proxy_args vpn_instance tier =
     (if vpn_instance \<noteq> None \<and> (case tier of Some t \<Rightarrow> t \<noteq> lit ''surfshark'' | None \<Rightarrow> False)
      then Inl P2_Transient else Inr ())"

definition select_proxy_with_resolver ::
  "'u resolver_world \<Rightarrow> 'u ProxyResolver \<Rightarrow> 'u \<Rightarrow> ustr \<Rightarrow> ustr option \<Rightarrow> ustr option \<Rightarrow> sess_fs \<Rightarrow>
     (ResolveError + 'u ProxySelection option) \<times> sess_fs" where
  "select_proxy_with_resolver W r url session_id tier vpn_instance fs =
     (case tier of
        None \<Rightarrow> (Inr None, fs)
      | Some t \<Rightarrow>
          if t = lit ''surfshark'' \<and> vpn_instance \<noteq> None
          then (case pick_pool_instance W r session_id vpn_instance fs of
                  (Some s, fs1) \<Rightarrow> (Inr (Some s), fs1)
                | (None, fs1) \<Rightarrow>
                    (Inl (TierUnavailable (lit ''surfshark'') (lit ''http-pool has no healthy instances'')), fs1))
          else (case resolve W r url session_id (Some t) fs of (res, fs1) \<Rightarrow> (map_sum id Some res, fs1)))"

fun selection_source_label :: "SelectionSource \<Rightarrow> ustr" where
  "selection_source_label Explicit = lit ''Explicit''"
| "selection_source_label RecipeRecommendation = lit ''RecipeRecommendation''"
| "selection_source_label (AutoFallback idx) = lit ''AutoFallback('' @ digits_of idx @ lit '')''"

fun fail_signal_label :: "FailSignal \<Rightarrow> ustr" where
  "fail_signal_label Timeout = lit ''timeout''"
| "fail_signal_label Http403 = lit ''http_403''"
| "fail_signal_label Http429 = lit ''http_429''"
| "fail_signal_label TlsHandshakeFailed = lit ''tls_handshake_failed''"
| "fail_signal_label ConnectionRefused = lit ''connection_refused''"

definition record_proxy_attempt :: "json list \<Rightarrow> ustr \<Rightarrow> ustr \<Rightarrow> json list" where
  "record_proxy_attempt attempts tier sig =
     attempts @ [JObj (bt_of [(lit ''tier'', JStr tier), (lit ''signal'', JStr sig)])]"

definition default_proxy_attempts :: "'u ProxySelection option \<Rightarrow> json list" where
  "default_proxy_attempts p =
     (case p of Some s \<Rightarrow> record_proxy_attempt [] (ps_tier_name s) (lit ''ok'') | None \<Rightarrow> [])"

definition rotate_proxy_on_signal ::
  "'u resolver_world \<Rightarrow> 'u ProxyResolver \<Rightarrow> 'u \<Rightarrow> ustr \<Rightarrow> 'u ProxySelection \<Rightarrow> FailSignal \<Rightarrow> bool \<Rightarrow> json list \<Rightarrow> sess_fs \<Rightarrow>
     'u ProxySelection option \<times> json list \<times> sess_fs" where
  "rotate_proxy_on_signal W r url session_id current sig no_fallback attempts fs =
     (let attempts1 = record_proxy_attempt attempts (ps_tier_name current) (fail_signal_label sig) in
      if no_fallback then (None, attempts1, fs)
      else case next_fallback W r url session_id (ps_tier_name current) sig fs of
          (None, fs1) \<Rightarrow> (None, attempts1, fs1)
        | (Some n, fs1) \<Rightarrow> (Some n, record_proxy_attempt attempts1 (ps_tier_name n) (lit ''ok''), fs1))"

fun strength_debug :: "ProxyStrength \<Rightarrow> ustr" where
  "strength_debug PS_None = lit ''None''"
| "strength_debug Datacenter = lit ''Datacenter''"
| "strength_debug Residential = lit ''Residential''"
| "strength_debug Mobile = lit ''Mobile''"

fun proxy_resolve_exit :: "(ustr \<Rightarrow> ustr) \<Rightarrow> ResolveError \<Rightarrow> Phase2Exit \<times> ustr" where
  "proxy_resolve_exit quote (UnknownTier tier) =
     (P2_Transient, lit ''unknown proxy tier '' @ [39] @ tier @ [39])"
| "proxy_resolve_exit quote (TierBelowFloor tier actual required) =
     (P2_Leak, lit ''tier '' @ tier @ lit '' strength='' @ strength_debug actual @ lit '' below required '' @ strength_debug required)"
| "proxy_resolve_exit quote (NoEligibleTier url) = (P2_ProxyExhausted, lit ''all proxy tiers failed'')"
| "proxy_resolve_exit quote (TierUnavailable tier reason) =
     (P2_Transient, lit ''proxy tier '' @ quote tier @ lit '' is currently unavailable: '' @ reason)"
| "proxy_resolve_exit quote (NoAuthorizedMatch url) =
     (P2_Transient, lit ''no authorized target matches url '' @ url)"

section \<open>Lemmas\<close>

text \<open>The URL of an instance of the policy.\<close>

definition policy_url :: "'u resolver_world \<Rightarrow> Policy \<Rightarrow> 'u \<Rightarrow> bool" where
  "policy_url W p u \<longleftrightarrow> (\<exists>v \<in> set (vpn_instances p). parse_url (url_library W)
     (lit ''http://127.0.0.1:'' @ digits_of (unat (pv_http_proxy_port v))) = Inr u)"

lemma instances_build_pool [simp]: "instances (build_pool p) = map pool_instance_of (vpn_instances p)"
  by (simp add: build_pool_def InstancePool_new_def with_failure_policy_def)

lemma pool_url_build_pool: "pool_url W (build_pool p) u \<longleftrightarrow> policy_url W p u"
  by (simp add: pool_url_def policy_url_def instance_url_def pool_instance_of_def)

lemma select_url:
  assumes "select W (build_pool p) sid forced fs = (Some s, fs')"
  shows "policy_url W p (sel_proxy_url s)"
proof -
  obtain i c where "choose_instance W (build_pool p) sid forced fs = Some (i, c)"
      "parse_url (url_library W) (instance_url i) = Inr (sel_proxy_url s)"
    using assms by (auto simp: select_def split: option.splits sum.splits)
  then have "pool_url W (build_pool p) (sel_proxy_url s)"
    unfolding pool_url_def using choose_instance_in by blast
  then show ?thesis by (simp add: pool_url_build_pool)
qed

lemma selection_from_proxy_total: "selection_from_proxy W p \<noteq> None"
  by (auto simp: selection_from_proxy_def Selection_from_def split: option.splits)

lemma selection_from_proxy_url:
  "ps_proxy_kind s \<noteq> PK_None \<Longrightarrow> ps_proxy_url s = Some u \<Longrightarrow>
     \<exists>x. selection_from_proxy W (Some s) = Some (Some x) \<and> sel_proxy_url x = u"
  by (simp add: selection_from_proxy_def Selection_from_def)

text \<open>What the resolver built from a policy with instances looks like.\<close>

lemma build_resolver_load:
  assumes "build_resolver W env p = Inr r" "vpn_instances p \<noteq> []"
  obtains r0 where "ProxyResolver_load (url_library W) env (resolver_policy_of p) AuthorizedTargets_default = Inr r0"
    "r = with_surfshark_pool r0 (build_pool p)"
  using assms by (auto simp: build_resolver_def and_then_Inr)

lemma build_resolver_tier:
  assumes "build_resolver W env p = Inr r" "distinct (map fst (proxies p))" "vpn_instances p \<noteq> []"
  shows "map_of (policy_proxies r) name =
    (case map_of (proxies p) name of
       Some raw \<Rightarrow> (case resolve_tier (url_library W) env name raw of Inr t \<Rightarrow> Some t | Inl _ \<Rightarrow> None)
     | None \<Rightarrow> if name = lit ''direct'' then Some direct_tier
               else if name = lit ''surfshark'' then Some surfshark_tier else None)"
proof -
  obtain r0 where r0: "ProxyResolver_load (url_library W) env (resolver_policy_of p) AuthorizedTargets_default = Inr r0"
      "r = with_surfshark_pool r0 (build_pool p)"
    using assms(1,3) by (rule build_resolver_load)
  have d: "distinct (map fst (rp_proxies (resolver_policy_of p)))" using assms(2) by (simp add: resolver_policy_of_def)
  show ?thesis
    using load_tier [OF r0(1) d, of name] assms(3) by (simp add: r0(2) with_surfshark_pool_def resolver_policy_of_def)
qed

lemma build_resolver_parts:
  assumes "build_resolver W env p = Inr r" "distinct (map fst (proxies p))" "vpn_instances p \<noteq> []"
  shows "resolver_ok r" "surfshark_pool r = Some (build_pool p)" "targets (authorized r) = []"
    and "\<And>raw. map_of (proxies p) (lit ''surfshark'') = Some raw \<Longrightarrow> raw_kind raw = PK_HttpPool \<Longrightarrow>
      map_of (policy_proxies r) (lit ''surfshark'') = Some (ready_tier raw None)"
    and "map_of (proxies p) (lit ''surfshark'') = None \<Longrightarrow>
      map_of (policy_proxies r) (lit ''surfshark'') = Some surfshark_tier"
proof -
  obtain r0 where r0: "ProxyResolver_load (url_library W) env (resolver_policy_of p) AuthorizedTargets_default = Inr r0"
      "r = with_surfshark_pool r0 (build_pool p)"
    using assms(1,3) by (rule build_resolver_load)
  have "resolver_ok r0" using load_resolver_ok [OF r0(1)] assms(2) by (simp add: resolver_policy_of_def)
  then show "resolver_ok r" by (simp add: r0(2) with_surfshark_pool_def resolver_ok_def)
  show "surfshark_pool r = Some (build_pool p)" by (simp add: r0(2) with_surfshark_pool_def)
  show "targets (authorized r) = []" using r0
    by (auto simp: with_surfshark_pool_def AuthorizedTargets_default_def elim: load_InrE)
  obtain m where m: "load_tiers (url_library W) env (proxies p) [] = Inr m"
    using r0(1) by (auto simp: resolver_policy_of_def elim: load_InrE)
  show "map_of (policy_proxies r) (lit ''surfshark'') = Some (ready_tier raw None)"
    if "map_of (proxies p) (lit ''surfshark'') = Some raw" "raw_kind raw = PK_HttpPool" for raw
  proof -
    from load_tiers_all [OF m map_of_SomeD [OF that(1)]]
    obtain tt where "resolve_tier (url_library W) env (lit ''surfshark'') raw = Inr tt" by blast
    then show ?thesis using that by (auto simp: build_resolver_tier [OF assms] resolve_tier_def split: if_splits)
  qed
  show "map_of (policy_proxies r) (lit ''surfshark'') = Some surfshark_tier"
    if "map_of (proxies p) (lit ''surfshark'') = None" using that by (simp add: build_resolver_tier [OF assms])
qed

end
