(* ===== verification/Leak_Guard.thy ===== *)
theory Leak_Guard
  imports Rust_Str Instance_Pool Json_Value
begin

text \<open>
  The fail-closed leak probe of the VPN containers (\<^verbatim>\<open>crates/vpn-rotate/src/leak_guard.rs\<close>): before any
  request is routed, every configured container must have its kill switch, its DNS lock and IPv6
  disabled, and the exit address must be observable and in the expected country.

  What the Docker daemon and the address service answer is a parameter, one answer per call: the three
  inspections of a container are separate calls and may differ. Error texts are kept; \<open>quote\<close> is the
  debug form of a string.
\<close>

section \<open>Definitions\<close>

record IpInfo =
  ip :: ustr
  country :: "ustr option"
  asn :: "ustr option"

datatype LeakGuardError =
    KillSwitchNotEnforced ustr
  | DnsLockMissing ustr
  | Ipv6NotDisabled
  | ExitIpFetchFailed ustr
  | CountryMismatch ustr ustr
  | DockerError ustr

record InstanceDescriptor =
  id_name :: ustr
  id_http_proxy_port :: "16 word"
  id_control_port :: "16 word"

record ProbeReport =
  pr_instance_name :: ustr
  exit_ip :: ustr
  exit_country :: ustr
  kill_switch_on :: bool
  dns_lock_on :: bool
  ipv6_disabled :: bool

record HostConfig =
  cap_add :: "ustr list option"
  sysctls :: "(ustr \<times> ustr) list option"

record InspectResponse =
  ir_host_config :: "HostConfig option"
  ir_env :: "ustr list option option"

record LeakGuard =
  container_name :: ustr

text \<open>The answers to the calls made while one container is probed.\<close>

record replies =
  connect_reply :: "ustr + unit"
  inspect_reply1 :: "ustr + InspectResponse"
  inspect_reply2 :: "ustr + InspectResponse"
  inspect_reply3 :: "ustr + InspectResponse"
  ip_reply :: "ustr + json"

definition LeakGuard_new :: "ustr + unit \<Rightarrow> ustr \<Rightarrow> LeakGuardError + LeakGuard" where
  "LeakGuard_new conn name =
     map_sum (\<lambda>e. DockerError (lit ''docker connect: '' @ e)) (\<lambda>_. \<lparr>container_name = name\<rparr>) conn"

definition inspect :: "LeakGuard \<Rightarrow> ustr + InspectResponse \<Rightarrow> LeakGuardError + InspectResponse" where
  "inspect g reply =
     map_sum (\<lambda>e. DockerError (lit ''inspect '' @ container_name g @ lit '': '' @ e)) id reply"

definition collect_env :: "InspectResponse \<Rightarrow> ustr list" where
  "collect_env info = (case ir_env info of Some (Some e) \<Rightarrow> e | _ \<Rightarrow> [])"

fun find_map :: "('a \<Rightarrow> 'b option) \<Rightarrow> 'a list \<Rightarrow> 'b option" where
  "find_map f [] = None"
| "find_map f (x # xs) = (case f x of Some y \<Rightarrow> Some y | None \<Rightarrow> find_map f xs)"

definition env_var :: "ustr list \<Rightarrow> string \<Rightarrow> ustr option" where
  "env_var env key = find_map (\<lambda>e. strip_prefix e (lit key @ lit ''='')) env"

definition cap_matches :: "ustr \<Rightarrow> string \<Rightarrow> bool" where
  "cap_matches cap base =
     (eq_ignore_ascii_case cap (lit base) \<or> eq_ignore_ascii_case cap (lit ''CAP_'' @ lit base))"

definition cap_list_has_net_admin :: "ustr list \<Rightarrow> bool" where
  "cap_list_has_net_admin caps = list_ex (\<lambda>c. cap_matches c ''NET_ADMIN'') caps"

definition or_empty :: "'a list option \<Rightarrow> 'a list" where
  "or_empty v = (case v of Some s \<Rightarrow> s | None \<Rightarrow> [])"

definition debug_list :: "(ustr \<Rightarrow> ustr) \<Rightarrow> ustr list \<Rightarrow> ustr" where
  "debug_list quote xs = lit ''['' @ intersperse_concat (lit '', '') (map quote xs) @ lit '']''"

definition enforce_kill_switch ::
  "(ustr \<Rightarrow> ustr) \<Rightarrow> LeakGuard \<Rightarrow> ustr + InspectResponse \<Rightarrow> LeakGuardError + unit" where
  "enforce_kill_switch quote g reply =
     and_then (inspect g reply) (\<lambda>info.
     let caps = or_empty (ir_host_config info \<bind> cap_add) in
     if \<not> cap_list_has_net_admin caps
     then Inl (KillSwitchNotEnforced (lit ''container '' @ container_name g @
            lit '' missing NET_ADMIN capability (HostConfig.CapAdd = '' @ debug_list quote caps @ lit '')''))
     else let firewall = or_empty (env_var (collect_env info) ''FIREWALL'') in
       if \<not> eq_ignore_ascii_case firewall (lit ''on'')
       then Inl (KillSwitchNotEnforced (lit ''container '' @ container_name g @ lit '' env FIREWALL='' @
              quote firewall @ lit '' (expected '' @ quote (lit ''on'') @ lit '')''))
       else Inr ())"

definition enforce_dns_lock ::
  "(ustr \<Rightarrow> ustr) \<Rightarrow> LeakGuard \<Rightarrow> ustr + InspectResponse \<Rightarrow> LeakGuardError + unit" where
  "enforce_dns_lock quote g reply =
     and_then (inspect g reply) (\<lambda>info.
     let env = collect_env info; dot = or_empty (env_var env ''DOT'') in
     if \<not> eq_ignore_ascii_case dot (lit ''on'')
     then Inl (DnsLockMissing (lit ''DOT='' @ quote dot @ lit '' (expected '' @ quote (lit ''on'') @ lit '')''))
     else let providers = or_empty (env_var env ''DOT_PROVIDERS'') in
       if \<not> list_ex (\<lambda>p. p = lit ''cloudflare'' \<or> p = lit ''quad9'') (map trim (split_char 44 (map ascii_lower providers)))
       then Inl (DnsLockMissing (lit ''DOT_PROVIDERS='' @ quote providers @
              lit '' (expected at least one of cloudflare / quad9)''))
       else let keep = (case env_var env ''DNS_KEEP_NAMESERVER'' of Some v \<Rightarrow> v | None \<Rightarrow> lit ''off'') in
         if eq_ignore_ascii_case keep (lit ''on'')
         then Inl (DnsLockMissing (lit ''DNS_KEEP_NAMESERVER=on bypasses the DoT lock''))
         else Inr ())"

definition enforce_ipv6_disable :: "LeakGuard \<Rightarrow> ustr + InspectResponse \<Rightarrow> LeakGuardError + unit" where
  "enforce_ipv6_disable g reply =
     and_then (inspect g reply) (\<lambda>info.
     let ctl = or_empty (ir_host_config info \<bind> sysctls);
         v = or_empty (map_of ctl (lit ''net.ipv6.conf.all.disable_ipv6''))
     in if v \<noteq> lit ''1'' then Inl Ipv6NotDisabled else Inr ())"

subsection \<open>Countries\<close>

definition alias_table :: "(string \<times> string) list" where
  "alias_table =
     [(''japan'', ''JP''), (''jp'', ''Japan''), (''united states'', ''US''), (''us'', ''United States''),
      (''united kingdom'', ''GB''), (''gb'', ''United Kingdom''), (''germany'', ''DE''), (''de'', ''Germany''),
      (''singapore'', ''SG''), (''sg'', ''Singapore''), (''netherlands'', ''NL''), (''nl'', ''Netherlands''),
      (''canada'', ''CA''), (''ca'', ''Canada''), (''australia'', ''AU''), (''au'', ''Australia''),
      (''france'', ''FR''), (''fr'', ''France''), (''italy'', ''IT''), (''it'', ''Italy'')]"

definition country_alias :: "ustr \<Rightarrow> ustr option" where
  "country_alias name =
     map_of (map (\<lambda>(k, v). (lit k, lit v)) alias_table) (map ascii_lower name)"

definition country_matches :: "ustr \<Rightarrow> ustr \<Rightarrow> bool" where
  "country_matches expected actual =
     (if eq_ignore_ascii_case expected actual then True
      else case country_alias expected of
          Some a \<Rightarrow> eq_ignore_ascii_case a actual
        | None \<Rightarrow> False)"

definition json_str :: "json \<Rightarrow> string \<Rightarrow> ustr option" where
  "json_str j key =
     (case j of
        JObj m \<Rightarrow> (case map_of m (lit key) of Some (JStr s) \<Rightarrow> Some s | _ \<Rightarrow> None)
      | _ \<Rightarrow> None)"

definition verify_exit_ip :: "ustr + json \<Rightarrow> ustr option \<Rightarrow> LeakGuardError + IpInfo" where
  "verify_exit_ip reply expected_country =
     and_then (map_sum ExitIpFetchFailed id reply) (\<lambda>j.
     let info = \<lparr>ip = or_empty (json_str j ''ip''), country = json_str j ''country'', asn = json_str j ''org''\<rparr> in
     case expected_country of
       None \<Rightarrow> Inr info
     | Some expected \<Rightarrow>
         let got = or_empty (country info) in
         if \<not> country_matches expected got then Inl (CountryMismatch expected got) else Inr info)"

subsection \<open>Probing every instance\<close>

definition probe_one ::
  "(ustr \<Rightarrow> ustr) \<Rightarrow> replies \<Rightarrow> ustr option \<Rightarrow> InstanceDescriptor \<Rightarrow> LeakGuardError + ProbeReport" where
  "probe_one quote R expected_country inst =
     and_then (LeakGuard_new (connect_reply R) (id_name inst)) (\<lambda>g.
     and_then (enforce_kill_switch quote g (inspect_reply1 R)) (\<lambda>_.
     and_then (enforce_dns_lock quote g (inspect_reply2 R)) (\<lambda>_.
     and_then (enforce_ipv6_disable g (inspect_reply3 R)) (\<lambda>_.
     and_then (verify_exit_ip (ip_reply R) expected_country) (\<lambda>i.
     Inr \<lparr>pr_instance_name = id_name inst, exit_ip = ip i, exit_country = or_empty (country i),
          kill_switch_on = True, dns_lock_on = True, ipv6_disabled = True\<rparr>)))))"

text \<open>\<open>R n\<close> are the answers while the instance at position \<open>n\<close> is probed.\<close>

fun probe_loop :: "(ustr \<Rightarrow> ustr) \<Rightarrow> (nat \<Rightarrow> replies) \<Rightarrow> ustr option \<Rightarrow> nat \<Rightarrow> InstanceDescriptor list \<Rightarrow> ProbeReport list \<Rightarrow>
  LeakGuardError + ProbeReport list" where
  "probe_loop quote R c n [] out = Inr out"
| "probe_loop quote R c n (i # is) out =
     and_then (probe_one quote (R n) c i) (\<lambda>rep. probe_loop quote R c (Suc n) is (out @ [rep]))"

definition probe_all ::
  "(ustr \<Rightarrow> ustr) \<Rightarrow> (nat \<Rightarrow> replies) \<Rightarrow> InstanceDescriptor list \<Rightarrow> ustr option \<Rightarrow> LeakGuardError + ProbeReport list" where
  "probe_all quote R insts expected_country =
     (if insts = []
      then Inl (DockerError (lit ''probe_all: no VPN instances configured (require_vpn=true but VPN_INSTANCES / policy.toml is empty)''))
      else probe_loop quote R expected_country 0 insts [])"

text \<open>The displayed form of the errors.\<close>

fun leak_error_text :: "LeakGuardError \<Rightarrow> ustr" where
  "leak_error_text (KillSwitchNotEnforced d) = lit ''kill-switch not enforced: '' @ d"
| "leak_error_text (DnsLockMissing d) = lit ''DNS lock missing: '' @ d"
| "leak_error_text Ipv6NotDisabled = lit ''IPv6 not disabled in container kernel''"
| "leak_error_text (ExitIpFetchFailed e) = lit ''exit IP fetch failed: '' @ e"
| "leak_error_text (CountryMismatch a b) = lit ''VPN exit country mismatch: expected '' @ a @ lit '', got '' @ b"
| "leak_error_text (DockerError e) = lit ''docker connect/inspect failed: '' @ e"

section \<open>What a sealed container is\<close>

text \<open>The first assignment of a variable in a container's environment.\<close>

definition env_is :: "ustr list \<Rightarrow> string \<Rightarrow> ustr \<Rightarrow> bool" where
  "env_is env key v \<longleftrightarrow> (\<exists>us vs. env = us @ (lit key @ lit ''='' @ v) # vs \<and> (\<forall>u \<in> set us. \<not> prefix (lit key @ lit ''='') u))"

lemma find_map_Some: "find_map f xs = Some y \<longleftrightarrow> (\<exists>us x vs. xs = us @ x # vs \<and> f x = Some y \<and> (\<forall>u \<in> set us. f u = None))"
proof
  assume "find_map f xs = Some y"
  then show "\<exists>us x vs. xs = us @ x # vs \<and> f x = Some y \<and> (\<forall>u \<in> set us. f u = None)"
  proof (induction xs)
    case (Cons x xs)
    show ?case
    proof (cases "f x")
      case None
      then obtain us z vs where "xs = us @ z # vs" "f z = Some y" "\<forall>u \<in> set us. f u = None" using Cons by auto
      then have "x # xs = (x # us) @ z # vs \<and> f z = Some y \<and> (\<forall>u \<in> set (x # us). f u = None)" using None by simp
      then show ?thesis by blast
    next
      case (Some z)
      then have "x # xs = [] @ x # xs \<and> f x = Some y \<and> (\<forall>u \<in> set []. f u = None)" using Cons.prems by simp
      then show ?thesis by blast
    qed
  qed simp
next
  assume "\<exists>us x vs. xs = us @ x # vs \<and> f x = Some y \<and> (\<forall>u \<in> set us. f u = None)"
  then obtain us x vs where "xs = us @ x # vs" "f x = Some y" "\<forall>u \<in> set us. f u = None" by blast
  moreover from this(3) have "find_map f (us @ zs) = find_map f zs" for zs by (induction us) simp_all
  ultimately show "find_map f xs = Some y" by simp
qed

lemma env_var_iff: "env_var env key = Some v \<longleftrightarrow> env_is env key v"
proof -
  have "strip_prefix e (lit key @ lit ''='') = Some v \<longleftrightarrow> e = lit key @ lit ''='' @ v" for e
    by (auto simp: strip_prefix_def prefix_def)
  moreover have "strip_prefix u (lit key @ lit ''='') = None \<longleftrightarrow> \<not> prefix (lit key @ lit ''='') u" for u
    by (simp add: strip_prefix_def)
  ultimately show ?thesis by (simp add: env_var_def find_map_Some env_is_def)
qed

definition kill_switch_set :: "InspectResponse \<Rightarrow> bool" where
  "kill_switch_set info \<longleftrightarrow>
     (\<exists>h caps c. ir_host_config info = Some h \<and> cap_add h = Some caps \<and> c \<in> set caps \<and>
        (eq_ignore_ascii_case c (lit ''NET_ADMIN'') \<or> eq_ignore_ascii_case c (lit ''CAP_NET_ADMIN''))) \<and>
     (\<exists>e v. ir_env info = Some (Some e) \<and> env_is e ''FIREWALL'' v \<and> eq_ignore_ascii_case v (lit ''on''))"

definition dns_locked :: "InspectResponse \<Rightarrow> bool" where
  "dns_locked info \<longleftrightarrow>
     (\<exists>e dot ps p. ir_env info = Some (Some e) \<and> env_is e ''DOT'' dot \<and> eq_ignore_ascii_case dot (lit ''on'') \<and>
        env_is e ''DOT_PROVIDERS'' ps \<and> p \<in> set (split_char 44 (map ascii_lower ps)) \<and>
        (trim p = lit ''cloudflare'' \<or> trim p = lit ''quad9'') \<and>
        (\<forall>k. env_is e ''DNS_KEEP_NAMESERVER'' k \<longrightarrow> \<not> eq_ignore_ascii_case k (lit ''on'')))"

definition ipv6_off :: "InspectResponse \<Rightarrow> bool" where
  "ipv6_off info \<longleftrightarrow> (\<exists>h ctl. ir_host_config info = Some h \<and> sysctls h = Some ctl \<and>
     map_of ctl (lit ''net.ipv6.conf.all.disable_ipv6'') = Some (lit ''1''))"

lemma or_empty_case: "or_empty v = s \<longleftrightarrow> v = Some s \<or> (v = None \<and> s = [])"
  by (auto simp: or_empty_def split: option.splits)

lemma eq_on_empty [simp]: "\<not> eq_ignore_ascii_case [] (lit ''on'')"
  by (simp add: eq_ignore_ascii_case_def lit_def)

lemma env_var_on: "eq_ignore_ascii_case (or_empty (env_var env key)) (lit ''on'') \<longleftrightarrow>
    (\<exists>v. env_is env key v \<and> eq_ignore_ascii_case v (lit ''on''))"
  by (cases "env_var env key") (auto simp: or_empty_def env_var_iff [symmetric])

lemma env_is_collect: "env_is (collect_env info) key v \<longleftrightarrow> (\<exists>e. ir_env info = Some (Some e) \<and> env_is e key v)"
  by (auto simp: collect_env_def env_is_def split: option.splits)

lemma inspect_Inr: "inspect g reply = Inr info \<longleftrightarrow> reply = Inr info"
  by (cases reply) (simp_all add: inspect_def)

lemma enforce_kill_switch_iff:
  "enforce_kill_switch q g reply = Inr () \<longleftrightarrow> (\<exists>info. reply = Inr info \<and> kill_switch_set info)"
proof -
  have "cap_list_has_net_admin (or_empty (ir_host_config info \<bind> cap_add)) \<longleftrightarrow>
      (\<exists>h caps c. ir_host_config info = Some h \<and> cap_add h = Some caps \<and> c \<in> set caps \<and>
        (eq_ignore_ascii_case c (lit ''NET_ADMIN'') \<or> eq_ignore_ascii_case c (lit ''CAP_NET_ADMIN'')))" for info :: InspectResponse
    by (cases "ir_host_config info"; cases "ir_host_config info \<bind> cap_add")
      (auto simp: cap_list_has_net_admin_def cap_matches_def or_empty_def list_ex_iff lit_append [symmetric] simp del: lit_append)
  then show ?thesis
    by (auto simp: enforce_kill_switch_def and_then_Inr inspect_Inr Let_def env_var_on env_is_collect kill_switch_set_def)
qed

lemma enforce_ipv6_disable_iff:
  "enforce_ipv6_disable g reply = Inr () \<longleftrightarrow> (\<exists>info. reply = Inr info \<and> ipv6_off info)"
proof -
  have "or_empty (map_of (or_empty (ir_host_config info \<bind> sysctls)) k) = lit ''1'' \<longleftrightarrow>
      (\<exists>h ctl. ir_host_config info = Some h \<and> sysctls h = Some ctl \<and> map_of ctl k = Some (lit ''1''))" for info :: InspectResponse and k
    by (cases "ir_host_config info"; cases "ir_host_config info \<bind> sysctls")
      (auto simp: or_empty_def lit_def split: option.splits)
  then show ?thesis by (auto simp: enforce_ipv6_disable_def and_then_Inr inspect_Inr Let_def ipv6_off_def)
qed

lemma enforce_dns_lock_iff:
  "enforce_dns_lock q g reply = Inr () \<longleftrightarrow> (\<exists>info. reply = Inr info \<and> dns_locked info)"
proof -
  let ?good = "\<lambda>ps. list_ex (\<lambda>p. p = lit ''cloudflare'' \<or> p = lit ''quad9'') (map trim (split_char 44 (map ascii_lower ps)))"
  have nil: "\<not> ?good []" by (simp add: trim_def lit_def)
  have providers: "?good (or_empty (env_var env ''DOT_PROVIDERS'')) \<longleftrightarrow> (\<exists>ps. env_is env ''DOT_PROVIDERS'' ps \<and> ?good ps)" for env
    using nil by (cases "env_var env ''DOT_PROVIDERS''") (auto simp: or_empty_def env_var_iff [symmetric])
  have keep: "\<not> eq_ignore_ascii_case (case env_var env ''DNS_KEEP_NAMESERVER'' of Some v \<Rightarrow> v | None \<Rightarrow> lit ''off'') (lit ''on'') \<longleftrightarrow>
      (\<forall>k. env_is env ''DNS_KEEP_NAMESERVER'' k \<longrightarrow> \<not> eq_ignore_ascii_case k (lit ''on''))" for env
    by (cases "env_var env ''DNS_KEEP_NAMESERVER''")
      (auto simp: env_var_iff [symmetric] eq_ignore_ascii_case_def ascii_lower_def lit_def)
  have "enforce_dns_lock q g reply = Inr () \<longleftrightarrow> (\<exists>info. reply = Inr info \<and>
      eq_ignore_ascii_case (or_empty (env_var (collect_env info) ''DOT'')) (lit ''on'') \<and>
      ?good (or_empty (env_var (collect_env info) ''DOT_PROVIDERS'')) \<and>
      \<not> eq_ignore_ascii_case (case env_var (collect_env info) ''DNS_KEEP_NAMESERVER'' of Some v \<Rightarrow> v | None \<Rightarrow> lit ''off'') (lit ''on''))"
    by (auto simp: enforce_dns_lock_def and_then_Inr inspect_Inr Let_def split: if_splits)
  also have "\<dots> \<longleftrightarrow> (\<exists>info. reply = Inr info \<and> dns_locked info)"
    unfolding env_var_on providers keep env_is_collect dns_locked_def by (fastforce simp: list_ex_iff)
  finally show ?thesis .
qed

section \<open>Countries\<close>

text \<open>The alias table pairs each name with its code in both directions.\<close>

lemma alias_table_closed:
  "list_all (\<lambda>(k, v). map_of (map (\<lambda>(k, v). (lit k, lit v)) alias_table) (map ascii_lower (lit v)) \<noteq> None \<and>
     map ascii_lower (the (map_of (map (\<lambda>(k, v). (lit k, lit v)) alias_table) (map ascii_lower (lit v)))) = lit k) alias_table"
  by code_simp

lemma country_alias_back:
  assumes "country_alias n = Some a"
  shows "\<exists>b. country_alias a = Some b \<and> map ascii_lower b = map ascii_lower n"
proof -
  obtain k v where kv: "(k, v) \<in> set alias_table" "lit k = map ascii_lower n" "lit v = a"
    using assms by (auto simp: country_alias_def dest!: map_of_SomeD)
  then show ?thesis using alias_table_closed by (fastforce simp: list_all_iff country_alias_def)
qed

lemma ascii_lower_idem [simp]: "ascii_lower (ascii_lower c) = ascii_lower c"
  by (simp add: ascii_lower_def)

lemma country_alias_cong: "map ascii_lower n = map ascii_lower m \<Longrightarrow> country_alias n = country_alias m"
  by (simp add: country_alias_def)

lemma country_matches_sym:
  assumes "country_matches a b"
  shows "country_matches b a"
proof (cases "eq_ignore_ascii_case a b")
  case False
  then obtain x where x: "country_alias a = Some x" "map ascii_lower x = map ascii_lower b"
    using assms by (auto simp: country_matches_def eq_ignore_ascii_case_def split: if_splits option.splits)
  obtain y where y: "country_alias x = Some y" "map ascii_lower y = map ascii_lower a"
    using country_alias_back [OF x(1)] by blast
  have "country_alias b = Some y" using y(1) country_alias_cong [OF x(2)] by simp
  then show ?thesis using y(2) by (simp add: country_matches_def eq_ignore_ascii_case_def)
qed (simp add: country_matches_def eq_ignore_ascii_case_def)

section \<open>Properties\<close>

text \<open>What one probe establishes about a container.\<close>

definition sealed :: "replies \<Rightarrow> ustr option \<Rightarrow> bool" where
  "sealed R expected \<longleftrightarrow> connect_reply R = Inr () \<and>
     (\<exists>i1 i2 i3 j. inspect_reply1 R = Inr i1 \<and> kill_switch_set i1 \<and> inspect_reply2 R = Inr i2 \<and> dns_locked i2 \<and>
        inspect_reply3 R = Inr i3 \<and> ipv6_off i3 \<and> ip_reply R = Inr j \<and>
        (\<forall>c. expected = Some c \<longrightarrow> country_matches c (or_empty (json_str j ''country''))))"

lemma verify_exit_ip_iff:
  "(\<exists>i. verify_exit_ip reply expected = Inr i) \<longleftrightarrow>
     (\<exists>j. reply = Inr j \<and> (\<forall>c. expected = Some c \<longrightarrow> country_matches c (or_empty (json_str j ''country''))))"
  by (cases reply; cases expected) (auto simp: verify_exit_ip_def Let_def)

lemma probe_one_iff:
  "(\<exists>rep. probe_one q R c i = Inr rep) \<longleftrightarrow> sealed R c"
proof -
  have conn: "LeakGuard_new cr n = Inr g \<longleftrightarrow> cr = Inr () \<and> g = \<lparr>container_name = n\<rparr>" for cr n g
    by (cases cr) (auto simp: LeakGuard_new_def)
  have "(\<exists>rep. probe_one q R c i = Inr rep) \<longleftrightarrow> connect_reply R = Inr () \<and>
      enforce_kill_switch q \<lparr>container_name = id_name i\<rparr> (inspect_reply1 R) = Inr () \<and>
      enforce_dns_lock q \<lparr>container_name = id_name i\<rparr> (inspect_reply2 R) = Inr () \<and>
      enforce_ipv6_disable \<lparr>container_name = id_name i\<rparr> (inspect_reply3 R) = Inr () \<and>
      (\<exists>info. verify_exit_ip (ip_reply R) c = Inr info)"
    by (auto simp: probe_one_def and_then_Inr conn)
  then show ?thesis
    unfolding enforce_kill_switch_iff enforce_dns_lock_iff enforce_ipv6_disable_iff verify_exit_ip_iff sealed_def by blast
qed

lemma probe_one_name: "probe_one q R c i = Inr rep \<Longrightarrow> pr_instance_name rep = id_name i"
  by (auto simp: probe_one_def and_then_Inr)

lemma probe_loop_iff:
  "(\<exists>reps. probe_loop q R c n is out = Inr reps) \<longleftrightarrow> (\<forall>k < length is. sealed (R (n + k)) c)"
proof (induction "is" arbitrary: n out)
  case (Cons i "is")
  have "(\<exists>reps. probe_loop q R c n (i # is) out = Inr reps) \<longleftrightarrow>
      sealed (R n) c \<and> (\<forall>k < length is. sealed (R (Suc n + k)) c)"
  proof -
    have "(\<exists>reps. probe_loop q R c n (i # is) out = Inr reps) \<longleftrightarrow>
        (\<exists>rep. probe_one q (R n) c i = Inr rep \<and> (\<exists>reps. probe_loop q R c (Suc n) is (out @ [rep]) = Inr reps))"
      by (auto simp: and_then_Inr)
    then show ?thesis unfolding Cons.IH using probe_one_iff [of q "R n" c i] by blast
  qed
  also have "\<dots> \<longleftrightarrow> (\<forall>k < length (i # is). sealed (R (n + k)) c)"
    by (auto simp: less_Suc_eq_0_disj)
  finally show ?case .
qed simp

lemma probe_loop_names:
  "probe_loop q R c n is out = Inr reps \<Longrightarrow> map pr_instance_name reps = map pr_instance_name out @ map id_name is"
  by (induction "is" arbitrary: n out) (auto simp: and_then_Inr dest: probe_one_name)

text \<open>
  The startup probe is exact and fails closed: it succeeds if and only if there is at least one
  instance and every one is sealed, that is: Docker answers, its container has the NET_ADMIN
  capability with the firewall on, DNS over TLS on with an accepted provider and the host resolver not
  kept, IPv6 switched off, and an exit address in the expected country, where a country may be given by
  name or code on either side. A success reports the instances in order.
\<close>

lemma probe_all_exact:
  "((\<exists>reps. probe_all q R insts expected = Inr reps) \<longleftrightarrow> insts \<noteq> [] \<and> (\<forall>k < length insts. sealed (R k) expected)) \<and>
   (probe_all q R insts expected = Inr reps \<longrightarrow> map pr_instance_name reps = map id_name insts) \<and>
   country_matches a b = country_matches b a"
  using probe_loop_iff [of q R expected 0 insts "[]"] probe_loop_names [of q R expected 0 insts "[]" reps] country_matches_sym
  by (auto simp: probe_all_def)

definition demo_info :: InspectResponse where
  "demo_info = \<lparr>ir_host_config = Some \<lparr>cap_add = Some [lit ''CAP_NET_ADMIN''],
       sysctls = Some [(lit ''net.ipv6.conf.all.disable_ipv6'', lit ''1'')]\<rparr>,
     ir_env = Some (Some [lit ''FIREWALL=on'', lit ''DOT=ON'', lit ''DOT_PROVIDERS=google, Quad9''])\<rparr>"

definition demo_replies :: replies where
  "demo_replies = \<lparr>connect_reply = Inr (), inspect_reply1 = Inr demo_info, inspect_reply2 = Inr demo_info,
     inspect_reply3 = Inr demo_info, ip_reply = Inr (JObj [(lit ''country'', JStr (lit ''JP''))])\<rparr>"

abbreviation demo_instance :: InstanceDescriptor where
  "demo_instance \<equiv> \<lparr>id_name = lit ''v'', id_http_proxy_port = 1, id_control_port = 2\<rparr>"

lemma demo_probe: "\<exists>rep. probe_one id demo_replies (Some (lit ''japan'')) demo_instance = Inr rep"
  by (simp add: probe_one_def demo_replies_def LeakGuard_new_def enforce_kill_switch_def enforce_dns_lock_def
      enforce_ipv6_disable_def verify_exit_ip_def inspect_def demo_info_def or_empty_def cap_list_has_net_admin_def
      cap_matches_def eq_ignore_ascii_case_def ascii_lower_def collect_env_def env_var_def strip_prefix_def Let_def
      country_matches_def country_alias_def alias_table_def json_str_def trim_def white_space_def lit_def)

end
