(* ===== verification/Egress_Gate.thy ===== *)
theory Egress_Gate
  imports Vpn_Selector Leak_Guard
begin

text \<open>
  The fail-closed egress gate: the startup probe (\<^verbatim>\<open>crates/stealth-cli/src/vpn_guard.rs\<close>) and the part of
  the spider command that decides, before any network traffic, whether to proceed and through which
  proxy (\<^verbatim>\<open>crates/stealth-cli/src/commands/spider.rs\<close>, steps 3.5 and 3.5b).

  It composes the policy, the leak probe, the pool, the resolver and the exit codes. The gate either
  ends the command with a code and a message or proceeds with an optional VPN selection and an
  optional proxy selection.
\<close>

section \<open>Definitions\<close>

definition to_descriptor :: "PolicyVpnInstance \<Rightarrow> InstanceDescriptor" where
  "to_descriptor v =
     \<lparr>id_name = pv_name v, id_http_proxy_port = pv_http_proxy_port v, id_control_port = pv_control_port v\<rparr>"

definition report_to_json :: "ProbeReport \<Rightarrow> json" where
  "report_to_json r =
     JObj (bt_of [(lit ''name'', JStr (pr_instance_name r)), (lit ''exit_ip'', JStr (exit_ip r)),
       (lit ''exit_country'', JStr (exit_country r)), (lit ''kill_switch_on'', JBool (kill_switch_on r)),
       (lit ''dns_lock_on'', JBool (dns_lock_on r)), (lit ''ipv6_disabled'', JBool (ipv6_disabled r))])"

definition reports_to_json :: "ProbeReport list \<Rightarrow> json" where
  "reports_to_json reports =
     JObj (bt_of [(lit ''kind'', JStr (lit ''probe_all'')), (lit ''instances'', JArr (map report_to_json reports))])"

definition run_startup_probe ::
  "(ustr \<Rightarrow> ustr) \<Rightarrow> (nat \<Rightarrow> replies) \<Rightarrow> bool \<Rightarrow> Policy \<Rightarrow> StealthError + json option" where
  "run_startup_probe quote R req policy =
     (if \<not> req then Inr None
      else if vpn_instances policy = []
      then Inl (Leak (lit ''require_vpn=true but no VPN instances configured (VPN_INSTANCES env / ~/.rev_scraping/policy.toml is empty)''))
      else case probe_all quote R (map to_descriptor (vpn_instances policy)) (vpn_required_country policy) of
          Inr reports \<Rightarrow> Inr (Some (reports_to_json reports))
        | Inl e \<Rightarrow> Inl (Leak (leak_error_text e)))"

record spider_args =
  arg_require_vpn :: bool
  arg_allow_no_vpn :: bool
  arg_vpn_instance :: "ustr option"
  arg_proxy_tier :: "ustr option"

text \<open>What the gate sees: the environment, the policy file and the answers of the probe.\<close>

record 'u gate_env =
  gate_world :: "'u resolver_world"
  env_require_vpn :: "ustr option"
  env_vpn_instances :: "ustr option"
  env_vars :: "ustr \<Rightarrow> ustr option"
  policy_toml :: "ustr \<Rightarrow> ustr + Policy"
  policy_fs :: "ustr \<Rightarrow> (ustr + ustr) option"
  policy_path :: "ustr option"
  policy_error_text :: "PolicyError \<Rightarrow> ustr"
  resolver_error_text :: "ProxyResolverError \<Rightarrow> ustr"
  debug_quote :: "ustr \<Rightarrow> ustr"
  probe_replies :: "nat \<Rightarrow> replies"
  now_all_failed :: "ustr \<Rightarrow> nat"

datatype 'u gate = Exit int ustr | Proceed "'u Selection option" "'u ProxySelection option" | Panic

definition policy_file :: "'u gate_env \<Rightarrow> PolicyError + Policy" where
  "policy_file X = Policy_load (policy_toml X) (policy_fs X) (policy_path X)"

text \<open>Step 3.5b: choosing the egress once the probe has passed.\<close>

definition tier_branch ::
  "'u gate_env \<Rightarrow> spider_args \<Rightarrow> 'u \<Rightarrow> ustr \<Rightarrow> Policy \<Rightarrow> bool \<Rightarrow> sess_fs \<Rightarrow> 'u gate \<times> sess_fs" where
  "tier_branch X args url session_str policy req fs =
     (case build_resolver (gate_world X) (env_vars X) policy of
        Inl e \<Rightarrow> (Exit (Phase2Exit_as_i32 P2_Transient) (lit ''proxy resolver: '' @ resolver_error_text X e), fs)
      | Inr resolver \<Rightarrow>
          (case select_proxy_with_resolver (gate_world X) resolver url session_str (arg_proxy_tier args) (arg_vpn_instance args) fs of
             (Inl e, fs1) \<Rightarrow>
               (case proxy_resolve_exit (debug_quote X) e of (code, msg) \<Rightarrow> (Exit (Phase2Exit_as_i32 code) msg, fs1))
           | (Inr proxy_selection, fs1) \<Rightarrow>
               (case selection_from_proxy (gate_world X) proxy_selection of
                  None \<Rightarrow> (Panic, fs1)
                | Some selection \<Rightarrow>
                    if req \<and> (case proxy_selection of None \<Rightarrow> True | Some s \<Rightarrow> ps_tier_name s \<noteq> lit ''surfshark'')
                    then (Exit (Phase2Exit_as_i32 P2_Leak) (lit ''require_vpn requires surfshark proxy tier''), fs1)
                    else (Proceed selection proxy_selection, fs1))))"

definition pool_branch ::
  "'u gate_env \<Rightarrow> spider_args \<Rightarrow> ustr \<Rightarrow> Policy \<Rightarrow> bool \<Rightarrow> sess_fs \<Rightarrow> 'u gate \<times> sess_fs" where
  "pool_branch X args session_str policy req fs =
     (let pool = build_pool policy in
      if req
      then (if all_failed pool (now_all_failed X)
            then (Exit 7 (lit ''vpn pool exhausted: no healthy instances available (all failed)''), fs)
            else case select (gate_world X) pool session_str (arg_vpn_instance args) fs of
                (Some s, fs1) \<Rightarrow> (Proceed (Some s) None, fs1)
              | (None, fs1) \<Rightarrow>
                  (Exit 7 (case arg_vpn_instance args of
                             Some n \<Rightarrow> lit ''vpn instance Some('' @ debug_quote X n @ lit '') not found in configured pool''
                           | None \<Rightarrow> lit ''vpn pool has no healthy instances''), fs1))
      else case select (gate_world X) pool session_str (arg_vpn_instance args) fs of (s, fs1) \<Rightarrow> (Proceed s None, fs1))"

definition spider_egress ::
  "'u gate_env \<Rightarrow> spider_args \<Rightarrow> 'u \<Rightarrow> ustr \<Rightarrow> sess_fs \<Rightarrow> 'u gate \<times> sess_fs" where
  "spider_egress X args url session_str fs =
     (case policy_file X of
        Inl e \<Rightarrow> (Exit 1 (lit ''policy load: '' @ policy_error_text X e), fs)
      | Inr loaded \<Rightarrow>
          let policy = with_env_overrides (env_vpn_instances X) loaded;
              req = effective_require_vpn (env_require_vpn X)
                (cli_flags_to_tristate (arg_require_vpn args) (arg_allow_no_vpn args)) policy
          in case validate_proxy_args (arg_vpn_instance args) (arg_proxy_tier args) of
               Inl code \<Rightarrow>
                 (Exit (Phase2Exit_as_i32 code) (lit ''--vpn-instance is only compatible with --proxy-tier surfshark''), fs)
             | Inr u \<Rightarrow>
                 (case run_startup_probe (debug_quote X) (probe_replies X) req policy of
                    Inl e \<Rightarrow> (Exit (ExitCode_as_i32 (exit_code e)) (stealth_error_text e), fs)
                  | Inr report \<Rightarrow>
                      if arg_proxy_tier args \<noteq> None then tier_branch X args url session_str policy req fs
                      else pool_branch X args session_str policy req fs))"

section \<open>Lemmas\<close>

definition gate_policy :: "'u gate_env \<Rightarrow> Policy \<Rightarrow> Policy" where
  "gate_policy X loaded = with_env_overrides (env_vpn_instances X) loaded"

definition vpn_required :: "'u gate_env \<Rightarrow> spider_args \<Rightarrow> Policy \<Rightarrow> bool" where
  "vpn_required X args loaded =
     effective_require_vpn (env_require_vpn X) (cli_flags_to_tristate (arg_require_vpn args) (arg_allow_no_vpn args))
       (gate_policy X loaded)"

text \<open>Every configured instance passes the probe, and there is one.\<close>

definition all_sealed :: "'u gate_env \<Rightarrow> Policy \<Rightarrow> bool" where
  "all_sealed X p \<longleftrightarrow> vpn_instances p \<noteq> [] \<and>
     (\<forall>k < length (vpn_instances p). sealed (probe_replies X k) (vpn_required_country p))"

lemma gate_policy_proxies [simp]: "proxies (gate_policy X loaded) = proxies loaded"
  by (simp add: gate_policy_def with_env_overrides_def split: option.splits sum.splits)

lemma run_startup_probe_required:
  "(\<exists>rep. run_startup_probe q (probe_replies X) True p = Inr rep) \<longleftrightarrow> all_sealed X p"
  "run_startup_probe q R req p = Inl e \<Longrightarrow> \<exists>m. e = Leak m"
proof -
  have "(\<exists>reps. probe_loop q (probe_replies X) c 0 is [] = Inr reps) \<longleftrightarrow> (\<forall>k < length is. sealed (probe_replies X k) c)" for c "is"
    using probe_loop_iff [of q "probe_replies X" c 0 "is" "[]"] by simp
  note loop = this [of "vpn_required_country p" "map to_descriptor (vpn_instances p)"]
  show "(\<exists>rep. run_startup_probe q (probe_replies X) True p = Inr rep) \<longleftrightarrow> all_sealed X p"
  proof (cases "vpn_instances p = []")
    case False
    then have "(\<exists>rep. run_startup_probe q (probe_replies X) True p = Inr rep) \<longleftrightarrow>
        (\<exists>reps. probe_loop q (probe_replies X) (vpn_required_country p) 0 (map to_descriptor (vpn_instances p)) [] = Inr reps)"
      by (simp add: run_startup_probe_def probe_all_def split: sum.split)
    then show ?thesis using loop False by (simp add: all_sealed_def)
  qed (simp add: run_startup_probe_def all_sealed_def)
  show "run_startup_probe q R req p = Inl e \<Longrightarrow> \<exists>m. e = Leak m"
    by (auto simp: run_startup_probe_def split: if_splits sum.splits)
qed

lemma spider_egress_alt:
  assumes "policy_file X = Inr loaded"
  shows "spider_egress X args url sid fs =
    (case validate_proxy_args (arg_vpn_instance args) (arg_proxy_tier args) of
       Inl code \<Rightarrow>
         (Exit (Phase2Exit_as_i32 code) (lit ''--vpn-instance is only compatible with --proxy-tier surfshark''), fs)
     | Inr u \<Rightarrow>
         (case run_startup_probe (debug_quote X) (probe_replies X) (vpn_required X args loaded) (gate_policy X loaded) of
            Inl e \<Rightarrow> (Exit (ExitCode_as_i32 (exit_code e)) (stealth_error_text e), fs)
          | Inr report \<Rightarrow>
              if arg_proxy_tier args \<noteq> None then tier_branch X args url sid (gate_policy X loaded) (vpn_required X args loaded) fs
              else pool_branch X args sid (gate_policy X loaded) (vpn_required X args loaded) fs))"
  unfolding spider_egress_def vpn_required_def gate_policy_def Let_def assms by simp

lemma spider_egress_go:
  assumes "policy_file X = Inr loaded" "vpn_required X args loaded"
    and "spider_egress X args url sid fs = (Proceed sel ps, fs')"
  shows "all_sealed X (gate_policy X loaded)"
    and "(if arg_proxy_tier args \<noteq> None then tier_branch X args url sid (gate_policy X loaded) True fs
      else pool_branch X args sid (gate_policy X loaded) True fs) = (Proceed sel ps, fs')"
proof -
  obtain rep where rep: "run_startup_probe (debug_quote X) (probe_replies X) True (gate_policy X loaded) = Inr rep"
    using assms(2,3) by (auto simp: spider_egress_alt [OF assms(1)] split: sum.splits)
  then show "all_sealed X (gate_policy X loaded)" using run_startup_probe_required(1) by blast
  show "(if arg_proxy_tier args \<noteq> None then tier_branch X args url sid (gate_policy X loaded) True fs
      else pool_branch X args sid (gate_policy X loaded) True fs) = (Proceed sel ps, fs')"
    using assms(2,3) rep by (simp add: spider_egress_alt [OF assms(1)] split: sum.splits if_splits)
qed

lemma pool_branch_go:
  assumes "pool_branch X args sid p True fs = (Proceed sel ps, fs')"
  shows "ps = None \<and> (\<exists>s. sel = Some s \<and> policy_url (gate_world X) p (sel_proxy_url s))"
proof -
  obtain s where "select (gate_world X) (build_pool p) sid (arg_vpn_instance args) fs = (Some s, fs')" "sel = Some s" "ps = None"
    using assms by (auto simp: pool_branch_def Let_def split: if_splits prod.splits option.splits)
  then show ?thesis using select_url by blast
qed

lemma tier_branch_go:
  assumes "tier_branch X args url sid p True fs = (Proceed sel ps, fs')"
    and "distinct (map fst (proxies p))" "vpn_instances p \<noteq> []"
    and "\<And>raw. map_of (proxies p) (lit ''surfshark'') = Some raw \<Longrightarrow> raw_kind raw = PK_HttpPool"
  shows "\<exists>s x u. ps = Some s \<and> sel = Some x \<and> sel_proxy_url x = u \<and> ps_proxy_url s = Some u \<and> policy_url (gate_world X) p u"
proof -
  let ?W = "gate_world X"
  obtain r s where r: "build_resolver ?W (env_vars X) p = Inr r" and ps: "ps = Some s" "ps_tier_name s = lit ''surfshark''"
      and sel: "select_proxy_with_resolver ?W r url sid (arg_proxy_tier args) (arg_vpn_instance args) fs = (Inr (Some s), fs')"
      and from_p: "selection_from_proxy ?W (Some s) = Some sel"
    using assms(1) by (auto simp: tier_branch_def split: sum.splits prod.splits option.splits if_splits)
  note parts = build_resolver_parts [OF r assms(2,3)]
  obtain tier where tier: "map_of (policy_proxies r) (lit ''surfshark'') = Some tier" "kind tier = PK_HttpPool"
  proof (cases "map_of (proxies p) (lit ''surfshark'')")
    case None
    with parts(5) that show ?thesis by (simp add: surfshark_tier_def)
  next
    case (Some raw)
    with parts(4) [OF Some assms(4) [OF Some]] assms(4) [OF Some] that show ?thesis by (simp add: ready_tier_def)
  qed
  have "\<exists>u. ps_proxy_kind s = PK_HttpPool \<and> ps_proxy_url s = Some u \<and> pool_url ?W (build_pool p) u"
  proof (cases "\<exists>n. arg_proxy_tier args = Some (lit ''surfshark'') \<and> arg_vpn_instance args = Some n")
    case True
    then obtain n where "pick_pool_instance ?W r sid (Some n) fs = (Some s, fs')"
      using sel by (auto simp: select_proxy_with_resolver_def split: prod.splits option.splits)
    then show ?thesis using pool_selection_url [of ?W r sid "Some n" fs s fs'] parts(2)
      by (auto elim: pick_pool_instance_Some)
  next
    case False
    then obtain t where "resolve ?W r url sid (Some t) fs = (Inr s, fs')"
      using sel by (auto simp: select_proxy_with_resolver_def map_sum_Inr split: option.splits if_splits prod.splits)
    then obtain b where "selected ?W r b s" using resolve_selected [OF parts(1)] by blast
    then show ?thesis using tier ps(2) parts(2) by (auto simp: selected_def)
  qed
  then obtain u where u: "ps_proxy_kind s = PK_HttpPool" "ps_proxy_url s = Some u" "policy_url ?W p u"
    by (auto simp: pool_url_build_pool)
  then obtain x where "sel = Some x" "sel_proxy_url x = u"
    using selection_from_proxy_url [of s u ?W] from_p by auto
  then show ?thesis using ps(1) u by blast
qed

section \<open>Properties\<close>

text \<open>
  C1. When the gate fails closed and when it does not: when a VPN is required and the spider proceeds, every configured
  instance (there is at least one) has passed the probe; and either traffic goes through the local proxy port of one of
  the instances (a selection exists, its URL is that of a configured instance, and a proxy selection, when one was made,
  has the same URL), or a tier was forced on the command line and the policy defines a tier of its own under the name
  surfshark that is not a pool, and that tier was selected. There is no other way out, for every combination of flags,
  environment, forced tier and session state. The second case really lets traffic pass by the VPN, see
  \<^verbatim>\<open>redefined_tier_bypasses\<close> below. Tier names are unique in the table of the policy.
\<close>

theorem egress_fail_closed:
  assumes "policy_file X = Inr loaded" "vpn_required X args loaded"
    and "spider_egress X args url sid fs = (Proceed sel ps, fs')"
    and "distinct (map fst (proxies loaded))"
  shows "all_sealed X (gate_policy X loaded) \<and>
    ((\<exists>s. sel = Some s \<and> policy_url (gate_world X) (gate_policy X loaded) (sel_proxy_url s) \<and>
       (\<forall>p. ps = Some p \<longrightarrow> ps_proxy_url p = Some (sel_proxy_url s))) \<or>
     (arg_proxy_tier args \<noteq> None \<and> (\<exists>p. ps = Some p \<and> ps_tier_name p = lit ''surfshark'') \<and>
       (\<exists>raw. map_of (proxies loaded) (lit ''surfshark'') = Some raw \<and> raw_kind raw \<noteq> PK_HttpPool)))"
proof (cases "arg_proxy_tier args = None")
  case True
  then have "pool_branch X args sid (gate_policy X loaded) True fs = (Proceed sel ps, fs')"
    using spider_egress_go(2) [OF assms(1,2,3)] by simp
  from pool_branch_go [OF this] spider_egress_go(1) [OF assms(1,2,3)] show ?thesis by auto
next
  case False
  then have t: "tier_branch X args url sid (gate_policy X loaded) True fs = (Proceed sel ps, fs')"
    using spider_egress_go(2) [OF assms(1,2,3)] by simp
  note sealed = spider_egress_go(1) [OF assms(1,2,3)]
  have "\<exists>p. ps = Some p \<and> ps_tier_name p = lit ''surfshark''"
    using t by (auto simp: tier_branch_def split: sum.splits prod.splits option.splits if_splits)
  with tier_branch_go [OF t] sealed assms(4) False show ?thesis
    by (cases "\<forall>raw. map_of (proxies loaded) (lit ''surfshark'') = Some raw \<longrightarrow> raw_kind raw = PK_HttpPool")
      (auto simp: all_sealed_def)
qed

text \<open>
  A required VPN that is not there ends the run with the leak code: without an instance, or with one
  that fails the probe, the gate exits with code 7 before anything is selected and leaves the session
  files alone; and whatever the input, the gate never panics.
\<close>

lemma egress_leak_exit:
  "(policy_file X = Inr loaded \<and> vpn_required X args loaded \<and> \<not> all_sealed X (gate_policy X loaded) \<and>
      validate_proxy_args (arg_vpn_instance args) (arg_proxy_tier args) = Inr () \<longrightarrow>
      (\<exists>msg. spider_egress X args url sid fs = (Exit 7 msg, fs))) \<and>
   fst (spider_egress X args url sid fs) \<noteq> Panic"
proof (intro conjI impI)
  assume h: "policy_file X = Inr loaded \<and> vpn_required X args loaded \<and> \<not> all_sealed X (gate_policy X loaded) \<and>
      validate_proxy_args (arg_vpn_instance args) (arg_proxy_tier args) = Inr ()"
  then have f: "policy_file X = Inr loaded" by blast
  obtain e where e: "run_startup_probe (debug_quote X) (probe_replies X) True (gate_policy X loaded) = Inl e"
    using h run_startup_probe_required(1) [of "debug_quote X" X "gate_policy X loaded"]
    by (cases "run_startup_probe (debug_quote X) (probe_replies X) True (gate_policy X loaded)") auto
  then obtain m where "e = Leak m" using run_startup_probe_required(2) by blast
  then show "\<exists>msg. spider_egress X args url sid fs = (Exit 7 msg, fs)"
    using h e by (simp add: spider_egress_alt [OF f])
next
  have "fst (tier_branch X args url sid p req fs) \<noteq> Panic" for p req
    by (auto simp: tier_branch_def selection_from_proxy_total split: sum.splits prod.splits option.splits if_splits)
  moreover have "fst (pool_branch X args sid p req fs) \<noteq> Panic" for p req
    by (auto simp: pool_branch_def Let_def split: prod.splits option.splits if_splits)
  ultimately show "fst (spider_egress X args url sid fs) \<noteq> Panic"
    by (simp add: spider_egress_def Let_def split: sum.splits)
qed

section \<open>A concrete run\<close>

definition demo_instances :: "PolicyVpnInstance list" where
  "demo_instances = [\<lparr>pv_name = lit ''v'', pv_http_proxy_port = 81, pv_control_port = 82\<rparr>]"

definition none_raw :: RawTierConfig where
  "none_raw = \<lparr>raw_kind = PK_None, raw_url = None, raw_instances_from = None, raw_auth_env = [], raw_no_proxy = [],
     raw_rotation = PerSession, raw_country_filter = [], raw_enabled_by_default = True, raw_strength = Datacenter\<rparr>"

definition demo_gate :: "Policy \<Rightarrow> ustr gate_env" where
  "demo_gate p = \<lparr>gate_world = demo_world, env_require_vpn = Some (lit ''1''), env_vpn_instances = None, env_vars = (\<lambda>_. None),
     policy_toml = (\<lambda>_. Inr p), policy_fs = (\<lambda>_. Some (Inr [])), policy_path = Some [], policy_error_text = (\<lambda>_. []), resolver_error_text = (\<lambda>_. []), debug_quote = id,
     probe_replies = (\<lambda>_. demo_replies), now_all_failed = (\<lambda>_. 0)\<rparr>"

definition tier_args :: spider_args where
  "tier_args = \<lparr>arg_require_vpn = True, arg_allow_no_vpn = False, arg_vpn_instance = None, arg_proxy_tier = Some (lit ''surfshark'')\<rparr>"

definition plain_args :: spider_args where
  "plain_args = \<lparr>arg_require_vpn = False, arg_allow_no_vpn = False, arg_vpn_instance = Some (lit ''v''), arg_proxy_tier = None\<rparr>"

lemma demo_sealed: "sealed demo_replies None"
proof -
  have "sealed demo_replies (Some (lit ''japan''))" using demo_probe probe_one_iff by blast
  then show ?thesis unfolding sealed_def by blast
qed

lemma demo_all_sealed: "vpn_instances p \<noteq> [] \<Longrightarrow> vpn_required_country p = None \<Longrightarrow> all_sealed (demo_gate q) p"
  using demo_sealed by (simp add: all_sealed_def demo_gate_def)

lemma demo_gate_sel [simp]:
  "policy_file (demo_gate q) = Inr q" "gate_world (demo_gate q) = demo_world" "env_vars (demo_gate q) = (\<lambda>_. None)"
  by (simp_all add: demo_gate_def policy_file_def Policy_load_def Policy_load_from_def)

lemma demo_gate_policy [simp]: "gate_policy (demo_gate q) p = p"
  by (simp add: gate_policy_def demo_gate_def with_env_overrides_def)

lemma demo_required [simp]: "vpn_required (demo_gate q) args p"
  by (simp add: vpn_required_def effective_require_vpn_def) (simp add: demo_gate_def)

lemma demo_egress:
  assumes "validate_proxy_args (arg_vpn_instance args) (arg_proxy_tier args) = Inr ()"
    and "vpn_instances p \<noteq> []" "vpn_required_country p = None"
  shows "spider_egress (demo_gate p) args url sid fs =
    (if arg_proxy_tier args \<noteq> None then tier_branch (demo_gate p) args url sid p True fs
     else pool_branch (demo_gate p) args sid p True fs)"
proof -
  have f: "policy_file (demo_gate p) = Inr p" by simp
  obtain rep where "run_startup_probe (debug_quote (demo_gate p)) (probe_replies (demo_gate p)) True p = Inr rep"
    using run_startup_probe_required(1) demo_all_sealed [OF assms(2,3)] by blast
  then show ?thesis by (simp add: spider_egress_alt [OF f] assms(1))
qed

theorem egress_fail_closed_witness:
  "\<exists>s fs'. spider_egress (demo_gate (Policy_default\<lparr>vpn_instances := demo_instances\<rparr>)) plain_args [] [] empty_fs = (Proceed (Some s) None, fs') \<and>
     policy_url demo_world (Policy_default\<lparr>vpn_instances := demo_instances\<rparr>) (sel_proxy_url s)"
proof -
  let ?p = "Policy_default\<lparr>vpn_instances := demo_instances\<rparr>"
  have f: "policy_file (demo_gate ?p) = Inr ?p" by simp
  have "\<exists>s fs'. pool_branch (demo_gate ?p) plain_args [] ?p True empty_fs = (Proceed (Some s) None, fs')"
    by (simp add: pool_branch_def Let_def all_failed_def build_pool_def InstancePool_new_def with_failure_policy_def
        demo_instances_def is_healthy_def select_def choose_instance_def plain_args_def pick_by_name_def pool_instance_of_def
        demo_gate_def demo_world_def demo_lib_def)
  then obtain s fs' where s: "spider_egress (demo_gate ?p) plain_args [] [] empty_fs = (Proceed (Some s) None, fs')"
    using demo_egress [of plain_args ?p "[]" "[]" empty_fs]
    by (auto simp: plain_args_def validate_proxy_args_def Policy_default_def demo_instances_def)
  have "distinct (map fst (proxies ?p))" by (simp add: Policy_default_def)
  with egress_fail_closed [OF f demo_required s] s show ?thesis by (auto simp: plain_args_def)
qed

lemma Policy_default_no_instances: "vpn_instances Policy_default = []"
  by (simp add: Policy_default_def default_vpn_instances_def)

text \<open>
  The condition on the tier named surfshark is needed: the gate recognises the VPN tier by its name
  alone. With a policy that declares a tier of that name and of kind none, and a VPN required by the
  environment, the flag and the default policy alike, the spider proceeds with no proxy at all.
\<close>

lemma redefined_tier_bypasses:
  "\<exists>s fs'. spider_egress (demo_gate (Policy_default\<lparr>vpn_instances := demo_instances, proxies := [(lit ''surfshark'', none_raw)]\<rparr>))
       tier_args url sid fs = (Proceed None (Some s), fs') \<and> ps_proxy_url s = None \<and>
     vpn_required (demo_gate (Policy_default\<lparr>vpn_instances := demo_instances, proxies := [(lit ''surfshark'', none_raw)]\<rparr>)) tier_args
       (Policy_default\<lparr>vpn_instances := demo_instances, proxies := [(lit ''surfshark'', none_raw)]\<rparr>)"
proof -
  let ?p = "Policy_default\<lparr>vpn_instances := demo_instances, proxies := [(lit ''surfshark'', none_raw)]\<rparr>"
  have t: "resolve_tier (url_library demo_world) (\<lambda>_. None) (lit ''surfshark'') none_raw = Inr (ready_tier none_raw None)"
    by (simp add: resolve_tier_def none_raw_def load_env_values_def placeholder_vars_def)
  have "\<not> isl (build_resolver demo_world (\<lambda>_. None) ?p)"
    by (simp add: build_resolver_def ProxyResolver_load_def resolver_policy_of_def t Let_def validate_authorized_targets_def
        AuthorizedTargets_default_def)
  then obtain r where r: "build_resolver demo_world (\<lambda>_. None) ?p = Inr r"
    by (cases "build_resolver demo_world (\<lambda>_. None) ?p") simp_all
  have m: "map_of (policy_proxies r) (lit ''surfshark'') = Some (ready_tier none_raw None)"
    using build_resolver_tier [OF r, of "lit ''surfshark''"] t by (simp add: demo_instances_def)
  obtain s where s: "resolve demo_world r url sid (Some (lit ''surfshark'')) fs = (Inr s, fs)"
      "ps_tier_name s = lit ''surfshark''" "ps_proxy_url s = None"
  proof -
    have "targets (authorized r) = []" using build_resolver_parts(3) [OF r] by (simp add: demo_instances_def)
    then have "match_authorized_target demo_world r url = None" by (simp add: match_None)
    then have "\<exists>s. resolve demo_world r url sid (Some (lit ''surfshark'')) fs = (Inr s, fs) \<and>
        ps_tier_name s = lit ''surfshark'' \<and> ps_proxy_url s = None"
      by (simp add: resolve_def Let_def selection_for_tier_def m ready_tier_def none_raw_def floor_of_def
          less_ProxyStrength_def)
    then show ?thesis using that by blast
  qed
  have "selection_from_proxy demo_world (Some s) = Some None" using s(3) by (simp add: selection_from_proxy_def)
  then have "tier_branch (demo_gate ?p) tier_args url sid ?p True fs = (Proceed None (Some s), fs)"
    using r s by (simp add: tier_branch_def select_proxy_with_resolver_def tier_args_def)
  then have "spider_egress (demo_gate ?p) tier_args url sid fs = (Proceed None (Some s), fs)"
    using demo_egress [of tier_args ?p url sid fs]
    by (simp add: tier_args_def validate_proxy_args_def Policy_default_def demo_instances_def)
  then show ?thesis using s(3) demo_required by blast
qed

end
