(* ===== verification/Traces.thy ===== *)
theory Traces
  imports Rust_Prelude
begin

text \<open>
  Labelled step relations and their traces, for the concurrent parts of the program. A trace is a list
  of labels that leads from one state to another; the locale \<open>step_invariant\<close> is the contract of a
  predicate that every step keeps, and what follows for traces.
\<close>

inductive trace :: "('e \<Rightarrow> 's \<Rightarrow> 's \<Rightarrow> bool) \<Rightarrow> 's \<Rightarrow> 'e list \<Rightarrow> 's \<Rightarrow> bool" for step where
  trace_nil: "trace step s [] s"
| trace_snoc: "trace step s es t \<Longrightarrow> step e t u \<Longrightarrow> trace step s (es @ [e]) u"

inductive_cases trace_nilE: "trace step s [] t"

lemma trace_empty [simp]: "trace step s [] t \<longleftrightarrow> t = s"
  by (auto elim: trace_nilE intro: trace_nil)

lemma trace_snoc_iff: "trace step s (es @ [e]) u \<longleftrightarrow> (\<exists>t. trace step s es t \<and> step e t u)"
  by (auto intro: trace_snoc elim: trace.cases)

lemma trace_append: "trace step s (es @ fs) u \<longleftrightarrow> (\<exists>t. trace step s es t \<and> trace step t fs u)"
proof (induction fs arbitrary: u rule: rev_induct)
  case (snoc f fs)
  have "trace step s (es @ fs @ [f]) u \<longleftrightarrow> (\<exists>w. trace step s (es @ fs) w \<and> step f w u)"
    using trace_snoc_iff [of step s "es @ fs"] by simp
  then show ?case by (auto simp: snoc.IH trace_snoc_iff)
qed simp

lemma trace_single [simp]: "trace step s [e] t \<longleftrightarrow> step e s t"
  using trace_snoc_iff [of step s "[]"] by simp

lemma trace_Cons: "trace step s (e # es) u \<longleftrightarrow> (\<exists>t. step e s t \<and> trace step t es u)"
  using trace_append [of step s "[e]" es u] by simp

locale step_invariant =
  fixes step :: "'e \<Rightarrow> 's \<Rightarrow> 's \<Rightarrow> bool" and inv :: "'s \<Rightarrow> bool"
  assumes step_keeps: "step e s t \<Longrightarrow> inv s \<Longrightarrow> inv t"
begin

lemma trace_keeps:
  assumes "trace step s es t" "inv s"
  shows "inv t"
  using assms by (induction rule: trace.induct) (auto intro: step_keeps)

end

text \<open>An invariant that also speaks of the labels seen so far.\<close>

locale history_invariant =
  fixes step :: "'e \<Rightarrow> 's \<Rightarrow> 's \<Rightarrow> bool" and hinv :: "'e list \<Rightarrow> 's \<Rightarrow> bool"
  assumes history_step: "step e s t \<Longrightarrow> hinv es s \<Longrightarrow> hinv (es @ [e]) t"
begin

lemma history_keeps:
  assumes "trace step s es t" "hinv [] s"
  shows "hinv es t"
  using assms by (induction rule: trace.induct) (auto intro: history_step)

end

sublocale step_invariant \<subseteq> hist: history_invariant step "\<lambda>_. inv"
  by unfold_locales (rule step_keeps)

text \<open>A relation whose labels determine the next state can be run.\<close>

primrec run_labels :: "('e \<Rightarrow> 's \<Rightarrow> 's option) \<Rightarrow> 'e list \<Rightarrow> 's \<Rightarrow> 's option" where
  "run_labels nxt [] s = Some s"
| "run_labels nxt (e # es) s = (case nxt e s of None \<Rightarrow> None | Some t \<Rightarrow> run_labels nxt es t)"

locale deterministic =
  fixes step :: "'e \<Rightarrow> 's \<Rightarrow> 's \<Rightarrow> bool" and nxt :: "'e \<Rightarrow> 's \<Rightarrow> 's option"
  assumes step_iff: "step e s t \<longleftrightarrow> nxt e s = Some t"
begin

lemma trace_run: "trace step s es t \<longleftrightarrow> run_labels nxt es s = Some t"
  by (induction es arbitrary: s) (auto simp: trace_Cons step_iff split: option.split)

end

end
