(* ===== verification/Leak_Monitor.thy ===== *)
theory Leak_Monitor
  imports Traces Leak_Guard
begin

text \<open>
  The background leak monitor (\<^verbatim>\<open>crates/vpn-rotate/src/leak_monitor.rs\<close>): a task that probes every
  configured instance at a fixed interval, latches the first leak in a shared state and wakes whoever
  waits for it.

  The task is a labelled step relation between its suspension points, so that it can interleave with
  the code that watches it: a label carries the clock readings (nanoseconds) and the verdict that the
  step takes from outside. The broadcast primitive is modelled by its documented contract, as in
  \<open>Progress\<close>: only futures that exist at the time of the call are woken, hence the number of calls is
  its state. An aborted task stops at a suspension point. The clock is taken to be far from its end,
  so that adding an interval of at most five minutes does not overflow.
\<close>

section \<open>Definitions\<close>

definition MIN_POLL_INTERVAL :: nat where
  "MIN_POLL_INTERVAL = from_secs 5"

definition MAX_POLL_INTERVAL :: nat where
  "MAX_POLL_INTERVAL = from_secs 300"

definition DEFAULT_POLL_INTERVAL :: nat where
  "DEFAULT_POLL_INTERVAL = from_secs 30"

definition SLEEP_SLICE :: nat where
  "SLEEP_SLICE = 100 * 10 ^ 6"

datatype ProbeVerdict = Healthy | Leaking ustr ustr

definition descriptor_of :: "VpnInstance \<Rightarrow> InstanceDescriptor" where
  "descriptor_of v =
     \<lparr>id_name = vi_name v, id_http_proxy_port = http_proxy_port v, id_control_port = control_port v\<rparr>"

definition probe_once ::
  "(ustr \<Rightarrow> ustr) \<Rightarrow> (nat \<Rightarrow> replies) \<Rightarrow> VpnInstance list \<Rightarrow> ustr option \<Rightarrow> ProbeVerdict" where
  "probe_once quote R insts expected_country =
     (case probe_all quote R (map descriptor_of insts) expected_country of
        Inr _ \<Rightarrow> Healthy
      | Inl e \<Rightarrow> Leaking (case insts of [] \<Rightarrow> [] | i # _ \<Rightarrow> vi_name i) (leak_error_text e))"

record LeakState =
  last_check_at :: "nat option"
  leak_detected :: bool
  failed_instance :: "ustr option"
  leak_reason :: "ustr option"
  ticks :: nat

definition LeakState_default :: LeakState where
  "LeakState_default =
     \<lparr>last_check_at = None, leak_detected = False, failed_instance = None, leak_reason = None, ticks = 0\<rparr>"

text \<open>
  Where the task is: at the head of its loop (with the value of \<^verbatim>\<open>first\<close>), at the test of the inner
  loop, asleep until an instant, probing, waiting for the write lock, past the lock with the broadcast
  still to come, or gone. The number is the deadline of the sleep.
\<close>

datatype task_pc =
  Loop_Head bool | Sleep_Head nat | Asleep nat nat | Probing | Recording ProbeVerdict | Notifying | Returned

record LeakMonitor =
  poll_interval :: nat
  lm_broadcasts :: nat
  lm_state :: LeakState
  lm_cancel :: bool
  lm_abort :: bool
  lm_pc :: task_pc

definition clamp_poll_interval :: "nat \<Rightarrow> nat" where
  "clamp_poll_interval requested =
     (if requested < MIN_POLL_INTERVAL then MIN_POLL_INTERVAL
      else if requested > MAX_POLL_INTERVAL then MAX_POLL_INTERVAL
      else requested)"

definition spawn_with :: "nat \<Rightarrow> LeakMonitor" where
  "spawn_with interval =
     \<lparr>poll_interval = clamp_poll_interval interval, lm_broadcasts = 0, lm_state = LeakState_default,
      lm_cancel = False, lm_abort = False, lm_pc = Loop_Head True\<rparr>"

definition loop_head :: "bool \<Rightarrow> nat \<Rightarrow> LeakMonitor \<Rightarrow> LeakMonitor" where
  "loop_head first now m =
     (if lm_cancel m then m\<lparr>lm_pc := Returned\<rparr>
      else if first then m\<lparr>lm_pc := Probing\<rparr>
      else m\<lparr>lm_pc := Sleep_Head (now + poll_interval m)\<rparr>)"

text \<open>The three readings are those of the loop test, of the remaining time and of the sleep itself.\<close>

definition sleep_test :: "nat \<Rightarrow> nat \<Rightarrow> nat \<Rightarrow> nat \<Rightarrow> LeakMonitor \<Rightarrow> LeakMonitor" where
  "sleep_test deadline now1 now2 now3 m =
     (if now1 < deadline
      then if lm_cancel m then m\<lparr>lm_pc := Returned\<rparr>
           else let step = min SLEEP_SLICE (deadline - now2) in
             if step = 0 then m\<lparr>lm_pc := Probing\<rparr> else m\<lparr>lm_pc := Asleep deadline (now3 + step)\<rparr>
      else m\<lparr>lm_pc := Probing\<rparr>)"

definition record_verdict :: "nat \<Rightarrow> ProbeVerdict \<Rightarrow> LeakMonitor \<Rightarrow> LeakMonitor" where
  "record_verdict now verdict m =
     (let st = (lm_state m)\<lparr>last_check_at := Some now, ticks := saturating_add u64_max (ticks (lm_state m)) 1\<rparr>
      in case verdict of
           Healthy \<Rightarrow> m\<lparr>lm_state := st, lm_pc := Loop_Head False\<rparr>
         | Leaking inst why \<Rightarrow>
             if \<not> leak_detected st
             then m\<lparr>lm_state := st\<lparr>leak_detected := True, failed_instance := Some inst, leak_reason := Some why\<rparr>,
                    lm_pc := Notifying\<rparr>
             else m\<lparr>lm_state := st, lm_pc := Loop_Head False\<rparr>)"

definition notify_waiters :: "LeakMonitor \<Rightarrow> LeakMonitor" where
  "notify_waiters m = m\<lparr>lm_broadcasts := Suc (lm_broadcasts m), lm_pc := Returned\<rparr>"

text \<open>\<^verbatim>\<open>shutdown\<close> and \<^verbatim>\<open>drop\<close> have the same body.\<close>

definition shutdown :: "LeakMonitor \<Rightarrow> LeakMonitor" where
  "shutdown m = m\<lparr>lm_cancel := True, lm_abort := True\<rparr>"

datatype mon_event =
  Head nat | Sleep_Test nat nat nat | Wake nat | Reply ProbeVerdict | Record nat ProbeVerdict | Notify | Shutdown | Abort

text \<open>Suspension points: a task not yet polled, a sleep, the probe, the write lock.\<close>

fun suspended :: "task_pc \<Rightarrow> bool" where
  "suspended (Loop_Head first) = first"
| "suspended (Asleep _ _) = True"
| "suspended Probing = True"
| "suspended (Recording _) = True"
| "suspended _ = False"

inductive mon_step :: "mon_event \<Rightarrow> LeakMonitor \<Rightarrow> LeakMonitor \<Rightarrow> bool" where
  at_head: "lm_pc m = Loop_Head first \<Longrightarrow> mon_step (Head now) m (loop_head first now m)"
| at_sleep_test: "lm_pc m = Sleep_Head d \<Longrightarrow> mon_step (Sleep_Test n1 n2 n3) m (sleep_test d n1 n2 n3 m)"
| at_wake: "lm_pc m = Asleep d until \<Longrightarrow> until \<le> now \<Longrightarrow> mon_step (Wake now) m (m\<lparr>lm_pc := Sleep_Head d\<rparr>)"
| at_reply: "lm_pc m = Probing \<Longrightarrow> mon_step (Reply v) m (m\<lparr>lm_pc := Recording v\<rparr>)"
| at_record: "lm_pc m = Recording v \<Longrightarrow> mon_step (Record now v) m (record_verdict now v m)"
| at_notify: "lm_pc m = Notifying \<Longrightarrow> mon_step Notify m (notify_waiters m)"
| at_shutdown: "mon_step Shutdown m (shutdown m)"
| at_abort: "lm_abort m \<Longrightarrow> suspended (lm_pc m) \<Longrightarrow> mon_step Abort m (m\<lparr>lm_pc := Returned\<rparr>)"

text \<open>The same relation as a function of the label.\<close>

fun mon_next :: "mon_event \<Rightarrow> LeakMonitor \<Rightarrow> LeakMonitor option" where
  "mon_next (Head now) m = (case lm_pc m of Loop_Head first \<Rightarrow> Some (loop_head first now m) | _ \<Rightarrow> None)"
| "mon_next (Sleep_Test n1 n2 n3) m = (case lm_pc m of Sleep_Head d \<Rightarrow> Some (sleep_test d n1 n2 n3 m) | _ \<Rightarrow> None)"
| "mon_next (Wake now) m =
     (case lm_pc m of Asleep d until \<Rightarrow> if until \<le> now then Some (m\<lparr>lm_pc := Sleep_Head d\<rparr>) else None | _ \<Rightarrow> None)"
| "mon_next (Reply v) m = (if lm_pc m = Probing then Some (m\<lparr>lm_pc := Recording v\<rparr>) else None)"
| "mon_next (Record now v) m = (if lm_pc m = Recording v then Some (record_verdict now v m) else None)"
| "mon_next Notify m = (if lm_pc m = Notifying then Some (notify_waiters m) else None)"
| "mon_next Shutdown m = Some (shutdown m)"
| "mon_next Abort m = (if lm_abort m \<and> suspended (lm_pc m) then Some (m\<lparr>lm_pc := Returned\<rparr>) else None)"

interpretation det: deterministic mon_step mon_next
proof
  show "mon_step e s t \<longleftrightarrow> mon_next e s = Some t" for e s t
    by (cases e) (auto simp: mon_step.simps split: task_pc.splits)
qed

section \<open>What the state says about the run\<close>

fun recorded :: "mon_event list \<Rightarrow> (nat \<times> ProbeVerdict) list" where
  "recorded [] = []"
| "recorded (Record now v # es) = (now, v) # recorded es"
| "recorded (_ # es) = recorded es"

lemma recorded_append [simp]: "recorded (es @ fs) = recorded es @ recorded fs"
  by (induction es rule: recorded.induct) simp_all

text \<open>The specification: the state as a function of the verdicts recorded so far.\<close>

fun first_leak :: "(nat \<times> ProbeVerdict) list \<Rightarrow> (ustr \<times> ustr) option" where
  "first_leak [] = None"
| "first_leak ((_, Healthy) # rs) = first_leak rs"
| "first_leak ((_, Leaking i w) # rs) = Some (i, w)"

definition observed :: "(nat \<times> ProbeVerdict) list \<Rightarrow> LeakState" where
  "observed rs =
     \<lparr>last_check_at = (if rs = [] then None else Some (fst (last rs))),
      leak_detected = (first_leak rs \<noteq> None),
      failed_instance = map_option fst (first_leak rs),
      leak_reason = map_option snd (first_leak rs),
      ticks = min u64_max (length rs)\<rparr>"

lemma first_leak_snoc: "first_leak (rs @ [(t, v)]) =
    (case first_leak rs of Some x \<Rightarrow> Some x | None \<Rightarrow> (case v of Healthy \<Rightarrow> None | Leaking i w \<Rightarrow> Some (i, w)))"
  by (induction rs rule: first_leak.induct) (simp_all split: ProbeVerdict.splits)

lemma first_leak_None: "first_leak rs = None \<longleftrightarrow> (\<forall>r \<in> set rs. snd r = Healthy)"
  by (induction rs rule: first_leak.induct) auto

lemma observed_leak: "leak_detected (observed rs) \<longleftrightarrow> first_leak rs \<noteq> None"
  by (simp add: observed_def)

definition latched :: "LeakMonitor \<Rightarrow> bool" where
  "latched m \<longleftrightarrow> leak_detected (lm_state m)"

text \<open>A latched leak stops the task: it has only the broadcast left, once.\<close>

definition pc_ok :: "LeakMonitor \<Rightarrow> bool" where
  "pc_ok m \<longleftrightarrow>
     (case lm_pc m of
        Notifying \<Rightarrow> latched m \<and> lm_broadcasts m = 0
      | Returned \<Rightarrow> lm_broadcasts m = (if latched m then 1 else 0)
      | _ \<Rightarrow> \<not> latched m \<and> lm_broadcasts m = 0)"

definition mon_hist :: "mon_event list \<Rightarrow> LeakMonitor \<Rightarrow> bool" where
  "mon_hist es m \<longleftrightarrow>
     lm_state m = observed (recorded es) \<and> pc_ok m \<and> lm_broadcasts m = count_list es Notify \<and>
     (\<forall>r \<in> set (butlast (recorded es)). snd r = Healthy)"

lemma spawn_hist: "mon_hist [] (spawn_with p)"
  by (simp add: mon_hist_def pc_ok_def latched_def spawn_with_def observed_def LeakState_default_def)

lemmas mon_defs = loop_head_def sleep_test_def notify_waiters_def shutdown_def pc_ok_def latched_def Let_def

lemma record_verdict_observed:
  assumes "lm_state m = observed rs" "\<not> leak_detected (lm_state m)"
  shows "lm_state (record_verdict now v m) = observed (rs @ [(now, v)])"
proof -
  have "first_leak rs = None" using assms observed_leak by metis
  moreover have "min u64_max (min u64_max (length rs) + 1) = min u64_max (Suc (length rs))" by simp
  ultimately show ?thesis using assms(1)
    by (cases v) (simp_all add: record_verdict_def observed_def first_leak_snoc saturating_add_def)
qed

lemma record_verdict_pc:
  assumes "\<not> leak_detected (lm_state m)"
  shows "lm_pc (record_verdict now v m) = (if v = Healthy then Loop_Head False else Notifying)"
    "leak_detected (lm_state (record_verdict now v m)) \<longleftrightarrow> v \<noteq> Healthy"
    "lm_broadcasts (record_verdict now v m) = lm_broadcasts m"
  using assms by (cases v; simp add: record_verdict_def Let_def)+

lemma mon_hist_record:
  assumes "mon_hist es m" "lm_pc m = Recording v"
  shows "mon_hist (es @ [Record now v]) (record_verdict now v m)"
proof -
  have st: "lm_state m = observed (recorded es)" and nl: "\<not> leak_detected (lm_state m)" and b: "lm_broadcasts m = 0"
    "count_list es Notify = 0"
    using assms by (auto simp: mon_hist_def pc_ok_def latched_def)
  have "\<forall>r \<in> set (recorded es). snd r = Healthy"
    using st nl observed_leak first_leak_None by metis
  then show ?thesis
    using record_verdict_observed [OF st nl, of now v] record_verdict_pc [OF nl, of now v] b
    by (cases v) (simp_all add: mon_hist_def pc_ok_def latched_def)
qed

interpretation mon: history_invariant mon_step mon_hist
proof
  fix e s t es
  assume "mon_step e s t" and h: "mon_hist es s"
  then show "mon_hist (es @ [e]) t"
  proof cases
    case at_record
    then show ?thesis using h mon_hist_record by simp
  qed (use h in \<open>auto simp: mon_hist_def mon_defs split: if_splits task_pc.splits\<close>)
qed

section \<open>The pace of the probes\<close>

fun readings :: "mon_event \<Rightarrow> nat list" where
  "readings (Head n) = [n]"
| "readings (Sleep_Test a b c) = [a, b, c]"
| "readings (Wake n) = [n]"
| "readings (Record n _) = [n]"
| "readings _ = []"

abbreviation clock :: "mon_event list \<Rightarrow> nat list" where
  "clock es \<equiv> concat (map readings es)"

definition probe_times :: "mon_event list \<Rightarrow> nat list" where
  "probe_times es = map fst (recorded es)"

definition spaced :: "nat \<Rightarrow> nat list \<Rightarrow> bool" where
  "spaced gap ts \<longleftrightarrow> sorted_wrt (\<lambda>a b. a + gap \<le> b) ts"

definition due :: "nat \<Rightarrow> mon_event list \<Rightarrow> nat \<Rightarrow> bool" where
  "due gap es d \<longleftrightarrow> (\<forall>t \<in> set (probe_times es). t + gap \<le> d)"

definition paced :: "nat \<Rightarrow> mon_event list \<Rightarrow> LeakMonitor \<Rightarrow> bool" where
  "paced gap es m \<longleftrightarrow> (sorted (clock es) \<longrightarrow>
     poll_interval m = gap \<and> spaced gap (probe_times es) \<and> set (probe_times es) \<subseteq> set (clock es) \<and>
     (case lm_pc m of
        Loop_Head first \<Rightarrow> first \<longrightarrow> probe_times es = []
      | Sleep_Head d \<Rightarrow> due gap es d
      | Asleep d _ \<Rightarrow> due gap es d
      | Probing \<Rightarrow> probe_times es = [] \<or> (\<exists>r \<in> set (clock es). due gap es r)
      | Recording _ \<Rightarrow> probe_times es = [] \<or> (\<exists>r \<in> set (clock es). due gap es r)
      | _ \<Rightarrow> True))"

lemma probe_times_snoc [simp]:
  "probe_times (es @ [e]) = probe_times es @ (case e of Record now _ \<Rightarrow> [now] | _ \<Rightarrow> [])"
  by (cases e) (simp_all add: probe_times_def)

lemma due_snoc: "due gap (es @ [e]) d \<longleftrightarrow> due gap es d \<and> (case e of Record now _ \<Rightarrow> now + gap \<le> d | _ \<Rightarrow> True)"
  by (cases e) (auto simp: due_def)

lemma due_mono: "due gap es d \<Longrightarrow> d \<le> d' \<Longrightarrow> due gap es d'"
  by (auto simp: due_def)

lemma paced_head:
  assumes "paced gap es m" "lm_pc m = Loop_Head first"
  shows "paced gap (es @ [Head now]) (loop_head first now m)"
  using assms by (auto simp: paced_def loop_head_def due_snoc due_def sorted_append)

lemma paced_sleep_test:
  assumes "paced gap es m" "lm_pc m = Sleep_Head d"
  shows "paced gap (es @ [Sleep_Test n1 n2 n3]) (sleep_test d n1 n2 n3 m)"
proof (cases "d \<le> n1 \<or> d \<le> n2")
  case True
  then show ?thesis using assms
    by (auto simp: paced_def sleep_test_def Let_def due_snoc sorted_append SLEEP_SLICE_def
        intro: due_mono [of _ es d])
next
  case False
  then show ?thesis using assms
    by (auto simp: paced_def sleep_test_def Let_def due_snoc sorted_append SLEEP_SLICE_def min_def)
qed

lemma paced_record:
  assumes "paced gap es m" "lm_pc m = Recording v"
  shows "paced gap (es @ [Record now v]) (record_verdict now v m)"
proof -
  have "due gap es now" if "sorted (clock (es @ [Record now v]))"
    using that assms by (fastforce simp: paced_def sorted_append due_def)
  then have "spaced gap (probe_times es @ [now])" if "sorted (clock (es @ [Record now v]))"
    using that assms by (auto simp: paced_def spaced_def sorted_wrt_append due_def sorted_append)
  then show ?thesis using assms
    by (cases v) (auto simp: paced_def record_verdict_def Let_def sorted_append)
qed

interpretation pace: history_invariant mon_step "paced gap" for gap
proof
  fix e s t es
  assume "mon_step e s t" and h: "paced gap es s"
  then show "paced gap (es @ [e]) t"
  proof cases
    case at_head
    then show ?thesis using h paced_head by simp
  next
    case at_sleep_test
    then show ?thesis using h paced_sleep_test by simp
  next
    case at_record
    then show ?thesis using h paced_record by simp
  qed (use h in \<open>auto simp: paced_def notify_waiters_def shutdown_def due_snoc sorted_append split: task_pc.splits\<close>)
qed

lemma spawn_paced: "paced (clamp_poll_interval p) [] (spawn_with p)"
  by (simp add: paced_def spawn_with_def spaced_def probe_times_def)

section \<open>Shutting down\<close>

text \<open>How many steps of its own a cancelled task has left at most.\<close>

fun steps_left :: "task_pc \<Rightarrow> nat" where
  "steps_left (Asleep _ _) = 5"
| "steps_left (Sleep_Head _) = 4"
| "steps_left Probing = 3"
| "steps_left (Recording _) = 2"
| "steps_left (Loop_Head _) = 1"
| "steps_left Notifying = 1"
| "steps_left Returned = 0"

definition cancelled_hist :: "nat \<Rightarrow> mon_event list \<Rightarrow> LeakMonitor \<Rightarrow> bool" where
  "cancelled_hist n es m \<longleftrightarrow>
     lm_cancel m \<and> length (filter (\<lambda>e. e \<noteq> Shutdown) es) + steps_left (lm_pc m) \<le> n \<and>
     length (recorded es) + (if steps_left (lm_pc m) \<ge> 2 then 1 else 0) \<le> 1"

interpretation ending: history_invariant mon_step "cancelled_hist n" for n
proof
  fix e s t es
  assume "mon_step e s t" and h: "cancelled_hist n es s"
  then show "cancelled_hist n (es @ [e]) t"
    by cases (auto simp: cancelled_hist_def mon_defs record_verdict_def split: if_splits ProbeVerdict.splits
        elim!: suspended.elims)
qed

lemma not_stuck: "lm_pc m \<noteq> Returned \<Longrightarrow> \<exists>e m'. e \<noteq> Shutdown \<and> mon_step e m m'"
  by (cases "lm_pc m") (blast intro: mon_step.intros)+

section \<open>Properties\<close>

text \<open>
  C18. The state of the monitor is exactly what its verdicts say, on every run and at every moment of
  it: the tick counter counts the verdicts (up to its maximum), the time of the last check is that of
  the last verdict, and a leak is reported if and only if some verdict was one, with the instance and
  reason of the first. That first leak is the last verdict there is: all the others are healthy, only
  the broadcast is left for the task to do, it happens at most once, and when the task has returned it
  has happened if and only if a leak was found.
\<close>

theorem monitor_state_exact:
  assumes "trace mon_step (spawn_with p) es m"
  shows "lm_state m = observed (recorded es) \<and> (\<forall>r \<in> set (butlast (recorded es)). snd r = Healthy) \<and>
    lm_broadcasts m = count_list es Notify \<and> lm_broadcasts m \<le> 1 \<and>
    (leak_detected (lm_state m) \<longrightarrow> lm_pc m = Notifying \<or> lm_pc m = Returned) \<and>
    (lm_pc m = Returned \<longrightarrow> (lm_broadcasts m = 1 \<longleftrightarrow> leak_detected (lm_state m)))"
proof -
  have h: "mon_hist es m" by (rule mon.history_keeps [OF assms spawn_hist])
  then have "pc_ok m" by (simp add: mon_hist_def)
  then have "lm_broadcasts m \<le> 1 \<and> (leak_detected (lm_state m) \<longrightarrow> lm_pc m = Notifying \<or> lm_pc m = Returned) \<and>
      (lm_pc m = Returned \<longrightarrow> (lm_broadcasts m = 1 \<longleftrightarrow> leak_detected (lm_state m)))"
    by (cases "lm_pc m") (simp_all add: pc_ok_def latched_def)
  then show ?thesis using h by (simp add: mon_hist_def)
qed

definition demo_leak_run :: "mon_event list" where
  "demo_leak_run = [Head 0, Reply (Leaking (lit ''vpn-1'') []), Record 7 (Leaking (lit ''vpn-1'') []), Notify]"

theorem monitor_state_exact_witness:
  "\<exists>m :: LeakMonitor. lm_state m = observed [(7, Leaking (lit ''vpn-1'') [])] \<and> lm_broadcasts m = 1"
proof -
  obtain m where m: "trace mon_step (spawn_with 0) demo_leak_run m"
    by (simp add: det.trace_run demo_leak_run_def spawn_with_def loop_head_def record_verdict_def LeakState_default_def)
  have "recorded demo_leak_run = [(7, Leaking (lit ''vpn-1'') [])]" "count_list demo_leak_run Notify = 1"
    by (simp_all add: demo_leak_run_def)
  with monitor_state_exact [OF m] have "lm_state m = observed [(7, Leaking (lit ''vpn-1'') [])] \<and> lm_broadcasts m = 1" by simp
  then show ?thesis by blast
qed

text \<open>
  The pace of the monitor: if the clock never goes back, verdicts are at least the poll interval
  apart, and that interval, whatever was asked for, lies between five seconds and five minutes.
\<close>

lemma monitor_pace:
  assumes "trace mon_step (spawn_with p) es m" "sorted (clock es)"
  shows "spaced (clamp_poll_interval p) (probe_times es) \<and>
    MIN_POLL_INTERVAL \<le> clamp_poll_interval p \<and> clamp_poll_interval p \<le> MAX_POLL_INTERVAL"
proof
  show "spaced (clamp_poll_interval p) (probe_times es)"
    using pace.history_keeps [OF assms(1) spawn_paced] assms(2) by (simp add: paced_def)
  show "MIN_POLL_INTERVAL \<le> clamp_poll_interval p \<and> clamp_poll_interval p \<le> MAX_POLL_INTERVAL"
    by (simp add: clamp_poll_interval_def MIN_POLL_INTERVAL_def MAX_POLL_INTERVAL_def from_secs_def)
qed

definition demo_two_probes :: "mon_event list" where
  "demo_two_probes = [Head 0, Reply Healthy, Record 7 Healthy, Head 7,
     Sleep_Test (7 + MIN_POLL_INTERVAL) (7 + MIN_POLL_INTERVAL) (7 + MIN_POLL_INTERVAL),
     Reply Healthy, Record (9 + MIN_POLL_INTERVAL) Healthy]"

text \<open>
  C21. A shutdown ends the task: from the moment the cancel flag is set, wherever the task is, it takes
  at most five more steps of its own, records at most one more verdict, and is never stuck before it
  has returned.
\<close>

theorem shutdown_ends:
  assumes "trace mon_step (shutdown m) es m'"
  shows "length (filter (\<lambda>e. e \<noteq> Shutdown) es) \<le> 5 \<and> length (recorded es) \<le> 1 \<and>
    (lm_pc m' \<noteq> Returned \<longrightarrow> (\<exists>e m''. e \<noteq> Shutdown \<and> mon_step e m' m''))"
proof -
  have "cancelled_hist 5 [] (shutdown m)"
    by (cases "lm_pc m") (simp_all add: cancelled_hist_def shutdown_def)
  from ending.history_keeps [OF assms this] show ?thesis using not_stuck by (simp add: cancelled_hist_def)
qed

theorem shutdown_ends_witness:
  "\<exists>m'. trace mon_step (shutdown (spawn_with 0)) [Head 0] m' \<and> length (filter (\<lambda>e. e \<noteq> Shutdown) [Head 0]) \<le> 5"
proof -
  have "\<exists>m'. trace mon_step (shutdown (spawn_with 0)) [Head 0] m'"
    by (simp add: det.step_iff shutdown_def spawn_with_def)
  then obtain m' where "trace mon_step (shutdown (spawn_with 0)) [Head 0] m'" by blast
  with shutdown_ends [OF this] show ?thesis by blast
qed

text \<open>
  The verdict of a pass over the containers: it is healthy if and only if there is an instance and
  every one is sealed. But a leak always carries the name of the first configured instance, whichever
  failed: with a sealed first and a leaking second instance, the first is the one reported.
\<close>

lemma probe_blames_first:
  "(probe_once q R insts c = Healthy \<longleftrightarrow> insts \<noteq> [] \<and> (\<forall>k < length insts. sealed (R k) c)) \<and>
   (sealed (R 0) c \<and> \<not> sealed (R 1) c \<longrightarrow> (\<exists>why. probe_once q R [a, b] c = Leaking (vi_name a) why))"
proof -
  have ok: "(\<exists>reps. probe_all q R (map descriptor_of is) c = Inr reps) \<longleftrightarrow> is \<noteq> [] \<and> (\<forall>k < length is. sealed (R k) c)" for "is"
    using probe_loop_iff [of q R c 0 "map descriptor_of is" "[]"] by (simp add: probe_all_def)
  have healthy: "probe_once q R is c = Healthy \<longleftrightarrow> (\<exists>reps. probe_all q R (map descriptor_of is) c = Inr reps)" for "is"
    by (simp add: probe_once_def split: sum.split)
  have "\<exists>why. probe_once q R [a, b] c = Leaking (vi_name a) why" if "\<not> sealed (R 1) c"
    using that ok [of "[a, b]"] by (cases "probe_all q R (map descriptor_of [a, b]) c") (auto simp: probe_once_def)
  then show ?thesis using ok [of insts] healthy [of insts] by simp
qed

end
