(* ===== verification/Http_Path.thy ===== *)
theory Http_Path
  imports Vpn_Selector Leak_Monitor
begin

text \<open>
  The plain HTTP path of the spider (\<^verbatim>\<open>run_http_path\<close> in \<^verbatim>\<open>crates/stealth-cli/src/commands/spider.rs\<close>): the
  check of the leak state, the loop that fetches the page and changes the instance on a failure, and
  the exit code.

  What an attempt finds outside is a parameter, one environment per attempt: the answer of the request
  through a given proxy, the clock readings, the world of the instance selection. The list \<open>hs_sent\<close> is
  an observation and not part of the program: the proxy of every request that was sent. Relocating and
  dumping the page are parameters of the exit code; the printed envelope is in \<open>Vpn_Envelope\<close>.
\<close>

section \<open>Definitions\<close>

record ('u, 'r) attempt_env =
  at_world :: "'u resolver_world"
  at_reply :: "'u option \<Rightarrow> ustr + 'r"
  at_mark1 :: nat
  at_mark2 :: nat
  at_now :: "ustr \<Rightarrow> nat"

record 'u http_state =
  hs_pool :: "InstancePool option"
  hs_selection :: "'u Selection option"
  hs_events :: "json list"
  hs_last_err :: "ustr option"
  hs_files :: sess_fs
  hs_sent :: "'u option list"

datatype 'r fetched = Page 'r | Exhausted | No_Page

definition note_success :: "'u http_state \<Rightarrow> 'u http_state" where
  "note_success s =
     (case (hs_pool s, hs_selection s) of
        (Some p, Some sel) \<Rightarrow> s\<lparr>hs_pool := Some (mark_success p (instance_name sel))\<rparr>
      | _ \<Rightarrow> s)"

definition rotation_event :: "nat \<Rightarrow> ustr \<Rightarrow> ustr \<Rightarrow> json" where
  "rotation_event attempt inst err =
     JObj (bt_of [(lit ''attempt'', JNumber (PosInt attempt)), (lit ''instance'', JStr inst), (lit ''error'', JStr err)])"

definition note_failure :: "('u, 'r) attempt_env \<Rightarrow> nat \<Rightarrow> ustr \<Rightarrow> 'u http_state \<Rightarrow> 'u http_state" where
  "note_failure A attempt err s =
     (case (hs_pool s, hs_selection s) of
        (Some p, Some sel) \<Rightarrow>
          s\<lparr>hs_last_err := Some err, hs_pool := Some (mark_failure p (instance_name sel) (at_mark1 A) (at_mark2 A)),
            hs_events := hs_events s @ [rotation_event attempt (instance_name sel) err]\<rparr>
      | _ \<Rightarrow> s\<lparr>hs_last_err := Some err\<rparr>)"

definition proxy_of :: "'u http_state \<Rightarrow> 'u option" where
  "proxy_of s = map_option sel_proxy_url (hs_selection s)"

fun fetch_loop :: "(nat \<Rightarrow> ('u, 'r) attempt_env) \<Rightarrow> ustr \<Rightarrow> nat list \<Rightarrow> 'u http_state \<Rightarrow> 'r fetched \<times> 'u http_state" where
  "fetch_loop E session_str [] s = (No_Page, s)"
| "fetch_loop E session_str (k # ks) s =
     (let s1 = s\<lparr>hs_sent := hs_sent s @ [proxy_of s]\<rparr> in
      case at_reply (E k) (proxy_of s) of
        Inr r \<Rightarrow> (Page r, note_success s1)
      | Inl e \<Rightarrow>
          let s2 = note_failure (E k) k e s1 in
          case hs_pool s2 of
            None \<Rightarrow> (No_Page, s2)
          | Some p \<Rightarrow>
              if all_failed p (at_now (E k)) then (Exhausted, s2)
              else case select (at_world (E k)) p session_str None (hs_files s2) of
                  (sel, fs) \<Rightarrow> fetch_loop E session_str ks (s2\<lparr>hs_selection := sel, hs_files := fs\<rparr>))"

definition max_attempts :: "InstancePool option \<Rightarrow> nat" where
  "max_attempts pool = (case pool of Some p \<Rightarrow> max (length (instances p)) 1 | None \<Rightarrow> 1)"

definition run_http_path ::
  "LeakState option \<Rightarrow> (nat \<Rightarrow> ('u, 'r) attempt_env) \<Rightarrow> ustr \<Rightarrow> ('r \<Rightarrow> int + bool \<times> bool) option \<Rightarrow>
   ('r \<Rightarrow> ustr + nat) option \<Rightarrow> bool \<Rightarrow> 'u http_state \<Rightarrow> int \<times> 'u http_state" where
  "run_http_path leak E session_str relocate dump strict s =
     (if (case leak of Some st \<Rightarrow> leak_detected st | None \<Rightarrow> False) then (7, s)
      else case fetch_loop E session_str [0..<max_attempts (hs_pool s)] s of
          (Exhausted, s1) \<Rightarrow> (7, s1)
        | (No_Page, s1) \<Rightarrow> (2, s1)
        | (Page r, s1) \<Rightarrow>
            (case (case relocate of Some f \<Rightarrow> f r | None \<Rightarrow> Inr (False, False)) of
               Inl code \<Rightarrow> (code, s1)
             | Inr (miss, ambiguous) \<Rightarrow>
                 (case (case dump of Some f \<Rightarrow> f r | None \<Rightarrow> Inr 0) of
                    Inl _ \<Rightarrow> (2, s1)
                  | Inr _ \<Rightarrow> (Phase2Exit_as_i32 (map_spider_exit False miss ambiguous strict), s1))))"

section \<open>Lemmas\<close>

lemma mark_instances [simp]: "instances (mark_failure p n a b) = instances p" "instances (mark_success p n) = instances p"
  by (simp_all add: mark_failure_def mark_success_def Let_def)

lemma is_healthy_mono: "is_healthy p now nm \<Longrightarrow> now \<le> now' \<Longrightarrow> is_healthy p now' nm"
  by (auto simp: is_healthy_def split: option.splits if_splits)

text \<open>A pool that was not exhausted a moment ago yields an instance.\<close>

lemma choose_instance_Some:
  assumes "\<not> all_failed p now" "\<And>nm. now nm \<le> now_pick W nm"
  shows "\<exists>i c. choose_instance W p sid None fs = Some (i, c)"
proof -
  obtain i where "i \<in> set (instances p)" "is_healthy p (now (vi_name i)) (vi_name i)"
    using assms(1) by (auto simp: all_failed_def list_ex_iff split: if_splits)
  moreover from this(2) have "is_healthy p (now_pick W (vi_name i)) (vi_name i)" using assms(2) by (rule is_healthy_mono)
  ultimately have "pick (xxh3_64 W) p (now_pick W) sid \<noteq> None" by (auto simp: pick_None)
  then show ?thesis by (auto simp: choose_instance_def split: option.splits)
qed

lemma select_Some:
  assumes "\<not> all_failed p now" "\<And>nm. now nm \<le> now_pick W nm"
    and "\<And>i. i \<in> set (instances p) \<Longrightarrow> \<exists>u. parse_url (url_library W) (instance_url i) = Inr u"
  shows "\<exists>sel fs'. select W p sid None fs = (Some sel, fs') \<and> pool_url W p (sel_proxy_url sel)"
proof -
  obtain i c where c: "choose_instance W p sid None fs = Some (i, c)" using choose_instance_Some assms(1,2) by blast
  then obtain u where "parse_url (url_library W) (instance_url i) = Inr u" using assms(3) choose_instance_in by blast
  then show ?thesis using c choose_instance_in [OF c] by (auto simp: select_def pool_url_def)
qed

lemma note_failure_simps [simp]:
  "hs_sent (note_failure A k e s) = hs_sent s" "hs_selection (note_failure A k e s) = hs_selection s"
  "hs_files (note_failure A k e s) = hs_files s"
  "hs_pool s = Some p \<Longrightarrow> hs_selection s = Some sel \<Longrightarrow>
     hs_pool (note_failure A k e s) = Some (mark_failure p (instance_name sel) (at_mark1 A) (at_mark2 A))"
  by (simp_all add: note_failure_def split: option.splits)

lemma note_success_sent [simp]: "hs_sent (note_success s) = hs_sent s"
  by (simp add: note_success_def split: option.splits)

lemma pool_url_cong: "instances p = instances p' \<Longrightarrow> pool_url W p = pool_url W p'"
  by (simp add: pool_url_def fun_eq_iff)

text \<open>Every request of the loop goes through the current selection, and there always is one.\<close>

lemma fetch_loop_proxied:
  assumes "hs_pool s = Some p" "hs_selection s = Some sel"
    and "\<And>k nm. at_now (E k) nm \<le> now_pick (at_world (E k)) nm"
    and "\<And>k i. i \<in> set (instances p) \<Longrightarrow> \<exists>u. parse_url (url_library (at_world (E k))) (instance_url i) = Inr u"
  shows "\<exists>us. hs_sent (snd (fetch_loop E sid ks s)) = hs_sent s @ map Some us \<and> length us \<le> length ks \<and>
    (ks \<noteq> [] \<longrightarrow> us \<noteq> []) \<and> (\<forall>u \<in> set us. u = sel_proxy_url sel \<or> (\<exists>k. pool_url (at_world (E k)) p u))"
  using assms(1,2,4)
proof (induction ks arbitrary: s p sel)
  case (Cons k ks)
  let ?p = "mark_failure p (instance_name sel) (at_mark1 (E k)) (at_mark2 (E k))"
  let ?s1 = "s\<lparr>hs_sent := hs_sent s @ [proxy_of s]\<rparr>"
  have prox: "proxy_of s = Some (sel_proxy_url sel)" using Cons.prems by (simp add: proxy_of_def)
  show ?case
  proof (cases "\<exists>e. at_reply (E k) (proxy_of s) = Inl e \<and> \<not> all_failed ?p (at_now (E k))")
    case True
    then obtain e where e: "at_reply (E k) (proxy_of s) = Inl e" "\<not> all_failed ?p (at_now (E k))" by blast
    let ?s2 = "note_failure (E k) k e ?s1"
    have "\<exists>u. parse_url (url_library (at_world (E k))) (instance_url i) = Inr u" if "i \<in> set (instances ?p)" for i
      using that Cons.prems(3) by simp
    from select_Some [OF e(2) assms(3) this]
    obtain sel' fs' where sel': "select (at_world (E k)) ?p sid None (hs_files s) = (Some sel', fs')"
      "pool_url (at_world (E k)) ?p (sel_proxy_url sel')" by blast
    let ?t = "?s2\<lparr>hs_selection := Some sel', hs_files := fs'\<rparr>"
    have loop: "fetch_loop E sid (k # ks) s = fetch_loop E sid ks ?t"
      using e sel'(1) Cons.prems(1,2) by (simp add: Let_def)
    have "\<exists>us. hs_sent (snd (fetch_loop E sid ks ?t)) = hs_sent ?t @ map Some us \<and> length us \<le> length ks \<and>
        (ks \<noteq> [] \<longrightarrow> us \<noteq> []) \<and> (\<forall>u \<in> set us. u = sel_proxy_url sel' \<or> (\<exists>k. pool_url (at_world (E k)) ?p u))"
      by (rule Cons.IH) (use Cons.prems in simp_all)
    then obtain us where us: "hs_sent (snd (fetch_loop E sid ks ?t)) = hs_sent ?t @ map Some us" "length us \<le> length ks"
        "\<forall>u \<in> set us. u = sel_proxy_url sel' \<or> (\<exists>k. pool_url (at_world (E k)) p u)"
      by (auto simp: pool_url_cong [of ?p p])
    have "hs_sent (snd (fetch_loop E sid (k # ks) s)) = hs_sent s @ map Some (sel_proxy_url sel # us)"
      using us(1) prox unfolding loop by simp
    moreover have "\<forall>u \<in> set (sel_proxy_url sel # us). u = sel_proxy_url sel \<or> (\<exists>k. pool_url (at_world (E k)) p u)"
      using us(3) sel'(2) by (auto simp: pool_url_cong [of ?p p])
    ultimately show ?thesis using us(2) by (intro exI [of _ "sel_proxy_url sel # us"]) simp
  next
    case False
    then have "hs_sent (snd (fetch_loop E sid (k # ks) s)) = hs_sent s @ map Some [sel_proxy_url sel]"
      using Cons.prems(1,2) prox by (auto simp: Let_def split: sum.splits)
    then show ?thesis by (intro exI [of _ "[sel_proxy_url sel]"]) simp
  qed
qed simp

text \<open>After the first request, which uses the selection it finds, every one goes through an instance of the pool.\<close>

lemma fetch_loop_first:
  assumes "\<forall>k nm. at_now (E k) nm \<le> now_pick (at_world (E k)) nm"
    and "\<forall>k p. hs_pool s = Some p \<longrightarrow> (\<forall>i \<in> set (instances p). \<exists>u. parse_url (url_library (at_world (E k))) (instance_url i) = Inr u)"
  shows "\<exists>us. hs_sent (snd (fetch_loop E sid (k # ks) s)) = hs_sent s @ proxy_of s # map Some us \<and>
    (\<forall>u \<in> set us. \<exists>p k. hs_pool s = Some p \<and> pool_url (at_world (E k)) p u) \<and> length us \<le> length ks"
proof (cases "\<exists>e q. at_reply (E k) (proxy_of s) = Inl e \<and>
    hs_pool (note_failure (E k) k e (s\<lparr>hs_sent := hs_sent s @ [proxy_of s]\<rparr>)) = Some q \<and> \<not> all_failed q (at_now (E k))")
  case True
  let ?s1 = "s\<lparr>hs_sent := hs_sent s @ [proxy_of s]\<rparr>"
  from True obtain e q where e: "at_reply (E k) (proxy_of s) = Inl e" "hs_pool (note_failure (E k) k e ?s1) = Some q"
      "\<not> all_failed q (at_now (E k))" by blast
  obtain p where p: "hs_pool s = Some p" "instances q = instances p"
    using e(2) by (auto simp: note_failure_def split: option.splits)
  have urls: "\<exists>u. parse_url (url_library (at_world (E k))) (instance_url i) = Inr u" if "i \<in> set (instances q)" for i k
    using that p assms(2) by simp
  obtain sel fs' where sel: "select (at_world (E k)) q sid None (hs_files s) = (Some sel, fs')"
      "pool_url (at_world (E k)) q (sel_proxy_url sel)"
    using select_Some [OF e(3) _ urls] assms(1) by blast
  let ?t = "(note_failure (E k) k e ?s1)\<lparr>hs_selection := Some sel, hs_files := fs'\<rparr>"
  have loop: "fetch_loop E sid (k # ks) s = fetch_loop E sid ks ?t" using e sel(1) by (simp add: Let_def)
  have "\<exists>us. hs_sent (snd (fetch_loop E sid ks ?t)) = hs_sent ?t @ map Some us \<and> length us \<le> length ks \<and>
      (ks \<noteq> [] \<longrightarrow> us \<noteq> []) \<and> (\<forall>u \<in> set us. u = sel_proxy_url sel \<or> (\<exists>k. pool_url (at_world (E k)) q u))"
    by (rule fetch_loop_proxied) (use e(2) assms(1) urls in simp_all)
  then obtain us where us: "hs_sent (snd (fetch_loop E sid ks ?t)) = hs_sent ?t @ map Some us" "length us \<le> length ks"
      "\<forall>u \<in> set us. \<exists>k. pool_url (at_world (E k)) q u" using sel(2) by metis
  then show ?thesis unfolding loop using p by (intro exI [of _ us]) (auto simp: pool_url_cong [of q p])
next
  case False
  then have "hs_sent (snd (fetch_loop E sid (k # ks) s)) = hs_sent s @ [proxy_of s]"
    by (auto simp: Let_def split: sum.splits option.splits)
  then show ?thesis by (intro exI [of _ "[]"]) simp
qed

text \<open>
  The session file decides: as long as it names a configured instance, the selection after a failure is
  that instance again, whatever its record says.
\<close>

definition bound_to :: "ustr \<Rightarrow> sess_fs \<Rightarrow> InstancePool \<Rightarrow> VpnInstance \<Rightarrow> 'u \<Rightarrow> 'u resolver_world \<Rightarrow> bool" where
  "bound_to sid fs p i u W \<longleftrightarrow>
     default_session_dir (sessions W) \<bind> (\<lambda>d. load_session (sessions W) d sid fs) = Some (vi_name i) \<and>
     pick_by_name p (vi_name i) = Some i \<and> parse_url (url_library W) (instance_url i) = Inr u"

lemma bound_to_mark [simp]: "bound_to sid fs (mark_failure p n a b) i u W \<longleftrightarrow> bound_to sid fs p i u W"
  by (simp add: bound_to_def pick_by_name_def)

lemma select_bound:
  assumes "bound_to sid fs p i u W"
  shows "\<exists>sel. select W p sid None fs = (Some sel, fs) \<and> instance_name sel = vi_name i \<and> sel_proxy_url sel = u"
  using assms by (simp add: bound_to_def select_def choose_instance_def remember_def)

lemma healthy_other: "nm \<noteq> n \<Longrightarrow> is_healthy (mark_failure p n a b) now nm = is_healthy p now nm"
  by (cases "failed p nm") (simp_all add: is_healthy_def mark_failure_def Let_def)

lemma fetch_loop_sticks:
  assumes "hs_pool s = Some p" "hs_selection s = Some sel" "instance_name sel = vi_name i" "sel_proxy_url sel = u"
    and "\<And>k. bound_to sid (hs_files s) p i u (at_world (E k))" "\<And>k. \<exists>e. at_reply (E k) (Some u) = Inl e"
    and "j \<in> set (instances p)" "vi_name j \<noteq> vi_name i" "failed p (vi_name j) = None"
  shows "\<exists>s'. fetch_loop E sid ks s = (No_Page, s') \<and> hs_sent s' = hs_sent s @ replicate (length ks) (Some u)"
  using assms(1,2,3,4,5,7,9)
proof (induction ks arbitrary: s p sel)
  case (Cons k ks)
  let ?p = "mark_failure p (instance_name sel) (at_mark1 (E k)) (at_mark2 (E k))"
  obtain e where e: "at_reply (E k) (Some u) = Inl e" using assms(6) by blast
  have prox: "proxy_of s = Some u" using Cons.prems(2,4) by (simp add: proxy_of_def)
  obtain sel' where sel': "select (at_world (E k)) ?p sid None (hs_files s) = (Some sel', hs_files s)"
      "instance_name sel' = vi_name i" "sel_proxy_url sel' = u"
    using select_bound [of sid "hs_files s" ?p i u "at_world (E k)"] Cons.prems(5) by auto
  have "is_healthy ?p now (vi_name j)" for now
    using healthy_other [of "vi_name j" "instance_name sel" p] assms(8) Cons.prems(3,7) by (simp add: is_healthy_def)
  then have alive: "\<not> all_failed ?p (at_now (E k))" using Cons.prems(6) by (auto simp: all_failed_def list_ex_iff)
  let ?t = "(note_failure (E k) k e (s\<lparr>hs_sent := hs_sent s @ [Some u]\<rparr>))\<lparr>hs_selection := Some sel', hs_files := hs_files s\<rparr>"
  have "fetch_loop E sid (k # ks) s = fetch_loop E sid ks ?t"
    using e prox sel'(1) alive Cons.prems(1,2) by (simp add: Let_def)
  moreover have "\<exists>s'. fetch_loop E sid ks ?t = (No_Page, s') \<and> hs_sent s' = hs_sent ?t @ replicate (length ks) (Some u)"
  proof (rule Cons.IH [of ?t ?p sel'])
    show "failed ?p (vi_name j) = None" using Cons.prems(3,7) assms(8) by (simp add: mark_failure_def Let_def)
  qed (use Cons.prems sel' in simp_all)
  ultimately show ?case by auto
qed simp

section \<open>Properties\<close>

text \<open>
  C19. Where the requests of the HTTP path go. The first one goes through the instance selected beforehand, and
  directly when none was selected (which the gate allows only when no VPN is required); every further request goes
  through the proxy of an instance of the pool, never directly, whatever the requests answer, and there are at most as
  many requests as instances, and one at least. In particular a path that starts with a selection never goes out
  directly. The clock must not go back between the test of the pool and the selection, and the URL library must
  accept the loopback URLs of the instances. A latched leak stops the path before the first request.
\<close>

theorem http_stays_proxied:
  assumes "hs_sent s = []"
    and "\<forall>k nm. at_now (E k) nm \<le> now_pick (at_world (E k)) nm"
    and "\<forall>k p. hs_pool s = Some p \<longrightarrow> (\<forall>i \<in> set (instances p). \<exists>u. parse_url (url_library (at_world (E k))) (instance_url i) = Inr u)"
  shows "if \<exists>st. leak = Some st \<and> leak_detected st
    then run_http_path leak E sid relocate dump strict s = (7, s)
    else \<exists>us. hs_sent (snd (run_http_path leak E sid relocate dump strict s)) = map_option sel_proxy_url (hs_selection s) # map Some us \<and>
      (\<forall>u \<in> set us. \<exists>p k. hs_pool s = Some p \<and> pool_url (at_world (E k)) p u) \<and>
      Suc (length us) \<le> (case hs_pool s of Some p \<Rightarrow> max (length (instances p)) 1 | None \<Rightarrow> 1)"
proof (cases "\<exists>st. leak = Some st \<and> leak_detected st")
  case False
  obtain k ks where ks: "[0..<max_attempts (hs_pool s)] = k # ks"
    by (cases "[0..<max_attempts (hs_pool s)]") (auto simp: max_attempts_def split: option.splits)
  then have len: "Suc (length ks) = max_attempts (hs_pool s)" by (metis diff_zero length_Cons length_upt)
  have "snd (run_http_path leak E sid relocate dump strict s) = snd (fetch_loop E sid (k # ks) s)"
    using False ks by (auto simp: run_http_path_def split: option.splits prod.splits fetched.splits sum.splits)
  with fetch_loop_first [where E = E and s = s and k = k and sid = sid and ks = ks] assms len False show ?thesis
    by (auto simp: max_attempts_def proxy_of_def)
qed (auto simp: run_http_path_def)

definition demo_two :: "VpnInstance list" where
  "demo_two = [\<lparr>vi_name = lit ''a'', http_proxy_port = 81, control_port = 82\<rparr>,
     \<lparr>vi_name = lit ''b'', http_proxy_port = 83, control_port = 84\<rparr>]"

definition demo_attempt :: "(ustr, unit) attempt_env" where
  "demo_attempt = \<lparr>at_world = sticky_world, at_reply = (\<lambda>_. Inl []), at_mark1 = 0, at_mark2 = 0, at_now = (\<lambda>_. 0)\<rparr>"

text \<open>The session file names the first instance.\<close>

definition demo_http :: "ustr http_state" where
  "demo_http = \<lparr>hs_pool = Some (InstancePool_new demo_two),
     hs_selection = Some \<lparr>instance_name = lit ''a'', sel_proxy_url = instance_url (hd demo_two), sel_healthy_count = 2,
       from_session_cache = True\<rparr>,
     hs_events = [], hs_last_err = None,
     hs_files = \<lparr>sess_dirs = (\<lambda>_. True), sess_files = (\<lambda>_. Some (Some (lit ''a'')))\<rparr>, hs_sent = []\<rparr>"

lemmas demo_http_simps = demo_http_def demo_attempt_def demo_two_def InstancePool_new_def with_failure_policy_def
  sticky_world_def demo_world_def demo_lib_def

theorem http_stays_proxied_witness:
  "\<exists>us. hs_sent (snd (run_http_path None (\<lambda>_. demo_attempt) (lit ''s'') None None False demo_http)) =
     Some (instance_url (hd demo_two)) # map Some us \<and> length us \<le> 1"
proof -
  have "hs_sent demo_http = []" "hs_pool demo_http = Some (InstancePool_new demo_two)"
    "map_option sel_proxy_url (hs_selection demo_http) = Some (instance_url (hd demo_two))"
    "\<forall>k :: nat. \<forall>nm. at_now demo_attempt nm \<le> now_pick (at_world demo_attempt) nm"
    "\<forall>i \<in> set (instances (InstancePool_new demo_two)). \<exists>u. parse_url (url_library (at_world demo_attempt)) (instance_url i) = Inr u"
    by (simp_all add: demo_http_simps)
  moreover have "length (instances (InstancePool_new demo_two)) = 2"
    by (simp add: demo_two_def InstancePool_new_def with_failure_policy_def)
  ultimately show ?thesis
    using http_stays_proxied [of demo_http "\<lambda>_. demo_attempt" None "lit ''s''" None None False] by auto
qed

text \<open>
  The rotation does not rotate: when the session file names the selected instance, as it does after
  any selection that could write it, and that instance fails, then every one of the attempts goes to
  it again, and the path gives up with code 2 without trying the healthy other instances.
\<close>

lemma rotation_sticks:
  assumes "hs_pool s = Some p" "hs_selection s = Some sel" "instance_name sel = vi_name i" "hs_sent s = []"
    and "\<forall>k. bound_to sid (hs_files s) p i (sel_proxy_url sel) (at_world (E k))"
    and "\<forall>k. \<exists>e. at_reply (E k) (Some (sel_proxy_url sel)) = Inl e"
    and "j \<in> set (instances p)" "vi_name j \<noteq> vi_name i" "failed p (vi_name j) = None"
  shows "\<exists>s'. run_http_path None E sid relocate dump strict s = (2, s') \<and>
    hs_sent s' = replicate (length (instances p)) (Some (sel_proxy_url sel))"
proof -
  have "length [0..<max_attempts (hs_pool s)] = length (instances p)"
    using assms(1,7) by (cases "instances p") (simp_all add: max_attempts_def)
  moreover obtain s' where "fetch_loop E sid [0..<max_attempts (hs_pool s)] s = (No_Page, s')"
      "hs_sent s' = hs_sent s @ replicate (length [0..<max_attempts (hs_pool s)]) (Some (sel_proxy_url sel))"
    using fetch_loop_sticks [OF assms(1,2,3) refl _ _ assms(7,8,9)] assms(5,6) by blast
  ultimately show ?thesis using assms(4) by (simp add: run_http_path_def)
qed

lemma demo_bound:
  "bound_to (lit ''s'') (hs_files demo_http) (InstancePool_new demo_two) (hd demo_two) (instance_url (hd demo_two)) sticky_world"
proof -
  obtain m where "session_body demo_sessions (lit ''s'') (lit ''a'') = JObj m" "map_of m (lit ''instance'') = Some (JStr (lit ''a''))"
    using session_body_instance by blast
  then have "load_session body_sessions d (lit ''s'') (hs_files demo_http) = Some (lit ''a'')" for d
    by (simp add: load_session_def body_sessions_def demo_sessions_def demo_http_def)
  moreover have "default_session_dir body_sessions \<noteq> None"
    by (simp add: body_sessions_def demo_sessions_def default_session_dir_def directory_home_def)
  ultimately show ?thesis
    by (auto simp: bound_to_def demo_http_simps pick_by_name_def)
qed

end
