(* ===== verification/Spider_Race.thy ===== *)
theory Spider_Race
  imports Leak_Monitor
begin

text \<open>
  The spider under the leak monitor (\<^verbatim>\<open>crates/stealth-cli/src/commands/spider.rs\<close>, from the spawn of the
  monitor to the end of \<^verbatim>\<open>run\<close>): its own steps interleave with those of the monitor task. What the
  browser and the network answer is in the labels; the texts it prints are left out, the exit codes and
  every look at the monitor are kept. The case is the one with a monitor, that is with a required VPN
  and at least one instance.

  Returning from \<^verbatim>\<open>run\<close> drops the monitor, which shuts it down.
\<close>

section \<open>Definitions\<close>

text \<open>
  Where the spider is: preparing (session replay, recipe, browser launch, page), at the entry of the
  plain HTTP path, racing the navigation against the monitor (with the number of broadcasts its future
  has seen), past the navigation, fetching over HTTP, or returned with an exit code.
\<close>

datatype fetch_pc = Preparing | Http_Entry | Racing nat | Rendering | Fetching | Exited int

record spider =
  sp_monitor :: LeakMonitor
  sp_pc :: fetch_pc

definition spider_start :: "nat \<Rightarrow> spider" where
  "spider_start leak_poll_secs = \<lparr>sp_monitor = spawn_with (from_secs leak_poll_secs), sp_pc = Preparing\<rparr>"

definition return_with :: "int \<Rightarrow> spider \<Rightarrow> spider" where
  "return_with code s = s\<lparr>sp_monitor := shutdown (sp_monitor s), sp_pc := Exited code\<rparr>"

definition notified :: "spider \<Rightarrow> nat" where
  "notified s = lm_broadcasts (sp_monitor s)"

definition http_entry_check :: "spider \<Rightarrow> spider" where
  "http_entry_check s =
     (if leak_detected (lm_state (sp_monitor s)) then return_with 7 s else s\<lparr>sp_pc := Fetching\<rparr>)"

datatype fetch_event =
  Early_Exit int | Go_Http | Enter_Race | Nav_Ok | Nav_Fallback | Nav_Error | Leak_Exit | Http_Check | Finish int

datatype spider_event = Mon mon_event | Fetch fetch_event

inductive spider_step :: "spider_event \<Rightarrow> spider \<Rightarrow> spider \<Rightarrow> bool" where
  by_monitor: "mon_step e (sp_monitor s) m \<Longrightarrow> e \<noteq> Shutdown \<Longrightarrow> spider_step (Mon e) s (s\<lparr>sp_monitor := m\<rparr>)"
| early_exit: "sp_pc s = Preparing \<Longrightarrow> spider_step (Fetch (Early_Exit code)) s (return_with code s)"
| go_http: "sp_pc s = Preparing \<Longrightarrow> spider_step (Fetch Go_Http) s (s\<lparr>sp_pc := Http_Entry\<rparr>)"
| enter_race: "sp_pc s = Preparing \<Longrightarrow> spider_step (Fetch Enter_Race) s (s\<lparr>sp_pc := Racing (notified s)\<rparr>)"
| nav_ok: "sp_pc s = Racing seen \<Longrightarrow> spider_step (Fetch Nav_Ok) s (s\<lparr>sp_pc := Rendering\<rparr>)"
| nav_fallback: "sp_pc s = Racing seen \<Longrightarrow> spider_step (Fetch Nav_Fallback) s (s\<lparr>sp_pc := Http_Entry\<rparr>)"
| nav_error: "sp_pc s = Racing seen \<Longrightarrow> spider_step (Fetch Nav_Error) s (return_with 2 s)"
| leak_exit: "sp_pc s = Racing seen \<Longrightarrow> seen < notified s \<Longrightarrow> spider_step (Fetch Leak_Exit) s (return_with 7 s)"
| http_check: "sp_pc s = Http_Entry \<Longrightarrow> spider_step (Fetch Http_Check) s (http_entry_check s)"
| finish: "sp_pc s = Rendering \<or> sp_pc s = Fetching \<Longrightarrow> spider_step (Fetch (Finish code)) s (return_with code s)"

text \<open>The same relation as a function of the label.\<close>

fun spider_next :: "spider_event \<Rightarrow> spider \<Rightarrow> spider option" where
  "spider_next (Mon e) s =
     (if e = Shutdown then None else map_option (\<lambda>m. s\<lparr>sp_monitor := m\<rparr>) (mon_next e (sp_monitor s)))"
| "spider_next (Fetch (Early_Exit code)) s = (if sp_pc s = Preparing then Some (return_with code s) else None)"
| "spider_next (Fetch Go_Http) s = (if sp_pc s = Preparing then Some (s\<lparr>sp_pc := Http_Entry\<rparr>) else None)"
| "spider_next (Fetch Enter_Race) s = (if sp_pc s = Preparing then Some (s\<lparr>sp_pc := Racing (notified s)\<rparr>) else None)"
| "spider_next (Fetch Nav_Ok) s = (case sp_pc s of Racing _ \<Rightarrow> Some (s\<lparr>sp_pc := Rendering\<rparr>) | _ \<Rightarrow> None)"
| "spider_next (Fetch Nav_Fallback) s = (case sp_pc s of Racing _ \<Rightarrow> Some (s\<lparr>sp_pc := Http_Entry\<rparr>) | _ \<Rightarrow> None)"
| "spider_next (Fetch Nav_Error) s = (case sp_pc s of Racing _ \<Rightarrow> Some (return_with 2 s) | _ \<Rightarrow> None)"
| "spider_next (Fetch Leak_Exit) s =
     (case sp_pc s of Racing seen \<Rightarrow> if seen < notified s then Some (return_with 7 s) else None | _ \<Rightarrow> None)"
| "spider_next (Fetch Http_Check) s = (if sp_pc s = Http_Entry then Some (http_entry_check s) else None)"
| "spider_next (Fetch (Finish code)) s =
     (if sp_pc s = Rendering \<or> sp_pc s = Fetching then Some (return_with code s) else None)"

lemma spider_step_Mon: "spider_step (Mon e) s t \<longleftrightarrow> spider_next (Mon e) s = Some t"
  by (auto simp: spider_step.simps [of "Mon e"] det.step_iff)

interpretation sp: deterministic spider_step spider_next
proof
  show "spider_step e s t \<longleftrightarrow> spider_next e s = Some t" for e s t
  proof (cases e)
    case (Fetch f)
    then show ?thesis by (cases f) (auto simp: spider_step.simps [of "Fetch _"] split: fetch_pc.splits)
  qed (simp only: spider_step_Mon)
qed

section \<open>Lemmas\<close>

text \<open>What the monitor sees of a run of the spider: its own labels, and a shutdown at the return.\<close>

fun monitor_view :: "spider_event list \<Rightarrow> mon_event list" where
  "monitor_view [] = []"
| "monitor_view (Mon e # es) = e # monitor_view es"
| "monitor_view (_ # es) = monitor_view es"

lemma monitor_view_append [simp]: "monitor_view (es @ fs) = monitor_view es @ monitor_view fs"
  by (induction es rule: monitor_view.induct) simp_all

lemma monitor_view_Notify [simp]: "Notify \<in> set (monitor_view es) \<longleftrightarrow> Mon Notify \<in> set es"
  by (induction es rule: monitor_view.induct) auto

lemma mon_hist_shutdown [simp]: "mon_hist es (shutdown m) \<longleftrightarrow> mon_hist es m"
  by (simp add: mon_hist_def pc_ok_def latched_def shutdown_def cong: task_pc.case_cong)

text \<open>The monitor keeps its own invariant inside the composition.\<close>

definition view_ok :: "spider_event list \<Rightarrow> spider \<Rightarrow> bool" where
  "view_ok es s \<longleftrightarrow> mon_hist (monitor_view es) (sp_monitor s)"

interpretation view: history_invariant spider_step view_ok
proof
  fix e s t es
  assume "spider_step e s t" and h: "view_ok es s"
  then show "view_ok (es @ [e]) t"
    by cases (auto simp: view_ok_def return_with_def http_entry_check_def intro: mon.history_step)
qed

lemma start_view: "view_ok [] (spider_start p)"
  by (simp add: view_ok_def spider_start_def spawn_hist)

text \<open>Where a race began, and what the monitor did since.\<close>

definition race_hist :: "spider_event list \<Rightarrow> spider \<Rightarrow> bool" where
  "race_hist es s \<longleftrightarrow> view_ok es s \<and>
     (case sp_pc s of
        Preparing \<Rightarrow> Fetch Enter_Race \<notin> set es
      | Racing seen \<Rightarrow> (\<exists>xs ys. es = xs @ Fetch Enter_Race # ys \<and> Fetch Enter_Race \<notin> set xs \<union> set ys \<and>
          seen = count_list (monitor_view xs) Notify)
      | Fetching \<Rightarrow> (\<exists>xs ys. es = xs @ Fetch Http_Check # ys \<and> (\<forall>r \<in> set (recorded (monitor_view xs)). snd r = Healthy))
      | _ \<Rightarrow> True)"

lemma notified_count: "view_ok es s \<Longrightarrow> notified s = count_list (monitor_view es) Notify"
  by (simp add: view_ok_def mon_hist_def notified_def)

lemma unleaked_healthy:
  assumes "view_ok es s" "\<not> leak_detected (lm_state (sp_monitor s))"
  shows "\<forall>r \<in> set (recorded (monitor_view es)). snd r = Healthy"
  using assms observed_leak first_leak_None unfolding view_ok_def mon_hist_def by metis

lemma race_hist_monitor:
  assumes "race_hist es s" "view_ok (es @ [Mon e]) (s\<lparr>sp_monitor := m\<rparr>)"
  shows "race_hist (es @ [Mon e]) (s\<lparr>sp_monitor := m\<rparr>)"
proof (cases "sp_pc s")
  case (Racing seen)
  then obtain xs ys where "es = xs @ Fetch Enter_Race # ys" "Fetch Enter_Race \<notin> set xs \<union> set ys"
    "seen = count_list (monitor_view xs) Notify"
    using assms(1) by (auto simp: race_hist_def)
  then have "\<exists>xs ys'. es @ [Mon e] = xs @ Fetch Enter_Race # ys' \<and> Fetch Enter_Race \<notin> set xs \<union> set ys' \<and>
      seen = count_list (monitor_view xs) Notify"
    by (intro exI [of _ xs] exI [of _ "ys @ [Mon e]"]) simp
  then show ?thesis using assms(2) Racing by (simp add: race_hist_def)
next
  case Fetching
  then obtain xs ys where "es = xs @ Fetch Http_Check # ys" "\<forall>r \<in> set (recorded (monitor_view xs)). snd r = Healthy"
    using assms(1) by (auto simp: race_hist_def)
  then have "\<exists>xs ys'. es @ [Mon e] = xs @ Fetch Http_Check # ys' \<and> (\<forall>r \<in> set (recorded (monitor_view xs)). snd r = Healthy)"
    by (intro exI [of _ xs] exI [of _ "ys @ [Mon e]"]) simp
  then show ?thesis using assms(2) Fetching by (simp add: race_hist_def)
qed (use assms in \<open>simp_all add: race_hist_def\<close>)

interpretation race: history_invariant spider_step race_hist
proof
  fix e s t es
  assume st: "spider_step e s t" and h: "race_hist es s"
  then have v: "view_ok es s" "view_ok (es @ [e]) t" using view.history_step by (simp_all add: race_hist_def)
  from st show "race_hist (es @ [e]) t"
  proof cases
    case (by_monitor e' m)
    then show ?thesis using race_hist_monitor h v(2) by simp
  next
    case enter_race
    have "\<exists>xs ys. es @ [e] = xs @ Fetch Enter_Race # ys \<and> Fetch Enter_Race \<notin> set xs \<union> set ys \<and>
        notified s = count_list (monitor_view xs) Notify"
      using enter_race h notified_count [OF v(1)]
      by (intro exI [of _ es] exI [of _ "[]"]) (simp add: race_hist_def)
    then show ?thesis using enter_race v(2) by (simp add: race_hist_def)
  next
    case http_check
    show ?thesis
    proof (cases "leak_detected (lm_state (sp_monitor s))")
      case False
      have "\<exists>xs ys. es @ [e] = xs @ Fetch Http_Check # ys \<and> (\<forall>r \<in> set (recorded (monitor_view xs)). snd r = Healthy)"
        using http_check unleaked_healthy [OF v(1) False] by (intro exI [of _ es] exI [of _ "[]"]) simp
      then show ?thesis using http_check v(2) False by (simp add: race_hist_def http_entry_check_def)
    qed (use http_check v(2) in \<open>simp add: race_hist_def http_entry_check_def return_with_def\<close>)
  qed (use v(2) in \<open>simp_all add: race_hist_def return_with_def\<close>)
qed

lemma start_race: "race_hist [] (spider_start p)"
  using start_view by (simp add: race_hist_def spider_start_def)

lemma count_list_pos: "0 < count_list xs x \<longleftrightarrow> x \<in> set xs"
  by (induction xs) auto

text \<open>Past the broadcast there is nothing left that could wake a race.\<close>

definition deaf :: "spider \<Rightarrow> bool" where
  "deaf s \<longleftrightarrow> lm_pc (sp_monitor s) = Returned \<and>
     (case sp_pc s of Racing seen \<Rightarrow> seen = notified s | _ \<Rightarrow> True)"

interpretation deafness: step_invariant spider_step deaf
proof
  fix e s t
  assume "spider_step e s t" "deaf s"
  then show "deaf t"
    by cases (auto simp: deaf_def notified_def return_with_def http_entry_check_def shutdown_def det.step_iff
        elim!: mon_next.elims split: if_splits)
qed

lemma deaf_never_exits:
  assumes "deaf s" "trace spider_step s es t"
  shows "Fetch Leak_Exit \<notin> set es"
proof
  assume "Fetch Leak_Exit \<in> set es"
  then obtain xs ys where "es = xs @ [Fetch Leak_Exit] @ ys" by (auto dest: split_list)
  then obtain u v where u: "trace spider_step s xs u" and "spider_step (Fetch Leak_Exit) u v"
    using assms(2) by (auto simp: trace_append trace_Cons)
  moreover have "deaf u" by (rule deafness.trace_keeps [OF u assms(1)])
  ultimately show False by (auto simp: sp.step_iff deaf_def split: fetch_pc.splits if_splits)
qed

section \<open>Properties\<close>

text \<open>
  C17. When the race can still be lost to a leak, exactly: while the spider waits for its navigation, it
  can leave with the leak code if and only if the monitor's broadcast came after the race began. And the
  plain HTTP path sends its first request only if no verdict recorded before its check was a leak.
\<close>

theorem race_exact:
  assumes "trace spider_step (spider_start p) es s"
  shows "((\<exists>seen. sp_pc s = Racing seen) \<longrightarrow>
      ((\<exists>t. spider_step (Fetch Leak_Exit) s t) \<longleftrightarrow>
       (\<exists>xs ys. es = xs @ Fetch Enter_Race # ys \<and> Mon Notify \<in> set ys))) \<and>
    (sp_pc s = Fetching \<longrightarrow>
      (\<exists>xs ys. es = xs @ Fetch Http_Check # ys \<and> (\<forall>r \<in> set (recorded (monitor_view xs)). snd r = Healthy)))"
proof (rule conjI [rotated])
  have h: "race_hist es s" by (rule race.history_keeps [OF assms start_race])
  then show "sp_pc s = Fetching \<longrightarrow>
      (\<exists>xs ys. es = xs @ Fetch Http_Check # ys \<and> (\<forall>r \<in> set (recorded (monitor_view xs)). snd r = Healthy))"
    by (auto simp: race_hist_def)
  show "(\<exists>seen. sp_pc s = Racing seen) \<longrightarrow>
      ((\<exists>t. spider_step (Fetch Leak_Exit) s t) \<longleftrightarrow>
       (\<exists>xs ys. es = xs @ Fetch Enter_Race # ys \<and> Mon Notify \<in> set ys))"
  proof (intro impI, elim exE)
    fix seen
    assume pc: "sp_pc s = Racing seen"
    then obtain xs ys where e: "es = xs @ Fetch Enter_Race # ys" "Fetch Enter_Race \<notin> set xs \<union> set ys"
        "seen = count_list (monitor_view xs) Notify"
      using h by (auto simp: race_hist_def)
    have "notified s = seen + count_list (monitor_view ys) Notify"
      using h notified_count [of es s] e by (simp add: race_hist_def)
    then have "(\<exists>t. spider_step (Fetch Leak_Exit) s t) \<longleftrightarrow> Mon Notify \<in> set ys"
      using pc count_list_pos [of "monitor_view ys" Notify] by (simp add: sp.step_iff)
    moreover have "xs' = xs \<and> ys' = ys" if "es = xs' @ Fetch Enter_Race # ys'" for xs' ys'
      using that e(1,2) by (auto simp: append_eq_append_conv2 append_eq_Cons_conv Cons_eq_append_conv)
    ultimately show "(\<exists>t. spider_step (Fetch Leak_Exit) s t) \<longleftrightarrow>
        (\<exists>xs ys. es = xs @ Fetch Enter_Race # ys \<and> Mon Notify \<in> set ys)"
      using e(1) by blast
  qed
qed

definition leak_labels :: "spider_event list" where
  "leak_labels = [Mon (Head 0), Mon (Reply (Leaking (lit ''vpn-1'') [])), Mon (Record 7 (Leaking (lit ''vpn-1'') [])), Mon Notify]"

lemmas spider_run_defs = spider_start_def spawn_with_def loop_head_def record_verdict_def notify_waiters_def
  LeakState_default_def leak_labels_def notified_def return_with_def shutdown_def

theorem race_exact_witness:
  "\<exists>s. trace spider_step (spider_start 30) (Fetch Enter_Race # leak_labels) s \<and> (\<exists>t. spider_step (Fetch Leak_Exit) s t)"
proof -
  obtain s where s: "trace spider_step (spider_start 30) (Fetch Enter_Race # leak_labels) s" "sp_pc s = Racing 0"
    by (simp add: sp.trace_run spider_run_defs)
  have "\<exists>xs ys. Fetch Enter_Race # leak_labels = xs @ Fetch Enter_Race # ys \<and> Mon Notify \<in> set ys"
    by (intro exI [of _ "[]"] exI [of _ leak_labels]) (simp add: leak_labels_def)
  then have "\<exists>t. spider_step (Fetch Leak_Exit) s t" using race_exact [OF s(1)] s(2) by simp
  then show ?thesis using s(1) by blast
qed

text \<open>
  C39. The wake-up can be lost. If the broadcast has happened while the spider is still preparing its
  page, no continuation ever leaves with the leak code through the race, because a future created later
  does not see that broadcast and the monitor has stopped for good. There is such a run in which the
  leak is latched and the spider navigates, renders and returns success.
\<close>

theorem wakeup_lost:
  "(\<forall>es s. trace spider_step (spider_start p) es s \<and> Mon Notify \<in> set es \<and> sp_pc s = Preparing \<longrightarrow>
      (\<forall>fs t. trace spider_step s fs t \<longrightarrow> Fetch Leak_Exit \<notin> set fs)) \<and>
   (\<exists>s. trace spider_step (spider_start p)
          (leak_labels @ [Fetch Enter_Race, Fetch Nav_Ok, Fetch (Finish 0)]) s \<and>
        leak_detected (lm_state (sp_monitor s)) \<and> sp_pc s = Exited 0)"
proof (intro conjI allI impI)
  fix es s fs t
  assume h: "trace spider_step (spider_start p) es s \<and> Mon Notify \<in> set es \<and> sp_pc s = Preparing"
    and fs: "trace spider_step s fs t"
  from h have v: "view_ok es s" using view.history_keeps [OF _ start_view] by blast
  then have "pc_ok (sp_monitor s)" by (simp add: view_ok_def mon_hist_def)
  moreover have "0 < lm_broadcasts (sp_monitor s)"
    using h notified_count [OF v] count_list_pos [of "monitor_view es" Notify] by (simp add: notified_def)
  ultimately have "lm_pc (sp_monitor s) = Returned"
    by (cases "lm_pc (sp_monitor s)") (simp_all add: pc_ok_def)
  then have "deaf s" using h by (simp add: deaf_def)
  then show "Fetch Leak_Exit \<notin> set fs" using fs by (rule deaf_never_exits)
next
  show "\<exists>s. trace spider_step (spider_start p)
          (leak_labels @ [Fetch Enter_Race, Fetch Nav_Ok, Fetch (Finish 0)]) s \<and>
        leak_detected (lm_state (sp_monitor s)) \<and> sp_pc s = Exited 0"
    by (simp add: sp.trace_run spider_run_defs)
qed

theorem wakeup_lost_witness:
  "\<exists>s. trace spider_step (spider_start 30) (leak_labels @ [Fetch Enter_Race]) s \<and> sp_pc s = Racing 1 \<and>
     \<not> (\<exists>t. spider_step (Fetch Leak_Exit) s t)"
proof -
  obtain s where s: "trace spider_step (spider_start 30) leak_labels s" "sp_pc s = Preparing" "notified s = 1"
    by (simp add: sp.trace_run spider_run_defs)
  have n: "Mon Notify \<in> set leak_labels" by (simp add: leak_labels_def)
  let ?r = "s\<lparr>sp_pc := Racing 1\<rparr>"
  have r: "trace spider_step s [Fetch Enter_Race] ?r" using s(2,3) by (simp add: sp.step_iff)
  have "\<not> spider_step (Fetch Leak_Exit) ?r t" for t
  proof
    assume "spider_step (Fetch Leak_Exit) ?r t"
    with r have "trace spider_step s [Fetch Enter_Race, Fetch Leak_Exit] t" by (auto simp: trace_Cons)
    with wakeup_lost [of 30] s(1,2) n show False by fastforce
  qed
  with s(1) r show ?thesis by (intro exI [of _ ?r]) (auto simp: trace_append)
qed

end
