(* ===== verification/Vpn_Envelope.thy ===== *)
theory Vpn_Envelope
  imports Http_Path Spider_Race
begin

text \<open>
  The VPN block of the JSON output (\<^verbatim>\<open>crates/stealth-cli/src/commands/vpn_envelope.rs\<close>), shared by the
  commands that fetch pages. \<open>iso_now\<close> is the time at which the block is built, printed.
\<close>

section \<open>Definitions\<close>

definition opt_str :: "ustr option \<Rightarrow> json" where
  "opt_str s = (case s of Some t \<Rightarrow> JStr t | None \<Rightarrow> JNull)"

definition build_vpn_monitor_json :: "ustr \<Rightarrow> LeakState option \<Rightarrow> nat \<Rightarrow> json" where
  "build_vpn_monitor_json iso_now mstate poll_interval_secs =
     (case mstate of
        None \<Rightarrow> JObj (bt_of [(lit ''enabled'', JBool False)])
      | Some st \<Rightarrow>
          JObj (bt_of [(lit ''enabled'', JBool True),
            (lit ''poll_interval_secs'', JNumber (PosInt poll_interval_secs)),
            (lit ''ticks'', JNumber (PosInt (ticks st))),
            (lit ''leak_detected'', JBool (leak_detected st)),
            (lit ''failed_instance'', opt_str (failed_instance st)),
            (lit ''reason'', opt_str (leak_reason st)),
            (lit ''last_check_at_iso'', opt_str (map_option (\<lambda>_. iso_now) (last_check_at st)))]))"

definition build_vpn_envelope ::
  "ustr \<Rightarrow> 'u resolver_world \<Rightarrow> 'u Selection option \<Rightarrow> nat \<Rightarrow> LeakState option \<Rightarrow> nat \<Rightarrow> json list option \<Rightarrow>
   'u ProxySelection option \<Rightarrow> (ustr \<times> json) list" where
  "build_vpn_envelope iso_now W selection pool_healthy monitor_state poll_interval_secs rotation_events proxy_selection =
     bt_of [(lit ''vpn_instance_used'', opt_str (map_option instance_name selection)),
       (lit ''vpn_proxy_url'', opt_str (map_option (\<lambda>s. as_str (url_library W) (sel_proxy_url s)) selection)),
       (lit ''vpn_pool_healthy_count'',
        JNumber (PosInt (case selection of Some s \<Rightarrow> sel_healthy_count s | None \<Rightarrow> pool_healthy))),
       (lit ''vpn_rotation_events'', JArr (case rotation_events of Some es \<Rightarrow> es | None \<Rightarrow> [])),
       (lit ''proxy_tier_used'', opt_str (map_option ps_tier_name proxy_selection)),
       (lit ''proxy_tier_source'', opt_str (map_option (\<lambda>s. selection_source_label (ps_source s)) proxy_selection)),
       (lit ''proxy_tier_attempts'',
        JArr (case rotation_events of
                Some es \<Rightarrow> es
              | None \<Rightarrow> (case proxy_selection of Some s \<Rightarrow> default_proxy_attempts (Some s) | None \<Rightarrow> []))),
       (lit ''vpn_monitor'', build_vpn_monitor_json iso_now monitor_state poll_interval_secs)]"

section \<open>Lemmas\<close>

text \<open>The block has the same keys whatever it is built from.\<close>

lemma envelope_keys:
  "dom (map_of (build_vpn_envelope t W sel h st n ev ps)) =
     {lit ''vpn_instance_used'', lit ''vpn_proxy_url'', lit ''vpn_pool_healthy_count'', lit ''vpn_rotation_events'',
      lit ''proxy_tier_used'', lit ''proxy_tier_source'', lit ''proxy_tier_attempts'', lit ''vpn_monitor''}"
  unfolding build_vpn_envelope_def
  by (subst bt_of_lookup) (auto simp: dom_map_of_conv_image_fst lit_def)

text \<open>The monitor block of a run that lost the wake-up: the leak is in the output of a successful command.\<close>

lemma lost_leak_reported:
  "\<exists>m. build_vpn_monitor_json t (Some (observed [(7, Leaking i w)])) n = JObj m \<and>
     map_of m (lit ''leak_detected'') = Some (JBool True) \<and> map_of m (lit ''failed_instance'') = Some (JStr i)"
  by (simp add: build_vpn_monitor_json_def observed_def opt_str_def bt_of_lookup lit_def)

end
