(* ===== verification/Idempotency_Store.thy ===== *)
theory Idempotency_Store
  imports Auth_Crypto Rust_Str Json_Value
begin

text \<open>
  Replay of the mutating commands (\<^verbatim>\<open>crates/stealth-cli/src/commands/idempotency.rs\<close>): an envelope is
  cached on disk under the operation, a hash of the idempotency key and a hash of the payload; the
  same call within the time to live answers from the cache without repeating the side effect.

  The cache directory is a map from file names to contents. SHA-256, the JSON printer and the JSON
  codec of a cache record are parameters. Every call to the system has an outcome chosen by the
  environment (\<open>idem_io\<close>): a failed write may leave any bytes in the temporary file. Times are in
  seconds. Printing the replayed envelope is left out, its content and the exit code are kept.
\<close>

section \<open>Definitions\<close>

subsection \<open>File names\<close>

definition rsplit_dot :: "ustr \<Rightarrow> (ustr \<times> ustr) option" where
  "rsplit_dot name =
     (let after = takeWhile (\<lambda>c. c \<noteq> 46) (rev name) in
      if length after = length name then None
      else Some (rev (drop (Suc (length after)) (rev name)), rev after))"

definition file_stem :: "ustr \<Rightarrow> ustr" where
  "file_stem name = (case rsplit_dot name of Some (b # bs, _) \<Rightarrow> b # bs | _ \<Rightarrow> name)"

definition extension :: "ustr \<Rightarrow> ustr option" where
  "extension name = (case rsplit_dot name of Some (_ # _, e) \<Rightarrow> Some e | _ \<Rightarrow> None)"

definition with_extension :: "ustr \<Rightarrow> ustr \<Rightarrow> ustr" where
  "with_extension name e = file_stem name @ lit ''.'' @ e"

definition is_ascii_alphanumeric :: "uchar \<Rightarrow> bool" where
  "is_ascii_alphanumeric c \<longleftrightarrow> (48 \<le> c \<and> c \<le> 57) \<or> (65 \<le> c \<and> c \<le> 90) \<or> (97 \<le> c \<and> c \<le> 122)"

definition sanitize_op :: "ustr \<Rightarrow> ustr" where
  "sanitize_op op = map (\<lambda>c. if is_ascii_alphanumeric c \<or> c = 45 \<or> c = 95 then c else 95) op"

definition hex16 :: "bytes \<Rightarrow> ustr" where
  "hex16 bs = concat (map (\<lambda>b. [hex_digit (unat b div 16), hex_digit (unat b mod 16)]) (take 8 bs))"

definition hash16 :: "(bytes \<Rightarrow> bytes) \<Rightarrow> ustr \<Rightarrow> ustr" where
  "hash16 sha s = hex16 (sha (utf8 s))"

subsection \<open>The payload\<close>

function (sequential) canonicalize :: "json \<Rightarrow> json"
  and canonicalize_list :: "json list \<Rightarrow> json list"
  and canonicalize_fields :: "(ustr \<times> json) list \<Rightarrow> (ustr \<times> json) list" where
  "canonicalize (JObj fs) = JObj (bt_of (sort_key fst (canonicalize_fields fs)))"
| "canonicalize (JArr vs) = JArr (canonicalize_list vs)"
| "canonicalize v = v"
| "canonicalize_list [] = []"
| "canonicalize_list (v # vs) = canonicalize v # canonicalize_list vs"
| "canonicalize_fields [] = []"
| "canonicalize_fields ((k, v) # fs) = (k, canonicalize v) # canonicalize_fields fs"
  by pat_completeness auto
termination
  by (relation "measure json_measure") auto

definition payload_hash :: "(bytes \<Rightarrow> bytes) \<Rightarrow> (json \<Rightarrow> ustr option) \<Rightarrow> json \<Rightarrow> ustr" where
  "payload_hash sha print payload =
     hash16 sha (case print (canonicalize payload) of Some s \<Rightarrow> s | None \<Rightarrow> [])"

definition payload_value :: "ustr \<Rightarrow> (ustr \<times> json) list \<Rightarrow> json" where
  "payload_value sub_command args =
     JObj (bt_of [(lit ''sub_command'', JStr sub_command), (lit ''args'', JObj (bt_of args))])"

subsection \<open>The store\<close>

datatype CheckResult = Replay json | Record

record idem_record =
  ir_operation :: ustr
  ir_key_hash :: ustr
  ir_payload_hash :: ustr
  ir_recorded_at :: nat
  ir_envelope :: json

record idem_lib =
  sha_256 :: "bytes \<Rightarrow> bytes"
  print_json :: "json \<Rightarrow> ustr option"
  record_to_vec :: "idem_record \<Rightarrow> bytes option"
  record_from_slice :: "bytes \<Rightarrow> idem_record option"

record idem_io =
  io_now :: nat
  io_pid :: nat
  io_mkdir :: bool
  io_create :: bool
  io_write :: bool
  io_torn :: bytes
  io_sync :: bool
  io_rename :: bool
  io_read :: "ustr \<Rightarrow> bool"
  io_remove :: "ustr \<Rightarrow> bool"

record idem_fs =
  if_root :: bool
  if_files :: "ustr \<rightharpoonup> bytes"

definition DEFAULT_TTL_SECS :: nat where
  "DEFAULT_TTL_SECS = 24 * 60 * 60"

definition ttl_from_env :: "ustr option \<Rightarrow> nat" where
  "ttl_from_env v =
     (case v of
        Some s \<Rightarrow> (case parse_unsigned u64_max s of Inr n \<Rightarrow> n | Inl _ \<Rightarrow> DEFAULT_TTL_SECS)
      | None \<Rightarrow> DEFAULT_TTL_SECS)"

definition entry_path :: "idem_lib \<Rightarrow> ustr \<Rightarrow> ustr \<Rightarrow> ustr \<Rightarrow> ustr" where
  "entry_path L op key ph =
     sanitize_op op @ lit ''__'' @ hash16 (sha_256 L) key @ lit ''__'' @ ph @ lit ''.json''"

definition store_is_expired :: "nat \<Rightarrow> nat \<Rightarrow> nat \<Rightarrow> bool" where
  "store_is_expired ttl recorded_at now = (if ttl = 0 then False else now - recorded_at > ttl)"

definition remove_file :: "idem_io \<Rightarrow> ustr \<Rightarrow> idem_fs \<Rightarrow> idem_fs" where
  "remove_file io name fs = (if io_remove io name then fs\<lparr>if_files := (if_files fs)(name := None)\<rparr> else fs)"

definition read_entry :: "idem_io \<Rightarrow> ustr \<Rightarrow> idem_fs \<Rightarrow> bytes option" where
  "read_entry io name fs = (if io_read io name then if_files fs name else None)"

definition check :: "idem_lib \<Rightarrow> nat \<Rightarrow> idem_io \<Rightarrow> ustr \<Rightarrow> ustr \<Rightarrow> ustr \<Rightarrow> idem_fs \<Rightarrow> CheckResult \<times> idem_fs" where
  "check L ttl io op key ph fs =
     (let path = entry_path L op key ph in
      case read_entry io path fs of
        None \<Rightarrow> (Record, fs)
      | Some bs \<Rightarrow>
          (case record_from_slice L bs of
             None \<Rightarrow> (Record, remove_file io path fs)
           | Some rec \<Rightarrow>
               if store_is_expired ttl (ir_recorded_at rec) (io_now io) then (Record, remove_file io path fs)
               else (Replay (ir_envelope rec), fs)))"

definition tmp_name :: "idem_io \<Rightarrow> ustr \<Rightarrow> ustr" where
  "tmp_name io path = with_extension path (lit ''tmp.'' @ digits_of (io_pid io))"

definition cache_record :: "idem_lib \<Rightarrow> idem_io \<Rightarrow> ustr \<Rightarrow> ustr \<Rightarrow> ustr \<Rightarrow> json \<Rightarrow> idem_record" where
  "cache_record L io op key ph envelope =
     \<lparr>ir_operation = op, ir_key_hash = hash16 (sha_256 L) key, ir_payload_hash = ph, ir_recorded_at = io_now io,
      ir_envelope = envelope\<rparr>"

definition write_envelope ::
  "idem_lib \<Rightarrow> idem_io \<Rightarrow> ustr \<Rightarrow> ustr \<Rightarrow> ustr \<Rightarrow> json \<Rightarrow> idem_fs \<Rightarrow> bool \<times> idem_fs" where
  "write_envelope L io op key ph envelope fs =
     (if \<not> io_mkdir io then (False, fs)
      else
        let fs1 = fs\<lparr>if_root := True\<rparr>;
            path = entry_path L op key ph;
            tmp = tmp_name io path
        in case record_to_vec L (cache_record L io op key ph envelope) of
             None \<Rightarrow> (False, fs1)
           | Some bs \<Rightarrow>
               if \<not> io_create io then (False, fs1)
               else if \<not> io_write io then (False, fs1\<lparr>if_files := (if_files fs1)(tmp \<mapsto> io_torn io)\<rparr>)
               else
                 let fs2 = fs1\<lparr>if_files := (if_files fs1)(tmp \<mapsto> bs)\<rparr> in
                 if \<not> io_sync io \<or> \<not> io_rename io then (False, fs2)
                 else (True, fs2\<lparr>if_files := (if_files fs2)(tmp := None, path \<mapsto> bs)\<rparr>))"

text \<open>The entries of the directory in the order of \<^verbatim>\<open>read_dir\<close>; \<open>None\<close> is one that cannot be listed.\<close>

fun gc_loop :: "idem_lib \<Rightarrow> nat \<Rightarrow> idem_io \<Rightarrow> ustr option list \<Rightarrow> nat \<Rightarrow> idem_fs \<Rightarrow> nat \<times> idem_fs" where
  "gc_loop L ttl io [] removed fs = (removed, fs)"
| "gc_loop L ttl io (None # es) removed fs = gc_loop L ttl io es removed fs"
| "gc_loop L ttl io (Some name # es) removed fs =
     (if extension name \<noteq> Some (lit ''json'') then gc_loop L ttl io es removed fs
      else case read_entry io name fs of
          None \<Rightarrow> gc_loop L ttl io es removed fs
        | Some bs \<Rightarrow>
            (case record_from_slice L bs of
               None \<Rightarrow> gc_loop L ttl io es (removed + 1) (remove_file io name fs)
             | Some rec \<Rightarrow>
                 if store_is_expired ttl (ir_recorded_at rec) (io_now io)
                 then gc_loop L ttl io es (removed + 1) (remove_file io name fs)
                 else gc_loop L ttl io es removed fs))"

definition store_gc_expired ::
  "idem_lib \<Rightarrow> nat \<Rightarrow> idem_io \<Rightarrow> (ustr + ustr option list) \<Rightarrow> idem_fs \<Rightarrow> (ustr + nat) \<times> idem_fs" where
  "store_gc_expired L ttl io listing fs =
     (if \<not> if_root fs then (Inr 0, fs)
      else case listing of
          Inl e \<Rightarrow> (Inl e, fs)
        | Inr es \<Rightarrow> (case gc_loop L ttl io es 0 fs of (n, fs') \<Rightarrow> (Inr n, fs')))"

subsection \<open>Guarding a command\<close>

definition maybe_replay ::
  "idem_lib \<Rightarrow> nat \<Rightarrow> idem_io \<Rightarrow> ustr \<Rightarrow> ustr option \<Rightarrow> json \<Rightarrow> idem_fs \<Rightarrow> (ustr \<times> json) option \<times> idem_fs" where
  "maybe_replay L ttl io op key payload fs =
     (case key of
        None \<Rightarrow> (None, fs)
      | Some k \<Rightarrow>
          let ph = payload_hash (sha_256 L) (print_json L) payload in
          case check L ttl io op k ph fs of
            (Replay env, fs') \<Rightarrow> (Some (ph, env), fs')
          | (Record, fs') \<Rightarrow> (None, fs'))"

text \<open>The envelope that is printed for a replay; the exit code is 0.\<close>

definition replayed_envelope :: "json \<Rightarrow> json" where
  "replayed_envelope env =
     (case env of JObj m \<Rightarrow> JObj (bt_insert (lit ''replayed'') (JBool True) m) | v \<Rightarrow> v)"

definition store_record_success ::
  "idem_lib \<Rightarrow> idem_io \<Rightarrow> ustr \<Rightarrow> ustr option \<Rightarrow> json \<Rightarrow> json \<Rightarrow> idem_fs \<Rightarrow> idem_fs" where
  "store_record_success L io op key payload envelope fs =
     (case key of
        None \<Rightarrow> fs
      | Some k \<Rightarrow> snd (write_envelope L io op k (payload_hash (sha_256 L) (print_json L) payload) envelope fs))"

text \<open>
  A command under the guard: \<^verbatim>\<open>ReplayGuard::check\<close>, the side effect when there is nothing to replay, and
  \<^verbatim>\<open>ReplayGuard::record\<close> when it succeeded. The two calls of the guard have environments of their own.
\<close>

definition guarded ::
  "idem_lib \<Rightarrow> nat \<Rightarrow> idem_io \<Rightarrow> idem_io \<Rightarrow> ustr \<Rightarrow> ustr option \<Rightarrow> json \<Rightarrow> ('s \<Rightarrow> (int \<times> json + json) \<times> 's) \<Rightarrow>
   's \<times> idem_fs \<Rightarrow> (int \<times> json) \<times> 's \<times> idem_fs" where
  "guarded L ttl io1 io2 op key payload effect = (\<lambda>(w, fs).
     case maybe_replay L ttl io1 op key payload fs of
       (Some (_, env), fs1) \<Rightarrow> ((0, replayed_envelope env), w, fs1)
     | (None, fs1) \<Rightarrow>
         (case effect w of
            (Inl failure, w1) \<Rightarrow> (failure, w1, fs1)
          | (Inr env, w1) \<Rightarrow> ((0, env), w1, store_record_success L io2 op key payload env fs1)))"

section \<open>Lemmas\<close>

lemma rsplit_dot_append:
  assumes "46 \<notin> set e"
  shows "rsplit_dot (b @ 46 # e) = Some (b, e)"
proof -
  have "takeWhile (\<lambda>c. c \<noteq> 46) (rev e @ 46 # rev b) = rev e"
    using assms by (subst takeWhile_append2) auto
  then show ?thesis by (simp add: rsplit_dot_def Let_def)
qed

lemma extension_append: "b \<noteq> [] \<Longrightarrow> 46 \<notin> set e \<Longrightarrow> extension (b @ 46 # e) = Some e"
  "b \<noteq> [] \<Longrightarrow> 46 \<notin> set e \<Longrightarrow> file_stem (b @ 46 # e) = b"
  by (simp_all add: extension_def file_stem_def rsplit_dot_append split: list.splits)

lemma lit_json: "lit ''.json'' = 46 # lit ''json''" and json_no_dot: "46 \<notin> set (lit ''json'')"
  by (simp_all add: lit_def)

abbreviation entry_stem :: "idem_lib \<Rightarrow> ustr \<Rightarrow> ustr \<Rightarrow> ustr \<Rightarrow> ustr" where
  "entry_stem L op key ph \<equiv> sanitize_op op @ lit ''__'' @ hash16 (sha_256 L) key @ lit ''__'' @ ph"

lemma entry_path_alt: "entry_path L op key ph = entry_stem L op key ph @ 46 # lit ''json''"
  by (simp add: entry_path_def lit_json)

lemma entry_extension: "extension (entry_path L op key ph) = Some (lit ''json'')"
  unfolding entry_path_alt by (rule extension_append(1)) (simp_all add: lit_def)

lemma digits_no_dot: "46 \<notin> set (digits_of n)" "digits_of n \<noteq> lit ''json''"
proof -
  have d: "is_digit c" if "c \<in> set (digits_of n)" for c using that by (rule digits_of_digits)
  show "46 \<notin> set (digits_of n)" using d [of 46] by (auto simp: is_digit_def)
  show "digits_of n \<noteq> lit ''json''" using d [of 106] by (auto simp: lit_def is_digit_def)
qed

text \<open>A temporary file is never taken for an entry.\<close>

lemma tmp_extension: "extension (tmp_name io (entry_path L op key ph)) = Some (digits_of (io_pid io))"
proof -
  have "tmp_name io (entry_path L op key ph) = (entry_stem L op key ph @ lit ''.tmp'') @ 46 # digits_of (io_pid io)"
    unfolding tmp_name_def with_extension_def entry_path_alt
    by (subst extension_append(2)) (simp_all add: lit_def)
  then show ?thesis using extension_append(1) [of "entry_stem L op key ph @ lit ''.tmp''"] digits_no_dot(1) by (simp add: lit_def)
qed

lemma tmp_not_entry: "extension name = Some (lit ''json'') \<Longrightarrow> tmp_name io (entry_path L op key ph) \<noteq> name"
  using tmp_extension digits_no_dot(2) by (metis option.inject)

lemma length_hex16: "length (hex16 bs) = 2 * min 8 (length bs)"
proof -
  have "length (concat (map (\<lambda>b. [f b, g b]) xs)) = 2 * length xs" for f g :: "8 word \<Rightarrow> uchar" and xs
    by (induction xs) simp_all
  then show ?thesis by (simp add: hex16_def min.commute)
qed

text \<open>What a file name says about the call it belongs to.\<close>

lemma entry_path_inject:
  assumes "\<And>x. length (sha_256 L x) = 32" "length ph = length ph'"
  shows "entry_path L op key ph = entry_path L op' key' ph' \<longleftrightarrow>
    sanitize_op op = sanitize_op op' \<and> hash16 (sha_256 L) key = hash16 (sha_256 L) key' \<and> ph = ph'"
proof -
  have h: "length (hash16 (sha_256 L) k) = 16" for k using assms(1) by (simp add: hash16_def length_hex16)
  have "entry_path L op key ph = entry_path L op' key' ph' \<longleftrightarrow>
      sanitize_op op @ lit ''__'' @ hash16 (sha_256 L) key @ lit ''__'' @ ph =
      sanitize_op op' @ lit ''__'' @ hash16 (sha_256 L) key' @ lit ''__'' @ ph'"
    by (simp add: entry_path_alt)
  also have "\<dots> \<longleftrightarrow> sanitize_op op = sanitize_op op' \<and>
      lit ''__'' @ hash16 (sha_256 L) key @ lit ''__'' @ ph = lit ''__'' @ hash16 (sha_256 L) key' @ lit ''__'' @ ph'"
    by (rule append_eq_append_conv) (simp add: assms(2) h)
  also have "lit ''__'' @ hash16 (sha_256 L) key @ lit ''__'' @ ph = lit ''__'' @ hash16 (sha_256 L) key' @ lit ''__'' @ ph' \<longleftrightarrow>
      hash16 (sha_256 L) key = hash16 (sha_256 L) key' \<and> ph = ph'"
    using h by (simp add: append_eq_append_conv)
  finally show ?thesis .
qed

lemma write_envelope_atomic:
  assumes "write_envelope L io op key ph env fs = (ok, fs')" "extension name = Some (lit ''json'')"
  shows "if_files fs' name =
    (if ok \<and> name = entry_path L op key ph then record_to_vec L (cache_record L io op key ph env) else if_files fs name)"
  using assms tmp_not_entry [of name io L op key ph] entry_extension [of L op key ph]
  by (auto simp: write_envelope_def Let_def split: if_splits option.splits)

lemma check_files:
  assumes "check L ttl io op key ph fs = (r, fs')" "name \<noteq> entry_path L op key ph"
  shows "if_files fs' name = if_files fs name"
  using assms by (auto simp: check_def Let_def remove_file_def split: if_splits option.splits)

lemma check_fresh:
  assumes "if_files fs (entry_path L op key ph) = Some bs" "record_from_slice L bs = Some rec"
    and "io_read io (entry_path L op key ph)" "\<not> store_is_expired ttl (ir_recorded_at rec) (io_now io)"
  shows "check L ttl io op key ph fs = (Replay (ir_envelope rec), fs)"
  using assms by (simp add: check_def read_entry_def)

lemma length_payload_hash: "(\<And>x. length (sha x) = 32) \<Longrightarrow> length (payload_hash sha pr v) = 16"
  by (simp add: payload_hash_def hash16_def length_hex16)

text \<open>The file of a call, when it has a key.\<close>

definition file_of :: "idem_lib \<Rightarrow> ustr \<Rightarrow> ustr \<Rightarrow> json \<Rightarrow> ustr" where
  "file_of L op key payload = entry_path L op key (payload_hash (sha_256 L) (print_json L) payload)"

lemma maybe_replay_files:
  assumes "maybe_replay L ttl io op key payload fs = (r, fs')" "\<And>k. key = Some k \<Longrightarrow> name \<noteq> file_of L op k payload"
  shows "if_files fs' name = if_files fs name"
  using assms check_files [of L ttl io op _ "payload_hash (sha_256 L) (print_json L) payload" fs _ fs' name]
  by (auto simp: maybe_replay_def file_of_def Let_def split: option.splits prod.splits CheckResult.splits)

lemma store_record_success_files:
  assumes "extension name = Some (lit ''json'')" "\<And>k. key = Some k \<Longrightarrow> name \<noteq> file_of L op k payload"
  shows "if_files (store_record_success L io op key payload env fs) name = if_files fs name"
proof (cases key)
  case (Some k)
  let ?ph = "payload_hash (sha_256 L) (print_json L) payload"
  obtain ok fs' where w: "write_envelope L io op k ?ph env fs = (ok, fs')" by fastforce
  from write_envelope_atomic [OF this assms(1)] show ?thesis
    using w Some assms(2) [OF Some] by (simp add: store_record_success_def file_of_def)
qed (simp add: store_record_success_def)

text \<open>The calls of other commands.\<close>

record 's idem_call =
  c_io1 :: idem_io
  c_io2 :: idem_io
  c_op :: ustr
  c_key :: "ustr option"
  c_payload :: json
  c_effect :: "'s \<Rightarrow> (int \<times> json + json) \<times> 's"

definition run_call :: "idem_lib \<Rightarrow> nat \<Rightarrow> 's idem_call \<Rightarrow> 's \<times> idem_fs \<Rightarrow> 's \<times> idem_fs" where
  "run_call L ttl c st = snd (guarded L ttl (c_io1 c) (c_io2 c) (c_op c) (c_key c) (c_payload c) (c_effect c) st)"

lemma call_files:
  assumes "extension name = Some (lit ''json'')" "\<And>k. c_key c = Some k \<Longrightarrow> name \<noteq> file_of L (c_op c) k (c_payload c)"
  shows "if_files (snd (run_call L ttl c st)) name = if_files (snd st) name"
proof -
  obtain w fs where st: "st = (w, fs)" by (cases st)
  obtain r fs1 where m: "maybe_replay L ttl (c_io1 c) (c_op c) (c_key c) (c_payload c) fs = (r, fs1)" by fastforce
  have "if_files fs1 name = if_files fs name" by (rule maybe_replay_files [OF m assms(2)])
  moreover have "if_files (store_record_success L (c_io2 c) (c_op c) (c_key c) (c_payload c) env fs1) name = if_files fs1 name" for env
    by (rule store_record_success_files [OF assms])
  ultimately show ?thesis using m st
    by (auto simp: run_call_def guarded_def split: option.splits prod.splits sum.splits)
qed

lemma calls_files:
  assumes "extension name = Some (lit ''json'')"
    and "\<And>c k. c \<in> set cs \<Longrightarrow> c_key c = Some k \<Longrightarrow> name \<noteq> file_of L (c_op c) k (c_payload c)"
  shows "if_files (snd (fold (run_call L ttl) cs st)) name = if_files (snd st) name"
  using assms by (induction cs arbitrary: st) (simp_all add: call_files)

lemma store_record_success_written:
  assumes "io_mkdir io" "io_create io" "io_write io" "io_sync io" "io_rename io"
    and "record_to_vec L (cache_record L io op k (payload_hash (sha_256 L) (print_json L) payload) env) = Some bs"
  shows "if_files (store_record_success L io op (Some k) payload env fs) (file_of L op k payload) = Some bs"
  using assms by (simp add: store_record_success_def write_envelope_def file_of_def Let_def)

text \<open>What distinguishes two calls for the store.\<close>

definition call_id :: "idem_lib \<Rightarrow> ustr \<Rightarrow> ustr \<Rightarrow> json \<Rightarrow> ustr \<times> ustr \<times> ustr" where
  "call_id L op key payload =
     (sanitize_op op, hash16 (sha_256 L) key, payload_hash (sha_256 L) (print_json L) payload)"

lemma file_of_inject:
  assumes "\<And>x. length (sha_256 L x) = 32"
  shows "file_of L op k p = file_of L op' k' p' \<longleftrightarrow> call_id L op k p = call_id L op' k' p'"
  using entry_path_inject [of L "payload_hash (sha_256 L) (print_json L) p" "payload_hash (sha_256 L) (print_json L) p'" op k op' k']
    assms length_payload_hash [of "sha_256 L"] by (simp add: file_of_def call_id_def)

section \<open>Properties\<close>

text \<open>
  C20. The effect happens once: after a keyed command has run and its envelope was recorded, the next
  call with the same identity (operation up to the characters replaced in file names, key hash,
  payload hash) within the time to live, or at any time when it is zero, answers with the
  recorded envelope and changes neither the world nor the cache, whatever keyed or unkeyed commands
  of other identities ran in between, and however their own cache accesses ended.
\<close>

theorem effect_once:
  assumes "\<forall>x. length (sha_256 L x) = 32"
    and "\<exists>bs. record_to_vec L (cache_record L io2 op k (payload_hash (sha_256 L) (print_json L) payload) env) = Some bs \<and>
      record_from_slice L bs = Some (cache_record L io2 op k (payload_hash (sha_256 L) (print_json L) payload) env)"
    and "maybe_replay L ttl io1 op (Some k) payload fs = (None, fs0)" "effect w = (Inr env, w1)"
    and "io_mkdir io2 \<and> io_create io2 \<and> io_write io2 \<and> io_sync io2 \<and> io_rename io2"
    and "\<forall>c \<in> set cs. \<forall>k'. c_key c = Some k' \<longrightarrow> call_id L (c_op c) k' (c_payload c) \<noteq> call_id L op k payload"
    and "\<forall>name. io_read io3 name" "ttl = 0 \<or> io_now io3 \<le> io_now io2 + ttl"
    and "call_id L op' k' payload' = call_id L op k payload"
  shows "\<exists>fs1. guarded L ttl io1 io2 op (Some k) payload effect (w, fs) = ((0, env), w1, fs1) \<and>
    (let st = fold (run_call L ttl) cs (w1, fs1) in
     guarded L ttl io3 io4 op' (Some k') payload' effect' st = ((0, replayed_envelope env), st))"
proof -
  let ?ph = "payload_hash (sha_256 L) (print_json L) payload"
  let ?rec = "cache_record L io2 op k ?ph env" and ?fs1 = "store_record_success L io2 op (Some k) payload env fs0"
  obtain bs where bs: "record_to_vec L ?rec = Some bs" "record_from_slice L bs = Some ?rec" using assms(2) by blast
  have first: "guarded L ttl io1 io2 op (Some k) payload effect (w, fs) = ((0, env), w1, ?fs1)"
    using assms(3,4) by (simp add: guarded_def)
  obtain w' fs' where st: "fold (run_call L ttl) cs (w1, ?fs1) = (w', fs')" by (cases "fold (run_call L ttl) cs (w1, ?fs1)")
  have other: "file_of L op k payload \<noteq> file_of L (c_op c) k'' (c_payload c)"
    if "c \<in> set cs" "c_key c = Some k''" for c :: "'a idem_call" and k''
    using that assms(1,6) file_of_inject [of L op k payload "c_op c" k'' "c_payload c"] by metis
  have "if_files (snd (fold (run_call L ttl) cs (w1, ?fs1))) (file_of L op k payload) = if_files ?fs1 (file_of L op k payload)"
    using calls_files [of "file_of L op k payload" cs L ttl "(w1, ?fs1)"] other entry_extension by (simp add: file_of_def)
  then have stored: "if_files fs' (file_of L op' k' payload') = Some bs"
    using store_record_success_written [of io2 L op k payload env bs fs0] assms(1,5,9) bs(1) st
      file_of_inject [of L op' k' payload' op k payload] by simp
  have "check L ttl io3 op' k' (payload_hash (sha_256 L) (print_json L) payload') fs' = (Replay (ir_envelope ?rec), fs')"
    by (rule check_fresh [OF _ bs(2)]) (use stored assms(7,8) in \<open>auto simp: file_of_def store_is_expired_def cache_record_def\<close>)
  then have "guarded L ttl io3 io4 op' (Some k') payload' effect' (w', fs') = ((0, replayed_envelope env), w', fs')"
    by (simp add: guarded_def maybe_replay_def Let_def cache_record_def)
  then show ?thesis using first st by simp
qed

definition demo_io :: idem_io where
  "demo_io = \<lparr>io_now = 5, io_pid = 1, io_mkdir = True, io_create = True, io_write = True, io_torn = [], io_sync = True,
     io_rename = True, io_read = (\<lambda>_. True), io_remove = (\<lambda>_. True)\<rparr>"

definition demo_idem :: idem_lib where
  "demo_idem = \<lparr>sha_256 = (\<lambda>_. replicate 32 0), print_json = (\<lambda>_. Some []), record_to_vec = (\<lambda>_. Some []),
     record_from_slice = (\<lambda>_. Some \<lparr>ir_operation = lit ''a'', ir_key_hash = hash16 (\<lambda>_. replicate 32 0) [],
       ir_payload_hash = hash16 (\<lambda>_. replicate 32 0) [], ir_recorded_at = 5, ir_envelope = JStr (lit ''done'')\<rparr>)\<rparr>"

definition demo_count :: "nat \<Rightarrow> (int \<times> json + json) \<times> nat" where
  "demo_count n = (Inr (JStr (lit ''done'')), Suc n)"

definition demo_other :: "nat idem_call" where
  "demo_other = \<lparr>c_io1 = demo_io, c_io2 = demo_io, c_op = lit ''b'', c_key = Some [], c_payload = JNull, c_effect = demo_count\<rparr>"

theorem effect_once_witness:
  "\<exists>fs1. guarded demo_idem 60 demo_io demo_io (lit ''a'') (Some []) JNull demo_count (0, \<lparr>if_root = False, if_files = Map.empty\<rparr>) =
       ((0, JStr (lit ''done'')), 1, fs1) \<and>
     (let st = fold (run_call demo_idem 60) [demo_other] (1, fs1) in
      guarded demo_idem 60 (demo_io\<lparr>io_now := 65\<rparr>) demo_io (lit ''a'') (Some []) JNull demo_count st =
        ((0, replayed_envelope (JStr (lit ''done''))), st))"
proof -
  have "\<forall>x. length (sha_256 demo_idem x) = 32" by (simp add: demo_idem_def)
  moreover have "\<exists>bs. record_to_vec demo_idem (cache_record demo_idem demo_io (lit ''a'') [] (payload_hash (sha_256 demo_idem) (print_json demo_idem) JNull)
        (JStr (lit ''done''))) = Some bs \<and>
      record_from_slice demo_idem bs = Some (cache_record demo_idem demo_io (lit ''a'') [] (payload_hash (sha_256 demo_idem) (print_json demo_idem) JNull)
        (JStr (lit ''done'')))"
    by (simp add: demo_idem_def cache_record_def demo_io_def payload_hash_def hash16_def)
  moreover have "maybe_replay demo_idem 60 demo_io (lit ''a'') (Some []) JNull \<lparr>if_root = False, if_files = Map.empty\<rparr> =
      (None, \<lparr>if_root = False, if_files = Map.empty\<rparr>)"
    by (simp add: maybe_replay_def check_def read_entry_def Let_def)
  moreover have "\<forall>c \<in> set [demo_other]. \<forall>k'. c_key c = Some k' \<longrightarrow>
      call_id demo_idem (c_op c) k' (c_payload c) \<noteq> call_id demo_idem (lit ''a'') [] JNull"
    by (simp add: demo_other_def call_id_def sanitize_op_def is_ascii_alphanumeric_def lit_def)
  moreover have "demo_count 0 = (Inr (JStr (lit ''done'')), 1)" by (simp add: demo_count_def)
  ultimately show ?thesis
    using effect_once [of demo_idem demo_io "lit ''a''" "[]" JNull "JStr (lit ''done'')" 60 demo_io _ _ demo_count 0 1
        "[demo_other]" "demo_io\<lparr>io_now := 65\<rparr>" "lit ''a''" "[]" JNull demo_io demo_count]
    by (simp add: demo_io_def)
qed

fun listed :: "'a option list \<Rightarrow> 'a list" where
  "listed [] = []"
| "listed (None # es) = listed es"
| "listed (Some x # es) = x # listed es"

definition stale :: "idem_lib \<Rightarrow> nat \<Rightarrow> idem_io \<Rightarrow> idem_fs \<Rightarrow> ustr \<Rightarrow> bool" where
  "stale L ttl io fs name \<longleftrightarrow> extension name = Some (lit ''json'') \<and>
     (\<exists>bs. read_entry io name fs = Some bs \<and>
        (case record_from_slice L bs of None \<Rightarrow> True | Some rec \<Rightarrow> store_is_expired ttl (ir_recorded_at rec) (io_now io)))"

lemma stale_remove: "name \<noteq> other \<Longrightarrow> stale L ttl io (remove_file io other fs) name = stale L ttl io fs name"
  by (simp add: stale_def read_entry_def remove_file_def)

lemma gc_loop_step:
  "gc_loop L ttl io (Some name # es) n fs =
     (if stale L ttl io fs name then gc_loop L ttl io es (n + 1) (remove_file io name fs) else gc_loop L ttl io es n fs)"
  by (simp add: stale_def split: option.splits)

lemma gc_loop_exact:
  assumes "distinct (listed es)" "gc_loop L ttl io es n fs = (n', fs')"
  shows "n' = n + length (filter (stale L ttl io fs) (listed es)) \<and>
    (\<forall>name. if_files fs' name =
      (if name \<in> set (listed es) \<and> stale L ttl io fs name \<and> io_remove io name then None else if_files fs name))"
  using assms
proof (induction es arbitrary: n fs)
  case (Cons e es)
  show ?case
  proof (cases e)
    case None
    then show ?thesis using Cons by simp
  next
    case (Some name)
    have d: "distinct (listed es)" "name \<notin> set (listed es)"
      using Cons.prems(1) Some by (simp_all)
    let ?fs = "if stale L ttl io fs name then remove_file io name fs else fs"
    have run: "gc_loop L ttl io es (if stale L ttl io fs name then n + 1 else n) ?fs = (n', fs')"
      using Cons.prems(2) Some by (simp add: gc_loop_step del: gc_loop.simps split: if_splits)
    have same: "stale L ttl io ?fs x = stale L ttl io fs x" if "x \<in> set (listed es)" for x
      using that d(2) stale_remove [of x name] by auto
    then have "filter (stale L ttl io ?fs) (listed es) = filter (stale L ttl io fs) (listed es)"
      by (rule filter_cong [OF refl])
    moreover note Cons.IH [OF d(1) run]
    ultimately show ?thesis using same d(2) Some
      by (auto simp: remove_file_def)
  qed
qed simp

text \<open>
  Collecting the garbage removes exactly the stale entries: of the listed files, those with the
  extension json that can be read and are no record, or an expired one, are counted and go away if
  they can be removed; every other file, temporary ones included, is left alone.
\<close>

lemma gc_exact:
  assumes "if_root fs" "distinct (listed es)"
  shows "\<exists>fs'. store_gc_expired L ttl io (Inr es) fs =
      (Inr (length (filter (stale L ttl io fs) (listed es))), fs') \<and>
    (\<forall>name. if_files fs' name =
      (if name \<in> set (listed es) \<and> stale L ttl io fs name \<and> io_remove io name then None else if_files fs name))"
proof -
  obtain n fs' where "gc_loop L ttl io es 0 fs = (n, fs')" by fastforce
  then show ?thesis using gc_loop_exact [OF assms(2), of L ttl io 0 fs n fs'] assms(1) by (simp add: store_gc_expired_def)
qed

end
