(* ===== verification/Review_Paths.thy ===== *)
theory Review_Paths
  imports Rust_Str
begin

text \<open>
  Validation of the arguments of the review queue (\<^verbatim>\<open>harness-rust/crates/semantic-mcp/src/review_queue.rs\<close>
  and the path functions of \<^verbatim>\<open>util.rs\<close>): file paths, sources, owners, run identifiers, messages and the
  length of a lease.

  Paths are those of Unix. What the file system says about a path is a parameter: whether the root of
  the repository resolves to a directory, and for every path below it whether it is a symbolic link, something
  else, absent, or cannot be inspected. Error texts carry the offending input where the source does.
\<close>

section \<open>Definitions\<close>

datatype queue_error =
    EmptyPath | ControlBytes | NotRelative | RootMissing ustr | RootNotDirectory
  | LeadingDash ustr | Traversal ustr | Symlinked ustr | InspectFailed ustr
  | BadSource | BadLeaseOwner | BadRunId | EmptyError | BadLeaseSeconds
  | OwnerNotFound ustr | LostLease "ustr option" "ustr list" | RowFailed int | RowNotFound

datatype path_kind = Symlink | Other_File | Absent | Unreadable ustr

record repo_world =
  root_state :: "ustr + bool"
  kind_at :: "ustr list \<Rightarrow> path_kind"

subsection \<open>Normal forms of paths\<close>

fun collapse_slashes :: "bool \<Rightarrow> ustr \<Rightarrow> ustr" where
  "collapse_slashes prev_slash [] = []"
| "collapse_slashes prev_slash (c # s) =
     (if c = 47 then (if prev_slash then collapse_slashes True s else c # collapse_slashes True s)
      else c # collapse_slashes False s)"

fun strip_dot_slashes :: "ustr \<Rightarrow> ustr" where
  "strip_dot_slashes (a # b # s) = (if a = 46 \<and> b = 47 then strip_dot_slashes s else a # b # s)"
| "strip_dot_slashes s = s"

definition trim_end_slashes :: "ustr \<Rightarrow> ustr" where
  "trim_end_slashes s = rev (dropWhile (\<lambda>c. c = 47) (rev s))"

definition canonicalize_path_like :: "ustr \<Rightarrow> ustr" where
  "canonicalize_path_like input =
     trim_end_slashes (strip_dot_slashes (collapse_slashes False (map (\<lambda>c. if c = 92 then 47 else c) (trim input))))"

datatype path_component = RootDir | CurDir | ParentDir | Normal ustr

definition piece_component :: "ustr \<Rightarrow> path_component option" where
  "piece_component p =
     (if p = [] \<or> p = lit ''.'' then None else if p = lit ''..'' then Some ParentDir else Some (Normal p))"

fun piece_components :: "ustr list \<Rightarrow> path_component list" where
  "piece_components [] = []"
| "piece_components (p # ps) = (case piece_component p of None \<Rightarrow> [] | Some c \<Rightarrow> [c]) @ piece_components ps"

text \<open>\<^verbatim>\<open>Path::components\<close>: a dot counts only at the very beginning of a relative path.\<close>

definition components :: "ustr \<Rightarrow> path_component list" where
  "components s =
     (if prefix (lit ''/'') s then RootDir # piece_components (split_char 47 (tl s))
      else case split_char 47 s of
          p # ps \<Rightarrow> (if p = lit ''.'' then [CurDir] else piece_components [p]) @ piece_components ps
        | [] \<Rightarrow> [])"

definition is_absolute_path_like :: "ustr \<Rightarrow> bool" where
  "is_absolute_path_like s \<longleftrightarrow> prefix (lit ''/'') s \<or>
     (case s of d # c # sl # _ \<Rightarrow> (65 \<le> d \<and> d \<le> 90 \<or> 97 \<le> d \<and> d \<le> 122) \<and> c = 58 \<and> sl = 47 | _ \<Rightarrow> False)"

fun relative_loop :: "ustr \<Rightarrow> path_component list \<Rightarrow> ustr list \<Rightarrow> queue_error + ustr list" where
  "relative_loop raw [] acc = Inr acc"
| "relative_loop raw (CurDir # cs) acc = relative_loop raw cs acc"
| "relative_loop raw (Normal seg # cs) acc =
     (if prefix (lit ''-'') seg then Inl (LeadingDash raw) else relative_loop raw cs (acc @ [seg]))"
| "relative_loop raw (ParentDir # cs) acc = Inl (Traversal raw)"
| "relative_loop raw (RootDir # cs) acc = Inl NotRelative"

definition canonicalize_relative_path :: "ustr \<Rightarrow> ustr \<Rightarrow> queue_error + ustr list" where
  "canonicalize_relative_path normalized raw =
     and_then (relative_loop raw (components normalized) []) (\<lambda>segs.
     if segs = [] then Inl EmptyPath else Inr segs)"

fun symlink_loop :: "repo_world \<Rightarrow> ustr \<Rightarrow> ustr list \<Rightarrow> ustr list \<Rightarrow> queue_error + unit" where
  "symlink_loop F raw current [] = Inr ()"
| "symlink_loop F raw current (seg # segs) =
     (case kind_at F (current @ [seg]) of
        Symlink \<Rightarrow> Inl (Symlinked raw)
      | Unreadable e \<Rightarrow> Inl (InspectFailed e)
      | _ \<Rightarrow> symlink_loop F raw (current @ [seg]) segs)"

definition assert_no_symlink_components :: "repo_world \<Rightarrow> ustr \<Rightarrow> ustr list \<Rightarrow> queue_error + unit" where
  "assert_no_symlink_components F raw segs = symlink_loop F raw [] segs"

definition is_control :: "uchar \<Rightarrow> bool" where
  "is_control c \<longleftrightarrow> c < 32 \<or> 127 \<le> c \<and> c \<le> 159"

definition path_text :: "ustr list \<Rightarrow> ustr" where
  "path_text segs = intersperse_concat (lit ''/'') segs"

text \<open>Joining a relative path to the root and stripping the root again gives the relative path back.\<close>

definition validate_enqueue_file_path :: "repo_world \<Rightarrow> ustr \<Rightarrow> queue_error + ustr" where
  "validate_enqueue_file_path F file_path =
     (let normalized = canonicalize_path_like file_path in
      if trim normalized = [] \<or> normalized = lit ''.'' then Inl EmptyPath
      else if list_ex is_control file_path then Inl ControlBytes
      else if is_absolute_path_like normalized then Inl NotRelative
      else case root_state F of
          Inl e \<Rightarrow> Inl (RootMissing e)
        | Inr False \<Rightarrow> Inl RootNotDirectory
        | Inr True \<Rightarrow>
            and_then (canonicalize_relative_path normalized file_path) (\<lambda>segs.
            and_then (assert_no_symlink_components F file_path segs) (\<lambda>_.
            let stored = canonicalize_path_like (path_text segs) in
            if stored = [] \<or> stored = lit ''.'' then Inl EmptyPath else Inr stored)))"

definition validate_file_path :: "ustr \<Rightarrow> queue_error + ustr" where
  "validate_file_path file_path =
     (let normalized = canonicalize_path_like file_path in
      if trim normalized = [] then Inl EmptyPath
      else if list_ex is_control file_path then Inl ControlBytes
      else Inr normalized)"

subsection \<open>Other arguments\<close>

definition ascii_alnum :: "uchar \<Rightarrow> bool" where
  "ascii_alnum c \<longleftrightarrow> 48 \<le> c \<and> c \<le> 57 \<or> 65 \<le> c \<and> c \<le> 90 \<or> 97 \<le> c \<and> c \<le> 122"

definition SOURCE_MAX_LEN :: nat where "SOURCE_MAX_LEN = 32"

definition LEASE_OWNER_MAX_LEN :: nat where "LEASE_OWNER_MAX_LEN = 128"

definition RUN_ID_MAX_LEN :: nat where "RUN_ID_MAX_LEN = 128"

definition DEFAULT_LEASE_SECONDS :: int where "DEFAULT_LEASE_SECONDS = 900"

definition MAX_LEASE_SECONDS :: int where "MAX_LEASE_SECONDS = 86400"

definition checked_text :: "nat \<Rightarrow> (uchar \<Rightarrow> bool) \<Rightarrow> queue_error \<Rightarrow> ustr \<Rightarrow> queue_error + ustr" where
  "checked_text mx ok e s =
     (let normalized = trim s in
      if normalized = [] \<or> blen normalized > mx \<or> \<not> list_all ok normalized then Inl e else Inr normalized)"

definition validate_source :: "ustr \<Rightarrow> queue_error + ustr" where
  "validate_source s = checked_text SOURCE_MAX_LEN (\<lambda>c. ascii_alnum c \<or> c = 95 \<or> c = 45) BadSource s"

definition validate_lease_owner :: "ustr \<Rightarrow> queue_error + ustr" where
  "validate_lease_owner s = checked_text LEASE_OWNER_MAX_LEN (\<lambda>c. ascii_alnum c \<or> c = 45) BadLeaseOwner s"

definition run_id_char :: "uchar \<Rightarrow> bool" where
  "run_id_char c \<longleftrightarrow> ascii_alnum c \<or> c \<in> {46, 95, 58, 45}"

definition validate_optional_run_id :: "ustr option \<Rightarrow> queue_error + ustr option" where
  "validate_optional_run_id r =
     (case r of None \<Rightarrow> Inr None | Some s \<Rightarrow> map_sum id Some (checked_text RUN_ID_MAX_LEN run_id_char BadRunId s))"

fun validate_paths :: "ustr list \<Rightarrow> queue_error + ustr list" where
  "validate_paths [] = Inr []"
| "validate_paths (f # fs) =
     and_then (validate_file_path f) (\<lambda>p. and_then (validate_paths fs) (\<lambda>ps. Inr (p # ps)))"

definition validate_optional_expected_files :: "ustr list option \<Rightarrow> queue_error + ustr list option" where
  "validate_optional_expected_files fs =
     (case fs of None \<Rightarrow> Inr None | Some l \<Rightarrow> map_sum id Some (validate_paths l))"

definition validate_optional_error_message :: "ustr option \<Rightarrow> queue_error + ustr option" where
  "validate_optional_error_message m =
     (case m of None \<Rightarrow> Inr None
      | Some s \<Rightarrow> let normalized = trim s in if normalized = [] then Inl EmptyError else Inr (Some normalized))"

definition normalize_lease_seconds :: "int option \<Rightarrow> queue_error + int" where
  "normalize_lease_seconds v =
     (case v of
        None \<Rightarrow> Inr DEFAULT_LEASE_SECONDS
      | Some s \<Rightarrow> if 1 \<le> s \<and> s \<le> MAX_LEASE_SECONDS then Inr s else Inl BadLeaseSeconds)"

section \<open>Lemmas\<close>

lemma intersperse_concat_set: "p \<in> set ps \<Longrightarrow> set p \<subseteq> set (intersperse_concat sep ps)"
  by (induction sep ps rule: intersperse_concat.induct) auto

lemma split_char_pieces: "p \<in> set (split_char c s) \<Longrightarrow> c \<notin> set p \<and> set p \<subseteq> set s"
  using split_char_free_pieces intersperse_concat_set [of p "split_char c s" "[c]"] by auto

lemma piece_components_Normal:
  "Normal s \<in> set (piece_components ps) \<Longrightarrow> s \<in> set ps \<and> s \<noteq> [] \<and> s \<noteq> lit ''.'' \<and> s \<noteq> lit ''..''"
  by (induction ps) (auto simp: piece_component_def split: if_splits)

definition plain_segment :: "ustr \<Rightarrow> bool" where
  "plain_segment s \<longleftrightarrow> s \<noteq> [] \<and> s \<noteq> lit ''.'' \<and> s \<noteq> lit ''..'' \<and> 47 \<notin> set s"

lemma components_pieces:
  assumes "Normal s \<in> set (components t)"
  shows "\<exists>u. set u \<subseteq> set t \<and> Normal s \<in> set (piece_components (split_char 47 u))"
proof (cases "prefix (lit ''/'') t")
  case True
  then have "set (tl t) \<subseteq> set t" by (cases t) auto
  with True assms show ?thesis by (auto simp: components_def)
next
  case False
  then have "Normal s \<in> set (piece_components (split_char 47 t))"
    using assms by (cases "split_char 47 t") (auto simp: components_def split: if_splits)
  then show ?thesis by blast
qed

lemma components_Normal:
  assumes "Normal s \<in> set (components t)"
  shows "plain_segment s \<and> set s \<subseteq> set t"
proof -
  from components_pieces [OF assms] obtain u where u: "set u \<subseteq> set t" "Normal s \<in> set (piece_components (split_char 47 u))"
    by blast
  from piece_components_Normal [OF u(2)] split_char_pieces [of s 47 u] u(1) show ?thesis
    by (auto simp: plain_segment_def)
qed

lemma relative_loop_segments:
  "relative_loop raw cs acc = Inr segs \<Longrightarrow>
   \<exists>ss. segs = acc @ ss \<and> (\<forall>s\<in>set ss. Normal s \<in> set cs \<and> \<not> prefix (lit ''-'') s)"
proof (induction raw cs acc rule: relative_loop.induct)
  case (3 raw seg cs acc)
  then obtain ss where "segs = (acc @ [seg]) @ ss" "\<forall>s\<in>set ss. Normal s \<in> set cs \<and> \<not> prefix (lit ''-'') s"
      "\<not> prefix (lit ''-'') seg"
    by (auto split: if_splits)
  then show ?case by (intro exI [of _ "seg # ss"]) auto
qed auto

lemma symlink_loop_kinds:
  "symlink_loop F raw cur segs = Inr () \<Longrightarrow> n < length segs \<Longrightarrow>
   kind_at F (cur @ take (Suc n) segs) \<in> {Other_File, Absent}"
proof (induction F raw cur segs arbitrary: n rule: symlink_loop.induct)
  case (2 F raw cur seg segs)
  then show ?case by (cases n) (fastforce split: path_kind.splits)+
qed simp

subsection \<open>Normal forms\<close>

lemma collapse_slashes_set: "set (collapse_slashes b s) \<subseteq> set s"
  by (induction b s rule: collapse_slashes.induct) auto

lemma strip_dot_slashes_set: "set (strip_dot_slashes s) \<subseteq> set s"
  by (induction s rule: strip_dot_slashes.induct) auto

lemma trim_set: "set (trim s) \<subseteq> set s"
  unfolding trim_def by (metis set_dropWhileD set_rev subsetI)

lemma canonicalize_set: "set (canonicalize_path_like s) \<subseteq> (\<lambda>c. if c = 92 then 47 else c) ` set s"
proof -
  have "set (trim_end_slashes t) \<subseteq> set t" for t by (auto simp: trim_end_slashes_def dest: set_dropWhileD)
  then have "set (canonicalize_path_like s) \<subseteq> set (map (\<lambda>c. if c = 92 then 47 else c) (trim s))"
    using collapse_slashes_set strip_dot_slashes_set unfolding canonicalize_path_like_def by fastforce
  then show ?thesis using trim_set [of s] by auto
qed

lemma collapse_slashes_plain: "47 \<notin> set s \<Longrightarrow> collapse_slashes b (s @ t) = s @ (if s = [] then collapse_slashes b t else collapse_slashes False t)"
  by (induction s arbitrary: b) auto

lemma collapse_slashes_path: "list_all plain_segment segs \<Longrightarrow> collapse_slashes False (path_text segs) = path_text segs"
proof (induction segs rule: induct_list012)
  case (2 s)
  then show ?case using collapse_slashes_plain [of s False "[]"] by (simp add: path_text_def plain_segment_def)
next
  case (3 s t segs)
  obtain c u where "path_text (t # segs) = c # u" "c \<noteq> 47"
  proof (cases t)
    case (Cons c u)
    with 3 that show ?thesis by (cases segs) (auto simp: path_text_def plain_segment_def)
  qed (use 3 in \<open>simp add: plain_segment_def\<close>)
  with 3 show ?case by (simp add: path_text_def plain_segment_def collapse_slashes_plain lit_def)
qed (simp add: path_text_def)

lemma strip_dot_slashes_plain:
  "s \<noteq> [] \<Longrightarrow> s \<noteq> lit ''.'' \<Longrightarrow> 47 \<notin> set s \<Longrightarrow> t = [] \<or> hd t = 47 \<Longrightarrow> strip_dot_slashes (s @ t) = s @ t"
  by (cases s; cases "tl s"; cases t) (auto simp: lit_def)

lemma path_text_Cons: "\<exists>t. path_text (s # segs) = s @ t \<and> (t = [] \<or> hd t = 47)"
  by (cases segs) (auto simp: path_text_def lit_def)

lemma strip_dot_slashes_path: "list_all plain_segment segs \<Longrightarrow> strip_dot_slashes (path_text segs) = path_text segs"
proof (cases segs)
  case (Cons s rest)
  assume "list_all plain_segment segs"
  moreover obtain t where "path_text segs = s @ t" "t = [] \<or> hd t = 47" using path_text_Cons Cons by blast
  ultimately show ?thesis by (simp add: Cons plain_segment_def strip_dot_slashes_plain)
qed (simp add: path_text_def)

lemma path_text_last: "list_all plain_segment segs \<Longrightarrow> segs \<noteq> [] \<Longrightarrow> path_text segs \<noteq> [] \<and> last (path_text segs) \<noteq> 47"
proof (induction segs rule: induct_list012)
  case (2 s)
  then have s: "s \<noteq> []" "47 \<notin> set s" by (simp_all add: plain_segment_def)
  then have "last s \<noteq> 47" using last_in_set by metis
  with s show ?case by (simp add: path_text_def)
next
  case (3 s t segs)
  then show ?case by (simp add: path_text_def)
qed simp

lemma trim_end_slashes_id: "s \<noteq> [] \<Longrightarrow> last s \<noteq> 47 \<Longrightarrow> trim_end_slashes s = s"
  by (cases s rule: rev_cases) (simp_all add: trim_end_slashes_def)

lemma canonicalize_path_text:
  assumes "list_all plain_segment segs" "segs \<noteq> []" "\<forall>c\<in>set (path_text segs). \<not> white_space c \<and> c \<noteq> 92"
  shows "canonicalize_path_like (path_text segs) = path_text segs"
proof -
  have "trim (path_text segs) = path_text segs" using assms(3) by (intro trim_tight tight_nospace) auto
  moreover have "map (\<lambda>c. if c = 92 then 47 else c) (path_text segs) = path_text segs"
    using assms(3) by (auto intro: map_idI)
  ultimately show ?thesis
    using path_text_last [OF assms(1,2)]
    by (simp add: canonicalize_path_like_def collapse_slashes_path [OF assms(1)] strip_dot_slashes_path [OF assms(1)]
        trim_end_slashes_id)
qed

lemma path_text_set: "set (path_text segs) \<subseteq> insert 47 (\<Union> (set ` set segs))"
  by (induction segs rule: induct_list012) (auto simp: path_text_def lit_def)

section \<open>Properties\<close>

text \<open>
  A path without blanks that is accepted for the queue is stored as the sequence of segments that was
  checked: a relative path with no dot segments and no leading dash, no prefix of which is a symbolic
  link or unreadable in the repository, and completing or giving back the file under its stored name finds
  the same name.
\<close>

lemma enqueue_path_safe:
  assumes "validate_enqueue_file_path F raw = Inr stored" "\<forall>c\<in>set raw. \<not> white_space c"
  shows "\<exists>segs. segs \<noteq> [] \<and> stored = path_text segs \<and>
    (\<forall>s\<in>set segs. plain_segment s \<and> \<not> prefix (lit ''-'') s \<and> 92 \<notin> set s) \<and>
    (\<forall>n<length segs. kind_at F (take (Suc n) segs) \<in> {Other_File, Absent}) \<and>
    validate_file_path stored = Inr stored"
proof -
  let ?n = "canonicalize_path_like raw"
  from assms(1) obtain segs where
    rel: "canonicalize_relative_path ?n raw = Inr segs" and
    sym: "symlink_loop F raw [] segs = Inr ()" and
    st: "stored = canonicalize_path_like (path_text segs)" and
    ctl: "\<not> list_ex is_control raw"
    by (auto simp: validate_enqueue_file_path_def assert_no_symlink_components_def and_then_Inr Let_def
        split: if_splits sum.splits bool.splits)
  from rel have ne: "segs \<noteq> []" and loop: "relative_loop raw (components ?n) [] = Inr segs"
    by (auto simp: canonicalize_relative_path_def and_then_Inr split: if_splits)
  have seg: "plain_segment s \<and> set s \<subseteq> set ?n \<and> \<not> prefix (lit ''-'') s" if "s \<in> set segs" for s
    using relative_loop_segments [OF loop] components_Normal that by fastforce
  have chars: "\<not> white_space c \<and> c \<noteq> 92 \<and> \<not> is_control c" if "c \<in> set ?n" for c
  proof -
    from canonicalize_set [of raw] that obtain d where d: "d \<in> set raw" "c = (if d = 92 then 47 else d)" by blast
    with assms(2) ctl show ?thesis by (auto simp: list_ex_iff white_space_def is_control_def)
  qed
  have joined: "\<not> white_space c \<and> c \<noteq> 92 \<and> \<not> is_control c" if mem: "c \<in> set (path_text segs)" for c
  proof (cases "c = 47")
    case False
    then obtain s where "s \<in> set segs" "c \<in> set s" using path_text_set [of segs] mem by blast
    then show ?thesis using seg chars by blast
  qed (simp add: white_space_def is_control_def)
  have plain: "list_all plain_segment segs" using seg by (simp add: list_all_iff)
  have canon: "canonicalize_path_like (path_text segs) = path_text segs"
    using joined by (intro canonicalize_path_text [OF plain ne]) blast
  have "trim (path_text segs) = path_text segs" using joined by (intro trim_tight tight_nospace) blast
  then have "validate_file_path (path_text segs) = Inr (path_text segs)"
    using joined path_text_last [OF plain ne] by (auto simp: validate_file_path_def canon list_ex_iff Let_def)
  moreover have "\<forall>n<length segs. kind_at F (take (Suc n) segs) \<in> {Other_File, Absent}"
    using symlink_loop_kinds [OF sym] by simp
  moreover have "\<forall>s\<in>set segs. plain_segment s \<and> \<not> prefix (lit ''-'') s \<and> 92 \<notin> set s"
    using seg chars by blast
  ultimately show ?thesis using ne st canon by (intro exI [of _ segs]) simp
qed

definition linked_repo :: repo_world where
  "linked_repo = \<lparr>root_state = Inr True, kind_at = (\<lambda>p. if p = [lit ''link''] then Symlink else Other_File)\<rparr>"

text \<open>
  The check for symbolic links can be passed by a blank: it looks at the segments of the path normalised
  once, while the stored path is normalised again, which removes a blank that a leading dot segment had
  protected. A linked file is refused under its own name and stored under that very name when written
  this way.
\<close>

lemma symlink_check_bypassed:
  "validate_enqueue_file_path linked_repo (lit ''link'') = Inl (Symlinked (lit ''link'')) \<and>
   validate_enqueue_file_path linked_repo (lit ''./ link'') = Inr (lit ''link'')"
  by (intro conjI; code_simp)

end
