(* ===== verification/Review_Queue.thy ===== *)
theory Review_Queue
  imports Review_Paths Traces "HOL-Library.Product_Lexorder"
begin

text \<open>
  The review queue (\<^verbatim>\<open>harness-rust/crates/semantic-mcp/src/review_queue.rs\<close>): files whose change has to be
  reviewed are queued, leased to a reviewer for a limited time, and completed or given back.

  The table \<^verbatim>\<open>review_queue_items\<close> is a list of rows in the order of their identifiers with the next
  identifier of the table; a statement is a function on that list which also reports how many rows it
  changed. Every operation runs in one transaction, so an error leaves the table as it was: an operation
  returns either an error or the new table. Times are whole seconds, as the fixed format the code stores
  and compares. Fresh identifiers (of events and of lease owners) and the clock are arguments.
\<close>

section \<open>Definitions\<close>

subsection \<open>Rows and results\<close>

datatype queue_status = Pending | Leased | Done

record queue_row =
  row_id :: int
  project_id :: ustr
  event_id :: "ustr option"
  dedupe_key :: "ustr option"
  file_path :: ustr
  queue_state :: queue_status
  first_enqueued_at :: nat
  last_enqueued_at :: nat
  last_enqueue_source :: ustr
  payload :: ustr
  lease_run_id :: "ustr option"
  lease_event_id :: "ustr option"
  lease_owner :: "ustr option"
  leased_at :: "nat option"
  lease_expires_at :: "nat option"
  acknowledged_at :: "nat option"
  completed_at :: "nat option"
  completed_run_id :: "ustr option"
  last_error :: "ustr option"
  attempt_count :: int
  retry_count :: int

record QueueItem =
  item_event_id :: "ustr option"
  item_dedupe_key :: ustr
  item_file_path :: ustr
  item_source :: ustr
  item_queue_state :: queue_status
  item_first_enqueued_at :: nat
  item_last_enqueued_at :: nat
  item_lease_owner :: "ustr option"
  item_leased_at :: "nat option"
  item_lease_expires_at :: "nat option"
  item_acknowledged_at :: "nat option"
  item_retry_count :: int
  item_last_error :: "ustr option"

record EnqueueResult =
  queued :: bool
  duplicate :: bool
  enqueued_item :: QueueItem

record LeaseResult =
  result_lease_owner :: "ustr option"
  result_leased_at :: nat
  result_lease_expires_at :: "nat option"
  leased_count :: nat
  leased_items :: "QueueItem list"

record FinishResult =
  finish_lease_owner :: ustr
  finished_at :: nat
  finished_count :: nat
  finished_items :: "QueueItem list"

record QueueExport =
  exported_at :: nat
  pending_count :: nat
  export_leased_count :: nat
  pending_review :: bool
  changed_files :: "ustr list"
  last_change :: "nat option"
  export_items :: "QueueItem list"

record review_db =
  queue_rows :: "queue_row list"
  next_row_id :: int

definition map_queue_row :: "queue_row \<Rightarrow> QueueItem" where
  "map_queue_row row =
     \<lparr>item_event_id = event_id row,
      item_dedupe_key = (case dedupe_key row of Some k \<Rightarrow> k | None \<Rightarrow> file_path row),
      item_file_path = file_path row,
      item_source = last_enqueue_source row,
      item_queue_state = queue_state row,
      item_first_enqueued_at = first_enqueued_at row,
      item_last_enqueued_at = last_enqueued_at row,
      item_lease_owner = lease_owner row,
      item_leased_at = leased_at row,
      item_lease_expires_at = lease_expires_at row,
      item_acknowledged_at = acknowledged_at row,
      item_retry_count = retry_count row,
      item_last_error = last_error row\<rparr>"

subsection \<open>Statements\<close>

definition sql_update :: "(queue_row \<Rightarrow> bool) \<Rightarrow> (queue_row \<Rightarrow> queue_row) \<Rightarrow> queue_row list \<Rightarrow> queue_row list \<times> nat" where
  "sql_update cond upd rows = (map (\<lambda>r. if cond r then upd r else r) rows, length (filter cond rows))"

definition order_by_first :: "queue_row list \<Rightarrow> queue_row list" where
  "order_by_first rows = sort_key (\<lambda>r. (first_enqueued_at r, row_id r)) rows"

definition select_by_file_path :: "queue_row list \<Rightarrow> ustr \<Rightarrow> ustr \<Rightarrow> queue_row option" where
  "select_by_file_path rows project f = find (\<lambda>r. project_id r = project \<and> file_path r = f) rows"

definition select_item_by_id :: "queue_row list \<Rightarrow> int \<Rightarrow> queue_error + QueueItem" where
  "select_item_by_id rows i =
     (case find (\<lambda>r. row_id r = i) rows of None \<Rightarrow> Inl RowNotFound | Some r \<Rightarrow> Inr (map_queue_row r))"

definition lease_eligible :: "nat \<Rightarrow> queue_row \<Rightarrow> bool" where
  "lease_eligible now r \<longleftrightarrow>
     queue_state r = Pending \<or>
     queue_state r = Leased \<and> (case lease_expires_at r of Some e \<Rightarrow> e \<le> now | None \<Rightarrow> False)"

definition select_lease_candidates :: "queue_row list \<Rightarrow> ustr \<Rightarrow> nat \<Rightarrow> queue_row list" where
  "select_lease_candidates rows project now =
     order_by_first (filter (\<lambda>r. project_id r = project \<and> lease_eligible now r) rows)"

definition select_export_rows :: "queue_row list \<Rightarrow> ustr \<Rightarrow> queue_row list" where
  "select_export_rows rows project =
     order_by_first (filter (\<lambda>r. project_id r = project \<and> queue_state r \<in> {Pending, Leased}) rows)"

definition select_leased_rows :: "queue_row list \<Rightarrow> ustr \<Rightarrow> ustr \<Rightarrow> queue_row list" where
  "select_leased_rows rows project owner =
     order_by_first (filter (\<lambda>r. project_id r = project \<and> queue_state r = Leased \<and> lease_owner r = Some owner) rows)"

fun match_expected ::
  "queue_row list \<Rightarrow> ustr \<Rightarrow> ustr option \<Rightarrow> ustr list \<Rightarrow> ustr list \<times> queue_row list" where
  "match_expected rows owner run [] = ([], [])"
| "match_expected rows owner run (f # fs) =
     (let (lost, matched) = match_expected rows owner run fs in
      case find (\<lambda>r. file_path r = f) rows of
        None \<Rightarrow> (f # lost, matched)
      | Some r \<Rightarrow>
          if queue_state r \<noteq> Leased \<or> lease_owner r \<noteq> Some owner \<or> lease_run_id r \<noteq> run
          then (f # lost, matched) else (lost, r # matched))"

definition select_expected_leased_rows ::
  "queue_row list \<Rightarrow> ustr \<Rightarrow> ustr \<Rightarrow> ustr option \<Rightarrow> ustr list \<Rightarrow> queue_error + queue_row list" where
  "select_expected_leased_rows table project owner run expected =
     (if expected = [] then Inr []
      else
        let rows = order_by_first (filter (\<lambda>r. project_id r = project \<and> file_path r \<in> set expected) table);
            (lost, matched) = match_expected rows owner run expected
        in if lost \<noteq> [] then Inl (LostLease run lost) else Inr matched)"

definition select_lease_rows_for_finalization ::
  "queue_row list \<Rightarrow> ustr \<Rightarrow> ustr \<Rightarrow> ustr option \<Rightarrow> ustr list option \<Rightarrow> queue_error + queue_row list" where
  "select_lease_rows_for_finalization table project owner run expected =
     (case expected of
        None \<Rightarrow> Inr (select_leased_rows table project owner)
      | Some fs \<Rightarrow> select_expected_leased_rows table project owner run fs)"

text \<open>The loops over the selected rows stop at the first row that cannot be written.\<close>

fun row_loop ::
  "(queue_row \<Rightarrow> queue_row list \<Rightarrow> queue_error + queue_row list \<times> 'i) \<Rightarrow> queue_row list \<Rightarrow> queue_row list
     \<Rightarrow> queue_error + queue_row list \<times> 'i list" where
  "row_loop step [] table = Inr (table, [])"
| "row_loop step (r # rs) table =
     and_then (step r table) (\<lambda>(table', item).
     and_then (row_loop step rs table') (\<lambda>(table'', items). Inr (table'', item # items)))"

subsection \<open>Enqueue\<close>

definition reenqueued_row :: "ustr \<Rightarrow> nat \<Rightarrow> ustr \<Rightarrow> queue_row \<Rightarrow> queue_row \<Rightarrow> queue_row" where
  "reenqueued_row event now src existing r =
     r\<lparr>event_id := Some event,
       dedupe_key := Some (file_path existing),
       queue_state := (if queue_state existing = Done then Pending else queue_state existing),
       first_enqueued_at := (if queue_state existing = Done then now else first_enqueued_at existing),
       last_enqueued_at := now,
       last_enqueue_source := src,
       payload := lit ''{}'',
       lease_run_id := (if queue_state existing = Leased then lease_run_id existing else None),
       lease_event_id := (if queue_state existing = Leased then lease_event_id existing else None),
       lease_owner := (if queue_state existing = Leased then lease_owner existing else None),
       leased_at := (if queue_state existing = Leased then leased_at existing else None),
       lease_expires_at := (if queue_state existing = Leased then lease_expires_at existing else None),
       acknowledged_at := None,
       completed_at := None,
       completed_run_id := None,
       last_error := None,
       attempt_count := (if queue_state existing = Done then 0 else attempt_count r),
       retry_count := (if queue_state existing = Done then 0 else retry_count r)\<rparr>"

definition inserted_row :: "int \<Rightarrow> ustr \<Rightarrow> ustr \<Rightarrow> nat \<Rightarrow> ustr \<Rightarrow> ustr \<Rightarrow> queue_row" where
  "inserted_row i event project now src f =
     \<lparr>row_id = i, project_id = project, event_id = Some event, dedupe_key = Some f, file_path = f,
      queue_state = Pending, first_enqueued_at = now, last_enqueued_at = now, last_enqueue_source = src,
      payload = lit ''{}'', lease_run_id = None, lease_event_id = None, lease_owner = None, leased_at = None,
      lease_expires_at = None, acknowledged_at = None, completed_at = None, completed_run_id = None,
      last_error = None, attempt_count = 0, retry_count = 0\<rparr>"

definition enqueue ::
  "repo_world \<Rightarrow> nat \<Rightarrow> ustr \<Rightarrow> ustr \<Rightarrow> ustr \<Rightarrow> ustr \<Rightarrow> review_db \<Rightarrow> queue_error + review_db \<times> EnqueueResult" where
  "enqueue F now event project raw source db =
     and_then (validate_enqueue_file_path F raw) (\<lambda>f.
     and_then (validate_source source) (\<lambda>src.
     case select_by_file_path (queue_rows db) project f of
       Some existing \<Rightarrow>
         if queue_state existing = Pending then
           and_then (select_item_by_id (queue_rows db) (row_id existing)) (\<lambda>item.
           Inr (db, \<lparr>queued = False, duplicate = True, enqueued_item = item\<rparr>))
         else
           let table = fst (sql_update (\<lambda>r. row_id r = row_id existing) (reenqueued_row event now src existing)
                              (queue_rows db)) in
           and_then (select_item_by_id table (row_id existing)) (\<lambda>item.
           Inr (db\<lparr>queue_rows := table\<rparr>, \<lparr>queued = True, duplicate = False, enqueued_item = item\<rparr>))
     | None \<Rightarrow>
         let i = next_row_id db;
             table = queue_rows db @ [inserted_row i event project now src f] in
         and_then (select_item_by_id table i) (\<lambda>item.
         Inr (db\<lparr>queue_rows := table, next_row_id := i + 1\<rparr>,
              \<lparr>queued = True, duplicate = False, enqueued_item = item\<rparr>))))"

subsection \<open>Lease\<close>

definition lease_step ::
  "ustr option \<Rightarrow> ustr \<Rightarrow> nat \<Rightarrow> nat \<Rightarrow> queue_row \<Rightarrow> queue_row list \<Rightarrow> queue_error + queue_row list \<times> QueueItem" where
  "lease_step run owner now expires row table =
     (let (table', changes) = sql_update
        (\<lambda>r. row_id r = row_id row \<and> event_id r = event_id row \<and> lease_eligible now r)
        (\<lambda>r. r\<lparr>queue_state := Leased, lease_run_id := run, lease_event_id := event_id row,
               lease_owner := Some owner, leased_at := Some now, lease_expires_at := Some expires,
               acknowledged_at := None, completed_at := None, completed_run_id := None, last_error := None,
               attempt_count := attempt_count r + 1,
               retry_count := (if queue_state r = Leased then retry_count r + 1 else retry_count r)\<rparr>) table in
      if changes \<noteq> 1 then Inl (RowFailed (row_id row))
      else Inr (table', map_queue_row (row\<lparr>queue_state := Leased, lease_run_id := run,
              lease_event_id := event_id row, lease_owner := Some owner, leased_at := Some now,
              lease_expires_at := Some expires, acknowledged_at := None,
              retry_count := (if queue_state row = Leased then retry_count row + 1 else retry_count row),
              last_error := None\<rparr>)))"

definition lease ::
  "nat \<Rightarrow> ustr \<Rightarrow> ustr \<Rightarrow> ustr option \<Rightarrow> int option \<Rightarrow> review_db \<Rightarrow> queue_error + review_db \<times> LeaseResult" where
  "lease now owner project raw_run seconds db =
     and_then (validate_optional_run_id raw_run) (\<lambda>run.
     and_then (normalize_lease_seconds seconds) (\<lambda>secs.
     let expires = now + nat secs;
         rows = select_lease_candidates (queue_rows db) project now in
     if rows = [] then
       Inr (db, \<lparr>result_lease_owner = None, result_leased_at = now, result_lease_expires_at = None,
                 leased_count = 0, leased_items = []\<rparr>)
     else and_then (row_loop (lease_step run owner now expires) rows (queue_rows db)) (\<lambda>(table, items).
       Inr (db\<lparr>queue_rows := table\<rparr>,
            \<lparr>result_lease_owner = Some owner, result_leased_at = now, result_lease_expires_at = Some expires,
             leased_count = length items, leased_items = items\<rparr>))))"

subsection \<open>Complete and requeue\<close>

definition owned_row :: "ustr \<Rightarrow> ustr \<Rightarrow> ustr option \<Rightarrow> queue_row \<Rightarrow> queue_row \<Rightarrow> bool" where
  "owned_row project owner run row r \<longleftrightarrow>
     row_id r = row_id row \<and> project_id r = project \<and> queue_state r = Leased \<and> lease_owner r = Some owner \<and>
     (run = None \<or> lease_run_id r = run)"

definition release_row :: "queue_row \<Rightarrow> queue_row" where
  "release_row r =
     r\<lparr>queue_state := Pending, lease_run_id := None, lease_event_id := None, lease_owner := None,
       leased_at := None, lease_expires_at := None, acknowledged_at := None, completed_at := None,
       completed_run_id := None, last_error := None\<rparr>"

definition release_stale ::
  "ustr \<Rightarrow> ustr \<Rightarrow> ustr option \<Rightarrow> queue_row \<Rightarrow> queue_row list \<Rightarrow> queue_error + queue_row list \<times> bool \<times> QueueItem" where
  "release_stale project owner run row table =
     (let (table', changes) = sql_update
        (\<lambda>r. owned_row project owner run row r \<and> lease_event_id r \<noteq> event_id r) release_row table in
      if changes \<noteq> 1 then Inl (RowFailed (row_id row))
      else Inr (table', False, map_queue_row (row\<lparr>queue_state := Pending, lease_run_id := None,
              lease_event_id := None, lease_owner := None, leased_at := None, lease_expires_at := None,
              acknowledged_at := None, last_error := None\<rparr>)))"

definition complete_step ::
  "ustr \<Rightarrow> ustr \<Rightarrow> ustr option \<Rightarrow> nat \<Rightarrow> queue_row \<Rightarrow> queue_row list
     \<Rightarrow> queue_error + queue_row list \<times> bool \<times> QueueItem" where
  "complete_step project owner run now row table =
     (let (table', changes) = sql_update
        (\<lambda>r. owned_row project owner run row r \<and> lease_event_id r = event_id r)
        (\<lambda>r. r\<lparr>queue_state := Done, lease_run_id := None, lease_event_id := None, lease_expires_at := None,
               acknowledged_at := Some now, completed_at := Some now, last_error := None\<rparr>) table in
      if changes = 1 then
        Inr (table', True, map_queue_row (row\<lparr>queue_state := Done, lease_run_id := None,
              lease_event_id := None, lease_expires_at := None, acknowledged_at := Some now,
              last_error := None\<rparr>))
      else release_stale project owner run row table')"

definition requeue_step ::
  "ustr \<Rightarrow> ustr \<Rightarrow> ustr option \<Rightarrow> ustr option \<Rightarrow> queue_row \<Rightarrow> queue_row list
     \<Rightarrow> queue_error + queue_row list \<times> bool \<times> QueueItem" where
  "requeue_step project owner run msg row table =
     (let (table', changes) = sql_update
        (\<lambda>r. owned_row project owner run row r \<and> lease_event_id r = event_id r)
        (\<lambda>r. r\<lparr>queue_state := Pending, lease_run_id := None, lease_event_id := None, lease_owner := None,
               leased_at := None, lease_expires_at := None, acknowledged_at := None, completed_at := None,
               completed_run_id := None, last_error := msg, retry_count := retry_count r + 1\<rparr>) table in
      if changes = 1 then
        Inr (table', True, map_queue_row (row\<lparr>queue_state := Pending, lease_run_id := None,
              lease_event_id := None, lease_owner := None, leased_at := None, lease_expires_at := None,
              acknowledged_at := None, retry_count := retry_count row + 1, last_error := msg\<rparr>))
      else release_stale project owner run row table')"

text \<open>What the two operations share: selection, the loop, the count of rows that were not stale.\<close>

definition finalize ::
  "(queue_row \<Rightarrow> queue_row list \<Rightarrow> queue_error + queue_row list \<times> bool \<times> QueueItem) \<Rightarrow> nat \<Rightarrow> ustr \<Rightarrow> ustr \<Rightarrow> ustr option
     \<Rightarrow> ustr list option \<Rightarrow> review_db \<Rightarrow> queue_error + review_db \<times> FinishResult" where
  "finalize step now project owner run expected db =
     and_then (select_lease_rows_for_finalization (queue_rows db) project owner run expected) (\<lambda>rows.
     if rows = [] \<and> expected = None then Inl (OwnerNotFound owner)
     else and_then (row_loop step rows (queue_rows db)) (\<lambda>(table, items).
       Inr (db\<lparr>queue_rows := table\<rparr>,
            \<lparr>finish_lease_owner = owner, finished_at = now,
             finished_count = length (filter fst items), finished_items = map snd items\<rparr>)))"

definition complete ::
  "nat \<Rightarrow> ustr \<Rightarrow> ustr \<Rightarrow> ustr option \<Rightarrow> ustr list option \<Rightarrow> review_db \<Rightarrow> queue_error + review_db \<times> FinishResult" where
  "complete now project raw_owner raw_run raw_files db =
     and_then (validate_lease_owner raw_owner) (\<lambda>owner.
     and_then (validate_optional_run_id raw_run) (\<lambda>run.
     and_then (validate_optional_expected_files raw_files) (\<lambda>expected.
     finalize (complete_step project owner run now) now project owner run expected db)))"

definition requeue ::
  "nat \<Rightarrow> ustr \<Rightarrow> ustr \<Rightarrow> ustr option \<Rightarrow> ustr list option \<Rightarrow> ustr option \<Rightarrow> review_db
     \<Rightarrow> queue_error + review_db \<times> FinishResult" where
  "requeue now project raw_owner raw_run raw_files raw_msg db =
     and_then (validate_lease_owner raw_owner) (\<lambda>owner.
     and_then (validate_optional_run_id raw_run) (\<lambda>run.
     and_then (validate_optional_expected_files raw_files) (\<lambda>expected.
     and_then (validate_optional_error_message raw_msg) (\<lambda>msg.
     finalize (requeue_step project owner run msg) now project owner run expected db))))"

subsection \<open>Export\<close>

definition item_change :: "QueueItem \<Rightarrow> nat" where
  "item_change it =
     (case item_leased_at it of
        Some l \<Rightarrow> if l > item_last_enqueued_at it then l else item_last_enqueued_at it
      | None \<Rightarrow> item_last_enqueued_at it)"

definition export_json :: "nat \<Rightarrow> ustr \<Rightarrow> review_db \<Rightarrow> QueueExport" where
  "export_json now project db =
     (let items = map map_queue_row (select_export_rows (queue_rows db) project) in
      \<lparr>exported_at = now,
       pending_count = length (filter (\<lambda>it. item_queue_state it = Pending) items),
       export_leased_count = length (filter (\<lambda>it. item_queue_state it = Leased) items),
       pending_review = (items \<noteq> []),
       changed_files = map item_file_path items,
       last_change = (if items = [] then None else Some (fold max (map item_change items) 0)),
       export_items = items\<rparr>)"

end
