(* ===== verification/Review_Spec.thy ===== *)
theory Review_Spec
  imports Review_Queue
begin

text \<open>
  The contract of the review queue. A file of a project is idle, pending, or leased to an owner until a
  time, and a lease is dirty when the file has changed since it was taken. The operations of
  \<^verbatim>\<open>review_queue.rs\<close> refine the operations on this state.
\<close>

section \<open>Definitions\<close>

subsection \<open>The abstract queue\<close>

datatype file_state = F_Idle | F_Pending | F_Leased "ustr option" "ustr option" "nat option" bool

type_synonym queue_view = "ustr \<times> ustr \<Rightarrow> file_state"

fun spec_eligible :: "nat \<Rightarrow> file_state \<Rightarrow> bool" where
  "spec_eligible now F_Idle = False"
| "spec_eligible now F_Pending = True"
| "spec_eligible now (F_Leased ow run e d) = (case e of Some t \<Rightarrow> t \<le> now | None \<Rightarrow> False)"

fun spec_held :: "ustr \<Rightarrow> file_state \<Rightarrow> bool" where
  "spec_held owner (F_Leased ow run e d) = (ow = Some owner)"
| "spec_held owner st = False"

fun spec_run :: "file_state \<Rightarrow> ustr option" where
  "spec_run (F_Leased ow run e d) = run"
| "spec_run st = None"

fun spec_touch :: "file_state \<Rightarrow> file_state" where
  "spec_touch (F_Leased ow run e d) = F_Leased ow run e True"
| "spec_touch st = F_Pending"

fun spec_done :: "file_state \<Rightarrow> file_state" where
  "spec_done (F_Leased ow run e d) = (if d then F_Pending else F_Idle)"
| "spec_done st = st"

definition spec_lease :: "nat \<Rightarrow> ustr \<Rightarrow> ustr \<Rightarrow> ustr option \<Rightarrow> nat \<Rightarrow> queue_view \<Rightarrow> queue_view" where
  "spec_lease now owner project run expires v =
     (\<lambda>k. if fst k = project \<and> spec_eligible now (v k) then F_Leased (Some owner) run (Some expires) False else v k)"

text \<open>
  The files an owner may finish: without a list of expected files all it holds, provided it holds any and
  the run fits if one is named; with a list exactly those, provided it holds each under that run and the
  list names none twice.
\<close>

definition spec_selected ::
  "queue_view \<Rightarrow> ustr \<Rightarrow> ustr \<Rightarrow> ustr option \<Rightarrow> ustr list option \<Rightarrow> ustr set option" where
  "spec_selected v project owner run expected =
     (case expected of
        None \<Rightarrow>
          let S = {f. spec_held owner (v (project, f))} in
          if S \<noteq> {} \<and> (run = None \<or> (\<forall>f\<in>S. spec_run (v (project, f)) = run)) then Some S else None
      | Some fs \<Rightarrow>
          if distinct fs \<and> (\<forall>f\<in>set fs. spec_held owner (v (project, f)) \<and> spec_run (v (project, f)) = run)
          then Some (set fs) else None)"

definition spec_finish :: "(file_state \<Rightarrow> file_state) \<Rightarrow> ustr \<Rightarrow> ustr set \<Rightarrow> queue_view \<Rightarrow> queue_view" where
  "spec_finish upd project S v = (\<lambda>k. if fst k = project \<and> snd k \<in> S then upd (v k) else v k)"

subsection \<open>Commands\<close>

datatype queue_cmd =
    Cmd_Enqueue repo_world ustr ustr ustr ustr
  | Cmd_Lease ustr ustr "ustr option" "int option"
  | Cmd_Complete ustr ustr "ustr option" "ustr list option"
  | Cmd_Requeue ustr ustr "ustr option" "ustr list option" "ustr option"

definition committed :: "queue_error + review_db \<times> 'r \<Rightarrow> review_db option" where
  "committed r = (case r of Inl _ \<Rightarrow> None | Inr (db, _) \<Rightarrow> Some db)"

fun run_cmd :: "nat \<Rightarrow> queue_cmd \<Rightarrow> review_db \<Rightarrow> review_db option" where
  "run_cmd now (Cmd_Enqueue F event project path source) db = committed (enqueue F now event project path source db)"
| "run_cmd now (Cmd_Lease owner project run seconds) db = committed (lease now owner project run seconds db)"
| "run_cmd now (Cmd_Complete project owner run files) db = committed (complete now project owner run files db)"
| "run_cmd now (Cmd_Requeue project owner run files msg) db = committed (requeue now project owner run files msg db)"

fun spec_cmd :: "nat \<Rightarrow> queue_cmd \<Rightarrow> queue_view \<Rightarrow> queue_view option" where
  "spec_cmd now (Cmd_Enqueue F event project path source) v =
     (case (validate_enqueue_file_path F path, validate_source source) of
        (Inr f, Inr _) \<Rightarrow> Some (v((project, f) := spec_touch (v (project, f))))
      | _ \<Rightarrow> None)"
| "spec_cmd now (Cmd_Lease owner project run seconds) v =
     (case (validate_optional_run_id run, normalize_lease_seconds seconds) of
        (Inr r, Inr s) \<Rightarrow> Some (spec_lease now owner project r (now + nat s) v)
      | _ \<Rightarrow> None)"
| "spec_cmd now (Cmd_Complete project owner run files) v =
     (case (validate_lease_owner owner, validate_optional_run_id run, validate_optional_expected_files files) of
        (Inr ow, Inr r, Inr fs) \<Rightarrow>
          map_option (\<lambda>S. spec_finish spec_done project S v) (spec_selected v project ow r fs)
      | _ \<Rightarrow> None)"
| "spec_cmd now (Cmd_Requeue project owner run files msg) v =
     (case (validate_lease_owner owner, validate_optional_run_id run, validate_optional_expected_files files,
            validate_optional_error_message msg) of
        (Inr ow, Inr r, Inr fs, Inr _) \<Rightarrow>
          map_option (\<lambda>S. spec_finish (\<lambda>_. F_Pending) project S v) (spec_selected v project ow r fs)
      | _ \<Rightarrow> None)"

subsection \<open>Abstraction and invariant\<close>

abbreviation row_key :: "queue_row \<Rightarrow> ustr \<times> ustr" where
  "row_key r \<equiv> (project_id r, file_path r)"

definition row_state :: "queue_row \<Rightarrow> file_state" where
  "row_state r =
     (case queue_state r of
        Pending \<Rightarrow> F_Pending
      | Done \<Rightarrow> F_Idle
      | Leased \<Rightarrow> F_Leased (lease_owner r) (lease_run_id r) (lease_expires_at r) (lease_event_id r \<noteq> event_id r))"

definition rows_view :: "queue_row list \<Rightarrow> queue_view" where
  "rows_view rows k = (case find (\<lambda>r. row_key r = k) rows of None \<Rightarrow> F_Idle | Some r \<Rightarrow> row_state r)"

definition queue_abs :: "review_db \<Rightarrow> queue_view" where
  "queue_abs db = rows_view (queue_rows db)"

definition queue_ok :: "review_db \<Rightarrow> bool" where
  "queue_ok db \<longleftrightarrow>
     distinct (map row_id (queue_rows db)) \<and> distinct (map row_key (queue_rows db)) \<and>
     list_all (\<lambda>r. row_id r < next_row_id db) (queue_rows db)"

definition event_fresh :: "queue_cmd \<Rightarrow> review_db \<Rightarrow> bool" where
  "event_fresh c db =
     (case c of
        Cmd_Enqueue F event project path source \<Rightarrow> list_all (\<lambda>r. lease_event_id r \<noteq> Some event) (queue_rows db)
      | _ \<Rightarrow> True)"

section \<open>Writing selected rows\<close>

lemma sql_update_simps:
  "sql_update cond upd rows = (map (\<lambda>r. if cond r then upd r else r) rows, length (filter cond rows))"
  by (simp add: sql_update_def)

lemma distinct_key_eq: "distinct (map k rows) \<Longrightarrow> r \<in> set rows \<Longrightarrow> x \<in> set rows \<Longrightarrow> k x = k r \<longleftrightarrow> x = r"
  by (auto simp: distinct_map dest: inj_onD)

lemma filter_eq_single: "distinct rows \<Longrightarrow> r \<in> set rows \<Longrightarrow> filter (\<lambda>x. x = r) rows = [r]"
  by (induction rows) (auto simp: filter_empty_conv)

text \<open>
  The contract of a step of the row loops: a writable row is replaced in the table by its successor,
  which is no longer writable, and any other row stops the loop.
\<close>

locale row_writer =
  fixes step :: "queue_row \<Rightarrow> queue_row list \<Rightarrow> queue_error + queue_row list \<times> 'i"
    and ok :: "queue_row \<Rightarrow> bool" and new :: "queue_row \<Rightarrow> queue_row" and report :: "queue_row \<Rightarrow> 'i"
  assumes step_writes: "distinct (map row_id rows) \<Longrightarrow> r \<in> set rows \<Longrightarrow> ok r \<Longrightarrow>
      step r rows = Inr (map (\<lambda>x. if x = r then new x else x) rows, report r)"
    and step_fails: "distinct (map row_id rows) \<Longrightarrow> x \<in> set rows \<Longrightarrow> row_id x = row_id r \<Longrightarrow> \<not> ok x \<Longrightarrow>
      \<exists>e. step r rows = Inl e"
    and new_id: "row_id (new r) = row_id r"
    and new_not_ok: "ok r \<Longrightarrow> \<not> ok (new r)"
begin

lemma ids_kept: "map row_id (map (\<lambda>x. if P x then new x else x) rows) = map row_id rows"
  by (simp add: new_id)

lemma ids_distinct:
  "distinct (map row_id (map (\<lambda>x. if P x then new x else x) rows)) \<longleftrightarrow> distinct (map row_id rows)"
  by (simp only: ids_kept)

lemma loop_writes:
  assumes "distinct (map row_id rows)" "distinct rs" "set rs \<subseteq> set rows" "\<forall>r\<in>set rs. ok r"
  shows "row_loop step rs rows = Inr (map (\<lambda>x. if x \<in> set rs then new x else x) rows, map report rs)"
  using assms
proof (induction rs arbitrary: rows)
  case (Cons r rs)
  let ?t = "map (\<lambda>x. if x = r then new x else x) rows"
  have new_in: "new r \<notin> set rs"
    using Cons.prems new_not_ok [of r] by auto
  have ids: "distinct (map row_id ?t)" using Cons.prems(1) by (simp only: ids_distinct)
  have sub: "set rs \<subseteq> set ?t" using Cons.prems by (force simp: image_iff)
  have "row_loop step rs ?t = Inr (map (\<lambda>x. if x \<in> set rs then new x else x) ?t, map report rs)"
    using Cons.IH [OF ids _ sub] Cons.prems by simp
  then show ?case using Cons.prems step_writes [of rows r] new_in by (auto simp: and_then_def)
qed simp

lemma written_ok:
  assumes "ok r" "q \<in> set (map (\<lambda>x. if x = r then new x else x) rows)" "ok q"
  shows "q \<noteq> r \<and> q \<in> set rows"
proof -
  from assms(2) obtain x where x: "x \<in> set rows" "q = (if x = r then new x else x)" by auto
  then have "x \<noteq> r" using assms(1,3) new_not_ok by metis
  with x show ?thesis by simp
qed

lemma written_covers:
  assumes "x \<in> set rows" "row_id x = row_id q" "x = q \<or> \<not> ok x" "ok r"
  shows "\<exists>y\<in>set (map (\<lambda>x. if x = r then new x else x) rows). row_id y = row_id q \<and> (y = q \<or> \<not> ok y)"
proof (cases "x = r")
  case True
  with assms have "new r \<in> set (map (\<lambda>x. if x = r then new x else x) rows)" "row_id (new r) = row_id q"
    by (auto simp: new_id)
  then show ?thesis using new_not_ok [OF assms(4)] by blast
next
  case False
  with assms(1) have "x \<in> set (map (\<lambda>x. if x = r then new x else x) rows)" by force
  with assms(2,3) show ?thesis by blast
qed

lemma loop_stuck_covered:
  assumes "distinct (map row_id rows)" "\<forall>r\<in>set rs. \<exists>x\<in>set rows. row_id x = row_id r \<and> (x = r \<or> \<not> ok x)"
    "\<not> (distinct rs \<and> (\<forall>r\<in>set rs. r \<in> set rows \<and> ok r))"
  shows "\<exists>e. row_loop step rs rows = Inl e"
  using assms
proof (induction rs arbitrary: rows)
  case (Cons r rs)
  show ?case
  proof (cases "r \<in> set rows \<and> ok r")
    case True
    let ?t = "map (\<lambda>x. if x = r then new x else x) rows"
    have ids: "distinct (map row_id ?t)" using Cons.prems(1) by (simp only: ids_distinct)
    have cover: "\<forall>q\<in>set rs. \<exists>x\<in>set ?t. row_id x = row_id q \<and> (x = q \<or> \<not> ok x)"
    proof
      fix q assume "q \<in> set rs"
      with Cons.prems(2) obtain x where "x \<in> set rows" "row_id x = row_id q" "x = q \<or> \<not> ok x" by auto
      then show "\<exists>x\<in>set ?t. row_id x = row_id q \<and> (x = q \<or> \<not> ok x)" using True by (intro written_covers) auto
    qed
    have "\<not> (distinct rs \<and> (\<forall>q\<in>set rs. q \<in> set ?t \<and> ok q))"
      using written_ok [of r] True Cons.prems(3) by (metis distinct.simps(2) set_ConsD)
    from Cons.IH [OF ids cover this] show ?thesis
      using True step_writes [OF Cons.prems(1), of r] by (auto simp: and_then_def)
  next
    case False
    from Cons.prems(2) obtain x where "x \<in> set rows" "row_id x = row_id r" "x = r \<or> \<not> ok x" by auto
    with False have "\<exists>e. step r rows = Inl e" using step_fails [OF Cons.prems(1), of x r] by auto
    then show ?thesis by (auto simp: and_then_def)
  qed
qed simp

lemma loop_stuck:
  assumes "distinct (map row_id rows)" "set rs \<subseteq> set rows" "\<not> (distinct rs \<and> (\<forall>r\<in>set rs. ok r))"
  shows "\<exists>e. row_loop step rs rows = Inl e"
  using assms by (intro loop_stuck_covered) blast+

end

lemma sql_update_one:
  assumes "distinct (map row_id rows)" "r \<in> set rows" "cond r" "\<And>x. cond x \<Longrightarrow> row_id x = row_id r"
  shows "sql_update cond upd rows = (map (\<lambda>x. if x = r then upd x else x) rows, 1)"
proof -
  have eq: "cond x \<longleftrightarrow> x = r" if "x \<in> set rows" for x
    using assms that distinct_key_eq [OF assms(1,2)] by blast
  then have "filter cond rows = filter (\<lambda>x. x = r) rows" by (simp cong: filter_cong)
  also have "\<dots> = [r]" using assms(1,2) by (intro filter_eq_single) (auto simp: distinct_map)
  finally show ?thesis using eq by (simp add: sql_update_def cong: map_cong)
qed

lemma sql_update_none:
  assumes "\<And>x. x \<in> set rows \<Longrightarrow> \<not> cond x"
  shows "sql_update cond upd rows = (rows, 0)"
  using assms by (simp add: sql_update_def map_idI)

definition leased_row :: "ustr option \<Rightarrow> ustr \<Rightarrow> nat \<Rightarrow> nat \<Rightarrow> queue_row \<Rightarrow> queue_row" where
  "leased_row run owner now expires r =
     r\<lparr>queue_state := Leased, lease_run_id := run, lease_event_id := event_id r, lease_owner := Some owner,
       leased_at := Some now, lease_expires_at := Some expires, acknowledged_at := None, completed_at := None,
       completed_run_id := None, last_error := None, attempt_count := attempt_count r + 1,
       retry_count := (if queue_state r = Leased then retry_count r + 1 else retry_count r)\<rparr>"

definition may_finish :: "ustr \<Rightarrow> ustr \<Rightarrow> ustr option \<Rightarrow> queue_row \<Rightarrow> bool" where
  "may_finish project owner run r \<longleftrightarrow>
     project_id r = project \<and> queue_state r = Leased \<and> lease_owner r = Some owner \<and> (run = None \<or> lease_run_id r = run)"

definition completed_row :: "nat \<Rightarrow> queue_row \<Rightarrow> queue_row" where
  "completed_row now r =
     (if lease_event_id r = event_id r then
        r\<lparr>queue_state := Done, lease_run_id := None, lease_event_id := None, lease_expires_at := None,
          acknowledged_at := Some now, completed_at := Some now, last_error := None\<rparr>
      else release_row r)"

definition requeued_row :: "ustr option \<Rightarrow> queue_row \<Rightarrow> queue_row" where
  "requeued_row msg r =
     (if lease_event_id r = event_id r then (release_row r)\<lparr>last_error := msg, retry_count := retry_count r + 1\<rparr>
      else release_row r)"

lemma owned_row_iff: "owned_row project owner run row r \<longleftrightarrow> row_id r = row_id row \<and> may_finish project owner run r"
  by (auto simp: owned_row_def may_finish_def)

lemma lease_eligible_leased: "now < expires \<Longrightarrow> \<not> lease_eligible now (leased_row run owner now expires r)"
  by (simp add: lease_eligible_def leased_row_def)

lemma lease_step_writes:
  assumes "distinct (map row_id rows)" "r \<in> set rows" "lease_eligible now r"
  shows "lease_step run owner now e r rows =
    Inr (map (\<lambda>x. if x = r then leased_row run owner now e x else x) rows, map_queue_row (leased_row run owner now e r))"
proof -
  have "sql_update (\<lambda>x. row_id x = row_id r \<and> event_id x = event_id r \<and> lease_eligible now x) f rows =
      (map (\<lambda>x. if x = r then f x else x) rows, 1)" for f
    by (rule sql_update_one [OF assms(1,2)]) (use assms(3) in auto)
  then show ?thesis
    by (auto simp: lease_step_def leased_row_def map_queue_row_def split: option.split)
qed

lemma lease_step_fails:
  assumes "distinct (map row_id rows)" "x \<in> set rows" "row_id x = row_id r" "\<not> lease_eligible now x"
  shows "lease_step run owner now e r rows = Inl (RowFailed (row_id r))"
proof -
  have "\<not> (row_id y = row_id r \<and> event_id y = event_id r \<and> lease_eligible now y)" if "y \<in> set rows" for y
    using distinct_key_eq [OF assms(1,2) that] assms by auto
  then show ?thesis by (simp add: lease_step_def sql_update_none)
qed

lemma owned_update:
  assumes "distinct (map row_id rows)" "r \<in> set rows"
  shows "sql_update (\<lambda>x. owned_row project owner run r x \<and> P x) f rows =
    (if may_finish project owner run r \<and> P r then (map (\<lambda>x. if x = r then f x else x) rows, 1) else (rows, 0))"
proof (cases "may_finish project owner run r \<and> P r")
  case True
  then have "sql_update (\<lambda>x. owned_row project owner run r x \<and> P x) f rows =
      (map (\<lambda>x. if x = r then f x else x) rows, 1)"
    by (intro sql_update_one [OF assms]) (auto simp: owned_row_iff)
  with True show ?thesis by simp
next
  case False
  then have "\<not> (owned_row project owner run r x \<and> P x)" if "x \<in> set rows" for x
    using distinct_key_eq [OF assms that] by (auto simp: owned_row_iff)
  with False show ?thesis by (simp add: sql_update_none)
qed

lemma owned_update_fails:
  assumes "distinct (map row_id rows)" "x \<in> set rows" "row_id x = row_id r" "\<not> may_finish project owner run x"
  shows "sql_update (\<lambda>y. owned_row project owner run r y \<and> P y) f rows = (rows, 0)"
proof (rule sql_update_none)
  fix y assume "y \<in> set rows"
  then show "\<not> (owned_row project owner run r y \<and> P y)"
    using distinct_key_eq [OF assms(1,2)] assms by (auto simp: owned_row_iff)
qed

lemma complete_step_writes:
  assumes "distinct (map row_id rows)" "r \<in> set rows" "may_finish project owner run r"
  shows "complete_step project owner run now r rows =
    Inr (map (\<lambda>x. if x = r then completed_row now x else x) rows,
         lease_event_id r = event_id r, map_queue_row (completed_row now r))"
  using assms(3)
  by (auto simp: complete_step_def release_stale_def owned_update [OF assms(1,2)] completed_row_def
      release_row_def map_queue_row_def split: option.split)

lemma requeue_step_writes:
  assumes "distinct (map row_id rows)" "r \<in> set rows" "may_finish project owner run r"
  shows "requeue_step project owner run msg r rows =
    Inr (map (\<lambda>x. if x = r then requeued_row msg x else x) rows,
         lease_event_id r = event_id r, map_queue_row (requeued_row msg r))"
  using assms(3)
  by (auto simp: requeue_step_def release_stale_def owned_update [OF assms(1,2)] requeued_row_def
      release_row_def map_queue_row_def split: option.split)

lemma finish_step_fails:
  assumes "distinct (map row_id rows)" "x \<in> set rows" "row_id x = row_id r" "\<not> may_finish project owner run x"
  shows "complete_step project owner run now r rows = Inl (RowFailed (row_id r))"
    and "requeue_step project owner run msg r rows = Inl (RowFailed (row_id r))"
  by (simp_all add: complete_step_def requeue_step_def release_stale_def owned_update_fails [OF assms])

lemmas row_updates = leased_row_def completed_row_def requeued_row_def release_row_def

interpretation lw: row_writer "lease_step run owner now (now + Suc secs)" "lease_eligible now"
    "leased_row run owner now (now + Suc secs)" "\<lambda>r. map_queue_row (leased_row run owner now (now + Suc secs) r)"
  for run owner now secs
  by unfold_locales
    (auto simp: lease_step_writes lease_step_fails leased_row_def lease_eligible_leased [unfolded leased_row_def])

interpretation cw: row_writer "complete_step project owner run now" "may_finish project owner run"
    "completed_row now" "\<lambda>r. (lease_event_id r = event_id r, map_queue_row (completed_row now r))"
  for project owner run now
  by unfold_locales
    (auto simp: complete_step_writes finish_step_fails may_finish_def row_updates)

interpretation rw: row_writer "requeue_step project owner run msg" "may_finish project owner run"
    "requeued_row msg" "\<lambda>r. (lease_event_id r = event_id r, map_queue_row (requeued_row msg r))"
  for project owner run msg
  by unfold_locales
    (auto simp: requeue_step_writes finish_step_fails may_finish_def row_updates)

section \<open>Views of tables\<close>

lemma find_key: "distinct (map k rows) \<Longrightarrow> find (\<lambda>r. k r = v) rows = Some x \<longleftrightarrow> x \<in> set rows \<and> k x = v"
  by (induction rows) (auto simp: image_iff)

lemma find_key_None: "find (\<lambda>r. k r = v) rows = None \<longleftrightarrow> (\<forall>x\<in>set rows. k x \<noteq> v)"
  by (induction rows) auto

lemma rows_view_cases:
  obtains x where "x \<in> set rows" "row_key x = k" "rows_view rows k = row_state x"
  | "\<forall>x\<in>set rows. row_key x \<noteq> k" "rows_view rows k = F_Idle"
proof (cases "find (\<lambda>r. row_key r = k) rows")
  case None
  then show ?thesis using that(2) unfolding rows_view_def find_key_None [where k = row_key]
    by (simp add: None)
next
  case (Some x)
  then have "x \<in> set rows" "row_key x = k" by (auto simp: find_Some_iff)
  with Some show ?thesis using that(1) [of x] by (simp add: rows_view_def)
qed

lemma rows_view_key:
  assumes "distinct (map row_key rows)" "x \<in> set rows"
  shows "rows_view rows (row_key x) = row_state x"
  using assms by (cases rule: rows_view_cases [of rows "row_key x"]) (auto dest: distinct_key_eq)

lemma rows_view_map:
  assumes "distinct (map row_key rows)" "\<And>r. row_key (g r) = row_key r"
    "\<And>r. r \<in> set rows \<Longrightarrow> row_state (g r) = h (row_key r) (row_state r)" "\<And>k. (\<forall>r\<in>set rows. row_key r \<noteq> k) \<Longrightarrow> h k F_Idle = F_Idle"
  shows "rows_view (map g rows) = (\<lambda>k. h k (rows_view rows k))"
proof
  fix k
  have find: "find (\<lambda>r. row_key r = k) (map g rows) = map_option g (find (\<lambda>r. row_key r = k) rows)"
    by (induction rows) (simp_all add: assms(2))
  show "rows_view (map g rows) k = h k (rows_view rows k)"
  proof (cases rule: rows_view_cases [of rows k])
    case (1 x)
    then have "find (\<lambda>r. row_key r = k) rows = Some x" by (subst find_key [OF assms(1)]) simp
    with 1 show ?thesis unfolding rows_view_def [of "map g rows"] find by (auto simp: assms(3))
  next
    case 2
    then have "find (\<lambda>r. row_key r = k) rows = None" by (subst find_key_None)
    with 2 show ?thesis unfolding rows_view_def [of "map g rows"] find by (simp add: assms(4))
  qed
qed

lemma eligible_state: "lease_eligible now r \<longleftrightarrow> spec_eligible now (row_state r)"
  by (cases "queue_state r") (auto simp: lease_eligible_def row_state_def)

lemma held_state:
  "spec_held owner (row_state r) \<longleftrightarrow> queue_state r = Leased \<and> lease_owner r = Some owner"
  "queue_state r = Leased \<Longrightarrow> spec_run (row_state r) = lease_run_id r"
  by (cases "queue_state r"; simp add: row_state_def)+

lemma row_state_leased [simp]: "row_state (leased_row run owner now e r) = F_Leased (Some owner) run (Some e) False"
  by (simp add: row_state_def leased_row_def)

lemma row_state_completed: "may_finish project owner run r \<Longrightarrow> row_state (completed_row now r) = spec_done (row_state r)"
  by (simp add: row_state_def row_updates may_finish_def)

lemma row_state_requeued [simp]: "row_state (requeued_row msg r) = F_Pending"
  by (simp add: row_state_def row_updates)

lemma row_key_new [simp]:
  "project_id (leased_row run owner now e r) = project_id r" "file_path (leased_row run owner now e r) = file_path r"
  "project_id (completed_row now r) = project_id r" "file_path (completed_row now r) = file_path r"
  "project_id (requeued_row msg r) = project_id r" "file_path (requeued_row msg r) = file_path r"
  by (simp_all add: row_updates)

lemma order_by_first_set [simp]: "set (order_by_first rows) = set rows"
  and order_by_first_distinct [simp]: "distinct (order_by_first rows) = distinct rows"
  and order_by_first_nil [simp]: "order_by_first rows = [] \<longleftrightarrow> rows = []"
  by (auto simp: order_by_first_def simp flip: set_empty)

section \<open>Finishing a lease\<close>

definition lease_of :: "ustr \<Rightarrow> ustr option \<Rightarrow> queue_row list \<Rightarrow> ustr \<Rightarrow> bool" where
  "lease_of owner run rows f \<longleftrightarrow>
     (\<exists>r. find (\<lambda>r. file_path r = f) rows = Some r \<and> queue_state r = Leased \<and> lease_owner r = Some owner \<and> lease_run_id r = run)"

lemma match_expected_eq:
  "match_expected rows owner run fs =
     (filter (\<lambda>f. \<not> lease_of owner run rows f) fs,
      map (\<lambda>f. the (find (\<lambda>r. file_path r = f) rows)) (filter (lease_of owner run rows) fs))"
  by (induction fs) (auto simp: lease_of_def split: option.split)

lemma selected_distinct:
  assumes "distinct (map row_key table)"
  shows "distinct (map file_path (order_by_first (filter (\<lambda>r. project_id r = project \<and> P r) table)))"
proof -
  have "distinct (map file_path (filter (\<lambda>r. project_id r = project \<and> P r) table))"
    using assms by (induction table) (auto simp: image_iff)
  then show ?thesis by (simp add: distinct_map order_by_first_def)
qed

lemma lease_of_view:
  assumes "distinct (map row_key table)" "f \<in> set fs"
  shows "lease_of owner run (order_by_first (filter (\<lambda>r. project_id r = project \<and> file_path r \<in> set fs) table)) f \<longleftrightarrow>
    spec_held owner (rows_view table (project, f)) \<and> spec_run (rows_view table (project, f)) = run"
    (is "lease_of owner run ?rows f \<longleftrightarrow> _")
proof (cases rule: rows_view_cases [of table "(project, f)"])
  case (1 x)
  then have "find (\<lambda>r. file_path r = f) ?rows = Some x"
    using assms by (subst find_key [OF selected_distinct]) auto
  with 1 show ?thesis by (auto simp: lease_of_def held_state)
next
  case 2
  then have "find (\<lambda>r. file_path r = f) ?rows = None" by (subst find_key_None) auto
  with 2 show ?thesis by (simp add: lease_of_def)
qed

lemma lease_of_row:
  assumes "distinct (map file_path rows)" "lease_of owner run rows f" "\<forall>r\<in>set rows. project_id r = project"
  shows "\<exists>r. find (\<lambda>r. file_path r = f) rows = Some r \<and> file_path r = f \<and> r \<in> set rows \<and> may_finish project owner run r"
  using assms by (auto simp: lease_of_def find_key may_finish_def)

definition expected_held :: "queue_view \<Rightarrow> ustr \<Rightarrow> ustr \<Rightarrow> ustr option \<Rightarrow> ustr list \<Rightarrow> bool" where
  "expected_held v project owner run fs \<longleftrightarrow>
     (\<forall>f\<in>set fs. spec_held owner (v (project, f)) \<and> spec_run (v (project, f)) = run)"

text \<open>With a list of expected files the selection fails or has one row for every entry of the list.\<close>

lemma select_expected_lost:
  assumes "distinct (map row_key table)" "\<not> expected_held (rows_view table) project owner run fs"
  shows "\<exists>e. select_expected_leased_rows table project owner run fs = Inl e"
proof -
  from assms(2) obtain f where "f \<in> set fs"
      "\<not> lease_of owner run (order_by_first (filter (\<lambda>r. project_id r = project \<and> file_path r \<in> set fs) table)) f"
    by (auto simp: expected_held_def lease_of_view [OF assms(1)])
  then show ?thesis
    by (auto simp: select_expected_leased_rows_def match_expected_eq filter_empty_conv Let_def)
qed

lemma select_expected_found:
  assumes "distinct (map row_key table)" "expected_held (rows_view table) project owner run fs"
  shows "\<exists>rs. select_expected_leased_rows table project owner run fs = Inr rs \<and> map file_path rs = fs \<and>
    set rs \<subseteq> {r \<in> set table. may_finish project owner run r}"
proof -
  let ?rows = "order_by_first (filter (\<lambda>r. project_id r = project \<and> file_path r \<in> set fs) table)"
  let ?at = "\<lambda>f. the (find (\<lambda>r. file_path r = f) ?rows)"
  have all: "lease_of owner run ?rows f" if "f \<in> set fs" for f
    using assms(2) that by (simp add: expected_held_def lease_of_view [OF assms(1)])
  then have row: "file_path (?at f) = f \<and> ?at f \<in> set table \<and> may_finish project owner run (?at f)"
    if "f \<in> set fs" for f
    using lease_of_row [OF selected_distinct [OF assms(1)] all [OF that], of project] by auto
  have "select_expected_leased_rows table project owner run fs = Inr (map ?at fs)"
    using all by (auto simp: select_expected_leased_rows_def match_expected_eq filter_empty_conv Let_def)
  moreover have "map file_path (map ?at fs) = fs" using row by (simp add: map_idI)
  moreover have "set (map ?at fs) \<subseteq> {r \<in> set table. may_finish project owner run r}" using row by auto
  ultimately show ?thesis by blast
qed

lemma queue_ok_map:
  assumes "queue_ok db" "\<And>r. row_id (g r) = row_id r" "\<And>r. row_key (g r) = row_key r"
  shows "queue_ok (db\<lparr>queue_rows := map g (queue_rows db)\<rparr>)"
proof -
  have "map row_id (map g rows) = map row_id rows" "map row_key (map g rows) = map row_key rows" for rows
    using assms(2,3) by simp_all
  then show ?thesis using assms(1) unfolding queue_ok_def by (simp add: list_all_iff assms(2) del: map_map)
qed

lemma view_files:
  assumes "distinct (map row_key rows)" "\<not> Q F_Idle"
  shows "{f. Q (rows_view rows (p, f))} = file_path ` {r \<in> set rows. project_id r = p \<and> Q (row_state r)}"
proof (intro equalityI subsetI)
  fix f assume "f \<in> {f. Q (rows_view rows (p, f))}"
  then show "f \<in> file_path ` {r \<in> set rows. project_id r = p \<and> Q (row_state r)}"
    using assms(2) by (cases rule: rows_view_cases [of rows "(p, f)"]) auto
qed (use rows_view_key [OF assms(1)] in auto)

lemma held_files:
  assumes "distinct (map row_key table)"
  shows "{f. spec_held owner (rows_view table (project, f))} = file_path ` set (select_leased_rows table project owner)"
  by (subst view_files [OF assms]) (auto simp: held_state select_leased_rows_def)

lemma held_runs:
  assumes "distinct (map row_key table)"
  shows "(\<forall>f\<in>file_path ` set (select_leased_rows table project owner). spec_run (rows_view table (project, f)) = run) \<longleftrightarrow>
    (\<forall>r\<in>set (select_leased_rows table project owner). lease_run_id r = run)"
  using rows_view_key [OF assms] by (force simp: select_leased_rows_def held_state)

text \<open>
  The contract of completing and of giving back: the step writes exactly the rows the owner may finish,
  keeps their keys, and changes their state as the specification does.
\<close>

locale finisher = row_writer step "may_finish project owner run" new report
  for step :: "queue_row \<Rightarrow> queue_row list \<Rightarrow> queue_error + queue_row list \<times> bool \<times> QueueItem"
    and project owner run new report +
  fixes upd :: "file_state \<Rightarrow> file_state"
  assumes new_key: "row_key (new r) = row_key r"
    and new_state: "may_finish project owner run r \<Longrightarrow> row_state (new r) = upd (row_state r)"
begin

lemma finish_rows:
  assumes "queue_ok db" "distinct rs" "set rs \<subseteq> {r \<in> set (queue_rows db). may_finish project owner run r}"
  defines "table \<equiv> map (\<lambda>x. if x \<in> set rs then new x else x) (queue_rows db)"
  shows "row_loop step rs (queue_rows db) = Inr (table, map report rs)"
    and "rows_view table = spec_finish upd project (file_path ` set rs) (queue_abs db)"
    and "queue_ok (db\<lparr>queue_rows := table\<rparr>)"
proof -
  have ids: "distinct (map row_id (queue_rows db))" and keys: "distinct (map row_key (queue_rows db))"
    using assms(1) by (simp_all add: queue_ok_def)
  show "row_loop step rs (queue_rows db) = Inr (table, map report rs)"
    unfolding table_def using assms(2,3) by (intro loop_writes [OF ids]) auto
  have proj: "project_id r = project" if "r \<in> set rs" for r using assms(3) that by (auto simp: may_finish_def)
  have mem: "r \<in> set rs \<longleftrightarrow> project_id r = project \<and> file_path r \<in> file_path ` set rs" if "r \<in> set (queue_rows db)" for r
    using assms(3) proj that distinct_key_eq [OF keys, of _ r] by (fastforce simp: image_iff)
  have "rows_view table = (\<lambda>k. (\<lambda>k st. if fst k = project \<and> snd k \<in> file_path ` set rs then upd st else st) k (rows_view (queue_rows db) k))"
    unfolding table_def
  proof (rule rows_view_map [OF keys])
    show "row_key (if r \<in> set rs then new r else r) = row_key r" for r using new_key [of r] by simp
    show "row_state (if r \<in> set rs then new r else r) =
        (if fst (row_key r) = project \<and> snd (row_key r) \<in> file_path ` set rs then upd (row_state r) else row_state r)"
      if "r \<in> set (queue_rows db)" for r
      using mem [OF that] assms(3) new_state [of r] by auto
    show "(if fst k = project \<and> snd k \<in> file_path ` set rs then upd F_Idle else F_Idle) = F_Idle"
      if "\<forall>r\<in>set (queue_rows db). row_key r \<noteq> k" for k
      using that assms(3) proj by (cases k) (auto simp: image_iff)
  qed
  then show "rows_view table = spec_finish upd project (file_path ` set rs) (queue_abs db)"
    by (simp add: spec_finish_def queue_abs_def)
  show "queue_ok (db\<lparr>queue_rows := table\<rparr>)"
    unfolding table_def using new_key by (intro queue_ok_map [OF assms(1)]) (simp_all add: new_id)
qed

lemma finish_selected:
  assumes "queue_ok db" "distinct rs" "set rs \<subseteq> {r \<in> set (queue_rows db). may_finish project owner run r}"
    "select_lease_rows_for_finalization (queue_rows db) project owner run expected = Inr rs" "rs \<noteq> [] \<or> expected \<noteq> None"
  shows "\<exists>db' r. finalize step now project owner run expected db = Inr (db', r) \<and> queue_ok db' \<and>
    queue_abs db' = spec_finish upd project (file_path ` set rs) (queue_abs db)"
  using finish_rows [OF assms(1-3)] assms(4,5) by (auto simp: finalize_def queue_abs_def)

lemma finish_stuck:
  assumes "queue_ok db" "\<not> (distinct rs \<and> (\<forall>r\<in>set rs. may_finish project owner run r))" "set rs \<subseteq> set (queue_rows db)"
    "select_lease_rows_for_finalization (queue_rows db) project owner run expected = Inr rs"
  shows "\<exists>e. finalize step now project owner run expected db = Inl e"
proof -
  from assms have "\<exists>e. row_loop step rs (queue_rows db) = Inl e" by (intro loop_stuck) (simp_all add: queue_ok_def)
  then show ?thesis using assms(4) by (auto simp: finalize_def)
qed

lemma finish_all:
  assumes "queue_ok db"
  shows "case spec_selected (queue_abs db) project owner run None of
      None \<Rightarrow> \<exists>e. finalize step now project owner run None db = Inl e
    | Some S \<Rightarrow> \<exists>db' r. finalize step now project owner run None db = Inr (db', r) \<and> queue_ok db' \<and>
        queue_abs db' = spec_finish upd project S (queue_abs db)"
proof -
  let ?rs = "select_leased_rows (queue_rows db) project owner"
  have keys: "distinct (map row_key (queue_rows db))" and dist: "distinct ?rs"
    using assms by (auto simp: queue_ok_def select_leased_rows_def distinct_map)
  have sel: "select_lease_rows_for_finalization (queue_rows db) project owner run None = Inr ?rs"
    by (simp add: select_lease_rows_for_finalization_def)
  have sub: "set ?rs \<subseteq> set (queue_rows db)" by (auto simp: select_leased_rows_def)
  have may: "(\<forall>r\<in>set ?rs. may_finish project owner run r) \<longleftrightarrow> run = None \<or> (\<forall>r\<in>set ?rs. lease_run_id r = run)"
    by (auto simp: select_leased_rows_def may_finish_def)
  have spec: "spec_selected (queue_abs db) project owner run None =
      (if ?rs \<noteq> [] \<and> (\<forall>r\<in>set ?rs. may_finish project owner run r) then Some (file_path ` set ?rs) else None)"
    unfolding may using held_runs [OF keys] by (simp add: spec_selected_def queue_abs_def held_files [OF keys] Let_def)
  consider "?rs = []" | "?rs \<noteq> []" "\<forall>r\<in>set ?rs. may_finish project owner run r"
    | "\<not> (\<forall>r\<in>set ?rs. may_finish project owner run r)" by blast
  then show ?thesis
  proof cases
    case 1
    then show ?thesis by (simp add: spec finalize_def sel)
  next
    case 2
    then have "set ?rs \<subseteq> {r \<in> set (queue_rows db). may_finish project owner run r}" using sub by auto
    from finish_selected [OF assms dist this sel] 2 show ?thesis by (simp add: spec)
  next
    case 3
    then show ?thesis using finish_stuck [OF assms _ sub sel] by (auto simp: spec)
  qed
qed

lemma finish_expected:
  assumes "queue_ok db"
  shows "case spec_selected (queue_abs db) project owner run (Some fs) of
      None \<Rightarrow> \<exists>e. finalize step now project owner run (Some fs) db = Inl e
    | Some S \<Rightarrow> \<exists>db' r. finalize step now project owner run (Some fs) db = Inr (db', r) \<and> queue_ok db' \<and>
        queue_abs db' = spec_finish upd project S (queue_abs db)"
proof -
  have keys: "distinct (map row_key (queue_rows db))" using assms by (simp add: queue_ok_def)
  have spec: "spec_selected (queue_abs db) project owner run (Some fs) =
      (if distinct fs \<and> expected_held (rows_view (queue_rows db)) project owner run fs then Some (set fs) else None)"
    by (simp add: spec_selected_def expected_held_def queue_abs_def)
  show ?thesis
  proof (cases "expected_held (rows_view (queue_rows db)) project owner run fs")
    case True
    from select_expected_found [OF keys this] obtain rs where
      rs: "select_lease_rows_for_finalization (queue_rows db) project owner run (Some fs) = Inr rs"
        "map file_path rs = fs" "set rs \<subseteq> {r \<in> set (queue_rows db). may_finish project owner run r}"
      by (auto simp: select_lease_rows_for_finalization_def)
    show ?thesis
    proof (cases "distinct fs")
      case dist: True
      then have "distinct rs" using rs(2) by (auto simp: distinct_map)
      from finish_selected [OF assms this rs(3,1)] show ?thesis using dist True rs(2) by (auto simp: spec)
    next
      case False
      have "inj_on file_path (set rs)"
      proof (rule inj_onI)
        fix a b assume "a \<in> set rs" "b \<in> set rs" "file_path a = file_path b"
        moreover from this have "a \<in> set (queue_rows db)" "b \<in> set (queue_rows db)" "row_key a = row_key b"
          using rs(3) by (auto simp: may_finish_def)
        ultimately show "a = b" using distinct_key_eq [OF keys] by blast
      qed
      with False rs(2) have "\<not> distinct rs" by (auto simp: distinct_map)
      then show ?thesis using finish_stuck [OF assms _ _ rs(1)] rs(3) False by (auto simp: spec)
    qed
  next
    case False
    from select_expected_lost [OF keys this] False show ?thesis
      by (auto simp: spec finalize_def select_lease_rows_for_finalization_def)
  qed
qed

lemma finalize_refines:
  assumes "queue_ok db"
  shows "map_option queue_abs (committed (finalize step now project owner run expected db)) =
      map_option (\<lambda>S. spec_finish upd project S (queue_abs db)) (spec_selected (queue_abs db) project owner run expected)"
    and "committed (finalize step now project owner run expected db) = Some db' \<Longrightarrow> queue_ok db'"
proof -
  have *: "case spec_selected (queue_abs db) project owner run expected of
      None \<Rightarrow> \<exists>e. finalize step now project owner run expected db = Inl e
    | Some S \<Rightarrow> \<exists>db' r. finalize step now project owner run expected db = Inr (db', r) \<and> queue_ok db' \<and>
        queue_abs db' = spec_finish upd project S (queue_abs db)"
    using finish_all [OF assms, of now] finish_expected [OF assms, of now] by (cases expected) blast+
  then show "map_option queue_abs (committed (finalize step now project owner run expected db)) =
      map_option (\<lambda>S. spec_finish upd project S (queue_abs db)) (spec_selected (queue_abs db) project owner run expected)"
    by (auto simp: committed_def split: option.splits)
  from * show "queue_ok db'" if "committed (finalize step now project owner run expected db) = Some db'"
    using that by (auto simp: committed_def split: option.splits)
qed

end

interpretation cf: finisher "complete_step project owner run now" project owner run "completed_row now"
    "\<lambda>r. (lease_event_id r = event_id r, map_queue_row (completed_row now r))" spec_done
  for project owner run now
  by unfold_locales (simp_all add: row_state_completed)

interpretation rf: finisher "requeue_step project owner run msg" project owner run "requeued_row msg"
    "\<lambda>r. (lease_event_id r = event_id r, map_queue_row (requeued_row msg r))" "\<lambda>_. F_Pending"
  for project owner run msg
  by unfold_locales simp_all

section \<open>Refinement\<close>

lemma select_rows_distinct: "queue_ok db \<Longrightarrow> distinct (queue_rows db)"
  by (auto simp: queue_ok_def distinct_map)

lemma committed_simps [simp]: "committed (Inl e) = None" "committed (Inr (db, r)) = Some db"
  by (simp_all add: committed_def)

lemma lease_candidates:
  "set (select_lease_candidates rows project now) = {r \<in> set rows. project_id r = project \<and> lease_eligible now r}"
  by (auto simp: select_lease_candidates_def)

lemma lease_view:
  assumes "distinct (map row_key rows)"
  shows "rows_view (map (\<lambda>x. if x \<in> set (select_lease_candidates rows project now) then leased_row run owner now e x else x) rows) =
    spec_lease now owner project run e (rows_view rows)"
proof -
  have "rows_view (map (\<lambda>x. if x \<in> set (select_lease_candidates rows project now) then leased_row run owner now e x else x) rows) =
     (\<lambda>k. (\<lambda>k st. if fst k = project \<and> spec_eligible now st then F_Leased (Some owner) run (Some e) False else st)
            k (rows_view rows k))"
    by (rule rows_view_map [OF assms]) (auto simp: lease_candidates eligible_state)
  then show ?thesis by (simp add: spec_lease_def)
qed

lemma lease_refines:
  assumes "queue_ok db" "validate_optional_run_id raw_run = Inr run" "normalize_lease_seconds seconds = Inr secs"
  shows "\<exists>db' r. lease now owner project raw_run seconds db = Inr (db', r) \<and> queue_ok db' \<and>
    queue_abs db' = spec_lease now owner project run (now + nat secs) (queue_abs db)"
proof -
  let ?rs = "select_lease_candidates (queue_rows db) project now"
  let ?t = "map (\<lambda>x. if x \<in> set ?rs then leased_row run owner now (now + nat secs) x else x) (queue_rows db)"
  from assms(3) have "1 \<le> secs"
    by (auto simp: normalize_lease_seconds_def DEFAULT_LEASE_SECONDS_def split: option.splits if_splits)
  then obtain n where n: "nat secs = Suc n" by (metis Suc_pred' nat_1 nat_mono zero_less_Suc less_le_trans)
  have ids: "distinct (map row_id (queue_rows db))" and keys: "distinct (map row_key (queue_rows db))"
    using assms(1) by (simp_all add: queue_ok_def)
  have view: "rows_view ?t = spec_lease now owner project run (now + nat secs) (queue_abs db)"
    using lease_view [OF keys] by (simp add: queue_abs_def)
  have dist: "distinct ?rs" using select_rows_distinct [OF assms(1)] by (simp add: select_lease_candidates_def)
  have loop: "\<exists>items. row_loop (lease_step run owner now (now + nat secs)) ?rs (queue_rows db) = Inr (?t, items)"
    unfolding n by (intro exI, rule lw.loop_writes [OF ids dist]) (auto simp: lease_candidates)
  have ok: "queue_ok (db\<lparr>queue_rows := ?t\<rparr>)"
    by (rule queue_ok_map [OF assms(1)]) (simp_all add: leased_row_def)
  show ?thesis
  proof (cases "?rs = []")
    case True
    then show ?thesis using view assms by (auto simp: lease_def queue_abs_def)
  next
    case False
    then show ?thesis using view assms loop ok by (auto simp: lease_def queue_abs_def Let_def)
  qed
qed

lemma rows_view_snoc:
  assumes "\<forall>x\<in>set rows. row_key x \<noteq> row_key r"
  shows "rows_view (rows @ [r]) = (rows_view rows)(row_key r := row_state r)"
proof
  fix k
  have "find P (rows @ [r]) = (case find P rows of None \<Rightarrow> (if P r then Some r else None) | Some x \<Rightarrow> Some x)" for P
    by (induction rows) auto
  then show "rows_view (rows @ [r]) k = ((rows_view rows)(row_key r := row_state r)) k"
    using assms find_key_None [of row_key k rows] by (auto simp: rows_view_def split: option.split)
qed

lemma select_by_file_path_eq:
  "select_by_file_path rows project f = find (\<lambda>r. row_key r = (project, f)) rows"
  by (simp add: select_by_file_path_def)

lemma select_item_found: "r \<in> set table \<Longrightarrow> row_id r = i \<Longrightarrow> \<exists>item. select_item_by_id table i = Inr item"
  using find_key_None [of row_id i table]
  by (cases "find (\<lambda>r. row_id r = i) table") (auto simp: select_item_by_id_def)

lemma reenqueued_view:
  fixes now :: nat and src :: ustr
  assumes "queue_ok db" "x \<in> set (queue_rows db)" "queue_state x \<noteq> Pending" "lease_event_id x \<noteq> Some event"
  defines "table \<equiv> fst (sql_update (\<lambda>r. row_id r = row_id x) (reenqueued_row event now src x) (queue_rows db))"
  shows "rows_view table = (queue_abs db)(row_key x := spec_touch (row_state x))"
    and "queue_ok (db\<lparr>queue_rows := table\<rparr>)"
    and "\<exists>item. select_item_by_id table (row_id x) = Inr item"
proof -
  have ids: "distinct (map row_id (queue_rows db))" and keys: "distinct (map row_key (queue_rows db))"
    using assms(1) by (simp_all add: queue_ok_def)
  have table: "table = map (\<lambda>r. if row_id r = row_id x then reenqueued_row event now src x r else r) (queue_rows db)"
    by (simp add: table_def sql_update_def)
  have same: "row_id r = row_id x \<longleftrightarrow> r = x" "row_key r = row_key x \<longleftrightarrow> r = x" if "r \<in> set (queue_rows db)" for r
    using distinct_key_eq [OF ids assms(2) that] distinct_key_eq [OF keys assms(2) that] by simp_all
  have "rows_view table = (\<lambda>k. (\<lambda>k st. if k = row_key x then spec_touch (row_state x) else st) k (rows_view (queue_rows db) k))"
    unfolding table
  proof (rule rows_view_map [OF keys])
    show "row_state (if row_id r = row_id x then reenqueued_row event now src x r else r) =
        (if row_key r = row_key x then spec_touch (row_state x) else row_state r)" if "r \<in> set (queue_rows db)" for r
      unfolding same(2) [OF that] using same(1) [OF that] assms(3,4)
      by (cases "queue_state x") (auto simp: row_state_def reenqueued_row_def)
  qed (use assms(2) in \<open>auto simp: reenqueued_row_def\<close>)
  then show "rows_view table = (queue_abs db)(row_key x := spec_touch (row_state x))"
    by (auto simp: queue_abs_def fun_eq_iff)
  show "queue_ok (db\<lparr>queue_rows := table\<rparr>)"
    unfolding table by (rule queue_ok_map [OF assms(1)]) (simp_all add: reenqueued_row_def)
  show "\<exists>item. select_item_by_id table (row_id x) = Inr item"
  proof (rule select_item_found)
    show "reenqueued_row event now src x x \<in> set table" unfolding table using assms(2) by auto
  qed (simp add: reenqueued_row_def)
qed

lemma enqueue_refines:
  assumes "queue_ok db" "validate_enqueue_file_path F raw = Inr f" "validate_source source = Inr src"
    "list_all (\<lambda>r. lease_event_id r \<noteq> Some event) (queue_rows db)"
  shows "\<exists>db' r. enqueue F now event project raw source db = Inr (db', r) \<and> queue_ok db' \<and>
    queue_abs db' = (queue_abs db)((project, f) := spec_touch (queue_abs db (project, f)))"
proof (cases rule: rows_view_cases [of "queue_rows db" "(project, f)"])
  case (1 x)
  have keys: "distinct (map row_key (queue_rows db))" using assms(1) by (simp add: queue_ok_def)
  have sel: "select_by_file_path (queue_rows db) project f = Some x"
    using 1 unfolding select_by_file_path_eq by (subst find_key [OF keys]) simp
  show ?thesis
  proof (cases "queue_state x = Pending")
    case True
    have "\<exists>item. select_item_by_id (queue_rows db) (row_id x) = Inr item"
      using 1(1) select_item_found by blast
    moreover have "queue_abs db = (queue_abs db)((project, f) := spec_touch (queue_abs db (project, f)))"
      using True 1 by (simp add: queue_abs_def row_state_def fun_upd_idem)
    ultimately show ?thesis using assms sel True by (auto simp: enqueue_def)
  next
    case False
    have "lease_event_id x \<noteq> Some event" using assms(4) 1(1) by (auto simp: list_all_iff)
    note re = reenqueued_view [OF assms(1) 1(1) False this, of now src]
    show ?thesis using assms(2,3) sel False re 1(2,3) by (auto simp: enqueue_def Let_def queue_abs_def)
  qed
next
  case 2
  let ?r = "inserted_row (next_row_id db) event project now src f"
  have sel: "select_by_file_path (queue_rows db) project f = None"
    unfolding select_by_file_path_eq using 2(1) by (subst find_key_None)
  have "\<exists>item. select_item_by_id (queue_rows db @ [?r]) (next_row_id db) = Inr item"
    by (rule select_item_found [of ?r]) (simp_all add: inserted_row_def)
  moreover have "queue_abs (db\<lparr>queue_rows := queue_rows db @ [?r], next_row_id := next_row_id db + 1\<rparr>) =
      (queue_abs db)((project, f) := spec_touch (queue_abs db (project, f)))"
    using 2 rows_view_snoc [of "queue_rows db" ?r] by (simp add: queue_abs_def inserted_row_def row_state_def)
  moreover have "queue_ok (db\<lparr>queue_rows := queue_rows db @ [?r], next_row_id := next_row_id db + 1\<rparr>)"
    using assms(1) 2(1) by (auto simp: queue_ok_def list_all_iff inserted_row_def)
  ultimately show ?thesis using assms(2,3) sel by (auto simp: enqueue_def Let_def)
qed

lemma run_cmd_refines:
  assumes "queue_ok db" "event_fresh c db"
  shows "map_option queue_abs (run_cmd now c db) = spec_cmd now c (queue_abs db) \<and>
    (\<forall>db'. run_cmd now c db = Some db' \<longrightarrow> queue_ok db')"
proof (cases c)
  case (Cmd_Enqueue F event project path source)
  have fresh: "list_all (\<lambda>r. lease_event_id r \<noteq> Some event) (queue_rows db)"
    using assms(2) by (simp add: event_fresh_def Cmd_Enqueue)
  show ?thesis
  proof (cases "\<exists>f src. validate_enqueue_file_path F path = Inr f \<and> validate_source source = Inr src")
    case True
    then obtain f src where v: "validate_enqueue_file_path F path = Inr f" "validate_source source = Inr src" by blast
    from enqueue_refines [OF assms(1) v fresh] obtain db' r where
      "enqueue F now event project path source db = Inr (db', r)" "queue_ok db'"
      "queue_abs db' = (queue_abs db)((project, f) := spec_touch (queue_abs db (project, f)))" by blast
    then show ?thesis using v by (simp add: Cmd_Enqueue)
  next
    case False
    then show ?thesis
      by (cases "validate_enqueue_file_path F path"; cases "validate_source source") (auto simp: Cmd_Enqueue enqueue_def)
  qed
next
  case (Cmd_Lease owner project run seconds)
  show ?thesis
  proof (cases "\<exists>r s. validate_optional_run_id run = Inr r \<and> normalize_lease_seconds seconds = Inr s")
    case True
    then obtain r s where v: "validate_optional_run_id run = Inr r" "normalize_lease_seconds seconds = Inr s" by blast
    from lease_refines [OF assms(1) v] obtain db' res where
      "lease now owner project run seconds db = Inr (db', res)" "queue_ok db'"
      "queue_abs db' = spec_lease now owner project r (now + nat s) (queue_abs db)" by blast
    then show ?thesis using v by (simp add: Cmd_Lease)
  next
    case False
    then show ?thesis
      by (cases "validate_optional_run_id run"; cases "normalize_lease_seconds seconds") (auto simp: Cmd_Lease lease_def)
  qed
next
  case (Cmd_Complete project owner run files)
  then show ?thesis
    using cf.finalize_refines [OF assms(1)]
    by (cases "validate_lease_owner owner"; cases "validate_optional_run_id run";
        cases "validate_optional_expected_files files") (simp_all add: complete_def)
next
  case (Cmd_Requeue project owner run files msg)
  then show ?thesis
    using rf.finalize_refines [OF assms(1)]
    by (cases "validate_lease_owner owner"; cases "validate_optional_run_id run";
        cases "validate_optional_expected_files files"; cases "validate_optional_error_message msg")
      (simp_all add: requeue_def)
qed

end
