(* ===== verification/Review_Trace.thy ===== *)
theory Review_Trace
  imports Review_Spec
begin

text \<open>
  What the review queue promises to its users: it refines the abstract queue, no change is forgotten on
  any sequence of operations, and the export that gates a release lists exactly the files under review.
\<close>

section \<open>Definitions\<close>

definition queue_next :: "nat \<times> queue_cmd \<Rightarrow> review_db \<Rightarrow> review_db option" where
  "queue_next e db = (if event_fresh (snd e) db then run_cmd (fst e) (snd e) db else None)"

text \<open>The committed operations; one that fails leaves the table as it was.\<close>

inductive queue_step :: "nat \<times> queue_cmd \<Rightarrow> review_db \<Rightarrow> review_db \<Rightarrow> bool" where
  committed_step: "event_fresh c db \<Longrightarrow> run_cmd now c db = Some db' \<Longrightarrow> queue_step (now, c) db db'"

fun reports_change :: "nat \<times> queue_cmd \<Rightarrow> ustr \<Rightarrow> ustr \<Rightarrow> bool" where
  "reports_change (now, Cmd_Enqueue F event project path source) p f \<longleftrightarrow>
     project = p \<and> validate_enqueue_file_path F path = Inr f"
| "reports_change _ p f \<longleftrightarrow> False"

fun takes_lease :: "nat \<times> queue_cmd \<Rightarrow> ustr \<Rightarrow> ustr \<Rightarrow> bool" where
  "takes_lease (now, Cmd_Lease owner project run seconds) p ow \<longleftrightarrow> project = p \<and> owner = ow"
| "takes_lease _ p ow \<longleftrightarrow> False"

fun completes_file :: "nat \<times> queue_cmd \<Rightarrow> ustr \<Rightarrow> ustr \<Rightarrow> ustr \<Rightarrow> bool" where
  "completes_file (now, Cmd_Complete project owner run files) p f ow \<longleftrightarrow>
     project = p \<and> validate_lease_owner owner = Inr ow \<and>
     (case validate_optional_expected_files files of Inr (Some fs) \<Rightarrow> f \<in> set fs | Inr None \<Rightarrow> True | Inl _ \<Rightarrow> False)"
| "completes_file _ p f ow \<longleftrightarrow> False"

definition leased_since :: "(nat \<times> queue_cmd) list \<Rightarrow> nat \<Rightarrow> ustr \<Rightarrow> ustr \<Rightarrow> bool" where
  "leased_since es i p ow \<longleftrightarrow> (\<exists>j. i < j \<and> j < length es \<and> takes_lease (es ! j) p ow)"

definition reviewed_since :: "(nat \<times> queue_cmd) list \<Rightarrow> nat \<Rightarrow> ustr \<Rightarrow> ustr \<Rightarrow> bool" where
  "reviewed_since es i p f \<longleftrightarrow>
     (\<exists>j k ow. i < j \<and> j < k \<and> k < length es \<and> takes_lease (es ! j) p ow \<and> completes_file (es ! k) p f ow)"

definition change_kept :: "(nat \<times> queue_cmd) list \<Rightarrow> review_db \<Rightarrow> bool" where
  "change_kept es db \<longleftrightarrow> queue_ok db \<and>
     (\<forall>p f i. i < length es \<and> reports_change (es ! i) p f \<longrightarrow>
        (case queue_abs db (p, f) of
           F_Idle \<Rightarrow> reviewed_since es i p f
         | F_Pending \<Rightarrow> True
         | F_Leased ow run e d \<Rightarrow> d \<or> (\<exists>o'. ow = Some o' \<and> leased_since es i p o')))"

definition plain_repo :: repo_world where
  "plain_repo = \<lparr>root_state = Inr True, kind_at = (\<lambda>_. Other_File)\<rparr>"

definition empty_queue :: review_db where
  "empty_queue = \<lparr>queue_rows = [], next_row_id = 1\<rparr>"

definition sample_run :: "(nat \<times> queue_cmd) list" where
  "sample_run =
     [(10, Cmd_Enqueue plain_repo (lit ''e1'') (lit ''p'') (lit ''./a//b'') (lit ''hook'')),
      (11, Cmd_Lease (lit ''o1'') (lit ''p'') None (Some 5)),
      (12, Cmd_Complete (lit ''p'') (lit ''o1'') None (Some [lit ''a/b'']))]"

section \<open>Lemmas\<close>

interpretation qd: deterministic queue_step queue_next
  by unfold_locales (auto simp: queue_next_def split: if_splits elim: queue_step.cases intro: committed_step)

lemma spec_done_cases: "spec_done st = F_Idle \<longleftrightarrow> st = F_Idle \<or> (\<exists>ow run e. st = F_Leased ow run e False)"
  "spec_done st = F_Leased ow run e d \<longleftrightarrow> False"
  by (cases st; simp)+

lemma spec_touch_cases: "spec_touch st \<noteq> F_Idle" "spec_touch st \<noteq> F_Leased ow run e False"
  by (cases st; simp)+

lemma spec_selected_held:
  "spec_selected v project owner run expected = Some S \<Longrightarrow> f \<in> S \<Longrightarrow>
   spec_held owner (v (project, f)) \<and> (case expected of Some fs \<Rightarrow> f \<in> set fs | None \<Rightarrow> True)"
  by (auto simp: spec_selected_def Let_def split: option.splits if_splits)

lemma spec_held_leased: "spec_held owner st \<longleftrightarrow> (\<exists>run e d. st = F_Leased (Some owner) run e d)"
  by (cases st) auto

lemma step_to_idle:
  assumes "spec_cmd now c v = Some v'" "v' (p, f) = F_Idle"
  shows "\<not> reports_change (now, c) p f \<and>
    (v (p, f) = F_Idle \<or> (\<exists>ow run e. v (p, f) = F_Leased (Some ow) run e False \<and> completes_file (now, c) p f ow))"
proof (cases c)
  case (Cmd_Enqueue F event project path source)
  then show ?thesis using assms spec_touch_cases(1) by (auto split: sum.splits if_splits)
next
  case (Cmd_Lease owner project run seconds)
  then show ?thesis using assms by (auto simp: spec_lease_def split: sum.splits if_splits)
next
  case (Cmd_Complete project owner run files)
  with assms(1) obtain ow r fs S where v: "validate_lease_owner owner = Inr ow" "validate_optional_expected_files files = Inr fs"
      "spec_selected v project ow r fs = Some S" "v' = spec_finish spec_done project S v"
    by (auto split: sum.splits)
  show ?thesis
  proof (cases "project = p \<and> f \<in> S")
    case True
    with spec_selected_held [OF v(3), of f] obtain run e d where
      "v (p, f) = F_Leased (Some ow) run e d" "case fs of Some fs \<Rightarrow> f \<in> set fs | None \<Rightarrow> True"
      by (auto simp: spec_held_leased)
    then show ?thesis using v assms(2) True Cmd_Complete
      by (auto simp: spec_finish_def split: if_splits option.splits)
  next
    case False
    then show ?thesis using v(4) assms(2) Cmd_Complete by (auto simp: spec_finish_def)
  qed
next
  case (Cmd_Requeue project owner run files msg)
  then show ?thesis using assms by (auto simp: spec_finish_def split: sum.splits if_splits)
qed

lemma step_to_clean:
  assumes "spec_cmd now c v = Some v'" "v' (p, f) = F_Leased ow run e False"
  shows "\<not> reports_change (now, c) p f \<and>
    (v (p, f) = F_Leased ow run e False \<or> (\<exists>o'. ow = Some o' \<and> takes_lease (now, c) p o'))"
proof (cases c)
  case (Cmd_Enqueue F event project path source)
  then show ?thesis using assms spec_touch_cases(2) by (auto split: sum.splits if_splits)
next
  case (Cmd_Lease owner project run seconds)
  then show ?thesis using assms by (auto simp: spec_lease_def split: sum.splits if_splits)
next
  case (Cmd_Complete project owner run files)
  then show ?thesis using assms by (auto simp: spec_finish_def spec_done_cases split: sum.splits if_splits)
next
  case (Cmd_Requeue project owner run files msg)
  then show ?thesis using assms by (auto simp: spec_finish_def split: sum.splits if_splits)
qed

lemma since_snoc:
  "i < length es \<Longrightarrow> leased_since es i p ow \<Longrightarrow> leased_since (es @ [e]) i p ow"
  "i < length es \<Longrightarrow> reviewed_since es i p f \<Longrightarrow> reviewed_since (es @ [e]) i p f"
  "i < length es \<Longrightarrow> takes_lease e p ow \<Longrightarrow> leased_since (es @ [e]) i p ow"
  "leased_since es i p ow \<Longrightarrow> completes_file e p f ow \<Longrightarrow> reviewed_since (es @ [e]) i p f"
proof -
  show "leased_since (es @ [e]) i p ow" if "leased_since es i p ow"
    using that by (auto simp: leased_since_def nth_append)
  show "leased_since (es @ [e]) i p ow" if "i < length es" "takes_lease e p ow"
    using that by (auto simp: leased_since_def nth_append intro!: exI [of _ "length es"])
  show "reviewed_since (es @ [e]) i p f" if "reviewed_since es i p f"
  proof -
    from that obtain j k ow where "i < j" "j < k" "k < length es" "takes_lease (es ! j) p ow" "completes_file (es ! k) p f ow"
      by (auto simp: reviewed_since_def)
    then show ?thesis unfolding reviewed_since_def by (intro exI [of _ j] exI [of _ k] exI [of _ ow]) (auto simp: nth_append)
  qed
  show "reviewed_since (es @ [e]) i p f" if "leased_since es i p ow" "completes_file e p f ow"
  proof -
    from that(1) obtain j where "i < j" "j < length es" "takes_lease (es ! j) p ow" by (auto simp: leased_since_def)
    then show ?thesis unfolding reviewed_since_def
      using that(2) by (intro exI [of _ j] exI [of _ "length es"] exI [of _ ow]) (auto simp: nth_append)
  qed
qed

lemma change_kept_step:
  assumes "queue_step e db db'" "change_kept es db"
  shows "change_kept (es @ [e]) db'"
proof -
  from assms(1) obtain now c where e: "e = (now, c)" and fresh: "event_fresh c db" and run: "run_cmd now c db = Some db'"
    by cases
  have ok: "queue_ok db" using assms(2) by (simp add: change_kept_def)
  have spec: "spec_cmd now c (queue_abs db) = Some (queue_abs db')" and ok': "queue_ok db'"
    using run_cmd_refines [OF ok fresh, of now] run by simp_all
  have "case queue_abs db' (p, f) of F_Idle \<Rightarrow> reviewed_since (es @ [e]) i p f | F_Pending \<Rightarrow> True
      | F_Leased ow run ex d \<Rightarrow> d \<or> (\<exists>o'. ow = Some o' \<and> leased_since (es @ [e]) i p o')"
    if i: "i < length (es @ [e])" "reports_change ((es @ [e]) ! i) p f" for p f i
  proof (cases "queue_abs db' (p, f)")
    case F_Idle
    with step_to_idle [OF spec] have now: "\<not> reports_change e p f" and
      before: "queue_abs db (p, f) = F_Idle \<or>
        (\<exists>ow run x. queue_abs db (p, f) = F_Leased (Some ow) run x False \<and> completes_file e p f ow)" by (simp_all add: e)
    from now i have "i < length es" "reports_change (es ! i) p f" by (auto simp: nth_append less_Suc_eq)
    with assms(2) before show ?thesis
      by (force simp: F_Idle change_kept_def intro: since_snoc)
  next
    case (F_Leased ow run ex d)
    show ?thesis
    proof (cases d)
      case False
      with F_Leased step_to_clean [OF spec] have now: "\<not> reports_change e p f" and
        before: "queue_abs db (p, f) = F_Leased ow run ex False \<or> (\<exists>o'. ow = Some o' \<and> takes_lease e p o')" by (simp_all add: e)
      from now i have "i < length es" "reports_change (es ! i) p f" by (auto simp: nth_append less_Suc_eq)
      with assms(2) before show ?thesis
        by (force simp: F_Leased change_kept_def intro: since_snoc)
    qed (simp add: F_Leased)
  qed simp
  with ok' show ?thesis by (auto simp: change_kept_def)
qed

interpretation ck: history_invariant queue_step change_kept
  by unfold_locales (rule change_kept_step)

lemma row_state_cases:
  "row_state r = F_Idle \<longleftrightarrow> queue_state r = Done" "row_state r = F_Pending \<longleftrightarrow> queue_state r = Pending"
  by (cases "queue_state r"; simp add: row_state_def)+

lemma queue_status_busy: "st \<in> {Pending, Leased} \<longleftrightarrow> st \<noteq> Done"
  by (cases st) auto

lemma export_rows:
  "set (select_export_rows rows p) = {r \<in> set rows. project_id r = p \<and> row_state r \<noteq> F_Idle}"
  unfolding select_export_rows_def row_state_cases queue_status_busy by auto

lemma busy_files:
  "distinct (map row_key rows) \<Longrightarrow> {f. rows_view rows (p, f) \<noteq> F_Idle} = file_path ` set (select_export_rows rows p)"
  unfolding export_rows by (rule view_files) simp_all

lemma pending_files:
  assumes "distinct (map row_key rows)"
  shows "length (filter (\<lambda>r. queue_state r = Pending) (select_export_rows rows p)) = card {f. rows_view rows (p, f) = F_Pending}"
proof -
  have d: "distinct (map file_path (filter (\<lambda>r. queue_state r = Pending) (select_export_rows rows p)))"
    unfolding select_export_rows_def by (rule distinct_map_filter) (rule selected_distinct [OF assms])
  have "{f. rows_view rows (p, f) = F_Pending} = file_path ` {r \<in> set rows. project_id r = p \<and> row_state r = F_Pending}"
    by (rule view_files [OF assms]) simp
  also have "\<dots> = set (map file_path (filter (\<lambda>r. queue_state r = Pending) (select_export_rows rows p)))"
    by (auto simp: export_rows row_state_cases)
  finally show ?thesis using distinct_card [OF d] by simp
qed

section \<open>Properties\<close>

text \<open>
  C22. The review queue refines its abstract specification. On a well-formed table every operation (enqueue,
  lease, complete, requeue, with their argument checks) commits exactly when the specification allows it,
  the committed table stands for the state the specification gives, and it is well-formed again; a fresh
  event identifier is all that is assumed.
\<close>

theorem queue_refines:
  assumes "queue_ok db" "event_fresh c db"
  shows "map_option queue_abs (run_cmd now c db) = spec_cmd now c (queue_abs db) \<and>
    list_all queue_ok (case run_cmd now c db of None \<Rightarrow> [] | Some db' \<Rightarrow> [db'])"
  using run_cmd_refines [OF assms, of now] by (auto split: option.split)

theorem queue_refines_witness:
  "map_option queue_abs (run_cmd 10 (snd (sample_run ! 0)) empty_queue) = spec_cmd 10 (snd (sample_run ! 0)) (queue_abs empty_queue) \<and>
   spec_cmd 10 (snd (sample_run ! 0)) (queue_abs empty_queue) \<noteq> None"
proof -
  have ok: "queue_ok empty_queue" "event_fresh (snd (sample_run ! 0)) empty_queue"
    "run_cmd 10 (snd (sample_run ! 0)) empty_queue \<noteq> None" by code_simp+
  from queue_refines [OF ok(1,2), of 10] ok(3) show ?thesis
    by (metis (no_types, lifting) option.map_disc_iff)
qed

text \<open>
  C23. No change is forgotten. Whatever operations commit, in any order and with any clock readings, a file
  reported as changed is not idle again until a lease taken after the report was completed by its owner
  for that file.
\<close>

theorem no_change_lost:
  assumes "trace queue_step db0 es db" "queue_ok db0" "i < length es" "reports_change (es ! i) p f"
    "queue_abs db (p, f) = F_Idle"
  shows "\<exists>j k ow. i < j \<and> j < k \<and> k < length es \<and> takes_lease (es ! j) p ow \<and> completes_file (es ! k) p f ow"
proof -
  have "change_kept [] db0" using assms(2) by (simp add: change_kept_def)
  from ck.history_keeps [OF assms(1) this] assms(3-5) show ?thesis
    by (force simp: change_kept_def reviewed_since_def)
qed

theorem no_change_lost_witness:
  "(case run_labels queue_next sample_run empty_queue of
      None \<Rightarrow> False
    | Some db \<Rightarrow> trace queue_step empty_queue sample_run db \<and> queue_abs db (lit ''p'', lit ''a/b'') = F_Idle) \<and>
   (\<exists>j k ow. 0 < j \<and> j < k \<and> k < length sample_run \<and> takes_lease (sample_run ! j) (lit ''p'') ow \<and>
      completes_file (sample_run ! k) (lit ''p'') (lit ''a/b'') ow)"
proof -
  obtain db where db: "run_labels queue_next sample_run empty_queue = Some db" "queue_abs db (lit ''p'', lit ''a/b'') = F_Idle"
  proof -
    have "case run_labels queue_next sample_run empty_queue of None \<Rightarrow> False
      | Some db \<Rightarrow> queue_abs db (lit ''p'', lit ''a/b'') = F_Idle" by code_simp
    then show ?thesis using that by (auto split: option.splits)
  qed
  have "queue_ok empty_queue" "0 < length sample_run" "reports_change (sample_run ! 0) (lit ''p'') (lit ''a/b'')"
    by code_simp+
  from no_change_lost [OF _ this db(2)] db show ?thesis by (simp add: qd.trace_run)
qed

text \<open>
  The export lists exactly the files of the project that are pending or leased, each once and in the
  order of their first report, with the right counts, and the review flag is raised exactly when there is
  one.
\<close>

lemma export_exact:
  assumes "queue_ok db"
  shows "set (changed_files (export_json now p db)) = {f. queue_abs db (p, f) \<noteq> F_Idle} \<and>
    distinct (changed_files (export_json now p db)) \<and>
    sorted (map item_first_enqueued_at (export_items (export_json now p db))) \<and>
    (pending_review (export_json now p db) \<longleftrightarrow> (\<exists>f. queue_abs db (p, f) \<noteq> F_Idle)) \<and>
    pending_count (export_json now p db) = card {f. queue_abs db (p, f) = F_Pending} \<and>
    pending_count (export_json now p db) + export_leased_count (export_json now p db) =
      length (changed_files (export_json now p db))"
proof -
  have keys: "distinct (map row_key (queue_rows db))" using assms by (simp add: queue_ok_def)
  let ?rs = "select_export_rows (queue_rows db) p"
  have files: "changed_files (export_json now p db) = map file_path ?rs"
    by (simp add: export_json_def Let_def map_queue_row_def)
  have "set (map file_path ?rs) = {f. queue_abs db (p, f) \<noteq> F_Idle}"
    using busy_files [OF keys, of p] by (simp add: queue_abs_def)
  moreover have "distinct (map file_path ?rs)"
    unfolding select_export_rows_def by (rule selected_distinct [OF keys])
  moreover have "sorted (map item_first_enqueued_at (export_items (export_json now p db)))"
  proof -
    have "sorted (map (\<lambda>r. (first_enqueued_at r, row_id r)) ?rs)"
      by (simp add: select_export_rows_def order_by_first_def)
    then have "sorted (map first_enqueued_at ?rs)"
      by (simp add: sorted_map, elim sorted_wrt_mono_rel [rotated]) (auto simp: less_eq_prod_def)
    then show ?thesis by (simp add: export_json_def Let_def map_queue_row_def comp_def)
  qed
  moreover have "pending_review (export_json now p db) \<longleftrightarrow> ?rs \<noteq> []"
    by (simp add: export_json_def Let_def)
  moreover have "pending_count (export_json now p db) = card {f. queue_abs db (p, f) = F_Pending}"
    using pending_files [OF keys, of p]
    by (simp add: export_json_def Let_def queue_abs_def filter_map comp_def map_queue_row_def)
  moreover have "pending_count (export_json now p db) + export_leased_count (export_json now p db) = length ?rs"
  proof -
    have "filter (\<lambda>r. queue_state r = Leased) ?rs = filter (\<lambda>r. queue_state r \<noteq> Pending) ?rs"
      by (rule filter_cong) (auto simp: select_export_rows_def)
    then show ?thesis using sum_length_filter_compl [of "\<lambda>r. queue_state r = Pending" ?rs]
      by (simp add: export_json_def Let_def filter_map comp_def map_queue_row_def)
  qed
  ultimately show ?thesis unfolding files by (metis (mono_tags, lifting) Collect_empty_eq length_map list.map_disc_iff set_empty)
qed

end
