(* ===== verification/Review_Runs.thy ===== *)
theory Review_Runs
  imports Review_Paths Json_Value
begin

text \<open>
  Records of finished review runs (second half of \<^verbatim>\<open>harness-rust/crates/semantic-mcp/src/review_queue.rs\<close>): reading the
  JSON input, and recording a run once.

  The table \<^verbatim>\<open>review_runs\<close> is a list of rows, unique in project and run as its schema demands. JSON text
  (\<open>enc\<close>, \<open>dec\<close>) and the SHA-256 digest in hexadecimal (\<open>sha\<close>) are parameters; times are seconds.
\<close>

section \<open>Definitions\<close>

datatype run_error =
    NotAnObject | InputNotAnObject | NotAString ustr | MustNotBeEmpty ustr | IsRequired ustr
  | BadIdentifier ustr | BadStatus | BadIteration | NotAnArray ustr | FieldNotAnObject ustr
  | BadReportHash | NeedsReport | HashMismatch | DifferentPayload ustr | RunNotFound

record ReviewRunRecordInput =
  in_run_id :: ustr
  in_phase :: ustr
  in_iteration :: int
  in_kind :: ustr
  in_status :: ustr
  in_queued_files :: "ustr list"
  in_summary :: "ustr option"
  in_blocker_summary :: "ustr option"
  in_report_body :: "ustr option"
  in_report_hash :: "ustr option"
  in_findings :: "json list"
  in_consumer :: "ustr option"
  in_reviewer :: "ustr option"
  in_error_message :: "ustr option"
  in_metadata :: json

record run_row =
  run_project :: ustr
  run_run_id :: ustr
  run_phase :: "ustr option"
  run_iteration :: "int option"
  run_kind :: "ustr option"
  run_status :: ustr
  run_consumer :: "ustr option"
  run_reviewer :: "ustr option"
  run_file_count :: int
  run_files_json :: ustr
  run_findings_json :: ustr
  run_summary :: "ustr option"
  run_result_summary :: "ustr option"
  run_blocker_summary :: "ustr option"
  run_report_body :: "ustr option"
  run_report_hash :: "ustr option"
  run_error_message :: "ustr option"
  run_metadata_json :: ustr
  run_started_at :: nat
  run_completed_at :: "nat option"
  run_created_at :: nat
  run_updated_at :: nat

record ReviewRunRecordResult =
  res_project :: ustr
  res_run_id :: ustr
  res_phase :: ustr
  res_iteration :: int
  res_kind :: ustr
  res_status :: ustr
  res_queued_file_count :: int
  res_report_hash :: ustr
  res_created_at :: nat

record run_codec =
  enc :: "json \<Rightarrow> ustr"
  dec :: "ustr \<Rightarrow> json option"
  sha :: "ustr \<Rightarrow> ustr"

subsection \<open>Stable JSON text\<close>

function (sequential) normalize_json_value :: "json \<Rightarrow> json"
  and normalize_json_list :: "json list \<Rightarrow> json list"
  and normalize_json_fields :: "(ustr \<times> json) list \<Rightarrow> (ustr \<times> json) list" where
  "normalize_json_value (JObj fs) = JObj (bt_of (sort_key fst (normalize_json_fields fs)))"
| "normalize_json_value (JArr vs) = JArr (normalize_json_list vs)"
| "normalize_json_value v = v"
| "normalize_json_list [] = []"
| "normalize_json_list (v # vs) = normalize_json_value v # normalize_json_list vs"
| "normalize_json_fields [] = []"
| "normalize_json_fields ((k, v) # fs) = (k, normalize_json_value v) # normalize_json_fields fs"
  by pat_completeness auto
termination
  by (relation "measure json_measure") auto

definition stable_stringify :: "run_codec \<Rightarrow> json \<Rightarrow> ustr" where
  "stable_stringify J v = enc J (normalize_json_value v)"

definition normalized_json_string :: "run_codec \<Rightarrow> ustr \<Rightarrow> ustr" where
  "normalized_json_string J raw = (case dec J raw of Some v \<Rightarrow> stable_stringify J v | None \<Rightarrow> raw)"

subsection \<open>Reading the input\<close>

definition unwrap_review_run_input :: "json \<Rightarrow> run_error + (ustr \<times> json) list" where
  "unwrap_review_run_input raw =
     (case raw of
        JObj fs \<Rightarrow>
          (case map_of fs (lit ''input'') of
             Some (JObj inner) \<Rightarrow> Inr inner
           | Some _ \<Rightarrow> Inl InputNotAnObject
           | None \<Rightarrow> Inr fs)
      | _ \<Rightarrow> Inl NotAnObject)"

definition read_optional_string :: "json option \<Rightarrow> ustr \<Rightarrow> run_error + ustr option" where
  "read_optional_string v field =
     (case v of
        None \<Rightarrow> Inr None
      | Some (JStr s) \<Rightarrow>
          let normalized = trim s in if normalized = [] then Inl (MustNotBeEmpty field) else Inr (Some normalized)
      | Some _ \<Rightarrow> Inl (NotAString field))"

definition read_identifier :: "(ustr \<times> json) list \<Rightarrow> ustr \<Rightarrow> run_error + ustr" where
  "read_identifier obj field =
     and_then (read_optional_string (map_of obj field) field) (\<lambda>value.
     case value of
       None \<Rightarrow> Inl (IsRequired field)
     | Some s \<Rightarrow> if blen s > RUN_ID_MAX_LEN \<or> \<not> list_all run_id_char s then Inl (BadIdentifier field) else Inr s)"

definition read_status :: "json option \<Rightarrow> run_error + ustr" where
  "read_status v =
     and_then (read_optional_string v (lit ''status'')) (\<lambda>value.
     case value of
       None \<Rightarrow> Inl (IsRequired (lit ''status''))
     | Some s \<Rightarrow> if s = lit ''completed'' \<or> s = lit ''failed'' then Inr s else Inl BadStatus)"

definition as_i64 :: "json \<Rightarrow> int option" where
  "as_i64 v =
     (case v of
        JNumber (PosInt n) \<Rightarrow> if int n < 2 ^ 63 then Some (int n) else None
      | JNumber (NegInt i) \<Rightarrow> Some i
      | _ \<Rightarrow> None)"

definition read_iteration :: "json option \<Rightarrow> run_error + int" where
  "read_iteration v =
     (case Option.bind v as_i64 of
        Some i \<Rightarrow> if 0 \<le> i then Inr i else Inl BadIteration
      | None \<Rightarrow> Inl BadIteration)"

definition entry_field :: "ustr \<Rightarrow> nat \<Rightarrow> ustr" where
  "entry_field field idx = field @ lit ''['' @ digits_of idx @ lit '']''"

fun read_entries :: "ustr \<Rightarrow> nat \<Rightarrow> json list \<Rightarrow> run_error + ustr list" where
  "read_entries field idx [] = Inr []"
| "read_entries field idx (v # vs) =
     and_then (read_optional_string (Some v) (entry_field field idx)) (\<lambda>entry.
     case entry of
       None \<Rightarrow> Inl (MustNotBeEmpty (entry_field field idx))
     | Some s \<Rightarrow> and_then (read_entries field (Suc idx) vs) (\<lambda>ss. Inr (s # ss)))"

definition read_string_array :: "json option \<Rightarrow> ustr \<Rightarrow> run_error + ustr list" where
  "read_string_array v field = (case v of Some (JArr vs) \<Rightarrow> read_entries field 0 vs | _ \<Rightarrow> Inl (NotAnArray field))"

definition read_optional_array :: "json option \<Rightarrow> ustr \<Rightarrow> run_error + json list option" where
  "read_optional_array v field =
     (case v of None \<Rightarrow> Inr None | Some (JArr vs) \<Rightarrow> Inr (Some vs) | Some _ \<Rightarrow> Inl (NotAnArray field))"

definition read_optional_object :: "json option \<Rightarrow> ustr \<Rightarrow> run_error + json option" where
  "read_optional_object v field =
     (case v of None \<Rightarrow> Inr None | Some (JObj fs) \<Rightarrow> Inr (Some (JObj fs)) | Some _ \<Rightarrow> Inl (FieldNotAnObject field))"

definition hex_digit :: "uchar \<Rightarrow> bool" where
  "hex_digit c \<longleftrightarrow> 48 \<le> c \<and> c \<le> 57 \<or> 65 \<le> c \<and> c \<le> 70 \<or> 97 \<le> c \<and> c \<le> 102"

definition read_optional_hash :: "json option \<Rightarrow> run_error + ustr option" where
  "read_optional_hash v =
     and_then (read_optional_string v (lit ''report_hash'')) (\<lambda>value.
     case value of
       None \<Rightarrow> Inr None
     | Some s \<Rightarrow> if blen s \<noteq> 64 \<or> \<not> list_all hex_digit s then Inl BadReportHash else Inr (Some (map ascii_lower s)))"

definition parse_review_run_record_input :: "json \<Rightarrow> run_error + ReviewRunRecordInput" where
  "parse_review_run_record_input raw =
     and_then (unwrap_review_run_input raw) (\<lambda>obj.
     and_then (read_identifier obj (lit ''run_id'')) (\<lambda>run_id.
     and_then (read_identifier obj (lit ''phase'')) (\<lambda>phase.
     and_then (read_identifier obj (lit ''kind'')) (\<lambda>kind.
     and_then (read_status (map_of obj (lit ''status''))) (\<lambda>status.
     and_then (read_iteration (map_of obj (lit ''iteration''))) (\<lambda>iteration.
     and_then (read_string_array (map_of obj (lit ''queued_files'')) (lit ''queued_files'')) (\<lambda>queued_files.
     and_then (read_optional_string (map_of obj (lit ''summary'')) (lit ''summary'')) (\<lambda>summary.
     and_then (read_optional_string (map_of obj (lit ''blocker_summary'')) (lit ''blocker_summary'')) (\<lambda>blocker_summary.
     and_then (read_optional_string (map_of obj (lit ''report_body'')) (lit ''report_body'')) (\<lambda>report_body.
     and_then (read_optional_hash (map_of obj (lit ''report_hash''))) (\<lambda>report_hash.
     if report_body = None \<and> report_hash = None then Inl NeedsReport
     else
     and_then (read_optional_array (map_of obj (lit ''findings'')) (lit ''findings'')) (\<lambda>findings.
     and_then (read_optional_string (map_of obj (lit ''consumer'')) (lit ''consumer'')) (\<lambda>consumer.
     and_then (read_optional_string (map_of obj (lit ''reviewer'')) (lit ''reviewer'')) (\<lambda>reviewer.
     and_then (read_optional_string (map_of obj (lit ''error_message'')) (lit ''error_message'')) (\<lambda>error_message.
     and_then (read_optional_object (map_of obj (lit ''metadata'')) (lit ''metadata'')) (\<lambda>metadata.
     Inr \<lparr>in_run_id = run_id, in_phase = phase, in_iteration = iteration, in_kind = kind, in_status = status,
          in_queued_files = queued_files, in_summary = summary, in_blocker_summary = blocker_summary,
          in_report_body = report_body, in_report_hash = report_hash,
          in_findings = (case findings of Some l \<Rightarrow> l | None \<Rightarrow> []), in_consumer = consumer,
          in_reviewer = reviewer, in_error_message = error_message,
          in_metadata = (case metadata of Some v \<Rightarrow> v | None \<Rightarrow> JObj [])\<rparr>))))))))))))))))"

definition resolve_report_hash :: "run_codec \<Rightarrow> ReviewRunRecordInput \<Rightarrow> run_error + ustr" where
  "resolve_report_hash J i =
     (case (in_report_body i, in_report_hash i) of
        (Some body, Some h) \<Rightarrow> if sha J body \<noteq> h then Inl HashMismatch else Inr h
      | (Some body, None) \<Rightarrow> Inr (sha J body)
      | (None, Some h) \<Rightarrow> Inr h
      | (None, None) \<Rightarrow> Inl NeedsReport)"

subsection \<open>Stored runs\<close>

definition select_stored_run :: "run_row list \<Rightarrow> ustr \<Rightarrow> ustr \<Rightarrow> run_row option" where
  "select_stored_run rows project run = find (\<lambda>r. run_project r = project \<and> run_run_id r = run) rows"

datatype StoredRunReplay = Exact | UpgradeLegacy

definition stored_summary :: "run_row \<Rightarrow> ustr option" where
  "stored_summary r = (case run_result_summary r of Some s \<Rightarrow> Some s | None \<Rightarrow> run_summary r)"

definition is_sparse_legacy_review_run :: "run_codec \<Rightarrow> run_row \<Rightarrow> bool" where
  "is_sparse_legacy_review_run J r \<longleftrightarrow>
     run_phase r = None \<and> run_iteration r = None \<and> run_kind r = None \<and> run_status r = lit ''started'' \<and>
     run_consumer r = None \<and> run_reviewer r = None \<and> run_file_count r = 0 \<and>
     normalized_json_string J (run_files_json r) = lit ''[]'' \<and>
     normalized_json_string J (run_findings_json r) = lit ''[]'' \<and>
     run_blocker_summary r = None \<and> run_report_body r = None \<and> run_report_hash r = None \<and>
     run_error_message r = None \<and> normalized_json_string J (run_metadata_json r) = lit ''{}''"

definition classify_stored_run_replay ::
  "run_codec \<Rightarrow> run_row \<Rightarrow> ReviewRunRecordInput \<Rightarrow> ustr \<Rightarrow> ustr \<Rightarrow> ustr \<Rightarrow> ustr \<Rightarrow> run_error + StoredRunReplay" where
  "classify_stored_run_replay J r i h files_json findings_json metadata_json =
     (if run_phase r = Some (in_phase i) \<and> run_iteration r = Some (in_iteration i) \<and>
         run_kind r = Some (in_kind i) \<and> run_status r = in_status i \<and> run_consumer r = in_consumer i \<and>
         run_reviewer r = in_reviewer i \<and> run_file_count r = int (length (in_queued_files i)) \<and>
         normalized_json_string J (run_files_json r) = normalized_json_string J files_json \<and>
         normalized_json_string J (run_findings_json r) = normalized_json_string J findings_json \<and>
         stored_summary r = in_summary i \<and> run_blocker_summary r = in_blocker_summary i \<and>
         run_report_body r = in_report_body i \<and> run_report_hash r = Some h \<and>
         run_error_message r = in_error_message i \<and>
         normalized_json_string J (run_metadata_json r) = normalized_json_string J metadata_json
      then Inr Exact
      else if is_sparse_legacy_review_run J r \<and> stored_summary r \<noteq> None \<and> stored_summary r = in_summary i
      then Inr UpgradeLegacy
      else Inl (DifferentPayload (in_run_id i)))"

definition upgraded_row ::
  "nat \<Rightarrow> ReviewRunRecordInput \<Rightarrow> ustr \<Rightarrow> ustr \<Rightarrow> ustr \<Rightarrow> ustr \<Rightarrow> run_row \<Rightarrow> run_row" where
  "upgraded_row now i h files_json findings_json metadata_json r =
     r\<lparr>run_status := in_status i, run_phase := Some (in_phase i), run_iteration := Some (in_iteration i),
       run_kind := Some (in_kind i), run_consumer := in_consumer i, run_reviewer := in_reviewer i,
       run_file_count := int (length (in_queued_files i)), run_files_json := files_json,
       run_findings_json := findings_json, run_summary := None, run_result_summary := in_summary i,
       run_blocker_summary := in_blocker_summary i, run_report_body := in_report_body i,
       run_report_hash := Some h, run_error_message := in_error_message i, run_metadata_json := metadata_json,
       run_completed_at :=
         (if in_status i = lit ''completed'' \<or> in_status i = lit ''failed''
          then (case run_completed_at r of Some t \<Rightarrow> Some t | None \<Rightarrow> Some now) else run_completed_at r),
       run_updated_at := now\<rparr>"

definition upgrade_legacy_review_run ::
  "nat \<Rightarrow> ustr \<Rightarrow> ReviewRunRecordInput \<Rightarrow> ustr \<Rightarrow> ustr \<Rightarrow> ustr \<Rightarrow> ustr \<Rightarrow> run_row list \<Rightarrow> run_row list" where
  "upgrade_legacy_review_run now project i h files_json findings_json metadata_json rows =
     map (\<lambda>r. if run_project r = project \<and> run_run_id r = in_run_id i
              then upgraded_row now i h files_json findings_json metadata_json r else r) rows"

definition to_record_result :: "run_row \<Rightarrow> ReviewRunRecordResult" where
  "to_record_result r =
     \<lparr>res_project = run_project r, res_run_id = run_run_id r,
      res_phase = (case run_phase r of Some s \<Rightarrow> s | None \<Rightarrow> []),
      res_iteration = (case run_iteration r of Some n \<Rightarrow> n | None \<Rightarrow> 0),
      res_kind = (case run_kind r of Some s \<Rightarrow> s | None \<Rightarrow> []), res_status = run_status r,
      res_queued_file_count = run_file_count r,
      res_report_hash = (case run_report_hash r of Some s \<Rightarrow> s | None \<Rightarrow> []), res_created_at = run_created_at r\<rparr>"

definition inserted_run :: "nat \<Rightarrow> ustr \<Rightarrow> ReviewRunRecordInput \<Rightarrow> ustr \<Rightarrow> ustr \<Rightarrow> ustr \<Rightarrow> ustr \<Rightarrow> run_row" where
  "inserted_run now project i h files_json findings_json metadata_json =
     \<lparr>run_project = project, run_run_id = in_run_id i, run_phase = Some (in_phase i),
      run_iteration = Some (in_iteration i), run_kind = Some (in_kind i), run_status = in_status i,
      run_consumer = in_consumer i, run_reviewer = in_reviewer i,
      run_file_count = int (length (in_queued_files i)), run_files_json = files_json,
      run_findings_json = findings_json, run_summary = None, run_result_summary = in_summary i,
      run_blocker_summary = in_blocker_summary i, run_report_body = in_report_body i,
      run_report_hash = Some h, run_error_message = in_error_message i, run_metadata_json = metadata_json,
      run_started_at = now, run_completed_at = Some now, run_created_at = now, run_updated_at = now\<rparr>"

definition record_review_run ::
  "run_codec \<Rightarrow> nat \<Rightarrow> ustr \<Rightarrow> json \<Rightarrow> run_row list \<Rightarrow> run_error + run_row list \<times> ReviewRunRecordResult" where
  "record_review_run J now project raw rows =
     and_then (parse_review_run_record_input raw) (\<lambda>i.
     and_then (resolve_report_hash J i) (\<lambda>h.
     let files_json = enc J (JArr (map JStr (in_queued_files i)));
         findings_json = stable_stringify J (JArr (in_findings i));
         metadata_json = stable_stringify J (in_metadata i) in
     case select_stored_run rows project (in_run_id i) of
       Some existing \<Rightarrow>
         and_then (classify_stored_run_replay J existing i h files_json findings_json metadata_json) (\<lambda>action.
         case action of
           Exact \<Rightarrow> Inr (rows, to_record_result existing)
         | UpgradeLegacy \<Rightarrow>
             let rows' = upgrade_legacy_review_run now project i h files_json findings_json metadata_json rows in
             (case select_stored_run rows' project (in_run_id i) of
                None \<Rightarrow> Inl RunNotFound
              | Some stored \<Rightarrow> Inr (rows', to_record_result stored)))
     | None \<Rightarrow>
         let rows' = rows @ [inserted_run now project i h files_json findings_json metadata_json] in
         (case select_stored_run rows' project (in_run_id i) of
            None \<Rightarrow> Inl RunNotFound
          | Some stored \<Rightarrow> Inr (rows', to_record_result stored))))"

text \<open>Further calls, of which the failing ones change nothing.\<close>

fun record_calls :: "run_codec \<Rightarrow> (nat \<times> ustr \<times> json) list \<Rightarrow> run_row list \<Rightarrow> run_row list" where
  "record_calls J [] rows = rows"
| "record_calls J ((now, project, raw) # cs) rows =
     record_calls J cs (case record_review_run J now project raw rows of Inr (rows', _) \<Rightarrow> rows' | Inl _ \<Rightarrow> rows)"

definition demo_codec :: run_codec where
  "demo_codec =
     \<lparr>enc = (\<lambda>v. case v of JArr [] \<Rightarrow> lit ''[]'' | JObj [] \<Rightarrow> lit ''{}'' | _ \<Rightarrow> lit ''null''),
      dec = (\<lambda>t. if t = lit ''[]'' then Some (JArr []) else if t = lit ''{}'' then Some (JObj []) else None),
      sha = (\<lambda>_. replicate 64 48)\<rparr>"

definition demo_run :: "string \<Rightarrow> json" where
  "demo_run st =
     JObj [(lit ''iteration'', JNumber (PosInt 2)), (lit ''kind'', JStr (lit ''impl'')), (lit ''phase'', JStr (lit ''p1'')),
           (lit ''queued_files'', JArr []), (lit ''report_body'', JStr (lit '' ok '')), (lit ''run_id'', JStr (lit ''r1'')),
           (lit ''status'', JStr (lit st))]"

section \<open>Lemmas\<close>

subsection \<open>Stable text\<close>

lemma bt_insert_last: "(\<And>k'. k' \<in> fst ` set m \<Longrightarrow> k' < k) \<Longrightarrow> bt_insert k v m = m @ [(k, v)]"
proof (induction m)
  case (Cons a m)
  then have "fst a < k" by simp
  then show ?case using Cons by (cases a) (auto simp: less_not_sym)
qed simp

lemma bt_of_ok: "bt_ok m \<Longrightarrow> bt_of m = m"
proof (induction m rule: rev_induct)
  case (snoc kv m)
  then have "bt_ok m" "\<And>k'. k' \<in> fst ` set m \<Longrightarrow> k' < fst kv" by (auto simp: sorted_wrt_append)
  with snoc.IH have "bt_insert (fst kv) (snd kv) (bt_of m) = m @ [kv]" using bt_insert_last [of m "fst kv" "snd kv"] by simp
  then show ?case by (cases kv) (simp add: bt_of_def)
qed (simp add: bt_of_def)

lemma sort_key_ok: "bt_ok m \<Longrightarrow> sort_key fst m = m"
proof (induction m)
  case (Cons a m)
  then show ?case by (cases m) (auto simp: less_imp_le)
qed simp

lemma normalize_fields_keys: "map fst (normalize_json_fields fs) = map fst fs"
  by (induction fs) auto

text \<open>Trees of the standard map type are in normal form already.\<close>

lemma normalize_ok:
  "json_ok v \<Longrightarrow> normalize_json_value v = v"
  "json_ok_list vs \<Longrightarrow> normalize_json_list vs = vs"
  "json_ok_fields fs \<Longrightarrow> normalize_json_fields fs = fs"
  by (induction v and vs and fs rule: json_induct) (simp_all add: sort_key_ok bt_of_ok)

lemma json_ok_list_iff: "json_ok_list vs \<longleftrightarrow> (\<forall>v\<in>set vs. json_ok v)"
  by (induction vs) auto

lemma normalized_text:
  "json_ok v \<Longrightarrow> dec J (enc J v) = Some v \<Longrightarrow>
   stable_stringify J v = enc J v \<and> normalized_json_string J (enc J v) = enc J v"
  by (simp add: stable_stringify_def normalized_json_string_def normalize_ok)

subsection \<open>Reading\<close>

lemma read_optional_string_Inr:
  "read_optional_string v field = Inr x \<Longrightarrow> (v = None \<and> x = None) \<or> (\<exists>s. v = Some (JStr s) \<and> trim s \<noteq> [] \<and> x = Some (trim s))"
  by (auto simp: read_optional_string_def Let_def split: option.splits json.splits if_splits)

lemma read_identifier_Inr:
  "read_identifier obj field = Inr s \<Longrightarrow> s \<noteq> [] \<and> list_all run_id_char s \<and> blen s \<le> RUN_ID_MAX_LEN"
  by (auto simp: read_identifier_def and_then_Inr dest!: read_optional_string_Inr split: option.splits if_splits)

lemma read_status_Inr: "read_status v = Inr s \<Longrightarrow> s = lit ''completed'' \<or> s = lit ''failed''"
  by (auto simp: read_status_def and_then_Inr split: option.splits if_splits)

lemma read_iteration_Inr: "read_iteration v = Inr n \<Longrightarrow> 0 \<le> n"
  by (auto simp: read_iteration_def split: option.splits if_splits)

lemma hex_digit_lower: "hex_digit c \<Longrightarrow> hex_digit (ascii_lower c) \<and> \<not> (65 \<le> ascii_lower c \<and> ascii_lower c \<le> 90)"
  by (auto simp: hex_digit_def ascii_lower_def)

definition sha256_text :: "ustr \<Rightarrow> bool" where
  "sha256_text h \<longleftrightarrow> length h = 64 \<and> list_all (\<lambda>c. hex_digit c \<and> \<not> (65 \<le> c \<and> c \<le> 90)) h"

lemma read_optional_hash_Inr: "read_optional_hash v = Inr (Some h) \<Longrightarrow> sha256_text h"
proof -
  assume "read_optional_hash v = Inr (Some h)"
  then obtain s where s: "blen s = 64" "list_all hex_digit s" "h = map ascii_lower s"
    by (auto simp: read_optional_hash_def and_then_Inr split: option.splits if_splits)
  have "blen s = length s" using s(2) by (intro blen_ascii) (auto simp: list_all_iff hex_digit_def)
  with s show ?thesis using hex_digit_lower by (simp add: sha256_text_def list_all_iff)
qed

lemma dropWhile_keeps_last: "\<not> P c \<Longrightarrow> \<exists>w. dropWhile P (t @ [c]) = w @ [c]"
  by (induction t) auto

lemma trim_idem: "trim (trim s) = trim s"
proof -
  let ?d = "dropWhile white_space"
  have dd: "?d (?d t) = ?d t" for t by (induction t) auto
  have rear: "?d (rev (?d (rev t))) = rev (?d (rev t))" if "?d t = t" for t
  proof (cases t)
    case (Cons c u)
    with that [unfolded dropWhile_eq_self_iff] have nw: "\<not> white_space c" by simp
    then obtain w where "?d (rev u @ [c]) = w @ [c]" using dropWhile_keeps_last [of white_space c "rev u"] by blast
    then show ?thesis using nw by (simp add: Cons)
  qed simp
  have f: "?d (rev (?d (rev (?d s)))) = rev (?d (rev (?d s)))" by (rule rear) (rule dd)
  show ?thesis unfolding trim_def f by (simp add: dd)
qed

lemma read_entries_Inr: "read_entries field idx vs = Inr ss \<Longrightarrow> length ss = length vs \<and> list_all (\<lambda>s. s \<noteq> [] \<and> trim s = s) ss"
  by (induction field idx vs arbitrary: ss rule: read_entries.induct)
    (auto simp: and_then_Inr trim_idem dest!: read_optional_string_Inr split: option.splits)

definition input_ok :: "ReviewRunRecordInput \<Rightarrow> bool" where
  "input_ok i \<longleftrightarrow>
     list_all (\<lambda>s. s \<noteq> [] \<and> list_all run_id_char s \<and> blen s \<le> RUN_ID_MAX_LEN) [in_run_id i, in_phase i, in_kind i] \<and>
     in_status i \<in> {lit ''completed'', lit ''failed''} \<and> 0 \<le> in_iteration i \<and>
     list_all (\<lambda>s. s \<noteq> [] \<and> trim s = s) (in_queued_files i) \<and>
     list_all (\<lambda>t. case t of None \<Rightarrow> True | Some s \<Rightarrow> s \<noteq> [] \<and> trim s = s)
       [in_summary i, in_blocker_summary i, in_report_body i, in_consumer i, in_reviewer i, in_error_message i] \<and>
     (in_report_body i \<noteq> None \<or> in_report_hash i \<noteq> None) \<and>
     (case in_report_hash i of None \<Rightarrow> True | Some h \<Rightarrow> sha256_text h) \<and>
     (case in_metadata i of JObj _ \<Rightarrow> True | _ \<Rightarrow> False)"

lemma read_string_ok:
  "read_optional_string v field = Inr x \<Longrightarrow> case x of None \<Rightarrow> True | Some s \<Rightarrow> s \<noteq> [] \<and> trim s = s"
  by (auto dest!: read_optional_string_Inr simp: trim_idem)

lemma read_object_ok:
  "read_optional_object v field = Inr x \<Longrightarrow> case (case x of Some v \<Rightarrow> v | None \<Rightarrow> JObj []) of JObj _ \<Rightarrow> True | _ \<Rightarrow> False"
  by (auto simp: read_optional_object_def split: option.splits json.splits)

lemma parse_pieces:
  assumes "parse_review_run_record_input raw = Inr i"
  obtains obj findings metadata where
    "unwrap_review_run_input raw = Inr obj"
    "read_identifier obj (lit ''run_id'') = Inr (in_run_id i)"
    "read_identifier obj (lit ''phase'') = Inr (in_phase i)"
    "read_identifier obj (lit ''kind'') = Inr (in_kind i)"
    "read_status (map_of obj (lit ''status'')) = Inr (in_status i)"
    "read_iteration (map_of obj (lit ''iteration'')) = Inr (in_iteration i)"
    "read_string_array (map_of obj (lit ''queued_files'')) (lit ''queued_files'') = Inr (in_queued_files i)"
    "read_optional_string (map_of obj (lit ''summary'')) (lit ''summary'') = Inr (in_summary i)"
    "read_optional_string (map_of obj (lit ''blocker_summary'')) (lit ''blocker_summary'') = Inr (in_blocker_summary i)"
    "read_optional_string (map_of obj (lit ''report_body'')) (lit ''report_body'') = Inr (in_report_body i)"
    "read_optional_hash (map_of obj (lit ''report_hash'')) = Inr (in_report_hash i)"
    "in_report_body i \<noteq> None \<or> in_report_hash i \<noteq> None"
    "read_optional_array (map_of obj (lit ''findings'')) (lit ''findings'') = Inr findings"
    "in_findings i = (case findings of Some l \<Rightarrow> l | None \<Rightarrow> [])"
    "read_optional_string (map_of obj (lit ''consumer'')) (lit ''consumer'') = Inr (in_consumer i)"
    "read_optional_string (map_of obj (lit ''reviewer'')) (lit ''reviewer'') = Inr (in_reviewer i)"
    "read_optional_string (map_of obj (lit ''error_message'')) (lit ''error_message'') = Inr (in_error_message i)"
    "read_optional_object (map_of obj (lit ''metadata'')) (lit ''metadata'') = Inr metadata"
    "in_metadata i = (case metadata of Some v \<Rightarrow> v | None \<Rightarrow> JObj [])"
  using assms unfolding parse_review_run_record_input_def
  by (elim and_then_Inr [THEN iffD1, elim_format] exE conjE) (auto simp: and_then_Inr split: if_splits)

lemma parse_input_ok:
  assumes "parse_review_run_record_input raw = Inr i"
  shows "input_ok i"
  using assms
proof (rule parse_pieces)
  fix obj findings metadata
  assume p: "read_identifier obj (lit ''run_id'') = Inr (in_run_id i)"
    "read_identifier obj (lit ''phase'') = Inr (in_phase i)"
    "read_identifier obj (lit ''kind'') = Inr (in_kind i)"
    "read_status (map_of obj (lit ''status'')) = Inr (in_status i)"
    "read_iteration (map_of obj (lit ''iteration'')) = Inr (in_iteration i)"
    "in_report_body i \<noteq> None \<or> in_report_hash i \<noteq> None"
    and files: "read_string_array (map_of obj (lit ''queued_files'')) (lit ''queued_files'') = Inr (in_queued_files i)"
    and texts: "read_optional_string (map_of obj (lit ''summary'')) (lit ''summary'') = Inr (in_summary i)"
    "read_optional_string (map_of obj (lit ''blocker_summary'')) (lit ''blocker_summary'') = Inr (in_blocker_summary i)"
    "read_optional_string (map_of obj (lit ''report_body'')) (lit ''report_body'') = Inr (in_report_body i)"
    "read_optional_string (map_of obj (lit ''consumer'')) (lit ''consumer'') = Inr (in_consumer i)"
    "read_optional_string (map_of obj (lit ''reviewer'')) (lit ''reviewer'') = Inr (in_reviewer i)"
    "read_optional_string (map_of obj (lit ''error_message'')) (lit ''error_message'') = Inr (in_error_message i)"
    and hash: "read_optional_hash (map_of obj (lit ''report_hash'')) = Inr (in_report_hash i)"
    and meta: "read_optional_object (map_of obj (lit ''metadata'')) (lit ''metadata'') = Inr metadata"
    "in_metadata i = (case metadata of Some v \<Rightarrow> v | None \<Rightarrow> JObj [])"
  have "list_all (\<lambda>s. s \<noteq> [] \<and> trim s = s) (in_queued_files i)"
    using files read_entries_Inr by (auto simp: read_string_array_def split: option.splits json.splits)
  moreover have "case in_report_hash i of None \<Rightarrow> True | Some h \<Rightarrow> sha256_text h"
    using hash read_optional_hash_Inr by (auto split: option.split)
  ultimately show ?thesis
    unfolding input_ok_def meta(2)
    using p(6) p(1-3) [THEN read_identifier_Inr] read_status_Inr [OF p(4)] read_iteration_Inr [OF p(5)]
      texts [THEN read_string_ok] read_object_ok [OF meta(1)]
    by simp
qed

subsection \<open>Replays\<close>

definition matches :: "run_codec \<Rightarrow> ReviewRunRecordInput \<Rightarrow> ustr \<Rightarrow> run_row \<Rightarrow> bool" where
  "matches J i h r \<longleftrightarrow>
     classify_stored_run_replay J r i h (enc J (JArr (map JStr (in_queued_files i))))
       (stable_stringify J (JArr (in_findings i))) (stable_stringify J (in_metadata i)) = Inr Exact"

lemma find_map_keep: "(\<And>r. P (f r) = P r) \<Longrightarrow> find P (map f rows) = map_option f (find P rows)"
  by (induction rows) auto

lemma find_snoc: "find P (rows @ [r]) = (case find P rows of Some x \<Rightarrow> Some x | None \<Rightarrow> if P r then Some r else None)"
  by (induction rows) auto

lemma select_key: "select_stored_run rows q run = Some r \<Longrightarrow> run_project r = q \<and> run_run_id r = run"
  by (auto simp: select_stored_run_def find_Some_iff)

lemma select_upgraded:
  "select_stored_run (upgrade_legacy_review_run now p i h f g m rows) q run =
     map_option (\<lambda>r. if q = p \<and> run = in_run_id i then upgraded_row now i h f g m r else r) (select_stored_run rows q run)"
proof -
  have "select_stored_run (upgrade_legacy_review_run now p i h f g m rows) q run =
      map_option (\<lambda>r. if run_project r = p \<and> run_run_id r = in_run_id i then upgraded_row now i h f g m r else r)
        (select_stored_run rows q run)"
    unfolding select_stored_run_def upgrade_legacy_review_run_def
    by (rule find_map_keep) (simp add: upgraded_row_def)
  also have "\<dots> = map_option (\<lambda>r. if q = p \<and> run = in_run_id i then upgraded_row now i h f g m r else r) (select_stored_run rows q run)"
    by (rule option.map_cong) (auto dest!: select_key)
  finally show ?thesis .
qed

lemma matches_written:
  "matches J i h (upgraded_row now i h (enc J (JArr (map JStr (in_queued_files i)))) (stable_stringify J (JArr (in_findings i)))
     (stable_stringify J (in_metadata i)) r)"
  "matches J i h (inserted_run now p i h (enc J (JArr (map JStr (in_queued_files i)))) (stable_stringify J (JArr (in_findings i)))
     (stable_stringify J (in_metadata i)))"
  unfolding matches_def classify_stored_run_replay_def
  by (rule if_P; cases "in_summary i"; simp add: upgraded_row_def inserted_run_def stored_summary_def)+

lemma matches_final: "matches J i h r \<Longrightarrow> input_ok i \<Longrightarrow> run_status r \<noteq> lit ''started''"
  by (auto simp: matches_def classify_stored_run_replay_def input_ok_def split: if_splits)

lemma classify_cases:
  "classify_stored_run_replay J r i h f g m = Inr UpgradeLegacy \<Longrightarrow> run_status r = lit ''started''"
  by (simp add: classify_stored_run_replay_def is_sparse_legacy_review_run_def split: if_splits)

text \<open>A successful call inserts the run, finds it, or fills in a sparse one.\<close>

lemma record_cases:
  assumes "record_review_run J now p raw rows = Inr (rows', res)"
  obtains i h r where "parse_review_run_record_input raw = Inr i" "resolve_report_hash J i = Inr h"
    "select_stored_run rows' p (in_run_id i) = Some r" "res = to_record_result r" "matches J i h r"
    "rows' = rows \<or> (\<exists>x. rows' = rows @ [x] \<and> select_stored_run rows p (in_run_id i) = None) \<or>
     (\<exists>x f g m. select_stored_run rows p (in_run_id i) = Some x \<and> run_status x = lit ''started'' \<and>
        rows' = upgrade_legacy_review_run now p i h f g m rows)"
proof -
  from assms obtain i h where ih: "parse_review_run_record_input raw = Inr i" "resolve_report_hash J i = Inr h"
    by (auto simp: record_review_run_def and_then_Inr)
  let ?f = "enc J (JArr (map JStr (in_queued_files i)))"
  let ?g = "stable_stringify J (JArr (in_findings i))"
  let ?m = "stable_stringify J (in_metadata i)"
  show thesis
  proof (cases "select_stored_run rows p (in_run_id i)")
    case None
    let ?x = "inserted_run now p i h ?f ?g ?m"
    have "select_stored_run (rows @ [?x]) p (in_run_id i) = Some ?x"
      using None by (simp add: select_stored_run_def find_snoc inserted_run_def)
    then show thesis using assms ih None matches_written(2) [of J i h now p] that [of i h ?x]
      by (auto simp: record_review_run_def)
  next
    case (Some r)
    obtain a where a: "classify_stored_run_replay J r i h ?f ?g ?m = Inr a"
      using assms ih Some by (auto simp: record_review_run_def and_then_Inr Let_def)
    show thesis
    proof (cases a)
      case Exact
      then show thesis using assms ih Some a that [of i h r] by (simp add: record_review_run_def matches_def)
    next
      case UpgradeLegacy
      let ?x = "upgraded_row now i h ?f ?g ?m r"
      have "select_stored_run (upgrade_legacy_review_run now p i h ?f ?g ?m rows) p (in_run_id i) = Some ?x"
        by (simp add: select_upgraded Some)
      then show thesis
        using assms ih Some a UpgradeLegacy classify_cases [of J r] matches_written(1) [of J i h now r] that [of i h ?x]
        by (auto simp: record_review_run_def Let_def)
    qed
  qed
qed

lemma record_replays:
  assumes "parse_review_run_record_input raw = Inr i" "resolve_report_hash J i = Inr h"
    "select_stored_run rows p (in_run_id i) = Some r" "matches J i h r"
  shows "record_review_run J now p raw rows = Inr (rows, to_record_result r)"
  using assms by (simp add: record_review_run_def matches_def)

lemma record_keeps_final:
  assumes "record_review_run J now q raw rows = Inr (rows', res)" "select_stored_run rows p run = Some r"
    "run_status r \<noteq> lit ''started''"
  shows "select_stored_run rows' p run = Some r"
  using assms(1)
proof (rule record_cases)
  fix i h
  assume "rows' = rows \<or> (\<exists>x. rows' = rows @ [x] \<and> select_stored_run rows q (in_run_id i) = None) \<or>
     (\<exists>x f g m. select_stored_run rows q (in_run_id i) = Some x \<and> run_status x = lit ''started'' \<and>
        rows' = upgrade_legacy_review_run now q i h f g m rows)"
  moreover have "select_stored_run (rows @ [x]) p run = Some r" for x
    using assms(2) by (simp add: select_stored_run_def find_snoc)
  ultimately show ?thesis using assms(2,3) by (auto simp: select_upgraded)
qed

lemma calls_keep_final:
  "select_stored_run rows p run = Some r \<Longrightarrow> run_status r \<noteq> lit ''started'' \<Longrightarrow>
   select_stored_run (record_calls J cs rows) p run = Some r"
proof (induction J cs rows rule: record_calls.induct)
  case (2 J now project raw cs rows)
  have "select_stored_run (case record_review_run J now project raw rows of Inr (rows', _) \<Rightarrow> rows' | Inl _ \<Rightarrow> rows) p run = Some r"
    using 2 record_keeps_final by (cases "record_review_run J now project raw rows") auto
  with 2 show ?case by simp
qed simp

subsection \<open>Payloads\<close>

lemma map_of_json_ok: "map_of fs k = Some v \<Longrightarrow> json_ok_fields fs \<Longrightarrow> json_ok v"
  by (auto simp: json_ok_fields_iff dest: map_of_SomeD)

lemma unwrap_ok: "unwrap_review_run_input raw = Inr obj \<Longrightarrow> json_ok raw \<Longrightarrow> json_ok_fields obj"
  by (auto simp: unwrap_review_run_input_def dest: map_of_json_ok split: json.splits option.splits)

lemma parse_json_ok:
  assumes "parse_review_run_record_input raw = Inr i" "json_ok raw"
  shows "json_ok (JArr (in_findings i)) \<and> json_ok (in_metadata i)"
  using assms(1)
proof (rule parse_pieces)
  fix obj findings metadata
  assume obj: "unwrap_review_run_input raw = Inr obj"
    and "read_optional_array (map_of obj (lit ''findings'')) (lit ''findings'') = Inr findings"
    "in_findings i = (case findings of Some l \<Rightarrow> l | None \<Rightarrow> [])"
    "read_optional_object (map_of obj (lit ''metadata'')) (lit ''metadata'') = Inr metadata"
    "in_metadata i = (case metadata of Some v \<Rightarrow> v | None \<Rightarrow> JObj [])"
  moreover have "json_ok v" if "map_of obj k = Some v" for k v
    using that unwrap_ok [OF obj assms(2)] by (rule map_of_json_ok)
  ultimately show ?thesis
    by (auto simp: read_optional_array_def read_optional_object_def split: option.splits json.splits)
      (metis json_ok.simps(1) json_ok.simps(2))+
qed

lemma matches_texts:
  assumes "matches J i h r"
  shows "normalized_json_string J (run_files_json r) = normalized_json_string J (enc J (JArr (map JStr (in_queued_files i))))"
    "normalized_json_string J (run_findings_json r) = normalized_json_string J (stable_stringify J (JArr (in_findings i)))"
    "normalized_json_string J (run_metadata_json r) = normalized_json_string J (stable_stringify J (in_metadata i))"
  using assms by (simp_all add: matches_def classify_stored_run_replay_def split: if_splits)

lemma matches_scalars:
  assumes "matches J i h r" "matches J i' h' r"
  shows "in_phase i' = in_phase i \<and> in_iteration i' = in_iteration i \<and> in_kind i' = in_kind i \<and>
    in_status i' = in_status i \<and> in_summary i' = in_summary i \<and> in_blocker_summary i' = in_blocker_summary i \<and>
    in_report_body i' = in_report_body i \<and> in_consumer i' = in_consumer i \<and> in_reviewer i' = in_reviewer i \<and>
    in_error_message i' = in_error_message i \<and> h' = h"
  using assms by (simp add: matches_def classify_stored_run_replay_def split: if_splits)

lemma matches_same:
  assumes "matches J i h r" "matches J i' h' r"
    "\<forall>v\<in>{JArr (map JStr (in_queued_files i)), JArr (in_findings i), in_metadata i, JArr (map JStr (in_queued_files i')),
       JArr (in_findings i'), in_metadata i'}. json_ok v \<and> dec J (enc J v) = Some v"
    "in_run_id i' = in_run_id i"
  shows "i'\<lparr>in_report_hash := in_report_hash i\<rparr> = i \<and> h' = h"
proof -
  have inj: "v = w" if "normalized_json_string J (enc J v) = normalized_json_string J (enc J w)"
      "json_ok v \<and> dec J (enc J v) = Some v" "json_ok w \<and> dec J (enc J w) = Some w" for v w
  proof -
    have "enc J v = enc J w"
      using that(1) unfolding normalized_text [OF conjunct1 [OF that(2)] conjunct2 [OF that(2)], THEN conjunct2]
        normalized_text [OF conjunct1 [OF that(3)] conjunct2 [OF that(3)], THEN conjunct2] .
    then have "dec J (enc J v) = dec J (enc J w)" by (rule arg_cong)
    then show ?thesis using that(2,3) by (metis option.inject)
  qed
  have stable: "normalized_json_string J (stable_stringify J v) = normalized_json_string J (enc J v)"
    if "json_ok v \<and> dec J (enc J v) = Some v" for v
    using normalized_text [OF conjunct1 [OF that] conjunct2 [OF that]] by simp
  have "JArr (map JStr (in_queued_files i')) = JArr (map JStr (in_queued_files i))"
    using assms(3) matches_texts(1) [OF assms(2), symmetric] matches_texts(1) [OF assms(1)]
    by (intro inj) auto
  then have "in_queued_files i' = in_queued_files i" by (simp add: inj_map_eq_map inj_def)
  moreover have "JArr (in_findings i') = JArr (in_findings i)"
    using assms(3) matches_texts(2) [OF assms(2), symmetric] matches_texts(2) [OF assms(1)] stable
    by (intro inj) auto
  then have "in_findings i' = in_findings i" by simp
  moreover have "in_metadata i' = in_metadata i"
    using assms(3) matches_texts(3) [OF assms(2), symmetric] matches_texts(3) [OF assms(1)] stable
    by (intro inj) auto
  ultimately show ?thesis using assms(4) matches_scalars [OF assms(1,2)] by simp
qed

section \<open>Properties\<close>

text \<open>
  C25. What is accepted as a review run is well-formed: identifiers are short and of the permitted
  characters, the status is final, texts are trimmed and not empty, a digest is 64 lower-case hexadecimal
  digits, and the digest that is stored is the one of the report whenever there is a report.
\<close>

theorem accepted_run_well_formed:
  assumes "parse_review_run_record_input raw = Inr i" "resolve_report_hash J i = Inr h"
    "\<forall>body. sha256_text (sha J body)"
  shows "input_ok i \<and> sha256_text h \<and> (case in_report_body i of Some body \<Rightarrow> h = sha J body | None \<Rightarrow> in_report_hash i = Some h)"
proof -
  have ok: "input_ok i" by (rule parse_input_ok [OF assms(1)])
  then have "sha256_text x" if "in_report_hash i = Some x" for x using that by (simp add: input_ok_def)
  with ok show ?thesis using assms(2,3)
    by (auto simp: resolve_report_hash_def split: option.splits if_splits)
qed

theorem accepted_run_well_formed_witness:
  "case parse_review_run_record_input (demo_run ''failed'') of
     Inl _ \<Rightarrow> False
   | Inr i \<Rightarrow> input_ok i \<and> in_report_body i = Some (lit ''ok'') \<and> resolve_report_hash demo_codec i = Inr (replicate 64 48)"
proof -
  have "case parse_review_run_record_input (demo_run ''failed'') of Inl _ \<Rightarrow> False
    | Inr i \<Rightarrow> in_report_body i = Some (lit ''ok'') \<and> resolve_report_hash demo_codec i = Inr (replicate 64 48)" by code_simp
  then obtain i where i: "parse_review_run_record_input (demo_run ''failed'') = Inr i"
      "in_report_body i = Some (lit ''ok'')" "resolve_report_hash demo_codec i = Inr (replicate 64 48)"
    by (auto split: sum.splits)
  have "\<forall>body. sha256_text (sha demo_codec body)" by (simp add: demo_codec_def sha256_text_def hex_digit_def list_all_iff)
  from accepted_run_well_formed [OF i(1,3) this] i show ?thesis by simp
qed

text \<open>
  C24. A run is recorded once: after a call has succeeded, repeating it at any time and after any other calls
  succeeds with the same result and changes nothing.
\<close>

theorem record_once:
  assumes "record_review_run J now p raw rows = Inr (rows', res)"
  shows "record_review_run J later p raw (record_calls J cs rows') = Inr (record_calls J cs rows', res)"
  using assms
proof (rule record_cases)
  fix i h r
  assume r: "parse_review_run_record_input raw = Inr i" "resolve_report_hash J i = Inr h"
    "select_stored_run rows' p (in_run_id i) = Some r" "res = to_record_result r" "matches J i h r"
  have "run_status r \<noteq> lit ''started''" using matches_final [OF r(5) parse_input_ok [OF r(1)]] .
  from record_replays [OF r(1,2) calls_keep_final [OF r(3) this] r(5)] r(4) show ?thesis by simp
qed

theorem record_once_witness:
  "case record_review_run demo_codec 5 (lit ''p'') (demo_run ''failed'') [] of
     Inl _ \<Rightarrow> False
   | Inr (rows, res) \<Rightarrow>
       record_review_run demo_codec 9 (lit ''p'') (demo_run ''failed'')
         (record_calls demo_codec [(7, lit ''p'', demo_run ''completed'')] rows) =
       Inr (record_calls demo_codec [(7, lit ''p'', demo_run ''completed'')] rows, res)"
proof -
  have "case record_review_run demo_codec 5 (lit ''p'') (demo_run ''failed'') [] of Inl _ \<Rightarrow> False | Inr _ \<Rightarrow> True"
    by code_simp
  then obtain rows res where r: "record_review_run demo_codec 5 (lit ''p'') (demo_run ''failed'') [] = Inr (rows, res)"
    by (auto split: sum.splits)
  from record_once [OF r, of 9 "[(7, lit ''p'', demo_run ''completed'')]"] r show ?thesis by simp
qed

text \<open>
  A recorded run is never overwritten: a later call for the same run, after any other calls, succeeds
  only when its input is the recorded one (up to a digest that may be left to be computed), and then it
  changes nothing. JSON text is assumed to be read back as it was written, for the values of the two inputs.
\<close>

lemma recorded_run_fixed:
  assumes "record_review_run J now p raw rows = Inr (rows', res)" "parse_review_run_record_input raw = Inr i"
    "parse_review_run_record_input raw' = Inr i'" "in_run_id i' = in_run_id i" "json_ok raw" "json_ok raw'"
    "\<forall>v\<in>{JArr (map JStr (in_queued_files i)), JArr (in_findings i), in_metadata i, JArr (map JStr (in_queued_files i')),
       JArr (in_findings i'), in_metadata i'}. dec J (enc J v) = Some v"
    "record_review_run J later p raw' (record_calls J cs rows') = Inr (rows'', res')"
  shows "rows'' = record_calls J cs rows' \<and> res' = res \<and> i'\<lparr>in_report_hash := in_report_hash i\<rparr> = i"
  using assms(1)
proof (rule record_cases)
  fix i1 h r
  assume r: "parse_review_run_record_input raw = Inr i1" "resolve_report_hash J i1 = Inr h"
    "select_stored_run rows' p (in_run_id i1) = Some r" "res = to_record_result r" "matches J i1 h r"
  have i1: "i1 = i" using r(1) assms(2) by simp
  have final: "run_status r \<noteq> lit ''started''" using matches_final [OF r(5) parse_input_ok [OF r(1)]] .
  have sel: "select_stored_run (record_calls J cs rows') p (in_run_id i') = Some r"
    using calls_keep_final [OF r(3) final] by (simp add: i1 assms(4))
  from assms(8) show ?thesis
  proof (rule record_cases)
    fix i2 h2 r2
    assume r2: "parse_review_run_record_input raw' = Inr i2" "resolve_report_hash J i2 = Inr h2"
      "select_stored_run rows'' p (in_run_id i2) = Some r2" "res' = to_record_result r2" "matches J i2 h2 r2"
      "rows'' = record_calls J cs rows' \<or> (\<exists>x. rows'' = record_calls J cs rows' @ [x] \<and>
         select_stored_run (record_calls J cs rows') p (in_run_id i2) = None) \<or>
       (\<exists>x f g m. select_stored_run (record_calls J cs rows') p (in_run_id i2) = Some x \<and> run_status x = lit ''started'' \<and>
        rows'' = upgrade_legacy_review_run later p i2 h2 f g m (record_calls J cs rows'))"
    have i2: "i2 = i'" using r2(1) assms(3) by simp
    have same: "rows'' = record_calls J cs rows'" using r2(6) sel final by (auto simp: i2)
    then have "r2 = r" using r2(3) sel by (simp add: i2)
    moreover from this have "i'\<lparr>in_report_hash := in_report_hash i\<rparr> = i \<and> h2 = h"
      using r(5) r2(5) assms(4,7) parse_json_ok [OF assms(2,5)] parse_json_ok [OF assms(3,6)]
      by (intro matches_same [of J i h r i' h2]) (auto simp: i1 i2 json_ok_list_iff)
    ultimately show ?thesis using same r(4) r2(4) by simp
  qed
qed

end
