(* ===== verification/Config_Writer.thy ===== *)
theory Config_Writer
  imports Rust_Str "HOL-Library.Product_Lexorder"
begin

text \<open>
  The writer of configuration files (\<^verbatim>\<open>stealth-cli/src/config_io/writer.rs\<close>): every write makes a backup of
  the old file under a fresh name, writes a temporary sibling and renames it over the target.

  The directory of the target is a list of entries in the order the system lists them, names distinct.
  Contents are texts. Every call to the file system may fail, as the record of outcomes says; a write that
  fails may leave a part of the contents. Time stamps and the random part of temporary names are arguments.
\<close>

section \<open>Definitions\<close>

text \<open>An error of the file system is its text. The writer never makes the last one.\<close>

datatype WriterError = WriterIo ustr | ParentDirMissing | PermissionDenied

text \<open>The display of an error, for the parent directory given.\<close>

definition writer_err_msg :: "ustr \<Rightarrow> WriterError \<Rightarrow> ustr" where
  "writer_err_msg parent e =
     (case e of
        WriterIo t \<Rightarrow> lit ''io error: '' @ t
      | ParentDirMissing \<Rightarrow> lit ''parent dir missing: '' @ parent
      | PermissionDenied \<Rightarrow> lit ''permission denied: <unknown>'')"

record cfg_file =
  cf_content :: ustr
  cf_mtime :: nat
  cf_regular :: bool

type_synonym cfg_dir = "(ustr \<times> cfg_file) list"

record WriteReport =
  backup_path :: "ustr option"
  bytes_written :: nat

record writer_io =
  w_parent_named :: bool
  w_parent_exists :: bool
  w_epoch_ms :: nat
  w_suffix :: ustr
  w_mtime :: nat
  w_open_bak :: "ustr option"
  w_read_old :: "ustr option"
  w_write_bak :: "(ustr \<times> nat) option"
  w_sync_bak :: "ustr option"
  w_open_tmp :: "ustr option"
  w_write_tmp :: "(ustr \<times> nat) option"
  w_sync_tmp :: "ustr option"
  w_rename :: "ustr option"
  w_cleanup :: bool
  w_read_dir :: "ustr option"
  w_remove :: "ustr \<Rightarrow> ustr option"

definition put_entry :: "ustr \<Rightarrow> cfg_file \<Rightarrow> cfg_dir \<Rightarrow> cfg_dir" where
  "put_entry n f D = (n, f) # filter (\<lambda>e. fst e \<noteq> n) D"

definition drop_entry :: "ustr \<Rightarrow> cfg_dir \<Rightarrow> cfg_dir" where
  "drop_entry n D = filter (\<lambda>e. fst e \<noteq> n) D"

definition bak_prefix :: "ustr \<Rightarrow> ustr" where
  "bak_prefix name = name @ lit ''.bak.''"

definition bak_name :: "ustr \<Rightarrow> nat \<Rightarrow> nat \<Rightarrow> ustr" where
  "bak_name name base_ms counter =
     bak_prefix name @ digits_of base_ms @ (if counter = 0 then [] else lit ''_'' @ digits_of counter)"

text \<open>The loop over suffixes: a name that exists is skipped, any other failure to open ends it.\<close>

function open_backup :: "writer_io \<Rightarrow> ustr \<Rightarrow> nat \<Rightarrow> cfg_dir \<Rightarrow> WriterError + ustr" where
  "open_backup io name counter D =
     (if map_of D (bak_name name (w_epoch_ms io) counter) = None then
        (case w_open_bak io of Some e \<Rightarrow> Inl (WriterIo e) | None \<Rightarrow> Inr (bak_name name (w_epoch_ms io) counter))
      else if counter \<ge> u32_max then Inl (WriterIo (lit ''backup suffix counter exhausted''))
      else open_backup io name (counter + 1) D)"
  by pat_completeness auto
termination
  by (relation "measure (\<lambda>(io, name, counter, D). u32_max - counter)") auto

declare open_backup.simps [simp del]

lemma open_backup_code [code]:
  "open_backup io name counter D =
     (if map_of D (bak_name name (w_epoch_ms io) counter) = None then
        (case w_open_bak io of Some e \<Rightarrow> Inl (WriterIo e) | None \<Rightarrow> Inr (bak_name name (w_epoch_ms io) counter))
      else if int counter \<ge> 4294967295 then Inl (WriterIo (lit ''backup suffix counter exhausted''))
      else open_backup io name (counter + 1) D)"
proof -
  have "int counter \<ge> 4294967295 \<longleftrightarrow> counter \<ge> u32_max" by (auto simp: u32_max_def)
  then show ?thesis by (subst open_backup.simps) simp
qed

definition new_file :: "writer_io \<Rightarrow> ustr \<Rightarrow> cfg_file" where
  "new_file io s = \<lparr>cf_content = s, cf_mtime = w_mtime io, cf_regular = True\<rparr>"

definition make_backup :: "writer_io \<Rightarrow> ustr \<Rightarrow> cfg_dir \<Rightarrow> (WriterError + ustr option) \<times> cfg_dir" where
  "make_backup io name D =
     (case map_of D name of
        None \<Rightarrow> (Inr None, D)
      | Some f \<Rightarrow>
          (case open_backup io name 0 D of
             Inl e \<Rightarrow> (Inl e, D)
           | Inr bak \<Rightarrow>
               (case w_read_old io of
                  Some e \<Rightarrow> (Inl (WriterIo e), put_entry bak (new_file io []) D)
                | None \<Rightarrow>
                    (case w_write_bak io of
                       Some (e, n) \<Rightarrow> (Inl (WriterIo e), put_entry bak (new_file io (take n (cf_content f))) D)
                     | None \<Rightarrow>
                         (case w_sync_bak io of
                            Some e \<Rightarrow> (Inl (WriterIo e), put_entry bak (new_file io (cf_content f)) D)
                          | None \<Rightarrow> (Inr (Some bak), put_entry bak (new_file io (cf_content f)) D))))))"

definition tmp_sibling :: "writer_io \<Rightarrow> ustr \<Rightarrow> ustr" where
  "tmp_sibling io name = lit ''.'' @ name @ lit ''.tmp.'' @ w_suffix io"

definition write_temp :: "writer_io \<Rightarrow> ustr \<Rightarrow> ustr \<Rightarrow> cfg_dir \<Rightarrow> (WriterError + unit) \<times> cfg_dir" where
  "write_temp io name contents D =
     (if map_of D (tmp_sibling io name) \<noteq> None then (Inl (WriterIo (lit ''already exists'')), D)
      else case w_open_tmp io of
          Some e \<Rightarrow> (Inl (WriterIo e), D)
        | None \<Rightarrow>
            (case w_write_tmp io of
               Some (e, n) \<Rightarrow> (Inl (WriterIo e), put_entry (tmp_sibling io name) (new_file io (take n contents)) D)
             | None \<Rightarrow>
                 (case w_sync_tmp io of
                    Some e \<Rightarrow> (Inl (WriterIo e), put_entry (tmp_sibling io name) (new_file io contents) D)
                  | None \<Rightarrow> (Inr (), put_entry (tmp_sibling io name) (new_file io contents) D))))"

definition write_with_backup :: "writer_io \<Rightarrow> ustr \<Rightarrow> ustr \<Rightarrow> cfg_dir \<Rightarrow> (WriterError + WriteReport) \<times> cfg_dir" where
  "write_with_backup io name contents D =
     (if w_parent_named io \<and> \<not> w_parent_exists io then (Inl ParentDirMissing, D)
      else case make_backup io name D of
          (Inl e, D1) \<Rightarrow> (Inl e, D1)
        | (Inr backup, D1) \<Rightarrow>
            (case write_temp io name contents D1 of
               (Inl e, D2) \<Rightarrow> (Inl e, D2)
             | (Inr _, D2) \<Rightarrow>
                 (case w_rename io of
                    Some e \<Rightarrow> (Inl (WriterIo e), if w_cleanup io then drop_entry (tmp_sibling io name) D2 else D2)
                  | None \<Rightarrow>
                      (Inr \<lparr>backup_path = backup, bytes_written = blen contents\<rparr>,
                       put_entry name (new_file io contents) (drop_entry (tmp_sibling io name) D2)))))"

text \<open>Newest first: by time of change, then by name, both descending.\<close>

definition newest_first :: "cfg_dir \<Rightarrow> cfg_dir" where
  "newest_first D = rev (sort_key (\<lambda>e. (cf_mtime (snd e), fst e)) D)"

definition list_backups :: "writer_io \<Rightarrow> ustr \<Rightarrow> cfg_dir \<Rightarrow> WriterError + ustr list" where
  "list_backups io name D =
     (if \<not> w_parent_exists io then Inr []
      else case w_read_dir io of
          Some e \<Rightarrow> Inl (WriterIo e)
        | None \<Rightarrow> Inr (map fst (newest_first (filter (\<lambda>e. prefix (bak_prefix name) (fst e) \<and> cf_regular (snd e)) D))))"

fun remove_loop :: "writer_io \<Rightarrow> ustr list \<Rightarrow> nat \<Rightarrow> cfg_dir \<Rightarrow> (WriterError + nat) \<times> cfg_dir" where
  "remove_loop io [] deleted D = (Inr deleted, D)"
| "remove_loop io (b # bs) deleted D =
     (case w_remove io b of
        Some e \<Rightarrow> (Inl (WriterIo e), D)
      | None \<Rightarrow> remove_loop io bs (deleted + 1) (drop_entry b D))"

definition gc_backups :: "writer_io \<Rightarrow> ustr \<Rightarrow> nat \<Rightarrow> cfg_dir \<Rightarrow> (WriterError + nat) \<times> cfg_dir" where
  "gc_backups io name keep_n D =
     (case list_backups io name D of
        Inl e \<Rightarrow> (Inl e, D)
      | Inr baks \<Rightarrow> remove_loop io (drop keep_n baks) 0 D)"

section \<open>Lemmas\<close>

abbreviation dir_ok :: "cfg_dir \<Rightarrow> bool" where
  "dir_ok D \<equiv> distinct (map fst D)"

lemma map_of_filter_fst: "map_of (filter (\<lambda>e. P (fst e)) D) n = (if P n then map_of D n else None)"
  by (induction D) auto

lemma put_entry_lookup [simp]: "map_of (put_entry n f D) m = (if m = n then Some f else map_of D m)"
  using map_of_filter_fst [of "\<lambda>m. m \<noteq> n" D m] by (simp add: put_entry_def)

lemma drop_entry_lookup [simp]: "map_of (drop_entry n D) m = (if m = n then None else map_of D m)"
  using map_of_filter_fst [of "\<lambda>m. m \<noteq> n" D m] by (simp add: drop_entry_def)

lemma distinct_filter_fst: "dir_ok D \<Longrightarrow> dir_ok (filter P D)"
  by (rule distinct_map_filter)

lemma put_entry_ok [simp]: "dir_ok D \<Longrightarrow> dir_ok (put_entry n f D)"
  and drop_entry_ok [simp]: "dir_ok D \<Longrightarrow> dir_ok (drop_entry n D)"
  by (auto simp: put_entry_def drop_entry_def intro: distinct_filter_fst)

lemma bak_name_prefix: "prefix (bak_prefix name) (bak_name name ms c)"
  by (simp add: bak_name_def)

lemma bak_name_longer: "prefix (bak_prefix name) b \<Longrightarrow> length name < length b"
  by (auto simp: bak_prefix_def prefix_def lit_def)

lemma open_backup_fresh: "open_backup io name c D = Inr b \<Longrightarrow> map_of D b = None \<and> prefix (bak_prefix name) b"
proof (induction io name c D rule: open_backup.induct)
  case (1 io name c D)
  from "1.prems" show ?case
    using "1.IH" bak_name_prefix [of name]
    by (subst (asm) open_backup.simps) (auto split: if_splits option.splits)
qed

lemma open_backup_name: "open_backup io name c D = Inr b \<Longrightarrow> \<exists>k. b = bak_name name (w_epoch_ms io) k"
proof (induction io name c D rule: open_backup.induct)
  case (1 io name c D)
  from "1.prems" show ?case
    using "1.IH" by (subst (asm) open_backup.simps) (auto split: if_splits option.splits)
qed

lemma make_backup_name: "make_backup io name D = (Inr (Some b), D1) \<Longrightarrow> \<exists>k. b = bak_name name (w_epoch_ms io) k"
  by (auto simp: make_backup_def dest: open_backup_name split: option.splits sum.splits prod.splits)

text \<open>What a backup leaves behind: at most one fresh entry.\<close>

lemma make_backup_frame:
  assumes "make_backup io name D = (r, D1)"
  shows "(\<forall>n. map_of D n \<noteq> None \<longrightarrow> map_of D1 n = map_of D n) \<and> map_of D1 name = map_of D name \<and>
    (\<forall>b. r = Inr b \<longrightarrow> (case map_of D name of None \<Rightarrow> b = None | Some f \<Rightarrow>
      \<exists>n. b = Some n \<and> map_of D n = None \<and> prefix (bak_prefix name) n \<and> map_of D1 n = Some (new_file io (cf_content f))))"
proof (cases "map_of D name")
  case None
  then show ?thesis using assms by (auto simp: make_backup_def)
next
  case (Some f)
  show ?thesis
  proof (cases "open_backup io name 0 D")
    case (Inl e)
    then show ?thesis using assms Some by (auto simp: make_backup_def)
  next
    case (Inr bak)
    note fresh = open_backup_fresh [OF Inr]
    then have "bak \<noteq> name" using bak_name_longer by blast
    then show ?thesis using assms Some Inr fresh
      by (auto simp: make_backup_def split: option.splits prod.splits)
  qed
qed

lemma tmp_sibling_not_name: "tmp_sibling io name \<noteq> name"
proof
  assume "tmp_sibling io name = name"
  then have "length (tmp_sibling io name) = length name" by simp
  then show False by (simp add: tmp_sibling_def lit_def)
qed

lemma write_temp_frame:
  assumes "write_temp io name contents D = (r, D1)"
  shows "(\<forall>n. map_of D n \<noteq> None \<longrightarrow> map_of D1 n = map_of D n) \<and> map_of D1 name = map_of D name \<and>
    (\<forall>n. n \<noteq> tmp_sibling io name \<longrightarrow> map_of D1 n = map_of D n) \<and>
    (r = Inr () \<longrightarrow> map_of D (tmp_sibling io name) = None)"
  using assms tmp_sibling_not_name [of io name]
  by (auto simp: write_temp_def split: if_splits option.splits prod.splits)

section \<open>Properties\<close>

text \<open>
  A configuration write is safe wherever it stops: no other file of the directory is touched, the target
  keeps its old contents unless the write succeeds, and after a success it has the new contents and the
  backup, under a name that was free, has the old ones.
\<close>

lemma write_is_safe:
  assumes "write_with_backup io name contents D = (r, D')"
  shows "(\<forall>n. n \<noteq> name \<and> map_of D n \<noteq> None \<longrightarrow> map_of D' n = map_of D n) \<and>
    (case r of
       Inl e \<Rightarrow> map_of D' name = map_of D name
     | Inr rep \<Rightarrow> map_option cf_content (map_of D' name) = Some contents \<and>
         (case map_of D name of
            None \<Rightarrow> backup_path rep = None
          | Some f \<Rightarrow> \<exists>b. backup_path rep = Some b \<and> map_of D b = None \<and> prefix (bak_prefix name) b \<and>
              map_option cf_content (map_of D' b) = Some (cf_content f)))"
proof (cases "w_parent_named io \<and> \<not> w_parent_exists io")
  case True
  then show ?thesis using assms by (auto simp: write_with_backup_def)
next
  case False
  obtain rb D1 where b: "make_backup io name D = (rb, D1)" by (cases "make_backup io name D")
  note bf = make_backup_frame [OF b]
  show ?thesis
  proof (cases rb)
    case (Inl e)
    then show ?thesis using assms False b bf by (auto simp: write_with_backup_def)
  next
    case (Inr backup)
    obtain rt D2 where t: "write_temp io name contents D1 = (rt, D2)" by (cases "write_temp io name contents D1")
    note tf = write_temp_frame [OF t]
    show ?thesis
    proof (cases rt)
      case (Inl e)
      then show ?thesis using assms False b Inr t bf tf by (auto simp: write_with_backup_def)
    next
      case rt: (Inr u)
      have tmp: "tmp_sibling io name \<noteq> name" by (rule tmp_sibling_not_name)
      have free: "map_of D1 (tmp_sibling io name) = None" using tf rt by simp
      then have freeD: "map_of D (tmp_sibling io name) = None" using bf by (cases "map_of D (tmp_sibling io name)") auto
      show ?thesis
        using assms False b Inr t rt bf tf tmp free freeD
        by (auto simp: write_with_backup_def new_file_def split: option.splits)
    qed
  qed
qed

subsection \<open>The contract of the writer\<close>

text \<open>
  What the commands rely on: a write touches no other file, keeps the target when it fails, installs the
  text when it succeeds, and has then saved the old contents under a free name. The first argument stands
  for the time and for everything the file system does.
\<close>

fun writes :: "('io \<Rightarrow> ustr \<Rightarrow> ustr \<Rightarrow> cfg_dir \<Rightarrow> 'r \<times> cfg_dir) \<Rightarrow> ustr \<Rightarrow> ('io \<times> ustr) list \<Rightarrow> cfg_dir \<Rightarrow> cfg_dir" where
  "writes put name [] D = D"
| "writes put name ((io, s) # ws) D = writes put name ws (snd (put io name s D))"

locale config_store =
  fixes put :: "'io \<Rightarrow> ustr \<Rightarrow> ustr \<Rightarrow> cfg_dir \<Rightarrow> (WriterError + WriteReport) \<times> cfg_dir"
  assumes others: "put io name s D = (r, D') \<Longrightarrow> n \<noteq> name \<Longrightarrow> map_of D n \<noteq> None \<Longrightarrow> map_of D' n = map_of D n"
    and failed: "put io name s D = (Inl e, D') \<Longrightarrow> map_of D' name = map_of D name"
    and installed: "put io name s D = (Inr rep, D') \<Longrightarrow> map_option cf_content (map_of D' name) = Some s"
    and backed_up: "put io name s D = (Inr rep, D') \<Longrightarrow> map_of D name = Some f \<Longrightarrow>
      \<exists>b. backup_path rep = Some b \<and> b \<noteq> name \<and> map_of D b = None \<and> map_option cf_content (map_of D' b) = Some (cf_content f)"
begin

lemma writes_others: "n \<noteq> name \<Longrightarrow> map_of D n \<noteq> None \<Longrightarrow> map_of (writes put name ws D) n = map_of D n"
proof (induction ws arbitrary: D)
  case (Cons w ws)
  obtain io s where w: "w = (io, s)" by (cases w)
  obtain r D1 where "put io name s D = (r, D1)" by fastforce
  then show ?case using Cons others [of io name s D r D1 n] w by simp
qed simp

text \<open>The contents of the target survive any further writes, in the target or in a backup.\<close>

lemma contents_survive:
  "map_of D name = Some f \<Longrightarrow> \<exists>b g. map_of (writes put name ws D) b = Some g \<and> cf_content g = cf_content f"
proof (induction ws arbitrary: D f)
  case (Cons w ws)
  obtain io s where w: "w = (io, s)" by (cases w)
  obtain r D1 where r: "put io name s D = (r, D1)" by fastforce
  show ?case
  proof (cases r)
    case (Inl e)
    then have "map_of D1 name = Some f" using failed r Cons.prems by metis
    then show ?thesis using Cons.IH w r by simp
  next
    case (Inr rep)
    from backed_up [OF r [unfolded Inr] Cons.prems] obtain b g
      where "b \<noteq> name" "map_of D1 b = Some g" "cf_content g = cf_content f" by auto
    then show ?thesis using writes_others [of b name D1 ws] w r by auto
  qed
qed auto

lemma history_survives:
  assumes "put io name s (writes put name ws D) = (Inr rep, D1)"
  shows "\<exists>b g. map_of (writes put name ws' D1) b = Some g \<and> cf_content g = s"
  using installed [OF assms] contents_survive by fastforce

lemma undo:
  assumes "put io name s D = (Inr rep, D1)" "backup_path rep = Some b" "map_of D name = Some f"
    and "map_of D1 b = Some g" "put io' name (cf_content g) D1 = (Inr rep', D2)"
  shows "map_option cf_content (map_of D2 name) = Some (cf_content f)"
  using backed_up [OF assms(1,3)] installed [OF assms(5)] assms(2,4) by auto

end

interpretation fs_writer: config_store write_with_backup
proof
  fix io name s D r D' n assume "write_with_backup io name s D = (r, D')" "n \<noteq> name" "map_of D n \<noteq> None"
  then show "map_of D' n = map_of D n" using write_is_safe [of io name s D r D'] by blast
next
  fix io name s D e D' assume "write_with_backup io name s D = (Inl e, D')"
  then show "map_of D' name = map_of D name" using write_is_safe [of io name s D "Inl e" D'] by simp
next
  fix io name s D rep D' assume "write_with_backup io name s D = (Inr rep, D')"
  then show "map_option cf_content (map_of D' name) = Some s" using write_is_safe [of io name s D "Inr rep" D'] by simp
next
  fix io name s D rep D' f assume "write_with_backup io name s D = (Inr rep, D')" "map_of D name = Some f"
  then obtain b where b: "backup_path rep = Some b" "map_of D b = None" "map_option cf_content (map_of D' b) = Some (cf_content f)"
    using write_is_safe [of io name s D "Inr rep" D'] by auto
  moreover have "b \<noteq> name" using b(2) \<open>map_of D name = Some f\<close> by auto
  ultimately show "\<exists>b. backup_path rep = Some b \<and> b \<noteq> name \<and> map_of D b = None \<and>
      map_option cf_content (map_of D' b) = Some (cf_content f)" by blast
qed

text \<open>
  C26. No configuration is ever lost: every text that a write installed is, after any further writes to the same
  file and however they end, still the contents of some file of the directory.
\<close>

theorem history_kept:
  assumes "write_with_backup io name s D = (Inr rep, D1)"
  shows "\<exists>b g. map_of (writes write_with_backup name ws D1) b = Some g \<and> cf_content g = s"
  using fs_writer.history_survives [of io name s "[]" D rep D1 ws] assms by simp

lemma write_backup_name:
  "write_with_backup io name contents D = (Inr rep, D') \<Longrightarrow> backup_path rep = Some b \<Longrightarrow> \<exists>k. b = bak_name name (w_epoch_ms io) k"
  by (auto simp: write_with_backup_def dest: make_backup_name split: if_splits prod.splits sum.splits option.splits)

definition demo_writer :: writer_io where
  "demo_writer =
     \<lparr>w_parent_named = True, w_parent_exists = True, w_epoch_ms = 7, w_suffix = lit ''1_2'', w_mtime = 7, w_open_bak = None,
      w_read_old = None, w_write_bak = None, w_sync_bak = None, w_open_tmp = None, w_write_tmp = None, w_sync_tmp = None,
      w_rename = None, w_cleanup = True, w_read_dir = None, w_remove = (\<lambda>_. None)\<rparr>"

definition demo_dir :: cfg_dir where
  "demo_dir =
     [(lit ''p.toml'', \<lparr>cf_content = lit ''old'', cf_mtime = 5, cf_regular = True\<rparr>),
      (lit ''p.toml.bak.7'', \<lparr>cf_content = lit ''older'', cf_mtime = 3, cf_regular = True\<rparr>),
      (lit ''p.toml.bak.6'', \<lparr>cf_content = lit ''oldest'', cf_mtime = 2, cf_regular = True\<rparr>)]"

theorem history_kept_witness:
  "case write_with_backup demo_writer (lit ''p.toml'') (lit ''new'') demo_dir of
     (Inr rep, D') \<Rightarrow> (\<exists>b g. map_of (snd (write_with_backup demo_writer (lit ''p.toml'') (lit ''next'') D')) b = Some g \<and> cf_content g = lit ''new'')
   | (Inl e, D') \<Rightarrow> False"
proof -
  have "case write_with_backup demo_writer (lit ''p.toml'') (lit ''new'') demo_dir of (Inr rep, D') \<Rightarrow> True | (Inl e, D') \<Rightarrow> False"
    by code_simp
  then obtain rep D' where w: "write_with_backup demo_writer (lit ''p.toml'') (lit ''new'') demo_dir = (Inr rep, D')"
    by (auto split: prod.splits sum.splits)
  from history_kept [OF w, of "[(demo_writer, lit ''next'')]"] w show ?thesis by simp
qed

lemma write_is_safe_instance:
  "case write_with_backup demo_writer (lit ''p.toml'') (lit ''new'') demo_dir of
     (Inr rep, D') \<Rightarrow> backup_path rep = Some (lit ''p.toml.bak.7_1'') \<and> map_of demo_dir (lit ''p.toml.bak.7_1'') = None \<and>
       map_of D' (lit ''p.toml.bak.7'') = map_of demo_dir (lit ''p.toml.bak.7'')
   | (Inl e, D') \<Rightarrow> False"
proof -
  have "case write_with_backup demo_writer (lit ''p.toml'') (lit ''new'') demo_dir of
     (Inr rep, D') \<Rightarrow> backup_path rep = Some (lit ''p.toml.bak.7_1'') | (Inl e, D') \<Rightarrow> False" by code_simp
  then obtain rep D' where w: "write_with_backup demo_writer (lit ''p.toml'') (lit ''new'') demo_dir = (Inr rep, D')"
      "backup_path rep = Some (lit ''p.toml.bak.7_1'')"
    by (auto split: prod.splits sum.splits)
  have "map_of demo_dir (lit ''p.toml'') \<noteq> None" "map_of demo_dir (lit ''p.toml.bak.7'') \<noteq> None"
      "lit ''p.toml.bak.7'' \<noteq> lit ''p.toml''" by code_simp+
  with write_is_safe [OF w(1)] w show ?thesis by auto
qed

lemma remove_loop_success:
  "remove_loop io bs k D = (Inr d, D') \<Longrightarrow> d = k + length bs \<and> D' = filter (\<lambda>e. fst e \<notin> set bs) D"
  by (induction io bs k D rule: remove_loop.induct)
    (auto simp: drop_entry_def split: option.splits intro: filter_cong)

lemma newest_first_filter: "newest_first (filter P D) = filter P (newest_first D)"
  by (simp add: newest_first_def filter_sort [symmetric] rev_filter)

lemma newest_first_names: "dir_ok D \<Longrightarrow> dir_ok (newest_first D)"
  by (simp add: newest_first_def distinct_map rev_map [symmetric])

lemma filter_not_dropped:
  fixes L :: cfg_dir
  assumes "distinct (map fst L)"
  shows "map fst (filter (\<lambda>e. fst e \<notin> set (drop k (map fst L))) L) = take k (map fst L)"
proof -
  have "filter (\<lambda>x. x \<notin> set (drop k xs)) xs = take k xs" if "distinct xs" for xs :: "ustr list"
  proof -
    have "filter (\<lambda>x. x \<notin> set (drop k xs)) (take k xs @ drop k xs) = take k xs"
      using that set_take_disj_set_drop_if_distinct [of xs k k]
      unfolding filter_append by (auto simp: filter_id_conv filter_empty_conv)
    then show ?thesis by simp
  qed
  from this [OF assms] show ?thesis by (simp add: filter_map comp_def)
qed

text \<open>
  Collection keeps exactly the newest backups: when it succeeds the remaining backups are the first
  \<open>keep_n\<close> of the list, newest first, the count is the number removed, and every other file is untouched.
\<close>

lemma gc_keeps_newest:
  assumes "dir_ok D" "list_backups io name D = Inr baks" "gc_backups io name keep_n D = (Inr deleted, D')"
  shows "list_backups io name D' = Inr (take keep_n baks) \<and> deleted = length baks - keep_n \<and>
    (\<forall>n. n \<notin> set (drop keep_n baks) \<longrightarrow> map_of D' n = map_of D n)"
proof (cases "w_parent_exists io")
  case False
  then show ?thesis using assms by (auto simp: list_backups_def gc_backups_def)
next
  case True
  let ?P = "\<lambda>e. prefix (bak_prefix name) (fst e) \<and> cf_regular (snd e)"
  let ?L = "newest_first (filter ?P D)"
  have dir: "w_read_dir io = None" and baks: "baks = map fst ?L"
    using assms(2) True by (auto simp: list_backups_def split: option.splits)
  have del: "deleted = length (drop keep_n baks)" and D': "D' = filter (\<lambda>e. fst e \<notin> set (drop keep_n baks)) D"
    using assms(2,3) remove_loop_success [of io "drop keep_n baks" 0 D] by (auto simp: gc_backups_def)
  have "filter ?P D' = filter (\<lambda>e. fst e \<notin> set (drop keep_n baks)) (filter ?P D)"
    by (simp add: D' conj_commute)
  then have "newest_first (filter ?P D') = filter (\<lambda>e. fst e \<notin> set (drop keep_n baks)) ?L"
    by (simp only: newest_first_filter)
  then have "map fst (newest_first (filter ?P D')) = take keep_n baks"
    using filter_not_dropped [of ?L keep_n] newest_first_names [OF distinct_filter_fst [OF assms(1)]] by (simp add: baks)
  then have "list_backups io name D' = Inr (take keep_n baks)" using True dir by (simp add: list_backups_def)
  moreover have "\<forall>n. n \<notin> set (drop keep_n baks) \<longrightarrow> map_of D' n = map_of D n"
    using map_of_filter_fst [of "\<lambda>n. n \<notin> set (drop keep_n baks)" D] by (simp add: D')
  ultimately show ?thesis using del by simp
qed

lemma gc_keeps_newest_instance:
  "case gc_backups demo_writer (lit ''p.toml'') 1 demo_dir of
     (Inr d, D') \<Rightarrow> d = 1 \<and> list_backups demo_writer (lit ''p.toml'') D' = Inr [lit ''p.toml.bak.7'']
   | (Inl e, D') \<Rightarrow> False"
proof -
  have ok: "dir_ok demo_dir" by code_simp
  have l: "list_backups demo_writer (lit ''p.toml'') demo_dir = Inr [lit ''p.toml.bak.7'', lit ''p.toml.bak.6'']" by code_simp
  have "case gc_backups demo_writer (lit ''p.toml'') 1 demo_dir of (Inr d, D') \<Rightarrow> True | (Inl e, D') \<Rightarrow> False" by code_simp
  then obtain d D' where g: "gc_backups demo_writer (lit ''p.toml'') 1 demo_dir = (Inr d, D')"
    by (auto split: prod.splits sum.splits)
  from gc_keeps_newest [OF ok l g] g show ?thesis by simp
qed

end
