(* ===== verification/Config_Toml.thy ===== *)
theory Config_Toml
  imports Complex_Main Rust_Str
begin

text \<open>
  TOML documents and what the configuration commands do to them: setting a dotted key
  (\<^verbatim>\<open>stealth-cli/src/commands/config_cli.rs\<close>) and moving a document along a chain of schema migrations
  (\<^verbatim>\<open>stealth-cli/src/config_io/migration.rs\<close>). Tables are ordered maps; dates are kept as text.
\<close>

section \<open>Definitions\<close>

datatype toml =
    T_String ustr | T_Integer int | T_Float real | T_Boolean bool | T_Datetime ustr
  | T_Array "toml list" | T_Table "(ustr \<times> toml) list"

definition toml_get :: "toml \<Rightarrow> ustr \<Rightarrow> toml option" where
  "toml_get v k = (case v of T_Table t \<Rightarrow> map_of t k | _ \<Rightarrow> None)"

definition as_integer :: "toml \<Rightarrow> int option" where
  "as_integer v = (case v of T_Integer n \<Rightarrow> Some n | _ \<Rightarrow> None)"

subsection \<open>Setting a key\<close>

definition parse_i64 :: "ustr \<Rightarrow> int option" where
  "parse_i64 s =
     (let (neg, digits) = (case s of c # r \<Rightarrow> if c = 45 then (True, r) else if c = 43 then (False, r) else (False, s)
                           | [] \<Rightarrow> (False, [])) in
      if digits = [] \<or> \<not> list_all is_digit digits then None
      else
        let n = foldl (\<lambda>acc c. acc * 10 + int (c - 48)) 0 digits; v = (if neg then - n else n) in
        if - (2 ^ 63) \<le> v \<and> v < 2 ^ 63 then Some v else None)"

definition infer_toml_value :: "ustr \<Rightarrow> toml" where
  "infer_toml_value raw =
     (let lower = map ascii_lower raw in
      if lower = lit ''true'' then T_Boolean True
      else if lower = lit ''false'' then T_Boolean False
      else case parse_i64 raw of Some n \<Rightarrow> T_Integer n | None \<Rightarrow> T_String raw)"

datatype WriteTarget = WT_Policy | WT_Authorized

definition strip_layer_prefix :: "ustr \<Rightarrow> WriteTarget \<Rightarrow> ustr" where
  "strip_layer_prefix key target =
     (case strip_prefix key (case target of WT_Policy \<Rightarrow> lit ''policy.'' | WT_Authorized \<Rightarrow> lit ''authorized.'') of
        Some rest \<Rightarrow> rest | None \<Rightarrow> key)"

datatype set_error = EmptyKey | NotATable ustr | ExistsNotATable ustr | LeafParentNotATable

fun set_segments :: "ustr list \<Rightarrow> toml \<Rightarrow> toml \<Rightarrow> set_error + toml" where
  "set_segments [] doc v = Inl EmptyKey"
| "set_segments [leaf] doc v =
     (case doc of T_Table t \<Rightarrow> Inr (T_Table (bt_insert leaf v t)) | _ \<Rightarrow> Inl LeafParentNotATable)"
| "set_segments (seg # seg' # segs) doc v =
     (case doc of
        T_Table t \<Rightarrow>
          (case (case map_of t seg of Some e \<Rightarrow> e | None \<Rightarrow> T_Table []) of
             T_Table u \<Rightarrow>
               and_then (set_segments (seg' # segs) (T_Table u) v) (\<lambda>sub. Inr (T_Table (bt_insert seg sub t)))
           | _ \<Rightarrow> Inl (ExistsNotATable seg))
      | _ \<Rightarrow> Inl (NotATable seg))"

definition key_segments :: "ustr \<Rightarrow> ustr list" where
  "key_segments key = filter (\<lambda>s. s \<noteq> []) (split_char 46 key)"

definition set_dotted_toml :: "toml \<Rightarrow> ustr \<Rightarrow> toml \<Rightarrow> set_error + toml" where
  "set_dotted_toml doc key v = set_segments (key_segments key) doc v"

subsection \<open>Migrations\<close>

record Migration =
  from_version :: nat
  to_version :: nat
  mig_apply :: "toml \<Rightarrow> ustr + toml"

datatype MigrationOutcome = NoOp nat | Migrated nat nat nat

datatype migration_error =
    VersionMissing | VersionNotInteger | VersionOutOfRange int | NoMigration nat nat | ApplyFailed ustr | ChainExceeded nat

definition read_schema_version :: "toml \<Rightarrow> migration_error + nat" where
  "read_schema_version doc =
     (case toml_get doc (lit ''schema_version'') of
        None \<Rightarrow> Inl VersionMissing
      | Some raw \<Rightarrow>
          (case as_integer raw of
             None \<Rightarrow> Inl VersionNotInteger
           | Some n \<Rightarrow> if 0 \<le> n \<and> n < 2 ^ 32 then Inr (nat n) else Inl (VersionOutOfRange n)))"

function migrate_loop ::
  "Migration list \<Rightarrow> nat \<Rightarrow> nat \<Rightarrow> toml \<Rightarrow> nat \<Rightarrow> nat \<Rightarrow> migration_error + toml \<times> nat \<times> nat" where
  "migrate_loop migs target max_steps doc version steps =
     (if version = target then Inr (doc, version, steps)
      else case find (\<lambda>m. from_version m = version) migs of
          None \<Rightarrow> Inl (NoMigration version target)
        | Some m \<Rightarrow>
            (case mig_apply m doc of
               Inl e \<Rightarrow> Inl (ApplyFailed e)
             | Inr doc' \<Rightarrow>
                 if steps + 1 > max_steps then Inl (ChainExceeded max_steps)
                 else migrate_loop migs target max_steps doc' (to_version m) (steps + 1)))"
  by pat_completeness auto
termination
  by (relation "measure (\<lambda>(migs, target, max_steps, doc, version, steps). max_steps - steps)") auto

declare migrate_loop.simps [simp del]

definition migrate_to :: "toml \<Rightarrow> nat \<Rightarrow> Migration list \<Rightarrow> migration_error + toml \<times> MigrationOutcome" where
  "migrate_to doc target migs =
     and_then (read_schema_version doc) (\<lambda>current.
     if current = target then Inr (doc, NoOp current)
     else and_then (migrate_loop migs target (length migs + 1) doc current 0) (\<lambda>(doc', version, steps).
          Inr (doc', Migrated current version steps)))"

definition default_migrations :: "Migration list" where
  "default_migrations = [\<lparr>from_version = 1, to_version = 1, mig_apply = (\<lambda>doc. Inr doc)\<rparr>]"

definition LATEST_SCHEMA_VERSION :: nat where
  "LATEST_SCHEMA_VERSION = 1"

section \<open>Paths into a document\<close>

fun get_segments :: "ustr list \<Rightarrow> toml \<Rightarrow> toml option" where
  "get_segments [] v = Some v"
| "get_segments (s # ss) v = (case toml_get v s of None \<Rightarrow> None | Some w \<Rightarrow> get_segments ss w)"

text \<open>Two paths of which neither leads through the other.\<close>

definition unrelated :: "ustr list \<Rightarrow> ustr list \<Rightarrow> bool" where
  "unrelated p q \<longleftrightarrow> \<not> prefix p q \<and> \<not> prefix q p"

lemma toml_get_insert: "toml_get (T_Table (bt_insert k v t)) j = (if j = k then Some v else toml_get (T_Table t) j)"
  by (simp add: toml_get_def bt_insert_lookup)

lemma set_segments_get: "set_segments segs doc v = Inr doc' \<Longrightarrow> get_segments segs doc' = Some v"
proof (induction segs doc v arbitrary: doc' rule: set_segments.induct)
  case (2 leaf doc v)
  then show ?case by (auto simp: toml_get_insert split: toml.splits)
next
  case (3 seg seg' segs doc v)
  then show ?case by (fastforce simp: toml_get_insert and_then_Inr split: toml.splits)
qed simp

lemma get_empty_table: "get_segments (s # ss) (T_Table []) = None"
  by (simp add: toml_get_def)

lemma set_segments_other:
  "set_segments segs doc v = Inr doc' \<Longrightarrow> unrelated segs q \<Longrightarrow> get_segments q doc' = get_segments q doc"
proof (induction segs doc v arbitrary: doc' q rule: set_segments.induct)
  case (2 leaf doc v)
  then show ?case by (cases q) (auto simp: unrelated_def toml_get_def bt_insert_lookup split: toml.splits)
next
  case (3 seg seg' segs doc v)
  from "3.prems"(1) obtain t u sub where t: "doc = T_Table t" "(case map_of t seg of Some e \<Rightarrow> e | None \<Rightarrow> T_Table []) = T_Table u"
      "set_segments (seg' # segs) (T_Table u) v = Inr sub" "doc' = T_Table (bt_insert seg sub t)"
    by (auto simp: and_then_Inr split: toml.splits)
  obtain k q' where q: "q = k # q'" using "3.prems"(2) by (cases q) (auto simp: unrelated_def)
  show ?case
  proof (cases "k = seg")
    case True
    with "3.prems"(2) q have un: "unrelated (seg' # segs) q'" by (simp add: unrelated_def)
    then obtain s ss where q': "q' = s # ss" by (cases q') (auto simp: unrelated_def)
    have "get_segments q' sub = get_segments q' (T_Table u)" using "3.IH" [OF t(1) _ t(3) un] t(2) by simp
    moreover have "get_segments q doc' = get_segments q' sub" using True q t(4) by (simp add: toml_get_insert)
    moreover have "get_segments q doc = get_segments q' (T_Table u)"
      using True q t(1,2) get_empty_table [of s ss]
      by (cases "map_of t seg") (simp_all add: toml_get_def q' del: get_segments.simps(2), simp_all add: toml_get_def)
    ultimately show ?thesis by simp
  next
    case False
    then show ?thesis using q t by (simp add: toml_get_insert)
  qed
qed simp

section \<open>Chains of migrations\<close>

text \<open>The document after exactly \<open>n\<close> migrations, when it is then for the first time at the target.\<close>

fun chain :: "Migration list \<Rightarrow> nat \<Rightarrow> nat \<Rightarrow> toml \<Rightarrow> nat \<Rightarrow> toml option" where
  "chain migs target 0 doc v = (if v = target then Some doc else None)"
| "chain migs target (Suc n) doc v =
     (if v = target then None
      else case find (\<lambda>m. from_version m = v) migs of
          None \<Rightarrow> None
        | Some m \<Rightarrow> (case mig_apply m doc of Inl _ \<Rightarrow> None | Inr doc' \<Rightarrow> chain migs target n doc' (to_version m)))"

fun reaches :: "Migration list \<Rightarrow> nat \<Rightarrow> nat \<Rightarrow> nat \<Rightarrow> bool" where
  "reaches migs target 0 v \<longleftrightarrow> v = target"
| "reaches migs target (Suc n) v \<longleftrightarrow>
     v \<noteq> target \<and> (\<exists>m. find (\<lambda>m. from_version m = v) migs = Some m \<and> reaches migs target n (to_version m))"

lemma chain_reaches: "chain migs target n doc v = Some d \<Longrightarrow> reaches migs target n v"
  by (induction n arbitrary: doc v) (auto split: if_splits option.splits sum.splits)

lemma reaches_unique: "reaches migs target n v \<Longrightarrow> reaches migs target m v \<Longrightarrow> n = m"
proof (induction n arbitrary: m v)
  case 0
  then show ?case by (cases m) auto
next
  case (Suc n)
  then show ?case by (cases m) auto
qed

lemma reaches_path:
  "reaches migs target n v \<Longrightarrow>
   \<exists>vs. length vs = n \<and> set vs \<subseteq> from_version ` set migs \<and> (\<forall>i<n. reaches migs target (n - i) (vs ! i))"
proof (induction n arbitrary: v)
  case (Suc n)
  then obtain m where m: "find (\<lambda>m. from_version m = v) migs = Some m" "reaches migs target n (to_version m)" by auto
  with Suc.IH obtain vs where vs: "length vs = n" "set vs \<subseteq> from_version ` set migs"
    "\<forall>i<n. reaches migs target (n - i) (vs ! i)" by blast
  have "v \<in> from_version ` set migs" using m(1) by (auto simp: find_Some_iff)
  then show ?case using vs Suc.prems by (intro exI [of _ "v # vs"]) (auto simp: less_Suc_eq_0_disj)
qed simp

text \<open>No version is visited twice on the way to the target, so a chain is no longer than the registry.\<close>

lemma reaches_bound:
  assumes "reaches migs target n v"
  shows "n \<le> length migs"
proof -
  from reaches_path [OF assms] obtain vs where vs: "length vs = n" "set vs \<subseteq> from_version ` set migs"
    "\<forall>i<n. reaches migs target (n - i) (vs ! i)" by blast
  have "distinct vs"
    unfolding distinct_conv_nth
  proof (intro allI impI)
    fix i j assume ij: "i < length vs" "j < length vs" "i \<noteq> j"
    then have "n - i \<noteq> n - j" using vs(1) by auto
    then show "vs ! i \<noteq> vs ! j" using vs(1,3) ij reaches_unique by metis
  qed
  then have "n = card (set vs)" using vs(1) distinct_card by fastforce
  also have "\<dots> \<le> card (from_version ` set migs)" using vs(2) by (intro card_mono) auto
  also have "\<dots> \<le> length migs" by (metis card_image_le card_length finite_set order_trans)
  finally show ?thesis .
qed

lemma migrate_loop_iff:
  "steps \<le> max_steps \<Longrightarrow>
   migrate_loop migs target max_steps doc v steps = Inr r \<longleftrightarrow>
   (\<exists>n d. n + steps \<le> max_steps \<and> chain migs target n doc v = Some d \<and> r = (d, target, steps + n))"
proof (induction migs target max_steps doc v steps rule: migrate_loop.induct)
  case (1 migs target max_steps doc v steps)
  have split: "(\<exists>n d. n + steps \<le> max_steps \<and> chain migs target n doc v = Some d \<and> r = (d, target, steps + n)) \<longleftrightarrow>
      (\<exists>d. chain migs target 0 doc v = Some d \<and> r = (d, target, steps)) \<or>
      (\<exists>n d. n + (steps + 1) \<le> max_steps \<and> chain migs target (Suc n) doc v = Some d \<and> r = (d, target, steps + 1 + n))"
    (is "?L \<longleftrightarrow> ?A \<or> ?B")
  proof
    assume ?L
    then obtain n d where "n + steps \<le> max_steps" "chain migs target n doc v = Some d" "r = (d, target, steps + n)" by blast
    then show "?A \<or> ?B" by (cases n) auto
  next
    assume "?A \<or> ?B"
    then show ?L using "1.prems" by (metis add_Suc add_Suc_right Suc_eq_plus1 add_0 add_0_right)
  qed
  show ?case
    unfolding split
    using "1.IH"
    by (subst migrate_loop.simps) (auto split: option.split sum.split)
qed

section \<open>Properties\<close>

text \<open>
  Setting a dotted key is exact: afterwards the path leads to the value, and every path that neither
  leads through the key nor is led through by it leads where it did before.
\<close>

lemma set_dotted_exact:
  assumes "set_dotted_toml doc key v = Inr doc'"
  shows "get_segments (key_segments key) doc' = Some v \<and>
    (\<forall>q. unrelated (key_segments key) q \<longrightarrow> get_segments q doc' = get_segments q doc)"
  using assms set_segments_get set_segments_other unfolding set_dotted_toml_def by blast

lemma set_dotted_exact_instance:
  "set_dotted_toml (T_Table [(lit ''a'', T_Integer 1)]) (lit ''b.c'') (T_Boolean True) =
     Inr (T_Table [(lit ''a'', T_Integer 1), (lit ''b'', T_Table [(lit ''c'', T_Boolean True)])]) \<and>
   get_segments [lit ''a''] (T_Table [(lit ''a'', T_Integer 1), (lit ''b'', T_Table [(lit ''c'', T_Boolean True)])]) =
     get_segments [lit ''a''] (T_Table [(lit ''a'', T_Integer 1)])"
proof -
  have s: "set_dotted_toml (T_Table [(lit ''a'', T_Integer 1)]) (lit ''b.c'') (T_Boolean True) =
     Inr (T_Table [(lit ''a'', T_Integer 1), (lit ''b'', T_Table [(lit ''c'', T_Boolean True)])])"
    by (simp add: set_dotted_toml_def key_segments_def lit_def and_then_def)
  have "unrelated (key_segments (lit ''b.c'')) [lit ''a'']" by (simp add: unrelated_def key_segments_def lit_def)
  with set_dotted_exact [OF s] s show ?thesis by blast
qed

text \<open>
  C30. A migration succeeds exactly when following the registered steps from the version of the document
  reaches the target: the bound on the number of steps stops every cycle and never a chain that would have
  arrived, and the result is the document after exactly the reported number of steps.
\<close>

theorem migrate_exact:
  "migrate_to doc target migs = Inr (doc', outcome) \<longleftrightarrow>
   (\<exists>v n. read_schema_version doc = Inr v \<and> chain migs target n doc v = Some doc' \<and>
      outcome = (if n = 0 then NoOp v else Migrated v target n))"
proof (cases "read_schema_version doc")
  case (Inl e)
  then show ?thesis by (simp add: migrate_to_def)
next
  case (Inr v)
  show ?thesis
  proof (cases "v = target")
    case True
    have "chain migs target n doc v = Some doc' \<longleftrightarrow> n = 0 \<and> doc' = doc" for n using True by (cases n) auto
    then show ?thesis using Inr True by (auto simp: migrate_to_def)
  next
    case False
    have "n \<le> length migs + 1 \<and> n \<noteq> 0" if "chain migs target n doc v = Some doc'" for n
      using reaches_bound [OF chain_reaches [OF that]] that False by (cases n) auto
    then show ?thesis using Inr False by (auto simp: migrate_to_def and_then_Inr migrate_loop_iff)
  qed
qed

end
