(* ===== verification/Edit_Distance.thy ===== *)
theory Edit_Distance
  imports Rust_Prelude
begin

text \<open>
  The distance behind the suggestions of the configuration checker
  (\<^verbatim>\<open>stealth-cli/src/config_io/lev.rs\<close>): a dynamic program over two rows that are swapped after every
  character. It is the least number of single-character edits that lead from one text to the other.
\<close>

section \<open>Definitions\<close>

text \<open>The inner loop writes the row \<open>cur\<close> from left to right; \<open>j\<close> counts the characters done.\<close>

fun fill_row :: "uchar \<Rightarrow> nat list \<Rightarrow> ustr \<Rightarrow> nat \<Rightarrow> nat list \<Rightarrow> nat list" where
  "fill_row ca prev [] j cur = cur"
| "fill_row ca prev (cb # bs) j cur =
     (let substitution = (if ca \<noteq> cb then 1 else 0) in
      fill_row ca prev bs (j + 1)
        (cur[j + 1 := min (min (prev ! (j + 1) + 1) (cur ! j + 1)) (prev ! j + substitution)]))"

fun rows_loop :: "ustr \<Rightarrow> ustr \<Rightarrow> nat \<Rightarrow> nat list \<Rightarrow> nat list \<Rightarrow> nat list" where
  "rows_loop [] bs i prev cur = prev"
| "rows_loop (ca # as) bs i prev cur = rows_loop as bs (i + 1) (fill_row ca prev bs 0 (cur[0 := i + 1])) prev"

definition distance :: "ustr \<Rightarrow> ustr \<Rightarrow> nat" where
  "distance a b =
     (if a = b then 0
      else if a = [] then length b
      else if b = [] then length a
      else rows_loop a b 0 [0..<length b + 1] (replicate (length b + 1) 0) ! length b)"

text \<open>One insertion, deletion or substitution of a character, anywhere in a text.\<close>

inductive edit :: "'a list \<Rightarrow> 'a list \<Rightarrow> bool" where
  insertion: "edit (xs @ ys) (xs @ y # ys)"
| deletion: "edit (xs @ y # ys) (xs @ ys)"
| substitution: "edit (xs @ y # ys) (xs @ z # ys)"

text \<open>Alignments of two texts with their cost.\<close>

inductive aligned :: "nat \<Rightarrow> 'a list \<Rightarrow> 'a list \<Rightarrow> bool" where
  al_nil: "aligned 0 [] []"
| al_keep: "aligned n xs ys \<Longrightarrow> aligned n (x # xs) (x # ys)"
| al_sub: "aligned n xs ys \<Longrightarrow> aligned (Suc n) (x # xs) (y # ys)"
| al_ins: "aligned n xs ys \<Longrightarrow> aligned (Suc n) xs (y # ys)"
| al_del: "aligned n xs ys \<Longrightarrow> aligned (Suc n) (x # xs) ys"

inductive_cases aligned_NilE: "aligned n [] ys"
inductive_cases aligned_ConsE: "aligned n (x # xs) ys"
inductive_cases aligned_CNilE: "aligned n xs []"
inductive_cases aligned_CCE: "aligned n (x # xs) (y # ys)"

text \<open>The recursive definition of the cost of a best alignment.\<close>

fun lev :: "'a list \<Rightarrow> 'a list \<Rightarrow> nat" where
  "lev [] ys = length ys"
| "lev xs [] = length xs"
| "lev (x # xs) (y # ys) =
     min (min (lev xs (y # ys) + 1) (lev (x # xs) ys + 1)) (lev xs ys + (if x \<noteq> y then 1 else 0))"

section \<open>Alignments\<close>

lemma lev_Nil2 [simp]: "lev xs [] = length xs"
  by (cases xs) simp_all

lemma aligned_Nil: "aligned n [] ys \<longleftrightarrow> n = length ys"
proof (induction ys arbitrary: n)
  case Nil
  show ?case by (auto elim: aligned.cases intro: al_nil)
next
  case (Cons y ys)
  then show ?case by (auto elim: aligned_NilE intro: al_ins)
qed

lemma aligned_Nil2: "aligned n xs [] \<longleftrightarrow> n = length xs"
proof (induction xs arbitrary: n)
  case Nil
  show ?case by (auto elim: aligned.cases intro: al_nil)
next
  case (Cons x xs)
  then show ?case by (auto elim: aligned_CNilE intro: al_del)
qed

lemma aligned_lev: "aligned (lev xs ys) xs ys"
proof (induction xs ys rule: lev.induct)
  case (3 x xs y ys)
  then show ?case by (auto simp: min_def intro: al_keep al_sub al_ins al_del)
qed (simp_all add: aligned_Nil aligned_Nil2)

lemma lev_least: "aligned n xs ys \<Longrightarrow> lev xs ys \<le> n"
proof (induction rule: aligned.induct)
  case (al_ins n xs ys y)
  then show ?case by (cases xs) auto
next
  case (al_del n xs ys x)
  then show ?case by (cases ys) auto
qed auto

lemma aligned_refl: "aligned 0 xs xs"
  by (induction xs) (auto intro: aligned.intros)

text \<open>Alignments compose; one lemma for every way the first alignment can begin.\<close>

lemma trans_keep:
  assumes IH: "\<And>n zs. aligned n ys zs \<Longrightarrow> \<exists>k \<le> m + n. aligned k xs zs" and "aligned n (x # ys) zs"
  shows "\<exists>k \<le> m + n. aligned k (x # xs) zs"
  using assms(2)
proof (induction n "x # ys" zs rule: aligned.induct)
  case (al_keep n zs)
  then show ?case using IH by (blast intro: aligned.al_keep)
next
  case (al_sub n zs y)
  then show ?case using IH by (metis Suc_le_mono add_Suc_right aligned.al_sub)
next
  case (al_ins n zs y)
  then show ?case by (metis Suc_le_mono add_Suc_right aligned.al_ins)
next
  case (al_del n zs)
  then show ?case using IH by (metis Suc_le_mono add_Suc_right aligned.al_del)
qed

lemma trans_sub:
  assumes IH: "\<And>n zs. aligned n ys zs \<Longrightarrow> \<exists>k \<le> m + n. aligned k xs zs" and "aligned n (y # ys) zs"
  shows "\<exists>k \<le> Suc m + n. aligned k (x # xs) zs"
  using assms(2)
proof (induction n "y # ys" zs rule: aligned.induct)
  case (al_keep n zs)
  then show ?case using IH by (metis Suc_le_mono add_Suc aligned.al_sub)
next
  case (al_sub n zs z)
  with IH obtain k where "k \<le> m + n" "aligned k xs zs" by blast
  then show ?case by (intro exI [of _ "Suc k"]) (auto intro: aligned.al_sub)
next
  case (al_ins n zs z)
  then show ?case by (metis Suc_le_mono add_Suc_right aligned.al_ins)
next
  case (al_del n zs)
  with IH obtain k where "k \<le> m + n" "aligned k xs zs" by blast
  then show ?case by (intro exI [of _ "Suc k"]) (auto intro: aligned.al_del)
qed

lemma trans_ins:
  assumes IH: "\<And>n zs. aligned n ys zs \<Longrightarrow> \<exists>k \<le> m + n. aligned k xs zs" and "aligned n (y # ys) zs"
  shows "\<exists>k \<le> Suc m + n. aligned k xs zs"
  using assms(2)
proof (induction n "y # ys" zs rule: aligned.induct)
  case (al_keep n zs)
  then show ?case using IH by (metis Suc_le_mono add_Suc aligned.al_ins)
next
  case (al_sub n zs z)
  with IH obtain k where "k \<le> m + n" "aligned k xs zs" by blast
  then show ?case by (intro exI [of _ "Suc k"]) (auto intro: aligned.al_ins)
next
  case (al_ins n zs z)
  then show ?case by (metis Suc_le_mono add_Suc_right aligned.al_ins)
next
  case (al_del n zs)
  with IH obtain k where "k \<le> m + n" "aligned k xs zs" by blast
  then show ?case by (intro exI [of _ k]) auto
qed

lemma aligned_trans: "aligned m xs ys \<Longrightarrow> aligned n ys zs \<Longrightarrow> \<exists>k \<le> m + n. aligned k xs zs"
proof (induction m xs ys arbitrary: n zs rule: aligned.induct)
  case (al_keep m xs ys x)
  then show ?case by (intro trans_keep) auto
next
  case (al_sub m xs ys x y)
  then show ?case by (intro trans_sub) auto
next
  case (al_ins m xs ys y)
  then show ?case by (intro trans_ins) auto
next
  case (al_del m xs ys x)
  then obtain k where "k \<le> m + n" "aligned k xs zs" by blast
  then show ?case by (intro exI [of _ "Suc k"]) (auto intro: aligned.al_del)
qed auto

section \<open>Edits\<close>

lemma aligned_prefix: "aligned n ys zs \<Longrightarrow> aligned n (xs @ ys) (xs @ zs)"
  by (induction xs) (auto intro: al_keep)

lemma edit_aligned: "edit xs ys \<Longrightarrow> aligned 1 xs ys"
  by (induction rule: edit.induct) (auto intro!: aligned_prefix intro: aligned.intros aligned_refl)

lemma edits_aligned: "(edit ^^ n) xs ys \<Longrightarrow> \<exists>k \<le> n. aligned k xs ys"
proof (induction n arbitrary: ys)
  case 0
  then show ?case using aligned_refl by auto
next
  case (Suc n)
  then obtain zs where "(edit ^^ n) xs zs" "edit zs ys" by auto
  with Suc.IH obtain k where "k \<le> n" "aligned k xs zs" by blast
  moreover from this obtain k' where "k' \<le> k + 1" "aligned k' xs ys"
    using aligned_trans edit_aligned [OF \<open>edit zs ys\<close>] by blast
  ultimately show ?case by (intro exI [of _ k']) auto
qed

lemma edit_Cons: "edit xs ys \<Longrightarrow> edit (x # xs) (x # ys)"
  by (induction rule: edit.induct) (metis append_Cons edit.intros)+

lemma edits_Cons: "(edit ^^ n) xs ys \<Longrightarrow> (edit ^^ n) (x # xs) (x # ys)"
  by (induction n arbitrary: ys) (auto intro: edit_Cons)

lemma aligned_edits: "aligned n xs ys \<Longrightarrow> (edit ^^ n) xs ys"
proof (induction rule: aligned.induct)
  case (al_keep n xs ys x)
  then show ?case by (intro edits_Cons)
next
  case (al_sub n xs ys x y)
  then have "(edit ^^ n) (x # xs) (x # ys)" by (intro edits_Cons)
  moreover have "edit (x # ys) (y # ys)" using edit.substitution [of "[]" x ys y] by simp
  ultimately show ?case by auto
next
  case (al_ins n xs ys y)
  moreover have "edit ys (y # ys)" using edit.insertion [of "[]" ys y] by simp
  ultimately show ?case by auto
next
  case (al_del n xs ys x)
  then have "(edit ^^ n) (x # xs) (x # ys)" by (intro edits_Cons)
  moreover have "edit (x # ys) ys" using edit.deletion [of "[]" x ys] by simp
  ultimately show ?case by auto
qed simp

lemma lev_edits: "(edit ^^ lev xs ys) xs ys \<and> (\<forall>n. (edit ^^ n) xs ys \<longrightarrow> lev xs ys \<le> n)"
  using aligned_edits [OF aligned_lev] edits_aligned lev_least order_trans by blast

lemma edit_rev: "edit xs ys \<Longrightarrow> edit (rev xs) (rev ys)"
  by (induction rule: edit.induct) (simp_all, (metis edit.intros)+)

lemma edits_rev: "(edit ^^ n) xs ys \<Longrightarrow> (edit ^^ n) (rev xs) (rev ys)"
  by (induction n arbitrary: ys) (auto intro: edit_rev)

lemma lev_rev: "lev (rev xs) (rev ys) = lev xs ys"
proof -
  have "lev (rev xs) (rev ys) \<le> lev xs ys" for xs ys :: "'a list"
    using lev_edits [of xs ys] lev_edits [of "rev xs" "rev ys"] edits_rev by blast
  from this [of xs ys] this [of "rev xs" "rev ys"] show ?thesis by simp
qed

section \<open>The dynamic program\<close>

definition rlev :: "'a list \<Rightarrow> 'a list \<Rightarrow> nat" where
  "rlev xs ys = lev (rev xs) (rev ys)"

lemma rlev_snoc:
  "rlev [] ys = length ys" "rlev xs [] = length xs"
  "rlev (xs @ [x]) (ys @ [y]) =
     min (min (rlev xs (ys @ [y]) + 1) (rlev (xs @ [x]) ys + 1)) (rlev xs ys + (if x \<noteq> y then 1 else 0))"
  by (simp_all add: rlev_def)

definition row_of :: "ustr \<Rightarrow> ustr \<Rightarrow> nat list" where
  "row_of p b = map (\<lambda>j. rlev p (take j b)) [0..<length b + 1]"

lemma row_of_nth [simp]: "j \<le> length b \<Longrightarrow> row_of p b ! j = rlev p (take j b)"
  and row_of_length [simp]: "length (row_of p b) = length b + 1"
  by (simp_all add: row_of_def del: upt_Suc)

lemma fill_row_correct:
  assumes "length cur = length b + 1" "b = pre @ bs" "j = length pre"
    "\<forall>k \<le> j. cur ! k = rlev (p @ [ca]) (take k b)"
  shows "fill_row ca (row_of p b) bs j cur = row_of (p @ [ca]) b"
  using assms
proof (induction ca "row_of p b" bs j cur arbitrary: pre rule: fill_row.induct)
  case (1 ca j cur)
  then show ?case by (intro nth_equalityI) (auto simp: less_Suc_eq_le)
next
  case (2 ca cb bs j cur)
  let ?v = "min (min (row_of p b ! (j + 1) + 1) (cur ! j + 1)) (row_of p b ! j + (if ca \<noteq> cb then 1 else 0))"
  have take: "take (j + 1) b = take j b @ [cb]" "j < length b" using "2.prems"(2,3) by auto
  have "?v = rlev (p @ [ca]) (take (j + 1) b)"
    using "2.prems"(4) take by (simp add: rlev_snoc(3))
  then have "\<forall>k \<le> j + 1. (cur[j + 1 := ?v]) ! k = rlev (p @ [ca]) (take k b)"
    using "2.prems"(1,4) take(2) by (auto simp: nth_list_update le_Suc_eq)
  then show ?case using "2.hyps" [of _ "pre @ [cb]"] "2.prems" by simp
qed

lemma rows_loop_correct:
  assumes "length cur = length b + 1" "a = p @ as" "i = length p"
  shows "rows_loop as b i (row_of p b) cur = row_of a b"
  using assms
proof (induction as arbitrary: p i cur)
  case (Cons ca as)
  have "fill_row ca (row_of p b) b 0 (cur[0 := i + 1]) = row_of (p @ [ca]) b"
    using Cons.prems by (intro fill_row_correct [of _ _ "[]"]) (auto simp: rlev_def)
  then show ?case using Cons.IH [of "row_of p b" "p @ [ca]" "i + 1"] Cons.prems by simp
qed simp

lemma lev_refl: "lev xs xs = 0"
  using lev_least [OF aligned_refl] by simp

lemma distance_lev: "distance a b = lev a b"
proof -
  have "row_of [] b = [0..<length b + 1]" by (intro nth_equalityI) (auto simp: rlev_snoc(1) less_Suc_eq_le simp del: upt_Suc)
  then have "rows_loop a b 0 [0..<length b + 1] (replicate (length b + 1) 0) = row_of a b"
    using rows_loop_correct [of "replicate (length b + 1) 0" b a "[]" a 0] by simp
  then show ?thesis by (simp add: distance_def lev_refl rlev_def lev_rev)
qed

lemma distance_least: "distance a b = (LEAST n. (edit ^^ n) a b)"
  unfolding distance_lev using lev_edits [of a b] by (auto intro: Least_equality [symmetric])

section \<open>Properties\<close>

text \<open>
  C31. The distance is exact: it is the least number of insertions, deletions and substitutions of single
  characters that lead from the first text to the second, although the program keeps only two rows of the
  table and reuses their memory.
\<close>

theorem distance_exact:
  "(edit ^^ distance a b) a b \<and> distance a b = (LEAST n. (edit ^^ n) a b)"
  unfolding distance_least [symmetric] using lev_edits [of a b] by (simp add: distance_lev)

end
