(* ===== verification/Config_Validate.thy ===== *)
theory Config_Validate
  imports Config_Toml Edit_Distance
begin

text \<open>
  Validation of configuration documents (\<^verbatim>\<open>stealth-cli/src/config_io/validate.rs\<close> and the schema table of
  \<^verbatim>\<open>schema.rs\<close> and \<^verbatim>\<open>policy.rs\<close>). The TOML reader, the strict deserializers of the two schemas, the bridge to
  JSON and the compiler of regular expressions are parameters.
\<close>

section \<open>Definitions\<close>

record toml_error =
  te_message :: ustr
  te_span :: "(nat \<times> nat) option"

datatype known_config = Known_Policy | Known_Authorized

record config_lib =
  lib_parse :: "ustr \<Rightarrow> toml_error + toml"
  lib_bridge :: "toml \<Rightarrow> ustr option"
  lib_deserialize :: "known_config \<Rightarrow> ustr \<Rightarrow> toml_error option"
  lib_regex :: "ustr \<Rightarrow> ustr option"
  lib_debug :: "ustr \<Rightarrow> ustr"

definition SCHEMA_VERSION_FIELD :: ustr where
  "SCHEMA_VERSION_FIELD = lit ''schema_version''"

definition supported_versions :: "known_config \<Rightarrow> nat list" where
  "supported_versions T = [1]"

definition known_fields :: "known_config \<Rightarrow> ustr list" where
  "known_fields T =
     (case T of
        Known_Policy \<Rightarrow> [lit ''schema_version'', lit ''require_vpn'', lit ''vpn_required_country'', lit ''vpn_instances'',
                         lit ''proxies'', lit ''fallback_chain'']
      | Known_Authorized \<Rightarrow> [lit ''schema_version'', lit ''targets'', lit ''url_pattern'', lit ''auth_allowed''])"

datatype ValidationCode = UnknownField | WrongType | MissingRequired | SchemaVersionUnsupported | Custom ustr

record ValidationIssue =
  vi_path :: ustr
  vi_code :: ValidationCode
  vi_message :: ustr
  vi_hint :: "ustr option"

record ValidationReport =
  vr_errors :: "ValidationIssue list"
  vr_warnings :: "ValidationIssue list"

definition empty_report :: ValidationReport where
  "empty_report = \<lparr>vr_errors = [], vr_warnings = []\<rparr>"

definition report_is_ok :: "ValidationReport \<Rightarrow> bool" where
  "report_is_ok r \<longleftrightarrow> vr_errors r = []"

text \<open>Lenient by option or by the environment.\<close>

definition is_lenient :: "bool \<Rightarrow> ustr option \<Rightarrow> bool" where
  "is_lenient lenient_unknown_fields env \<longleftrightarrow> lenient_unknown_fields \<or> env = Some (lit ''1'')"

definition push_issue :: "bool \<Rightarrow> ValidationIssue \<Rightarrow> ValidationReport \<Rightarrow> ValidationReport" where
  "push_issue lenient issue r =
     (if lenient \<and> (vi_code issue = UnknownField \<or> vi_code issue = SchemaVersionUnsupported)
      then r\<lparr>vr_warnings := vr_warnings r @ [issue]\<rparr>
      else r\<lparr>vr_errors := vr_errors r @ [issue]\<rparr>)"

definition span_path :: "toml_error \<Rightarrow> ustr" where
  "span_path e =
     (case te_span e of
        Some (a, b) \<Rightarrow> lit ''byte '' @ digits_of a @ lit ''..'' @ digits_of b
      | None \<Rightarrow> lit ''$'')"

definition extract_backtick_value :: "ustr \<Rightarrow> ustr option" where
  "extract_backtick_value message =
     (case snd (split_once 96 message) of
        None \<Rightarrow> None
      | Some rest \<Rightarrow> (case split_once 96 rest of (v, Some _) \<Rightarrow> Some v | (_, None) \<Rightarrow> None))"

definition error_path :: "toml_error \<Rightarrow> ustr" where
  "error_path e = (case extract_backtick_value (te_message e) of Some v \<Rightarrow> v | None \<Rightarrow> span_path e)"

text \<open>\<^verbatim>\<open>min_by_key\<close> keeps the first of several least elements.\<close>

fun min_by_key :: "('a \<Rightarrow> nat) \<Rightarrow> 'a list \<Rightarrow> 'a option" where
  "min_by_key k [] = None"
| "min_by_key k (x # xs) =
     (case min_by_key k xs of None \<Rightarrow> Some x | Some y \<Rightarrow> if k x \<le> k y then Some x else Some y)"

definition closest_field :: "known_config \<Rightarrow> ustr \<Rightarrow> ustr option" where
  "closest_field T field =
     map_option fst (min_by_key snd (filter (\<lambda>(c, d). d \<le> 2) (map (\<lambda>c. (c, distance field c)) (known_fields T))))"

definition closest_field_hint :: "known_config \<Rightarrow> ustr \<Rightarrow> ustr option" where
  "closest_field_hint T field = map_option (\<lambda>c. lit ''Did you mean `'' @ c @ lit ''`?'') (closest_field T field)"

definition issue_from_toml_error :: "known_config \<Rightarrow> toml_error \<Rightarrow> ValidationIssue" where
  "issue_from_toml_error T e =
     (let message = te_message e;
          (code, hint) =
            (if sublist (lit ''unknown field'') message
             then (UnknownField, Option.bind (extract_backtick_value message) (closest_field_hint T))
             else if sublist (lit ''missing field'') message then (MissingRequired, None)
             else if sublist (lit ''invalid type'') message then (WrongType, None)
             else (Custom (lit ''Deserialize''), None))
      in \<lparr>vi_path = error_path e, vi_code = code, vi_message = message, vi_hint = hint\<rparr>)"

definition int_text :: "int \<Rightarrow> ustr" where
  "int_text n = (if n < 0 then lit ''-'' @ digits_of (nat (- n)) else digits_of (nat n))"

definition unsupported_schema_version_issue :: "known_config \<Rightarrow> ustr \<Rightarrow> ValidationIssue" where
  "unsupported_schema_version_issue T found =
     \<lparr>vi_path = SCHEMA_VERSION_FIELD, vi_code = SchemaVersionUnsupported,
      vi_message = lit ''unsupported schema version '' @ found,
      vi_hint = Some (lit ''Supported versions for this config are: '' @
        intersperse_concat (lit '', '') (map digits_of (supported_versions T)) @ lit ''.'')\<rparr>"

definition schema_version_issue :: "known_config \<Rightarrow> toml \<Rightarrow> ValidationIssue option" where
  "schema_version_issue T v =
     (case v of
        T_Table t \<Rightarrow>
          (case map_of t SCHEMA_VERSION_FIELD of
             None \<Rightarrow> None
           | Some raw \<Rightarrow>
               (case as_integer raw of
                  None \<Rightarrow> Some \<lparr>vi_path = SCHEMA_VERSION_FIELD, vi_code = WrongType,
                     vi_message = SCHEMA_VERSION_FIELD @ lit '' must be an integer schema version'',
                     vi_hint = Some (lit ''Use schema_version = 1 for the reserved v1 config schema.'')\<rparr>
                | Some n \<Rightarrow>
                    if 0 \<le> n \<and> n < 2 ^ 32 \<and> nat n \<in> set (supported_versions T) then None
                    else Some (unsupported_schema_version_issue T (int_text n))))
      | _ \<Rightarrow> None)"

definition validate_schema_version :: "bool \<Rightarrow> known_config \<Rightarrow> toml \<Rightarrow> ValidationReport \<Rightarrow> ValidationReport" where
  "validate_schema_version lenient T v r =
     (case schema_version_issue T v of None \<Rightarrow> r | Some i \<Rightarrow> push_issue lenient i r)"

definition validate_toml_against :: "config_lib \<Rightarrow> bool \<Rightarrow> known_config \<Rightarrow> ustr \<Rightarrow> ValidationReport" where
  "validate_toml_against L lenient T txt =
     (case lib_parse L txt of
        Inl e \<Rightarrow> empty_report\<lparr>vr_errors := [\<lparr>vi_path = span_path e, vi_code = Custom (lit ''TomlParse''),
                    vi_message = te_message e, vi_hint = None\<rparr>]\<rparr>
      | Inr v \<Rightarrow>
          (case lib_bridge L v of
             Some e \<Rightarrow> empty_report\<lparr>vr_errors := [\<lparr>vi_path = lit ''$'', vi_code = Custom (lit ''TomlJsonBridge''),
                    vi_message = lit ''TOML value could not be represented as JSON: '' @ e, vi_hint = None\<rparr>]\<rparr>
           | None \<Rightarrow>
               let r = validate_schema_version lenient T v empty_report in
               (case lib_deserialize L T txt of
                  Some e \<Rightarrow> push_issue lenient (issue_from_toml_error T e) r
                | None \<Rightarrow> r)))"

fun indexed_patterns :: "nat \<Rightarrow> toml list \<Rightarrow> (nat \<times> ustr) list" where
  "indexed_patterns i [] = []"
| "indexed_patterns i (x # xs) =
     (case toml_get x (lit ''url_pattern'') of Some (T_String s) \<Rightarrow> [(i, s)] | _ \<Rightarrow> []) @ indexed_patterns (Suc i) xs"

definition extract_target_patterns :: "config_lib \<Rightarrow> ustr \<Rightarrow> (nat \<times> ustr) list" where
  "extract_target_patterns L txt =
     (case lib_parse L txt of
        Inl _ \<Rightarrow> []
      | Inr v \<Rightarrow> (case toml_get v (lit ''targets'') of Some (T_Array xs) \<Rightarrow> indexed_patterns 0 xs | _ \<Rightarrow> []))"

definition regex_issue :: "config_lib \<Rightarrow> nat \<times> ustr \<Rightarrow> ValidationIssue option" where
  "regex_issue L ip =
     map_option (\<lambda>e. \<lparr>vi_path = lit ''targets['' @ digits_of (fst ip) @ lit ''].url_pattern'',
         vi_code = Custom (lit ''InvalidRegex''),
         vi_message = lit ''url_pattern '' @ lib_debug L (snd ip) @ lit '' is not a valid regex: '' @ e,
         vi_hint = Some (lit ''Escape regex metacharacters (e.g. `'' @ [92] @ lit ''.`) or wrap a literal host in `^https?://example'' @ [92] @
           lit ''.com/`.'')\<rparr>)
       (lib_regex L (snd ip))"

fun push_patterns :: "config_lib \<Rightarrow> bool \<Rightarrow> (nat \<times> ustr) list \<Rightarrow> ValidationReport \<Rightarrow> ValidationReport" where
  "push_patterns L lenient [] r = r"
| "push_patterns L lenient (ip # ips) r =
     push_patterns L lenient ips (case regex_issue L ip of None \<Rightarrow> r | Some i \<Rightarrow> push_issue lenient i r)"

definition validate_authorized_toml :: "config_lib \<Rightarrow> bool \<Rightarrow> ustr \<Rightarrow> ValidationReport" where
  "validate_authorized_toml L lenient txt =
     push_patterns L lenient (extract_target_patterns L txt) (validate_toml_against L lenient Known_Authorized txt)"

section \<open>Lemmas\<close>

definition downgradable :: "ValidationIssue \<Rightarrow> bool" where
  "downgradable i \<longleftrightarrow> vi_code i = UnknownField \<or> vi_code i = SchemaVersionUnsupported"

text \<open>A lenient report is the strict one with the downgradable errors moved to the warnings.\<close>

definition softened :: "ValidationReport \<Rightarrow> ValidationReport \<Rightarrow> bool" where
  "softened strict soft \<longleftrightarrow>
     vr_warnings strict = [] \<and>
     vr_errors soft = filter (\<lambda>i. \<not> downgradable i) (vr_errors strict) \<and>
     vr_warnings soft = filter downgradable (vr_errors strict)"

lemma softened_empty: "softened empty_report empty_report"
  by (simp add: softened_def empty_report_def)

lemma softened_push: "softened a b \<Longrightarrow> softened (push_issue False i a) (push_issue True i b)"
  by (auto simp: softened_def push_issue_def downgradable_def)

lemma softened_push_opt:
  "softened a b \<Longrightarrow> softened (case x of None \<Rightarrow> a | Some i \<Rightarrow> push_issue False i a) (case x of None \<Rightarrow> b | Some i \<Rightarrow> push_issue True i b)"
  by (cases x) (simp_all add: softened_push)

lemma softened_custom: "vi_code i = Custom c \<Longrightarrow> softened (empty_report\<lparr>vr_errors := [i]\<rparr>) (empty_report\<lparr>vr_errors := [i]\<rparr>)"
  by (simp add: softened_def downgradable_def empty_report_def)

lemma softened_against: "softened (validate_toml_against L False T txt) (validate_toml_against L True T txt)"
proof -
  have "softened (validate_schema_version False T v empty_report) (validate_schema_version True T v empty_report)" for v
    unfolding validate_schema_version_def by (rule softened_push_opt [OF softened_empty])
  then show ?thesis
    by (auto simp: validate_toml_against_def Let_def intro: softened_push softened_custom split: sum.split option.split)
qed

lemma softened_patterns: "softened a b \<Longrightarrow> softened (push_patterns L False ips a) (push_patterns L True ips b)"
  by (induction ips arbitrary: a b) (simp_all add: softened_push_opt)

lemma push_patterns_strict:
  "vr_errors (push_patterns L False ips r) = vr_errors r @ List.map_filter (regex_issue L) ips"
  by (induction ips arbitrary: r) (auto simp: push_issue_def map_filter_simps split: option.split)

lemma min_by_key_least:
  "case min_by_key k xs of
     None \<Rightarrow> xs = []
   | Some x \<Rightarrow> x \<in> set xs \<and> (\<forall>y\<in>set xs. k x \<le> k y)"
  by (induction xs) (auto split: option.splits)

lemma closest_field_least:
  "case closest_field T field of
     None \<Rightarrow> \<forall>c\<in>set (known_fields T). 2 < distance field c
   | Some c \<Rightarrow> c \<in> set (known_fields T) \<and> distance field c \<le> 2 \<and>
       (\<forall>c'\<in>set (known_fields T). distance field c \<le> distance field c')"
proof -
  let ?l = "filter (\<lambda>(c, d). d \<le> 2) (map (\<lambda>c. (c, distance field c)) (known_fields T))"
  show ?thesis
  proof (cases "min_by_key snd ?l")
    case None
    then have "?l = []" using min_by_key_least [where k = snd and xs = ?l] by simp
    then show ?thesis by (auto simp: closest_field_def None filter_empty_conv not_le)
  next
    case (Some p)
    then have p: "p \<in> set ?l" "\<forall>q\<in>set ?l. snd p \<le> snd q"
      using min_by_key_least [where k = snd and xs = ?l] unfolding Some option.case by blast+
    then obtain c where c: "p = (c, distance field c)" "c \<in> set (known_fields T)" "distance field c \<le> 2" by auto
    have "distance field c \<le> distance field c'" if "c' \<in> set (known_fields T)" for c'
      using p(2) c that by (cases "distance field c' \<le> 2") auto
    then show ?thesis using c by (simp add: closest_field_def Some)
  qed
qed

lemma schema_version_supported:
  "schema_version_issue T v = None \<longleftrightarrow> toml_get v SCHEMA_VERSION_FIELD \<in> {None, Some (T_Integer 1)}"
proof (cases "toml_get v SCHEMA_VERSION_FIELD")
  case None
  then show ?thesis by (auto simp: schema_version_issue_def toml_get_def split: toml.splits)
next
  case (Some raw)
  then obtain t where "v = T_Table t" "map_of t SCHEMA_VERSION_FIELD = Some raw"
    by (auto simp: toml_get_def split: toml.splits)
  then show ?thesis using Some
    by (auto simp: schema_version_issue_def as_integer_def supported_versions_def nat_eq_iff split: toml.splits)
qed

lemma push_strict: "vr_errors (push_issue False i r) = vr_errors r @ [i]"
  by (simp add: push_issue_def)

lemma against_strict_ok:
  "report_is_ok (validate_toml_against L False T txt) \<longleftrightarrow>
   (\<exists>v. lib_parse L txt = Inr v \<and> lib_bridge L v = None \<and> lib_deserialize L T txt = None \<and>
      toml_get v SCHEMA_VERSION_FIELD \<in> {None, Some (T_Integer 1)})"
  unfolding schema_version_supported [of T, symmetric]
  by (auto simp: report_is_ok_def validate_toml_against_def validate_schema_version_def push_strict empty_report_def Let_def
      split: sum.split option.split)

section \<open>Properties\<close>

text \<open>
  Leniency is a pure downgrade: the lenient report of an authorization document has exactly the errors
  of the strict one that are neither unknown fields nor unsupported versions, the others as warnings, and
  nothing else. A broken URL pattern is an error in both modes.
\<close>

lemma lenient_only_downgrades:
  "vr_errors (validate_authorized_toml L True txt) =
     filter (\<lambda>i. \<not> downgradable i) (vr_errors (validate_authorized_toml L False txt)) \<and>
   vr_warnings (validate_authorized_toml L True txt) =
     filter downgradable (vr_errors (validate_authorized_toml L False txt)) \<and>
   vr_warnings (validate_authorized_toml L False txt) = [] \<and>
   (\<forall>ip e. ip \<in> set (extract_target_patterns L txt) \<and> lib_regex L (snd ip) = Some e \<longrightarrow>
      \<not> report_is_ok (validate_authorized_toml L True txt))"
proof -
  have soft: "softened (validate_authorized_toml L False txt) (validate_authorized_toml L True txt)"
    unfolding validate_authorized_toml_def by (rule softened_patterns [OF softened_against])
  have "\<not> report_is_ok (validate_authorized_toml L True txt)"
    if "ip \<in> set (extract_target_patterns L txt)" "lib_regex L (snd ip) = Some e" for ip e
  proof -
    from that(2) obtain i where i: "regex_issue L ip = Some i" "\<not> downgradable i"
      by (auto simp: regex_issue_def downgradable_def)
    then have "i \<in> set (vr_errors (validate_authorized_toml L False txt))"
      using that(1) by (auto simp: validate_authorized_toml_def push_patterns_strict map_filter_def intro!: image_eqI [of _ _ ip])
    with i(2) show ?thesis using soft by (auto simp: softened_def report_is_ok_def filter_empty_conv)
  qed
  with soft show ?thesis by (auto simp: softened_def)
qed

text \<open>
  Strict validation accepts an authorization document exactly when it parses, has a JSON image, fits the
  schema, has no version or version one, and all its patterns compile.
\<close>

lemma strict_accepts_exactly:
  "report_is_ok (validate_authorized_toml L False txt) \<longleftrightarrow>
   (\<exists>v. lib_parse L txt = Inr v \<and> lib_bridge L v = None \<and> lib_deserialize L Known_Authorized txt = None \<and>
      toml_get v (lit ''schema_version'') \<in> {None, Some (T_Integer 1)} \<and>
      list_all (\<lambda>ip. lib_regex L (snd ip) = None) (extract_target_patterns L txt))"
proof -
  have "List.map_filter (regex_issue L) ips = [] \<longleftrightarrow> list_all (\<lambda>ip. lib_regex L (snd ip) = None) ips" for ips
    by (induction ips) (auto simp: map_filter_simps regex_issue_def split: option.split)
  then have "report_is_ok (validate_authorized_toml L False txt) \<longleftrightarrow>
      report_is_ok (validate_toml_against L False Known_Authorized txt) \<and>
      list_all (\<lambda>ip. lib_regex L (snd ip) = None) (extract_target_patterns L txt)"
    by (simp add: report_is_ok_def validate_authorized_toml_def push_patterns_strict)
  then show ?thesis unfolding against_strict_ok SCHEMA_VERSION_FIELD_def by blast
qed

text \<open>
  The suggestion for an unknown field is right: a known field that is reached with the fewest
  single-character edits, at most two, and none is made only when every known field needs more.
\<close>

lemma suggestion_exact:
  "case closest_field T field of
     None \<Rightarrow> closest_field_hint T field = None \<and>
       list_all (\<lambda>c. 2 < (LEAST n. (edit ^^ n) field c)) (known_fields T)
   | Some c \<Rightarrow> closest_field_hint T field = Some (lit ''Did you mean `'' @ c @ lit ''`?'') \<and>
       c \<in> set (known_fields T) \<and> (LEAST n. (edit ^^ n) field c) \<le> 2 \<and>
       list_all (\<lambda>c'. (LEAST n. (edit ^^ n) field c) \<le> (LEAST n. (edit ^^ n) field c')) (known_fields T)"
  using closest_field_least [of T field]
  unfolding distance_least [symmetric] closest_field_hint_def
  by (auto simp: list_all_iff split: option.splits)

end
