(* ===== verification/Config_Show.thy ===== *)
theory Config_Show
  imports Json_Value Rust_Str
begin

text \<open>
  What the configuration commands print (\<^verbatim>\<open>stealth-cli/src/commands/config_cli.rs\<close>): the merged view with its
  redaction of secrets, the lookup of a dotted key, and the line difference of two files. Reading a TOML
  file as JSON is a parameter, with its outcomes; environment variables are arguments.
\<close>

section \<open>Definitions\<close>

definition CONFIG_REDACTED :: ustr where
  "CONFIG_REDACTED = lit ''<redacted>''"

definition TRACKED_ENV :: "ustr list" where
  "TRACKED_ENV = [lit ''REV_SCRAPING_REQUIRE_VPN'', lit ''VPN_INSTANCES'', lit ''REV_SCRAPING_CONFIG_LENIENT'',
     lit ''REV_SCRAPING_HOME'', lit ''REV_SCRAPING_POLICY'', lit ''REV_SCRAPING_AUTHORIZED'']"

definition NEEDLES :: "ustr list" where
  "NEEDLES = [lit ''password'', lit ''passwd'', lit ''secret'', lit ''token'', lit ''api_key'', lit ''apikey'', lit ''cookie'',
     lit ''auth'', lit ''credential'', lit ''private_key'']"

definition key_looks_secret :: "ustr \<Rightarrow> bool" where
  "key_looks_secret key \<longleftrightarrow> list_ex (\<lambda>n. sublist n (map ascii_lower key)) NEEDLES"

function (sequential) redact_json_tree :: "json \<Rightarrow> json"
  and redact_json_list :: "json list \<Rightarrow> json list"
  and redact_json_fields :: "(ustr \<times> json) list \<Rightarrow> (ustr \<times> json) list" where
  "redact_json_tree (JObj fs) = JObj (redact_json_fields fs)"
| "redact_json_tree (JArr vs) = JArr (redact_json_list vs)"
| "redact_json_tree v = v"
| "redact_json_list [] = []"
| "redact_json_list (v # vs) = redact_json_tree v # redact_json_list vs"
| "redact_json_fields [] = []"
| "redact_json_fields ((k, v) # fs) =
     (k, if key_looks_secret k then JStr CONFIG_REDACTED else redact_json_tree v) # redact_json_fields fs"
  by pat_completeness auto
termination
  by (relation "measure json_measure") auto

datatype toml_read = Missing_File | Unreadable_File | Parse_Failed ustr | Parsed_Toml "json option"

definition read_toml_as_json :: "toml_read \<Rightarrow> json" where
  "read_toml_as_json r =
     (case r of
        Missing_File \<Rightarrow> JNull
      | Unreadable_File \<Rightarrow> JNull
      | Parsed_Toml v \<Rightarrow> (case v of Some j \<Rightarrow> j | None \<Rightarrow> JNull)
      | Parse_Failed e \<Rightarrow> JObj [(lit ''_parse_error'', JStr e)])"

definition is_toml_name :: "ustr \<Rightarrow> bool" where
  "is_toml_name name \<longleftrightarrow> ends_with name (lit ''.toml'') \<and> name \<noteq> lit ''.toml''"

definition read_sites_dir :: "(ustr \<times> toml_read) list option \<Rightarrow> json" where
  "read_sites_dir entries =
     (case entries of
        None \<Rightarrow> JNull
      | Some es \<Rightarrow> JObj (bt_of (map (\<lambda>(n, r). (n, read_toml_as_json r)) (filter (\<lambda>(n, r). is_toml_name n) es))))"

definition env_entry :: "(ustr \<times> ustr) list \<Rightarrow> ustr \<Rightarrow> json" where
  "env_entry vars key =
     (case map_of vars key of
        Some value \<Rightarrow> JStr (if key_looks_secret key then CONFIG_REDACTED else value)
      | None \<Rightarrow> JNull)"

fun sweep_env :: "(ustr \<times> ustr) list \<Rightarrow> (ustr \<times> json) list \<Rightarrow> (ustr \<times> json) list" where
  "sweep_env [] out = out"
| "sweep_env ((k, v) # vars) out =
     sweep_env vars (if key_looks_secret k \<and> map_of out k = None then bt_insert k (JStr CONFIG_REDACTED) out else out)"

definition collect_redacted_env :: "(ustr \<times> ustr) list \<Rightarrow> json" where
  "collect_redacted_env vars = JObj (sweep_env vars (bt_of (map (\<lambda>k. (k, env_entry vars k)) TRACKED_ENV)))"

record show_world =
  sw_policy :: toml_read
  sw_authorized :: toml_read
  sw_sites :: "(ustr \<times> toml_read) list option"
  sw_env :: "(ustr \<times> ustr) list"

definition build_show_value :: "show_world \<Rightarrow> json" where
  "build_show_value w =
     JObj (bt_of
       [(lit ''policy'', redact_json_tree (read_toml_as_json (sw_policy w))),
        (lit ''authorized'', redact_json_tree (read_toml_as_json (sw_authorized w))),
        (lit ''sites'', redact_json_tree (read_sites_dir (sw_sites w))),
        (lit ''env'', collect_redacted_env (sw_env w))])"

fun resolve_segments :: "json \<Rightarrow> ustr list \<Rightarrow> json option" where
  "resolve_segments cur [] = Some cur"
| "resolve_segments cur (seg # segs) =
     (case cur of
        JObj fs \<Rightarrow> (case map_of fs seg of Some v \<Rightarrow> resolve_segments v segs | None \<Rightarrow> None)
      | JArr vs \<Rightarrow>
          (case parse_unsigned usize_max seg of
             Inr i \<Rightarrow> if i < length vs then resolve_segments (vs ! i) segs else None
           | Inl _ \<Rightarrow> None)
      | _ \<Rightarrow> None)"

definition resolve_dotted :: "json \<Rightarrow> ustr \<Rightarrow> json option" where
  "resolve_dotted doc key = resolve_segments doc (split_char 46 key)"

definition redact_if_secret :: "ustr \<Rightarrow> json \<Rightarrow> json" where
  "redact_if_secret key v = (if list_ex key_looks_secret (split_char 46 key) then JStr CONFIG_REDACTED else v)"

text \<open>The exit code of \<^verbatim>\<open>config get\<close> and the value it prints.\<close>

definition run_get :: "show_world \<Rightarrow> ustr \<Rightarrow> nat \<times> json option" where
  "run_get w key =
     (case resolve_dotted (build_show_value w) key of
        Some v \<Rightarrow> (0, Some (redact_if_secret key v))
      | None \<Rightarrow> (1, None))"

subsection \<open>Line difference\<close>

fun diff_lines :: "ustr list \<Rightarrow> ustr list \<Rightarrow> (uchar \<times> ustr) list" where
  "diff_lines (b # bs) (l # ls) = (if b = l then [(32, b)] else [(45, b), (43, l)]) @ diff_lines bs ls"
| "diff_lines (b # bs) [] = (45, b) # diff_lines bs []"
| "diff_lines [] (l # ls) = (43, l) # diff_lines [] ls"
| "diff_lines [] [] = []"

definition chomp_cr :: "ustr \<Rightarrow> ustr" where
  "chomp_cr l = (if l \<noteq> [] \<and> last l = 13 then butlast l else l)"

text \<open>\<^verbatim>\<open>lines()\<close>: the last line end is optional, and a carriage return before a line end goes with it.\<close>

definition text_lines :: "ustr \<Rightarrow> ustr list" where
  "text_lines s =
     (let ps = split_char 10 s in
      if last ps = [] then map chomp_cr (butlast ps) else map chomp_cr (butlast ps) @ [last ps])"

definition unified_diff :: "ustr \<Rightarrow> ustr \<Rightarrow> ustr \<Rightarrow> ustr \<Rightarrow> ustr" where
  "unified_diff base live base_label live_label =
     (let bs = text_lines base; ls = text_lines live in
      lit ''--- a/'' @ base_label @ [10] @ lit ''+++ b/'' @ live_label @ [10] @
      lit ''@@ -1,'' @ digits_of (max (length bs) 1) @ lit '' +1,'' @ digits_of (max (length ls) 1) @ lit '' @@'' @ [10] @
      concat (map (\<lambda>(c, l). c # l @ [10]) (diff_lines bs ls)))"

section \<open>Lemmas\<close>

lemma redact_fields_lookup:
  "map_of (redact_json_fields fs) k =
     map_option (\<lambda>v. if key_looks_secret k then JStr CONFIG_REDACTED else redact_json_tree v) (map_of fs k)"
  by (induction fs) auto

lemma redact_list_map: "redact_json_list vs = map redact_json_tree vs"
  by (induction vs) auto

lemma resolve_append:
  "resolve_segments v (p @ q) = (case resolve_segments v p of Some w \<Rightarrow> resolve_segments w q | None \<Rightarrow> None)"
  by (induction v p rule: resolve_segments.induct) (auto split: json.splits option.splits sum.splits)

text \<open>An array index is no secret key, so on arrays the names do not matter.\<close>

lemma resolve_redacted_public:
  "list_all (\<lambda>s. \<not> key_looks_secret s) segs \<Longrightarrow>
   resolve_segments (redact_json_tree v) segs = map_option redact_json_tree (resolve_segments v segs)"
proof (induction v segs rule: resolve_segments.induct)
  case (2 cur seg segs)
  then show ?case
    by (cases cur) (auto simp: redact_fields_lookup redact_list_map split: option.split sum.split)
qed simp

lemma parse_digits_chars: "parse_digits mx s acc = Inr v \<Longrightarrow> c \<in> set s \<Longrightarrow> is_digit c"
  by (induction mx s acc rule: parse_digits.induct) (auto split: if_splits)

lemma parse_unsigned_chars: "parse_unsigned mx s = Inr v \<Longrightarrow> c \<in> set s \<Longrightarrow> is_digit c \<or> c = 43"
  by (auto simp: parse_unsigned_def dest: parse_digits_chars split: list.splits if_splits)

lemma needles_letters: "n \<in> set NEEDLES \<Longrightarrow> \<exists>c\<in>set n. 97 \<le> c"
  by (auto simp: NEEDLES_def lit_def)

lemma secret_not_number:
  assumes "key_looks_secret seg"
  shows "\<exists>e. parse_unsigned mx seg = Inl e"
proof (cases "parse_unsigned mx seg")
  case (Inr i)
  from assms obtain n where n: "n \<in> set NEEDLES" "sublist n (map ascii_lower seg)"
    by (auto simp: key_looks_secret_def list_ex_iff)
  from needles_letters [OF n(1)] obtain c where "c \<in> set n" "97 \<le> c" by blast
  with set_mono_sublist [OF n(2)] obtain d where "d \<in> set seg" "c = ascii_lower d" by auto
  with parse_unsigned_chars [OF Inr] \<open>97 \<le> c\<close> show ?thesis by (fastforce simp: ascii_lower_def is_digit_def)
qed simp

lemma resolve_redacted_secret:
  assumes "list_all (\<lambda>s. \<not> key_looks_secret s) p" "key_looks_secret s"
  shows "resolve_segments (redact_json_tree v) (p @ s # q) =
    (if q = [] \<and> resolve_segments v (p @ [s]) \<noteq> None then Some (JStr CONFIG_REDACTED) else None)"
proof (cases "resolve_segments v p")
  case None
  then show ?thesis using resolve_redacted_public [OF assms(1), of v] by (simp add: resolve_append)
next
  case (Some w)
  then have "resolve_segments (redact_json_tree v) (p @ s # q) = resolve_segments (redact_json_tree w) (s # q)"
    using resolve_redacted_public [OF assms(1), of v] by (simp add: resolve_append)
  also have "\<dots> = (if q = [] \<and> resolve_segments w [s] \<noteq> None then Some (JStr CONFIG_REDACTED) else None)"
    using secret_not_number [OF assms(2), of usize_max] assms(2)
    by (cases w; cases q) (auto simp: redact_fields_lookup split: option.split)
  finally show ?thesis by (simp add: resolve_append Some)
qed

lemma diff_sides:
  "map snd (filter (\<lambda>e. fst e \<noteq> 43) (diff_lines bs ls)) = bs"
  "map snd (filter (\<lambda>e. fst e \<noteq> 45) (diff_lines bs ls)) = ls"
  by (induction bs ls rule: diff_lines.induct) simp_all

lemma show_parts:
  "resolve_segments (build_show_value w) (lit ''policy'' # segs) = resolve_segments (redact_json_tree (read_toml_as_json (sw_policy w))) segs"
  "resolve_segments (build_show_value w) (lit ''authorized'' # segs) =
     resolve_segments (redact_json_tree (read_toml_as_json (sw_authorized w))) segs"
  by (simp_all add: build_show_value_def bt_of_def lit_def)

section \<open>Properties\<close>

text \<open>
  C29. Redaction is exact. Along a path without secret-looking names the printed tree is the redacted
  original, and along any other path nothing of the original is printed: the value at the first
  secret-looking name is the sentinel, and there is nothing below it.
\<close>

theorem redaction_exact:
  "(list_all (\<lambda>s. \<not> key_looks_secret s) segs \<longrightarrow>
      resolve_segments (redact_json_tree v) segs = map_option redact_json_tree (resolve_segments v segs)) \<and>
   (\<forall>p s q. segs = p @ s # q \<and> list_all (\<lambda>s. \<not> key_looks_secret s) p \<and> key_looks_secret s \<longrightarrow>
      resolve_segments (redact_json_tree v) segs =
        (if q = [] \<and> resolve_segments v (p @ [s]) \<noteq> None then Some (JStr CONFIG_REDACTED) else None))"
  using resolve_redacted_public resolve_redacted_secret by blast

theorem redaction_exact_witness:
  "resolve_segments (redact_json_tree (JObj [(lit ''api_token'', JStr (lit ''x''))])) [lit ''api_token''] = Some (JStr CONFIG_REDACTED)"
proof -
  have k: "key_looks_secret (lit ''api_token'')" by code_simp
  have r: "resolve_segments (JObj [(lit ''api_token'', JStr (lit ''x''))]) ([] @ [lit ''api_token'']) \<noteq> None" by simp
  have "list_all (\<lambda>s. \<not> key_looks_secret s) []" by simp
  with redaction_exact [THEN conjunct2, rule_format, of "[lit ''api_token'']" "[]" "lit ''api_token''" "[]"
      "JObj [(lit ''api_token'', JStr (lit ''x''))]"] k r
  show ?thesis by (simp del: resolve_segments.simps(2))
qed

text \<open>
  Nothing of the authorization file can be read with \<^verbatim>\<open>config get\<close>: the name of the layer itself looks like
  a secret, so every value below it that exists is printed as the sentinel.
\<close>

lemma get_authorized_hidden:
  "run_get w (lit ''authorized.'' @ key) =
     (case resolve_dotted (redact_json_tree (read_toml_as_json (sw_authorized w))) key of
        Some v \<Rightarrow> (0, Some (JStr CONFIG_REDACTED))
      | None \<Rightarrow> (1, None))"
proof -
  have "46 \<notin> set (lit ''authorized'')" by (simp add: lit_def)
  from split_char_append [OF this, of key]
  have split: "split_char 46 (lit ''authorized.'' @ key) = lit ''authorized'' # split_char 46 key" by (simp add: lit_def)
  have "key_looks_secret (lit ''authorized'')" by code_simp
  then show ?thesis
    by (simp add: run_get_def resolve_dotted_def split show_parts redact_if_secret_def
        del: resolve_segments.simps split: option.split)
qed

text \<open>
  When a configuration file does not parse, the view prints the message of the TOML reader verbatim.
\<close>

lemma parse_error_printed:
  "sw_policy w = Parse_Failed e \<Longrightarrow> run_get w (lit ''policy._parse_error'') = (0, Some (JStr e))"
proof -
  assume p: "sw_policy w = Parse_Failed e"
  have split: "split_char 46 (lit ''policy._parse_error'') = [lit ''policy'', lit ''_parse_error'']" by code_simp
  have k: "\<not> key_looks_secret (lit ''policy'')" "\<not> key_looks_secret (lit ''_parse_error'')" by code_simp+
  have "resolve_dotted (build_show_value w) (lit ''policy._parse_error'') =
      resolve_segments (redact_json_tree (read_toml_as_json (Parse_Failed e))) [lit ''_parse_error'']"
    unfolding resolve_dotted_def split by (simp only: show_parts p)
  also have "\<dots> = Some (JStr e)" by (simp add: read_toml_as_json_def k)
  finally show ?thesis by (simp add: run_get_def redact_if_secret_def split k)
qed

text \<open>
  A difference determines both files: the lines that are not additions are the lines of the first file
  and the lines that are not removals those of the second.
\<close>

lemma diff_recovers:
  "map snd (filter (\<lambda>e. fst e \<noteq> 43) (diff_lines (text_lines base) (text_lines live))) = text_lines base \<and>
   map snd (filter (\<lambda>e. fst e \<noteq> 45) (diff_lines (text_lines base) (text_lines live))) = text_lines live"
  by (simp add: diff_sides)

end
