(* ===== verification/Error_Envelope.thy ===== *)
theory Error_Envelope
  imports Error_Contract Rust_Str
begin

text \<open>
  The error template of the command line (\<^verbatim>\<open>stealth-cli/src/commands/error_envelope.rs\<close>), a copy of the kinds of the
  contract crate with their names and documentation links, the fields added to a failure envelope, the
  classification of free-form messages, and the \<^verbatim>\<open>emit\<close> of \<^verbatim>\<open>config_cli.rs\<close> that completes every failure it prints.
\<close>

section \<open>Definitions\<close>

definition DOC_URL_BASE :: ustr where
  "DOC_URL_BASE = lit ''https://github.com/sasuketorii/rev_scraping/blob/main/docs/book/src/en/errors/''"

datatype CliErrorKind =
    Cli_Aup | Cli_Ssrf | Cli_VpnLeak | Cli_RateLimit | Cli_Timeout | Cli_Captcha | Cli_Auth | Cli_NotFound
  | Cli_Validation | Cli_Network | Cli_Internal | Cli_RecipeNotFound | Cli_RecipeInvalid
  | Cli_AuthSessionExpired | Cli_AuthSessionNotFound | Cli_AuthSessionPending | Cli_VpnNotConfigured
  | Cli_VpnAllInstancesFailed | Cli_VpnCountryMismatch | Cli_CdpProtocol | Cli_CdpDisconnected
  | Cli_CdpInjectionFailed | Cli_BrowserCrashed | Cli_BrowserNotFound | Cli_CookieDecryptFailed
  | Cli_Aborted

fun cli_wire_name :: "CliErrorKind \<Rightarrow> ustr" where
  "cli_wire_name Cli_Aup = lit ''aup''"
| "cli_wire_name Cli_Ssrf = lit ''ssrf''"
| "cli_wire_name Cli_VpnLeak = lit ''vpn_leak''"
| "cli_wire_name Cli_RateLimit = lit ''rate_limit''"
| "cli_wire_name Cli_Timeout = lit ''timeout''"
| "cli_wire_name Cli_Captcha = lit ''captcha''"
| "cli_wire_name Cli_Auth = lit ''auth''"
| "cli_wire_name Cli_NotFound = lit ''not_found''"
| "cli_wire_name Cli_Validation = lit ''validation''"
| "cli_wire_name Cli_Network = lit ''network''"
| "cli_wire_name Cli_Internal = lit ''internal''"
| "cli_wire_name Cli_RecipeNotFound = lit ''recipe_not_found''"
| "cli_wire_name Cli_RecipeInvalid = lit ''recipe_invalid''"
| "cli_wire_name Cli_AuthSessionExpired = lit ''auth_session_expired''"
| "cli_wire_name Cli_AuthSessionNotFound = lit ''auth_session_not_found''"
| "cli_wire_name Cli_AuthSessionPending = lit ''auth_session_pending''"
| "cli_wire_name Cli_VpnNotConfigured = lit ''vpn_not_configured''"
| "cli_wire_name Cli_VpnAllInstancesFailed = lit ''vpn_all_instances_failed''"
| "cli_wire_name Cli_VpnCountryMismatch = lit ''vpn_country_mismatch''"
| "cli_wire_name Cli_CdpProtocol = lit ''cdp_protocol''"
| "cli_wire_name Cli_CdpDisconnected = lit ''cdp_disconnected''"
| "cli_wire_name Cli_CdpInjectionFailed = lit ''cdp_injection_failed''"
| "cli_wire_name Cli_BrowserCrashed = lit ''browser_crashed''"
| "cli_wire_name Cli_BrowserNotFound = lit ''browser_not_found''"
| "cli_wire_name Cli_CookieDecryptFailed = lit ''cookie_decrypt_failed''"
| "cli_wire_name Cli_Aborted = lit ''aborted''"

fun pascal_name :: "CliErrorKind \<Rightarrow> ustr" where
  "pascal_name Cli_Aup = lit ''Aup''"
| "pascal_name Cli_Ssrf = lit ''Ssrf''"
| "pascal_name Cli_VpnLeak = lit ''VpnLeak''"
| "pascal_name Cli_RateLimit = lit ''RateLimit''"
| "pascal_name Cli_Timeout = lit ''Timeout''"
| "pascal_name Cli_Captcha = lit ''Captcha''"
| "pascal_name Cli_Auth = lit ''Auth''"
| "pascal_name Cli_NotFound = lit ''NotFound''"
| "pascal_name Cli_Validation = lit ''Validation''"
| "pascal_name Cli_Network = lit ''Network''"
| "pascal_name Cli_Internal = lit ''Internal''"
| "pascal_name Cli_RecipeNotFound = lit ''RecipeNotFound''"
| "pascal_name Cli_RecipeInvalid = lit ''RecipeInvalid''"
| "pascal_name Cli_AuthSessionExpired = lit ''AuthSessionExpired''"
| "pascal_name Cli_AuthSessionNotFound = lit ''AuthSessionNotFound''"
| "pascal_name Cli_AuthSessionPending = lit ''AuthSessionPending''"
| "pascal_name Cli_VpnNotConfigured = lit ''VpnNotConfigured''"
| "pascal_name Cli_VpnAllInstancesFailed = lit ''VpnAllInstancesFailed''"
| "pascal_name Cli_VpnCountryMismatch = lit ''VpnCountryMismatch''"
| "pascal_name Cli_CdpProtocol = lit ''CdpProtocol''"
| "pascal_name Cli_CdpDisconnected = lit ''CdpDisconnected''"
| "pascal_name Cli_CdpInjectionFailed = lit ''CdpInjectionFailed''"
| "pascal_name Cli_BrowserCrashed = lit ''BrowserCrashed''"
| "pascal_name Cli_BrowserNotFound = lit ''BrowserNotFound''"
| "pascal_name Cli_CookieDecryptFailed = lit ''CookieDecryptFailed''"
| "pascal_name Cli_Aborted = lit ''Aborted''"

definition doc_url :: "CliErrorKind \<Rightarrow> ustr" where
  "doc_url k = DOC_URL_BASE @ pascal_name k @ lit ''.md''"

definition all_kinds :: "CliErrorKind list" where
  "all_kinds =
     [Cli_Aup, Cli_Ssrf, Cli_VpnLeak, Cli_RateLimit, Cli_Timeout, Cli_Captcha, Cli_Auth, Cli_NotFound,
      Cli_Validation, Cli_Network, Cli_Internal, Cli_RecipeNotFound, Cli_RecipeInvalid,
      Cli_AuthSessionExpired, Cli_AuthSessionNotFound, Cli_AuthSessionPending, Cli_VpnNotConfigured,
      Cli_VpnAllInstancesFailed, Cli_VpnCountryMismatch, Cli_CdpProtocol, Cli_CdpDisconnected,
      Cli_CdpInjectionFailed, Cli_BrowserCrashed, Cli_BrowserNotFound, Cli_CookieDecryptFailed,
      Cli_Aborted]"

definition opt_str_json :: "ustr option \<Rightarrow> json" where
  "opt_str_json s = (case s of None \<Rightarrow> JNull | Some t \<Rightarrow> JStr t)"

definition opt_num :: "nat option \<Rightarrow> json" where
  "opt_num n = (case n of None \<Rightarrow> JNull | Some m \<Rightarrow> JNumber (PosInt m))"

definition int_json :: "int \<Rightarrow> json" where
  "int_json i = JNumber (if i < 0 then NegInt i else PosInt (nat i))"

definition build_error_fields :: "CliErrorKind \<Rightarrow> ustr \<Rightarrow> ustr option \<Rightarrow> nat option \<Rightarrow> json" where
  "build_error_fields kind message hint retry_after_ms =
     JObj (bt_of
       [(lit ''kind'', JStr (cli_wire_name kind)), (lit ''message'', JStr message), (lit ''hint'', opt_str_json hint),
        (lit ''retry_after_ms'', opt_num retry_after_ms), (lit ''doc_url'', JStr (doc_url kind))])"

definition augment_with_g7_fields ::
  "json \<Rightarrow> CliErrorKind \<Rightarrow> ustr option \<Rightarrow> ustr option \<Rightarrow> nat option \<Rightarrow> json" where
  "augment_with_g7_fields envelope kind message hint retry_after_ms =
     (case envelope of
        JObj fs \<Rightarrow>
          let msg = (case message of Some m \<Rightarrow> m
                     | None \<Rightarrow> (case map_of fs (lit ''error'') of Some (JStr e) \<Rightarrow> e | _ \<Rightarrow> []))
          in JObj (bt_insert (lit ''doc_url'') (JStr (doc_url kind))
               (bt_insert (lit ''retry_after_ms'') (opt_num retry_after_ms)
               (bt_insert (lit ''hint'') (opt_str_json hint)
               (bt_insert (lit ''message'') (JStr msg)
               (bt_insert (lit ''kind'') (JStr (cli_wire_name kind)) fs)))))
      | v \<Rightarrow> v)"

text \<open>The envelope and the exit code of a failing command.\<close>

definition emit_err_envelope ::
  "ustr \<Rightarrow> int \<Rightarrow> CliErrorKind \<Rightarrow> ustr \<Rightarrow> ustr option \<Rightarrow> nat option \<Rightarrow> int \<times> json" where
  "emit_err_envelope op exit kind message hint retry_after_ms =
     (exit, JObj (bt_of
       [(lit ''ok'', JBool False), (lit ''operation'', JStr op), (lit ''exit_code'', int_json exit),
        (lit ''error'', JStr message), (lit ''kind'', JStr (cli_wire_name kind)), (lit ''message'', JStr message),
        (lit ''hint'', opt_str_json hint), (lit ''retry_after_ms'', opt_num retry_after_ms), (lit ''doc_url'', JStr (doc_url kind))]))"

definition classify_legacy_message :: "ustr \<Rightarrow> CliErrorKind" where
  "classify_legacy_message msg =
     (let lower = map ascii_lower msg; has = (\<lambda>s. sublist (lit s) lower) in
      if has ''aup:'' \<or> starts_with lower (lit ''aup '') then Cli_Aup
      else if has ''ssrf'' then Cli_Ssrf
      else if has ''vpn leak'' \<or> has ''leak detected'' then Cli_VpnLeak
      else if has ''vpn pool exhausted'' \<or> has ''all instances failed'' then Cli_VpnAllInstancesFailed
      else if has ''vpn'' \<and> has ''not configured'' then Cli_VpnNotConfigured
      else if has ''country mismatch'' then Cli_VpnCountryMismatch
      else if has ''rate limit'' \<or> has ''throttle'' then Cli_RateLimit
      else if has ''timed out'' \<or> has ''timeout'' then Cli_Timeout
      else if has ''captcha'' then Cli_Captcha
      else if has ''auth expired'' \<or> has ''session expired'' then Cli_AuthSessionExpired
      else if has ''session_token'' \<and> has ''pending'' then Cli_AuthSessionPending
      else if has ''session_token'' \<and> has ''not found'' then Cli_AuthSessionNotFound
      else if has ''recipe'' \<and> has ''not found'' then Cli_RecipeNotFound
      else if has ''recipe'' \<and> (has ''invalid'' \<or> has ''schema'') then Cli_RecipeInvalid
      else if has ''cdp'' \<and> has ''disconnect'' then Cli_CdpDisconnected
      else if has ''cdp'' \<and> has ''inject'' then Cli_CdpInjectionFailed
      else if has ''cdp'' then Cli_CdpProtocol
      else if has ''browser'' \<and> has ''crash'' then Cli_BrowserCrashed
      else if has ''browser'' \<and> has ''not found'' then Cli_BrowserNotFound
      else if has ''cookie'' \<and> has ''decrypt'' then Cli_CookieDecryptFailed
      else if has ''auth'' \<or> has ''login'' \<or> has ''unauthorized'' then Cli_Auth
      else if has ''not found'' \<or> has ''no match'' then Cli_NotFound
      else if starts_with lower (lit ''invalid'') \<or> has ''validation'' then Cli_Validation
      else if has ''network'' \<or> has ''connect'' \<or> has ''dns'' then Cli_Network
      else if has ''user declined'' \<or> has ''aborted'' then Cli_Aborted
      else Cli_Internal)"

datatype ConfigFormat = Format_Text | Format_Json | Format_Yaml

text \<open>The value the configuration commands print: failures that are no full envelope yet are completed.\<close>

definition config_emit :: "ConfigFormat \<Rightarrow> json \<Rightarrow> json" where
  "config_emit format v =
     (case v of
        JObj obj \<Rightarrow>
          if format \<noteq> Format_Text \<and> map_of obj (lit ''error'') \<noteq> None \<and> map_of obj (lit ''kind'') = None \<and>
             map_of obj (lit ''doc_url'') = None
          then
            let err_text = (case map_of obj (lit ''error'') of Some (JStr e) \<Rightarrow> e | _ \<Rightarrow> []) in
            augment_with_g7_fields v (classify_legacy_message err_text) None None None
          else v
      | _ \<Rightarrow> v)"

section \<open>Lemmas\<close>

definition json_field :: "json \<Rightarrow> ustr \<Rightarrow> json option" where
  "json_field v k = (case v of JObj fs \<Rightarrow> map_of fs k | _ \<Rightarrow> None)"

lemma g7_names:
  "distinct [lit ''kind'', lit ''message'', lit ''hint'', lit ''retry_after_ms'', lit ''doc_url'']"
  by (simp add: lit_def)

lemma augment_fields:
  "json_field (augment_with_g7_fields (JObj fs) kind message hint ms) k =
     (if k = lit ''kind'' then Some (JStr (cli_wire_name kind))
      else if k = lit ''message'' then
        Some (JStr (case message of Some m \<Rightarrow> m | None \<Rightarrow> (case map_of fs (lit ''error'') of Some (JStr e) \<Rightarrow> e | _ \<Rightarrow> [])))
      else if k = lit ''hint'' then Some (opt_str_json hint)
      else if k = lit ''retry_after_ms'' then Some (opt_num ms)
      else if k = lit ''doc_url'' then Some (JStr (doc_url kind))
      else map_of fs k)"
  using g7_names by (auto simp: augment_with_g7_fields_def json_field_def Let_def bt_insert_lookup)

section \<open>Properties\<close>

text \<open>
  The kinds of the command line are those of the contract: in the same order, with the same wire names
  and the same variant names in the documentation links, and none is missing.
\<close>

lemma kinds_mirror:
  "map (\<lambda>k. (cli_wire_name k, pascal_name k)) all_kinds = map (\<lambda>k. (kind_to_wire k, variant_name k)) kind_order \<and>
   set all_kinds = UNIV \<and> distinct all_kinds"
proof (intro conjI)
  show "map (\<lambda>k. (cli_wire_name k, pascal_name k)) all_kinds = map (\<lambda>k. (kind_to_wire k, variant_name k)) kind_order"
    unfolding all_kinds_def kind_order_def wire_name_doc [symmetric] by simp
  have "k \<in> set all_kinds" for k by (cases k) (simp_all add: all_kinds_def)
  then show "set all_kinds = UNIV" by blast
  show "distinct all_kinds" by (simp add: all_kinds_def)
qed

text \<open>
  There is one shape of failure: the envelope of a failing command is the plain one completed with the
  five fields, the message being the error text, and completing keeps every other field.
\<close>

lemma one_failure_shape:
  "snd (emit_err_envelope op exit kind message hint ms) =
     augment_with_g7_fields
       (JObj (bt_of [(lit ''ok'', JBool False), (lit ''operation'', JStr op), (lit ''exit_code'', int_json exit), (lit ''error'', JStr message)]))
       kind None hint ms \<and>
   (\<forall>k. k \<notin> set [lit ''kind'', lit ''message'', lit ''hint'', lit ''retry_after_ms'', lit ''doc_url''] \<longrightarrow>
      json_field (augment_with_g7_fields (JObj fs) kind None hint ms) k = map_of fs k)"
  by (auto simp: augment_fields)
    (simp add: emit_err_envelope_def augment_with_g7_fields_def bt_of_def lit_def Let_def)

text \<open>
  A message the caller supplied is not preserved: in a structured format a failure without a kind gets
  its error code as the message, whatever message it carried, and a missing backup or profile, whose code is
  written with underscores, is reported as an internal error.
\<close>

lemma caller_message_lost:
  "json_field (config_emit Format_Json
     (JObj (bt_of [(lit ''error'', JStr code), (lit ''message'', JStr detail), (lit ''target'', t)]))) (lit ''message'') = Some (JStr code) \<and>
   classify_legacy_message (lit ''bak_not_found'') = Cli_Internal \<and> classify_legacy_message (lit ''profile_not_found'') = Cli_Internal"
proof (intro conjI)
  let ?fs = "bt_of [(lit ''error'', JStr code), (lit ''message'', JStr detail), (lit ''target'', t)]"
  have e: "map_of ?fs (lit ''error'') = Some (JStr code)" "map_of ?fs (lit ''kind'') = None" "map_of ?fs (lit ''doc_url'') = None"
    by (simp_all add: bt_of_def lit_def)
  then show "json_field (config_emit Format_Json (JObj ?fs)) (lit ''message'') = Some (JStr code)"
    using g7_names by (simp add: config_emit_def augment_fields)
qed code_simp+

end
