(* ===== verification/Config_Commands.thy ===== *)
theory Config_Commands
  imports Config_Writer Config_Validate Config_Show Error_Envelope Idempotency_Store
begin

text \<open>
  The commands that change configuration files (\<^verbatim>\<open>stealth-cli/src/commands/config_cli.rs\<close>): \<^verbatim>\<open>set\<close>, \<^verbatim>\<open>edit\<close>, \<^verbatim>\<open>rollback\<close>,
  \<^verbatim>\<open>gc\<close>, \<^verbatim>\<open>history\<close>, \<^verbatim>\<open>init\<close> of a file, and \<^verbatim>\<open>migrate\<close>, over the writer, the validator and the replay guard.
  A command yields its exit code, what it prints, and the envelope to record, if any. The directory is the
  one of the target file; \<open>ld_parent\<close> is its path as text.
\<close>

section \<open>Definitions\<close>

datatype printed = Text_Line ustr | Structured json

type_synonym cmd_result = "int \<times> printed \<times> json option"

record config_locs =
  ld_parent :: ustr
  ld_policy :: ustr
  ld_authorized :: ustr

definition target_path :: "config_locs \<Rightarrow> WriteTarget \<Rightarrow> ustr" where
  "target_path locs t = (case t of WT_Policy \<Rightarrow> ld_policy locs | WT_Authorized \<Rightarrow> ld_authorized locs)"

definition display_path :: "config_locs \<Rightarrow> ustr \<Rightarrow> ustr" where
  "display_path locs name = ld_parent locs @ [47] @ name"

definition write_target_label :: "WriteTarget \<Rightarrow> ustr" where
  "write_target_label t = (case t of WT_Policy \<Rightarrow> lit ''policy'' | WT_Authorized \<Rightarrow> lit ''authorized'')"

definition emit_printed :: "ConfigFormat \<Rightarrow> json \<Rightarrow> printed" where
  "emit_printed format v = Structured (config_emit format v)"

subsection \<open>Dry run and replay\<close>

definition emit_dry_run :: "ustr \<Rightarrow> ustr list \<Rightarrow> ustr option \<Rightarrow> int \<times> json" where
  "emit_dry_run operation plan idempotency_key =
     (0, JObj (bt_of [(lit ''ok'', JBool True), (lit ''operation'', JStr operation),
        (lit ''result'', JObj (bt_of [(lit ''dry_run'', JBool True), (lit ''plan'', JArr (map JStr plan)),
           (lit ''idempotency_key'', opt_str_json idempotency_key)]))]))"

text \<open>
  What every mutating command does around its effect: a dry run prints the plan and nothing else happens;
  a recorded envelope is replayed; otherwise the effect runs and its envelope, if it gave one, is recorded.
\<close>

definition mutate_command ::
  "idem_lib \<Rightarrow> nat \<Rightarrow> idem_io \<Rightarrow> idem_io \<Rightarrow> bool \<Rightarrow> ustr \<Rightarrow> ustr list \<Rightarrow> ustr option \<Rightarrow> json \<Rightarrow>
   ('s \<Rightarrow> cmd_result \<times> 's) \<Rightarrow> 's \<times> idem_fs \<Rightarrow> (int \<times> printed) \<times> 's \<times> idem_fs" where
  "mutate_command L ttl io1 io2 dry_run op plan key payload effect = (\<lambda>(w, fs).
     if dry_run then (case emit_dry_run op plan key of (c, v) \<Rightarrow> ((c, Structured v), w, fs))
     else case maybe_replay L ttl io1 op key payload fs of
         (Some (_, env), fs1) \<Rightarrow> ((0, Structured (replayed_envelope env)), w, fs1)
       | (None, fs1) \<Rightarrow>
           (case effect w of ((c, out, rec), w1) \<Rightarrow>
              ((c, out), w1, case rec of None \<Rightarrow> fs1 | Some env \<Rightarrow> store_record_success L io2 op key payload env fs1)))"

definition success_envelope :: "ustr \<Rightarrow> json \<Rightarrow> json" where
  "success_envelope op result =
     JObj (bt_of [(lit ''ok'', JBool True), (lit ''operation'', JStr op), (lit ''result'', result)])"

subsection \<open>Set\<close>

definition validate_doc_for_target :: "config_lib \<Rightarrow> ustr option \<Rightarrow> ustr \<Rightarrow> WriteTarget \<Rightarrow> ValidationReport" where
  "validate_doc_for_target L env txt target =
     (case target of
        WT_Policy \<Rightarrow> validate_toml_against L (is_lenient False env) Known_Policy txt
      | WT_Authorized \<Rightarrow> validate_authorized_toml L (is_lenient False env) txt)"

definition code_text :: "config_lib \<Rightarrow> ValidationCode \<Rightarrow> ustr" where
  "code_text L c =
     (case c of
        UnknownField \<Rightarrow> lit ''UnknownField'' | WrongType \<Rightarrow> lit ''WrongType'' | MissingRequired \<Rightarrow> lit ''MissingRequired''
      | SchemaVersionUnsupported \<Rightarrow> lit ''SchemaVersionUnsupported'' | Custom s \<Rightarrow> lit ''Custom('' @ lib_debug L s @ lit '')'')"

definition render_redacted_report :: "config_lib \<Rightarrow> ValidationReport \<Rightarrow> ustr" where
  "render_redacted_report L r =
     (if vr_errors r = [] then lit ''ok''
      else intersperse_concat (lit ''; '') (map (\<lambda>i. lit ''['' @ code_text L (vi_code i) @ lit ''] @ '' @ vi_path i) (vr_errors r)))"

definition set_error_text :: "config_lib \<Rightarrow> set_error \<Rightarrow> ustr" where
  "set_error_text L e =
     (case e of
        EmptyKey \<Rightarrow> lit ''empty key''
      | NotATable seg \<Rightarrow> lit ''path segment '' @ lib_debug L seg @ lit '' is not a table''
      | ExistsNotATable seg \<Rightarrow> lit ''path segment '' @ lib_debug L seg @ lit '' exists and is not a table''
      | LeafParentNotATable \<Rightarrow> lit ''leaf parent is not a table'')"

definition failure_value :: "(ustr \<times> json) list \<Rightarrow> ustr \<Rightarrow> json" where
  "failure_value extra message =
     augment_with_g7_fields (JObj (bt_of ((lit ''ok'', JBool False) # extra @ [(lit ''error'', JStr message)])))
       (classify_legacy_message message) None None None"

definition emit_set_error :: "ConfigFormat \<Rightarrow> ustr \<Rightarrow> ustr \<Rightarrow> printed" where
  "emit_set_error format key message =
     (if format = Format_Text then Text_Line (lit ''FAIL set '' @ key @ lit '': '' @ message)
      else emit_printed format (failure_value [(lit ''key'', JStr key)] message))"

record set_args =
  sa_target :: WriteTarget
  sa_key :: ustr
  sa_value :: ustr

record set_io =
  si_read :: "ustr option"
  si_env :: "ustr option"
  si_mkdir :: "ustr option"
  si_writer :: writer_io

definition backup_note :: "config_locs \<Rightarrow> ustr option \<Rightarrow> ustr" where
  "backup_note locs b = (case b of None \<Rightarrow> [] | Some n \<Rightarrow> lit '' (backup: '' @ display_path locs n @ lit '')'')"

definition set_secret :: "set_args \<Rightarrow> bool" where
  "set_secret a \<longleftrightarrow>
     list_ex key_looks_secret (split_char 46 (strip_layer_prefix (sa_key a) (sa_target a))) \<or> key_looks_secret (sa_key a)"

definition set_printed :: "config_locs \<Rightarrow> ConfigFormat \<Rightarrow> set_args \<Rightarrow> ustr option \<Rightarrow> printed" where
  "set_printed locs format a backup =
     (let shown = (if set_secret a then CONFIG_REDACTED else sa_value a) in
      if format = Format_Text
      then Text_Line (lit ''OK   set '' @ sa_key a @ lit '' = '' @ shown @ backup_note locs backup)
      else emit_printed format (JObj (bt_of
        [(lit ''ok'', JBool True), (lit ''key'', JStr (sa_key a)), (lit ''value'', JStr shown),
         (lit ''path'', JStr (display_path locs (target_path locs (sa_target a)))),
         (lit ''backup_path'', opt_str_json (map_option (display_path locs) backup))])))"

text \<open>The document the command would write, or the message it fails with.\<close>

definition set_candidate ::
  "config_lib \<Rightarrow> (toml \<Rightarrow> ustr + ustr) \<Rightarrow> set_io \<Rightarrow> config_locs \<Rightarrow> set_args \<Rightarrow> cfg_dir \<Rightarrow> ustr + ustr" where
  "set_candidate L pretty io locs a D =
     and_then
       (case map_of D (target_path locs (sa_target a)) of
          None \<Rightarrow> Inr []
        | Some f \<Rightarrow> (case si_read io of Some e \<Rightarrow> Inl (lit ''read original: '' @ e) | None \<Rightarrow> Inr (cf_content f))) (\<lambda>original.
     and_then
       (if original = [] then Inr (T_Table [])
        else case lib_parse L original of
            Inl _ \<Rightarrow> Inl (lit ''live file failed to parse as TOML (run `config validate`)'')
          | Inr v \<Rightarrow> Inr v) (\<lambda>doc.
     and_then
       (case set_dotted_toml doc (strip_layer_prefix (sa_key a) (sa_target a)) (infer_toml_value (sa_value a)) of
          Inl e \<Rightarrow> Inl (set_error_text L e)
        | Inr doc' \<Rightarrow> Inr doc') (\<lambda>doc'.
     and_then (case pretty doc' of Inl e \<Rightarrow> Inl (lit ''serialize: '' @ e) | Inr txt \<Rightarrow> Inr txt) (\<lambda>new_text.
       let report = validate_doc_for_target L (si_env io) new_text (sa_target a) in
       if report_is_ok report then Inr new_text
       else Inl (lit ''validate: '' @ render_redacted_report L report)))))"

definition run_set ::
  "config_lib \<Rightarrow> (toml \<Rightarrow> ustr + ustr) \<Rightarrow> set_io \<Rightarrow> config_locs \<Rightarrow> ConfigFormat \<Rightarrow> set_args \<Rightarrow> cfg_dir \<Rightarrow> cmd_result \<times> cfg_dir" where
  "run_set L pretty io locs format a D =
     (case set_candidate L pretty io locs a D of
        Inl msg \<Rightarrow> ((1, emit_set_error format (sa_key a) msg, None), D)
      | Inr new_text \<Rightarrow>
          (case si_mkdir io of
             Some e \<Rightarrow> ((1, emit_set_error format (sa_key a) (lit ''mkdir: '' @ e), None), D)
           | None \<Rightarrow>
               (case write_with_backup (si_writer io) (target_path locs (sa_target a)) new_text D of
                  (Inl e, D') \<Rightarrow>
                    ((1, emit_set_error format (sa_key a) (lit ''write: '' @ writer_err_msg (ld_parent locs) e), None), D')
                | (Inr rep, D') \<Rightarrow>
                    ((0, set_printed locs format a (backup_path rep),
                      Some (success_envelope (lit ''config.set'') (JObj (bt_of
                        [(lit ''key'', JStr (sa_key a)),
                         (lit ''path'', JStr (display_path locs (target_path locs (sa_target a))))])))), D'))))"

subsection \<open>Edit\<close>

datatype editor_run = Editor_Spawn_Failed ustr | Editor_Exited bool ustr

record edit_io =
  ei_read :: "ustr option"
  ei_tempdir :: "ustr option"
  ei_seed :: "ustr option"
  ei_tmp_path :: ustr
  ei_editor :: "ustr list \<Rightarrow> ustr \<Rightarrow> editor_run \<times> ustr"
  ei_reread :: "ustr option"
  ei_env :: "ustr option"
  ei_persist :: "ustr option"
  ei_epoch :: nat
  ei_writer :: writer_io
  ei_sweep :: bool

text \<open>The directory of the target and the working copy in the temporary directory, while it exists.\<close>

record edit_world =
  ew_dir :: cfg_dir
  ew_tmp :: "ustr option"

definition emit_edit_error :: "ConfigFormat \<Rightarrow> ustr \<Rightarrow> printed" where
  "emit_edit_error format message =
     (if format = Format_Text then Text_Line (lit ''FAIL edit: '' @ message)
      else emit_printed format (failure_value [] message))"

definition aborted_name :: "edit_io \<Rightarrow> ustr \<Rightarrow> ustr" where
  "aborted_name io name = lit ''.'' @ name @ lit ''.edit-aborted.'' @ digits_of (ei_epoch io)"

definition sweep :: "edit_io \<Rightarrow> edit_world \<Rightarrow> edit_world" where
  "sweep io w = (if ei_sweep io then w\<lparr>ew_tmp := None\<rparr> else w)"

definition persist_aborted_temp :: "edit_io \<Rightarrow> ustr \<Rightarrow> edit_world \<Rightarrow> (ustr + ustr) \<times> edit_world" where
  "persist_aborted_temp io name w =
     (case (ei_persist io, ew_tmp w) of
        (None, Some s) \<Rightarrow> (Inr (aborted_name io name), w\<lparr>ew_dir := put_entry (aborted_name io name) (new_file (ei_writer io) s) (ew_dir w)\<rparr>)
      | (Some e, _) \<Rightarrow> (Inl e, w)
      | (None, None) \<Rightarrow> (Inl (lit ''not found''), w))"

definition kept_note :: "edit_io \<Rightarrow> ustr \<Rightarrow> ustr" where
  "kept_note io e = ei_tmp_path io @ lit '' (recovery sibling write failed: '' @ e @ lit ''; tmpdir preserved)''"

text \<open>\<^verbatim>\<open>split_whitespace\<close>: the maximal runs of characters that are no white space.\<close>

definition split_whitespace :: "ustr \<Rightarrow> ustr list" where
  "split_whitespace s = filter (\<lambda>p. p \<noteq> []) (split_char 32 (map (\<lambda>c. if white_space c then 32 else c) s))"

definition editor_words :: "ustr option \<Rightarrow> ustr option \<Rightarrow> ustr list" where
  "editor_words arg env = split_whitespace (case arg of Some e \<Rightarrow> e | None \<Rightarrow> (case env of Some e \<Rightarrow> e | None \<Rightarrow> lit ''vi''))"

definition finish_edit ::
  "config_lib \<Rightarrow> edit_io \<Rightarrow> config_locs \<Rightarrow> ConfigFormat \<Rightarrow> WriteTarget \<Rightarrow> ustr \<Rightarrow> edit_world \<Rightarrow> cmd_result \<times> edit_world" where
  "finish_edit L io locs format target candidate w =
     (let name = target_path locs target; report = validate_doc_for_target L (ei_env io) candidate target in
      if \<not> report_is_ok report then
        (case persist_aborted_temp io name w of
           (Inr p, w1) \<Rightarrow>
             ((1, emit_edit_error format (lit ''validate failed, original preserved; edits kept at '' @ display_path locs p @ lit '': '' @
                 render_redacted_report L report), None), sweep io w1)
         | (Inl e, w1) \<Rightarrow>
             ((1, emit_edit_error format (lit ''validate failed, original preserved; edits kept at '' @ kept_note io e @ lit '': '' @
                 render_redacted_report L report), None), w1))
      else
        (case write_with_backup (ei_writer io) name candidate (ew_dir w) of
           (r, D') \<Rightarrow>
             let w1 = sweep io (w\<lparr>ew_dir := D'\<rparr>) in
             (case r of
                Inl e \<Rightarrow> ((1, emit_edit_error format (lit ''write: '' @ writer_err_msg (ld_parent locs) e), None), w1)
              | Inr rep \<Rightarrow>
                  ((0, if format = Format_Text then Text_Line (lit ''OK   edit '' @ display_path locs name @ backup_note locs (backup_path rep))
                       else emit_printed format (JObj (bt_of [(lit ''ok'', JBool True), (lit ''path'', JStr (display_path locs name)),
                         (lit ''backup_path'', opt_str_json (map_option (display_path locs) (backup_path rep)))])), None), w1))))"

definition run_edit ::
  "config_lib \<Rightarrow> edit_io \<Rightarrow> config_locs \<Rightarrow> ConfigFormat \<Rightarrow> WriteTarget \<Rightarrow> ustr option \<Rightarrow> ustr option \<Rightarrow> cfg_dir \<Rightarrow> cmd_result \<times> edit_world" where
  "run_edit L io locs format target editor editor_env D =
     (let name = target_path locs target; fail = (\<lambda>msg. (1, emit_edit_error format msg, None)); w0 = \<lparr>ew_dir = D, ew_tmp = None\<rparr> in
      case (case map_of D name of None \<Rightarrow> Inr [] | Some f \<Rightarrow> (case ei_read io of Some e \<Rightarrow> Inl e | None \<Rightarrow> Inr (cf_content f))) of
        Inl e \<Rightarrow> (fail (lit ''read original: '' @ e), w0)
      | Inr original \<Rightarrow>
          (case ei_tempdir io of
             Some e \<Rightarrow> (fail (lit ''tempdir: '' @ e), w0)
           | None \<Rightarrow>
               (case ei_seed io of
                  Some e \<Rightarrow> (fail (lit ''seed temp: '' @ e), sweep io w0)
                | None \<Rightarrow>
                    let w1 = w0\<lparr>ew_tmp := Some original\<rparr> in
                    (case editor_words editor editor_env of
                       [] \<Rightarrow> (fail (lit ''empty editor command''), sweep io w1)
                     | bin # extra \<Rightarrow>
                         (case ei_editor io (bin # extra) original of
                            (Editor_Spawn_Failed e, _) \<Rightarrow> (fail (lit ''spawn editor: '' @ e), sweep io w1)
                          | (Editor_Exited success s, edited) \<Rightarrow>
                              let w2 = w1\<lparr>ew_tmp := Some edited\<rparr> in
                              if \<not> success then
                                (case persist_aborted_temp io name w2 of
                                   (Inr p, w3) \<Rightarrow>
                                     (fail (lit ''editor exited '' @ s @ lit ''; edits kept at '' @ display_path locs p), sweep io w3)
                                 | (Inl e, w3) \<Rightarrow> (fail (lit ''editor exited '' @ s @ lit ''; edits kept at '' @ kept_note io e), w3))
                              else
                                (case ei_reread io of
                                   Some e \<Rightarrow> (fail (lit ''read temp: '' @ e), sweep io w2)
                                 | None \<Rightarrow> finish_edit L io locs format target edited w2))))))"

subsection \<open>History, rollback and collection\<close>

definition resolve_bak :: "ustr \<Rightarrow> ustr \<Rightarrow> ustr + ustr" where
  "resolve_bak name bak_nm =
     (if bak_nm = [] then Inl (lit ''bak name is empty'')
      else if 47 \<in> set bak_nm \<or> 92 \<in> set bak_nm then Inl (lit ''bak name must not contain path separators'')
      else if bak_nm = lit ''.'' \<or> bak_nm = lit ''..'' \<or> list_ex (\<lambda>c. c = lit ''..'') (split_char 46 bak_nm)
      then Inl (lit ''bak name must not contain `..`'')
      else if \<not> prefix (bak_prefix name) bak_nm
      then Inl (lit ''bak name `'' @ bak_nm @ lit ''` does not match expected prefix `'' @ bak_prefix name @ lit ''`'')
      else Inr bak_nm)"

definition coded_failure :: "ConfigFormat \<Rightarrow> WriteTarget \<Rightarrow> ustr \<Rightarrow> ustr \<Rightarrow> printed" where
  "coded_failure format target code message =
     emit_printed format (JObj (bt_of [(lit ''error'', JStr code), (lit ''message'', JStr message),
       (lit ''target'', JStr (write_target_label target))]))"

definition nat_json :: "nat \<Rightarrow> json" where
  "nat_json n = JNumber (PosInt n)"

record RollbackOutcome =
  ro_target :: ustr
  ro_restored_from :: ustr
  ro_current_path :: ustr
  ro_previous_backup :: "ustr option"
  ro_bytes :: nat

definition rollback_json :: "RollbackOutcome \<Rightarrow> json" where
  "rollback_json o1 =
     JObj (bt_of [(lit ''target'', JStr (ro_target o1)), (lit ''restored_from'', JStr (ro_restored_from o1)),
       (lit ''current_path'', JStr (ro_current_path o1)), (lit ''previous_backup'', opt_str_json (ro_previous_backup o1)),
       (lit ''bytes'', nat_json (ro_bytes o1))])"

definition run_rollback ::
  "ustr option \<Rightarrow> writer_io \<Rightarrow> config_locs \<Rightarrow> ConfigFormat \<Rightarrow> WriteTarget \<Rightarrow> ustr \<Rightarrow> cfg_dir \<Rightarrow> cmd_result \<times> cfg_dir" where
  "run_rollback read_failure io locs format target bak_nm D =
     (let name = target_path locs target in
      case resolve_bak name bak_nm of
        Inl msg \<Rightarrow> ((2, coded_failure format target (lit ''invalid_bak_name'') msg, None), D)
      | Inr bak \<Rightarrow>
          (case map_of D bak of
             None \<Rightarrow> ((2, coded_failure format target (lit ''bak_not_found'') (lit ''backup not found: '' @ display_path locs bak), None), D)
           | Some f \<Rightarrow>
               (case read_failure of
                  Some e \<Rightarrow> ((1, coded_failure format target (lit ''bak_read_failed'') e, None), D)
                | None \<Rightarrow>
                    (case write_with_backup io name (cf_content f) D of
                       (Inl e, D') \<Rightarrow>
                         ((1, coded_failure format target (lit ''rollback_write_failed'') (writer_err_msg (ld_parent locs) e), None), D')
                     | (Inr rep, D') \<Rightarrow>
                         let outcome = \<lparr>ro_target = write_target_label target, ro_restored_from = display_path locs bak,
                               ro_current_path = display_path locs name,
                               ro_previous_backup = map_option (display_path locs) (backup_path rep), ro_bytes = blen (cf_content f)\<rparr>
                         in ((0, if format = Format_Text
                                 then Text_Line (lit ''ROLLBACK  '' @ display_path locs name @ lit '' '' @ [0x2190] @ lit '' '' @ display_path locs bak @
                                   lit ''  ('' @ digits_of (ro_bytes outcome) @ lit '' bytes)'' @
                                   (case ro_previous_backup outcome of None \<Rightarrow> [] | Some b \<Rightarrow> lit ''  (prev backed up to '' @ b @ lit '')''))
                                 else emit_printed format (rollback_json outcome),
                              Some (success_envelope (lit ''config.rollback'') (rollback_json outcome))), D')))))"

definition gc_json :: "config_locs \<Rightarrow> WriteTarget \<Rightarrow> nat \<Rightarrow> nat \<Rightarrow> json" where
  "gc_json locs target deleted kept =
     JObj (bt_of [(lit ''target'', JStr (write_target_label target)),
       (lit ''current_path'', JStr (display_path locs (target_path locs target))),
       (lit ''deleted'', nat_json deleted), (lit ''kept'', nat_json kept)])"

text \<open>The directory is listed twice, each time with outcomes of its own.\<close>

definition run_gc ::
  "writer_io \<Rightarrow> writer_io \<Rightarrow> config_locs \<Rightarrow> ConfigFormat \<Rightarrow> WriteTarget \<Rightarrow> nat \<Rightarrow> cfg_dir \<Rightarrow> cmd_result \<times> cfg_dir" where
  "run_gc io1 io2 locs format target keep D =
     (let name = target_path locs target in
      case list_backups io1 name D of
        Inl e \<Rightarrow> ((1, coded_failure format target (lit ''list_backups_failed'') (writer_err_msg (ld_parent locs) e), None), D)
      | Inr before \<Rightarrow>
          (case gc_backups io2 name keep D of
             (Inl e, D') \<Rightarrow> ((1, coded_failure format target (lit ''gc_failed'') (writer_err_msg (ld_parent locs) e), None), D')
           | (Inr deleted, D') \<Rightarrow>
               let kept = length before - deleted in
               ((0, if format = Format_Text
                    then Text_Line (lit ''GC        '' @ display_path locs name @ lit '' keep='' @ digits_of keep @
                      lit '' deleted='' @ digits_of deleted @ lit '' kept='' @ digits_of kept)
                    else emit_printed format (gc_json locs target deleted kept),
                 Some (success_envelope (lit ''config.gc'') (gc_json locs target deleted kept))), D')))"

record HistoryEntry =
  he_name :: ustr
  he_path :: ustr
  he_bytes :: nat

definition run_history :: "writer_io \<Rightarrow> config_locs \<Rightarrow> WriteTarget \<Rightarrow> cfg_dir \<Rightarrow> WriterError + HistoryEntry list" where
  "run_history io locs target D =
     (case list_backups io (target_path locs target) D of
        Inl e \<Rightarrow> Inl e
      | Inr baks \<Rightarrow>
          Inr (map (\<lambda>b. \<lparr>he_name = b, he_path = display_path locs b,
            he_bytes = (case map_of D b of None \<Rightarrow> 0 | Some f \<Rightarrow> blen (cf_content f))\<rparr>) baks))"

subsection \<open>Init of a file\<close>

datatype InitStatus = Created | Overwritten | Skipped | Init_Error

record InitOutcome =
  io_target :: ustr
  io_path :: ustr
  io_status :: InitStatus
  io_backup_path :: "ustr option"
  io_note :: "ustr option"

definition init_file ::
  "ustr option \<Rightarrow> writer_io \<Rightarrow> config_locs \<Rightarrow> ustr \<Rightarrow> ustr \<Rightarrow> ustr \<Rightarrow> bool \<Rightarrow> cfg_dir \<Rightarrow> InitOutcome \<times> cfg_dir" where
  "init_file mkdir_failure io locs label name contents force D =
     (let outcome = (\<lambda>st b n. \<lparr>io_target = label, io_path = display_path locs name, io_status = st, io_backup_path = b, io_note = n\<rparr>);
          found = map_of D name in
      if (case found of Some f \<Rightarrow> \<not> cf_regular f | None \<Rightarrow> False)
      then (outcome Init_Error None (Some (lit ''path exists but is not a regular file; refusing to clobber'')), D)
      else if found \<noteq> None \<and> \<not> force
      then (outcome Skipped None (Some (lit ''file exists; pass --force to overwrite'')), D)
      else case mkdir_failure of
          Some e \<Rightarrow> (outcome Init_Error None (Some (lit ''parent mkdir failed: '' @ e)), D)
        | None \<Rightarrow>
            (case write_with_backup io name contents D of
               (Inr rep, D') \<Rightarrow>
                 (outcome (if found \<noteq> None then Overwritten else Created) (map_option (display_path locs) (backup_path rep)) None, D')
             | (Inl e, D') \<Rightarrow> (outcome Init_Error None (Some (writer_err_msg (ld_parent locs) e)), D')))"

subsection \<open>Migrate\<close>

datatype SchemaVersionRead =
    Version_Ok nat | Version_ReadError | Version_ParseError | Version_Missing | Version_NonInteger | Version_OutOfRange int

definition file_schema_version :: "config_lib \<Rightarrow> ustr option \<Rightarrow> cfg_file \<Rightarrow> SchemaVersionRead" where
  "file_schema_version L read_failure f =
     (case read_failure of
        Some _ \<Rightarrow> Version_ReadError
      | None \<Rightarrow>
          (case lib_parse L (cf_content f) of
             Inl _ \<Rightarrow> Version_ParseError
           | Inr v \<Rightarrow>
               (case toml_get v (lit ''schema_version'') of
                  None \<Rightarrow> Version_Missing
                | Some raw \<Rightarrow>
                    (case as_integer raw of
                       None \<Rightarrow> Version_NonInteger
                     | Some n \<Rightarrow> if 0 \<le> n \<and> n < 2 ^ 32 then Version_Ok (nat n) else Version_OutOfRange n))))"

datatype migrate_action = M_Noop | M_Skipped | M_Error

record MigrateOutcome =
  mo_target :: ustr
  mo_path :: ustr
  mo_from_version :: nat
  mo_to_version :: nat
  mo_action :: migrate_action
  mo_note :: ustr

definition version_outcome :: "SchemaVersionRead \<Rightarrow> nat \<times> migrate_action \<times> ustr" where
  "version_outcome r =
     (let target = LATEST_SCHEMA_VERSION in
      case r of
        Version_Ok v \<Rightarrow>
          if v = target then (v, M_Noop, lit ''schema_version already v'' @ digits_of target)
          else if v > target
          then (v, M_Error, lit ''file is at v'' @ digits_of v @ lit '' which is newer than supported v'' @ digits_of target)
          else (v, M_Error, lit ''no migration registered for v'' @ digits_of v @ lit '' '' @ [0x2192] @ lit '' v'' @ digits_of target)
      | Version_ReadError \<Rightarrow> (0, M_Error, lit ''read error (file unreadable)'')
      | Version_ParseError \<Rightarrow> (0, M_Error, lit ''TOML parse failed (run `config validate`)'')
      | Version_Missing \<Rightarrow> (0, M_Error, lit ''schema_version field missing '' @ [0x2014] @ lit '' refusing to assume v1'')
      | Version_NonInteger \<Rightarrow> (0, M_Error, lit ''schema_version is not an integer'')
      | Version_OutOfRange n \<Rightarrow> (0, M_Error, lit ''schema_version '' @ int_text n @ lit '' out of u32 range''))"

definition migrate_target ::
  "config_lib \<Rightarrow> (WriteTarget \<Rightarrow> ustr option) \<Rightarrow> config_locs \<Rightarrow> cfg_dir \<Rightarrow> WriteTarget \<Rightarrow> MigrateOutcome" where
  "migrate_target L read_failure locs D t =
     (let name = target_path locs t;
          outcome = (\<lambda>v a n. \<lparr>mo_target = write_target_label t, mo_path = display_path locs name, mo_from_version = v,
            mo_to_version = LATEST_SCHEMA_VERSION, mo_action = a, mo_note = n\<rparr>) in
      case map_of D name of
        None \<Rightarrow> outcome 0 M_Skipped (lit ''file missing'')
      | Some f \<Rightarrow> (case version_outcome (file_schema_version L (read_failure t) f) of (v, a, n) \<Rightarrow> outcome v a n))"

definition run_migrate ::
  "config_lib \<Rightarrow> (WriteTarget \<Rightarrow> ustr option) \<Rightarrow> config_locs \<Rightarrow> cfg_dir \<Rightarrow> int \<times> MigrateOutcome list" where
  "run_migrate L read_failure locs D =
     (let outcomes = map (migrate_target L read_failure locs D) [WT_Policy, WT_Authorized] in
      (if list_ex (\<lambda>o1. mo_action o1 = M_Error) outcomes then 1 else 0, outcomes))"

subsection \<open>The commands\<close>

text \<open>Each command with its plan, its replay key and the effect above.\<close>

definition target_debug :: "WriteTarget \<Rightarrow> json" where
  "target_debug t = JStr (case t of WT_Policy \<Rightarrow> lit ''Policy'' | WT_Authorized \<Rightarrow> lit ''Authorized'')"

record dry_run_args =
  da_dry_run :: bool
  da_idempotency_key :: "ustr option"

record guard_env =
  ge_lib :: idem_lib
  ge_ttl :: nat
  ge_check :: idem_io
  ge_record :: idem_io

definition with_guard ::
  "guard_env \<Rightarrow> dry_run_args \<Rightarrow> ustr \<Rightarrow> ustr list \<Rightarrow> (ustr \<times> json) list \<Rightarrow> ('s \<Rightarrow> cmd_result \<times> 's) \<Rightarrow>
   's \<times> idem_fs \<Rightarrow> (int \<times> printed) \<times> 's \<times> idem_fs" where
  "with_guard G da op plan items effect =
     mutate_command (ge_lib G) (ge_ttl G) (ge_check G) (ge_record G) (da_dry_run da) op plan (da_idempotency_key da)
       (payload_value op items) effect"

definition config_set ::
  "guard_env \<Rightarrow> dry_run_args \<Rightarrow> config_lib \<Rightarrow> (toml \<Rightarrow> ustr + ustr) \<Rightarrow> set_io \<Rightarrow> config_locs \<Rightarrow> ConfigFormat \<Rightarrow> set_args \<Rightarrow>
   cfg_dir \<times> idem_fs \<Rightarrow> (int \<times> printed) \<times> cfg_dir \<times> idem_fs" where
  "config_set G da L pretty io locs format a =
     with_guard G da (lit ''config.set'')
       [lit ''resolve target file (policy.toml / authorized.toml)'', lit ''load current TOML document'',
        lit ''infer value type (bool / int / string)'', lit ''apply set on dotted key (in-memory only)'',
        lit ''(skipped) strict validation of candidate document'', lit ''(skipped) ConfigWriter atomic write + .bak.<epoch> backup'']
       [(lit ''target'', target_debug (sa_target a)), (lit ''key'', JStr (sa_key a)),
        (lit ''value_sha'', JStr (hash16 (sha_256 (ge_lib G)) (sa_value a)))]
       (run_set L pretty io locs format a)"

text \<open>An edit takes no part in replay.\<close>

definition config_edit ::
  "dry_run_args \<Rightarrow> config_lib \<Rightarrow> edit_io \<Rightarrow> config_locs \<Rightarrow> ConfigFormat \<Rightarrow> WriteTarget \<Rightarrow> ustr option \<Rightarrow> ustr option \<Rightarrow> cfg_dir \<Rightarrow>
   (int \<times> printed) \<times> edit_world" where
  "config_edit da L io locs format target editor editor_env D =
     (if da_dry_run da then
        (case emit_dry_run (lit ''config.edit'')
            [lit ''resolve target file (policy.toml / authorized.toml)'', lit ''resolve $EDITOR (fallback vi)'',
             lit ''(skipped) copy current file to tempfile'', lit ''(skipped) spawn editor on tempfile'',
             lit ''(skipped) strict validation of candidate document'', lit ''(skipped) ConfigWriter atomic write + .bak.<epoch> backup'']
            (da_idempotency_key da) of (c, v) \<Rightarrow> ((c, Structured v), \<lparr>ew_dir = D, ew_tmp = None\<rparr>))
      else case run_edit L io locs format target editor editor_env D of ((c, out, _), w) \<Rightarrow> ((c, out), w))"

definition config_rollback ::
  "guard_env \<Rightarrow> dry_run_args \<Rightarrow> ustr option \<Rightarrow> writer_io \<Rightarrow> config_locs \<Rightarrow> ConfigFormat \<Rightarrow> WriteTarget \<Rightarrow> ustr \<Rightarrow>
   cfg_dir \<times> idem_fs \<Rightarrow> (int \<times> printed) \<times> cfg_dir \<times> idem_fs" where
  "config_rollback G da read_failure io locs format target bak_nm =
     with_guard G da (lit ''config.rollback'')
       [lit ''resolve target file (policy.toml / authorized.toml)'', lit ''validate backup name (path-traversal rejection)'',
        lit ''(skipped) read backup contents'',
        lit ''(skipped) ConfigWriter::write_with_backup (atomic restore + fresh .bak.<epoch>)'']
       [(lit ''target'', target_debug target), (lit ''bak_name'', JStr bak_nm)]
       (run_rollback read_failure io locs format target bak_nm)"

definition config_gc ::
  "guard_env \<Rightarrow> dry_run_args \<Rightarrow> writer_io \<Rightarrow> writer_io \<Rightarrow> config_locs \<Rightarrow> ConfigFormat \<Rightarrow> WriteTarget \<Rightarrow> nat \<Rightarrow>
   cfg_dir \<times> idem_fs \<Rightarrow> (int \<times> printed) \<times> cfg_dir \<times> idem_fs" where
  "config_gc G da io1 io2 locs format target keep =
     with_guard G da (lit ''config.gc'')
       [lit ''resolve target file's parent directory'', lit ''list .bak.<epoch> backups in newest'' @ [0x2192] @ lit ''oldest order'',
        lit ''compute keep / delete buckets per --keep'', lit ''(skipped) unlink older backups'']
       [(lit ''target'', target_debug target), (lit ''keep'', nat_json keep)]
       (run_gc io1 io2 locs format target keep)"

section \<open>Lemmas\<close>

text \<open>On the world and the cache, a command that is no dry run is a guarded command.\<close>

lemma mutate_is_guarded:
  "snd (mutate_command L ttl io1 io2 False op plan key payload effect st) =
   snd (guarded L ttl io1 io2 op key payload
     (\<lambda>w. case effect w of ((c, out, rec), w1) \<Rightarrow> (case rec of None \<Rightarrow> Inl (c, JNull) | Some env \<Rightarrow> Inr env, w1)) st)"
  by (cases st) (auto simp: mutate_command_def guarded_def split: prod.splits option.splits)

lemma dry_run_pure: "snd (mutate_command L ttl io1 io2 True op plan key payload effect st) = st"
  by (cases st) (simp add: mutate_command_def emit_dry_run_def)

lemma set_candidate_ok:
  assumes "set_candidate L pretty io locs a D = Inr txt"
  shows "report_is_ok (validate_doc_for_target L (si_env io) txt (sa_target a)) \<and>
    (\<exists>original doc doc'.
       original = (case map_of D (target_path locs (sa_target a)) of None \<Rightarrow> [] | Some f \<Rightarrow> cf_content f) \<and>
       (if original = [] then Inr (T_Table []) else lib_parse L original) = Inr doc \<and>
       set_dotted_toml doc (strip_layer_prefix (sa_key a) (sa_target a)) (infer_toml_value (sa_value a)) = Inr doc' \<and>
       pretty doc' = Inr txt)"
  using assms
  by (auto simp: set_candidate_def and_then_Inr Let_def split: if_splits option.splits sum.splits)

lemma run_set_success:
  assumes "run_set L pretty io locs format a D = ((0, out, rec), D')"
  obtains body rep where "set_candidate L pretty io locs a D = Inr body"
    "write_with_backup (si_writer io) (target_path locs (sa_target a)) body D = (Inr rep, D')"
    "out = set_printed locs format a (backup_path rep)"
  using assms by (auto simp: run_set_def split: sum.splits option.splits prod.splits)

lemma bak_name_resolves:
  assumes "47 \<notin> set name" "92 \<notin> set name"
  shows "resolve_bak name (bak_name name ms k) = Inr (bak_name name ms k)"
proof -
  let ?b = "bak_name name ms k"
  have "length ?b > 2" by (simp add: bak_name_def bak_prefix_def lit_def)
  then have short: "?b \<noteq> []" "?b \<noteq> lit ''.''" "?b \<noteq> lit ''..''" by (auto simp: lit_def)
  have "\<not> list_ex (\<lambda>c. c = lit ''..'') (split_char 46 ?b)"
    using split_char_free_pieces [of "lit ''..''" 46 ?b] by (auto simp: list_ex_iff lit_def)
  moreover have "c \<notin> set ?b" if "c \<in> {47, 92}" for c
    using that assms digits_of_digits [of c] by (auto simp: bak_name_def bak_prefix_def lit_def is_digit_def)
  ultimately show ?thesis using short bak_name_prefix by (simp add: resolve_bak_def)
qed

lemma run_rollback_success:
  assumes "run_rollback rf io locs format target bak D = ((0, out, rec), D')"
  obtains f rep where "map_of D bak = Some f" "prefix (bak_prefix (target_path locs target)) bak"
    "write_with_backup io (target_path locs target) (cf_content f) D = (Inr rep, D')"
  using assms
  by (auto simp: run_rollback_def resolve_bak_def Let_def split: if_splits sum.splits option.splits prod.splits)

lemma run_rollback_code:
  assumes "resolve_bak (target_path locs target) bak = Inr bak" "map_of D bak \<noteq> None"
  shows "fst (fst (run_rollback rf io locs format target bak D)) \<in> {0, 1}"
  using assms by (auto simp: run_rollback_def Let_def split: sum.splits option.splits prod.splits)

lemma read_schema_version_file:
  "file_schema_version L None f = Version_Ok v \<longleftrightarrow>
   (\<exists>doc. lib_parse L (cf_content f) = Inr doc \<and> read_schema_version doc = Inr v)"
  by (auto simp: file_schema_version_def read_schema_version_def split: sum.splits option.splits)

lemma default_migration_noop:
  "migrate_to doc LATEST_SCHEMA_VERSION default_migrations = Inr r \<longleftrightarrow>
   read_schema_version doc = Inr LATEST_SCHEMA_VERSION \<and> r = (doc, NoOp LATEST_SCHEMA_VERSION)"
proof (cases "read_schema_version doc")
  case (Inr v)
  have "migrate_loop default_migrations 1 (length default_migrations + 1) doc v 0 = Inl (NoMigration v 1)" if "v \<noteq> 1"
    using that by (subst migrate_loop.simps) (simp add: default_migrations_def)
  then show ?thesis using Inr by (auto simp: migrate_to_def LATEST_SCHEMA_VERSION_def)
qed (simp add: migrate_to_def)

lemma version_outcome_error: "fst (snd (version_outcome r)) = M_Error \<longleftrightarrow> r \<noteq> Version_Ok LATEST_SCHEMA_VERSION"
  by (auto simp: version_outcome_def Let_def split: SchemaVersionRead.splits)

section \<open>Properties\<close>

definition demo_toml_lib :: config_lib where
  "demo_toml_lib = \<lparr>lib_parse = (\<lambda>_. Inr (T_Table [(lit ''k'', T_Integer 1)])), lib_bridge = (\<lambda>_. None), lib_deserialize = (\<lambda>_ _. None),
     lib_regex = (\<lambda>_. None), lib_debug = (\<lambda>s. s)\<rparr>"

definition demo_pretty :: "toml \<Rightarrow> ustr + ustr" where
  "demo_pretty d =
     (case d of T_Table [(k, T_Integer n)] \<Rightarrow> if k = lit ''k'' \<and> n = 1 then Inr (lit ''k = 1'') else Inl [] | _ \<Rightarrow> Inl [])"

definition demo_set_io :: set_io where
  "demo_set_io = \<lparr>si_read = None, si_env = None, si_mkdir = None, si_writer = demo_writer\<rparr>"

definition demo_locs :: config_locs where
  "demo_locs = \<lparr>ld_parent = lit ''/c'', ld_policy = lit ''p.toml'', ld_authorized = lit ''a.toml''\<rparr>"

definition demo_set :: set_args where
  "demo_set = \<lparr>sa_target = WT_Policy, sa_key = lit ''policy.k'', sa_value = lit ''1''\<rparr>"

definition demo_edit_io :: edit_io where
  "demo_edit_io = \<lparr>ei_read = None, ei_tempdir = None, ei_seed = None, ei_tmp_path = lit ''/t'',
     ei_editor = (\<lambda>_ _. (Editor_Exited True [], lit ''draft'')), ei_reread = None, ei_env = None, ei_persist = None, ei_epoch = 1,
     ei_writer = demo_writer, ei_sweep = True\<rparr>"

text \<open>
  \<^verbatim>\<open>config set\<close> installs only validated documents: whatever fails on the way, no other file of the directory
  changes and the target keeps its contents unless the exit code is 0, and then it holds a text that the
  validator accepted.
\<close>

lemma set_safe:
  assumes "run_set L pretty io locs format a D = ((c, out, rec), D')"
  shows "(\<forall>n. n \<noteq> target_path locs (sa_target a) \<and> map_of D n \<noteq> None \<longrightarrow> map_of D' n = map_of D n) \<and>
    (if c = 0
     then \<exists>txt. map_option cf_content (map_of D' (target_path locs (sa_target a))) = Some txt \<and>
       report_is_ok (validate_doc_for_target L (si_env io) txt (sa_target a))
     else c = 1 \<and> rec = None \<and> map_of D' (target_path locs (sa_target a)) = map_of D (target_path locs (sa_target a)))"
proof (cases "set_candidate L pretty io locs a D")
  case (Inl e)
  then show ?thesis using assms by (simp add: run_set_def)
next
  case (Inr body)
  obtain r D1 where w: "write_with_backup (si_writer io) (target_path locs (sa_target a)) body D = (r, D1)" by fastforce
  have ok: "report_is_ok (validate_doc_for_target L (si_env io) body (sa_target a))" using set_candidate_ok [OF Inr] by blast
  show ?thesis
  proof (cases r)
    case (Inl e)
    then show ?thesis using assms \<open>set_candidate _ _ _ _ _ _ = _\<close> w fs_writer.others [OF w] fs_writer.failed [OF w [unfolded Inl]]
      by (auto simp: run_set_def split: option.splits)
  next
    case (Inr rep)
    then show ?thesis
      using assms \<open>set_candidate _ _ _ _ _ _ = _\<close> w fs_writer.others [OF w] fs_writer.installed [OF w [unfolded Inr]] ok
      by (auto simp: run_set_def split: option.splits)
  qed
qed

text \<open>
  C27. What \<^verbatim>\<open>config set\<close> wrote is what a reader of the file gets: after a success the file parses to a document in
  which the key leads to the inferred value and every unrelated path leads where it led in the old document.
\<close>

theorem set_round_trip:
  assumes "\<forall>d t. pretty d = Inr t \<longrightarrow> lib_parse L t = Inr d"
    and "run_set L pretty io locs format a D = ((0, out, rec), D')"
  shows "\<exists>original doc f doc'.
    original = (case map_of D (target_path locs (sa_target a)) of None \<Rightarrow> [] | Some f \<Rightarrow> cf_content f) \<and>
    (if original = [] then Inr (T_Table []) else lib_parse L original) = Inr doc \<and>
    map_of D' (target_path locs (sa_target a)) = Some f \<and> lib_parse L (cf_content f) = Inr doc' \<and>
    (let p = key_segments (strip_layer_prefix (sa_key a) (sa_target a)) in
     get_segments p doc' = Some (infer_toml_value (sa_value a)) \<and>
     (\<forall>q. unrelated p q \<longrightarrow> get_segments q doc' = get_segments q doc))"
proof -
  obtain body rep where c: "set_candidate L pretty io locs a D = Inr body"
    and w: "write_with_backup (si_writer io) (target_path locs (sa_target a)) body D = (Inr rep, D')"
    using run_set_success [OF assms(2)] .
  from set_candidate_ok [OF c] obtain doc doc' where d:
    "(if (case map_of D (target_path locs (sa_target a)) of None \<Rightarrow> [] | Some f \<Rightarrow> cf_content f) = [] then Inr (T_Table [])
      else lib_parse L (case map_of D (target_path locs (sa_target a)) of None \<Rightarrow> [] | Some f \<Rightarrow> cf_content f)) = Inr doc"
    "set_dotted_toml doc (strip_layer_prefix (sa_key a) (sa_target a)) (infer_toml_value (sa_value a)) = Inr doc'"
    "pretty doc' = Inr body" by blast
  from fs_writer.installed [OF w] obtain f where "map_of D' (target_path locs (sa_target a)) = Some f" "cf_content f = body" by auto
  moreover have "lib_parse L body = Inr doc'" using assms(1) d(3) by blast
  ultimately show ?thesis using d(1) set_dotted_exact [OF d(2)] unfolding Let_def by blast
qed

theorem set_round_trip_witness:
  "case run_set demo_toml_lib demo_pretty demo_set_io demo_locs Format_Json demo_set demo_dir of ((c, out, rec), D') \<Rightarrow>
     c = 0 \<and> (\<exists>f doc'. map_of D' (lit ''p.toml'') = Some f \<and> lib_parse demo_toml_lib (cf_content f) = Inr doc' \<and>
       get_segments [lit ''k''] doc' = Some (T_Integer 1))"
proof -
  obtain c out rec D' where r: "run_set demo_toml_lib demo_pretty demo_set_io demo_locs Format_Json demo_set demo_dir = ((c, out, rec), D')"
    by (metis surj_pair)
  have c: "c = 0"
  proof -
    have "fst (fst (run_set demo_toml_lib demo_pretty demo_set_io demo_locs Format_Json demo_set demo_dir)) = 0" by code_simp
    then show ?thesis using r by simp
  qed
  have h: "\<forall>d t. demo_pretty d = Inr t \<longrightarrow> lib_parse demo_toml_lib t = Inr d"
    by (auto simp: demo_pretty_def demo_toml_lib_def split: toml.splits list.splits prod.splits if_splits)
  have k: "key_segments (strip_layer_prefix (sa_key demo_set) (sa_target demo_set)) = [lit ''k'']"
    "infer_toml_value (sa_value demo_set) = T_Integer 1" "target_path demo_locs (sa_target demo_set) = lit ''p.toml''"
    by code_simp+
  from set_round_trip [OF h r [unfolded c]] show ?thesis unfolding k Let_def using r c by fastforce
qed

text \<open>
  An edit that is not installed is not lost: when the editor reports a failure or the result does not
  validate, the target is unchanged and the edited text is in the recovery file or still in the temporary
  directory.
\<close>

lemma edit_kept:
  assumes "(case map_of D (target_path locs target) of None \<Rightarrow> True | Some f \<Rightarrow> ei_read io = None)"
    and "ei_tempdir io = None" "ei_seed io = None" "editor_words editor editor_env = bin # extra"
    and "ei_editor io (bin # extra) (case map_of D (target_path locs target) of None \<Rightarrow> [] | Some f \<Rightarrow> cf_content f) =
      (Editor_Exited success s, edited)"
    and "\<not> success \<or> ei_reread io = None \<and> \<not> report_is_ok (validate_doc_for_target L (ei_env io) edited target)"
  shows "case run_edit L io locs format target editor editor_env D of ((c, out, rec), w) \<Rightarrow>
    c = 1 \<and> map_of (ew_dir w) (target_path locs target) = map_of D (target_path locs target) \<and>
    (ew_tmp w = Some edited \<or>
     map_option cf_content (map_of (ew_dir w) (aborted_name io (target_path locs target))) = Some edited)"
proof -
  let ?name = "target_path locs target"
  have "length ?name < length (aborted_name io ?name)" by (simp add: aborted_name_def lit_def)
  then have other: "?name \<noteq> aborted_name io ?name" by auto
  have read: "(case map_of D ?name of None \<Rightarrow> Inr [] | Some f \<Rightarrow> (case ei_read io of Some e \<Rightarrow> Inl e | None \<Rightarrow> Inr (cf_content f))) =
      Inr (case map_of D ?name of None \<Rightarrow> [] | Some f \<Rightarrow> cf_content f)"
    using assms(1) by (auto split: option.splits)
  show ?thesis
    unfolding run_edit_def Let_def read
    using assms(2-6) other
    by (auto simp: finish_edit_def Let_def persist_aborted_temp_def sweep_def new_file_def split: option.splits)
qed

text \<open>
  A valid edit is lost when the write fails: if the directory of the target has gone, the command fails,
  the directory is as before, and the only copy of the edited text has been swept away with the temporary
  directory.
\<close>

lemma edit_lost:
  assumes "map_of D (target_path locs target) = None"
    and "ei_tempdir io = None" "ei_seed io = None" "editor_words editor editor_env = bin # extra"
    and "ei_editor io (bin # extra) [] = (Editor_Exited True s, edited)" "ei_reread io = None"
    and "report_is_ok (validate_doc_for_target L (ei_env io) edited target)"
    and "w_parent_named (ei_writer io)" "\<not> w_parent_exists (ei_writer io)" "ei_sweep io"
  shows "case run_edit L io locs format target editor editor_env D of ((c, out, rec), w) \<Rightarrow>
    c = 1 \<and> w = \<lparr>ew_dir = D, ew_tmp = None\<rparr>"
  using assms by (simp add: run_edit_def finish_edit_def Let_def write_with_backup_def sweep_def)

text \<open>
  C28. A rollback can be undone: it makes the target equal to the chosen backup and keeps the previous contents
  in a fresh backup that the command accepts by name, and rolling back to that one restores them.
\<close>

theorem rollback_undo:
  assumes "47 \<notin> set (target_path locs target)" "92 \<notin> set (target_path locs target)"
    and "map_of D (target_path locs target) = Some f"
    and "run_rollback rf io locs format target bak D = ((0, out, rec), D')"
  shows "\<exists>g b. map_of D bak = Some g \<and> map_option cf_content (map_of D' (target_path locs target)) = Some (cf_content g) \<and>
    map_of D b = None \<and> map_option cf_content (map_of D' b) = Some (cf_content f) \<and>
    (\<forall>rf2 io2. case run_rollback rf2 io2 locs format target b D' of ((c, out2, rec2), D2) \<Rightarrow>
       c \<in> {0, 1} \<and> (c = 0 \<longrightarrow> map_option cf_content (map_of D2 (target_path locs target)) = Some (cf_content f)))"
proof -
  let ?name = "target_path locs target"
  obtain g rep where g: "map_of D bak = Some g" and w: "write_with_backup io ?name (cf_content g) D = (Inr rep, D')"
    using run_rollback_success [OF assms(4)] .
  from fs_writer.backed_up [OF w assms(3)] obtain b where b: "backup_path rep = Some b" "map_of D b = None"
      "map_option cf_content (map_of D' b) = Some (cf_content f)" by blast
  have new: "map_option cf_content (map_of D' ?name) = Some (cf_content g)" by (rule fs_writer.installed [OF w])
  have res: "resolve_bak ?name b = Inr b"
    using write_backup_name [OF w b(1)] bak_name_resolves [OF assms(1,2)] by auto
  have "case run_rollback rf2 io2 locs format target b D' of ((c, out2, rec2), D2) \<Rightarrow>
       c \<in> {0, 1} \<and> (c = 0 \<longrightarrow> map_option cf_content (map_of D2 ?name) = Some (cf_content f))" for rf2 io2
  proof -
    obtain c out2 rec2 D2 where r: "run_rollback rf2 io2 locs format target b D' = ((c, out2, rec2), D2)"
      by (metis surj_pair)
    have "c \<in> {0, 1}" using run_rollback_code [OF res, of D' rf2 io2 format] b(3) r by auto
    moreover have "map_option cf_content (map_of D2 ?name) = Some (cf_content f)" if "c = 0"
    proof -
      have r0: "run_rollback rf2 io2 locs format target b D' = ((0, out2, rec2), D2)" using r that by simp
      from run_rollback_success [OF r0] obtain h rep2 where
        h: "map_of D' b = Some h" "write_with_backup io2 ?name (cf_content h) D' = (Inr rep2, D2)" by blast
      then show ?thesis using fs_writer.undo [OF w b(1) assms(3) h] by simp
    qed
    ultimately show ?thesis using r by simp
  qed
  then show ?thesis using g new b(2,3) by blast
qed

theorem rollback_undo_witness:
  "case run_rollback None demo_writer demo_locs Format_Json WT_Policy (lit ''p.toml.bak.6'') demo_dir of ((c, out, rec), D') \<Rightarrow>
     c = 0 \<and> (\<exists>b. map_of demo_dir b = None \<and> map_option cf_content (map_of D' b) = Some (lit ''old''))"
proof -
  obtain c out rec D' where r: "run_rollback None demo_writer demo_locs Format_Json WT_Policy (lit ''p.toml.bak.6'') demo_dir = ((c, out, rec), D')"
    by (metis surj_pair)
  have c: "c = 0"
  proof -
    have "fst (fst (run_rollback None demo_writer demo_locs Format_Json WT_Policy (lit ''p.toml.bak.6'') demo_dir)) = 0" by code_simp
    then show ?thesis using r by simp
  qed
  have "47 \<notin> set (target_path demo_locs WT_Policy)" "92 \<notin> set (target_path demo_locs WT_Policy)" by code_simp+
  moreover have "map_of demo_dir (target_path demo_locs WT_Policy) = Some \<lparr>cf_content = lit ''old'', cf_mtime = 5, cf_regular = True\<rparr>"
    by (simp add: demo_dir_def demo_locs_def target_path_def)
  ultimately show ?thesis using rollback_undo [OF _ _ _ r [unfolded c]] r c by fastforce
qed

text \<open>
  Collection reports what it did: on success the remaining backups are the newest ones, at most as many as
  asked for, and the numbers printed are those of the directory.
\<close>

lemma gc_reports:
  assumes "dir_ok D" "w_parent_exists io1 = w_parent_exists io2"
    and "list_backups io1 (target_path locs target) D = Inr baks"
    and "run_gc io1 io2 locs format target keep D = ((0, out, rec), D')"
  shows "list_backups io2 (target_path locs target) D' = Inr (take keep baks) \<and>
    rec = Some (success_envelope (lit ''config.gc'') (gc_json locs target (length baks - keep) (min keep (length baks))))"
proof -
  let ?name = "target_path locs target"
  obtain d where g: "gc_backups io2 ?name keep D = (Inr d, D')"
    and r: "rec = Some (success_envelope (lit ''config.gc'') (gc_json locs target d (length baks - d)))"
    using assms(3,4) by (auto simp: run_gc_def Let_def split: sum.splits prod.splits)
  have l: "list_backups io2 ?name D = Inr baks"
    using assms(2,3) g by (auto simp: list_backups_def gc_backups_def split: if_splits option.splits)
  from gc_keeps_newest [OF assms(1) l g] have "list_backups io2 ?name D' = Inr (take keep baks)" "d = length baks - keep" by simp_all
  moreover have "length baks - (length baks - keep) = min keep (length baks)" by simp
  ultimately show ?thesis using r by simp
qed

text \<open>
  \<^verbatim>\<open>config migrate\<close> agrees with the migration engine: it reports success exactly when for each of the two files
  that exists the engine, with the registered migrations, has nothing to do.
\<close>

lemma migrate_agrees:
  "fst (run_migrate L rf locs D) = 0 \<longleftrightarrow>
   list_all (\<lambda>t. case map_of D (target_path locs t) of
       None \<Rightarrow> True
     | Some f \<Rightarrow> rf t = None \<and> (\<exists>doc. lib_parse L (cf_content f) = Inr doc \<and>
         migrate_to doc LATEST_SCHEMA_VERSION default_migrations = Inr (doc, NoOp LATEST_SCHEMA_VERSION)))
     [WT_Policy, WT_Authorized]"
proof -
  have "mo_action (migrate_target L rf locs D t) \<noteq> M_Error \<longleftrightarrow>
      (case map_of D (target_path locs t) of
         None \<Rightarrow> True
       | Some f \<Rightarrow> rf t = None \<and> (\<exists>doc. lib_parse L (cf_content f) = Inr doc \<and>
           migrate_to doc LATEST_SCHEMA_VERSION default_migrations = Inr (doc, NoOp LATEST_SCHEMA_VERSION)))" for t
  proof (cases "map_of D (target_path locs t)")
    case None
    then show ?thesis by (simp add: migrate_target_def Let_def)
  next
    case (Some f)
    have "mo_action (migrate_target L rf locs D t) = fst (snd (version_outcome (file_schema_version L (rf t) f)))"
      using Some by (simp add: migrate_target_def Let_def split: prod.split)
    moreover have "file_schema_version L (rf t) f \<noteq> Version_Ok v" if "rf t \<noteq> None" for v
      using that by (auto simp: file_schema_version_def)
    ultimately show ?thesis
      using Some by (cases "rf t") (auto simp: version_outcome_error read_schema_version_file default_migration_noop)
  qed
  then show ?thesis by (auto simp: run_migrate_def Let_def)
qed

end
