(* ===== verification/Config_Profiles.thy ===== *)
theory Config_Profiles
  imports Config_Commands Utf8
begin

text \<open>
  Where the configuration lives, its initialisation, and the profiles, of
  \<^verbatim>\<open>stealth-cli/src/commands/config_cli.rs\<close>: the locations of the files, \<^verbatim>\<open>config init\<close>, and listing, creating, switching
  to and deleting a profile. A path is the list of its components; the profile directory is a tree of files,
  links and directories. The policy template, which the build includes, is a parameter.
\<close>

section \<open>Definitions\<close>

type_synonym cpath = "ustr list"

subsection \<open>Locations\<close>

record loc_env =
  le_rev_home :: "cpath option"
  le_user_home :: "cpath option"
  le_policy :: "cpath option"
  le_authorized :: "cpath option"
  le_profiles_root :: "cpath option"

record ConfigLocations =
  cl_policy :: cpath
  cl_authorized :: cpath
  cl_sites_dir :: cpath

definition resolve_locations :: "loc_env \<Rightarrow> ConfigLocations" where
  "resolve_locations env =
     (let base = (case le_rev_home env of Some p \<Rightarrow> p | None \<Rightarrow>
                   (case le_user_home env of Some h \<Rightarrow> h @ [lit ''.rev_scraping''] | None \<Rightarrow> [lit ''.rev_scraping''])) in
      \<lparr>cl_policy = (case le_policy env of Some p \<Rightarrow> p | None \<Rightarrow> base @ [lit ''policy.toml'']),
       cl_authorized = (case le_authorized env of Some p \<Rightarrow> p | None \<Rightarrow> base @ [lit ''authorized.toml'']),
       cl_sites_dir = base @ [lit ''sites'']\<rparr>)"

definition profiles_root :: "loc_env \<Rightarrow> cpath" where
  "profiles_root env =
     (case le_profiles_root env of
        Some p \<Rightarrow> p
      | None \<Rightarrow>
          (case le_user_home env of
             Some h \<Rightarrow> h @ [lit ''.rev_scraping'', lit ''profiles'']
           | None \<Rightarrow> [lit ''.rev_scraping'', lit ''profiles'']))"

definition profile_dir :: "loc_env \<Rightarrow> ustr \<Rightarrow> cpath" where
  "profile_dir env name = profiles_root env @ [name]"

subsection \<open>Init\<close>

datatype InitTarget = Init_All | Init_Policy | Init_Authorized | Init_Sites

definition AUTHORIZED_SKELETON :: ustr where
  "AUTHORIZED_SKELETON =
     lit ''# SPDX-License-Identifier: MIT'' @ [10] @
     lit ''# rev_scraping authorized targets '' @ [0x2014] @ lit '' generated by `rev-stealth config init`.'' @ [10] @
     lit ''# Each [[targets]] row enumerates one domain the operator is authorized to'' @ [10] @
     lit ''# scrape. Edit by hand; the schema is documented in docs/manual/config.md.'' @ [10] @
     [10] @
     lit ''schema_version = 1'' @ [10] @
     [10] @
     lit ''# Example (commented out '' @ [0x2014] @ lit '' uncomment and edit to authorize a real domain):'' @ [10] @
     lit ''# [[targets]]'' @ [10] @
     lit ''# domain = \"example.com\"'' @ [10] @
     lit ''# proof_url = \"https://example.com/.well-known/scraping-authorization.txt\"'' @ [10] @
     lit ''# expires_at = \"2027-01-01T00:00:00Z\"'' @ [10]"

definition PLACEHOLDER_BODY :: ustr where
  "PLACEHOLDER_BODY =
     lit ''# Site recipe placeholder '' @ [0x2014] @ lit '' see templates/sites/example.com.toml'' @ [10] @
     lit ''# for the full schema. Rename this file to <your-domain>.toml.'' @ [10] @
     lit ''schema_version = 2'' @ [10] @
     lit ''[site]'' @ [10] @
     lit ''domain = \"example.com\"'' @ [10]"

record init_io =
  ii_mkdir :: "ustr option"
  ii_sites_mkdir :: "ustr option"
  ii_policy :: writer_io
  ii_authorized :: writer_io
  ii_seed :: writer_io

text \<open>The configuration directory and its \<^verbatim>\<open>sites\<close> directory, which may be absent.\<close>

record init_world =
  iw_dir :: cfg_dir
  iw_sites :: "cfg_dir option"

definition init_sites_dir :: "init_io \<Rightarrow> ustr \<Rightarrow> cfg_dir option \<Rightarrow> InitOutcome \<times> cfg_dir option" where
  "init_sites_dir io sites_text sites =
     (let outcome = (\<lambda>st n. \<lparr>io_target = lit ''sites'', io_path = sites_text, io_status = st, io_backup_path = None, io_note = n\<rparr>);
          placeholder = lit ''example.com.toml'';
          fine = (case sites of Some _ \<Rightarrow> Skipped | None \<Rightarrow> Created) in
      case ii_sites_mkdir io of
        Some e \<Rightarrow> (outcome Init_Error (Some (lit ''mkdir failed: '' @ e)), sites)
      | None \<Rightarrow>
          let D = (case sites of Some D \<Rightarrow> D | None \<Rightarrow> []) in
          if map_of D placeholder \<noteq> None then (outcome fine None, Some D)
          else (case write_with_backup (ii_seed io) placeholder PLACEHOLDER_BODY D of
                  (Inl e, D') \<Rightarrow> (outcome Init_Error (Some (lit ''placeholder write failed: '' @ writer_err_msg sites_text e)), Some D')
                | (Inr _, D') \<Rightarrow> (outcome fine (Some (lit ''seeded '' @ sites_text @ [47] @ placeholder)), Some D')))"

definition init_targets ::
  "ustr \<Rightarrow> init_io \<Rightarrow> config_locs \<Rightarrow> InitTarget \<Rightarrow> bool \<Rightarrow> init_world \<Rightarrow> InitOutcome list \<times> init_world" where
  "init_targets policy_template io locs target force w =
     (let (o1, D1) = (if target \<in> {Init_All, Init_Policy}
             then (case init_file (ii_mkdir io) (ii_policy io) locs (lit ''policy'') (ld_policy locs) policy_template force (iw_dir w) of (x, D) \<Rightarrow> ([x], D))
             else ([], iw_dir w));
          (o2, D2) = (if target \<in> {Init_All, Init_Authorized}
             then (case init_file (ii_mkdir io) (ii_authorized io) locs (lit ''authorized'') (ld_authorized locs) AUTHORIZED_SKELETON force D1 of (x, D) \<Rightarrow> ([x], D))
             else ([], D1));
          (o3, S) = (if target \<in> {Init_All, Init_Sites}
             then (case init_sites_dir io (display_path locs (lit ''sites'')) (iw_sites w) of (x, S) \<Rightarrow> ([x], S))
             else ([], iw_sites w))
      in (o1 @ o2 @ o3, \<lparr>iw_dir = D2, iw_sites = S\<rparr>))"

definition status_name :: "InitStatus \<Rightarrow> ustr" where
  "status_name st =
     (case st of Created \<Rightarrow> lit ''created'' | Overwritten \<Rightarrow> lit ''overwritten'' | Skipped \<Rightarrow> lit ''skipped'' | Init_Error \<Rightarrow> lit ''error'')"

definition init_outcome_json :: "InitOutcome \<Rightarrow> json" where
  "init_outcome_json o1 =
     JObj (bt_of [(lit ''target'', JStr (io_target o1)), (lit ''path'', JStr (io_path o1)), (lit ''status'', JStr (status_name (io_status o1))),
       (lit ''backup_path'', opt_str_json (io_backup_path o1)), (lit ''note'', opt_str_json (io_note o1))])"

text \<open>In a structured format; a text format prints one line for each outcome instead.\<close>

definition run_init ::
  "ustr \<Rightarrow> init_io \<Rightarrow> config_locs \<Rightarrow> ConfigFormat \<Rightarrow> InitTarget \<Rightarrow> bool \<Rightarrow> init_world \<Rightarrow> cmd_result \<times> init_world" where
  "run_init policy_template io locs format target force w =
     (case init_targets policy_template io locs target force w of (outcomes, w') \<Rightarrow>
        let v = JObj [(lit ''outcomes'', JArr (map init_outcome_json outcomes))] in
        if list_ex (\<lambda>o1. io_status o1 = Init_Error) outcomes then ((3, emit_printed format v, None), w')
        else ((0, emit_printed format v, Some (success_envelope (lit ''config.init'') v)), w'))"

subsection \<open>Profiles\<close>

definition profile_char :: "uchar \<Rightarrow> bool" where
  "profile_char c \<longleftrightarrow> is_ascii_alphanumeric c \<or> c = 95 \<or> c = 45"

definition validate_profile_name :: "ustr \<Rightarrow> ustr + unit" where
  "validate_profile_name name =
     (if name = [] then Inl (lit ''profile name is empty'')
      else if blen name > 64 then Inl (lit ''profile name exceeds 64 characters'')
      else case find (\<lambda>c. \<not> profile_char c) name of
          Some c \<Rightarrow> Inl (lit ''profile name must match [A-Za-z0-9_-]; rejected `'' @ [c] @ lit ''`'')
        | None \<Rightarrow> Inr ())"

datatype fs_node = File_Node bytes | Link_Node cpath | Dir_Node "(ustr \<times> fs_node) list"

type_synonym registry = "(ustr \<times> fs_node) list"

record shred_io =
  sh_meta :: "cpath \<Rightarrow> bool"
  sh_open :: "cpath \<Rightarrow> bool"
  sh_limit :: "cpath \<Rightarrow> nat option"
  sh_read_dir :: "cpath \<Rightarrow> ustr option"

text \<open>
  The overwriting of a file of a given length by chunks of zeros: the number of bytes written, when the
  write that would pass the limit fails there.
\<close>

function zero_loop :: "nat option \<Rightarrow> nat \<Rightarrow> nat \<Rightarrow> nat \<Rightarrow> nat" where
  "zero_loop limit zeros_len remaining written =
     (if remaining = 0 \<or> zeros_len = 0 then written
      else
        let n = min remaining zeros_len in
        (case limit of
           Some k \<Rightarrow> if written + n > k then max written k else zero_loop limit zeros_len (remaining - n) (written + n)
         | None \<Rightarrow> zero_loop limit zeros_len (remaining - n) (written + n)))"
  by pat_completeness auto
termination
  by (relation "measure (\<lambda>(limit, zeros_len, remaining, written). remaining)") auto

declare zero_loop.simps [simp del]

definition shred_file :: "shred_io \<Rightarrow> cpath \<Rightarrow> bytes \<Rightarrow> bytes" where
  "shred_file io path content =
     (let len = length content in
      if len > 0 \<and> sh_open io path
      then let n = zero_loop (sh_limit io path) (min len (64 * 1024)) len 0 in replicate n 0 @ drop n content
      else content)"

text \<open>The walk: the error it ends with, if any, the tree it leaves, and the count.\<close>

function (sequential) shred_walk :: "shred_io \<Rightarrow> cpath \<Rightarrow> fs_node \<Rightarrow> nat \<Rightarrow> ustr option \<times> fs_node \<times> nat"
  and shred_entries :: "shred_io \<Rightarrow> cpath \<Rightarrow> (ustr \<times> fs_node) list \<Rightarrow> nat \<Rightarrow> ustr option \<times> (ustr \<times> fs_node) list \<times> nat" where
  "shred_walk io path node count =
     (if \<not> sh_meta io path then (None, node, count)
      else case node of
          Link_Node t \<Rightarrow> (None, node, count)
        | File_Node content \<Rightarrow> (None, File_Node (shred_file io path content), count + 1)
        | Dir_Node es \<Rightarrow>
            (case sh_read_dir io path of
               Some e \<Rightarrow> (Some e, node, count)
             | None \<Rightarrow> (case shred_entries io path es count of (r, es', count') \<Rightarrow> (r, Dir_Node es', count'))))"
| "shred_entries io path [] count = (None, [], count)"
| "shred_entries io path ((n, x) # es) count =
     (case shred_walk io (path @ [n]) x count of
        (Some e, x', count') \<Rightarrow> (Some e, (n, x') # es, count')
      | (None, x', count') \<Rightarrow>
          (case shred_entries io path es count' of (r, es', count'') \<Rightarrow> (r, (n, x') # es', count'')))"
  by pat_completeness auto
termination
  by (relation "measure (\<lambda>p. case p of Inl (io, path, node, count) \<Rightarrow> size node | Inr (io, path, es, count) \<Rightarrow> size_list (size_prod (\<lambda>_. 0) size) es)") auto

definition profile_failure :: "ConfigFormat \<Rightarrow> ustr \<Rightarrow> ustr \<Rightarrow> (ustr \<times> json) list \<Rightarrow> printed" where
  "profile_failure format code message extra =
     emit_printed format (JObj (bt_of ([(lit ''error'', JStr code), (lit ''message'', JStr message)] @ extra)))"

record profile_io =
  pi_env :: loc_env
  pi_display :: "cpath \<Rightarrow> ustr"
  pi_mkdir :: "ustr option"
  pi_init :: init_io
  pi_shred :: shred_io
  pi_remove :: "ustr option"
  pi_left :: "fs_node \<Rightarrow> fs_node"

definition profile_named :: "ustr \<Rightarrow> (ustr \<times> json) list" where
  "profile_named name = [(lit ''profile'', JStr name)]"

definition profile_result :: "ustr \<Rightarrow> ustr \<Rightarrow> json" where
  "profile_result op name = success_envelope op (JObj [(lit ''profile'', JStr name)])"

definition file_bytes :: "ustr \<Rightarrow> bytes" where
  "file_bytes s = map of_nat (as_bytes s)"

definition dir_node :: "cfg_dir \<Rightarrow> (ustr \<times> fs_node) list" where
  "dir_node D = map (\<lambda>(n, f). (n, File_Node (file_bytes (cf_content f)))) D"

text \<open>What a new profile holds after the three targets were initialised in an empty directory.\<close>

definition created_node :: "init_world \<Rightarrow> fs_node" where
  "created_node w =
     Dir_Node (dir_node (iw_dir w) @ (case iw_sites w of None \<Rightarrow> [] | Some S \<Rightarrow> [(lit ''sites'', Dir_Node (dir_node S))]))"

definition run_profile_create ::
  "ustr \<Rightarrow> profile_io \<Rightarrow> ConfigFormat \<Rightarrow> ustr \<Rightarrow> registry \<Rightarrow> cmd_result \<times> registry" where
  "run_profile_create policy_template io format name reg =
     (let dir = profile_dir (pi_env io) name; dir_text = pi_display io dir;
          locs = \<lparr>ld_parent = dir_text, ld_policy = lit ''policy.toml'', ld_authorized = lit ''authorized.toml''\<rparr> in
      case validate_profile_name name of
        Inl msg \<Rightarrow> ((2, profile_failure format (lit ''invalid_profile_name'') msg [], None), reg)
      | Inr _ \<Rightarrow>
          if map_of reg name \<noteq> None
          then ((2, profile_failure format (lit ''profile_exists'') (lit ''profile already exists: '' @ dir_text) (profile_named name), None), reg)
          else case pi_mkdir io of
              Some e \<Rightarrow> ((1, profile_failure format (lit ''profile_mkdir_failed'') e (profile_named name), None), reg)
            | None \<Rightarrow>
                (case init_targets policy_template (pi_init io) locs Init_All False \<lparr>iw_dir = [], iw_sites = None\<rparr> of (outcomes, w) \<Rightarrow>
                   let v = JObj (bt_of [(lit ''profile'', JStr name), (lit ''path'', JStr dir_text),
                             (lit ''outcomes'', JArr (map init_outcome_json outcomes))]);
                       bad = list_ex (\<lambda>o1. io_status o1 = Init_Error) outcomes
                   in ((if bad then 3 else 0, emit_printed format v,
                        if bad then None else Some (profile_result (lit ''config.profile.create'') name)),
                       (name, created_node w) # reg)))"

definition is_dir_node :: "fs_node \<Rightarrow> bool" where
  "is_dir_node n \<longleftrightarrow> (case n of Dir_Node _ \<Rightarrow> True | _ \<Rightarrow> False)"

definition run_profile_switch :: "profile_io \<Rightarrow> ConfigFormat \<Rightarrow> ustr \<Rightarrow> registry \<Rightarrow> cmd_result" where
  "run_profile_switch io format name reg =
     (let home = pi_display io (profile_dir (pi_env io) name);
          export_line = lit ''export REV_SCRAPING_HOME='' @ home in
      case validate_profile_name name of
        Inl msg \<Rightarrow> (2, profile_failure format (lit ''invalid_profile_name'') msg [], None)
      | Inr _ \<Rightarrow>
          if \<not> (case map_of reg name of Some n \<Rightarrow> is_dir_node n | None \<Rightarrow> False)
          then (2, profile_failure format (lit ''profile_not_found'') (lit ''profile does not exist: '' @ home) (profile_named name), None)
          else (0, if format = Format_Text then Text_Line export_line
                   else emit_printed format (JObj (bt_of [(lit ''profile'', JStr name), (lit ''home'', JStr home), (lit ''export_line'', JStr export_line)])),
                Some (profile_result (lit ''config.profile.switch'') name)))"

text \<open>
  Removal may fail and then leaves what \<open>pi_left\<close> says. The parent of the policy file is compared with the
  directory component by component.
\<close>

definition run_profile_delete ::
  "profile_io \<Rightarrow> ConfigLocations \<Rightarrow> ConfigFormat \<Rightarrow> ustr \<Rightarrow> bool \<Rightarrow> registry \<Rightarrow> cmd_result \<times> registry" where
  "run_profile_delete io locs format name yes reg =
     (let dir = profile_dir (pi_env io) name; dir_text = pi_display io dir in
      case validate_profile_name name of
        Inl msg \<Rightarrow> ((2, profile_failure format (lit ''invalid_profile_name'') msg [], None), reg)
      | Inr _ \<Rightarrow>
          if \<not> yes
          then ((2, profile_failure format (lit ''delete_requires_yes'') (lit ''pass --yes to confirm profile deletion (non-recoverable)'')
                 (profile_named name), None), reg)
          else case map_of reg name of
              None \<Rightarrow> ((2, profile_failure format (lit ''profile_not_found'') (lit ''profile does not exist: '' @ dir_text) (profile_named name), None), reg)
            | Some node \<Rightarrow>
                if cl_policy locs \<noteq> [] \<and> butlast (cl_policy locs) = dir
                then ((2, profile_failure format (lit ''profile_active'') (lit ''refusing to delete the currently active profile; switch first'')
                       (profile_named name), None), reg)
                else case shred_walk (pi_shred io) dir node 0 of
                    (Some e, node', _) \<Rightarrow>
                      ((1, profile_failure format (lit ''shred_walk_failed'') e (profile_named name), None), map (\<lambda>(n, x). (n, if n = name then node' else x)) reg)
                  | (None, node', shredded) \<Rightarrow>
                      (case pi_remove io of
                         Some e \<Rightarrow>
                           ((1, profile_failure format (lit ''profile_remove_failed'') e (profile_named name), None),
                            map (\<lambda>(n, x). (n, if n = name then pi_left io node' else x)) reg)
                       | None \<Rightarrow>
                           ((0, if format = Format_Text
                                then Text_Line (lit ''DELETE   profile='' @ name @ lit ''  shredded='' @ digits_of shredded @ lit ''  '' @ dir_text)
                                else emit_printed format (JObj (bt_of [(lit ''profile'', JStr name), (lit ''path'', JStr dir_text),
                                  (lit ''files_shredded'', nat_json shredded)])),
                             Some (profile_result (lit ''config.profile.delete'') name)),
                            filter (\<lambda>e. fst e \<noteq> name) reg)))"

text \<open>The commands with their plans and replay keys.\<close>

definition init_target_debug :: "InitTarget \<Rightarrow> json" where
  "init_target_debug t =
     JStr (case t of Init_All \<Rightarrow> lit ''All'' | Init_Policy \<Rightarrow> lit ''Policy'' | Init_Authorized \<Rightarrow> lit ''Authorized'' | Init_Sites \<Rightarrow> lit ''Sites'')"

definition config_init ::
  "guard_env \<Rightarrow> dry_run_args \<Rightarrow> ustr \<Rightarrow> init_io \<Rightarrow> config_locs \<Rightarrow> ConfigFormat \<Rightarrow> InitTarget \<Rightarrow> bool \<Rightarrow>
   init_world \<times> idem_fs \<Rightarrow> (int \<times> printed) \<times> init_world \<times> idem_fs" where
  "config_init G da policy_template io locs format target force =
     with_guard G da (lit ''config.init'')
       [lit ''resolve REV_SCRAPING_HOME base directory'', lit ''compute init target set (policy / authorized / sites)'',
        lit ''(skipped) ConfigWriter::write each target with 0600 / 0700'', lit ''(skipped) backup existing targets via .bak.<epoch>'']
       [(lit ''target'', init_target_debug target), (lit ''force'', JBool force)]
       (run_init policy_template io locs format target force)"

datatype ProfileAction = Profile_Create ustr | Profile_Switch ustr | Profile_Delete ustr bool

definition run_profile ::
  "guard_env \<Rightarrow> dry_run_args \<Rightarrow> ustr \<Rightarrow> profile_io \<Rightarrow> ConfigLocations \<Rightarrow> ConfigFormat \<Rightarrow> ProfileAction \<Rightarrow>
   registry \<times> idem_fs \<Rightarrow> (int \<times> printed) \<times> registry \<times> idem_fs" where
  "run_profile G da policy_template io locs format action =
     (case action of
        Profile_Create name \<Rightarrow>
          with_guard G da (lit ''config.profile.create'')
            [lit ''validate profile name (path-traversal rejection)'', lit ''resolve profiles root'',
             lit ''(skipped) mkdir profile dir + sites/'', lit ''(skipped) ConfigWriter::write policy.toml + authorized.toml'']
            [(lit ''name'', JStr name)] (run_profile_create policy_template io format name)
      | Profile_Switch name \<Rightarrow>
          with_guard G da (lit ''config.profile.switch'')
            [lit ''validate profile name (path-traversal rejection)'', lit ''verify profile directory exists'',
             lit ''emit shell-export line (no env mutation in-process)'']
            [(lit ''name'', JStr name)] (\<lambda>reg. (run_profile_switch io format name reg, reg))
      | Profile_Delete name yes \<Rightarrow>
          with_guard G da (lit ''config.profile.delete'')
            [lit ''validate profile name (path-traversal rejection)'', lit ''verify profile is not currently active per REV_SCRAPING_HOME'',
             lit ''verify --yes was passed (no-op otherwise)'', lit ''(skipped) shred-like overwrite-then-unlink of profile dir'']
            [(lit ''name'', JStr name), (lit ''yes'', JBool yes)] (run_profile_delete io locs format name yes))"

record ProfileEntry =
  pe_name :: ustr
  pe_has_policy :: bool
  pe_has_authorized :: bool

definition has_file :: "(ustr \<times> fs_node) list \<Rightarrow> ustr \<Rightarrow> bool" where
  "has_file es n \<longleftrightarrow> (case map_of es n of Some (File_Node _) \<Rightarrow> True | _ \<Rightarrow> False)"

text \<open>The entries whose metadata can be read; links are resolved by the caller of this model.\<close>

definition run_profile_list :: "(ustr \<Rightarrow> bool) \<Rightarrow> registry \<Rightarrow> ProfileEntry list" where
  "run_profile_list readable reg =
     sort_key pe_name
       (concat (map (\<lambda>(n, x). case x of
            Dir_Node es \<Rightarrow>
              if readable n \<and> validate_profile_name n = Inr ()
              then [\<lparr>pe_name = n, pe_has_policy = has_file es (lit ''policy.toml''), pe_has_authorized = has_file es (lit ''authorized.toml'')\<rparr>]
              else []
          | _ \<Rightarrow> []) reg))"

section \<open>Lemmas\<close>

lemma profile_char_ascii: "profile_char c \<Longrightarrow> c < 128"
  by (auto simp: profile_char_def is_ascii_alphanumeric_def)

lemma profile_chars_blen: "list_all profile_char name \<Longrightarrow> blen name = length name"
  by (induction name) (auto dest: profile_char_ascii simp: len_utf8_def)

lemma valid_profile_name_iff:
  "validate_profile_name name = Inr () \<longleftrightarrow> name \<noteq> [] \<and> length name \<le> 64 \<and> list_all profile_char name"
proof -
  have "find (\<lambda>c. \<not> profile_char c) name = None \<longleftrightarrow> list_all profile_char name"
    by (auto simp: find_None_iff list_all_iff)
  then show ?thesis using profile_chars_blen [of name] by (auto simp: validate_profile_name_def split: option.splits)
qed

lemma zero_loop_all: "zeros_len > 0 \<Longrightarrow> zero_loop None zeros_len remaining written = written + remaining"
proof (induction "None :: nat option" zeros_len remaining written rule: zero_loop.induct)
  case (1 zeros_len remaining written)
  then show ?case by (subst zero_loop.simps) (auto simp: Let_def)
qed

fun node_files :: "fs_node \<Rightarrow> nat" where
  "node_files (File_Node _) = 1"
| "node_files (Link_Node _) = 0"
| "node_files (Dir_Node es) = sum_list (map (\<lambda>(n, x). node_files x) es)"

text \<open>The tree with every byte of every file zero.\<close>

fun zeroed :: "fs_node \<Rightarrow> fs_node" where
  "zeroed (File_Node c) = File_Node (replicate (length c) 0)"
| "zeroed (Link_Node t) = Link_Node t"
| "zeroed (Dir_Node es) = Dir_Node (map (\<lambda>(n, x). (n, zeroed x)) es)"

definition shred_io_ok :: "shred_io \<Rightarrow> bool" where
  "shred_io_ok io \<longleftrightarrow> (\<forall>p. sh_meta io p \<and> sh_open io p \<and> sh_limit io p = None \<and> sh_read_dir io p = None)"

lemma shred_file_all: "shred_io_ok io \<Longrightarrow> shred_file io path content = replicate (length content) 0"
  by (cases "content = []") (auto simp: shred_file_def shred_io_ok_def zero_loop_all)

lemma shred_walk_all:
  assumes "shred_io_ok io"
  shows "shred_walk io path node count = (None, zeroed node, count + node_files node)"
    and "shred_entries io path es count =
      (None, map (\<lambda>(n, x). (n, zeroed x)) es, count + sum_list (map (\<lambda>(n, x). node_files x) es))"
  using assms
proof (induction io path node count and io path es count rule: shred_walk_shred_entries.induct)
  case (1 io path node count)
  then show ?case by (cases node) (auto simp: shred_io_ok_def [of io] shred_file_all)
qed auto

text \<open>The count does not depend on whether the files could be opened or overwritten.\<close>

lemma shred_count:
  assumes "\<forall>p. sh_meta io p \<and> sh_read_dir io p = None"
  shows "\<exists>node'. shred_walk io path node count = (None, node', count + node_files node)"
    and "\<exists>es'. shred_entries io path es count = (None, es', count + sum_list (map (\<lambda>(n, x). node_files x) es))"
  using assms
proof (induction io path node count and io path es count rule: shred_walk_shred_entries.induct)
  case (1 io path node count)
  then show ?case by (cases node) fastforce+
next
  case (3 io path n x es count)
  then obtain x' es' where "shred_walk io (path @ [n]) x count = (None, x', count + node_files x)"
    "shred_entries io path es (count + node_files x) = (None, es', count + node_files x + sum_list (map (\<lambda>(n, x). node_files x) es))"
    by metis
  then show ?case by (simp add: add.assoc)
qed auto

lemma map_of_replace: "map_of (map (\<lambda>(n, x). (n, if n = name then y else x)) reg) k =
    (if k = name then map_option (\<lambda>_. y) (map_of reg k) else map_of reg k)"
  by (induction reg) auto

lemma map_of_without: "map_of (filter (\<lambda>e. fst e \<noteq> name) reg) k = (if k = name then None else map_of reg k)"
  by (induction reg) auto

lemma profile_name_component:
  "validate_profile_name name = Inr () \<Longrightarrow> 47 \<notin> set name \<and> 92 \<notin> set name \<and> name \<noteq> lit ''.'' \<and> name \<noteq> lit ''..''"
  by (auto simp: valid_profile_name_iff list_all_iff profile_char_def is_ascii_alphanumeric_def lit_def)

section \<open>Properties\<close>

text \<open>
  Deleting a profile is confined: the name is a single path component, whatever happens the other profiles
  are untouched, an exit code 2 changes nothing, and 0 means that the deletion was confirmed, the profile
  existed, was not where the policy file lies, and is gone.
\<close>

lemma profile_delete_confined:
  assumes "run_profile_delete io locs format name yes reg = ((c, out, rec), reg')"
  shows "(\<forall>n. n \<noteq> name \<longrightarrow> map_of reg' n = map_of reg n) \<and> (c = 2 \<longrightarrow> reg' = reg) \<and>
    (c \<noteq> 2 \<longrightarrow> 47 \<notin> set name \<and> 92 \<notin> set name \<and> name \<noteq> lit ''.'' \<and> name \<noteq> lit ''..'' \<and> yes \<and> map_of reg name \<noteq> None \<and>
      (cl_policy locs = [] \<or> butlast (cl_policy locs) \<noteq> profile_dir (pi_env io) name)) \<and>
    (c = 0 \<longleftrightarrow> rec \<noteq> None) \<and> (c = 0 \<longrightarrow> map_of reg' name = None)"
proof (cases "validate_profile_name name")
  case (Inl e)
  then show ?thesis using assms by (auto simp: run_profile_delete_def Let_def)
next
  case (Inr u)
  then have "validate_profile_name name = Inr ()" by simp
  then show ?thesis
    using assms Inr profile_name_component
    by (auto simp: run_profile_delete_def Let_def map_of_replace map_of_without split: if_splits option.splits prod.splits)
qed

definition demo_profile_io :: profile_io where
  "demo_profile_io =
     \<lparr>pi_env = \<lparr>le_rev_home = None, le_user_home = None, le_policy = None, le_authorized = None, le_profiles_root = Some [lit ''r'']\<rparr>,
      pi_display = concat, pi_mkdir = None,
      pi_init = \<lparr>ii_mkdir = None, ii_sites_mkdir = None, ii_policy = demo_writer, ii_authorized = demo_writer, ii_seed = demo_writer\<rparr>,
      pi_shred = \<lparr>sh_meta = (\<lambda>_. True), sh_open = (\<lambda>_. True), sh_limit = (\<lambda>_. None), sh_read_dir = (\<lambda>_. None)\<rparr>,
      pi_remove = None, pi_left = (\<lambda>x. x)\<rparr>"

definition demo_registry :: registry where
  "demo_registry = [(lit ''a'', Dir_Node [(lit ''policy.toml'', File_Node [])]), (lit ''b'', Dir_Node [])]"

text \<open>
  The guard against deleting the active profile looks at the policy file only: with the profile active and
  no other override the command refuses, but when the environment also names a policy file elsewhere the
  active profile is deleted, with the authorization file that is in force.
\<close>

lemma active_guard_incomplete:
  assumes "validate_profile_name name = Inr ()" "map_of reg name = Some node"
    and "le_rev_home (pi_env io) = Some (profile_dir (pi_env io) name)"
    and "le_authorized (pi_env io) = None" "shred_io_ok (pi_shred io)" "pi_remove io = None"
  shows "let locs = resolve_locations (pi_env io); r = run_profile_delete io locs format name True reg in
    (case le_policy (pi_env io) of
       None \<Rightarrow> fst (fst r) = 2 \<and> snd r = reg
     | Some p \<Rightarrow> p \<noteq> [] \<and> butlast p = profile_dir (pi_env io) name \<or>
         fst (fst r) = 0 \<and> map_of (snd r) name = None \<and> cl_authorized locs = profile_dir (pi_env io) name @ [lit ''authorized.toml''])"
proof (cases "le_policy (pi_env io)")
  case None
  then show ?thesis using assms by (simp add: Let_def run_profile_delete_def resolve_locations_def)
next
  case (Some p)
  then show ?thesis using assms shred_walk_all(1) [OF assms(5)]
    by (simp add: Let_def run_profile_delete_def resolve_locations_def map_of_without)
qed

text \<open>
  What the delete command reports as shredded is the number of regular files, whether they were overwritten or not; when
  nothing fails the files have been overwritten with zeros before the directory is removed.
\<close>

lemma shredded_count_blind:
  "\<forall>p. sh_meta io p \<and> \<not> sh_open io p \<and> sh_read_dir io p = None \<Longrightarrow>
   shred_walk io path (Dir_Node [(n, File_Node c)]) 0 = (None, Dir_Node [(n, File_Node c)], 1)"
  by (simp add: shred_file_def)

end
