(* ===== verification/Lease_Registry.thy ===== *)
theory Lease_Registry
  imports Json_Value Rust_Str
begin

text \<open>
  The lease registry of the agent harness (\<^verbatim>\<open>harness-rust/crates/agent-core/src/cmd/lease.rs\<close>): opening, refreshing,
  closing, blocking and reaping leases, and the gate that allows completion once every lease is closed.

  A path is a list of components; texts are split as \<^verbatim>\<open>std::path\<close> does. What the file system says of
  artifacts and directories (kind of a path, with or without a trailing slash, and its canonical form) is a
  parameter, as are the texts of JSON values and time stamps, which are nanoseconds. Registry files are a
  map from paths to contents; a directory on the way to a registry file is not a link.
\<close>

section \<open>Definitions\<close>

datatype AgentError =
    Agent_Io ustr
  | Agent_Json ustr
  | Agent_Lock ustr
  | Agent_State ustr
  | Agent_Validation ustr
  | Agent_Git ustr
  | Agent_Timeout ustr
  | Agent_Command ustr
  | Agent_NotFound ustr
  | Agent_Config ustr
  | Agent_Database ustr

type_synonym lpath = "ustr list"

datatype node_kind = Is_File | Is_Dir | Is_Link

record lease_fs =
  lf_cwd :: lpath
  lf_stat :: "lpath \<Rightarrow> bool \<Rightarrow> node_kind option"
  lf_canon :: "lpath \<Rightarrow> lpath option"

record lease_lib =
  ll_parse_time :: "ustr \<Rightarrow> int option"
  ll_fmt_time :: "int \<Rightarrow> ustr"
  ll_from_str :: "ustr \<Rightarrow> ustr + json"
  ll_to_string_pretty :: "json \<Rightarrow> ustr + ustr"

record lease_io =
  li_utc_now :: int
  li_read :: "ustr option"
  li_write :: "ustr option"
  li_sync_parent :: "ustr option"

type_synonym lease_files = "lpath \<Rightarrow> ustr option"

definition REGISTRY_SCHEMA_VERSION :: ustr where
  "REGISTRY_SCHEMA_VERSION = lit ''rev-harness-agent-lease-registry/v1''"

subsection \<open>Paths\<close>

definition path_comps :: "ustr \<Rightarrow> lpath" where
  "path_comps s = filter (\<lambda>c. c \<noteq> [] \<and> c \<noteq> lit ''.'') (split_char 47 s)"

definition is_absolute :: "ustr \<Rightarrow> bool" where
  "is_absolute s = starts_with s (lit ''/'')"

definition under_root :: "lpath \<Rightarrow> ustr \<Rightarrow> lpath" where
  "under_root repo s = (if is_absolute s then path_comps s else repo @ path_comps s)"

definition parent_of :: "lpath \<Rightarrow> lpath option" where
  "parent_of p = (if p = [] then None else Some (butlast p))"

definition file_name_of :: "lpath \<Rightarrow> ustr option" where
  "file_name_of p = (if p = [] \<or> last p = lit ''..'' then None else Some (last p))"

definition is_under_or_equal :: "lpath \<Rightarrow> lpath \<Rightarrow> bool" where
  "is_under_or_equal p base \<longleftrightarrow> p = base \<or> prefix base p"

definition has_unsafe_dot_component :: "ustr \<Rightarrow> bool" where
  "has_unsafe_dot_component p \<longleftrightarrow>
     p = lit ''.'' \<or> p = lit ''..'' \<or> starts_with p (lit ''./'') \<or> starts_with p (lit ''../'') \<or>
     ends_with p (lit ''/.'') \<or> ends_with p (lit ''/..'') \<or> sublist (lit ''/./'') p \<or> sublist (lit ''/../'') p"

definition canonical_repo_root :: "lease_fs \<Rightarrow> ustr option \<Rightarrow> AgentError + lpath" where
  "canonical_repo_root fs input =
     (let raw = (case input of Some p \<Rightarrow> under_root (lf_cwd fs) p | None \<Rightarrow> lf_cwd fs);
          failure = Agent_Validation (lit ''--repo-root must be an existing directory: '' @ (case input of Some p \<Rightarrow> p | None \<Rightarrow> lit ''/'' @ intersperse_concat (lit ''/'') (lf_cwd fs))) in
      case lf_canon fs raw of
        None \<Rightarrow> Inl failure
      | Some c \<Rightarrow> if lf_stat fs c False = Some Is_Dir then Inr c else Inl failure)"

definition canonical_child :: "lease_fs \<Rightarrow> lpath \<Rightarrow> lpath option" where
  "canonical_child fs pth =
     Option.bind (parent_of pth) (\<lambda>parent.
     Option.bind (file_name_of pth) (\<lambda>base.
     if base = [] then None else map_option (\<lambda>p. p @ [base]) (lf_canon fs parent)))"

definition artifact_abs_path :: "lease_fs \<Rightarrow> lpath \<Rightarrow> ustr \<Rightarrow> lpath option" where
  "artifact_abs_path fs repo artifact =
     (if artifact = [] \<or> has_unsafe_dot_component artifact then None
      else
        let pth = under_root repo artifact in
        (case lf_stat fs pth (ends_with artifact (lit ''/'')) of
           None \<Rightarrow> None
         | Some Is_Link \<Rightarrow> None
         | Some Is_Dir \<Rightarrow> lf_canon fs pth
         | Some Is_File \<Rightarrow> canonical_child fs pth))"

definition expected_artifact_abs_path :: "lease_fs \<Rightarrow> lpath \<Rightarrow> ustr \<Rightarrow> lpath option" where
  "expected_artifact_abs_path fs repo artifact =
     (if artifact = [] \<or> has_unsafe_dot_component artifact then None
      else
        let pth = under_root repo artifact in
        if parent_of pth = None \<or> file_name_of pth = None \<or> lf_stat fs pth (ends_with artifact (lit ''/'')) = Some Is_Link then None
        else canonical_child fs pth)"

fun check_artifacts :: "(ustr \<Rightarrow> lpath option) \<Rightarrow> lpath \<Rightarrow> ustr \<Rightarrow> ustr list \<Rightarrow> AgentError + unit" where
  "check_artifacts resolve repo missing [] = Inr ()"
| "check_artifacts resolve repo missing (a # as) =
     (case resolve a of
        None \<Rightarrow> Inl (Agent_Validation (missing @ a))
      | Some pth \<Rightarrow>
          if is_under_or_equal pth repo then check_artifacts resolve repo missing as
          else Inl (Agent_Validation (lit ''artifact escapes repo root: '' @ a)))"

definition validate_expected_artifacts :: "lease_fs \<Rightarrow> lpath \<Rightarrow> ustr list \<Rightarrow> AgentError + unit" where
  "validate_expected_artifacts fs repo artifacts =
     (if artifacts = [] then Inl (Agent_Validation (lit ''at least one --artifact is required''))
      else check_artifacts (expected_artifact_abs_path fs repo) repo (lit ''artifact path is missing or unsafe: '') artifacts)"

definition validate_existing_artifacts :: "lease_fs \<Rightarrow> lpath \<Rightarrow> ustr list \<Rightarrow> AgentError + unit" where
  "validate_existing_artifacts fs repo artifacts =
     (if artifacts = [] then Inl (Agent_Validation (lit ''at least one --artifact is required''))
      else check_artifacts (artifact_abs_path fs repo) repo (lit ''artifact is missing or unsafe: '') artifacts)"

definition ensure_registry_file_path :: "lease_fs \<Rightarrow> lpath \<Rightarrow> ustr \<Rightarrow> AgentError + unit" where
  "ensure_registry_file_path fs repo file =
     (let path = under_root repo file in
      case parent_of path of
        None \<Rightarrow> Inl (Agent_Validation (lit ''registry file must have a parent: '' @ file))
      | Some parent \<Rightarrow>
          (case lf_canon fs parent of
             None \<Rightarrow> Inl (Agent_Validation (lit ''registry parent must be an existing directory: /'' @ intersperse_concat (lit ''/'') parent))
           | Some parent_real \<Rightarrow>
               if \<not> is_under_or_equal parent_real repo
               then Inl (Agent_Validation (lit ''registry file must be under repo root: '' @ file))
               else if lf_stat fs path (ends_with file (lit ''/'')) = Some Is_Link
               then Inl (Agent_Validation (lit ''registry file must not be a symlink: '' @ file))
               else Inr ()))"

subsection \<open>Leases\<close>

definition lease_get :: "json \<Rightarrow> ustr \<Rightarrow> json option" where
  "lease_get v k = (case v of JObj fs \<Rightarrow> map_of fs k | _ \<Rightarrow> None)"

definition lease_put :: "ustr \<Rightarrow> json \<Rightarrow> json \<Rightarrow> json" where
  "lease_put k x v = (case v of JObj fs \<Rightarrow> JObj (bt_insert k x fs) | _ \<Rightarrow> v)"

definition is_object :: "json \<Rightarrow> bool" where
  "is_object v \<longleftrightarrow> (case v of JObj _ \<Rightarrow> True | _ \<Rightarrow> False)"

definition non_empty_str :: "json option \<Rightarrow> ustr option" where
  "non_empty_str v = (case v of Some (JStr s) \<Rightarrow> if s = [] then None else Some s | _ \<Rightarrow> None)"

definition shape_violation :: ustr where
  "shape_violation = lit ''manifest must use schema_version rev-harness-agent-lease-registry/v1 and leases array''"

text \<open>The leases of a manifest of the right shape.\<close>

definition validate_manifest_shape :: "json \<Rightarrow> json list option" where
  "validate_manifest_shape manifest =
     (if lease_get manifest (lit ''schema_version'') = Some (JStr REGISTRY_SCHEMA_VERSION)
      then (case lease_get manifest (lit ''leases'') of
              Some (JArr ls) \<Rightarrow> if list_all is_object ls then Some ls else None
            | _ \<Rightarrow> None)
      else None)"

definition lease_label :: "json \<Rightarrow> ustr" where
  "lease_label lease = (case non_empty_str (lease_get lease (lit ''lease_id'')) of None \<Rightarrow> lit ''<missing>'' | Some i \<Rightarrow> i)"

definition lease_at :: "nat \<Rightarrow> ustr" where
  "lease_at idx = lit ''lease['' @ digits_of idx @ lit ''] ''"

definition provider_violations :: "nat \<Rightarrow> json \<Rightarrow> ustr list" where
  "provider_violations idx lease =
     (case non_empty_str (lease_get lease (lit ''provider'')) of
        Some p \<Rightarrow> if p = lit ''codex'' \<or> p = lit ''claude'' then [] else [lease_at idx @ lit ''has unsupported provider: '' @ p]
      | None \<Rightarrow> [lease_at idx @ lease_label lease @ lit '' provider must be a non-empty string''])"

definition closed_state :: "ustr \<Rightarrow> bool" where
  "closed_state s \<longleftrightarrow> s \<in> set [lit ''completed'', lit ''blocked'', lit ''reaped'']"

definition live_state :: "ustr \<Rightarrow> bool" where
  "live_state s \<longleftrightarrow> s \<in> set [lit ''running'', lit ''stale'', lit ''failed'']"

definition artifact_violation :: "(ustr \<Rightarrow> lpath option) \<Rightarrow> lpath \<Rightarrow> nat \<Rightarrow> json \<Rightarrow> json \<Rightarrow> ustr list" where
  "artifact_violation resolve repo idx lease v =
     (case v of
        JStr a \<Rightarrow>
          (case resolve a of
             None \<Rightarrow> [lease_at idx @ lease_label lease @ lit '' artifact is missing or unsafe: '' @ (if a = [] then lit ''<empty>'' else a)]
           | Some pth \<Rightarrow>
               if is_under_or_equal pth repo then []
               else [lease_at idx @ lease_label lease @ lit '' artifact escapes repo root: '' @ a])
      | _ \<Rightarrow> [])"

definition artifact_violations :: "(ustr \<Rightarrow> lpath option) \<Rightarrow> lpath \<Rightarrow> nat \<Rightarrow> json \<Rightarrow> ustr list" where
  "artifact_violations resolve repo idx lease =
     (let none = [lease_at idx @ lease_label lease @ lit '' must include at least one artifact path''] in
      case lease_get lease (lit ''artifact_paths'') of
        Some (JArr as) \<Rightarrow>
          if as = [] then none
          else if \<not> list_all (\<lambda>a. non_empty_str (Some a) \<noteq> None) as
          then [lease_at idx @ lease_label lease @ lit '' artifact paths must be non-empty strings'']
          else concat (map (artifact_violation resolve repo idx lease) as)
      | _ \<Rightarrow> none)"

definition validate_lease :: "lease_fs \<Rightarrow> lpath \<Rightarrow> nat \<Rightarrow> json \<Rightarrow> ustr list" where
  "validate_lease fs repo idx lease =
     (case non_empty_str (lease_get lease (lit ''lease_id'')) of None \<Rightarrow> [lease_at idx @ lit ''missing lease_id''] | Some _ \<Rightarrow> []) @
     provider_violations idx lease @
     (case non_empty_str (lease_get lease (lit ''state'')) of
        Some s \<Rightarrow>
          if closed_state s then []
          else if live_state s then [lease_at idx @ lease_label lease @ lit '' is not closed: '' @ s]
          else [lease_at idx @ lease_label lease @ lit '' has unknown state: '' @ s]
      | None \<Rightarrow> [lease_at idx @ lease_label lease @ lit '' state must be a non-empty string'']) @
     artifact_violations (artifact_abs_path fs repo) repo idx lease"

fun validate_leases :: "lease_fs \<Rightarrow> lpath \<Rightarrow> nat \<Rightarrow> json list \<Rightarrow> ustr list" where
  "validate_leases fs repo idx [] = []"
| "validate_leases fs repo idx (l # ls) = validate_lease fs repo idx l @ validate_leases fs repo (Suc idx) ls"

definition validate_registry :: "lease_lib \<Rightarrow> lease_fs \<Rightarrow> lease_io \<Rightarrow> lpath \<Rightarrow> ustr \<Rightarrow> lease_files \<Rightarrow> ustr list" where
  "validate_registry L fs io repo file F =
     (case (if li_read io = None then F (under_root (lf_cwd fs) file) else None) of
        None \<Rightarrow> [lit ''file must be readable: '' @ file]
      | Some raw \<Rightarrow>
          (case ll_from_str L raw of
             Inl _ \<Rightarrow> [lit ''manifest is not valid JSON'']
           | Inr manifest \<Rightarrow>
               (case validate_manifest_shape manifest of
                  None \<Rightarrow> [shape_violation]
                | Some ls \<Rightarrow>
                    if ls = [] then [lit ''leases array must not be empty for a completion gate'']
                    else validate_leases fs repo 0 ls)))"

text \<open>One existing lease before a mutation, with the identifiers seen before it.\<close>

definition existing_lease_violations :: "lease_fs \<Rightarrow> lpath \<Rightarrow> ustr set \<Rightarrow> nat \<Rightarrow> json \<Rightarrow> ustr list" where
  "existing_lease_violations fs repo seen idx lease =
     (case non_empty_str (lease_get lease (lit ''lease_id'')) of
        None \<Rightarrow> [lease_at idx @ lit ''missing lease_id'']
      | Some i \<Rightarrow> if i \<in> seen then [lease_at idx @ lit ''duplicate lease_id: '' @ i] else []) @
     provider_violations idx lease @
     (case non_empty_str (lease_get lease (lit ''state'')) of
        Some s \<Rightarrow> if closed_state s \<or> live_state s then [] else [lease_at idx @ lease_label lease @ lit '' has unknown state: '' @ s]
      | None \<Rightarrow> [lease_at idx @ lease_label lease @ lit '' state must be a non-empty string'']) @
     artifact_violations
       (if (case non_empty_str (lease_get lease (lit ''state'')) of Some s \<Rightarrow> closed_state s | None \<Rightarrow> False)
        then artifact_abs_path fs repo else expected_artifact_abs_path fs repo) repo idx lease"

fun validate_existing_leases_for_mutation :: "lease_fs \<Rightarrow> lpath \<Rightarrow> ustr set \<Rightarrow> nat \<Rightarrow> json list \<Rightarrow> ustr list" where
  "validate_existing_leases_for_mutation fs repo seen idx [] = []"
| "validate_existing_leases_for_mutation fs repo seen idx (l # ls) =
     (if \<not> is_object l
      then (lease_at idx @ lit ''must be an object'') # validate_existing_leases_for_mutation fs repo seen (Suc idx) ls
      else existing_lease_violations fs repo seen idx l @
           validate_existing_leases_for_mutation fs repo
             (case non_empty_str (lease_get l (lit ''lease_id'')) of None \<Rightarrow> seen | Some i \<Rightarrow> insert i seen) (Suc idx) ls)"

definition empty_manifest :: json where
  "empty_manifest = JObj (bt_of [(lit ''schema_version'', JStr REGISTRY_SCHEMA_VERSION), (lit ''leases'', JArr [])])"

definition load_registry_for_mutation ::
  "lease_lib \<Rightarrow> lease_fs \<Rightarrow> lease_io \<Rightarrow> lpath \<Rightarrow> ustr \<Rightarrow> bool \<Rightarrow> lease_files \<Rightarrow> AgentError + json" where
  "load_registry_for_mutation L fs io repo file create F =
     and_then (ensure_registry_file_path fs repo file) (\<lambda>_.
     case F (under_root (lf_cwd fs) file) of
       None \<Rightarrow> if create then Inr empty_manifest else Inl (Agent_Validation (lit ''lease registry file must exist: '' @ file))
     | Some raw \<Rightarrow>
         (case li_read io of
            Some e \<Rightarrow> Inl (Agent_Io e)
          | None \<Rightarrow>
              (case ll_from_str L raw of
                 Inl e \<Rightarrow> Inl (Agent_Json e)
               | Inr manifest \<Rightarrow>
                   let violations = (case validate_manifest_shape manifest of
                         None \<Rightarrow> [shape_violation]
                       | Some ls \<Rightarrow> validate_existing_leases_for_mutation fs repo {} 0 ls) in
                   if violations = [] then Inr manifest
                   else Inl (Agent_Validation (intersperse_concat (lit ''; '') violations)))))"

definition leases_of :: "json \<Rightarrow> json list option" where
  "leases_of manifest = (case lease_get manifest (lit ''leases'') of Some (JArr ls) \<Rightarrow> Some ls | _ \<Rightarrow> None)"

definition with_leases :: "json \<Rightarrow> json list \<Rightarrow> json" where
  "with_leases manifest ls = lease_put (lit ''leases'') (JArr ls) manifest"

fun find_lease_index :: "json list \<Rightarrow> ustr \<Rightarrow> nat option" where
  "find_lease_index [] i = None"
| "find_lease_index (l # ls) i =
     (if non_empty_str (lease_get l (lit ''lease_id'')) = Some i then Some 0 else map_option Suc (find_lease_index ls i))"

definition ensure_non_empty :: "ustr \<Rightarrow> ustr \<Rightarrow> AgentError + unit" where
  "ensure_non_empty name value = (if value = [] then Inl (Agent_Validation (name @ lit '' must be non-empty'')) else Inr ())"

definition ensure_provider :: "ustr \<Rightarrow> AgentError + unit" where
  "ensure_provider p =
     (if p = lit ''codex'' \<or> p = lit ''claude'' then Inr () else Inl (Agent_Validation (lit ''provider must be codex or claude: '' @ p)))"

text \<open>The leases and the position of a running lease.\<close>

definition find_running_lease :: "json \<Rightarrow> ustr \<Rightarrow> AgentError + json list \<times> nat" where
  "find_running_lease manifest i =
     and_then (ensure_non_empty (lit ''lease-id'') i) (\<lambda>_.
     case leases_of manifest of
       None \<Rightarrow> Inl (Agent_Validation shape_violation)
     | Some ls \<Rightarrow>
         (case find_lease_index ls i of
            None \<Rightarrow> Inl (Agent_Validation (lit ''lease not found: '' @ i))
          | Some k \<Rightarrow>
              if \<not> is_object (ls ! k) then Inl (Agent_Validation (lit ''lease must be an object: '' @ i))
              else (case non_empty_str (lease_get (ls ! k) (lit ''state'')) of
                      Some s \<Rightarrow>
                        if s = lit ''running'' then Inr (ls, k)
                        else Inl (Agent_Validation (lit ''lease is not running: '' @ i @ lit '' state='' @ s))
                    | None \<Rightarrow> Inl (Agent_Validation (lit ''lease state must be a non-empty string: '' @ i)))))"

definition atomic_write_registry ::
  "lease_lib \<Rightarrow> lease_fs \<Rightarrow> lease_io \<Rightarrow> lpath \<Rightarrow> ustr \<Rightarrow> json \<Rightarrow> lease_files \<Rightarrow> (AgentError + unit) \<times> lease_files" where
  "atomic_write_registry L fs io repo file manifest F =
     (case ensure_registry_file_path fs repo file of
        Inl e \<Rightarrow> (Inl e, F)
      | Inr _ \<Rightarrow>
          (case ll_to_string_pretty L manifest of
             Inl e \<Rightarrow> (Inl (Agent_Json e), F)
           | Inr s \<Rightarrow>
               (case li_write io of
                  Some e \<Rightarrow> (Inl (Agent_Io e), F)
                | None \<Rightarrow>
                    (case li_sync_parent io of Some e \<Rightarrow> Inl (Agent_Io e) | None \<Rightarrow> Inr (), F(under_root repo file \<mapsto> s @ [10])))))"

definition parse_rfc3339 :: "lease_lib \<Rightarrow> ustr \<Rightarrow> AgentError + int" where
  "parse_rfc3339 L s =
     (case ll_parse_time L s of Some t \<Rightarrow> Inr t | None \<Rightarrow> Inl (Agent_Validation (lit ''timestamp must be RFC3339: '' @ s)))"

definition parse_now :: "lease_lib \<Rightarrow> lease_io \<Rightarrow> ustr option \<Rightarrow> AgentError + int" where
  "parse_now L io input = (case input of Some s \<Rightarrow> parse_rfc3339 L s | None \<Rightarrow> Inr (li_utc_now io))"

subsection \<open>The commands\<close>

record LifecycleResult =
  lr_action :: ustr
  lr_changed :: bool
  lr_lease_ids :: "ustr list"

datatype LeaseAction =
    Open_Lease ustr ustr "ustr option" ustr "ustr list"
  | Heartbeat_Lease ustr
  | Close_Lease ustr "ustr list"
  | Block_Lease ustr "ustr list"
  | Reap_Leases int "ustr list"

definition string_array :: "ustr list \<Rightarrow> json" where
  "string_array as = JArr (map JStr as)"

definition new_lease :: "ustr \<Rightarrow> ustr \<Rightarrow> ustr option \<Rightarrow> ustr \<Rightarrow> ustr list \<Rightarrow> ustr \<Rightarrow> json" where
  "new_lease i provider model purpose artifacts now_s =
     JObj (bt_of ([(lit ''lease_id'', JStr i), (lit ''provider'', JStr provider), (lit ''state'', JStr (lit ''running''))] @
       (case model of Some m \<Rightarrow> [(lit ''model'', JStr m)] | None \<Rightarrow> []) @
       [(lit ''purpose'', JStr purpose), (lit ''started_at'', JStr now_s), (lit ''last_heartbeat_at'', JStr now_s),
        (lit ''artifact_paths'', string_array artifacts)]))"

definition closed_lease :: "ustr \<Rightarrow> ustr \<Rightarrow> ustr \<Rightarrow> ustr list \<Rightarrow> json \<Rightarrow> json" where
  "closed_lease state field now_s artifacts lease =
     lease_put (lit ''artifact_paths'') (string_array artifacts)
       (lease_put field (JStr now_s) (lease_put (lit ''state'') (JStr state) lease))"

definition close_lease ::
  "lease_lib \<Rightarrow> lease_fs \<Rightarrow> lease_io \<Rightarrow> lpath \<Rightarrow> ustr \<Rightarrow> ustr option \<Rightarrow> ustr \<Rightarrow> ustr list \<Rightarrow> ustr \<Rightarrow> ustr \<Rightarrow> lease_files \<Rightarrow> AgentError + json" where
  "close_lease L fs io repo file now i artifacts state field F =
     and_then (parse_now L io now) (\<lambda>t.
     and_then (validate_existing_artifacts fs repo artifacts) (\<lambda>_.
     and_then (load_registry_for_mutation L fs io repo file False F) (\<lambda>manifest.
     and_then (find_running_lease manifest i) (\<lambda>(ls, k).
       Inr (with_leases manifest (ls[k := closed_lease state field (ll_fmt_time L t) artifacts (ls ! k)]))))))"

definition num_seconds :: "int \<Rightarrow> int" where
  "num_seconds d = (if d < 0 then - ((- d) div 1000000000) else d div 1000000000)"

fun reap_loop :: "lease_lib \<Rightarrow> int \<Rightarrow> int \<Rightarrow> ustr list \<Rightarrow> json list \<Rightarrow> AgentError + json list \<times> ustr list" where
  "reap_loop L t stale artifacts [] = Inr ([], [])"
| "reap_loop L t stale artifacts (l # ls) =
     (if \<not> is_object l \<or> non_empty_str (lease_get l (lit ''state'')) \<noteq> Some (lit ''running'') \<or>
         non_empty_str (lease_get l (lit ''lease_id'')) = None
      then and_then (reap_loop L t stale artifacts ls) (\<lambda>(ls', ids). Inr (l # ls', ids))
      else
        (case (case non_empty_str (lease_get l (lit ''last_heartbeat_at'')) of Some s \<Rightarrow> Some s
               | None \<Rightarrow> non_empty_str (lease_get l (lit ''started_at''))) of
           None \<Rightarrow> Inl (Agent_Validation (lit ''running lease missing last_heartbeat_at/started_at: '' @ lease_label l))
         | Some ts \<Rightarrow>
             and_then (parse_rfc3339 L ts) (\<lambda>observed.
             let stale_now = num_seconds (t - observed) \<ge> stale in
             and_then (reap_loop L t stale artifacts ls) (\<lambda>(ls', ids).
               if stale_now then Inr (closed_lease (lit ''reaped'') (lit ''reaped_at'') (ll_fmt_time L t) artifacts l # ls', lease_label l # ids)
               else Inr (l # ls', ids)))))"

text \<open>What an action makes of the registry: the new manifest, or none when nothing changes, and the leases concerned.\<close>

definition lease_change ::
  "lease_lib \<Rightarrow> lease_fs \<Rightarrow> lease_io \<Rightarrow> lpath \<Rightarrow> ustr \<Rightarrow> ustr option \<Rightarrow> LeaseAction \<Rightarrow> lease_files \<Rightarrow> AgentError + (json option \<times> LifecycleResult)" where
  "lease_change L fs io repo file now action F =
     (case action of
        Open_Lease i provider model purpose artifacts \<Rightarrow>
          and_then (parse_now L io now) (\<lambda>t.
          and_then (load_registry_for_mutation L fs io repo file True F) (\<lambda>manifest.
          and_then (ensure_provider provider) (\<lambda>_.
          and_then (ensure_non_empty (lit ''lease-id'') i) (\<lambda>_.
          and_then (ensure_non_empty (lit ''purpose'') purpose) (\<lambda>_.
          and_then (validate_expected_artifacts fs repo artifacts) (\<lambda>_.
          case leases_of manifest of
            None \<Rightarrow> Inl (Agent_Validation shape_violation)
          | Some ls \<Rightarrow>
              if find_lease_index ls i \<noteq> None then Inl (Agent_Validation (lit ''lease already exists: '' @ i))
              else and_then (case model of Some m \<Rightarrow> ensure_non_empty (lit ''model'') m | None \<Rightarrow> Inr ()) (\<lambda>_.
                   Inr (Some (with_leases manifest (ls @ [new_lease i provider model purpose artifacts (ll_fmt_time L t)])),
                        \<lparr>lr_action = lit ''open'', lr_changed = True, lr_lease_ids = [i]\<rparr>))))))))
      | Heartbeat_Lease i \<Rightarrow>
          and_then (parse_now L io now) (\<lambda>t.
          and_then (load_registry_for_mutation L fs io repo file False F) (\<lambda>manifest.
          and_then (find_running_lease manifest i) (\<lambda>(ls, k).
            Inr (Some (with_leases manifest (ls[k := lease_put (lit ''last_heartbeat_at'') (JStr (ll_fmt_time L t)) (ls ! k)])),
                 \<lparr>lr_action = lit ''heartbeat'', lr_changed = True, lr_lease_ids = [i]\<rparr>))))
      | Close_Lease i artifacts \<Rightarrow>
          and_then (close_lease L fs io repo file now i artifacts (lit ''completed'') (lit ''completed_at'') F) (\<lambda>m.
            Inr (Some m, \<lparr>lr_action = lit ''close'', lr_changed = True, lr_lease_ids = [i]\<rparr>))
      | Block_Lease i artifacts \<Rightarrow>
          and_then (close_lease L fs io repo file now i artifacts (lit ''blocked'') (lit ''blocked_at'') F) (\<lambda>m.
            Inr (Some m, \<lparr>lr_action = lit ''block'', lr_changed = True, lr_lease_ids = [i]\<rparr>))
      | Reap_Leases stale artifacts \<Rightarrow>
          and_then (parse_now L io now) (\<lambda>t.
          and_then (validate_existing_artifacts fs repo artifacts) (\<lambda>_.
          and_then (load_registry_for_mutation L fs io repo file False F) (\<lambda>manifest.
          case leases_of manifest of
            None \<Rightarrow> Inl (Agent_Validation shape_violation)
          | Some ls \<Rightarrow>
              and_then (reap_loop L t stale artifacts ls) (\<lambda>(ls', ids).
                Inr (if ids = [] then None else Some (with_leases manifest ls'),
                     \<lparr>lr_action = lit ''reap'', lr_changed = ids \<noteq> [], lr_lease_ids = ids\<rparr>))))))"

definition check_stale_seconds :: "LeaseAction \<Rightarrow> AgentError + unit" where
  "check_stale_seconds action =
     (case action of
        Reap_Leases stale _ \<Rightarrow>
          if stale < 0 then Inl (Agent_Validation (lit ''--stale-seconds must be non-negative'')) else Inr ()
      | _ \<Rightarrow> Inr ())"

definition run_lease ::
  "lease_lib \<Rightarrow> lease_fs \<Rightarrow> lease_io \<Rightarrow> ustr \<Rightarrow> ustr option \<Rightarrow> ustr option \<Rightarrow> LeaseAction \<Rightarrow> lease_files \<Rightarrow>
   (AgentError + LifecycleResult) \<times> lease_files" where
  "run_lease L fs io file repo_root now action F =
     (case and_then (check_stale_seconds action) (\<lambda>_.
             and_then (canonical_repo_root fs repo_root) (\<lambda>repo.
             and_then (lease_change L fs io repo file now action F) (\<lambda>(m, res). Inr (repo, m, res)))) of
        Inl e \<Rightarrow> (Inl e, F)
      | Inr (repo, None, res) \<Rightarrow> (Inr res, F)
      | Inr (repo, Some m, res) \<Rightarrow>
          (case atomic_write_registry L fs io repo file m F of
             (Inl e, F') \<Rightarrow> (Inl e, F')
           | (Inr _, F') \<Rightarrow> (Inr res, F')))"

definition run_validate :: "lease_lib \<Rightarrow> lease_fs \<Rightarrow> lease_io \<Rightarrow> ustr \<Rightarrow> ustr option \<Rightarrow> lease_files \<Rightarrow> AgentError + ustr list" where
  "run_validate L fs io file repo_root F =
     and_then (canonical_repo_root fs repo_root) (\<lambda>repo. Inr (validate_registry L fs io repo file F))"

section \<open>Well-formed registries\<close>

definition lease_ident :: "json \<Rightarrow> ustr option" where
  "lease_ident l = non_empty_str (lease_get l (lit ''lease_id''))"

definition lease_state :: "json \<Rightarrow> ustr option" where
  "lease_state l = non_empty_str (lease_get l (lit ''state''))"

definition known_provider :: "json \<Rightarrow> bool" where
  "known_provider l \<longleftrightarrow> non_empty_str (lease_get l (lit ''provider'')) \<in> {Some (lit ''codex''), Some (lit ''claude'')}"

definition artifacts_ok :: "(ustr \<Rightarrow> lpath option) \<Rightarrow> lpath \<Rightarrow> json \<Rightarrow> bool" where
  "artifacts_ok resolve repo l \<longleftrightarrow>
     (\<exists>as. lease_get l (lit ''artifact_paths'') = Some (string_array as) \<and> as \<noteq> [] \<and>
        (\<forall>a\<in>set as. a \<noteq> [] \<and> (\<exists>p. resolve a = Some p \<and> is_under_or_equal p repo)))"

definition closed_ok :: "lease_fs \<Rightarrow> lpath \<Rightarrow> json \<Rightarrow> bool" where
  "closed_ok fs repo l \<longleftrightarrow>
     lease_ident l \<noteq> None \<and> known_provider l \<and> (\<exists>s. lease_state l = Some s \<and> closed_state s) \<and>
     artifacts_ok (artifact_abs_path fs repo) repo l"

definition live_ok :: "lease_fs \<Rightarrow> lpath \<Rightarrow> json \<Rightarrow> bool" where
  "live_ok fs repo l \<longleftrightarrow>
     lease_ident l \<noteq> None \<and> known_provider l \<and> (\<exists>s. lease_state l = Some s \<and> live_state s) \<and>
     artifacts_ok (expected_artifact_abs_path fs repo) repo l"

definition registry_wf :: "lease_fs \<Rightarrow> lpath \<Rightarrow> json list \<Rightarrow> bool" where
  "registry_wf fs repo ls \<longleftrightarrow>
     list_all (\<lambda>l. is_object l \<and> (closed_ok fs repo l \<or> live_ok fs repo l)) ls \<and> distinct (map lease_ident ls)"

text \<open>The leases stored at a path.\<close>

definition registry_at :: "lease_lib \<Rightarrow> lease_files \<Rightarrow> lpath \<Rightarrow> json list option" where
  "registry_at L F p =
     (case F p of None \<Rightarrow> None | Some raw \<Rightarrow> (case ll_from_str L raw of Inl _ \<Rightarrow> None | Inr m \<Rightarrow> validate_manifest_shape m))"

section \<open>Lemmas\<close>

lemma split_char_append_sep: "split_char c (a @ c # b) = split_char c a @ split_char c b"
  by (induction a) (auto split: list.splits)

lemma join_append:
  "xs \<noteq> [] \<Longrightarrow> ys \<noteq> [] \<Longrightarrow> intersperse_concat sep (xs @ ys) = intersperse_concat sep xs @ sep @ intersperse_concat sep ys"
  by (induction sep xs rule: intersperse_concat.induct) (auto simp: neq_Nil_conv)

text \<open>A component is the whole text or is set off by separators.\<close>

lemma split_char_piece:
  assumes "q \<in> set (split_char c p)"
  shows "p = q \<or> prefix (q @ [c]) p \<or> suffix (c # q) p \<or> sublist (c # q @ [c]) p"
proof -
  obtain xs ys where xy: "split_char c p = xs @ q # ys" using split_list [OF assms] by blast
  have p: "p = intersperse_concat [c] (xs @ q # ys)" using xy join_split_char [of c p] by simp
  show ?thesis
  proof (cases "xs = []"; cases "ys = []")
    assume "xs = []" "ys \<noteq> []"
    then have "p = (q @ [c]) @ intersperse_concat [c] ys" using p by (auto simp: neq_Nil_conv)
    then show ?thesis unfolding prefix_def by blast
  next
    assume "xs \<noteq> []" "ys = []"
    then have "p = intersperse_concat [c] xs @ (c # q)" using p by (simp add: join_append)
    then show ?thesis unfolding suffix_def by blast
  next
    assume "xs \<noteq> []" "ys \<noteq> []"
    then have "p = intersperse_concat [c] xs @ (c # q @ [c]) @ intersperse_concat [c] ys"
      using p by (auto simp: join_append neq_Nil_conv)
    then show ?thesis unfolding sublist_def by blast
  qed (use p in simp)
qed

lemma piece_split:
  assumes "c \<notin> set q" "p = q \<or> prefix (q @ [c]) p \<or> suffix (c # q) p \<or> sublist (c # q @ [c]) p"
  shows "q \<in> set (split_char c p)"
  using assms(2)
proof (elim disjE)
  assume "prefix (q @ [c]) p"
  then obtain r where "p = q @ c # r" by (auto simp: prefix_def)
  then show ?thesis using assms(1) by (simp add: split_char_append)
next
  assume "suffix (c # q) p"
  then obtain r where "p = r @ c # q" by (auto simp: suffix_def)
  then show ?thesis using assms(1) by (simp add: split_char_append_sep)
next
  assume "sublist (c # q @ [c]) p"
  then obtain r t where "p = r @ c # q @ c # t" by (auto simp: sublist_def)
  then show ?thesis using assms(1) by (simp add: split_char_append_sep split_char_append)
qed (use assms(1) in simp)

text \<open>The textual test finds exactly the components that are one or two dots.\<close>

lemma has_unsafe_dot_exact:
  "has_unsafe_dot_component p \<longleftrightarrow> lit ''.'' \<in> set (split_char 47 p) \<or> lit ''..'' \<in> set (split_char 47 p)"
proof -
  have "has_unsafe_dot_component p \<longleftrightarrow>
      (p = lit ''.'' \<or> prefix (lit ''.'' @ [47]) p \<or> suffix (47 # lit ''.'') p \<or> sublist (47 # lit ''.'' @ [47]) p) \<or>
      (p = lit ''..'' \<or> prefix (lit ''..'' @ [47]) p \<or> suffix (47 # lit ''..'') p \<or> sublist (47 # lit ''..'' @ [47]) p)"
    unfolding has_unsafe_dot_component_def starts_with_def ends_with_def by (simp add: lit_def disj_ac)
  moreover have "47 \<notin> set (lit ''.'')" "47 \<notin> set (lit ''..'')" by (simp_all add: lit_def)
  ultimately show ?thesis using split_char_piece piece_split by metis
qed

lemma string_array_inject [simp]: "string_array as = string_array bs \<longleftrightarrow> as = bs"
  unfolding string_array_def by (simp add: inj_map_eq_map inj_def)

lemma string_array_iff:
  "list_all (\<lambda>a. non_empty_str (Some a) \<noteq> None) vs \<longleftrightarrow> (\<exists>as. vs = map JStr as \<and> [] \<notin> set as)"
proof (induction vs)
  case (Cons v vs)
  have "non_empty_str (Some v) \<noteq> None \<longleftrightarrow> (\<exists>a. v = JStr a \<and> a \<noteq> [])" by (cases v) (auto simp: non_empty_str_def)
  then show ?case using Cons by (auto simp: Cons_eq_map_conv) (metis list.set_intros list.simps(9) set_ConsD)
qed simp

lemma artifact_violations_iff: "artifact_violations resolve repo idx l = [] \<longleftrightarrow> artifacts_ok resolve repo l"
proof (cases "\<exists>as. lease_get l (lit ''artifact_paths'') = Some (string_array as) \<and> [] \<notin> set as")
  case True
  then obtain as where as: "lease_get l (lit ''artifact_paths'') = Some (string_array as)" "[] \<notin> set as" by blast
  have "list_all (\<lambda>a. non_empty_str (Some a) \<noteq> None) (map JStr as)" using as(2) string_array_iff by blast
  moreover have "artifact_violation resolve repo idx l (JStr a) = [] \<longleftrightarrow> (\<exists>p. resolve a = Some p \<and> is_under_or_equal p repo)" for a
    by (auto simp: artifact_violation_def split: option.split)
  ultimately have "artifact_violations resolve repo idx l = [] \<longleftrightarrow>
      as \<noteq> [] \<and> (\<forall>a\<in>set as. \<exists>p. resolve a = Some p \<and> is_under_or_equal p repo)"
    using as(1) by (simp add: artifact_violations_def string_array_def Let_def)
  also have "\<dots> \<longleftrightarrow> artifacts_ok resolve repo l" using as by (auto simp: artifacts_ok_def)
  finally show ?thesis .
next
  case False
  then have "\<not> artifacts_ok resolve repo l" by (auto simp: artifacts_ok_def)
  moreover have "artifact_violations resolve repo idx l \<noteq> []"
    using False string_array_iff
    by (auto simp: artifact_violations_def string_array_def Let_def split: option.splits json.splits)
  ultimately show ?thesis by simp
qed

lemma provider_violations_iff: "provider_violations idx l = [] \<longleftrightarrow> known_provider l"
  by (auto simp: provider_violations_def known_provider_def split: option.splits)

lemma states_disjoint: "closed_state s \<Longrightarrow> \<not> live_state s"
  by (auto simp: closed_state_def live_state_def lit_def)

lemma validate_leases_iff: "validate_leases fs repo idx ls = [] \<longleftrightarrow> list_all (closed_ok fs repo) ls"
  by (induction ls arbitrary: idx)
    (auto simp: validate_lease_def closed_ok_def provider_violations_iff artifact_violations_iff lease_ident_def lease_state_def
      split: option.splits)

lemma existing_lease_iff:
  "existing_lease_violations fs repo seen idx l = [] \<longleftrightarrow>
   (closed_ok fs repo l \<or> live_ok fs repo l) \<and> the (lease_ident l) \<notin> seen"
  using states_disjoint
  by (auto simp: existing_lease_violations_def closed_ok_def live_ok_def provider_violations_iff artifact_violations_iff
      lease_ident_def lease_state_def split: option.splits)

lemma mutation_valid_iff:
  "validate_existing_leases_for_mutation fs repo seen idx ls = [] \<longleftrightarrow>
   registry_wf fs repo ls \<and> list_all (\<lambda>l. the (lease_ident l) \<notin> seen) ls"
proof (induction ls arbitrary: seen idx)
  case (Cons l ls)
  show ?case
  proof (cases "is_object l \<and> (closed_ok fs repo l \<or> live_ok fs repo l)")
    case True
    then obtain i where i: "lease_ident l = Some i" by (auto simp: closed_ok_def live_ok_def)
    have "list_all (\<lambda>l. the (lease_ident l) \<notin> insert i seen) ls \<longleftrightarrow>
        Some i \<notin> lease_ident ` set ls \<and> list_all (\<lambda>l. the (lease_ident l) \<notin> seen) ls" if "registry_wf fs repo ls"
      using that by (force simp: registry_wf_def list_all_iff closed_ok_def live_ok_def)
    then show ?thesis using True i Cons.IH
      by (auto simp: existing_lease_iff registry_wf_def lease_ident_def [symmetric])
  next
    case False
    then show ?thesis by (auto simp: existing_lease_iff registry_wf_def)
  qed
qed (simp add: registry_wf_def)

subsection \<open>Single leases\<close>

lemma lease_get_put: "is_object v \<Longrightarrow> lease_get (lease_put k x v) j = (if j = k then Some x else lease_get v j)"
  by (cases v) (simp_all add: is_object_def lease_get_def lease_put_def bt_insert_lookup)

lemma is_object_put [simp]: "is_object (lease_put k x v) = is_object v"
  by (cases v) (simp_all add: is_object_def lease_put_def)

lemma field_names:
  "distinct [lit ''lease_id'', lit ''provider'', lit ''state'', lit ''model'', lit ''purpose'', lit ''started_at'', lit ''last_heartbeat_at'',
     lit ''artifact_paths'', lit ''completed_at'', lit ''blocked_at'', lit ''reaped_at'', lit ''leases'', lit ''schema_version'']"
  by (simp add: lit_def)

lemma check_artifacts_ok:
  "check_artifacts resolve repo missing as = Inr () \<longleftrightarrow> (\<forall>a\<in>set as. \<exists>p. resolve a = Some p \<and> is_under_or_equal p repo)"
  by (induction as) (auto split: option.split)

lemma closed_lease_ok:
  assumes "is_object l" "lease_ident l \<noteq> None" "known_provider l" "validate_existing_artifacts fs repo artifacts = Inr ()"
    and "(state, field) \<in> {(lit ''completed'', lit ''completed_at''), (lit ''blocked'', lit ''blocked_at''), (lit ''reaped'', lit ''reaped_at'')}"
  shows "is_object (closed_lease state field now_s artifacts l)" "lease_ident (closed_lease state field now_s artifacts l) = lease_ident l"
    "closed_ok fs repo (closed_lease state field now_s artifacts l)"
proof -
  have s: "closed_state state" "state \<noteq> []" and f: "field \<notin> {lit ''lease_id'', lit ''provider'', lit ''state'', lit ''artifact_paths''}"
    using assms(5) field_names by (auto simp: closed_state_def lit_def)
  note get = closed_lease_def lease_get_put assms(1)
  have as: "artifacts \<noteq> []" "\<forall>a\<in>set artifacts. \<exists>p. artifact_abs_path fs repo a = Some p \<and> is_under_or_equal p repo"
    using assms(4) by (auto simp: validate_existing_artifacts_def check_artifacts_ok split: if_splits)
  have "a \<noteq> []" if "a \<in> set artifacts" for a using as(2) that by (fastforce simp: artifact_abs_path_def)
  then have "artifacts_ok (artifact_abs_path fs repo) repo (closed_lease state field now_s artifacts l)"
    using as by (auto simp: artifacts_ok_def get)
  moreover show "lease_ident (closed_lease state field now_s artifacts l) = lease_ident l"
    using f field_names by (auto simp: lease_ident_def get)
  moreover have "known_provider (closed_lease state field now_s artifacts l)"
    using assms(3) f field_names by (auto simp: known_provider_def get)
  moreover have "lease_state (closed_lease state field now_s artifacts l) = Some state"
    using s(2) f field_names by (auto simp: lease_state_def get non_empty_str_def)
  ultimately show "closed_ok fs repo (closed_lease state field now_s artifacts l)"
    using assms(2) s(1) by (simp add: closed_ok_def)
  show "is_object (closed_lease state field now_s artifacts l)" using assms(1) by (simp add: closed_lease_def)
qed

lemma new_lease_ok:
  assumes "ensure_provider provider = Inr ()" "i \<noteq> []" "validate_expected_artifacts fs repo artifacts = Inr ()"
  shows "is_object (new_lease i provider model purpose artifacts now_s)" "lease_ident (new_lease i provider model purpose artifacts now_s) = Some i"
    "live_ok fs repo (new_lease i provider model purpose artifacts now_s)"
proof -
  let ?fs = "[(lit ''lease_id'', JStr i), (lit ''provider'', JStr provider), (lit ''state'', JStr (lit ''running''))] @
       (case model of Some m \<Rightarrow> [(lit ''model'', JStr m)] | None \<Rightarrow> []) @
       [(lit ''purpose'', JStr purpose), (lit ''started_at'', JStr now_s), (lit ''last_heartbeat_at'', JStr now_s),
        (lit ''artifact_paths'', string_array artifacts)]"
  have "distinct (map fst ?fs)" using field_names by (cases model) auto
  then have get: "lease_get (new_lease i provider model purpose artifacts now_s) k = map_of ?fs k" for k
    by (simp add: new_lease_def lease_get_def bt_of_lookup)
  have as: "artifacts \<noteq> []" "\<forall>a\<in>set artifacts. \<exists>p. expected_artifact_abs_path fs repo a = Some p \<and> is_under_or_equal p repo"
    using assms(3) by (auto simp: validate_expected_artifacts_def check_artifacts_ok split: if_splits)
  have "a \<noteq> []" if "a \<in> set artifacts" for a using as(2) that by (fastforce simp: expected_artifact_abs_path_def)
  moreover have "lease_get (new_lease i provider model purpose artifacts now_s) (lit ''artifact_paths'') = Some (string_array artifacts)"
    unfolding get using field_names by (cases model) auto
  ultimately have "artifacts_ok (expected_artifact_abs_path fs repo) repo (new_lease i provider model purpose artifacts now_s)"
    using as by (auto simp: artifacts_ok_def)
  moreover show "lease_ident (new_lease i provider model purpose artifacts now_s) = Some i"
    using assms(2) by (simp add: lease_ident_def get non_empty_str_def)
  moreover have "known_provider (new_lease i provider model purpose artifacts now_s)"
    using assms(1) field_names by (auto simp: known_provider_def get non_empty_str_def ensure_provider_def lit_def split: if_splits)
  moreover have "lease_state (new_lease i provider model purpose artifacts now_s) = Some (lit ''running'')"
    using field_names by (auto simp: lease_state_def get non_empty_str_def lit_def)
  ultimately show "live_ok fs repo (new_lease i provider model purpose artifacts now_s)"
    by (simp add: live_ok_def live_state_def)
  show "is_object (new_lease i provider model purpose artifacts now_s)" by (simp add: new_lease_def is_object_def)
qed

lemma heartbeat_ok:
  assumes "is_object l" "live_ok fs repo l"
  shows "live_ok fs repo (lease_put (lit ''last_heartbeat_at'') x l)"
    "lease_ident (lease_put (lit ''last_heartbeat_at'') x l) = lease_ident l"
proof -
  have "lease_get (lease_put (lit ''last_heartbeat_at'') x l) k = lease_get l k" if "k \<noteq> lit ''last_heartbeat_at''" for k
    using lease_get_put [OF assms(1)] that by simp
  then have "lease_get (lease_put (lit ''last_heartbeat_at'') x l) k = lease_get l k"
    if "k \<in> {lit ''lease_id'', lit ''provider'', lit ''state'', lit ''artifact_paths''}" for k using that field_names by auto
  then show "live_ok fs repo (lease_put (lit ''last_heartbeat_at'') x l)"
    "lease_ident (lease_put (lit ''last_heartbeat_at'') x l) = lease_ident l"
    using assms(2) by (simp_all add: live_ok_def lease_ident_def lease_state_def known_provider_def artifacts_ok_def)
qed

subsection \<open>Registries\<close>

text \<open>
  How a list of leases may develop: leases stay at their places under their identifiers, and one that is
  not running does not change.
\<close>

definition evolves :: "json list \<Rightarrow> json list \<Rightarrow> bool" where
  "evolves ls ls' \<longleftrightarrow> length ls \<le> length ls' \<and>
     (\<forall>i<length ls. lease_ident (ls' ! i) = lease_ident (ls ! i) \<and> (lease_state (ls ! i) \<noteq> Some (lit ''running'') \<longrightarrow> ls' ! i = ls ! i))"

lemma registry_wf_nth:
  "registry_wf fs repo ls \<Longrightarrow> k < length ls \<Longrightarrow> is_object (ls ! k) \<and> (closed_ok fs repo (ls ! k) \<or> live_ok fs repo (ls ! k))"
  by (simp add: registry_wf_def list_all_length)

lemma running_live: "closed_ok fs repo l \<or> live_ok fs repo l \<Longrightarrow> lease_state l = Some (lit ''running'') \<Longrightarrow> live_ok fs repo l"
  by (auto simp: closed_ok_def closed_state_def lit_def)

lemma registry_wf_update:
  assumes "registry_wf fs repo ls" "k < length ls" "is_object l'" "closed_ok fs repo l' \<or> live_ok fs repo l'"
    and "lease_ident l' = lease_ident (ls ! k)" "lease_state (ls ! k) = Some (lit ''running'')"
  shows "registry_wf fs repo (ls[k := l'])" "evolves ls (ls[k := l'])"
proof -
  have "map lease_ident (ls[k := l']) = map lease_ident ls"
    using assms(2,5) by (simp add: map_update list_update_same_conv)
  then show "registry_wf fs repo (ls[k := l'])"
    using assms(1-4) by (auto simp: registry_wf_def list_all_length nth_list_update)
  show "evolves ls (ls[k := l'])" using assms(2,5,6) by (auto simp: evolves_def nth_list_update)
qed

lemma find_lease_index_Some: "find_lease_index ls i = Some k \<Longrightarrow> k < length ls \<and> lease_ident (ls ! k) = Some i"
  by (induction ls arbitrary: k) (auto simp: lease_ident_def split: if_splits)

lemma find_lease_index_None: "find_lease_index ls i = None \<Longrightarrow> Some i \<notin> lease_ident ` set ls"
  by (induction ls) (auto simp: lease_ident_def split: if_splits)

lemma find_running_lease_Inr:
  assumes "find_running_lease m i = Inr (ls, k)"
  shows "leases_of m = Some ls \<and> k < length ls \<and> is_object (ls ! k) \<and> lease_state (ls ! k) = Some (lit ''running'')"
  using assms find_lease_index_Some
  by (auto simp: find_running_lease_def and_then_Inr lease_state_def split: option.splits if_splits)

lemma shape_leases: "validate_manifest_shape m = Some ls \<Longrightarrow> leases_of m = Some ls"
  by (auto simp: validate_manifest_shape_def leases_of_def split: if_splits option.splits json.splits)

lemma shape_with_leases:
  assumes "validate_manifest_shape m = Some ls" "list_all is_object ls'"
  shows "validate_manifest_shape (with_leases m ls') = Some ls'"
proof -
  have "is_object m" using assms(1) by (cases m) (auto simp: validate_manifest_shape_def lease_get_def is_object_def)
  then show ?thesis using assms field_names
    by (auto simp: validate_manifest_shape_def with_leases_def lease_get_put split: if_splits)
qed

lemma load_registry_Inr:
  assumes "load_registry_for_mutation L fs io repo file create F = Inr m"
  shows "(\<exists>ls. validate_manifest_shape m = Some ls \<and> registry_wf fs repo ls) \<and>
    (case F (under_root (lf_cwd fs) file) of None \<Rightarrow> create \<and> m = empty_manifest | Some raw \<Rightarrow> ll_from_str L raw = Inr m)"
proof -
  have "validate_manifest_shape empty_manifest = Some [] \<and> registry_wf fs repo []"
    by (simp add: empty_manifest_def validate_manifest_shape_def lease_get_def bt_of_def lit_def REGISTRY_SCHEMA_VERSION_def registry_wf_def)
  then show ?thesis using assms
    by (auto simp: load_registry_for_mutation_def and_then_Inr Let_def mutation_valid_iff split: option.splits sum.splits if_splits)
qed

lemma reap_loop_Inr:
  "reap_loop L t stale artifacts ls = Inr (ls', ids) \<Longrightarrow>
   list_all2 (\<lambda>l l'. l' = l \<or> is_object l \<and> lease_state l = Some (lit ''running'') \<and>
     l' = closed_lease (lit ''reaped'') (lit ''reaped_at'') (ll_fmt_time L t) artifacts l) ls ls'"
proof (induction ls arbitrary: ls' ids)
  case (Cons l ls)
  then show ?case
    by (auto simp: and_then_Inr lease_state_def Let_def split: if_splits option.splits)
qed simp

lemma reaped_ok:
  assumes "registry_wf fs repo ls" "validate_existing_artifacts fs repo artifacts = Inr ()"
    and "reap_loop L t stale artifacts ls = Inr (ls', ids)"
  shows "registry_wf fs repo ls' \<and> evolves ls ls'"
proof -
  note rel = reap_loop_Inr [OF assms(3)]
  have len: "length ls' = length ls" using list_all2_lengthD [OF rel] by simp
  have each: "is_object (ls' ! k) \<and> (closed_ok fs repo (ls' ! k) \<or> live_ok fs repo (ls' ! k)) \<and>
      lease_ident (ls' ! k) = lease_ident (ls ! k) \<and> (lease_state (ls ! k) \<noteq> Some (lit ''running'') \<longrightarrow> ls' ! k = ls ! k)"
    if k: "k < length ls" for k
  proof -
    note wf = registry_wf_nth [OF assms(1) k]
    from list_all2_nthD [OF rel k] show ?thesis
    proof
      assume "ls' ! k = ls ! k"
      then show ?thesis using wf by simp
    next
      assume r: "is_object (ls ! k) \<and> lease_state (ls ! k) = Some (lit ''running'') \<and>
        ls' ! k = closed_lease (lit ''reaped'') (lit ''reaped_at'') (ll_fmt_time L t) artifacts (ls ! k)"
      then have "lease_ident (ls ! k) \<noteq> None" "known_provider (ls ! k)" using wf by (auto simp: closed_ok_def live_ok_def)
      then show ?thesis using r closed_lease_ok [of "ls ! k" fs repo artifacts "lit ''reaped''" "lit ''reaped_at''"] assms(2) by simp
    qed
  qed
  have "map lease_ident ls' = map lease_ident ls" using each len by (intro nth_equalityI) auto
  then show ?thesis using each len assms(1) by (auto simp: registry_wf_def list_all_length evolves_def)
qed

lemma close_lease_Inr:
  assumes "close_lease L fs io repo file now i artifacts state field F = Inr m'"
    and "(state, field) \<in> {(lit ''completed'', lit ''completed_at''), (lit ''blocked'', lit ''blocked_at''), (lit ''reaped'', lit ''reaped_at'')}"
  shows "\<exists>m ls ls'. load_registry_for_mutation L fs io repo file False F = Inr m \<and> validate_manifest_shape m = Some ls \<and>
    validate_manifest_shape m' = Some ls' \<and> registry_wf fs repo ls' \<and> evolves ls ls'"
proof -
  from assms(1) obtain t m ls k where l: "validate_existing_artifacts fs repo artifacts = Inr ()"
      "load_registry_for_mutation L fs io repo file False F = Inr m" "find_running_lease m i = Inr (ls, k)"
      "m' = with_leases m (ls[k := closed_lease state field (ll_fmt_time L t) artifacts (ls ! k)])"
    by (auto simp: close_lease_def and_then_Inr)
  from load_registry_Inr [OF l(2)] obtain ls0 where s: "validate_manifest_shape m = Some ls0" "registry_wf fs repo ls0" by blast
  note f = find_running_lease_Inr [OF l(3)]
  have ls: "ls0 = ls" using shape_leases [OF s(1)] f by simp
  have wf: "is_object (ls ! k)" "lease_ident (ls ! k) \<noteq> None" "known_provider (ls ! k)"
    using registry_wf_nth [OF s(2)] f ls by (auto simp: closed_ok_def live_ok_def)
  note c = closed_lease_ok [OF wf l(1) assms(2), of "ll_fmt_time L t"]
  note u = registry_wf_update [OF s(2) [unfolded ls], of k, OF _ c(1) disjI1 [OF c(3)] c(2)]
  have "registry_wf fs repo (ls[k := closed_lease state field (ll_fmt_time L t) artifacts (ls ! k)])"
    "evolves ls (ls[k := closed_lease state field (ll_fmt_time L t) artifacts (ls ! k)])" using u f by auto
  then show ?thesis using l(2,4) s(1) ls shape_with_leases [OF s(1)] by (auto simp: registry_wf_def list_all_iff)
qed

lemma lease_change_ok:
  assumes "lease_change L fs io repo file now action F = Inr (Some m', res)"
  shows "\<exists>create m ls ls'. load_registry_for_mutation L fs io repo file create F = Inr m \<and> validate_manifest_shape m = Some ls \<and>
    validate_manifest_shape m' = Some ls' \<and> registry_wf fs repo ls' \<and> evolves ls ls'"
proof (cases action)
  case (Open_Lease i provider model purpose artifacts)
  with assms obtain t m ls where l: "load_registry_for_mutation L fs io repo file True F = Inr m" "ensure_provider provider = Inr ()"
      "ensure_non_empty (lit ''lease-id'') i = Inr ()" "validate_expected_artifacts fs repo artifacts = Inr ()" "leases_of m = Some ls"
      "find_lease_index ls i = None" "m' = with_leases m (ls @ [new_lease i provider model purpose artifacts (ll_fmt_time L t)])"
    by (auto simp: lease_change_def and_then_Inr split: option.splits if_splits)
  from load_registry_Inr [OF l(1)] obtain ls0 where s: "validate_manifest_shape m = Some ls0" "registry_wf fs repo ls0" by blast
  have ls: "ls0 = ls" using shape_leases [OF s(1)] l(5) by simp
  have "i \<noteq> []" using l(3) by (auto simp: ensure_non_empty_def split: if_splits)
  note n = new_lease_ok [OF l(2) this l(4), of model purpose "ll_fmt_time L t"]
  have "registry_wf fs repo (ls @ [new_lease i provider model purpose artifacts (ll_fmt_time L t)])"
    using s(2) ls n find_lease_index_None [OF l(6)] by (auto simp: registry_wf_def)
  moreover have "evolves ls (ls @ [new_lease i provider model purpose artifacts (ll_fmt_time L t)])" by (simp add: evolves_def nth_append)
  ultimately show ?thesis using l(1,7) s(1) ls shape_with_leases [OF s(1)] by (auto simp: registry_wf_def list_all_iff)
next
  case (Heartbeat_Lease i)
  with assms obtain t m ls k where l: "load_registry_for_mutation L fs io repo file False F = Inr m" "find_running_lease m i = Inr (ls, k)"
      "m' = with_leases m (ls[k := lease_put (lit ''last_heartbeat_at'') (JStr (ll_fmt_time L t)) (ls ! k)])"
    by (auto simp: lease_change_def and_then_Inr)
  from load_registry_Inr [OF l(1)] obtain ls0 where s: "validate_manifest_shape m = Some ls0" "registry_wf fs repo ls0" by blast
  note f = find_running_lease_Inr [OF l(2)]
  have ls: "ls0 = ls" using shape_leases [OF s(1)] f by simp
  have "live_ok fs repo (ls ! k)" using registry_wf_nth [OF s(2)] f ls running_live by blast
  note h = heartbeat_ok [OF _ this, of "JStr (ll_fmt_time L t)"]
  note u = registry_wf_update [OF s(2) [unfolded ls], of k "lease_put (lit ''last_heartbeat_at'') (JStr (ll_fmt_time L t)) (ls ! k)"]
  have "registry_wf fs repo (ls[k := lease_put (lit ''last_heartbeat_at'') (JStr (ll_fmt_time L t)) (ls ! k)])"
    "evolves ls (ls[k := lease_put (lit ''last_heartbeat_at'') (JStr (ll_fmt_time L t)) (ls ! k)])" using u h f by auto
  then show ?thesis using l(1,3) s(1) ls shape_with_leases [OF s(1)] by (auto simp: registry_wf_def list_all_iff)
next
  case (Close_Lease i artifacts)
  with assms have "close_lease L fs io repo file now i artifacts (lit ''completed'') (lit ''completed_at'') F = Inr m'"
    by (auto simp: lease_change_def and_then_Inr)
  from close_lease_Inr [OF this] show ?thesis by auto
next
  case (Block_Lease i artifacts)
  with assms have "close_lease L fs io repo file now i artifacts (lit ''blocked'') (lit ''blocked_at'') F = Inr m'"
    by (auto simp: lease_change_def and_then_Inr)
  from close_lease_Inr [OF this] show ?thesis by auto
next
  case (Reap_Leases stale artifacts)
  with assms obtain t m ls ls' ids where l: "validate_existing_artifacts fs repo artifacts = Inr ()"
      "load_registry_for_mutation L fs io repo file False F = Inr m" "leases_of m = Some ls"
      "reap_loop L t stale artifacts ls = Inr (ls', ids)" "m' = with_leases m ls'"
    by (auto simp: lease_change_def and_then_Inr split: option.splits if_splits)
  from load_registry_Inr [OF l(2)] obtain ls0 where s: "validate_manifest_shape m = Some ls0" "registry_wf fs repo ls0" by blast
  have ls: "ls0 = ls" using shape_leases [OF s(1)] l(3) by simp
  note r = reaped_ok [OF s(2) [unfolded ls] l(1,4)]
  then show ?thesis using l(2,5) s(1) ls shape_with_leases [OF s(1)] by (auto simp: registry_wf_def list_all_iff)
qed

lemma run_lease_files:
  assumes "canonical_repo_root fs repo_root = Inr repo" "run_lease L fs io file repo_root now action F = (r, F')"
  shows "F' = F \<or> (\<exists>m res s. lease_change L fs io repo file now action F = Inr (Some m, res) \<and>
    ll_to_string_pretty L m = Inr s \<and> F' = F(under_root repo file \<mapsto> s @ [10]))"
  using assms
  by (auto simp: run_lease_def atomic_write_registry_def and_then_def split: sum.splits prod.splits option.splits)

section \<open>Properties\<close>

definition demo_leases :: json where
  "demo_leases = with_leases empty_manifest [new_lease (lit ''i'') (lit ''codex'') None (lit ''p'') [lit ''a''] (lit ''t'')]"

definition demo_lease_lib :: lease_lib where
  "demo_lease_lib = \<lparr>ll_parse_time = (\<lambda>_. Some 0), ll_fmt_time = (\<lambda>_. lit ''t''), ll_from_str = (\<lambda>_. Inr demo_leases),
     ll_to_string_pretty = (\<lambda>m. if m = demo_leases then Inr (lit ''x'') else Inl [])\<rparr>"

definition demo_lease_fs :: lease_fs where
  "demo_lease_fs = \<lparr>lf_cwd = [lit ''w''], lf_stat = (\<lambda>_ _. Some Is_Dir), lf_canon = Some\<rparr>"

definition demo_lease_io :: lease_io where
  "demo_lease_io = \<lparr>li_utc_now = 0, li_read = None, li_write = None, li_sync_parent = None\<rparr>"

definition demo_open :: "ustr \<Rightarrow> lease_files \<Rightarrow> (AgentError + LifecycleResult) \<times> lease_files" where
  "demo_open file F = run_lease demo_lease_lib demo_lease_fs demo_lease_io file (Some (lit ''/r'')) None
     (Open_Lease (lit ''i'') (lit ''codex'') None (lit ''p'') [lit ''a'']) F"

lemma demo_lease_round_trip:
  "\<forall>m s. ll_to_string_pretty demo_lease_lib m = Inr s \<longrightarrow> ll_from_str demo_lease_lib (s @ [10]) = Inr m"
  by (auto simp: demo_lease_lib_def split: if_splits)

lemma demo_repo: "canonical_repo_root demo_lease_fs (Some (lit ''/r'')) = Inr [lit ''r'']"
  by code_simp

text \<open>
  C32. The registry stays well-formed and the history that was read is kept: whatever command runs and however it ends,
  no file but the registry below the repository root changes, and it is as before or holds leases the next command
  accepts, each lease of the registry that was read at its place under its identifier, and those that were not running
  exactly as they were. The registry is read relative to the working directory and written relative to the repository
  root; these are the same file when its path is absolute or the command runs in the root, and only then is it the
  history of the file itself that is kept (see \<^verbatim>\<open>open_discards_registry\<close> below for the other case). What the JSON
  library prints it parses back.
\<close>

theorem lease_history_kept:
  assumes "\<forall>m s. ll_to_string_pretty L m = Inr s \<longrightarrow> ll_from_str L (s @ [10]) = Inr m"
    and "canonical_repo_root fs repo_root = Inr repo"
    and "run_lease L fs io file repo_root now action F = (r, F')"
  shows "(\<forall>q. q \<noteq> under_root repo file \<longrightarrow> F' q = F q) \<and>
    (F' = F \<or> (\<exists>ls'. registry_at L F' (under_root repo file) = Some ls' \<and> registry_wf fs repo ls' \<and>
       (case registry_at L F (under_root (lf_cwd fs) file) of
          None \<Rightarrow> F (under_root (lf_cwd fs) file) = None
        | Some ls \<Rightarrow> evolves ls ls'))) \<and>
    (is_absolute file \<or> lf_cwd fs = repo \<longrightarrow> under_root (lf_cwd fs) file = under_root repo file)"
proof -
  have path: "is_absolute file \<or> lf_cwd fs = repo \<longrightarrow> under_root (lf_cwd fs) file = under_root repo file"
    by (auto simp: under_root_def)
  consider "F' = F" | m' res s where "lease_change L fs io repo file now action F = Inr (Some m', res)"
      "ll_to_string_pretty L m' = Inr s" "F' = F(under_root repo file \<mapsto> s @ [10])"
    using run_lease_files [OF assms(2,3)] by blast
  then show ?thesis
  proof cases
    case 2
    from lease_change_ok [OF 2(1)] obtain create m ls ls' where
      c: "load_registry_for_mutation L fs io repo file create F = Inr m" "validate_manifest_shape m = Some ls"
        "validate_manifest_shape m' = Some ls'" "registry_wf fs repo ls'" "evolves ls ls'" by blast
    have "registry_at L F' (under_root repo file) = Some ls'" using 2 c(3) assms(1) by (simp add: registry_at_def)
    moreover have "case registry_at L F (under_root (lf_cwd fs) file) of
        None \<Rightarrow> F (under_root (lf_cwd fs) file) = None | Some ls \<Rightarrow> evolves ls ls'"
      using load_registry_Inr [OF c(1)] c(2,5) by (auto simp: registry_at_def split: option.splits)
    ultimately show ?thesis using 2(3) c(4) path by auto
  qed (use path in auto)
qed

theorem lease_history_kept_witness:
  "\<exists>ls'. registry_at demo_lease_lib (snd (demo_open (lit ''/r/l'') (\<lambda>_. None))) [lit ''r'', lit ''l''] = Some ls' \<and>
     registry_wf demo_lease_fs [lit ''r''] ls'"
proof -
  obtain r F' where r: "demo_open (lit ''/r/l'') (\<lambda>_. None) = (r, F')" by fastforce
  have u: "under_root [lit ''r''] (lit ''/r/l'') = [lit ''r'', lit ''l'']" by code_simp
  have "snd (demo_open (lit ''/r/l'') (\<lambda>_. None)) [lit ''r'', lit ''l''] \<noteq> None" by code_simp
  then have "F' \<noteq> (\<lambda>_. None)" using r by auto
  with lease_history_kept [OF demo_lease_round_trip demo_repo r [unfolded demo_open_def]] r u show ?thesis by auto
qed

text \<open>
  C33. The completion gate is exact: it reports no violation if and only if the registry can be read, has a
  lease, and every lease is named, of a known provider, closed, and refers to artifacts that exist inside the
  repository.
\<close>

theorem gate_exact:
  "validate_registry L fs io repo file F = [] \<longleftrightarrow>
   li_read io = None \<and>
   (\<exists>ls. registry_at L F (under_root (lf_cwd fs) file) = Some ls \<and> ls \<noteq> [] \<and> list_all (closed_ok fs repo) ls)"
  by (auto simp: validate_registry_def registry_at_def validate_leases_iff split: option.splits sum.splits if_splits)

text \<open>
  A relative registry path outside the working directory discards the registry: when no such file is
  found from the working directory, opening a lease replaces the registry below the repository root by one
  that holds the new lease only, whatever was in it.
\<close>

lemma open_discards_registry:
  assumes "\<forall>m s. ll_to_string_pretty L m = Inr s \<longrightarrow> ll_from_str L (s @ [10]) = Inr m"
    and "canonical_repo_root fs repo_root = Inr repo" "F (under_root (lf_cwd fs) file) = None"
    and "run_lease L fs io file repo_root now (Open_Lease i provider model purpose artifacts) F = (Inr res, F')"
  shows "\<exists>l. registry_at L F' (under_root repo file) = Some [l] \<and> lease_ident l = Some i \<and>
    F' = F(under_root repo file := F' (under_root repo file))"
proof -
  from assms(2,4) obtain m s where m: "lease_change L fs io repo file now (Open_Lease i provider model purpose artifacts) F = Inr (Some m, res)"
      "ll_to_string_pretty L m = Inr s" "F' = F(under_root repo file \<mapsto> s @ [10])"
    by (auto simp: run_lease_def atomic_write_registry_def and_then_def lease_change_def Let_def
        split: sum.splits prod.splits option.splits if_splits)
  from m(1) obtain t m0 ls where l: "load_registry_for_mutation L fs io repo file True F = Inr m0" "ensure_provider provider = Inr ()"
      "ensure_non_empty (lit ''lease-id'') i = Inr ()" "validate_expected_artifacts fs repo artifacts = Inr ()" "leases_of m0 = Some ls"
      "m = with_leases m0 (ls @ [new_lease i provider model purpose artifacts (ll_fmt_time L t)])"
    by (auto simp: lease_change_def and_then_Inr split: option.splits if_splits)
  from load_registry_Inr [OF l(1)] assms(3) obtain ls0 where s: "validate_manifest_shape m0 = Some ls0" "m0 = empty_manifest" by auto
  have "ls = []" using l(5) s(2) by (simp add: leases_of_def empty_manifest_def lease_get_def bt_of_def lit_def)
  moreover have "i \<noteq> []" using l(3) by (auto simp: ensure_non_empty_def split: if_splits)
  moreover note n = new_lease_ok [OF l(2) this l(4), of model purpose "ll_fmt_time L t"]
  ultimately have "validate_manifest_shape m = Some [new_lease i provider model purpose artifacts (ll_fmt_time L t)]"
    using shape_with_leases [OF s(1)] l(6) by simp
  then have "registry_at L F' (under_root repo file) = Some [new_lease i provider model purpose artifacts (ll_fmt_time L t)]"
    using m(2,3) assms(1) by (simp add: registry_at_def)
  then show ?thesis using n(2) m(3) by auto
qed

end
