(* ===== verification/Harness_Types.thy ===== *)
theory Harness_Types
  imports Lease_Registry "HOL-Library.Word"
begin

text \<open>
  The domain types of the agent harness (\<^verbatim>\<open>harness-rust/crates/shared/src/types.rs\<close>) with their JSON forms, and the
  checks of identifiers (\<^verbatim>\<open>shared/src/validation.rs\<close>).

  Encoders and decoders are what the derived serializers do: a structure is read from an object by field
  names (unknown fields are ignored, a missing optional field is absent) or from an array by positions, and
  a plain variant from its name or from an object that maps the name to null. The contract of such a pair
  is the locale \<open>serde_pair\<close>.
\<close>

section \<open>Decoders and encoders\<close>

definition struct_of :: "ustr list \<Rightarrow> json \<Rightarrow> (ustr \<Rightarrow> json option) option" where
  "struct_of names v =
     (case v of
        JObj fs \<Rightarrow> Some (map_of fs)
      | JArr vs \<Rightarrow> if length vs = length names then Some (map_of (zip names vs)) else None
      | _ \<Rightarrow> None)"

definition req :: "(json \<Rightarrow> 'a option) \<Rightarrow> json option \<Rightarrow> 'a option" where
  "req dec f = Option.bind f dec"

definition opt :: "(json \<Rightarrow> 'a option) \<Rightarrow> json option \<Rightarrow> 'a option option" where
  "opt dec f = (case f of None \<Rightarrow> Some None | Some v \<Rightarrow> if v = JNull then Some None else map_option Some (dec v))"

definition str_of :: "json \<Rightarrow> ustr option" where
  "str_of v = (case v of JStr s \<Rightarrow> Some s | _ \<Rightarrow> None)"

definition u32_of :: "json \<Rightarrow> 32 word option" where
  "u32_of v = (case v of JNumber (PosInt n) \<Rightarrow> if n < 2 ^ 32 then Some (of_nat n) else None | _ \<Rightarrow> None)"

definition u64_of :: "json \<Rightarrow> 64 word option" where
  "u64_of v = (case v of JNumber (PosInt n) \<Rightarrow> if n < 2 ^ 64 then Some (of_nat n) else None | _ \<Rightarrow> None)"

definition vec_of :: "(json \<Rightarrow> 'a option) \<Rightarrow> json \<Rightarrow> 'a list option" where
  "vec_of dec v = (case v of JArr vs \<Rightarrow> those (map dec vs) | _ \<Rightarrow> None)"

definition variant_of :: "(ustr \<times> 'a) list \<Rightarrow> json \<Rightarrow> 'a option" where
  "variant_of table v =
     (case v of
        JStr s \<Rightarrow> map_of table s
      | JObj fs \<Rightarrow> (case fs of [(k, w)] \<Rightarrow> if w = JNull then map_of table k else None | _ \<Rightarrow> None)
      | _ \<Rightarrow> None)"

definition num_value :: "'a::len word \<Rightarrow> json" where
  "num_value n = JNumber (PosInt (unat n))"

definition option_value :: "('a \<Rightarrow> json) \<Rightarrow> 'a option \<Rightarrow> json" where
  "option_value enc x = (case x of None \<Rightarrow> JNull | Some y \<Rightarrow> enc y)"

definition skip_none :: "ustr \<Rightarrow> ('a \<Rightarrow> json) \<Rightarrow> 'a option \<Rightarrow> (ustr \<times> json) list" where
  "skip_none k enc x = (case x of None \<Rightarrow> [] | Some y \<Rightarrow> [(k, enc y)])"

definition vec_value :: "('a \<Rightarrow> json) \<Rightarrow> 'a list \<Rightarrow> json" where
  "vec_value enc xs = JArr (map enc xs)"

definition struct_value :: "(ustr \<times> json) list \<Rightarrow> json" where
  "struct_value fs = JObj (bt_of fs)"

section \<open>Enumerations\<close>

datatype TaskStatus = TS_Pending | TS_Running | TS_Completed | TS_Error | TS_Interrupted | TS_Recovered

fun show_task_status :: "TaskStatus \<Rightarrow> ustr" where
  "show_task_status TS_Pending = lit ''pending''"
| "show_task_status TS_Running = lit ''running''"
| "show_task_status TS_Completed = lit ''completed''"
| "show_task_status TS_Error = lit ''error''"
| "show_task_status TS_Interrupted = lit ''interrupted''"
| "show_task_status TS_Recovered = lit ''recovered''"

definition task_statuses :: "(ustr \<times> TaskStatus) list" where
  "task_statuses = map (\<lambda>s. (show_task_status s, s)) [TS_Pending, TS_Running, TS_Completed, TS_Error, TS_Interrupted, TS_Recovered]"

datatype PhaseStatus = PS_Pending | PS_Running | PS_Review | PS_Fixing | PS_Completed | PS_Failed | PS_Timeout | PS_Escalated

fun show_phase_status :: "PhaseStatus \<Rightarrow> ustr" where
  "show_phase_status PS_Pending = lit ''pending''"
| "show_phase_status PS_Running = lit ''running''"
| "show_phase_status PS_Review = lit ''review''"
| "show_phase_status PS_Fixing = lit ''fixing''"
| "show_phase_status PS_Completed = lit ''completed''"
| "show_phase_status PS_Failed = lit ''failed''"
| "show_phase_status PS_Timeout = lit ''timeout''"
| "show_phase_status PS_Escalated = lit ''escalated''"

definition phase_statuses :: "(ustr \<times> PhaseStatus) list" where
  "phase_statuses = map (\<lambda>s. (show_phase_status s, s))
     [PS_Pending, PS_Running, PS_Review, PS_Fixing, PS_Completed, PS_Failed, PS_Timeout, PS_Escalated]"

definition phase_status_from_str :: "ustr \<Rightarrow> ustr + PhaseStatus" where
  "phase_status_from_str s = (case map_of phase_statuses s of Some p \<Rightarrow> Inr p | None \<Rightarrow> Inl (lit ''unknown phase status: '' @ s))"

datatype CoderEngine = CE_Codex | CE_Claude

fun show_coder_engine :: "CoderEngine \<Rightarrow> ustr" where
  "show_coder_engine CE_Codex = lit ''codex''"
| "show_coder_engine CE_Claude = lit ''claude''"

definition coder_engines :: "(ustr \<times> CoderEngine) list" where
  "coder_engines = map (\<lambda>e. (show_coder_engine e, e)) [CE_Codex, CE_Claude]"

definition coder_engine_from_str :: "ustr \<Rightarrow> ustr + CoderEngine" where
  "coder_engine_from_str s =
     (case map_of coder_engines s of
        Some e \<Rightarrow> Inr e
      | None \<Rightarrow> Inl (lit ''unsupported coder engine: '' @ s @ lit '' (allowed: codex|claude)''))"

datatype QualityGateLevel = QL_A | QL_B | QL_C

fun show_gate_level :: "QualityGateLevel \<Rightarrow> ustr" where
  "show_gate_level QL_A = lit ''level_a''"
| "show_gate_level QL_B = lit ''level_b''"
| "show_gate_level QL_C = lit ''level_c''"

definition gate_levels :: "(ustr \<times> QualityGateLevel) list" where
  "gate_levels = map (\<lambda>l. (show_gate_level l, l)) [QL_A, QL_B, QL_C]"

datatype QualityGateStatus = QS_Pending | QS_Passed | QS_Failed

fun show_gate_status :: "QualityGateStatus \<Rightarrow> ustr" where
  "show_gate_status QS_Pending = lit ''pending''"
| "show_gate_status QS_Passed = lit ''passed''"
| "show_gate_status QS_Failed = lit ''failed''"

definition gate_statuses :: "(ustr \<times> QualityGateStatus) list" where
  "gate_statuses = map (\<lambda>s. (show_gate_status s, s)) [QS_Pending, QS_Passed, QS_Failed]"

section \<open>The state\<close>

record Task =
  task_id :: ustr
  task_name :: ustr
  task_plan_path :: ustr
  task_contract_id :: "ustr option"
  task_contract_path :: "ustr option"

record Assignments =
  as_coder_engine :: "CoderEngine option"

record CoderInfo =
  ci_session_id :: "ustr option"
  ci_output_file :: "ustr option"

record Phase =
  ph_name :: ustr
  ph_status :: PhaseStatus
  ph_iteration :: "32 word"
  ph_max_iterations :: "32 word"
  ph_coder :: "CoderInfo option"
  ph_started_at :: "ustr option"
  ph_completed_at :: "ustr option"

record QualityGate =
  qg_level :: "QualityGateLevel option"
  qg_status :: QualityGateStatus

record CoderSession =
  cs_session_id :: ustr
  cs_phase :: "ustr option"
  cs_iteration :: "32 word option"
  cs_engine :: "CoderEngine option"
  cs_parent_session_id :: "ustr option"
  cs_created_at :: "ustr option"

record Sessions =
  ss_coder_sessions :: "CoderSession list"

record Timeouts =
  to_codex_secs :: "64 word"
  to_claude_secs :: "64 word"

record StateError =
  se_code :: ustr
  se_message :: ustr
  se_phase :: "ustr option"
  se_timestamp :: "ustr option"

record State =
  st_version :: ustr
  st_task :: Task
  st_status :: TaskStatus
  st_current_phase :: "ustr option"
  st_assignments :: Assignments
  st_phases :: "Phase list"
  st_quality_gate :: QualityGate
  st_sessions :: Sessions
  st_timeouts :: Timeouts
  st_created_at :: ustr
  st_updated_at :: ustr
  st_error :: "StateError option"

section \<open>JSON forms\<close>

definition task_value :: "Task \<Rightarrow> json" where
  "task_value t = struct_value
     [(lit ''id'', JStr (task_id t)), (lit ''name'', JStr (task_name t)), (lit ''plan_path'', JStr (task_plan_path t)),
      (lit ''contract_id'', option_value JStr (task_contract_id t)), (lit ''contract_path'', option_value JStr (task_contract_path t))]"

definition task_of :: "json \<Rightarrow> Task option" where
  "task_of v =
     Option.bind (struct_of [lit ''id'', lit ''name'', lit ''plan_path'', lit ''contract_id'', lit ''contract_path''] v) (\<lambda>g.
     Option.bind (req str_of (g (lit ''id''))) (\<lambda>i.
     Option.bind (req str_of (g (lit ''name''))) (\<lambda>n.
     Option.bind (req str_of (g (lit ''plan_path''))) (\<lambda>p.
     Option.bind (opt str_of (g (lit ''contract_id''))) (\<lambda>ci.
     Option.bind (opt str_of (g (lit ''contract_path''))) (\<lambda>cp.
       Some \<lparr>task_id = i, task_name = n, task_plan_path = p, task_contract_id = ci, task_contract_path = cp\<rparr>))))))"

definition engine_value :: "CoderEngine \<Rightarrow> json" where
  "engine_value e = JStr (show_coder_engine e)"

definition assignments_value :: "Assignments \<Rightarrow> json" where
  "assignments_value a = struct_value (skip_none (lit ''coder_engine'') engine_value (as_coder_engine a))"

definition assignments_of :: "json \<Rightarrow> Assignments option" where
  "assignments_of v =
     Option.bind (struct_of [lit ''coder_engine''] v) (\<lambda>g.
     Option.bind (opt (variant_of coder_engines) (g (lit ''coder_engine''))) (\<lambda>e. Some \<lparr>as_coder_engine = e\<rparr>))"

definition coder_info_value :: "CoderInfo \<Rightarrow> json" where
  "coder_info_value c = struct_value
     [(lit ''session_id'', option_value JStr (ci_session_id c)), (lit ''output_file'', option_value JStr (ci_output_file c))]"

definition coder_info_of :: "json \<Rightarrow> CoderInfo option" where
  "coder_info_of v =
     Option.bind (struct_of [lit ''session_id'', lit ''output_file''] v) (\<lambda>g.
     Option.bind (opt str_of (g (lit ''session_id''))) (\<lambda>i.
     Option.bind (opt str_of (g (lit ''output_file''))) (\<lambda>f.
       Some \<lparr>ci_session_id = i, ci_output_file = f\<rparr>)))"

definition phase_value :: "Phase \<Rightarrow> json" where
  "phase_value p = struct_value
     [(lit ''name'', JStr (ph_name p)), (lit ''status'', JStr (show_phase_status (ph_status p))),
      (lit ''iteration'', num_value (ph_iteration p)), (lit ''max_iterations'', num_value (ph_max_iterations p)),
      (lit ''coder'', option_value coder_info_value (ph_coder p)), (lit ''started_at'', option_value JStr (ph_started_at p)),
      (lit ''completed_at'', option_value JStr (ph_completed_at p))]"

definition phase_of :: "json \<Rightarrow> Phase option" where
  "phase_of v =
     Option.bind (struct_of [lit ''name'', lit ''status'', lit ''iteration'', lit ''max_iterations'', lit ''coder'',
       lit ''started_at'', lit ''completed_at''] v) (\<lambda>g.
     Option.bind (req str_of (g (lit ''name''))) (\<lambda>n.
     Option.bind (req (variant_of phase_statuses) (g (lit ''status''))) (\<lambda>s.
     Option.bind (req u32_of (g (lit ''iteration''))) (\<lambda>i.
     Option.bind (req u32_of (g (lit ''max_iterations''))) (\<lambda>m.
     Option.bind (opt coder_info_of (g (lit ''coder''))) (\<lambda>c.
     Option.bind (opt str_of (g (lit ''started_at''))) (\<lambda>a.
     Option.bind (opt str_of (g (lit ''completed_at''))) (\<lambda>z.
       Some \<lparr>ph_name = n, ph_status = s, ph_iteration = i, ph_max_iterations = m, ph_coder = c,
         ph_started_at = a, ph_completed_at = z\<rparr>))))))))"

definition gate_value :: "QualityGate \<Rightarrow> json" where
  "gate_value q = struct_value
     [(lit ''level'', option_value (\<lambda>l. JStr (show_gate_level l)) (qg_level q)), (lit ''status'', JStr (show_gate_status (qg_status q)))]"

definition gate_of :: "json \<Rightarrow> QualityGate option" where
  "gate_of v =
     Option.bind (struct_of [lit ''level'', lit ''status''] v) (\<lambda>g.
     Option.bind (opt (variant_of gate_levels) (g (lit ''level''))) (\<lambda>l.
     Option.bind (req (variant_of gate_statuses) (g (lit ''status''))) (\<lambda>s. Some \<lparr>qg_level = l, qg_status = s\<rparr>)))"

definition session_value :: "CoderSession \<Rightarrow> json" where
  "session_value s = struct_value
     ([(lit ''session_id'', JStr (cs_session_id s)), (lit ''phase'', option_value JStr (cs_phase s)),
       (lit ''iteration'', option_value num_value (cs_iteration s))] @
      skip_none (lit ''engine'') engine_value (cs_engine s) @
      skip_none (lit ''parent_session_id'') JStr (cs_parent_session_id s) @
      [(lit ''created_at'', option_value JStr (cs_created_at s))])"

definition session_of :: "json \<Rightarrow> CoderSession option" where
  "session_of v =
     Option.bind (struct_of [lit ''session_id'', lit ''phase'', lit ''iteration'', lit ''engine'', lit ''parent_session_id'',
       lit ''created_at''] v) (\<lambda>g.
     Option.bind (req str_of (g (lit ''session_id''))) (\<lambda>i.
     Option.bind (opt str_of (g (lit ''phase''))) (\<lambda>p.
     Option.bind (opt u32_of (g (lit ''iteration''))) (\<lambda>n.
     Option.bind (opt (variant_of coder_engines) (g (lit ''engine''))) (\<lambda>e.
     Option.bind (opt str_of (g (lit ''parent_session_id''))) (\<lambda>q.
     Option.bind (opt str_of (g (lit ''created_at''))) (\<lambda>c.
       Some \<lparr>cs_session_id = i, cs_phase = p, cs_iteration = n, cs_engine = e, cs_parent_session_id = q, cs_created_at = c\<rparr>)))))))"

definition sessions_value :: "Sessions \<Rightarrow> json" where
  "sessions_value s = struct_value [(lit ''coder_sessions'', vec_value session_value (ss_coder_sessions s))]"

definition sessions_of :: "json \<Rightarrow> Sessions option" where
  "sessions_of v =
     Option.bind (struct_of [lit ''coder_sessions''] v) (\<lambda>g.
     Option.bind (req (vec_of session_of) (g (lit ''coder_sessions''))) (\<lambda>ss. Some \<lparr>ss_coder_sessions = ss\<rparr>))"

definition timeouts_value :: "Timeouts \<Rightarrow> json" where
  "timeouts_value t = struct_value [(lit ''codex_secs'', num_value (to_codex_secs t)), (lit ''claude_secs'', num_value (to_claude_secs t))]"

definition timeouts_of :: "json \<Rightarrow> Timeouts option" where
  "timeouts_of v =
     Option.bind (struct_of [lit ''codex_secs'', lit ''claude_secs''] v) (\<lambda>g.
     Option.bind (req u64_of (g (lit ''codex_secs''))) (\<lambda>a.
     Option.bind (req u64_of (g (lit ''claude_secs''))) (\<lambda>b. Some \<lparr>to_codex_secs = a, to_claude_secs = b\<rparr>)))"

definition error_value :: "StateError \<Rightarrow> json" where
  "error_value e = struct_value
     ([(lit ''code'', JStr (se_code e)), (lit ''message'', JStr (se_message e))] @ skip_none (lit ''phase'') JStr (se_phase e) @
      [(lit ''timestamp'', option_value JStr (se_timestamp e))])"

definition error_of :: "json \<Rightarrow> StateError option" where
  "error_of v =
     Option.bind (struct_of [lit ''code'', lit ''message'', lit ''phase'', lit ''timestamp''] v) (\<lambda>g.
     Option.bind (req str_of (g (lit ''code''))) (\<lambda>c.
     Option.bind (req str_of (g (lit ''message''))) (\<lambda>m.
     Option.bind (opt str_of (g (lit ''phase''))) (\<lambda>p.
     Option.bind (opt str_of (g (lit ''timestamp''))) (\<lambda>t.
       Some \<lparr>se_code = c, se_message = m, se_phase = p, se_timestamp = t\<rparr>)))))"

definition STATE_FIELDS :: "ustr list" where
  "STATE_FIELDS = [lit ''version'', lit ''task'', lit ''status'', lit ''current_phase'', lit ''assignments'', lit ''phases'',
     lit ''quality_gate'', lit ''sessions'', lit ''timeouts'', lit ''created_at'', lit ''updated_at'', lit ''error'']"

definition state_fields :: "State \<Rightarrow> (ustr \<times> json) list" where
  "state_fields s =
     [(lit ''version'', JStr (st_version s)), (lit ''task'', task_value (st_task s)),
      (lit ''status'', JStr (show_task_status (st_status s))), (lit ''current_phase'', option_value JStr (st_current_phase s)),
      (lit ''assignments'', assignments_value (st_assignments s)), (lit ''phases'', vec_value phase_value (st_phases s)),
      (lit ''quality_gate'', gate_value (st_quality_gate s)), (lit ''sessions'', sessions_value (st_sessions s)),
      (lit ''timeouts'', timeouts_value (st_timeouts s)), (lit ''created_at'', JStr (st_created_at s)),
      (lit ''updated_at'', JStr (st_updated_at s)), (lit ''error'', option_value error_value (st_error s))]"

definition state_value :: "State \<Rightarrow> json" where
  "state_value s = struct_value (state_fields s)"

definition state_of :: "json \<Rightarrow> State option" where
  "state_of v =
     Option.bind (struct_of STATE_FIELDS v) (\<lambda>g.
     Option.bind (req str_of (g (lit ''version''))) (\<lambda>ver.
     Option.bind (req task_of (g (lit ''task''))) (\<lambda>tsk.
     Option.bind (req (variant_of task_statuses) (g (lit ''status''))) (\<lambda>stat.
     Option.bind (opt str_of (g (lit ''current_phase''))) (\<lambda>cur.
     Option.bind (req assignments_of (g (lit ''assignments''))) (\<lambda>asg.
     Option.bind (req (vec_of phase_of) (g (lit ''phases''))) (\<lambda>phs.
     Option.bind (req gate_of (g (lit ''quality_gate''))) (\<lambda>gate.
     Option.bind (req sessions_of (g (lit ''sessions''))) (\<lambda>sess.
     Option.bind (req timeouts_of (g (lit ''timeouts''))) (\<lambda>tmo.
     Option.bind (req str_of (g (lit ''created_at''))) (\<lambda>cre.
     Option.bind (req str_of (g (lit ''updated_at''))) (\<lambda>upd.
     Option.bind (opt error_of (g (lit ''error''))) (\<lambda>err.
       Some \<lparr>st_version = ver, st_task = tsk, st_status = stat, st_current_phase = cur, st_assignments = asg,
         st_phases = phs, st_quality_gate = gate, st_sessions = sess, st_timeouts = tmo, st_created_at = cre,
         st_updated_at = upd, st_error = err\<rparr>)))))))))))))"

section \<open>Verdicts, roles and identifiers\<close>

datatype ReviewVerdict = RV_Lgtm | RV_Block | RV_RequestChanges | RV_NeedsVerification | RV_NeedsDiscussion

fun show_review_verdict :: "ReviewVerdict \<Rightarrow> ustr" where
  "show_review_verdict RV_Lgtm = lit ''LGTM''"
| "show_review_verdict RV_Block = lit ''BLOCK''"
| "show_review_verdict RV_RequestChanges = lit ''Request Changes''"
| "show_review_verdict RV_NeedsVerification = lit ''Needs verification''"
| "show_review_verdict RV_NeedsDiscussion = lit ''Needs Discussion''"

definition from_report_label :: "ustr \<Rightarrow> ReviewVerdict option" where
  "from_report_label label =
     map_of (map (\<lambda>v. (show_review_verdict v, v)) [RV_Lgtm, RV_Block, RV_RequestChanges, RV_NeedsVerification, RV_NeedsDiscussion])
       (trim label)"

definition is_lgtm :: "ReviewVerdict \<Rightarrow> bool" where
  "is_lgtm v \<longleftrightarrow> v = RV_Lgtm"

definition requires_fix_loop :: "ReviewVerdict \<Rightarrow> bool" where
  "requires_fix_loop v \<longleftrightarrow> v = RV_RequestChanges"

definition prevents_completion :: "ReviewVerdict \<Rightarrow> bool" where
  "prevents_completion v \<longleftrightarrow> \<not> is_lgtm v"

definition blocks_acceptance :: "ReviewVerdict \<Rightarrow> bool" where
  "blocks_acceptance v \<longleftrightarrow> v \<in> set [RV_Block, RV_NeedsVerification, RV_NeedsDiscussion]"

definition ident_start :: "uchar \<Rightarrow> bool" where
  "ident_start c \<longleftrightarrow> (97 \<le> c \<and> c \<le> 122) \<or> (65 \<le> c \<and> c \<le> 90) \<or> c = 95"

definition ident_char :: "uchar \<Rightarrow> bool" where
  "ident_char c \<longleftrightarrow> ident_start c \<or> is_digit c"

definition id_char :: "uchar \<Rightarrow> bool" where
  "id_char c \<longleftrightarrow> ident_char c \<or> c = 45"

definition validate_identifier :: "ustr \<Rightarrow> ustr \<Rightarrow> AgentError + unit" where
  "validate_identifier value name =
     (if value = [] then Inl (Agent_Validation (lit ''invalid '' @ name @ lit '': value must not be empty''))
      else if \<not> list_all (\<lambda>c. id_char c \<or> c = 46) value
      then Inl (Agent_Validation (lit ''invalid '' @ name @ lit '': '' @ value @ lit '' (allowed: alphanumeric, -, _, .)''))
      else Inr ())"

definition validate_session_id :: "ustr \<Rightarrow> AgentError + unit" where
  "validate_session_id i =
     (if i = [] then Inl (Agent_Validation (lit ''session ID must not be empty''))
      else if \<not> (8 \<le> blen i \<and> blen i \<le> 64)
      then Inl (Agent_Validation (lit ''session ID length '' @ digits_of (blen i) @ lit '' out of range 8..64''))
      else if \<not> list_all id_char i then Inl (Agent_Validation (lit ''session ID contains invalid characters: '' @ i))
      else Inr ())"

definition validate_project_id :: "ustr \<Rightarrow> AgentError + unit" where
  "validate_project_id i =
     (if i = [] then Inl (Agent_Validation (lit ''project ID must not be empty''))
      else if 64 < blen i
      then Inl (Agent_Validation (lit ''project ID too long: '' @ digits_of (blen i) @ lit '' chars (max 64)''))
      else if \<not> list_all id_char i
      then Inl (Agent_Validation (lit ''project ID contains invalid characters: '' @ i @ lit '' (allowed: [a-zA-Z0-9_-])''))
      else if i = lit ''agent_base'' then Inl (Agent_Validation (lit ''project ID 'agent_base' is reserved''))
      else Inr ())"

section \<open>Lemmas\<close>

text \<open>The contract of a serializer with its deserializer: what was written is read back, and is not null.\<close>

locale serde_pair =
  fixes enc :: "'a \<Rightarrow> json"
    and dec :: "json \<Rightarrow> 'a option"
  assumes dec_enc: "dec (enc x) = Some x"
    and enc_not_null: "enc x \<noteq> JNull"
begin

lemma req_enc: "req dec (Some (enc x)) = Some x"
  by (simp add: req_def dec_enc)

lemma opt_enc: "opt dec (Some (option_value enc y)) = Some y"
  by (cases y) (auto simp: opt_def option_value_def dec_enc enc_not_null)

lemma opt_skip: "opt dec (map_of (skip_none k enc y) k) = Some y"
  by (cases y) (auto simp: opt_def skip_none_def dec_enc enc_not_null)

lemma vec_enc: "vec_of dec (vec_value enc xs) = Some xs"
proof -
  have "those (map dec (map enc xs)) = Some xs" by (induction xs) (auto simp: dec_enc)
  then show ?thesis by (simp add: vec_of_def vec_value_def)
qed

end

lemma opt_missing [simp]: "opt dec None = Some None"
  by (simp add: opt_def)

lemma map_of_skip_none: "map_of (skip_none k enc y @ fs) j = (if j = k then (case y of None \<Rightarrow> map_of fs j | Some x \<Rightarrow> Some (enc x)) else map_of fs j)"
  by (auto simp: skip_none_def split: option.splits)

lemma fst_skip_none: "fst ` set (skip_none k enc y) = (if y = None then {} else {k})"
  by (auto simp: skip_none_def split: option.splits)

lemma distinct_skip_none: "distinct (map fst (skip_none k enc y))"
  by (auto simp: skip_none_def split: option.splits)

lemma struct_of_value: "distinct (map fst fs) \<Longrightarrow> struct_of names (struct_value fs) = Some (map_of fs)"
  by (simp add: struct_of_def struct_value_def bt_of_lookup)

lemma struct_not_null [simp]: "struct_value fs \<noteq> JNull"
  by (simp add: struct_value_def)

interpretation str_serde: serde_pair JStr str_of
  by unfold_locales (auto simp: str_of_def)

interpretation u32_serde: serde_pair "num_value :: 32 word \<Rightarrow> json" u32_of
proof
  fix x :: "32 word"
  have "unat x < 2 ^ LENGTH(32)" by (rule unsigned_less)
  then show "u32_of (num_value x) = Some x" by (simp add: u32_of_def num_value_def)
qed (simp add: num_value_def)

interpretation u64_serde: serde_pair "num_value :: 64 word \<Rightarrow> json" u64_of
proof
  fix x :: "64 word"
  have "unat x < 2 ^ LENGTH(64)" by (rule unsigned_less)
  then show "u64_of (num_value x) = Some x" by (simp add: u64_of_def num_value_def)
qed (simp add: num_value_def)

interpretation engine_serde: serde_pair engine_value "variant_of coder_engines"
proof
  show "variant_of coder_engines (engine_value x) = Some x" for x
    by (cases x) (simp_all add: variant_of_def engine_value_def coder_engines_def)
qed (simp add: engine_value_def)

interpretation task_status_serde: serde_pair "\<lambda>s. JStr (show_task_status s)" "variant_of task_statuses"
proof
  show "variant_of task_statuses (JStr (show_task_status x)) = Some x" for x
    by (cases x) (simp_all add: variant_of_def task_statuses_def)
qed simp

interpretation phase_status_serde: serde_pair "\<lambda>s. JStr (show_phase_status s)" "variant_of phase_statuses"
proof
  show "variant_of phase_statuses (JStr (show_phase_status x)) = Some x" for x
    by (cases x) (simp_all add: variant_of_def phase_statuses_def)
qed simp

interpretation level_serde: serde_pair "\<lambda>l. JStr (show_gate_level l)" "variant_of gate_levels"
proof
  show "variant_of gate_levels (JStr (show_gate_level x)) = Some x" for x
    by (cases x) (simp_all add: variant_of_def gate_levels_def)
qed simp

interpretation gate_status_serde: serde_pair "\<lambda>s. JStr (show_gate_status s)" "variant_of gate_statuses"
proof
  show "variant_of gate_statuses (JStr (show_gate_status x)) = Some x" for x
    by (cases x) (simp_all add: variant_of_def gate_statuses_def)
qed simp

interpretation task_serde: serde_pair task_value task_of
proof
  show "task_of (task_value x) = Some x" for x
    by (simp add: task_of_def task_value_def struct_of_value str_serde.req_enc str_serde.opt_enc)
qed (simp add: task_value_def)

interpretation assignments_serde: serde_pair assignments_value assignments_of
proof
  show "assignments_of (assignments_value x) = Some x" for x
    by (simp add: assignments_of_def assignments_value_def struct_of_value engine_serde.opt_skip distinct_skip_none)
qed (simp add: assignments_value_def)

interpretation coder_info_serde: serde_pair coder_info_value coder_info_of
proof
  show "coder_info_of (coder_info_value x) = Some x" for x
    by (simp add: coder_info_of_def coder_info_value_def struct_of_value str_serde.opt_enc)
qed (simp add: coder_info_value_def)

interpretation phase_serde: serde_pair phase_value phase_of
proof
  show "phase_of (phase_value x) = Some x" for x
    by (simp add: phase_of_def phase_value_def struct_of_value str_serde.req_enc str_serde.opt_enc phase_status_serde.req_enc u32_serde.req_enc coder_info_serde.opt_enc)
qed (simp add: phase_value_def)

interpretation gate_serde: serde_pair gate_value gate_of
proof
  show "gate_of (gate_value x) = Some x" for x
    by (simp add: gate_of_def gate_value_def struct_of_value level_serde.opt_enc gate_status_serde.req_enc)
qed (simp add: gate_value_def)

lemma session_fields:
  "struct_of names (session_value s) = Some (map_of
     [(lit ''session_id'', JStr (cs_session_id s)), (lit ''phase'', option_value JStr (cs_phase s)),
      (lit ''iteration'', option_value num_value (cs_iteration s)), (lit ''created_at'', option_value JStr (cs_created_at s))] ++
     map_of (skip_none (lit ''engine'') engine_value (cs_engine s)) ++
     map_of (skip_none (lit ''parent_session_id'') JStr (cs_parent_session_id s)))"
  by (auto simp: session_value_def struct_of_value skip_none_def fun_eq_iff map_add_def split: option.splits)

interpretation session_serde: serde_pair session_value session_of
proof
  show "session_of (session_value x) = Some x" for x
    by (cases "cs_engine x"; cases "cs_parent_session_id x")
      (simp_all add: session_of_def session_fields skip_none_def str_serde.req_enc str_serde.opt_enc u32_serde.opt_enc
        engine_serde.opt_enc [of "Some _", unfolded option_value_def, simplified]
        str_serde.opt_enc [of "Some _", unfolded option_value_def, simplified])
qed (simp add: session_value_def)

interpretation sessions_serde: serde_pair sessions_value sessions_of
proof
  show "sessions_of (sessions_value x) = Some x" for x
    by (simp add: sessions_of_def sessions_value_def struct_of_value req_def session_serde.vec_enc)
qed (simp add: sessions_value_def)

interpretation timeouts_serde: serde_pair timeouts_value timeouts_of
proof
  show "timeouts_of (timeouts_value x) = Some x" for x
    by (simp add: timeouts_of_def timeouts_value_def struct_of_value u64_serde.req_enc)
qed (simp add: timeouts_value_def)

interpretation error_serde: serde_pair error_value error_of
proof
  show "error_of (error_value x) = Some x" for x
    by (cases "se_phase x")
      (simp_all add: error_of_def error_value_def struct_of_value skip_none_def str_serde.req_enc str_serde.opt_enc
        str_serde.opt_enc [of "Some _", unfolded option_value_def, simplified])
qed (simp add: error_value_def)

lemma state_fields_distinct: "distinct (map fst (state_fields s))"
  by (simp add: state_fields_def)

interpretation state_serde: serde_pair state_value state_of
proof
  show "state_of (state_value x) = Some x" for x
    by (simp add: state_of_def state_value_def struct_of_value state_fields_distinct)
      (simp add: state_fields_def str_serde.req_enc str_serde.opt_enc task_serde.req_enc task_status_serde.req_enc
        assignments_serde.req_enc gate_serde.req_enc sessions_serde.req_enc timeouts_serde.req_enc error_serde.opt_enc
        req_def [of "vec_of _"] phase_serde.vec_enc)
qed (simp add: state_value_def)

text \<open>Every verdict is accepted, needs a fix or blocks acceptance, and its label names it.\<close>

lemma verdict_cases:
  "from_report_label (show_review_verdict v) = Some v \<and> prevents_completion v = (requires_fix_loop v \<or> blocks_acceptance v) \<and>
   \<not> (requires_fix_loop v \<and> blocks_acceptance v)"
proof (cases v)
qed (simp_all add: from_report_label_def prevents_completion_def requires_fix_loop_def blocks_acceptance_def is_lgtm_def, code_simp+)

end
