(* ===== verification/Json_Path.thy ===== *)
theory Json_Path
  imports Harness_Types
begin

text \<open>
  Paths into JSON trees and the removal of review data, from the state commands of the agent harness
  (\<^verbatim>\<open>harness-rust/crates/agent-core/src/cmd/state.rs\<close>) with the check of path texts in
  \<^verbatim>\<open>harness-rust/crates/shared/src/validation.rs\<close>. The regular expression of that check is fixed in the source and is
  written out as a scanner; \<open>jq_path_exact\<close> relates it to the texts the expression describes.
\<close>

section \<open>Definitions\<close>

subsection \<open>Path texts\<close>

function (sequential) jq_segments :: "ustr \<Rightarrow> bool" where
  "jq_segments [] = True"
| "jq_segments (c # cs) =
     (if c = 46 then (case cs of [] \<Rightarrow> False | d # ds \<Rightarrow> ident_start d \<and> jq_segments (dropWhile ident_char ds))
      else if c = 91
      then (case dropWhile is_digit cs of [] \<Rightarrow> False | e # es \<Rightarrow> takeWhile is_digit cs \<noteq> [] \<and> e = 93 \<and> jq_segments es)
      else False)"
  by pat_completeness auto
termination
proof (relation "measure length")
  fix c d :: uchar and cs ds
  assume "cs = d # ds"
  then show "(dropWhile ident_char ds, c # cs) \<in> measure length" using length_dropWhile_le [of ident_char ds] by simp
next
  fix c e :: uchar and cs es
  assume "dropWhile is_digit cs = e # es"
  then show "(es, c # cs) \<in> measure length" using length_dropWhile_le [of is_digit cs] by simp
qed simp

definition validate_jq_path :: "ustr \<Rightarrow> AgentError + unit" where
  "validate_jq_path path =
     (if path = [] \<or> \<not> jq_segments path
      then Inl (Agent_Validation (lit ''invalid jq path: '' @ path @ lit '' (allowed: .identifier, [index], combinations)''))
      else Inr ())"

datatype PathSegment = Key ustr | Index nat

definition index_segment :: "ustr \<Rightarrow> PathSegment option" where
  "index_segment num = (case parse_unsigned u64_max num of Inr i \<Rightarrow> Some (Index i) | Inl _ \<Rightarrow> None)"

function (sequential) parse_path :: "ustr \<Rightarrow> PathSegment list" where
  "parse_path [] = []"
| "parse_path (c # cs) =
     (if c = 46 then
        let key = takeWhile (\<lambda>x. x \<noteq> 46 \<and> x \<noteq> 91) cs in
        (if key = [] then [] else [Key key]) @ parse_path (dropWhile (\<lambda>x. x \<noteq> 46 \<and> x \<noteq> 91) cs)
      else if c = 91 then
        (case index_segment (takeWhile (\<lambda>x. x \<noteq> 93) cs) of Some i \<Rightarrow> [i] | None \<Rightarrow> []) @
        parse_path (drop 1 (dropWhile (\<lambda>x. x \<noteq> 93) cs))
      else parse_path cs)"
  by pat_completeness auto
termination
proof (relation "measure length")
  fix c :: uchar and cs
  show "(dropWhile (\<lambda>x. x \<noteq> 46 \<and> x \<noteq> 91) cs, c # cs) \<in> measure length"
    using length_dropWhile_le [of "\<lambda>x. x \<noteq> 46 \<and> x \<noteq> 91" cs] by simp
  show "(drop 1 (dropWhile (\<lambda>x. x \<noteq> 93) cs), c # cs) \<in> measure length"
    using length_dropWhile_le [of "\<lambda>x. x \<noteq> 93" cs] by simp
qed simp_all

subsection \<open>Reading and writing\<close>

definition get_key :: "json \<Rightarrow> ustr \<Rightarrow> json" where
  "get_key v k = (case v of JObj fs \<Rightarrow> (case map_of fs k of Some w \<Rightarrow> w | None \<Rightarrow> JNull) | _ \<Rightarrow> JNull)"

definition get_index :: "json \<Rightarrow> nat \<Rightarrow> json" where
  "get_index v i = (case v of JArr vs \<Rightarrow> if i < length vs then vs ! i else JNull | _ \<Rightarrow> JNull)"

fun resolve_segs :: "PathSegment list \<Rightarrow> json \<Rightarrow> json" where
  "resolve_segs [] v = v"
| "resolve_segs (Key k # segs) v = (if get_key v k = JNull then JNull else resolve_segs segs (get_key v k))"
| "resolve_segs (Index i # segs) v = (if get_index v i = JNull then JNull else resolve_segs segs (get_index v i))"

definition resolve_path :: "json \<Rightarrow> ustr \<Rightarrow> json" where
  "resolve_path tree path = resolve_segs (parse_path path) tree"

definition object_fields :: "json \<Rightarrow> (ustr \<times> json) list" where
  "object_fields v = (case v of JObj fs \<Rightarrow> fs | _ \<Rightarrow> [])"

definition entry_or :: "json \<Rightarrow> (ustr \<times> json) list \<Rightarrow> ustr \<Rightarrow> json" where
  "entry_or d fs k = (case map_of fs k of Some w \<Rightarrow> w | None \<Rightarrow> d)"

text \<open>The texts of trees in messages come from the serializer \<open>show\<close>.\<close>

fun set_path_segs :: "(json \<Rightarrow> ustr) \<Rightarrow> PathSegment list \<Rightarrow> json \<Rightarrow> json \<Rightarrow> AgentError + json" where
  "set_path_segs show_json [] v cur = Inl (Agent_Validation (lit ''empty path''))"
| "set_path_segs show_json [Key k] v cur = Inr (JObj (bt_insert k v (object_fields cur)))"
| "set_path_segs show_json [Index i] v cur =
     (case cur of
        JArr vs \<Rightarrow>
          if i < length vs then Inr (JArr (vs[i := v]))
          else Inl (Agent_State (lit ''array index '' @ digits_of i @ lit '' out of bounds (len='' @ digits_of (length vs) @ lit '')''))
      | _ \<Rightarrow> Inl (Agent_State (lit ''expected array for index '' @ digits_of i)))"
| "set_path_segs show_json (Key k # seg # segs) v cur =
     (let fs = object_fields cur in
      and_then (set_path_segs show_json (seg # segs) v (entry_or JNull fs k)) (\<lambda>w. Inr (JObj (bt_insert k w fs))))"
| "set_path_segs show_json (Index i # seg # segs) v cur =
     (case cur of
        JArr vs \<Rightarrow>
          if i < length vs
          then and_then (set_path_segs show_json (seg # segs) v (vs ! i)) (\<lambda>w. Inr (JArr (vs[i := w])))
          else Inl (Agent_State (lit ''array index '' @ digits_of i @ lit '' out of bounds''))
      | _ \<Rightarrow> Inl (Agent_State (lit ''expected array at index '' @ digits_of i @ lit '', found '' @ show_json cur)))"

definition set_at_path :: "(json \<Rightarrow> ustr) \<Rightarrow> json \<Rightarrow> ustr \<Rightarrow> json \<Rightarrow> AgentError + json" where
  "set_at_path show_json tree path v = set_path_segs show_json (parse_path path) v tree"

fun append_segs :: "(json \<Rightarrow> ustr) \<Rightarrow> ustr \<Rightarrow> PathSegment list \<Rightarrow> json \<Rightarrow> json \<Rightarrow> AgentError + json" where
  "append_segs show_json path [] v cur =
     (case cur of
        JArr vs \<Rightarrow> Inr (JArr (vs @ [v]))
      | _ \<Rightarrow> Inl (Agent_State (lit ''expected array at path '' @ path @ lit '', found '' @ show_json cur)))"
| "append_segs show_json path (Key k # segs) v cur =
     (let fs = object_fields cur in
      and_then (append_segs show_json path segs v (entry_or (JArr []) fs k)) (\<lambda>w. Inr (JObj (bt_insert k w fs))))"
| "append_segs show_json path (Index i # segs) v cur =
     (case cur of
        JArr vs \<Rightarrow>
          if i < length vs then and_then (append_segs show_json path segs v (vs ! i)) (\<lambda>w. Inr (JArr (vs[i := w])))
          else Inl (Agent_State (lit ''index '' @ digits_of i @ lit '' out of bounds''))
      | _ \<Rightarrow> Inl (Agent_State (lit ''index '' @ digits_of i @ lit '' out of bounds'')))"

definition append_at_path :: "(json \<Rightarrow> ustr) \<Rightarrow> json \<Rightarrow> ustr \<Rightarrow> json \<Rightarrow> AgentError + json" where
  "append_at_path show_json tree path v =
     (if parse_path path = [] then Inl (Agent_Validation (lit ''empty path''))
      else append_segs show_json path (parse_path path) v tree)"

subsection \<open>Removal of review data\<close>

definition SCRUB_KEYS :: "ustr list" where
  "SCRUB_KEYS = map lit
     [''reviews'', ''fixes'', ''review'', ''reviewers'', ''reviewer'', ''review_file'', ''review_files'', ''review_output'',
      ''review_outputs'', ''reviewer_output'', ''reviewer_outputs'', ''review_session'', ''review_sessions'',
      ''reviewer_session'', ''reviewer_sessions'', ''review_trace'', ''reviewer_trace'', ''review_payload'',
      ''reviewer_payload'', ''session_id'', ''session_ids'', ''parent_session_id'', ''last_session_id'',
      ''last_reviewer_session_id'']"

function (sequential) scrub_value :: "json \<Rightarrow> json"
  and scrub_list :: "json list \<Rightarrow> json list"
  and scrub_fields :: "(ustr \<times> json) list \<Rightarrow> (ustr \<times> json) list" where
  "scrub_value (JObj fs) = JObj (scrub_fields fs)"
| "scrub_value (JArr vs) = JArr (scrub_list vs)"
| "scrub_value v = v"
| "scrub_list [] = []"
| "scrub_list (v # vs) = scrub_value v # scrub_list vs"
| "scrub_fields [] = []"
| "scrub_fields ((k, v) # fs) = (if k \<in> set SCRUB_KEYS then scrub_fields fs else (k, scrub_value v) # scrub_fields fs)"
  by pat_completeness auto
termination
  by (relation "measure json_measure") auto

section \<open>Path texts\<close>

text \<open>The texts the expression describes: names behind a dot and digits in brackets.\<close>

datatype raw_segment = Raw_Key ustr | Raw_Index ustr

fun raw_ok :: "raw_segment \<Rightarrow> bool" where
  "raw_ok (Raw_Key k) = (\<exists>d ds. k = d # ds \<and> ident_start d \<and> list_all ident_char ds)"
| "raw_ok (Raw_Index ds) = (ds \<noteq> [] \<and> list_all is_digit ds)"

fun raw_text :: "raw_segment \<Rightarrow> ustr" where
  "raw_text (Raw_Key k) = 46 # k"
| "raw_text (Raw_Index ds) = 91 # ds @ [93]"

fun raw_meaning :: "raw_segment \<Rightarrow> PathSegment option" where
  "raw_meaning (Raw_Key k) = Some (Key k)"
| "raw_meaning (Raw_Index ds) = index_segment ds"

lemma ident_char_plain: "ident_char c \<Longrightarrow> c \<noteq> 46 \<and> c \<noteq> 91"
  by (auto simp: ident_char_def ident_start_def is_digit_def)

lemma ident_start_char: "ident_start c \<Longrightarrow> ident_char c"
  by (simp add: ident_char_def)

lemma digit_plain: "is_digit c \<Longrightarrow> c \<noteq> 93"
  by (auto simp: is_digit_def)

lemma takeWhile_all_append: "list_all P xs \<Longrightarrow> ys = [] \<or> \<not> P (hd ys) \<Longrightarrow> takeWhile P (xs @ ys) = xs \<and> dropWhile P (xs @ ys) = ys"
  by (induction xs) (cases ys; auto)+

lemma raw_texts_head: "concat (map raw_text raws) = [] \<or> hd (concat (map raw_text raws)) \<in> {46, 91}"
proof (cases raws)
  case (Cons r rs)
  then show ?thesis by (cases r) auto
qed simp

lemma jq_segments_raw: "list_all raw_ok raws \<Longrightarrow> jq_segments (concat (map raw_text raws))"
proof (induction raws)
  case (Cons r rs)
  let ?rest = "concat (map raw_text rs)"
  have rest: "jq_segments ?rest" using Cons by simp
  show ?case
  proof (cases r)
    case (Raw_Key k)
    with Cons obtain d ds where k: "k = d # ds" "ident_start d" "list_all ident_char ds" by auto
    have "?rest = [] \<or> \<not> ident_char (hd ?rest)" using raw_texts_head [of rs] ident_char_plain by auto
    from takeWhile_all_append [OF k(3) this] rest show ?thesis using Raw_Key k by simp
  next
    case (Raw_Index ds)
    with Cons have ds: "ds \<noteq> []" "list_all is_digit ds" by auto
    have "\<not> is_digit 93" by (simp add: is_digit_def)
    then have "takeWhile is_digit (ds @ 93 # ?rest) = ds \<and> dropWhile is_digit (ds @ 93 # ?rest) = 93 # ?rest"
      using takeWhile_all_append [OF ds(2), of "93 # ?rest"] by simp
    with rest ds show ?thesis using Raw_Index by simp
  qed
qed simp

lemma jq_segments_split: "jq_segments s \<Longrightarrow> \<exists>raws. list_all raw_ok raws \<and> s = concat (map raw_text raws)"
proof (induction s rule: jq_segments.induct)
  case 1
  show ?case by (rule exI [of _ "[]"]) simp
next
  case (2 c cs)
  consider d ds where "c = 46" "cs = d # ds" "ident_start d" "jq_segments (dropWhile ident_char ds)"
    | es where "c = 91" "dropWhile is_digit cs = 93 # es" "takeWhile is_digit cs \<noteq> []" "jq_segments es"
    using 2(3) by (auto split: if_splits list.splits)
  then show ?case
  proof cases
    case a: 1
    with 2(1) obtain raws where r: "list_all raw_ok raws" "dropWhile ident_char ds = concat (map raw_text raws)" by auto
    have "c # cs = raw_text (Raw_Key (d # takeWhile ident_char ds)) @ concat (map raw_text raws)"
      using a r(2) takeWhile_dropWhile_id [of ident_char ds] by simp
    moreover have "list_all ident_char (takeWhile ident_char ds)" by (auto simp: list_all_iff dest: set_takeWhileD)
    ultimately show ?thesis using a r by (intro exI [of _ "Raw_Key (d # takeWhile ident_char ds) # raws"]) simp
  next
    case a: 2
    with 2(2) obtain raws where r: "list_all raw_ok raws" "es = concat (map raw_text raws)" by auto
    have "c # cs = raw_text (Raw_Index (takeWhile is_digit cs)) @ concat (map raw_text raws)"
      using a r(2) takeWhile_dropWhile_id [of is_digit cs] by simp
    moreover have "list_all is_digit (takeWhile is_digit cs)" by (auto simp: list_all_iff dest: set_takeWhileD)
    ultimately show ?thesis using a r by (intro exI [of _ "Raw_Index (takeWhile is_digit cs) # raws"]) simp
  qed
qed

lemma jq_path_exact: "validate_jq_path p = Inr () \<longleftrightarrow> (\<exists>raws. raws \<noteq> [] \<and> list_all raw_ok raws \<and> p = concat (map raw_text raws))"
proof -
  have ne: "raw_text r \<noteq> []" for r by (cases r) auto
  have "p \<noteq> [] \<longleftrightarrow> raws \<noteq> []" if "p = concat (map raw_text raws)" for raws
    using that ne by (cases raws) auto
  then show ?thesis using jq_segments_raw jq_segments_split [of p] by (fastforce simp: validate_jq_path_def)
qed

lemma parse_path_raw: "list_all raw_ok raws \<Longrightarrow> parse_path (concat (map raw_text raws)) = List.map_filter raw_meaning raws"
proof (induction raws)
  case (Cons r rs)
  let ?rest = "concat (map raw_text rs)" and ?P = "\<lambda>x::uchar. x \<noteq> 46 \<and> x \<noteq> 91"
  show ?case
  proof (cases r)
    case (Raw_Key k)
    with Cons obtain d ds where k: "k = d # ds" "ident_start d" "list_all ident_char ds" by auto
    have "list_all ?P k" using k ident_char_plain ident_start_char by (auto simp: list_all_iff)
    moreover have "?rest = [] \<or> \<not> ?P (hd ?rest)" using raw_texts_head [of rs] by auto
    ultimately show ?thesis using takeWhile_all_append [of ?P k ?rest] Cons Raw_Key k
      by (simp add: map_filter_simps)
  next
    case (Raw_Index ds)
    with Cons have "list_all (\<lambda>x. x \<noteq> 93) ds" using digit_plain by (auto simp: list_all_iff)
    from takeWhile_all_append [OF this, of "93 # ?rest"] show ?thesis using Cons Raw_Index
      by (simp add: map_filter_simps split: option.splits)
  qed
qed (simp add: map_filter_simps)

section \<open>Reading what was written\<close>

text \<open>Two paths part where they name different keys or different positions.\<close>

fun diverge :: "PathSegment list \<Rightarrow> PathSegment list \<Rightarrow> bool" where
  "diverge (Key k # ps) (Key j # qs) = (k \<noteq> j \<or> diverge ps qs)"
| "diverge (Index i # ps) (Index j # qs) = (i \<noteq> j \<or> diverge ps qs)"
| "diverge _ _ = False"

lemma get_key_insert: "get_key (JObj (bt_insert k w fs)) j = (if j = k then w else get_key (JObj fs) j)"
  by (simp add: get_key_def bt_insert_lookup)

lemma get_key_fields: "get_key (JObj (object_fields v)) k = get_key v k"
  by (cases v) (auto simp: get_key_def object_fields_def)

lemma entry_or_key: "entry_or JNull (object_fields v) k = get_key v k"
  by (cases v) (auto simp: get_key_def object_fields_def entry_or_def)

lemma seg_list_cases:
  obtains "segs = []" | k rest where "segs = Key k # rest" | i rest where "segs = Index i # rest"
proof (cases segs)
  case (Cons s rest)
  then show ?thesis using that by (cases s) auto
qed

lemma resolve_null: "resolve_segs segs JNull = JNull"
  by (cases rule: seg_list_cases [of segs]) (auto simp: get_key_def get_index_def)

lemma resolve_step:
  "resolve_segs (Key k # segs) v = resolve_segs segs (get_key v k)"
  "resolve_segs (Index i # segs) v = resolve_segs segs (get_index v i)"
  by (auto simp: resolve_null)

lemma set_path_get: "set_path_segs sj ps v cur = Inr cur' \<Longrightarrow> resolve_segs ps cur' = v"
proof (induction sj ps v cur arbitrary: cur' rule: set_path_segs.induct)
qed (auto simp: resolve_step get_key_insert get_index_def and_then_Inr Let_def simp del: resolve_segs.simps(2,3)
       split: json.splits if_splits)

lemma set_path_frame:
  "set_path_segs sj ps v cur = Inr cur' \<Longrightarrow> diverge ps qs \<Longrightarrow> resolve_segs qs cur' = resolve_segs qs cur"
proof (induction sj ps v cur arbitrary: cur' qs rule: set_path_segs.induct)
  case (2 sj k v cur)
  then show ?case by (cases rule: seg_list_cases [of qs]) (auto simp: resolve_step get_key_insert get_key_fields simp del: resolve_segs.simps(2,3))
next
  case (3 sj i v cur)
  then show ?case
    by (cases rule: seg_list_cases [of qs])
      (auto simp: resolve_step get_index_def simp del: resolve_segs.simps(2,3) split: json.splits if_splits)
next
  case (4 sj k seg segs v cur)
  then show ?case
    by (cases rule: seg_list_cases [of qs])
      (auto simp: resolve_step get_key_insert get_key_fields entry_or_key and_then_Inr Let_def simp del: resolve_segs.simps(2,3))
next
  case (5 sj i seg segs v cur)
  then show ?case
    by (cases rule: seg_list_cases [of qs])
      (auto simp: resolve_step get_index_def nth_list_update and_then_Inr simp del: resolve_segs.simps(2,3) split: json.splits if_splits)
qed simp

lemma append_path_get:
  "append_segs sj path ps v cur = Inr cur' \<Longrightarrow>
   \<exists>vs. resolve_segs ps cur' = JArr (vs @ [v]) \<and> (resolve_segs ps cur = JArr vs \<or> resolve_segs ps cur = JNull \<and> vs = [])"
proof (induction sj path ps v cur arbitrary: cur' rule: append_segs.induct)
  case (2 sj path k segs v cur)
  then obtain w where w: "append_segs sj path segs v (entry_or (JArr []) (object_fields cur) k) = Inr w"
      "cur' = JObj (bt_insert k w (object_fields cur))"
    by (auto simp: and_then_Inr Let_def)
  from 2(1) [OF refl w(1)] obtain vs where vs: "resolve_segs segs w = JArr (vs @ [v])"
      "resolve_segs segs (entry_or (JArr []) (object_fields cur) k) = JArr vs \<or>
       resolve_segs segs (entry_or (JArr []) (object_fields cur) k) = JNull \<and> vs = []" by blast
  have "resolve_segs segs (get_key cur k) = JArr vs \<or> resolve_segs segs (get_key cur k) = JNull \<and> vs = []"
  proof (cases "map_of (object_fields cur) k")
    case None
    then have "get_key cur k = JNull" by (simp add: entry_or_key [symmetric] entry_or_def)
    moreover have "vs = []" using vs(2) None
      by (cases rule: seg_list_cases [of segs]) (auto simp: entry_or_def get_key_def get_index_def)
    ultimately show ?thesis by (simp add: resolve_null)
  next
    case (Some x)
    then show ?thesis using vs(2) by (simp add: entry_or_key [symmetric] entry_or_def)
  qed
  then show ?case using vs(1) w(2) by (simp add: resolve_step get_key_insert del: resolve_segs.simps(2,3))
next
  case (3 sj path i segs v cur)
  then show ?case
    by (fastforce simp: resolve_step get_index_def and_then_Inr simp del: resolve_segs.simps(2,3) split: json.splits if_splits)
qed (auto split: json.splits)

text \<open>
  A value written at a path is read there, and paths that part from it lead where they did: through
  every sequence of names and positions, whatever objects had to be made on the way.
\<close>

lemma path_written_read:
  assumes "set_at_path sj tree path v = Inr tree'"
  shows "resolve_path tree' path = v \<and>
    (\<forall>q. diverge (parse_path path) (parse_path q) \<longrightarrow> resolve_path tree' q = resolve_path tree q)"
  using assms set_path_get set_path_frame unfolding set_at_path_def resolve_path_def by blast

text \<open>An index beyond the machine word is dropped from the path, so a write replaces the whole array.\<close>

lemma oversized_index_dropped:
  "validate_jq_path (lit ''.phases[18446744073709551616]'') = Inr () \<and>
   parse_path (lit ''.phases[18446744073709551616]'') = [Key (lit ''phases'')]"
  by (simp add: lit_def validate_jq_path_def ident_start_def ident_char_def is_digit_def index_segment_def parse_unsigned_def u64_max_def)

section \<open>Removal of review data\<close>

lemma scrub_fields_lookup:
  "map_of (scrub_fields fs) k = (if k \<in> set SCRUB_KEYS then None else map_option scrub_value (map_of fs k))"
  by (induction fs) auto

lemma scrub_list_map: "scrub_list vs = map scrub_value vs"
  by (induction vs) auto

lemma scrub_keys:
  "set (keys_of (scrub_value v)) \<inter> set SCRUB_KEYS = {}"
  "set (keys_list (scrub_list vs)) \<inter> set SCRUB_KEYS = {}"
  "set (keys_fields (scrub_fields fs)) \<inter> set SCRUB_KEYS = {}"
proof (induction v and vs and fs rule: scrub_value_scrub_list_scrub_fields.induct)
qed auto

lemma scrub_idem:
  "scrub_value (scrub_value v) = scrub_value v"
  "scrub_list (scrub_list vs) = scrub_list vs"
  "scrub_fields (scrub_fields fs) = scrub_fields fs"
proof (induction v and vs and fs rule: scrub_value_scrub_list_scrub_fields.induct)
qed auto

end
