(* ===== verification/File_Lock.thy ===== *)
theory File_Lock
  imports Lease_Registry Traces
begin

text \<open>
  The lock of the agent harness (\<^verbatim>\<open>harness-rust/crates/shared/src/lock.rs\<close>): a directory that is created by
  whoever takes the lock and removed when the guard is dropped, with a metadata file inside.

  The waiting loop is a partial function that passes the clock (milliseconds) along: in round \<open>k\<close> the environment says
  how \<^verbatim>\<open>create_dir\<close> ended, how long the round took until the clock was read, and by how much the pause was
  overslept. The number of the last round and the clock at the end are returned as observations. Several processes are a step relation on the directory and the set of holders.
\<close>

section \<open>Definitions\<close>

datatype mkdir_result = Created | Already_Exists ustr | Mkdir_Failed ustr

record lock_env =
  le_mkdir :: "nat \<Rightarrow> mkdir_result"
  le_busy :: "nat \<Rightarrow> nat"
  le_oversleep :: "nat \<Rightarrow> nat"

definition lock_error :: "ustr \<Rightarrow> ustr \<Rightarrow> AgentError" where
  "lock_error path e = Agent_Lock (lit ''failed to acquire lock at '' @ path @ lit '': '' @ e)"

text \<open>\<^verbatim>\<open>thread::sleep\<close> pauses for at least the given time.\<close>

definition thread_sleep :: "lock_env \<Rightarrow> nat \<Rightarrow> nat \<Rightarrow> nat \<Rightarrow> nat" where
  "thread_sleep E k ms now = now + ms + le_oversleep E k"

partial_function (option) acquire_loop ::
  "lock_env \<Rightarrow> ustr \<Rightarrow> nat \<Rightarrow> nat \<Rightarrow> nat \<Rightarrow> ((AgentError + unit) \<times> nat \<times> nat) option" where
  [code]: "acquire_loop E path deadline k now =
     (case le_mkdir E k of
        Created \<Rightarrow> Some (Inr (), k, now + le_busy E k)
      | Already_Exists e \<Rightarrow>
          if now + le_busy E k < deadline
          then acquire_loop E path deadline (Suc k) (thread_sleep E k 100 (now + le_busy E k))
          else Some (Inl (lock_error path e), k, now + le_busy E k)
      | Mkdir_Failed e \<Rightarrow> Some (Inl (lock_error path e), k, now + le_busy E k))"

definition acquire :: "lock_env \<Rightarrow> nat \<Rightarrow> ustr \<Rightarrow> nat \<Rightarrow> ((AgentError + unit) \<times> nat \<times> nat) option" where
  "acquire E start path timeout_secs = acquire_loop E path (start + timeout_secs * 1000) 0 start"

record lock_dir =
  ld_metadata :: "ustr option"
  ld_modified :: "nat option"

text \<open>A new lock directory; the metadata is written on a best-effort basis.\<close>

definition new_lock_dir :: "ustr option \<Rightarrow> nat option \<Rightarrow> lock_dir" where
  "new_lock_dir meta modified = \<lparr>ld_metadata = meta, ld_modified = modified\<rparr>"

text \<open>Dropping the guard: the metadata file, then the directory, which goes only when it is empty.\<close>

definition drop_lock :: "bool \<Rightarrow> bool \<Rightarrow> lock_dir option \<Rightarrow> lock_dir option" where
  "drop_lock remove_file_ok remove_dir_ok d =
     (case d of
        None \<Rightarrow> None
      | Some l \<Rightarrow>
          let l' = (if remove_file_ok then l\<lparr>ld_metadata := None\<rparr> else l) in
          if remove_dir_ok \<and> ld_metadata l' = None then None else Some l')"

definition is_stale :: "nat \<Rightarrow> lock_dir option \<Rightarrow> nat \<Rightarrow> bool" where
  "is_stale now d threshold_secs =
     (case d of
        None \<Rightarrow> False
      | Some l \<Rightarrow> (case ld_modified l of None \<Rightarrow> False | Some m \<Rightarrow> threshold_secs < (now - m) div 1000))"

definition metadata_path :: "ustr \<Rightarrow> ustr" where
  "metadata_path path = path @ lit ''/metadata.json''"

definition read_metadata :: "(ustr \<Rightarrow> ustr + 'm) \<Rightarrow> ustr \<Rightarrow> ustr + ustr \<Rightarrow> AgentError + 'm" where
  "read_metadata parse path data =
     (case data of
        Inl e \<Rightarrow> Inl (Agent_Lock (lit ''cannot read lock metadata at '' @ metadata_path path @ lit '': '' @ e))
      | Inr s \<Rightarrow>
          (case parse s of
             Inl e \<Rightarrow> Inl (Agent_Lock (lit ''invalid lock metadata at '' @ metadata_path path @ lit '': '' @ e))
           | Inr m \<Rightarrow> Inr m))"

subsection \<open>Several processes\<close>

record lock_world =
  lw_dir :: "lock_dir option"
  lw_holders :: "nat set"

datatype lock_label =
    Lock_Taken nat "ustr option" "nat option"
  | Lock_Busy nat
  | Lock_Dropped nat bool bool
  | Lock_Abandoned nat

inductive lock_step :: "lock_label \<Rightarrow> lock_world \<Rightarrow> lock_world \<Rightarrow> bool" where
  taken: "lw_dir w = None \<Longrightarrow>
    lock_step (Lock_Taken p meta t) w (w\<lparr>lw_dir := Some (new_lock_dir meta t), lw_holders := insert p (lw_holders w)\<rparr>)"
| busy: "lw_dir w \<noteq> None \<Longrightarrow> lock_step (Lock_Busy p) w w"
| dropped: "p \<in> lw_holders w \<Longrightarrow>
    lock_step (Lock_Dropped p rf rd) w (w\<lparr>lw_dir := drop_lock rf rd (lw_dir w), lw_holders := lw_holders w - {p}\<rparr>)"
| abandoned: "p \<in> lw_holders w \<Longrightarrow> lock_step (Lock_Abandoned p) w (w\<lparr>lw_holders := lw_holders w - {p}\<rparr>)"

inductive_cases lock_stepE: "lock_step e w w'"

definition lock_inv :: "lock_world \<Rightarrow> bool" where
  "lock_inv w \<longleftrightarrow> (\<exists>p. lw_holders w \<subseteq> {p}) \<and> (lw_holders w \<noteq> {} \<longrightarrow> lw_dir w \<noteq> None)"

definition free_lock :: lock_world where
  "free_lock = \<lparr>lw_dir = None, lw_holders = {}\<rparr>"

section \<open>Lemmas\<close>

interpretation lock: step_invariant lock_step lock_inv
proof
  fix e w w'
  assume "lock_step e w w'" "lock_inv w"
  then show "lock_inv w'"
    by (elim lock_stepE) (auto simp: lock_inv_def new_lock_dir_def)
qed

text \<open>The clock when round \<open>k\<close> starts, if no earlier round ended the loop.\<close>

fun round_start :: "lock_env \<Rightarrow> nat \<Rightarrow> nat \<Rightarrow> nat" where
  "round_start E start 0 = start"
| "round_start E start (Suc k) = round_start E start k + le_busy E k + 100 + le_oversleep E k"

text \<open>Round \<open>j\<close> is reached: all earlier ones found the lock taken before the deadline.\<close>

definition waits_until :: "lock_env \<Rightarrow> nat \<Rightarrow> nat \<Rightarrow> nat \<Rightarrow> bool" where
  "waits_until E start deadline j \<longleftrightarrow>
     (\<forall>i<j. (\<exists>e. le_mkdir E i = Already_Exists e) \<and> round_start E start i + le_busy E i < deadline)"

text \<open>How the loop ends in round \<open>j\<close>.\<close>

definition round_result :: "lock_env \<Rightarrow> ustr \<Rightarrow> nat \<Rightarrow> AgentError + unit" where
  "round_result E path j =
     (case le_mkdir E j of Created \<Rightarrow> Inr () | Already_Exists e \<Rightarrow> Inl (lock_error path e) | Mkdir_Failed e \<Rightarrow> Inl (lock_error path e))"

definition last_round :: "lock_env \<Rightarrow> nat \<Rightarrow> nat \<Rightarrow> nat \<Rightarrow> bool" where
  "last_round E start deadline j \<longleftrightarrow> waits_until E start deadline j \<and>
     ((\<exists>e. le_mkdir E j = Already_Exists e) \<longrightarrow> deadline \<le> round_start E start j + le_busy E j)"

lemma round_start_grows: "start + 100 * k \<le> round_start E start k"
  by (induction k) auto

lemma waits_until_0 [simp]: "waits_until E start deadline 0"
  by (simp add: waits_until_def)

lemma waits_until_Suc:
  "waits_until E start deadline (Suc j) \<longleftrightarrow> waits_until E start deadline j \<and>
     (\<exists>e. le_mkdir E j = Already_Exists e) \<and> round_start E start j + le_busy E j < deadline"
  by (auto simp: waits_until_def less_Suc_eq)

lemma acquire_loop_step:
  "acquire_loop E path deadline k (round_start E start k) =
     (if (\<exists>e. le_mkdir E k = Already_Exists e) \<and> round_start E start k + le_busy E k < deadline
      then acquire_loop E path deadline (Suc k) (round_start E start (Suc k))
      else Some (round_result E path k, k, round_start E start k + le_busy E k))"
  by (subst acquire_loop.simps) (auto simp: round_result_def thread_sleep_def split: mkdir_result.splits)

lemma acquire_loop_ends:
  assumes "deadline \<le> start + 100 * (k + n)" "waits_until E start deadline k"
  shows "\<exists>j \<le> k + n. last_round E start deadline j \<and>
    acquire_loop E path deadline k (round_start E start k) = Some (round_result E path j, j, round_start E start j + le_busy E j)"
  using assms
proof (induction n arbitrary: k)
  case 0
  have "\<not> round_start E start k + le_busy E k < deadline" using round_start_grows [of start k E] 0(1) by simp
  then show ?case using 0(2) by (auto simp: acquire_loop_step last_round_def)
next
  case (Suc n)
  show ?case
  proof (cases "(\<exists>e. le_mkdir E k = Already_Exists e) \<and> round_start E start k + le_busy E k < deadline")
    case True
    then show ?thesis using Suc.IH [of "Suc k"] Suc.prems by (simp add: acquire_loop_step [of E path deadline k] waits_until_Suc del: round_start.simps)
  next
    case False
    then show ?thesis using Suc.prems(2) by (intro exI [of _ k]) (auto simp: acquire_loop_step last_round_def)
  qed
qed

section \<open>Properties\<close>

text \<open>
  C35. Waiting for the lock ends, by the code's own pauses and whatever the file system answers: it is over in a round
  \<open>j\<close> that is at most ten times the seconds of the timeout; the lock is held exactly when that round could create the
  directory; all earlier rounds found it taken before the deadline; a round that finds it taken is the last only when
  the deadline has passed; and unless the first round ends it, the clock then shows less than the deadline plus the
  pause, what the last pause was overslept, and what the last round took.
\<close>

theorem acquire_ends:
  "\<exists>j t. acquire E start path timeout = Some (round_result E path j, j, t) \<and> j \<le> 10 * timeout \<and>
     (round_result E path j = Inr () \<longleftrightarrow> le_mkdir E j = Created) \<and>
     (\<forall>i<j. \<exists>e. le_mkdir E i = Already_Exists e) \<and>
     ((\<exists>e. le_mkdir E j = Already_Exists e) \<longrightarrow> start + timeout * 1000 \<le> t) \<and>
     (if j = 0 then t = start + le_busy E 0
      else t < start + timeout * 1000 + 100 + le_oversleep E (j - 1) + le_busy E j)"
proof -
  let ?d = "start + timeout * 1000"
  obtain j where j: "j \<le> 10 * timeout" "last_round E start ?d j"
      "acquire E start path timeout = Some (round_result E path j, j, round_start E start j + le_busy E j)"
    using acquire_loop_ends [of ?d start 0 "10 * timeout" E path] by (auto simp: acquire_def)
  have "round_result E path j = Inr () \<longleftrightarrow> le_mkdir E j = Created"
    by (simp add: round_result_def split: mkdir_result.splits)
  moreover have "round_start E start j < ?d + 100 + le_oversleep E (j - 1)" if "j \<noteq> 0"
    using that j(2) by (cases j) (auto simp: last_round_def waits_until_Suc)
  ultimately show ?thesis using j
    by (intro exI [of _ j] exI [of _ "round_start E start j + le_busy E j"]) (auto simp: last_round_def waits_until_def)
qed

theorem acquire_ends_witness:
  "\<exists>j t. acquire \<lparr>le_mkdir = \<lambda>k. Already_Exists [], le_busy = \<lambda>k. 1, le_oversleep = \<lambda>k. 2\<rparr> 0 [] 1 =
     Some (Inl (lock_error [] []), j, t) \<and> 1000 \<le> t \<and> t < 1103"
proof -
  let ?E = "\<lparr>le_mkdir = \<lambda>k. Already_Exists [], le_busy = \<lambda>k. 1, le_oversleep = \<lambda>k. 2\<rparr>"
  have "round_result ?E [] j = Inl (lock_error [] [])" for j by (simp add: round_result_def)
  with acquire_ends [of ?E 0 "[]" 1] show ?thesis by (fastforce split: if_splits)
qed

text \<open>
  The lock excludes: from a free lock, whatever order processes try, drop, fail to clean up or die in, at most
  one of them holds it, and while one does the directory is there.
\<close>

lemma lock_exclusive:
  assumes "trace lock_step free_lock es w" "p \<in> lw_holders w" "q \<in> lw_holders w"
  shows "p = q \<and> lw_dir w \<noteq> None"
proof -
  have "lock_inv free_lock" by (simp add: lock_inv_def free_lock_def)
  from lock.trace_keeps [OF assms(1) this] assms(2,3) show ?thesis by (auto simp: lock_inv_def)
qed

end
