(* ===== verification/State_Manager.thy ===== *)
theory State_Manager
  imports Json_Path File_Lock
begin

text \<open>
  The task state of the agent harness (\<^verbatim>\<open>harness-rust/crates/agent-core/src/cmd/state.rs\<close>): loading, scrubbing,
  changing and writing \<^verbatim>\<open>state.json\<close>, and the commands.

  Files are a map from paths to texts. The text form of a state, the canonical form of paths, the root of the
  repository, the clock and the failures of calls are parameters; the outcome of waiting for the lock (\<open>File_Lock\<close>)
  is part of the conditions of a write. Log output is left out.
\<close>

section \<open>Definitions\<close>

record state_lib =
  sl_from_str :: "ustr \<Rightarrow> ustr + State"
  sl_to_string_pretty :: "State \<Rightarrow> ustr + ustr"
  sl_value_from_str :: "ustr \<Rightarrow> ustr + json"
  sl_show_json :: "json \<Rightarrow> ustr"
  sl_from_value_error :: "json \<Rightarrow> ustr"

text \<open>The conditions of one write: waiting for the lock, and failures of the temporary file.\<close>

record write_io =
  wi_lock :: "AgentError + unit"
  wi_tmp :: "ustr option"
  wi_write :: "ustr option"
  wi_persist :: "ustr option"

record state_env =
  sv_lib :: state_lib
  sv_cwd :: lpath
  sv_canonicalize :: "lpath \<Rightarrow> ustr + lpath"
  sv_git_root :: "AgentError + lpath"
  sv_create_dir :: "ustr option"
  sv_read :: "ustr option"
  sv_uuid :: ustr
  sv_now :: ustr
  sv_save_now :: ustr
  sv_load_io :: write_io
  sv_io :: write_io

record StateManager =
  sm_state :: State
  sm_file_path :: lpath
  sm_lock_path :: lpath
  sm_dir :: lpath

definition STATE_SCHEMA_VERSION :: ustr where
  "STATE_SCHEMA_VERSION = lit ''2.0.0''"

definition show_path :: "lpath \<Rightarrow> ustr" where
  "show_path p = lit ''/'' @ intersperse_concat (lit ''/'') p"

subsection \<open>Scrubbing and writing\<close>

definition live_sessions :: "State \<Rightarrow> CoderSession list" where
  "live_sessions s = filter (\<lambda>c. cs_session_id c \<noteq> []) (ss_coder_sessions (st_sessions s))"

definition contracted_session :: "CoderSession \<Rightarrow> json" where
  "contracted_session c = struct_value
     ([(lit ''session_id'', JStr (cs_session_id c)), (lit ''phase'', option_value JStr (cs_phase c)),
       (lit ''iteration'', option_value num_value (cs_iteration c)), (lit ''created_at'', option_value JStr (cs_created_at c))] @
      skip_none (lit ''engine'') engine_value (cs_engine c) @
      skip_none (lit ''parent_session_id'') JStr (cs_parent_session_id c))"

definition scrub_live_state :: "State \<Rightarrow> State" where
  "scrub_live_state s =
     (let s1 = s\<lparr>st_sessions := \<lparr>ss_coder_sessions = live_sessions s\<rparr>\<rparr>;
          tree = scrub_value (state_value s1);
          contracted = map contracted_session (live_sessions s1);
          tree1 = lease_put (lit ''sessions'') (struct_value [(lit ''coder_sessions'', JArr contracted)]) tree;
          tree2 = (case lease_get tree1 (lit ''phases'') of
              Some (JArr ps) \<Rightarrow> lease_put (lit ''phases'') (JArr (filter is_object ps)) tree1
            | _ \<Rightarrow> tree1)
      in case state_of tree2 of Some t \<Rightarrow> t | None \<Rightarrow> s1)"

definition sm_atomic_write :: "state_lib \<Rightarrow> write_io \<Rightarrow> StateManager \<Rightarrow> lease_files \<Rightarrow> (AgentError + unit) \<times> lease_files" where
  "sm_atomic_write L io m F =
     (case wi_lock io of
        Inl e \<Rightarrow> (Inl e, F)
      | Inr _ \<Rightarrow>
          (case wi_tmp io of
             Some e \<Rightarrow> (Inl (Agent_State (lit ''failed to create temp file: '' @ e)), F)
           | None \<Rightarrow>
               (case sl_to_string_pretty L (sm_state m) of
                  Inl e \<Rightarrow> (Inl (Agent_Json e), F)
                | Inr data \<Rightarrow>
                    (case wi_write io of
                       Some e \<Rightarrow> (Inl (Agent_Io e), F)
                     | None \<Rightarrow>
                         (case wi_persist io of
                            Some e \<Rightarrow> (Inl (Agent_State (lit ''failed to persist state file to '' @ show_path (sm_file_path m) @ lit '': '' @ e)), F)
                          | None \<Rightarrow> (Inr (), F(sm_file_path m \<mapsto> data)))))))"

text \<open>Loading reads and scrubs without the lock, then writes what it read.\<close>

definition load_read :: "state_env \<Rightarrow> ustr \<Rightarrow> lease_files \<Rightarrow> AgentError + StateManager" where
  "load_read E state_file F =
     (let p = under_root (sv_cwd E) state_file in
      case F p of
        None \<Rightarrow> Inl (Agent_NotFound (lit ''state file not found: '' @ state_file))
      | Some data \<Rightarrow>
          (case parent_of p of
             None \<Rightarrow> Inl (Agent_State (lit ''cannot determine state directory''))
           | Some dir \<Rightarrow>
               (case sv_read E of
                  Some e \<Rightarrow> Inl (Agent_Io e)
                | None \<Rightarrow>
                    (case sl_from_str (sv_lib E) data of
                       Inl e \<Rightarrow> Inl (Agent_Json e)
                     | Inr s \<Rightarrow> Inr \<lparr>sm_state = scrub_live_state s, sm_file_path = p, sm_lock_path = dir @ [lit ''.state.lock''], sm_dir = dir\<rparr>))))"

definition sm_load :: "state_env \<Rightarrow> ustr \<Rightarrow> lease_files \<Rightarrow> (AgentError + StateManager) \<times> lease_files" where
  "sm_load E state_file F =
     (case load_read E state_file F of
        Inl e \<Rightarrow> (Inl e, F)
      | Inr m \<Rightarrow>
          (case sm_atomic_write (sv_lib E) (sv_load_io E) m F of
             (Inl e, F') \<Rightarrow> (Inl e, F')
           | (Inr _, F') \<Rightarrow> (Inr m, F')))"

definition sm_save :: "state_env \<Rightarrow> StateManager \<Rightarrow> lease_files \<Rightarrow> (AgentError + unit) \<times> lease_files" where
  "sm_save E m F = sm_atomic_write (sv_lib E) (sv_io E) (m\<lparr>sm_state := scrub_live_state ((sm_state m)\<lparr>st_updated_at := sv_save_now E\<rparr>)\<rparr>) F"

subsection \<open>Operations on the state\<close>

definition state_get :: "State \<Rightarrow> ustr \<Rightarrow> AgentError + json" where
  "state_get s path = and_then (validate_jq_path path) (\<lambda>_. Inr (resolve_path (state_value s) path))"

definition decode_state :: "state_lib \<Rightarrow> json \<Rightarrow> AgentError + State" where
  "decode_state L tree = (case state_of tree of Some s \<Rightarrow> Inr s | None \<Rightarrow> Inl (Agent_Json (sl_from_value_error L tree)))"

definition state_set :: "state_lib \<Rightarrow> State \<Rightarrow> ustr \<Rightarrow> json \<Rightarrow> AgentError + State" where
  "state_set L s path v =
     and_then (validate_jq_path path) (\<lambda>_.
     and_then (set_at_path (sl_show_json L) (state_value s) path v) (decode_state L))"

definition state_append :: "state_lib \<Rightarrow> State \<Rightarrow> ustr \<Rightarrow> json \<Rightarrow> AgentError + State" where
  "state_append L s path v =
     and_then (validate_jq_path path) (\<lambda>_.
     and_then (append_at_path (sl_show_json L) (state_value s) path v) (decode_state L))"

fun phase_position :: "Phase list \<Rightarrow> ustr \<Rightarrow> nat option" where
  "phase_position [] name = None"
| "phase_position (p # ps) name = (if ph_name p = name then Some 0 else map_option Suc (phase_position ps name))"

definition find_phase :: "State \<Rightarrow> ustr \<Rightarrow> nat option" where
  "find_phase s name = phase_position (st_phases s) name"

definition new_phase :: "ustr \<Rightarrow> 32 word \<Rightarrow> Phase" where
  "new_phase name max_iterations =
     \<lparr>ph_name = name, ph_status = PS_Pending, ph_iteration = 0, ph_max_iterations = max_iterations, ph_coder = None,
      ph_started_at = None, ph_completed_at = None\<rparr>"

text \<open>No new state when the phase exists: nothing is saved.\<close>

definition upsert_phase :: "State \<Rightarrow> ustr \<Rightarrow> 32 word \<Rightarrow> State option" where
  "upsert_phase s name max_iterations =
     (if find_phase s name \<noteq> None then None else Some (s\<lparr>st_phases := st_phases s @ [new_phase name max_iterations]\<rparr>))"

definition stamp_phase :: "PhaseStatus \<Rightarrow> ustr \<Rightarrow> Phase \<Rightarrow> Phase" where
  "stamp_phase status now p =
     (let p1 = p\<lparr>ph_status := status\<rparr> in
      if status \<in> set [PS_Running, PS_Review, PS_Fixing]
      then (if ph_started_at p1 = None then p1\<lparr>ph_started_at := Some now\<rparr> else p1)
      else if status = PS_Pending then p1
      else p1\<lparr>ph_completed_at := Some now\<rparr>)"

definition set_phase_status :: "State \<Rightarrow> ustr \<Rightarrow> PhaseStatus \<Rightarrow> ustr \<Rightarrow> AgentError + State" where
  "set_phase_status s name status now =
     (case find_phase s name of
        None \<Rightarrow> Inl (Agent_NotFound (lit ''phase not found: '' @ name))
      | Some i \<Rightarrow>
          Inr (s\<lparr>st_current_phase := Some name, st_phases := (st_phases s)[i := stamp_phase status now (st_phases s ! i)]\<rparr>))"

definition record_session :: "State \<Rightarrow> CoderSession \<Rightarrow> State" where
  "record_session s c = s\<lparr>st_sessions := \<lparr>ss_coder_sessions = ss_coder_sessions (st_sessions s) @ [c]\<rparr>\<rparr>"

definition session_matches :: "ustr option \<Rightarrow> CoderEngine option \<Rightarrow> CoderSession \<Rightarrow> bool" where
  "session_matches ph eng c \<longleftrightarrow>
     (case ph of Some p \<Rightarrow> cs_phase c = Some p | None \<Rightarrow> True) \<and> (case eng of Some e \<Rightarrow> cs_engine c = Some e | None \<Rightarrow> True)"

definition get_last_session :: "State \<Rightarrow> ustr option \<Rightarrow> CoderEngine option \<Rightarrow> ustr option" where
  "get_last_session s ph eng =
     map_option cs_session_id (List.find (session_matches ph eng) (rev (ss_coder_sessions (st_sessions s))))"

definition state_set_error :: "State \<Rightarrow> ustr \<Rightarrow> ustr \<Rightarrow> ustr option \<Rightarrow> ustr \<Rightarrow> State" where
  "state_set_error s code message ph now =
     s\<lparr>st_error := Some \<lparr>se_code = code, se_message = message, se_phase = ph, se_timestamp = Some now\<rparr>\<rparr>"

definition clear_error :: "State \<Rightarrow> State" where
  "clear_error s = s\<lparr>st_error := None\<rparr>"

definition set_coder_engine :: "State \<Rightarrow> CoderEngine \<Rightarrow> State" where
  "set_coder_engine s e = s\<lparr>st_assignments := \<lparr>as_coder_engine = Some e\<rparr>\<rparr>"

definition set_contract :: "State \<Rightarrow> ustr \<Rightarrow> ustr \<Rightarrow> State" where
  "set_contract s i path = s\<lparr>st_task := (st_task s)\<lparr>task_contract_id := Some i, task_contract_path := Some path\<rparr>\<rparr>"

subsection \<open>Plans and new states\<close>

definition state_err :: "ustr \<Rightarrow> ustr + 'a \<Rightarrow> AgentError + 'a" where
  "state_err what r = (case r of Inl e \<Rightarrow> Inl (Agent_State (what @ e)) | Inr x \<Rightarrow> Inr x)"

definition resolve_plan_path :: "state_env \<Rightarrow> State \<Rightarrow> ustr option \<Rightarrow> AgentError + lpath" where
  "resolve_plan_path E s repo_root =
     (let plan = task_plan_path (st_task s) in
      if is_absolute plan then Inr (path_comps plan)
      else
        and_then (case repo_root of
            Some r \<Rightarrow> state_err (lit ''cannot canonicalize repo root: '') (sv_canonicalize E (under_root (sv_cwd E) r))
          | None \<Rightarrow> sv_git_root E) (\<lambda>base.
        let candidate = base @ path_comps plan in
        case parent_of candidate of
          None \<Rightarrow> Inl (Agent_State (lit ''cannot determine plan parent dir''))
        | Some parent \<Rightarrow>
            and_then (state_err (lit ''cannot resolve plan directory: '') (sv_canonicalize E parent)) (\<lambda>q.
              Inr (q @ (case file_name_of candidate of Some n \<Rightarrow> [n] | None \<Rightarrow> [])))))"

definition normalize_plan_path :: "state_env \<Rightarrow> ustr \<Rightarrow> AgentError + ustr" where
  "normalize_plan_path E plan =
     and_then (state_err (lit ''failed to normalize plan_path '' @ [39] @ plan @ [39] @ lit '': '') (sv_canonicalize E (under_root (sv_cwd E) plan))) (\<lambda>p.
       Inr (if p = [] then show_path p
            else case sv_git_root E of
              Inl _ \<Rightarrow> show_path p
            | Inr r \<Rightarrow>
                let base = (case sv_canonicalize E r of Inr c \<Rightarrow> c | Inl _ \<Rightarrow> r) in
                if prefix base p then intersperse_concat (lit ''/'') (drop (length base) p) else show_path p))"

definition initial_state :: "ustr \<Rightarrow> ustr \<Rightarrow> ustr \<Rightarrow> ustr \<Rightarrow> State" where
  "initial_state uuid name plan now =
     \<lparr>st_version = STATE_SCHEMA_VERSION,
      st_task = \<lparr>task_id = uuid, task_name = name, task_plan_path = plan, task_contract_id = None, task_contract_path = None\<rparr>,
      st_status = TS_Pending, st_current_phase = None, st_assignments = \<lparr>as_coder_engine = None\<rparr>, st_phases = [],
      st_quality_gate = \<lparr>qg_level = None, qg_status = QS_Pending\<rparr>, st_sessions = \<lparr>ss_coder_sessions = []\<rparr>,
      st_timeouts = \<lparr>to_codex_secs = 7200, to_claude_secs = 1800\<rparr>, st_created_at = now, st_updated_at = now, st_error = None\<rparr>"

definition init_state :: "state_env \<Rightarrow> ustr \<Rightarrow> ustr \<Rightarrow> ustr option \<Rightarrow> lease_files \<Rightarrow> (AgentError + StateManager) \<times> lease_files" where
  "init_state E plan name output_dir F =
     (case normalize_plan_path E plan of
        Inl e \<Rightarrow> (Inl e, F)
      | Inr normalized \<Rightarrow>
          (let dir = (case output_dir of
               Some d \<Rightarrow> under_root (sv_cwd E) d
             | None \<Rightarrow> (case sv_git_root E of Inr r \<Rightarrow> r | Inl _ \<Rightarrow> sv_cwd E) @ [lit ''.claude'', lit ''tmp'', name]);
             m = \<lparr>sm_state = scrub_live_state (initial_state (sv_uuid E) name normalized (sv_now E)),
                  sm_file_path = dir @ [lit ''state.json''], sm_lock_path = dir @ [lit ''.state.lock''], sm_dir = dir\<rparr>
           in case sv_create_dir E of
                Some e \<Rightarrow> (Inl (Agent_Io e), F)
              | None \<Rightarrow>
                  (case sm_atomic_write (sv_lib E) (sv_io E) m F of
                     (Inl e, F') \<Rightarrow> (Inl e, F')
                   | (Inr _, F') \<Rightarrow> (Inr m, F'))))"

subsection \<open>Commands\<close>

definition phase_line :: "Phase \<Rightarrow> ustr" where
  "phase_line p = lit ''  - '' @ ph_name p @ lit '': '' @ show_phase_status (ph_status p) @ lit '' (iteration: '' @
     digits_of (unat (ph_iteration p)) @ lit ''/'' @ digits_of (unat (ph_max_iterations p)) @ lit '')''"

definition or_text :: "ustr \<Rightarrow> ustr option \<Rightarrow> ustr" where
  "or_text d x = (case x of Some t \<Rightarrow> t | None \<Rightarrow> d)"

definition show_summary :: "lpath \<Rightarrow> State \<Rightarrow> ustr list" where
  "show_summary p s =
     [lit ''=== State Summary ==='', lit ''File: '' @ show_path p, [],
      lit ''Task: '' @ task_name (st_task s) @ lit '' ('' @ task_id (st_task s) @ lit '')'',
      lit ''Status: '' @ show_task_status (st_status s),
      lit ''Current Phase: '' @ or_text (lit ''none'') (st_current_phase s),
      lit ''Coder Engine: '' @ or_text (lit ''not set'') (map_option show_coder_engine (as_coder_engine (st_assignments s))),
      lit ''Created: '' @ st_created_at s, lit ''Updated: '' @ st_updated_at s, [], lit ''Phases:''] @
     map phase_line (st_phases s) @
     [[], lit ''Quality Gate: '' @ show_gate_status (qg_status (st_quality_gate s)) @ lit '' (level: '' @
        or_text (lit ''not set'') (map_option show_gate_level (qg_level (st_quality_gate s))) @ lit '')''] @
     (case st_error s of
        None \<Rightarrow> []
      | Some e \<Rightarrow> [[], lit ''Error: ['' @ se_code e @ lit ''] '' @ se_message e])"

definition print_value :: "state_lib \<Rightarrow> json \<Rightarrow> ustr list" where
  "print_value L v = (case v of JStr s \<Rightarrow> [s] | JNull \<Rightarrow> [] | _ \<Rightarrow> [sl_show_json L v])"

definition parse_json_value :: "state_lib \<Rightarrow> ustr \<Rightarrow> json" where
  "parse_json_value L s = (case sl_value_from_str L s of Inr v \<Rightarrow> v | Inl _ \<Rightarrow> JStr s)"

definition validation :: "ustr + 'a \<Rightarrow> AgentError + 'a" where
  "validation r = (case r of Inl e \<Rightarrow> Inl (Agent_Validation e) | Inr x \<Rightarrow> Inr x)"

definition parse_engine :: "ustr option \<Rightarrow> AgentError + CoderEngine option" where
  "parse_engine x = (case x of None \<Rightarrow> Inr None | Some e \<Rightarrow> and_then (validation (coder_engine_from_str e)) (\<lambda>c. Inr (Some c)))"

datatype StateAction =
    State_Init ustr ustr "ustr option"
  | State_Get ustr ustr
  | State_Set ustr ustr ustr
  | State_Append ustr ustr ustr
  | State_Summary ustr
  | State_UpsertPhase ustr ustr "32 word"
  | State_SetPhaseStatus ustr ustr ustr
  | State_RecordSession ustr ustr ustr "32 word" "ustr option" "ustr option"
  | State_GetLastSession ustr "ustr option" "ustr option"
  | State_SetError ustr ustr ustr "ustr option"
  | State_ClearError ustr
  | State_SetEngine ustr ustr
  | State_SetContract ustr ustr ustr
  | State_ResolvePlan ustr "ustr option"
  | State_Scrub ustr

fun action_file :: "StateAction \<Rightarrow> ustr option" where
  "action_file (State_Init _ _ _) = None"
| "action_file (State_Get f _) = Some f"
| "action_file (State_Set f _ _) = Some f"
| "action_file (State_Append f _ _) = Some f"
| "action_file (State_Summary f) = Some f"
| "action_file (State_UpsertPhase f _ _) = Some f"
| "action_file (State_SetPhaseStatus f _ _) = Some f"
| "action_file (State_RecordSession f _ _ _ _ _) = Some f"
| "action_file (State_GetLastSession f _ _) = Some f"
| "action_file (State_SetError f _ _ _) = Some f"
| "action_file (State_ClearError f) = Some f"
| "action_file (State_SetEngine f _) = Some f"
| "action_file (State_SetContract f _ _) = Some f"
| "action_file (State_ResolvePlan f _) = Some f"
| "action_file (State_Scrub f) = Some f"

text \<open>What a command does once the state is loaded: print lines, save with a new time stamp, or write as it is.\<close>

datatype state_effect = Answer "ustr list" | Save State | Write_As_Is State

definition new_session :: "state_env \<Rightarrow> ustr \<Rightarrow> ustr \<Rightarrow> 32 word \<Rightarrow> CoderEngine option \<Rightarrow> ustr option \<Rightarrow> CoderSession" where
  "new_session E i ph n eng parent =
     \<lparr>cs_session_id = i, cs_phase = Some ph, cs_iteration = Some n, cs_engine = eng, cs_parent_session_id = parent,
      cs_created_at = Some (sv_now E)\<rparr>"

fun state_effect_of :: "state_env \<Rightarrow> StateAction \<Rightarrow> lpath \<Rightarrow> State \<Rightarrow> AgentError + state_effect" where
  "state_effect_of E (State_Init _ _ _) p s = Inr (Answer [])"
| "state_effect_of E (State_Get _ path) p s = and_then (state_get s path) (\<lambda>v. Inr (Answer (print_value (sv_lib E) v)))"
| "state_effect_of E (State_Set _ path v) p s =
     and_then (state_set (sv_lib E) s path (parse_json_value (sv_lib E) v)) (\<lambda>t. Inr (Write_As_Is t))"
| "state_effect_of E (State_Append _ path v) p s =
     (case sl_value_from_str (sv_lib E) v of
        Inl e \<Rightarrow> Inl (Agent_Validation (lit ''invalid JSON: '' @ e))
      | Inr j \<Rightarrow> and_then (state_append (sv_lib E) s path j) (\<lambda>t. Inr (Write_As_Is t)))"
| "state_effect_of E (State_Summary _) p s = Inr (Answer (show_summary p s))"
| "state_effect_of E (State_UpsertPhase _ name n) p s =
     Inr (case upsert_phase s name n of None \<Rightarrow> Answer [] | Some t \<Rightarrow> Save t)"
| "state_effect_of E (State_SetPhaseStatus _ name status) p s =
     and_then (validation (phase_status_from_str status)) (\<lambda>ps.
     and_then (set_phase_status s name ps (sv_now E)) (\<lambda>t. Inr (Save t)))"
| "state_effect_of E (State_RecordSession _ i ph n eng parent) p s =
     and_then (validate_session_id i) (\<lambda>_.
     and_then (parse_engine eng) (\<lambda>e. Inr (Save (record_session s (new_session E i ph n e parent)))))"
| "state_effect_of E (State_GetLastSession _ ph eng) p s =
     and_then (parse_engine eng) (\<lambda>e. Inr (Answer (case get_last_session s ph e of Some i \<Rightarrow> [i] | None \<Rightarrow> [])))"
| "state_effect_of E (State_SetError _ code message ph) p s = Inr (Save (state_set_error s code message ph (sv_now E)))"
| "state_effect_of E (State_ClearError _) p s = Inr (Save (clear_error s))"
| "state_effect_of E (State_SetEngine _ eng) p s =
     and_then (validation (coder_engine_from_str eng)) (\<lambda>e. Inr (Save (set_coder_engine s e)))"
| "state_effect_of E (State_SetContract _ i path) p s = Inr (Save (set_contract s i path))"
| "state_effect_of E (State_ResolvePlan _ repo_root) p s = and_then (resolve_plan_path E s repo_root) (\<lambda>q. Inr (Answer [show_path q]))"
| "state_effect_of E (State_Scrub _) p s = Inr (Write_As_Is s)"

definition finish_state :: "state_env \<Rightarrow> StateManager \<Rightarrow> state_effect \<Rightarrow> lease_files \<Rightarrow> (AgentError + ustr list) \<times> lease_files" where
  "finish_state E m eff F =
     (case eff of
        Answer lines \<Rightarrow> (Inr lines, F)
      | Save t \<Rightarrow> map_prod (map_sum id (\<lambda>_. [])) id (sm_save E (m\<lparr>sm_state := t\<rparr>) F)
      | Write_As_Is t \<Rightarrow>
          map_prod (map_sum id (\<lambda>_. [])) id (sm_atomic_write (sv_lib E) (sv_io E) (m\<lparr>sm_state := scrub_live_state t\<rparr>) F))"

definition run_state :: "state_env \<Rightarrow> StateAction \<Rightarrow> lease_files \<Rightarrow> (AgentError + ustr list) \<times> lease_files" where
  "run_state E action F =
     (case action of
        State_Init plan name output_dir \<Rightarrow>
          (case validate_identifier name (lit ''task'') of
             Inl e \<Rightarrow> (Inl e, F)
           | Inr _ \<Rightarrow> map_prod (map_sum id (\<lambda>m. [show_path (sm_file_path m)])) id (init_state E plan name output_dir F))
      | _ \<Rightarrow>
          (case sm_load E (case action_file action of Some f \<Rightarrow> f | None \<Rightarrow> []) F of
             (Inl e, F') \<Rightarrow> (Inl e, F')
           | (Inr m, F') \<Rightarrow>
               (case state_effect_of E action (sm_file_path m) (sm_state m) of
                  Inl e \<Rightarrow> (Inl e, F')
                | Inr eff \<Rightarrow> finish_state E m eff F')))"

section \<open>What scrubbing does\<close>

text \<open>The effect of scrubbing on the typed state: sessions without an identifier go, and the coder of a phase forgets its session.\<close>

definition forget_session :: "Phase \<Rightarrow> Phase" where
  "forget_session p = p\<lparr>ph_coder := map_option (\<lambda>c. c\<lparr>ci_session_id := None\<rparr>) (ph_coder p)\<rparr>"

definition scrubbed :: "State \<Rightarrow> State" where
  "scrubbed s = s\<lparr>st_sessions := \<lparr>ss_coder_sessions = live_sessions s\<rparr>, st_phases := map forget_session (st_phases s)\<rparr>"

lemma struct_of_scrubbed:
  "distinct (map fst fs) \<Longrightarrow>
   struct_of names (scrub_value (struct_value fs)) = Some (\<lambda>k. if k \<in> set SCRUB_KEYS then None else map_option scrub_value (map_of fs k))"
  by (auto simp: struct_of_def struct_value_def scrub_fields_lookup bt_of_lookup)

lemma scrub_plain [simp]:
  "scrub_value (option_value JStr x) = option_value JStr x" "scrub_value (num_value n) = num_value n"
  "scrub_value (engine_value e) = engine_value e" "scrub_value (option_value num_value y) = option_value num_value y"
  "scrub_value (option_value (\<lambda>l. JStr (f l)) z) = option_value (\<lambda>l. JStr (f l)) z"
  by (auto simp: option_value_def num_value_def engine_value_def split: option.splits)

lemma scrub_option_value: "scrub_value (option_value enc x) = option_value (\<lambda>y. scrub_value (enc y)) x"
  by (auto simp: option_value_def split: option.splits)

lemma scrub_struct_not_null [simp]: "scrub_value (struct_value fs) \<noteq> JNull"
  by (simp add: struct_value_def)

lemmas scrub_serde = struct_of_scrubbed SCRUB_KEYS_def str_serde.req_enc str_serde.opt_enc

interpretation scrubbed_task: serde_pair "\<lambda>t. scrub_value (task_value t)" task_of
proof
  show "task_of (scrub_value (task_value x)) = Some x" for x
    by (simp add: task_of_def task_value_def scrub_serde)
qed (simp add: task_value_def)

interpretation scrubbed_assignments: serde_pair "\<lambda>a. scrub_value (assignments_value a)" assignments_of
proof
  show "assignments_of (scrub_value (assignments_value x)) = Some x" for x
    by (cases "as_coder_engine x")
      (simp_all add: assignments_of_def assignments_value_def scrub_serde skip_none_def
        engine_serde.opt_enc [of "Some _", unfolded option_value_def, simplified])
qed (simp add: assignments_value_def)

interpretation scrubbed_gate: serde_pair "\<lambda>q. scrub_value (gate_value q)" gate_of
proof
  show "gate_of (scrub_value (gate_value x)) = Some x" for x
    by (simp add: gate_of_def gate_value_def scrub_serde level_serde.opt_enc gate_status_serde.req_enc)
qed (simp add: gate_value_def)

interpretation scrubbed_timeouts: serde_pair "\<lambda>t. scrub_value (timeouts_value t)" timeouts_of
proof
  show "timeouts_of (scrub_value (timeouts_value x)) = Some x" for x
    by (simp add: timeouts_of_def timeouts_value_def scrub_serde u64_serde.req_enc)
qed (simp add: timeouts_value_def)

interpretation scrubbed_error: serde_pair "\<lambda>e. scrub_value (error_value e)" error_of
proof
  show "error_of (scrub_value (error_value x)) = Some x" for x
    by (cases "se_phase x")
      (simp_all add: error_of_def error_value_def scrub_serde skip_none_def
        str_serde.opt_enc [of "Some _", unfolded option_value_def, simplified])
qed (simp add: error_value_def)

interpretation contracted: serde_pair contracted_session session_of
proof
  show "session_of (contracted_session x) = Some x" for x
    by (cases "cs_engine x"; cases "cs_parent_session_id x")
      (simp_all add: session_of_def contracted_session_def struct_of_value skip_none_def str_serde.req_enc str_serde.opt_enc u32_serde.opt_enc
        engine_serde.opt_enc [of "Some _", unfolded option_value_def, simplified]
        str_serde.opt_enc [of "Some _", unfolded option_value_def, simplified])
qed (simp add: contracted_session_def)

lemma scrubbed_coder: "coder_info_of (scrub_value (coder_info_value c)) = Some (c\<lparr>ci_session_id := None\<rparr>)"
  by (simp add: coder_info_of_def coder_info_value_def scrub_serde)

lemma scrubbed_coder_opt:
  "opt coder_info_of (Some (scrub_value (option_value coder_info_value x))) = Some (map_option (\<lambda>c. c\<lparr>ci_session_id := None\<rparr>) x)"
  by (cases x) (auto simp: opt_def option_value_def scrubbed_coder, simp add: coder_info_value_def)

lemma scrubbed_phase: "phase_of (scrub_value (phase_value p)) = Some (forget_session p)"
  by (simp add: phase_of_def phase_value_def scrub_serde scrubbed_coder_opt phase_status_serde.req_enc u32_serde.req_enc forget_session_def)

lemma scrubbed_phases:
  "vec_of phase_of (JArr (filter is_object (scrub_list (map phase_value ps)))) = Some (map forget_session ps)"
proof -
  have "is_object (scrub_value (phase_value p))" for p by (simp add: phase_value_def struct_value_def is_object_def)
  then have "filter is_object (scrub_list (map phase_value ps)) = map (\<lambda>p. scrub_value (phase_value p)) ps"
    by (simp add: scrub_list_map filter_map comp_def)
  moreover have "those (map phase_of (map (\<lambda>p. scrub_value (phase_value p)) ps)) = Some (map forget_session ps)"
    by (induction ps) (auto simp: scrubbed_phase)
  ultimately show ?thesis by (simp add: vec_of_def)
qed

lemma struct_of_object: "is_object v \<Longrightarrow> struct_of names v = Some (lease_get v)"
  by (cases v) (auto simp: is_object_def struct_of_def lease_get_def)

lemma scrubbed_state_get:
  "lease_get (scrub_value (state_value s)) k = (if k \<in> set SCRUB_KEYS then None else map_option scrub_value (map_of (state_fields s) k))"
  by (simp add: lease_get_def state_value_def struct_value_def scrub_fields_lookup bt_of_lookup state_fields_distinct)

lemma scrubbed_state_object: "is_object (scrub_value (state_value s))"
  by (simp add: is_object_def state_value_def struct_value_def)

lemma contracted_sessions:
  "req sessions_of (Some (struct_value [(lit ''coder_sessions'', JArr (map contracted_session cs))])) = Some \<lparr>ss_coder_sessions = cs\<rparr>"
  using contracted.vec_enc [of cs] by (simp add: req_def sessions_of_def struct_of_value vec_value_def)

lemma scrub_exact: "scrub_live_state s = scrubbed s"
proof -
  define s1 where "s1 = s\<lparr>st_sessions := \<lparr>ss_coder_sessions = live_sessions s\<rparr>\<rparr>"
  have live: "live_sessions s1 = live_sessions s" by (simp add: live_sessions_def s1_def)
  define tree1 where "tree1 = lease_put (lit ''sessions'')
    (struct_value [(lit ''coder_sessions'', JArr (map contracted_session (live_sessions s1)))]) (scrub_value (state_value s1))"
  have obj: "is_object tree1" by (simp add: tree1_def scrubbed_state_object)
  have get1: "lease_get tree1 k = (if k = lit ''sessions''
      then Some (struct_value [(lit ''coder_sessions'', JArr (map contracted_session (live_sessions s)))])
      else if k \<in> set SCRUB_KEYS then None else map_option scrub_value (map_of (state_fields s1) k))" for k
    by (simp add: tree1_def lease_get_put scrubbed_state_object scrubbed_state_get live)
  have phases: "lease_get tree1 (lit ''phases'') = Some (JArr (scrub_list (map phase_value (st_phases s))))"
    by (simp add: get1 SCRUB_KEYS_def state_fields_def s1_def vec_value_def)
  define tree2 where "tree2 = lease_put (lit ''phases'') (JArr (filter is_object (scrub_list (map phase_value (st_phases s))))) tree1"
  have get2: "struct_of STATE_FIELDS tree2 = Some (\<lambda>k. if k = lit ''phases''
      then Some (JArr (filter is_object (scrub_list (map phase_value (st_phases s))))) else lease_get tree1 k)"
    by (simp add: tree2_def struct_of_object obj lease_get_put fun_eq_iff)
  have "state_of tree2 = Some (scrubbed s)"
    by (simp add: state_of_def get2 get1 SCRUB_KEYS_def state_fields_def str_serde.req_enc)
      (simp add: scrub_option_value scrubbed_task.req_enc scrubbed_assignments.req_enc scrubbed_gate.req_enc scrubbed_timeouts.req_enc
        scrubbed_error.opt_enc contracted_sessions req_def [of "vec_of _"] scrubbed_phases task_status_serde.req_enc str_serde.req_enc
        str_serde.opt_enc s1_def scrubbed_def)
  then show ?thesis
    using phases by (simp add: scrub_live_state_def Let_def s1_def [symmetric] tree1_def [symmetric] tree2_def)
qed

lemma live_scrubbed [simp]: "live_sessions (scrubbed s) = live_sessions s"
  by (simp add: live_sessions_def scrubbed_def)

lemma scrubbed_names [simp]: "map ph_name (st_phases (scrubbed s)) = map ph_name (st_phases s)"
  by (simp add: scrubbed_def forget_session_def)

lemma scrubbed_idem [simp]: "scrubbed (scrubbed s) = scrubbed s"
  by (auto simp: scrubbed_def forget_session_def live_sessions_def option.map_comp comp_def)

section \<open>Commands in sequence\<close>

text \<open>The serializer reads back what it wrote.\<close>

definition state_text_ok :: "state_lib \<Rightarrow> bool" where
  "state_text_ok L \<longleftrightarrow> (\<forall>s d. sl_to_string_pretty L s = Inr d \<longrightarrow> sl_from_str L d = Inr s)"

definition state_at :: "state_lib \<Rightarrow> lease_files \<Rightarrow> lpath \<Rightarrow> State option" where
  "state_at L F p = (case F p of None \<Rightarrow> None | Some d \<Rightarrow> (case sl_from_str L d of Inl _ \<Rightarrow> None | Inr s \<Rightarrow> Some s))"

definition phase_names :: "State \<Rightarrow> ustr list" where
  "phase_names s = map ph_name (st_phases s)"

fun keeps_history :: "StateAction \<Rightarrow> bool" where
  "keeps_history (State_Init _ _ _) = False"
| "keeps_history (State_Set _ _ _) = False"
| "keeps_history (State_Append _ _ _) = False"
| "keeps_history _ = True"

fun records_session :: "StateAction \<Rightarrow> bool" where
  "records_session (State_RecordSession _ _ _ _ _ _) = True"
| "records_session _ = False"

definition extends :: "bool \<Rightarrow> State \<Rightarrow> State \<Rightarrow> bool" where
  "extends grown s t \<longleftrightarrow> prefix (live_sessions s) (live_sessions t) \<and> (grown \<or> live_sessions t = live_sessions s) \<and>
     prefix (phase_names s) (phase_names t)"

definition on_state :: "state_lib \<Rightarrow> lpath \<Rightarrow> state_env \<times> StateAction \<Rightarrow> bool" where
  "on_state L p c \<longleftrightarrow> sv_lib (fst c) = L \<and> keeps_history (snd c) \<and>
     map_option (under_root (sv_cwd (fst c))) (action_file (snd c)) = Some p"

fun run_states :: "(state_env \<times> StateAction) list \<Rightarrow> lease_files \<Rightarrow> lease_files" where
  "run_states [] F = F"
| "run_states ((E, a) # cs) F = run_states cs (snd (run_state E a F))"

lemma extends_refl: "extends grown s s"
  by (simp add: extends_def)

lemma extends_trans: "extends m s t \<Longrightarrow> extends m' t u \<Longrightarrow> extends (m \<or> m') s u"
  by (auto simp: extends_def)

lemma extends_scrubbed [simp]: "extends m (scrubbed s) t = extends m s t" "extends m s (scrubbed t) = extends m s t"
  by (auto simp: extends_def phase_names_def)

lemma extends_stamp [simp]: "extends m s (t\<lparr>st_updated_at := now\<rparr>) = extends m s t"
  by (simp add: extends_def phase_names_def live_sessions_def)

lemma phase_position_less: "phase_position ps name = Some i \<Longrightarrow> i < length ps"
  by (induction ps arbitrary: i) (auto split: if_splits)

lemma stamp_phase_name [simp]: "ph_name (stamp_phase status now p) = ph_name p"
  by (simp add: stamp_phase_def Let_def)

lemma set_phase_status_names: "set_phase_status s name st now = Inr t \<Longrightarrow> phase_names t = phase_names s \<and> live_sessions t = live_sessions s"
  by (auto simp: set_phase_status_def phase_names_def live_sessions_def find_phase_def map_update list_update_same_conv
      dest: phase_position_less split: option.splits)

lemma validated_session: "validate_session_id i = Inr u \<Longrightarrow> i \<noteq> []"
  by (auto simp: validate_session_id_def split: if_splits)

lemma live_record: "cs_session_id c \<noteq> [] \<Longrightarrow> live_sessions (record_session s c) = live_sessions s @ [c]"
  by (simp add: live_sessions_def record_session_def)

lemma effect_extends:
  assumes "state_effect_of E a p s = Inr eff" "keeps_history a" "eff = Save t \<or> eff = Write_As_Is t"
  shows "extends (records_session a) s t"
  using assms
proof (cases a)
  case (State_UpsertPhase f name n)
  then show ?thesis using assms
    by (auto simp: extends_def upsert_phase_def phase_names_def live_sessions_def split: if_splits option.splits)
next
  case (State_RecordSession f i ph n eng parent)
  then obtain e where "validate_session_id i = Inr ()" "t = record_session s (new_session E i ph n e parent)"
    using assms by (auto simp: and_then_Inr)
  then show ?thesis using State_RecordSession live_record [of "new_session E i ph n e parent" s] validated_session
    by (auto simp: extends_def phase_names_def record_session_def new_session_def)
qed (auto simp: and_then_Inr extends_def phase_names_def live_sessions_def state_set_error_def clear_error_def set_coder_engine_def
       set_contract_def dest!: set_phase_status_names)

lemma sm_atomic_write_cases:
  assumes "sm_atomic_write L io m F = (r, F')"
  obtains e where "r = Inl e" "F' = F" | d where "r = Inr ()" "sl_to_string_pretty L (sm_state m) = Inr d" "F' = F(sm_file_path m \<mapsto> d)"
proof -
  from assms have "(\<exists>e. r = Inl e \<and> F' = F) \<or> (\<exists>d. r = Inr () \<and> sl_to_string_pretty L (sm_state m) = Inr d \<and> F' = F(sm_file_path m \<mapsto> d))"
    by (cases "wi_lock io") (auto simp: sm_atomic_write_def split: sum.splits option.splits, metis+)
  then show thesis using that by blast
qed

lemma sm_atomic_write_state:
  assumes "sm_atomic_write L io m F = (r, F')" "state_text_ok L"
  shows "(\<forall>q. q \<noteq> sm_file_path m \<longrightarrow> F' q = F q) \<and> (r = Inr () \<longrightarrow> state_at L F' (sm_file_path m) = Some (sm_state m)) \<and>
    (r \<noteq> Inr () \<longrightarrow> F' = F)"
  using assms(2) by (cases rule: sm_atomic_write_cases [OF assms(1)]) (auto simp: state_at_def state_text_ok_def)

lemma load_read_Inr:
  assumes "load_read E f F = Inr m"
  obtains s where "state_at (sv_lib E) F (under_root (sv_cwd E) f) = Some s" "sm_state m = scrubbed s"
    "sm_file_path m = under_root (sv_cwd E) f"
  using assms by (auto simp: load_read_def state_at_def scrub_exact Let_def split: option.splits sum.splits)

text \<open>Loading keeps the state up to scrubbing, however it ends.\<close>

lemma load_state:
  assumes "sm_load E f F = (r, F')" "state_text_ok (sv_lib E)" "p = under_root (sv_cwd E) f" "state_at (sv_lib E) F p = Some s"
  shows "(\<forall>q. q \<noteq> p \<longrightarrow> F' q = F q) \<and> (state_at (sv_lib E) F' p = Some s \<or> state_at (sv_lib E) F' p = Some (scrubbed s)) \<and>
    (\<forall>m. r = Inr m \<longrightarrow> sm_state m = scrubbed s \<and> sm_file_path m = p \<and> state_at (sv_lib E) F' p = Some (scrubbed s))"
proof (cases "load_read E f F")
  case (Inl e)
  then show ?thesis using assms by (auto simp: sm_load_def)
next
  case (Inr m)
  from load_read_Inr [OF this] assms(3,4) have m: "sm_state m = scrubbed s" "sm_file_path m = p" by auto
  obtain r' where w: "sm_atomic_write (sv_lib E) (sv_load_io E) m F = (r', F')" "r = (case r' of Inl e \<Rightarrow> Inl e | Inr _ \<Rightarrow> Inr m)"
    using assms(1) Inr by (auto simp: sm_load_def split: prod.splits sum.splits)
  from sm_atomic_write_state [OF w(1) assms(2)] show ?thesis using w(2) m assms(4) by (cases r') auto
qed

lemma finish_state_keeps:
  assumes "finish_state E m eff F = (r, F')" "state_text_ok (sv_lib E)" "state_at (sv_lib E) F (sm_file_path m) = Some s"
    and "\<And>t. eff = Save t \<or> eff = Write_As_Is t \<Longrightarrow> extends grown s t"
  shows "(\<forall>q. q \<noteq> sm_file_path m \<longrightarrow> F' q = F q) \<and> (\<exists>s'. state_at (sv_lib E) F' (sm_file_path m) = Some s' \<and> extends grown s s')"
proof (cases eff)
  case (Answer ls)
  then show ?thesis using assms by (auto simp: finish_state_def extends_refl)
next
  case (Save t)
  let ?m = "m\<lparr>sm_state := scrub_live_state (t\<lparr>st_updated_at := sv_save_now E\<rparr>)\<rparr>"
  obtain r' where w: "sm_atomic_write (sv_lib E) (sv_io E) ?m F = (r', F')"
    using assms(1) Save by (auto simp: finish_state_def sm_save_def map_prod_def split: prod.splits)
  from sm_atomic_write_state [OF w assms(2)] show ?thesis
    using assms(3) assms(4) [of t] Save by (cases "r' = Inr ()") (auto simp: extends_refl scrub_exact)
next
  case (Write_As_Is t)
  let ?m = "m\<lparr>sm_state := scrub_live_state t\<rparr>"
  obtain r' where w: "sm_atomic_write (sv_lib E) (sv_io E) ?m F = (r', F')"
    using assms(1) Write_As_Is by (auto simp: finish_state_def map_prod_def split: prod.splits)
  from sm_atomic_write_state [OF w assms(2)] show ?thesis
    using assms(3) assms(4) [of t] Write_As_Is by (cases "r' = Inr ()") (auto simp: extends_refl scrub_exact)
qed

lemma run_state_loaded:
  assumes "action_file a = Some f"
  shows "run_state E a F = (case sm_load E f F of (Inl e, F') \<Rightarrow> (Inl e, F') | (Inr m, F') \<Rightarrow>
    (case state_effect_of E a (sm_file_path m) (sm_state m) of Inl e \<Rightarrow> (Inl e, F') | Inr eff \<Rightarrow> finish_state E m eff F'))"
  using assms by (cases a) (auto simp: run_state_def)

lemma run_state_keeps:
  assumes "on_state L p (E, a)" "state_text_ok L" "state_at L F p = Some s" "run_state E a F = (r, F')"
  shows "(\<forall>q. q \<noteq> p \<longrightarrow> F' q = F q) \<and> (\<exists>s'. state_at L F' p = Some s' \<and> extends (records_session a) s s')"
proof -
  from assms(1) obtain f where f: "action_file a = Some f" "p = under_root (sv_cwd E) f" "sv_lib E = L" "keeps_history a"
    by (auto simp: on_state_def)
  obtain r1 F1 where l: "sm_load E f F = (r1, F1)" by fastforce
  note ls = load_state [OF l, unfolded f(3), OF assms(2) f(2) assms(3)]
  consider "F' = F1" | m eff where "r1 = Inr m" "state_effect_of E a (sm_file_path m) (sm_state m) = Inr eff"
      "finish_state E m eff F1 = (r, F')"
    using assms(4) l by (auto simp: run_state_loaded [OF f(1)] split: sum.splits)
  then show ?thesis
  proof cases
    case 1
    then show ?thesis using ls by (auto simp: extends_refl)
  next
    case 2
    then have m: "sm_state m = scrubbed s" "sm_file_path m = p" "state_at L F1 p = Some (scrubbed s)" and q: "\<forall>q. q \<noteq> p \<longrightarrow> F1 q = F q"
      using ls by blast+
    have "extends (records_session a) (scrubbed s) t" if "eff = Save t \<or> eff = Write_As_Is t" for t
      using effect_extends [OF 2(2) f(4) that] m(1) by simp
    from finish_state_keeps [OF 2(3), of "scrubbed s", unfolded f(3) m(2), OF assms(2) m(3) this] q show ?thesis by simp
  qed
qed

lemma run_states_keep:
  assumes "list_all (on_state L p) cs" "state_text_ok L" "state_at L F p = Some s"
  shows "(\<forall>q. q \<noteq> p \<longrightarrow> run_states cs F q = F q) \<and>
    (\<exists>s'. state_at L (run_states cs F) p = Some s' \<and> extends (list_ex (\<lambda>c. records_session (snd c)) cs) s s')"
  using assms(1,3)
proof (induction cs arbitrary: F s)
  case (Cons c cs)
  obtain E a where c: "c = (E, a)" by fastforce
  obtain r F' where r: "run_state E a F = (r, F')" by fastforce
  from run_state_keeps [OF _ assms(2) Cons.prems(2) r] Cons.prems(1) c obtain s1 where s1: "\<forall>q. q \<noteq> p \<longrightarrow> F' q = F q"
      "state_at L F' p = Some s1" "extends (records_session a) s s1" by auto
  from Cons.IH [OF _ s1(2)] Cons.prems(1) obtain s2 where "\<forall>q. q \<noteq> p \<longrightarrow> run_states cs F' q = F' q"
      "state_at L (run_states cs F') p = Some s2" "extends (list_ex (\<lambda>c. records_session (snd c)) cs) s1 s2" by auto
  then show ?case using s1 c r extends_trans [OF s1(3)] by auto
qed (simp add: extends_refl)

text \<open>A recorded session is the one a later query for its phase and engine prints, until another one is recorded.\<close>

lemma recorded_session:
  assumes "state_text_ok L" "sv_lib E = L" "p = under_root (sv_cwd E) f" "state_at L F p = Some s"
    and "run_state E (State_RecordSession f i ph n eng parent) F = (Inr out, F1)"
  shows "\<exists>e c s1. state_at L F1 p = Some s1 \<and> live_sessions s1 = live_sessions s @ [c] \<and> cs_session_id c = i \<and>
    cs_phase c = Some ph \<and> parse_engine eng = Inr e \<and> cs_engine c = e"
proof -
  obtain r0 F0 where l: "sm_load E f F = (r0, F0)" by fastforce
  obtain m where m: "r0 = Inr m" "sm_state m = scrubbed s" "sm_file_path m = p"
    using load_state [OF l, of p s] assms l by (cases r0) (auto simp: run_state_loaded)
  obtain e c where e: "validate_session_id i = Inr ()" "parse_engine eng = Inr e" "c = new_session E i ph n e parent"
      "finish_state E m (Save (record_session (scrubbed s) c)) F0 = (Inr out, F1)"
    using assms(5) l m by (auto simp: run_state_loaded and_then_def split: sum.splits)
  let ?t = "scrubbed ((record_session (scrubbed s) c)\<lparr>st_updated_at := sv_save_now E\<rparr>)"
  obtain r' F' where w: "sm_atomic_write L (sv_io E) (m\<lparr>sm_state := ?t\<rparr>) F0 = (r', F')" by fastforce
  then have "map_sum id (\<lambda>_. []) r' = Inr out" "F' = F1"
    using e(4) assms(2) by (simp_all add: finish_state_def sm_save_def scrub_exact)
  then have "r' = Inr ()" "F' = F1" by (cases r'; simp)+
  with sm_atomic_write_state [OF w assms(1)] m(3) have "state_at L F1 p = Some ?t" by simp
  moreover have "live_sessions ?t = live_sessions s @ [c]"
    using live_record [of c "scrubbed s"] e(1,3) validated_session
    by (simp add: new_session_def live_sessions_def [of "_\<lparr>st_updated_at := _\<rparr>"]) (simp add: live_sessions_def)
  ultimately show ?thesis using e(2,3) by (intro exI [of _ e] exI [of _ c] exI [of _ ?t]) (simp add: new_session_def)
qed

lemma recorded_session_found:
  assumes "state_text_ok L" "sv_lib E = L" "p = under_root (sv_cwd E) f" "state_at L F p = Some s"
    and "run_state E (State_RecordSession f i ph n eng parent) F = (Inr out, F1)"
    and "list_all (on_state L p) cs" "\<not> list_ex (\<lambda>c. records_session (snd c)) cs"
    and "sv_lib E' = L" "p = under_root (sv_cwd E') f'"
    and "run_state E' (State_GetLastSession f' (Some ph) eng) (run_states cs F1) = (Inr ls, F2)"
  shows "ls = [i]"
proof -
  from recorded_session [OF assms(1-5)] obtain e c s1 where s1: "state_at L F1 p = Some s1" "live_sessions s1 = live_sessions s @ [c]"
      "cs_session_id c = i" "cs_phase c = Some ph" "parse_engine eng = Inr e" "cs_engine c = e" by blast
  from run_states_keep [OF assms(6,1) s1(1)] assms(7) obtain s2 where s2: "state_at L (run_states cs F1) p = Some s2"
      "live_sessions s2 = live_sessions s1" by (auto simp: extends_def)
  obtain r0 F0 where l: "sm_load E' f' (run_states cs F1) = (r0, F0)" by fastforce
  obtain m where m: "r0 = Inr m" "sm_state m = scrubbed s2"
    using load_state [OF l, of p s2] assms(1,8,9,10) l s2(1) by (cases r0) (auto simp: run_state_loaded)
  have "session_matches (Some ph) e c" using s1(4,6) by (cases e) (auto simp: session_matches_def)
  then have "get_last_session (scrubbed s2) (Some ph) e = Some i"
    using s1(2,3) s2(2) by (simp add: get_last_session_def scrubbed_def)
  then show ?thesis using assms(10) l m s1(5) by (auto simp: run_state_loaded finish_state_def)
qed

lemma state_of_cong:
  assumes "\<And>j. j \<in> set STATE_FIELDS \<Longrightarrow> map_of fs j = map_of fs' j"
  shows "state_of (JObj fs) = state_of (JObj fs')"
proof -
  have "\<forall>j \<in> set STATE_FIELDS. map_of fs j = map_of fs' j" using assms by blast
  then show ?thesis by (simp add: state_of_def struct_of_def STATE_FIELDS_def)
qed

text \<open>A write to a field that the state does not have succeeds and changes nothing.\<close>

lemma unknown_field_ignored:
  assumes "k \<notin> set STATE_FIELDS" "validate_jq_path path = Inr ()" "parse_path path = [Key k]"
  shows "state_set L s path v = Inr s"
proof -
  have "state_of (JObj (bt_insert k v (bt_of (state_fields s)))) = state_of (state_value s)"
    unfolding state_value_def struct_value_def by (rule state_of_cong) (use assms(1) in \<open>auto simp: bt_insert_lookup\<close>)
  then show ?thesis using assms(2,3)
    by (simp add: state_set_def set_at_path_def decode_state_def state_value_def struct_value_def object_fields_def
        state_serde.dec_enc [unfolded state_value_def struct_value_def])
qed

section \<open>Properties\<close>

definition demo_session :: CoderSession where
  "demo_session = \<lparr>cs_session_id = lit ''session1'', cs_phase = Some (lit ''p''), cs_iteration = Some 0, cs_engine = None,
     cs_parent_session_id = None, cs_created_at = Some (lit ''t'')\<rparr>"

definition demo_state :: "CoderSession list \<Rightarrow> State" where
  "demo_state cs = (initial_state (lit ''u'') (lit ''n'') (lit ''p'') (lit ''t''))\<lparr>st_sessions := \<lparr>ss_coder_sessions = cs\<rparr>\<rparr>"

text \<open>A serializer for two states.\<close>

definition demo_state_lib :: state_lib where
  "demo_state_lib =
     \<lparr>sl_from_str = (\<lambda>d. if d = lit ''a'' then Inr (demo_state []) else if d = lit ''b'' then Inr (demo_state [demo_session]) else Inl []),
      sl_to_string_pretty = (\<lambda>s. if s = demo_state [] then Inr (lit ''a'') else if s = demo_state [demo_session] then Inr (lit ''b'') else Inl []),
      sl_value_from_str = Inl, sl_show_json = (\<lambda>_. []), sl_from_value_error = (\<lambda>_. [])\<rparr>"

definition demo_write_io :: write_io where
  "demo_write_io = \<lparr>wi_lock = Inr (), wi_tmp = None, wi_write = None, wi_persist = None\<rparr>"

definition demo_state_env :: state_env where
  "demo_state_env = \<lparr>sv_lib = demo_state_lib, sv_cwd = [], sv_canonicalize = Inr, sv_git_root = Inr [], sv_create_dir = None,
     sv_read = None, sv_uuid = lit ''u'', sv_now = lit ''t'', sv_save_now = lit ''t'', sv_load_io = demo_write_io, sv_io = demo_write_io\<rparr>"

definition demo_record :: StateAction where
  "demo_record = State_RecordSession (lit ''s'') (lit ''session1'') (lit ''p'') 0 None None"

lemma demo_env [simp]:
  "sv_lib demo_state_env = demo_state_lib" "sv_cwd demo_state_env = []" "sv_read demo_state_env = None"
  "sv_now demo_state_env = lit ''t''" "sv_save_now demo_state_env = lit ''t''" "sv_load_io demo_state_env = demo_write_io"
  "sv_io demo_state_env = demo_write_io"
  by (simp_all add: demo_state_env_def)

lemma demo_texts [simp]:
  "sl_from_str demo_state_lib (lit ''a'') = Inr (demo_state [])" "sl_from_str demo_state_lib (lit ''b'') = Inr (demo_state [demo_session])"
  "sl_to_string_pretty demo_state_lib (demo_state []) = Inr (lit ''a'')"
  by (simp_all add: demo_state_lib_def)

lemma demo_state_text_ok: "state_text_ok demo_state_lib"
  by (auto simp: state_text_ok_def demo_state_lib_def split: if_splits)

lemma demo_live: "live_sessions (demo_state []) = []" "live_sessions (demo_state [demo_session]) = [demo_session]"
  by (simp_all add: live_sessions_def demo_state_def demo_session_def lit_def)

lemma demo_scrubbed [simp]: "scrubbed (demo_state cs) = (demo_state (live_sessions (demo_state cs)))"
  by (simp add: scrubbed_def demo_state_def initial_state_def)

lemma demo_path: "under_root [] (lit ''s'') = [lit ''s'']"
  by code_simp

lemma demo_load_read:
  "load_read demo_state_env (lit ''s'') [[lit ''s''] \<mapsto> lit ''a''] =
   Inr \<lparr>sm_state = demo_state [], sm_file_path = [lit ''s''], sm_lock_path = [lit ''.state.lock''], sm_dir = []\<rparr>"
  by (simp add: load_read_def demo_path parent_of_def scrub_exact demo_live)

lemma demo_differs: "demo_state [demo_session] \<noteq> demo_state []"
  using arg_cong [of "demo_state [demo_session]" "demo_state []" live_sessions] demo_live by auto

lemma demo_recorded:
  "run_state demo_state_env demo_record [[lit ''s''] \<mapsto> lit ''a''] = (Inr [], [[lit ''s''] \<mapsto> lit ''b''])"
proof -
  let ?m = "\<lparr>sm_state = demo_state [], sm_file_path = [lit ''s''], sm_lock_path = [lit ''.state.lock''], sm_dir = []\<rparr>"
  have l: "sm_load demo_state_env (lit ''s'') [[lit ''s''] \<mapsto> lit ''a''] = (Inr ?m, [[lit ''s''] \<mapsto> lit ''a''])"
    by (simp add: sm_load_def demo_load_read sm_atomic_write_def demo_write_io_def)
  have v: "validate_session_id (lit ''session1'') = Inr ()" by code_simp
  have "(record_session (demo_state []) (new_session demo_state_env (lit ''session1'') (lit ''p'') 0 None None))\<lparr>st_updated_at := lit ''t''\<rparr> =
    demo_state [demo_session]"
    by (simp add: record_session_def demo_state_def initial_state_def new_session_def demo_session_def)
  then have "sm_save demo_state_env (?m\<lparr>sm_state := record_session (demo_state []) (new_session demo_state_env (lit ''session1'') (lit ''p'') 0 None None)\<rparr>)
      [[lit ''s''] \<mapsto> lit ''a''] = (Inr (), [[lit ''s''] \<mapsto> lit ''b''])"
    by (simp add: sm_save_def scrub_exact demo_live sm_atomic_write_def demo_write_io_def demo_state_lib_def demo_differs)
  then show ?thesis using run_state_loaded [of demo_record "lit ''s''" demo_state_env] l v
    by (simp add: demo_record_def parse_engine_def finish_state_def)
qed

text \<open>
  C34. History is kept: after any sequence of commands other than init, set and append on a state file, however
  each of them ends, no other file changed, the recorded sessions and the phases of before are still there in
  the same order, and without a recording command the sessions are the same.
\<close>

theorem sessions_kept:
  assumes "list_all (on_state L p) cs" "state_text_ok L" "state_at L F p = Some s"
  shows "(\<forall>q. q \<noteq> p \<longrightarrow> run_states cs F q = F q) \<and>
    (\<exists>s'. state_at L (run_states cs F) p = Some s' \<and> prefix (live_sessions s) (live_sessions s') \<and>
       prefix (phase_names s) (phase_names s') \<and>
       (list_ex (\<lambda>c. records_session (snd c)) cs \<or> live_sessions s' = live_sessions s))"
  using run_states_keep [OF assms] by (auto simp: extends_def)

theorem sessions_kept_witness:
  "\<exists>s'. state_at demo_state_lib (run_states [(demo_state_env, demo_record)] [[lit ''s''] \<mapsto> lit ''a'']) [lit ''s''] = Some s' \<and>
     prefix (live_sessions (demo_state [])) (live_sessions s')"
proof -
  have "list_all (on_state demo_state_lib [lit ''s'']) [(demo_state_env, demo_record)]"
    by (simp add: on_state_def demo_state_env_def demo_record_def demo_path)
  moreover have "state_at demo_state_lib [[lit ''s''] \<mapsto> lit ''a''] [lit ''s''] = Some (demo_state [])"
    by (simp add: state_at_def demo_state_lib_def)
  ultimately show ?thesis using sessions_kept [OF _ demo_state_text_ok] by blast
qed

text \<open>
  C40. A reader can revert a writer: every command writes back what it read when it loaded, and the lock covers the
  write alone. When a session is recorded between the read and the write of another command, be it one that only
  prints, both succeed and the session is gone.
\<close>

theorem reader_reverts_writer:
  assumes "state_text_ok L" "sv_lib E = L" "sv_lib E' = L" "p = under_root (sv_cwd E) f" "p = under_root (sv_cwd E') f'"
    and "load_read E f F = Inr m"
    and "run_state E' (State_RecordSession f' i ph n eng parent) F = (Inr out, F1)"
    and "sm_atomic_write L (sv_load_io E) m F1 = (Inr (), F2)"
  shows "\<exists>s s1 s2 c. state_at L F p = Some s \<and> state_at L F1 p = Some s1 \<and> state_at L F2 p = Some s2 \<and>
    live_sessions s1 = live_sessions s @ [c] \<and> cs_session_id c = i \<and> live_sessions s2 = live_sessions s"
proof -
  obtain s where s: "state_at L F p = Some s" "sm_state m = scrubbed s" "sm_file_path m = p"
    using assms(2,4) by (auto elim: load_read_Inr [OF assms(6)])
  from recorded_session [OF assms(1,3,5) s(1) assms(7)] obtain c s1 where
    "state_at L F1 p = Some s1" "live_sessions s1 = live_sessions s @ [c]" "cs_session_id c = i" by blast
  moreover have "state_at L F2 p = Some (scrubbed s)" using sm_atomic_write_state [OF assms(8,1)] s by simp
  ultimately show ?thesis using s(1) by (intro exI [of _ s] exI [of _ s1] exI [of _ "scrubbed s"] exI [of _ c]) simp
qed

theorem reader_reverts_writer_witness:
  "\<exists>s1 s2. state_at demo_state_lib [[lit ''s''] \<mapsto> lit ''b''] [lit ''s''] = Some s1 \<and> live_sessions s1 \<noteq> [] \<and>
     state_at demo_state_lib [[lit ''s''] \<mapsto> lit ''a''] [lit ''s''] = Some s2 \<and> live_sessions s2 = []"
proof -
  let ?m = "\<lparr>sm_state = demo_state [], sm_file_path = [lit ''s''], sm_lock_path = [lit ''.state.lock''], sm_dir = []\<rparr>"
  have w: "sm_atomic_write demo_state_lib (sv_load_io demo_state_env) ?m [[lit ''s''] \<mapsto> lit ''b''] = (Inr (), [[lit ''s''] \<mapsto> lit ''a''])"
    by (simp add: sm_atomic_write_def demo_write_io_def)
  have p: "[lit ''s''] = under_root (sv_cwd demo_state_env) (lit ''s'')" by (simp add: demo_path)
  from reader_reverts_writer [OF demo_state_text_ok demo_env(1) demo_env(1) p p demo_load_read demo_recorded [unfolded demo_record_def] w]
  show ?thesis by (auto simp: state_at_def demo_live)
qed

end
