(* ===== verification/Semantic_Gc.thy ===== *)
theory Semantic_Gc
  imports State_Manager
begin

text \<open>
  Garbage collection of the semantic databases of the agent harness (\<^verbatim>\<open>harness-rust/crates/shared/src/semantic_gc.rs\<close>
  with \<^verbatim>\<open>semantic_lock.rs\<close> and \<^verbatim>\<open>paths.rs\<close>), its tool wrapper (\<^verbatim>\<open>semantic-mcp/src/admin_gc.rs\<close>) and its command
  (\<^verbatim>\<open>agent-core/src/cmd/semantic.rs\<close>).

  Files are a map from paths to lengths. What SQLite reads from a database file, the times, the outcome of a lock
  probe and the failures of calls are parameters. Opening a database is not a pure read: the databases use a
  write-ahead log, so a connection may create its companion files, write the log back into the database and remove the
  log when it is closed. What it makes of these files is a parameter; that it touches no others, keeps the database
  file and changes nothing of what the queries answer is SQLite's documented behaviour. Signed 64-bit arithmetic
  wraps, as in a release build.
\<close>

section \<open>Definitions\<close>

subsection \<open>Paths\<close>

definition validate_project_id_segment :: "ustr \<Rightarrow> AgentError + unit" where
  "validate_project_id_segment i =
     (if i = [] then Inl (Agent_Validation (lit ''project_id must not be empty''))
      else if \<not> list_all id_char i
      then Inl (Agent_Validation (lit ''project_id must contain only letters, numbers, '' @ [39] @ lit ''_'' @ [39] @ lit '' or '' @ [39] @ lit ''-'' @ [39]))
      else Inr ())"

definition is_test_mode :: "(ustr \<Rightarrow> ustr option) \<Rightarrow> bool" where
  "is_test_mode env \<longleftrightarrow> env (lit ''REVHARNESS_TEST_HARNESS'') = Some (lit ''1'') \<and> env (lit ''SEMANTIC_MCP_HOME'') \<noteq> None"

definition platform_data_root :: "lpath \<Rightarrow> (ustr \<Rightarrow> ustr option) \<Rightarrow> AgentError + lpath" where
  "platform_data_root cwd env =
     (case env (lit ''XDG_DATA_HOME'') of
        Some x \<Rightarrow> Inr (under_root cwd x)
      | None \<Rightarrow>
          (case env (lit ''HOME'') of
             Some h \<Rightarrow> Inr (under_root cwd h @ [lit ''.local'', lit ''share''])
           | None \<Rightarrow> Inl (Agent_Config (lit ''HOME environment variable not set''))))"

definition semantic_mcp_data_root :: "lpath \<Rightarrow> (ustr \<Rightarrow> ustr option) \<Rightarrow> AgentError + lpath" where
  "semantic_mcp_data_root cwd env =
     (case (if is_test_mode env then env (lit ''SEMANTIC_MCP_HOME'') else env (lit ''REV_HARNESS_RUST_DB_HOME'')) of
        Some p \<Rightarrow> Inr (under_root cwd p)
      | None \<Rightarrow> map_sum id (\<lambda>r. r @ [lit ''Revharness'', lit ''semantic-mcp'']) (platform_data_root cwd env))"

definition semantic_mcp_db_path :: "lpath \<Rightarrow> (ustr \<Rightarrow> ustr option) \<Rightarrow> ustr \<Rightarrow> AgentError + lpath" where
  "semantic_mcp_db_path cwd env i =
     and_then (validate_project_id_segment i) (\<lambda>_.
     and_then (semantic_mcp_data_root cwd env) (\<lambda>r. Inr (r @ [lit ''v1'', i, lit ''semantic.db''])))"

definition suffixed :: "lpath \<Rightarrow> ustr \<Rightarrow> lpath" where
  "suffixed p s = butlast p @ [last p @ s]"

definition lock_file_path :: "lpath \<Rightarrow> lpath" where
  "lock_file_path db = suffixed db (lit ''.harness-lock'')"

definition managed_db_file_paths :: "lpath \<Rightarrow> lpath list" where
  "managed_db_file_paths db = [db, suffixed db (lit ''-wal''), suffixed db (lit ''-shm''), lock_file_path db]"

subsection \<open>The world of a collection\<close>

definition REVHARNESS_APP_ID :: int where
  "REVHARNESS_APP_ID = 0x5253454D"

definition REVHARNESS_MANAGED_TABLES :: "ustr list" where
  "REVHARNESS_MANAGED_TABLES = map lit [''projects'', ''components'', ''components_fts'', ''_ts_meta'', ''capsules'', ''symbols'',
     ''symbol_dependencies'', ''file_parse_cache'']"

text \<open>What SQLite answers for a database file; \<open>None\<close> where the file or the row cannot be read.\<close>

record db_view =
  dv_application_id :: "int option"
  dv_tables :: "ustr set"
  dv_last_accessed :: "ustr option"
  dv_root_path :: "ustr option"

datatype lock_probe = Probe_Acquired | Probe_Unopenable ustr | Probe_Locked ustr

datatype rmdir_result = Rmdir_Ok | Rmdir_NotFound | Rmdir_NotEmpty | Rmdir_Failed ustr

record dir_entry =
  de_name :: ustr
  de_unicode :: bool
  de_is_dir :: bool

type_synonym gc_files = "lpath \<Rightarrow> nat option"

text \<open>The connections a collection opens: for the last access (read-write), and for the identifier, the tables and the root.\<close>

datatype sqlite_open = Open_Last_Accessed | Open_Application_Id | Open_Schema | Open_Root_Path

record gc_env =
  ge_data_root :: "AgentError + lpath"
  ge_show_error :: "AgentError \<Rightarrow> ustr"
  ge_now :: "ustr + int"
  ge_version_exists :: bool
  ge_entries :: "ustr + (ustr + dir_entry) list"
  ge_db :: "lpath \<Rightarrow> db_view"
  ge_sqlite :: "sqlite_open \<Rightarrow> lpath \<Rightarrow> gc_files \<Rightarrow> gc_files"
  ge_mtime :: "lpath \<Rightarrow> int option"
  ge_exists :: "ustr \<Rightarrow> bool"
  ge_lock :: "lpath \<Rightarrow> lock_probe"
  ge_remove_file :: "lpath \<Rightarrow> ustr option"
  ge_remove_dir :: "lpath \<Rightarrow> rmdir_result"

datatype GcMode = Gc_Ttl | Gc_OrphansMissingRoot

record GcOptions =
  go_older_than_days :: nat
  go_dry_run :: bool
  go_force :: bool
  go_ignore_active_lock :: bool
  go_mode :: GcMode
  go_only_project_id :: "ustr option"

definition default_gc_options :: GcOptions where
  "default_gc_options = \<lparr>go_older_than_days = 30, go_dry_run = True, go_force = False, go_ignore_active_lock = False,
     go_mode = Gc_Ttl, go_only_project_id = None\<rparr>"

record GcCandidate =
  gc_path :: ustr
  gc_size_bytes :: nat
  gc_last_accessed :: int

record GcOutput =
  gx_scanned :: nat
  gx_candidates :: "GcCandidate list"
  gx_deleted :: "ustr list"
  gx_skipped_active :: "GcCandidate list"
  gx_tool_errors :: "ustr list"
  gx_freed_bytes :: nat
  gx_dry_run :: bool

subsection \<open>Identification and age\<close>

definition wrap_i64 :: "int \<Rightarrow> int" where
  "wrap_i64 n = signed_take_bit 63 n"

definition parse_i64_text :: "ustr \<Rightarrow> int option" where
  "parse_i64_text s =
     (case s of
        [] \<Rightarrow> None
      | c # r \<Rightarrow>
          if c = 45 then (if r = [] then None else case parse_digits (2 ^ 63) r 0 of Inr n \<Rightarrow> Some (- int n) | Inl _ \<Rightarrow> None)
          else (case parse_unsigned (2 ^ 63 - 1) s of Inr n \<Rightarrow> Some (int n) | Inl _ \<Rightarrow> None))"

text \<open>A connection to a database, opened and closed again.\<close>

definition sqlite_companions :: "lpath \<Rightarrow> lpath list" where
  "sqlite_companions db = [suffixed db (lit ''-wal''), suffixed db (lit ''-shm''), suffixed db (lit ''-journal'')]"

definition sqlite_connect :: "gc_env \<Rightarrow> lpath \<Rightarrow> sqlite_open \<Rightarrow> gc_files \<Rightarrow> gc_files" where
  "sqlite_connect E db k F =
     (\<lambda>p. if p \<in> set (sqlite_companions db) then ge_sqlite E k db F p
          else if p = db then (case ge_sqlite E k db F p of Some n \<Rightarrow> Some n | None \<Rightarrow> F p)
          else F p)"

definition last_accessed_row :: "db_view \<Rightarrow> int option" where
  "last_accessed_row d =
     Option.bind (dv_last_accessed d) (\<lambda>t. Option.bind (parse_i64_text t) (\<lambda>s.
       if - (2 ^ 63) \<le> s * 1000 \<and> s * 1000 < 2 ^ 63 then Some (s * 1000) else None))"

definition read_last_accessed_unix_ms :: "gc_env \<Rightarrow> lpath \<Rightarrow> gc_files \<Rightarrow> int option \<times> gc_files" where
  "read_last_accessed_unix_ms E db F = (last_accessed_row (ge_db E db), sqlite_connect E db Open_Last_Accessed F)"

definition checked_mul_u64 :: "nat \<Rightarrow> nat \<Rightarrow> nat option" where
  "checked_mul_u64 a b = (if a * b \<le> u64_max then Some (a * b) else None)"

definition gc_ttl_ms :: "nat \<Rightarrow> int option" where
  "gc_ttl_ms days =
     map_option (\<lambda>n. wrap_i64 (int n))
       (Option.bind (checked_mul_u64 days 24) (\<lambda>a. Option.bind (checked_mul_u64 a 60) (\<lambda>b.
        Option.bind (checked_mul_u64 b 60) (\<lambda>c. checked_mul_u64 c 1000))))"

definition has_revharness_schema :: "db_view \<Rightarrow> bool" where
  "has_revharness_schema d \<longleftrightarrow> list_all (\<lambda>t. t \<in> dv_tables d) REVHARNESS_MANAGED_TABLES"

definition is_managed_revharness_db :: "db_view \<Rightarrow> bool" where
  "is_managed_revharness_db d \<longleftrightarrow>
     (case dv_application_id d of
        None \<Rightarrow> False
      | Some a \<Rightarrow> a = REVHARNESS_APP_ID \<or> (a = 0 \<and> has_revharness_schema d))"

definition is_foreign_db :: "db_view \<Rightarrow> bool" where
  "is_foreign_db d \<longleftrightarrow> \<not> is_managed_revharness_db d"

text \<open>The connections behind the identification of a database.\<close>

definition managed_opens :: "db_view \<Rightarrow> sqlite_open list" where
  "managed_opens d = Open_Application_Id # (if dv_application_id d = Some 0 then [Open_Schema] else [])"

definition assert_rsem_managed_db :: "(int \<Rightarrow> ustr) \<Rightarrow> bool \<Rightarrow> db_view \<Rightarrow> ustr \<Rightarrow> AgentError + unit" where
  "assert_rsem_managed_db show_hex exists d operation =
     (if \<not> exists
      then Inl (Agent_Validation (lit ''refusing '' @ operation @ lit '': semantic.db does not exist at managed path; start semantic-mcp or run a managed bootstrap first''))
      else case dv_application_id d of
        Some a \<Rightarrow>
          if a = REVHARNESS_APP_ID then Inr ()
          else Inl (Agent_Validation (lit ''refusing '' @ operation @ lit '': semantic.db is not RevHarness-managed (application_id='' @
            show_hex a @ lit '', expected '' @ show_hex REVHARNESS_APP_ID @ lit '')''))
      | None \<Rightarrow> Inl (Agent_Validation (lit ''refusing '' @ operation @ lit '': semantic.db application_id could not be read'')))"

datatype OrphanClass = Orphan | Foreign | RootPresent | RootUnknown

definition classify_orphan :: "(ustr \<Rightarrow> bool) \<Rightarrow> db_view \<Rightarrow> OrphanClass" where
  "classify_orphan exists d =
     (if \<not> is_managed_revharness_db d then Foreign
      else case dv_root_path d of
        Some r \<Rightarrow> if trim r = [] then RootUnknown else if exists (trim r) then RootPresent else Orphan
      | None \<Rightarrow> RootUnknown)"

definition classify_opens :: "db_view \<Rightarrow> sqlite_open list" where
  "classify_opens d = managed_opens d @ (if is_managed_revharness_db d then [Open_Root_Path] else [])"

definition gc_eligible :: "GcMode \<Rightarrow> (ustr \<Rightarrow> bool) \<Rightarrow> db_view \<Rightarrow> int \<Rightarrow> int \<Rightarrow> int \<Rightarrow> bool" where
  "gc_eligible mode exists d now_ms last_ms ttl_ms =
     (let aged = (ttl_ms \<le> wrap_i64 (now_ms - last_ms)) in
      case mode of
        Gc_Ttl \<Rightarrow> aged
      | Gc_OrphansMissingRoot \<Rightarrow>
          (case classify_orphan exists d of Orphan \<Rightarrow> True | Foreign \<Rightarrow> False | RootPresent \<Rightarrow> False | RootUnknown \<Rightarrow> aged))"

subsection \<open>Locking and deletion\<close>

text \<open>Probing creates the lock file when it can be opened.\<close>

definition probe_lock :: "gc_env \<Rightarrow> lpath \<Rightarrow> gc_files \<Rightarrow> bool \<times> gc_files" where
  "probe_lock E db F =
     (let touched = (if F (lock_file_path db) = None then F(lock_file_path db \<mapsto> 0) else F) in
      case ge_lock E db of
        Probe_Acquired \<Rightarrow> (False, touched)
      | Probe_Locked _ \<Rightarrow> (True, touched)
      | Probe_Unopenable _ \<Rightarrow> (True, F))"

fun remove_files :: "gc_env \<Rightarrow> lpath list \<Rightarrow> gc_files \<Rightarrow> (ustr + unit) \<times> gc_files" where
  "remove_files E [] F = (Inr (), F)"
| "remove_files E (p # ps) F =
     (if F p = None then remove_files E ps F
      else case ge_remove_file E p of
        Some e \<Rightarrow> (Inl (lit ''sem.admin.gc failed: delete '' @ show_path p @ lit '': '' @ e), F)
      | None \<Rightarrow> remove_files E ps (F(p := None)))"

definition delete_managed_db_files :: "gc_env \<Rightarrow> lpath \<Rightarrow> gc_files \<Rightarrow> (ustr + unit) \<times> gc_files" where
  "delete_managed_db_files E db F = remove_files E (managed_db_file_paths db) F"

definition managed_db_size :: "gc_files \<Rightarrow> lpath \<Rightarrow> nat" where
  "managed_db_size F db = sum_list (map (\<lambda>p. case F p of Some n \<Rightarrow> n | None \<Rightarrow> 0) (managed_db_file_paths db))"

definition rmdir_warning :: "gc_env \<Rightarrow> lpath \<Rightarrow> ustr list" where
  "rmdir_warning E dir =
     (case ge_remove_dir E dir of
        Rmdir_Failed e \<Rightarrow> [lit ''sem.admin.gc warning: remove dir '' @ show_path dir @ lit '': '' @ e]
      | _ \<Rightarrow> [])"

subsection \<open>The collection\<close>

definition gc_in_scope :: "GcOptions \<Rightarrow> dir_entry \<Rightarrow> bool" where
  "gc_in_scope opts e \<longleftrightarrow>
     (case go_only_project_id opts of None \<Rightarrow> True | Some only \<Rightarrow> (if de_unicode e then de_name e else []) = only)"

definition gc_last_use :: "gc_env \<Rightarrow> lpath \<Rightarrow> int" where
  "gc_last_use E dir =
     (case last_accessed_row (ge_db E (dir @ [lit ''semantic.db''])) of
        Some t \<Rightarrow> t
      | None \<Rightarrow> (case ge_mtime E dir of Some t \<Rightarrow> t | None \<Rightarrow> 0))"

definition gc_candidate :: "gc_env \<Rightarrow> lpath \<Rightarrow> gc_files \<Rightarrow> GcCandidate" where
  "gc_candidate E dir F =
     \<lparr>gc_path = show_path (dir @ [lit ''semantic.db'']), gc_size_bytes = managed_db_size F (dir @ [lit ''semantic.db'']),
      gc_last_accessed = gc_last_use E dir\<rparr>"

definition gc_destructive :: "GcOptions \<Rightarrow> bool" where
  "gc_destructive opts \<longleftrightarrow> \<not> go_dry_run opts \<and> go_force opts"

text \<open>One database that was found.\<close>

definition gc_database ::
  "gc_env \<Rightarrow> GcOptions \<Rightarrow> int \<Rightarrow> int \<Rightarrow> lpath \<Rightarrow> GcOutput \<Rightarrow> gc_files \<Rightarrow> (ustr + GcOutput) \<times> gc_files" where
  "gc_database E opts now_ms ttl_ms dir out F =
     (let db = dir @ [lit ''semantic.db''];
          F1 = snd (read_last_accessed_unix_ms E db F);
          c = gc_candidate E dir F1;
          out1 = out\<lparr>gx_scanned := gx_scanned out + 1\<rparr>;
          F2 = (case go_mode opts of
                  Gc_Ttl \<Rightarrow> F1 | Gc_OrphansMissingRoot \<Rightarrow> fold (sqlite_connect E db) (classify_opens (ge_db E db)) F1) in
      if \<not> gc_eligible (go_mode opts) (ge_exists E) (ge_db E db) now_ms (gc_last_accessed c) ttl_ms then (Inr out1, F2)
      else
        let F3 = (if gc_destructive opts then fold (sqlite_connect E db) (managed_opens (ge_db E db)) F2 else F2) in
        if gc_destructive opts \<and> is_foreign_db (ge_db E db)
        then (Inr (out1\<lparr>gx_tool_errors := gx_tool_errors out1 @
               [lit ''sem.admin.gc warning: refusing to delete DB lacking positive RevHarness identification (foreign) '' @ show_path db]\<rparr>), F3)
        else
          (case probe_lock E db F3 of
             (active, F4) \<Rightarrow>
               if active \<and> (gc_destructive opts \<or> \<not> go_ignore_active_lock opts)
               then (Inr (out1\<lparr>gx_skipped_active := gx_skipped_active out1 @ [c]\<rparr>), F4)
               else if gc_destructive opts
               then (case delete_managed_db_files E db F4 of
                       (Inl e, F5) \<Rightarrow> (Inl e, F5)
                     | (Inr _, F5) \<Rightarrow>
                         (Inr (out1\<lparr>gx_freed_bytes := saturating_add u64_max (gx_freed_bytes out1) (gc_size_bytes c),
                            gx_deleted := gx_deleted out1 @ [gc_path c],
                            gx_tool_errors := gx_tool_errors out1 @ rmdir_warning E dir,
                            gx_candidates := gx_candidates out1 @ [c]\<rparr>), F5))
               else (Inr (out1\<lparr>gx_candidates := gx_candidates out1 @ [c]\<rparr>), F4)))"

fun gc_scan_loop ::
  "gc_env \<Rightarrow> GcOptions \<Rightarrow> int \<Rightarrow> int \<Rightarrow> lpath \<Rightarrow> (ustr + dir_entry) list \<Rightarrow> GcOutput \<Rightarrow> gc_files \<Rightarrow> (ustr + GcOutput) \<times> gc_files" where
  "gc_scan_loop E opts now_ms ttl_ms base [] out F = (Inr out, F)"
| "gc_scan_loop E opts now_ms ttl_ms base (Inl e # es) out F = (Inl (lit ''sem.admin.gc failed: read_dir entry: '' @ e), F)"
| "gc_scan_loop E opts now_ms ttl_ms base (Inr e # es) out F =
     (let dir = base @ [de_name e] in
      if \<not> de_is_dir e \<or> \<not> gc_in_scope opts e \<or> F (dir @ [lit ''semantic.db'']) = None
      then gc_scan_loop E opts now_ms ttl_ms base es out F
      else case gc_database E opts now_ms ttl_ms dir out F of
        (Inl err, F') \<Rightarrow> (Inl err, F')
      | (Inr out', F') \<Rightarrow> gc_scan_loop E opts now_ms ttl_ms base es out' F')"

definition empty_gc_output :: "bool \<Rightarrow> GcOutput" where
  "empty_gc_output dry = \<lparr>gx_scanned = 0, gx_candidates = [], gx_deleted = [], gx_skipped_active = [], gx_tool_errors = [],
     gx_freed_bytes = 0, gx_dry_run = dry\<rparr>"

definition semantic_run_gc :: "gc_env \<Rightarrow> GcOptions \<Rightarrow> gc_files \<Rightarrow> (ustr + GcOutput) \<times> gc_files" where
  "semantic_run_gc E opts F =
     (if go_older_than_days opts = 0 then (Inl (lit ''sem.admin.gc failed: older_than_days must be >= 1''), F)
      else case ge_data_root E of
        Inl e \<Rightarrow> (Inl (lit ''sem.admin.gc failed: data root unavailable: '' @ ge_show_error E e), F)
      | Inr data \<Rightarrow>
          let base = data @ [lit ''v1''] in
          (case ge_now E of
             Inl e \<Rightarrow> (Inl (lit ''system clock before UNIX_EPOCH: '' @ e), F)
           | Inr now_ms \<Rightarrow>
               (case gc_ttl_ms (go_older_than_days opts) of
                  None \<Rightarrow> (Inl (lit ''sem.admin.gc failed: older_than_days overflow''), F)
                | Some ttl_ms \<Rightarrow>
                    if \<not> ge_version_exists E then (Inr (empty_gc_output (go_dry_run opts)), F)
                    else case ge_entries E of
                      Inl e \<Rightarrow> (Inl (lit ''sem.admin.gc failed: scan '' @ show_path base @ lit '': '' @ e), F)
                    | Inr es \<Rightarrow> gc_scan_loop E opts now_ms ttl_ms base es (empty_gc_output (go_dry_run opts)) F)))"

subsection \<open>The tool and the command\<close>

definition gc_err :: "string \<Rightarrow> ustr" where
  "gc_err s = lit ''sem.admin.gc failed: '' @ lit s"

definition opt_field :: "json \<Rightarrow> string \<Rightarrow> (json \<Rightarrow> 'a option) \<Rightarrow> string \<Rightarrow> 'a \<Rightarrow> ustr + 'a" where
  "opt_field v name dec message dflt =
     (case lease_get v (lit name) of
        None \<Rightarrow> Inr dflt
      | Some x \<Rightarrow> (case dec x of Some y \<Rightarrow> Inr y | None \<Rightarrow> Inl (gc_err message)))"

definition json_bool :: "json \<Rightarrow> bool option" where
  "json_bool v = (case v of JBool b \<Rightarrow> Some b | _ \<Rightarrow> None)"

definition json_u64 :: "json \<Rightarrow> nat option" where
  "json_u64 v = (case v of JNumber (PosInt n) \<Rightarrow> Some n | _ \<Rightarrow> None)"

definition parse_gc_mode :: "ustr \<Rightarrow> ustr + GcMode" where
  "parse_gc_mode m =
     (if m = lit ''ttl'' then Inr Gc_Ttl
      else if m = lit ''orphans'' \<or> m = lit ''prune_missing_root'' then Inr Gc_OrphansMissingRoot
      else Inl (lit ''sem.admin.gc failed: unknown mode '' @ [39] @ m @ [39] @ lit '' (expected '' @ [39] @ lit ''ttl'' @ [39] @
        lit '' or '' @ [39] @ lit ''orphans'' @ [39] @ lit '')''))"

definition parse_tool_options :: "json \<Rightarrow> ustr + GcOptions" where
  "parse_tool_options v =
     (if \<not> is_object v then Inl (gc_err ''arguments must be an object'')
      else
        and_then (opt_field v ''older_than_days'' json_u64 ''older_than_days must be an integer'' 30) (\<lambda>days.
        and_then (opt_field v ''dry_run'' json_bool ''dry_run must be a boolean'' True) (\<lambda>dry.
        and_then (opt_field v ''force'' json_bool ''force must be a boolean'' False) (\<lambda>force.
        and_then (opt_field v ''ignore_active_lock'' json_bool ''ignore_active_lock must be a boolean'' False) (\<lambda>ignore.
        and_then (opt_field v ''prune_missing_root'' json_bool ''prune_missing_root must be a boolean'' False) (\<lambda>prune.
        and_then (opt_field v ''mode'' (\<lambda>x. map_option Some (str_of x)) ''mode must be a string'' None) (\<lambda>m.
        and_then (case m of Some t \<Rightarrow> parse_gc_mode t | None \<Rightarrow> Inr (if prune then Gc_OrphansMissingRoot else Gc_Ttl)) (\<lambda>mode.
          Inr \<lparr>go_older_than_days = days, go_dry_run = dry, go_force = force, go_ignore_active_lock = ignore, go_mode = mode,
            go_only_project_id = None\<rparr>))))))))"

definition semantic_db_path_matches_project :: "ustr \<Rightarrow> ustr \<Rightarrow> bool" where
  "semantic_db_path_matches_project path i \<longleftrightarrow>
     file_name_of (path_comps path) = Some (lit ''semantic.db'') \<and>
     Option.bind (parent_of (path_comps path)) file_name_of = Some i"

definition filter_to_project_id :: "GcOutput \<Rightarrow> ustr \<Rightarrow> GcOutput" where
  "filter_to_project_id out i =
     (let cs = filter (\<lambda>c. semantic_db_path_matches_project (gc_path c) i) (gx_candidates out);
          sk = filter (\<lambda>c. semantic_db_path_matches_project (gc_path c) i) (gx_skipped_active out);
          ds = filter (\<lambda>p. semantic_db_path_matches_project p i) (gx_deleted out) in
      out\<lparr>gx_candidates := cs, gx_skipped_active := sk, gx_deleted := ds, gx_scanned := length cs + length sk + length ds,
        gx_freed_bytes := sum_list (map gc_size_bytes (filter (\<lambda>c. gc_path c \<in> set ds) cs))\<rparr>)"

record GcArgs =
  ga_older_than_days :: nat
  ga_force :: bool
  ga_ignore_active_lock :: bool
  ga_prune_missing_root :: bool
  ga_all_projects :: bool

definition gc_cli_options :: "GcArgs \<Rightarrow> ustr option \<Rightarrow> GcOptions" where
  "gc_cli_options a only =
     \<lparr>go_older_than_days = ga_older_than_days a, go_dry_run = \<not> ga_force a, go_force = ga_force a,
      go_ignore_active_lock = ga_ignore_active_lock a,
      go_mode = (if ga_prune_missing_root a then Gc_OrphansMissingRoot else Gc_Ttl), go_only_project_id = only\<rparr>"

definition run_gc_cli :: "gc_env \<Rightarrow> AgentError + ustr \<Rightarrow> GcArgs \<Rightarrow> gc_files \<Rightarrow> (AgentError + GcOutput \<times> int) \<times> gc_files" where
  "run_gc_cli E project a F =
     (case (if ga_all_projects a then Inr None else map_sum id Some project) of
        Inl e \<Rightarrow> (Inl e, F)
      | Inr only \<Rightarrow>
          (case semantic_run_gc E (gc_cli_options a only) F of
             (Inl e, F') \<Rightarrow> (Inl (Agent_Validation e), F')
           | (Inr out, F') \<Rightarrow>
               let shown = (case only of Some i \<Rightarrow> filter_to_project_id out i | None \<Rightarrow> out) in
               (Inr (shown, if gx_candidates shown = [] \<and> gx_deleted shown = [] then 0 else 1), F')))"

section \<open>Lemmas\<close>

lemma remove_files_only: "remove_files E ps F = (r, F') \<Longrightarrow> F' q = F q \<or> (q \<in> set ps \<and> F' q = None)"
  by (induction E ps F arbitrary: r F' rule: remove_files.induct) (fastforce split: if_splits option.splits)+

lemma wrap_i64_id: "- (2 ^ 63) \<le> n \<Longrightarrow> n < 2 ^ 63 \<Longrightarrow> wrap_i64 n = n"
  by (simp add: wrap_i64_def signed_take_bit_int_eq_self_iff)

lemma gc_ttl_exact:
  assumes "gc_ttl_ms days = Some ttl" "int days * 86400000 < 2 ^ 63"
  shows "ttl = int days * 86400000"
  using assms by (auto simp: gc_ttl_ms_def checked_mul_u64_def wrap_i64_id bind_eq_Some_conv split: if_splits)

text \<open>The reasons for which a database may be collected.\<close>

definition disposable :: "gc_env \<Rightarrow> GcOptions \<Rightarrow> int \<Rightarrow> lpath \<Rightarrow> bool" where
  "disposable E opts now dir \<longleftrightarrow>
     (let d = ge_db E (dir @ [lit ''semantic.db'']);
          old = (int (go_older_than_days opts) * 86400000 \<le> now - gc_last_use E dir);
          recorded = (case dv_root_path d of Some r \<Rightarrow> trim r | None \<Rightarrow> []) in
      is_managed_revharness_db d \<and> ge_lock E (dir @ [lit ''semantic.db'']) = Probe_Acquired \<and>
      (case go_mode opts of
         Gc_Ttl \<Rightarrow> old
       | Gc_OrphansMissingRoot \<Rightarrow> if recorded = [] then old else \<not> ge_exists E recorded))"

definition ages_fit :: "gc_env \<Rightarrow> GcOptions \<Rightarrow> bool" where
  "ages_fit E opts \<longleftrightarrow> int (go_older_than_days opts) * 86400000 < 2 ^ 63 \<and>
     (\<forall>now dir. ge_now E = Inr now \<longrightarrow> - (2 ^ 63) \<le> now - gc_last_use E dir \<and> now - gc_last_use E dir < 2 ^ 63)"

lemma eligible_disposable:
  assumes "ages_fit E opts" "ge_now E = Inr now" "gc_ttl_ms (go_older_than_days opts) = Some ttl"
    and "gc_eligible (go_mode opts) (ge_exists E) (ge_db E (dir @ [lit ''semantic.db''])) now (gc_last_use E dir) ttl"
    and "\<not> is_foreign_db (ge_db E (dir @ [lit ''semantic.db'']))" "ge_lock E (dir @ [lit ''semantic.db'']) = Probe_Acquired"
  shows "disposable E opts now dir"
proof -
  have "ttl = int (go_older_than_days opts) * 86400000" using assms(1,3) by (auto simp: ages_fit_def intro: gc_ttl_exact)
  moreover have "wrap_i64 (now - gc_last_use E dir) = now - gc_last_use E dir" using assms(1,2) by (auto simp: ages_fit_def intro: wrap_i64_id)
  ultimately show ?thesis using assms(4-6)
    by (auto simp: disposable_def gc_eligible_def classify_orphan_def is_foreign_db_def Let_def
        split: GcMode.splits option.splits if_splits)
qed

text \<open>Connections touch the database and its companions only, and the database stays.\<close>

lemma companion_name: "p \<in> set (sqlite_companions (dir @ [lit ''semantic.db''])) \<Longrightarrow> last p \<noteq> lit ''semantic.db''"
  by (auto simp: sqlite_companions_def suffixed_def lit_def)

lemma sqlite_fold:
  "q \<notin> set (db # sqlite_companions db) \<Longrightarrow> fold (sqlite_connect E db) ks F q = F q"
  "db \<notin> set (sqlite_companions db) \<Longrightarrow> F db \<noteq> None \<Longrightarrow> fold (sqlite_connect E db) ks F db \<noteq> None"
proof (induction ks arbitrary: F)
  case (Cons k ks)
  { case 1
    then show ?case using Cons.IH(1) by (simp add: sqlite_connect_def)
  next
    case 2
    then show ?case using Cons.IH(2) [of "sqlite_connect E db k F"] by (simp add: sqlite_connect_def split: option.splits) }
qed simp_all

lemma probe_lock_only: "probe_lock E db F = (active, F') \<Longrightarrow> F q \<noteq> None \<Longrightarrow> F' q = F q"
  by (auto simp: probe_lock_def Let_def split: lock_probe.splits if_splits)

lemma probe_lock_other: "probe_lock E db F = (active, F') \<Longrightarrow> q \<noteq> lock_file_path db \<Longrightarrow> F' q = F q"
  by (auto simp: probe_lock_def Let_def split: lock_probe.splits if_splits)

lemma probe_lock_free: "probe_lock E db F = (False, F') \<Longrightarrow> ge_lock E db = Probe_Acquired"
  by (auto simp: probe_lock_def Let_def split: lock_probe.splits)

text \<open>What a connection can do to a file, from the state before to the state after.\<close>

definition sqlite_touched :: "lpath \<Rightarrow> gc_files \<Rightarrow> lpath \<Rightarrow> bool" where
  "sqlite_touched dir F' q \<longleftrightarrow>
     q \<in> set ((dir @ [lit ''semantic.db'']) # sqlite_companions (dir @ [lit ''semantic.db''])) \<and>
     (last q = lit ''semantic.db'' \<longrightarrow> F' q \<noteq> None)"

lemma connections_touch:
  assumes "F q \<noteq> None"
  shows "fold (sqlite_connect E (dir @ [lit ''semantic.db''])) ks F q = F q \<or>
    sqlite_touched dir (fold (sqlite_connect E (dir @ [lit ''semantic.db''])) ks F) q"
proof (cases "q \<in> set ((dir @ [lit ''semantic.db'']) # sqlite_companions (dir @ [lit ''semantic.db'']))")
  case True
  then show ?thesis using sqlite_fold(2) [of "dir @ [lit ''semantic.db'']" F E ks] companion_name assms
    by (auto simp: sqlite_touched_def)
qed (simp add: sqlite_fold)

lemma gc_database_steps:
  assumes "gc_database E opts now ttl dir out F = (r, F')"
  obtains ks where "F' = fold (sqlite_connect E (dir @ [lit ''semantic.db''])) ks F"
  | ks active where "probe_lock E (dir @ [lit ''semantic.db'']) (fold (sqlite_connect E (dir @ [lit ''semantic.db''])) ks F) = (active, F')"
  | ks F4 r2 where "probe_lock E (dir @ [lit ''semantic.db'']) (fold (sqlite_connect E (dir @ [lit ''semantic.db''])) ks F) = (False, F4)"
      "delete_managed_db_files E (dir @ [lit ''semantic.db'']) F4 = (r2, F')" "gc_destructive opts"
      "\<not> is_foreign_db (ge_db E (dir @ [lit ''semantic.db'']))"
      "gc_eligible (go_mode opts) (ge_exists E) (ge_db E (dir @ [lit ''semantic.db''])) now (gc_last_use E dir) ttl"
proof -
  let ?db = "dir @ [lit ''semantic.db'']"
  let ?c = "sqlite_connect E ?db"
  define ks2 where "ks2 = Open_Last_Accessed # (case go_mode opts of Gc_Ttl \<Rightarrow> [] | Gc_OrphansMissingRoot \<Rightarrow> classify_opens (ge_db E ?db))"
  define ks3 where "ks3 = ks2 @ (if gc_destructive opts then managed_opens (ge_db E ?db) else [])"
  have F2: "(case go_mode opts of Gc_Ttl \<Rightarrow> ?c Open_Last_Accessed F
      | Gc_OrphansMissingRoot \<Rightarrow> fold ?c (classify_opens (ge_db E ?db)) (?c Open_Last_Accessed F)) = fold ?c ks2 F"
    by (simp add: ks2_def split: GcMode.splits)
  have F3: "(if gc_destructive opts then fold ?c (managed_opens (ge_db E ?db)) (fold ?c ks2 F) else fold ?c ks2 F) = fold ?c ks3 F"
    by (simp add: ks3_def)
  obtain active F4 where p: "probe_lock E ?db (fold ?c ks3 F) = (active, F4)" by fastforce
  have use: "gc_last_accessed (gc_candidate E dir G) = gc_last_use E dir" for G by (simp add: gc_candidate_def)
  note run = assms [unfolded gc_database_def Let_def read_last_accessed_unix_ms_def snd_conv F2 F3 p use prod.case]
  consider "F' = fold ?c ks2 F" | "F' = fold ?c ks3 F" | "F' = F4"
    | r2 where "gc_destructive opts" "\<not> active" "\<not> is_foreign_db (ge_db E ?db)"
      "gc_eligible (go_mode opts) (ge_exists E) (ge_db E ?db) now (gc_last_use E dir) ttl"
      "delete_managed_db_files E ?db F4 = (r2, F')"
    using run by (auto split: if_splits prod.splits sum.splits)
  then show ?thesis
  proof cases
    case 3
    then show ?thesis using p that(2) by blast
  next
    case 4
    then show ?thesis using p that(3) by simp
  qed (use that(1) in blast)+
qed

lemma gc_database_safe:
  assumes "ages_fit E opts" "ge_now E = Inr now" "gc_ttl_ms (go_older_than_days opts) = Some ttl"
    and "gc_database E opts now ttl dir out F = (r, F')" "F q \<noteq> None"
  shows "F' q = F q \<or> sqlite_touched dir F' q \<or> (gc_destructive opts \<and> disposable E opts now dir \<and>
    q \<in> set (managed_db_file_paths (dir @ [lit ''semantic.db''])))"
proof -
  let ?db = "dir @ [lit ''semantic.db'']"
  have lock: "lock_file_path ?db \<notin> set (?db # sqlite_companions ?db)"
    by (auto simp: lock_file_path_def suffixed_def sqlite_companions_def lit_def)
  have probed: "F2 q = F q \<or> sqlite_touched dir F2 q" if "probe_lock E ?db (fold (sqlite_connect E ?db) ks F) = (active, F2)" for ks active F2
  proof (cases "q = lock_file_path ?db")
    case True
    then show ?thesis using probe_lock_only [OF that, of q] sqlite_fold(1) [of q ?db E ks F] lock assms(5) by simp
  next
    case False
    then show ?thesis using probe_lock_other [OF that False] connections_touch [of F q E dir ks, OF assms(5)] by (auto simp: sqlite_touched_def)
  qed
  from assms(4) show ?thesis
  proof (cases rule: gc_database_steps)
    case (1 ks)
    then show ?thesis using connections_touch [of F q E dir ks, OF assms(5)] by auto
  next
    case (2 ks active)
    then show ?thesis using probed by auto
  next
    case (3 ks F4 r2)
    have "disposable E opts now dir" using eligible_disposable [OF assms(1-3) 3(5,4)] probe_lock_free [OF 3(1)] by simp
    moreover have "F' q = F4 q \<or> q \<in> set (managed_db_file_paths ?db)"
      using remove_files_only [OF 3(2) [unfolded delete_managed_db_files_def], of q] by auto
    ultimately show ?thesis using probed [OF 3(1)] 3(3) by (auto simp: sqlite_touched_def)
  qed
qed

text \<open>The databases that a collection may look at.\<close>

definition gc_scanned_dir :: "GcOptions \<Rightarrow> lpath \<Rightarrow> (ustr + dir_entry) list \<Rightarrow> lpath \<Rightarrow> bool" where
  "gc_scanned_dir opts base es dir \<longleftrightarrow> (\<exists>e. Inr e \<in> set es \<and> de_is_dir e \<and> gc_in_scope opts e \<and> dir = base @ [de_name e])"

lemma gc_scan_loop_safe:
  assumes "ages_fit E opts" "ge_now E = Inr now" "gc_ttl_ms (go_older_than_days opts) = Some ttl"
    and "gc_scan_loop E opts now ttl base es out F = (r, F')" "F q \<noteq> None"
  shows "F' q = F q \<or> (\<exists>dir. gc_scanned_dir opts base es dir \<and>
    (sqlite_touched dir F' q \<or>
     (gc_destructive opts \<and> disposable E opts now dir \<and> q \<in> set (managed_db_file_paths (dir @ [lit ''semantic.db''])))))"
  using assms(4,5)
proof (induction es arbitrary: out F)
  case (Cons x es)
  have more: "gc_scanned_dir opts base (x # es) dir" if "gc_scanned_dir opts base es dir" for dir
    using that by (auto simp: gc_scanned_dir_def)
  show ?case
  proof (cases x)
    case (Inl e)
    then show ?thesis using Cons.prems by simp
  next
    case (Inr e)
    let ?dir = "base @ [de_name e]"
    obtain r1 F1 where d: "gc_database E opts now ttl ?dir out F = (r1, F1)" by fastforce
    note one = gc_database_safe [OF assms(1-3) d Cons.prems(2)]
    consider "gc_scan_loop E opts now ttl base es out F = (r, F')" | "F' = F1" "gc_scanned_dir opts base (x # es) ?dir"
      | out1 where "gc_scan_loop E opts now ttl base es out1 F1 = (r, F')" "gc_scanned_dir opts base (x # es) ?dir"
      using Cons.prems(1) Inr d by (auto simp: Let_def gc_scanned_dir_def split: if_splits sum.splits)
    then show ?thesis
    proof cases
      case 1
      from Cons.IH [OF this Cons.prems(2)] more show ?thesis by blast
    next
      case 2
      then show ?thesis using one by blast
    next
      case 3
      show ?thesis
      proof (cases "F1 q = None")
        case True
        then show ?thesis using one 3(2) Cons.prems(2) by (auto simp: sqlite_touched_def)
      next
        case False
        from Cons.IH [OF 3(1) False] show ?thesis using one 3(2) more
          by (auto simp: sqlite_touched_def)
      qed
    qed
  qed
qed simp

lemma gc_database_preview:
  assumes "gc_database E opts now ttl dir out F = (Inr out1, F1)" "\<not> gc_destructive opts"
  shows "gx_deleted out1 = gx_deleted out \<and> gx_freed_bytes out1 = gx_freed_bytes out"
  using assms by (auto simp: gc_database_def Let_def split: if_splits prod.splits)

lemma preview_deletes_nothing:
  assumes "gc_scan_loop E opts now ttl base es out F = (Inr out', F')" "\<not> gc_destructive opts"
  shows "gx_deleted out' = gx_deleted out \<and> gx_freed_bytes out' = gx_freed_bytes out"
  using assms(1)
proof (induction es arbitrary: out F)
  case (Cons x es)
  then obtain e where x: "x = Inr e" by (cases x) auto
  consider "gc_scan_loop E opts now ttl base es out F = (Inr out', F')"
    | out1 F1 where "gc_database E opts now ttl (base @ [de_name e]) out F = (Inr out1, F1)" "gc_scan_loop E opts now ttl base es out1 F1 = (Inr out', F')"
    using Cons.prems x by (auto simp: Let_def split: if_splits prod.splits sum.splits)
  then show ?case
  proof cases
    case 1
    then show ?thesis by (rule Cons.IH)
  next
    case 2
    then show ?thesis using Cons.IH [OF 2(2)] gc_database_preview [OF 2(1) assms(2)] by simp
  qed
qed simp

text \<open>The age limit wraps: with 110000000000 days it is negative, and a database used this moment is old enough.\<close>

lemma huge_age_negative:
  "\<exists>ttl. gc_ttl_ms 110000000000 = Some ttl \<and> ttl < 0 \<and> gc_eligible Gc_Ttl ex d now now ttl"
proof -
  have "wrap_i64 9504000000000000000 = - 8942744073709551616"
    by (simp add: wrap_i64_def signed_take_bit_eq_take_bit_shift take_bit_eq_mod)
  moreover have "wrap_i64 0 = 0" by (simp add: wrap_i64_def)
  ultimately show ?thesis by (simp add: gc_ttl_ms_def checked_mul_u64_def u64_max_def gc_eligible_def)
qed

text \<open>After a deletion the scoped command counts the database twice.\<close>

lemma deleted_counted_twice:
  assumes "gx_candidates out = [c]" "gx_deleted out = [gc_path c]" "gx_skipped_active out = []"
    and "semantic_db_path_matches_project (gc_path c) i"
  shows "gx_scanned (filter_to_project_id out i) = 2"
  using assms by (simp add: filter_to_project_id_def Let_def)

section \<open>Properties\<close>

text \<open>
  C36. Collection deletes only what it may. A file that existed before and is changed or gone afterwards, however
  the run ended, belongs to a database of a project in scope, and either it is the database or one of its SQLite
  companion files, changed by a connection that looked into the database (in a preview too), and then the database
  itself is still there; or the run was forced and no preview, and the database is positively identified as managed,
  no process holds it, and it is older than the limit or, when orphans are collected, its recorded root is missing.
  The limit and the ages must fit signed 64-bit milliseconds: beyond that the limit wraps, see
  \<^verbatim>\<open>huge_age_negative\<close>.
\<close>

theorem gc_deletes_only_disposable:
  assumes "ages_fit E opts" "semantic_run_gc E opts F = (r, F')" "F q \<noteq> None" "F' q \<noteq> F q"
  shows "\<exists>data now es dir. ge_data_root E = Inr data \<and> ge_now E = Inr now \<and> ge_entries E = Inr es \<and>
    gc_scanned_dir opts (data @ [lit ''v1'']) es dir \<and>
    ((q \<in> set ((dir @ [lit ''semantic.db'']) # sqlite_companions (dir @ [lit ''semantic.db''])) \<and>
      (last q = lit ''semantic.db'' \<longrightarrow> F' q \<noteq> None)) \<or>
     (gc_destructive opts \<and> disposable E opts now dir \<and> q \<in> set (managed_db_file_paths (dir @ [lit ''semantic.db'']))))"
proof -
  from assms(2,4) obtain data now ttl es where l: "ge_data_root E = Inr data" "ge_now E = Inr now"
      "gc_ttl_ms (go_older_than_days opts) = Some ttl" "ge_entries E = Inr es"
      "gc_scan_loop E opts now ttl (data @ [lit ''v1'']) es (empty_gc_output (go_dry_run opts)) F = (r, F')"
    by (auto simp: semantic_run_gc_def Let_def split: if_splits sum.splits option.splits)
  from gc_scan_loop_safe [OF assms(1) l(2,3,5) assms(3)] assms(4) l(1,2,4) show ?thesis
    unfolding sqlite_touched_def by blast
qed

definition demo_gc_env :: gc_env where
  "demo_gc_env = \<lparr>ge_data_root = Inr [lit ''d''], ge_show_error = (\<lambda>_. []), ge_now = Inr 100000000, ge_version_exists = True,
     ge_entries = Inr [Inr \<lparr>de_name = lit ''p'', de_unicode = True, de_is_dir = True\<rparr>],
     ge_db = (\<lambda>_. \<lparr>dv_application_id = Some REVHARNESS_APP_ID, dv_tables = {}, dv_last_accessed = None, dv_root_path = None\<rparr>),
     ge_sqlite = (\<lambda>_ _ F. F), ge_mtime = (\<lambda>_. None), ge_exists = (\<lambda>_. True), ge_lock = (\<lambda>_. Probe_Acquired), ge_remove_file = (\<lambda>_. None),
     ge_remove_dir = (\<lambda>_. Rmdir_Ok)\<rparr>"

definition demo_gc_options :: GcOptions where
  "demo_gc_options = default_gc_options\<lparr>go_older_than_days := 1, go_dry_run := False, go_force := True\<rparr>"

lemma demo_connect: "fold (sqlite_connect demo_gc_env db) ks F = F" "sqlite_connect demo_gc_env db k F = F"
proof -
  have one: "sqlite_connect demo_gc_env db k F = F" for k F
    by (rule ext) (simp add: sqlite_connect_def demo_gc_env_def split: option.split)
  then show "sqlite_connect demo_gc_env db k F = F" .
  show "fold (sqlite_connect demo_gc_env db) ks F = F" by (induction ks) (simp_all add: one)
qed

lemma demo_gc_facts:
  "gc_destructive demo_gc_options" "go_mode demo_gc_options = Gc_Ttl" "\<not> is_foreign_db (ge_db demo_gc_env db)"
  "fst (probe_lock demo_gc_env db F) = False" "gc_last_use demo_gc_env dir = 0" "ge_remove_file demo_gc_env db = None"
  by (simp_all add: gc_destructive_def demo_gc_options_def default_gc_options_def is_foreign_db_def is_managed_revharness_db_def
      probe_lock_def Let_def gc_last_use_def last_accessed_row_def demo_gc_env_def)

lemma demo_remove_files: "q \<in> set ps \<Longrightarrow> snd (remove_files demo_gc_env ps F) q = None"
proof (induction ps arbitrary: F)
  case (Cons p ps)
  have gone: "snd (remove_files demo_gc_env ps G) p = None" if "G p = None" for G
    using remove_files_only [OF prod.collapse [symmetric], of demo_gc_env ps G p] that by auto
  then show ?case using Cons by (auto simp: demo_gc_facts)
qed simp

lemma demo_gc_database:
  "snd (gc_database demo_gc_env demo_gc_options 100000000 86400000 dir out F) (dir @ [lit ''semantic.db'']) = None"
proof -
  let ?db = "dir @ [lit ''semantic.db'']"
  obtain F1 where p: "probe_lock demo_gc_env ?db F = (False, F1)"
    using demo_gc_facts(4) [of ?db F] by (cases "probe_lock demo_gc_env ?db F") simp
  have "wrap_i64 100000000 = 100000000" by (rule wrap_i64_id) simp_all
  then have "snd (gc_database demo_gc_env demo_gc_options 100000000 86400000 dir out F) =
      snd (remove_files demo_gc_env (managed_db_file_paths ?db) (snd (probe_lock demo_gc_env ?db F)))"
    by (auto simp: p gc_database_def Let_def demo_gc_facts demo_connect gc_candidate_def gc_eligible_def delete_managed_db_files_def
        read_last_accessed_unix_ms_def split: prod.splits sum.splits)
  moreover have "?db \<in> set (managed_db_file_paths ?db)" by (simp add: managed_db_file_paths_def)
  ultimately show ?thesis using demo_remove_files by presburger
qed

theorem gc_deletes_only_disposable_witness:
  "disposable demo_gc_env demo_gc_options 100000000 [lit ''d'', lit ''v1'', lit ''p'']"
proof -
  let ?db = "[lit ''d'', lit ''v1'', lit ''p'', lit ''semantic.db'']"
  have now: "ge_now demo_gc_env = Inr 100000000" by (simp add: demo_gc_env_def)
  have fit: "ages_fit demo_gc_env demo_gc_options" using now by (simp add: ages_fit_def demo_gc_facts demo_gc_options_def)
  have ttl: "gc_ttl_ms 1 = Some 86400000"
    using wrap_i64_id [of 86400000] by (simp add: gc_ttl_ms_def checked_mul_u64_def u64_max_def)
  obtain r F' where r: "semantic_run_gc demo_gc_env demo_gc_options [?db \<mapsto> 5] = (r, F')" by fastforce
  have "ge_data_root demo_gc_env = Inr [lit ''d'']" "ge_version_exists demo_gc_env"
    "ge_entries demo_gc_env = Inr [Inr \<lparr>de_name = lit ''p'', de_unicode = True, de_is_dir = True\<rparr>]"
    "go_older_than_days demo_gc_options = 1" "go_only_project_id demo_gc_options = None"
    by (simp_all add: demo_gc_env_def demo_gc_options_def default_gc_options_def)
  then have gone: "F' ?db = None"
    using r ttl now demo_gc_database [of "[lit ''d'', lit ''v1'', lit ''p'']" "empty_gc_output (go_dry_run demo_gc_options)" "[?db \<mapsto> 5]"]
    by (auto simp: semantic_run_gc_def Let_def gc_in_scope_def split: prod.splits sum.splits)
  then have "F' ?db \<noteq> [?db \<mapsto> (5::nat)] ?db" by simp
  from gc_deletes_only_disposable [OF fit r _ this] gone show ?thesis
    by (auto simp: demo_gc_env_def gc_scanned_dir_def)
qed

end
