(* ===== verification/Auth_Redact.thy ===== *)
theory Auth_Redact
  imports Rust_Str
begin

text \<open>
  Redaction of log lines and panics (\<^verbatim>\<open>stealth-auth/src/redact.rs\<close>) and the acceptable-use decision of the
  authentication binary (\<^verbatim>\<open>stealth-auth/src/auth_aup.rs\<close>).

  The expression of the redaction is fixed in the source and written out as a scanner; which characters beyond
  ASCII count as word characters is a parameter, as is the compiler of the patterns in the allow list.
\<close>

section \<open>Definitions\<close>

subsection \<open>Redaction\<close>

definition is_ascii_alnum :: "uchar \<Rightarrow> bool" where
  "is_ascii_alnum c \<longleftrightarrow> (97 \<le> c \<and> c \<le> 122) \<or> (65 \<le> c \<and> c \<le> 90) \<or> (48 \<le> c \<and> c \<le> 57)"

definition token_char :: "uchar \<Rightarrow> bool" where
  "token_char c \<longleftrightarrow> is_ascii_alnum c \<or> c = 95 \<or> c = 45"

definition word_char :: "(uchar \<Rightarrow> bool) \<Rightarrow> uchar \<Rightarrow> bool" where
  "word_char uw c \<longleftrightarrow> (if c < 128 then is_ascii_alnum c \<or> c = 95 else uw c)"

definition word_before :: "(uchar \<Rightarrow> bool) \<Rightarrow> uchar option \<Rightarrow> bool" where
  "word_before uw prev \<longleftrightarrow> (case prev of None \<Rightarrow> False | Some p \<Rightarrow> word_char uw p)"

definition boundary :: "(uchar \<Rightarrow> bool) \<Rightarrow> uchar option \<Rightarrow> uchar \<Rightarrow> bool" where
  "boundary uw prev c \<longleftrightarrow> word_before uw prev \<noteq> word_char uw c"

definition AUTH_REDACTED :: ustr where
  "AUTH_REDACTED = lit ''<redacted>''"

function (sequential) redact_from :: "(uchar \<Rightarrow> bool) \<Rightarrow> uchar option \<Rightarrow> ustr \<Rightarrow> ustr" where
  "redact_from uw prev [] = []"
| "redact_from uw prev (c # cs) =
     (let run = takeWhile token_char (c # cs); rest = dropWhile token_char (c # cs) in
      if boundary uw prev c \<and> 20 \<le> length run
      then AUTH_REDACTED @
        (if rest \<noteq> [] \<and> hd rest = 61 then redact_from uw (Some 61) (tl rest) else redact_from uw (Some (last run)) rest)
      else c # redact_from uw (Some c) cs)"
  by pat_completeness auto
termination
proof (relation "measure (\<lambda>(uw, prev, s). length s)")
  fix uw and prev :: "uchar option" and c cs x xa
  assume a: "x = takeWhile token_char (c # cs)" "xa = dropWhile token_char (c # cs)" "boundary uw prev c \<and> 20 \<le> length x"
  then have "token_char c" by (auto split: if_splits)
  then have l: "length xa \<le> length cs" using a(2) length_dropWhile_le [of token_char cs] by simp
  show "((uw, Some 61, tl xa), uw, prev, c # cs) \<in> measure (\<lambda>(uw, prev, s). length s)" using l by simp
  show "((uw, Some (last x), xa), uw, prev, c # cs) \<in> measure (\<lambda>(uw, prev, s). length s)" using l by simp
qed simp_all

definition redact_text :: "(uchar \<Rightarrow> bool) \<Rightarrow> ustr \<Rightarrow> ustr" where
  "redact_text uw s = redact_from uw None s"

text \<open>A recorded field: its name and the text of its value.\<close>

definition push_field :: "(uchar \<Rightarrow> bool) \<Rightarrow> ustr \<Rightarrow> ustr \<Rightarrow> (ustr \<times> ustr) list \<Rightarrow> (ustr \<times> ustr) list" where
  "push_field uw name v fs =
     fs @ [(name, if sublist (lit ''secret'') (map ascii_lower name) then AUTH_REDACTED else redact_text uw v)]"

fun format_fields :: "ustr \<Rightarrow> (ustr \<times> ustr) list \<Rightarrow> ustr" where
  "format_fields line [] = line"
| "format_fields line ((name, v) # fs) = format_fields (line @ lit '' '' @ name @ lit ''='' @ v) fs"

definition format_event :: "ustr \<Rightarrow> ustr \<Rightarrow> (ustr \<times> ustr) list \<Rightarrow> ustr" where
  "format_event level target fs = format_fields (level @ lit '' '' @ target) fs"

definition on_event :: "(uchar \<Rightarrow> bool) \<Rightarrow> ustr \<Rightarrow> ustr \<Rightarrow> (ustr \<times> ustr) list \<Rightarrow> ustr" where
  "on_event uw level target fs = format_event level target (foldl (\<lambda>acc (n, v). push_field uw n v acc) [] fs)"

datatype panic_kind = Panic_Str ustr | Panic_String ustr | Panic_Other

definition panic_payload :: "panic_kind \<Rightarrow> ustr" where
  "panic_payload p = (case p of Panic_Str m \<Rightarrow> m | Panic_String m \<Rightarrow> m | Panic_Other \<Rightarrow> lit ''Box<dyn Any>'')"

definition format_panic_message :: "(ustr \<times> nat \<times> nat) option \<Rightarrow> ustr \<Rightarrow> ustr" where
  "format_panic_message location redacted =
     (case location of
        Some (file, line, col) \<Rightarrow>
          lit ''panicked at '' @ file @ lit '':'' @ digits_of line @ lit '':'' @ digits_of col @ lit '': '' @ redacted
      | None \<Rightarrow> lit ''panicked: '' @ redacted)"

text \<open>The panic hook: \<open>None\<close> hands the panic to the previous hook.\<close>

definition auth_panic_hook :: "(uchar \<Rightarrow> bool) \<Rightarrow> panic_kind \<Rightarrow> (ustr \<times> nat \<times> nat) option \<Rightarrow> ustr option" where
  "auth_panic_hook uw p location =
     (let original = panic_payload p; redacted = redact_text uw original in
      if redacted = original then None else Some (format_panic_message location redacted))"

subsection \<open>Acceptable use\<close>

record AupTarget =
  aup_url_pattern :: ustr
  aup_auth_allowed :: "bool option"

datatype AuthAupDecision = Aup_Allowed | Aup_Rejected ustr

text \<open>A pattern compiles to a matcher or fails with a message; \<open>dbg\<close> is the quoted form of a text.\<close>

fun decide_targets :: "(ustr \<Rightarrow> ustr + (ustr \<Rightarrow> bool)) \<Rightarrow> (ustr \<Rightarrow> ustr) \<Rightarrow> ustr \<Rightarrow> ustr \<Rightarrow> AupTarget list \<Rightarrow> AuthAupDecision" where
  "decide_targets compile dbg domain login_url [] =
     Aup_Rejected (lit ''domain '' @ dbg domain @ lit '' matched no authorized.toml pattern'')"
| "decide_targets compile dbg domain login_url (t # ts) =
     (case compile (aup_url_pattern t) of
        Inl e \<Rightarrow> Aup_Rejected (lit ''invalid url_pattern regex '' @ dbg (aup_url_pattern t) @ lit '': '' @ e)
      | Inr m \<Rightarrow>
          if m login_url \<or> m domain
          then if aup_auth_allowed t = Some True then Aup_Allowed
               else Aup_Rejected (lit ''AUP target matched '' @ dbg domain @ lit '' but auth_allowed is not true'')
          else decide_targets compile dbg domain login_url ts)"

definition decide_aup :: "(ustr \<Rightarrow> ustr + (ustr \<Rightarrow> bool)) \<Rightarrow> (ustr \<Rightarrow> ustr) \<Rightarrow> ustr \<Rightarrow> ustr \<Rightarrow> AupTarget list option \<Rightarrow> AuthAupDecision" where
  "decide_aup compile dbg domain login_url allowlist =
     (case allowlist of
        None \<Rightarrow> Aup_Rejected (lit ''AUP allowlist not found at ~/.rev_scraping/authorized.toml'')
      | Some ts \<Rightarrow> decide_targets compile dbg domain login_url ts)"

text \<open>The allow list as it is read: no home, no file, a failure, or its targets.\<close>

definition enforce_aup :: "(ustr \<Rightarrow> ustr + (ustr \<Rightarrow> bool)) \<Rightarrow> (ustr \<Rightarrow> ustr) \<Rightarrow> ustr \<Rightarrow> ustr \<Rightarrow> (ustr + AupTarget list option) option \<Rightarrow> AuthAupDecision" where
  "enforce_aup compile dbg domain login_url loaded =
     (case loaded of
        Some (Inl e) \<Rightarrow> Aup_Rejected (lit ''failed to read AUP allowlist: '' @ e)
      | Some (Inr l) \<Rightarrow> decide_aup compile dbg domain login_url l
      | None \<Rightarrow> decide_aup compile dbg domain login_url None)"

section \<open>Lemmas\<close>

text \<open>No place in a text where the expression matches, after a given character.\<close>

fun no_token :: "(uchar \<Rightarrow> bool) \<Rightarrow> uchar option \<Rightarrow> ustr \<Rightarrow> bool" where
  "no_token uw prev [] = True"
| "no_token uw prev (c # cs) =
     (\<not> (boundary uw prev c \<and> 20 \<le> length (takeWhile token_char (c # cs))) \<and> no_token uw (Some c) cs)"

lemma no_token_id: "no_token uw prev s \<Longrightarrow> redact_from uw prev s = s"
  by (induction s arbitrary: prev) (auto simp: Let_def)

lemma redact_run_shorter: "length (takeWhile token_char (redact_from uw prev s)) \<le> length (takeWhile token_char s)"
proof (induction s arbitrary: prev)
  case (Cons c cs)
  have "takeWhile token_char (AUTH_REDACTED @ xs) = []" for xs
    by (simp add: AUTH_REDACTED_def lit_def token_char_def is_ascii_alnum_def)
  then show ?case using Cons [of "Some c"] by (auto simp: Let_def)
qed simp

lemma word_sentinel: "word_char uw 62 = False" "word_char uw 61 = False"
  by (simp_all add: word_char_def is_ascii_alnum_def)

lemma no_token_sentinel: "no_token uw (Some 62) xs \<Longrightarrow> no_token uw prev (AUTH_REDACTED @ xs)"
  by (simp add: AUTH_REDACTED_def lit_def token_char_def is_ascii_alnum_def)

lemma redact_no_token:
  "word_before uw prev' = word_before uw prev \<or> s = [] \<or> \<not> token_char (hd s) \<Longrightarrow> no_token uw prev' (redact_from uw prev s)"
proof (induction uw prev s arbitrary: prev' rule: redact_from.induct)
  case (2 uw prev c cs)
  let ?run = "takeWhile token_char (c # cs)" and ?rest = "dropWhile token_char (c # cs)"
  show ?case
  proof (cases "boundary uw prev c \<and> 20 \<le> length ?run")
    case True
    show ?thesis
    proof (cases "?rest \<noteq> [] \<and> hd ?rest = 61")
      case eq: True
      have "no_token uw (Some 62) (redact_from uw (Some 61) (tl ?rest))"
        by (rule 2(1) [OF refl refl True eq]) (simp add: word_before_def word_sentinel)
      moreover have "redact_from uw prev (c # cs) = AUTH_REDACTED @ redact_from uw (Some 61) (tl ?rest)"
        using True eq by (simp add: Let_def)
      ultimately show ?thesis by (simp add: no_token_sentinel del: redact_from.simps)
    next
      case ne: False
      have "?rest = [] \<or> \<not> token_char (hd ?rest)" using hd_dropWhile [of token_char "c # cs"] by blast
      then have "no_token uw (Some 62) (redact_from uw (Some (last ?run)) ?rest)"
        by (intro 2(2) [OF refl refl True ne]) simp
      moreover have "redact_from uw prev (c # cs) = AUTH_REDACTED @ redact_from uw (Some (last ?run)) ?rest"
        using True ne by (auto simp: Let_def)
      ultimately show ?thesis by (simp add: no_token_sentinel del: redact_from.simps)
    qed
  next
    case False
    then have out: "redact_from uw prev (c # cs) = c # redact_from uw (Some c) cs" by (auto simp: Let_def)
    have "no_token uw (Some c) (redact_from uw (Some c) cs)" by (rule 2(3) [OF refl refl False]) simp
    moreover have "\<not> (boundary uw prev' c \<and> 20 \<le> length (takeWhile token_char (c # redact_from uw (Some c) cs)))"
      using False 2(4) redact_run_shorter [of uw "Some c" cs] by (auto simp: boundary_def split: if_splits)
    ultimately show ?thesis unfolding out by simp
  qed
qed simp

lemma push_fields: "foldl (\<lambda>acc (n, v). push_field uw n v acc) acc fs =
  acc @ map (\<lambda>(n, v). (n, if sublist (lit ''secret'') (map ascii_lower n) then AUTH_REDACTED else redact_text uw v)) fs"
  by (induction fs arbitrary: acc) (auto simp: push_field_def)

lemma ex_cons_split:
  "(\<exists>us y vs m. x # xs = us @ y # vs \<and> P us y m) \<longleftrightarrow> (\<exists>m. P [] x m) \<or> (\<exists>us y vs m. xs = us @ y # vs \<and> P (x # us) y m)"
  by (auto simp: Cons_eq_append_conv)

text \<open>The decision: the first target that matches decides, and every pattern before it must compile.\<close>

lemma decide_exact:
  "decide_targets compile dbg domain login_url ts = Aup_Allowed \<longleftrightarrow>
   (\<exists>us t vs m. ts = us @ t # vs \<and> compile (aup_url_pattern t) = Inr m \<and> (m login_url \<or> m domain) \<and> aup_auth_allowed t = Some True \<and>
      (\<forall>u\<in>set us. \<exists>m'. compile (aup_url_pattern u) = Inr m' \<and> \<not> m' login_url \<and> \<not> m' domain))"
proof (induction ts)
  case (Cons t ts)
  show ?case
  proof (cases "compile (aup_url_pattern t)")
    case (Inl e)
    then show ?thesis by (auto simp: Cons_eq_append_conv)
  next
    case (Inr m)
    show ?thesis
    proof (cases "m login_url \<or> m domain")
      case True
      then show ?thesis using Inr by (subst ex_cons_split) auto
    next
      case False
      then have "decide_targets compile dbg domain login_url (t # ts) = decide_targets compile dbg domain login_url ts"
        using Inr by simp
      then show ?thesis using Inr False by (subst ex_cons_split) (auto simp: Cons)
    qed
  qed
qed simp

section \<open>Properties\<close>

text \<open>
  C37. No token passes the redaction: in what is printed for a field, the sentinel stands for a field whose name
  contains secret in any case, and for every other field there is no place left that the expression matches;
  a text without such a place is printed as it is, so redacting twice changes nothing.
\<close>

theorem redaction_complete:
  "(case last (push_field uw name v fs) of (n, printed) \<Rightarrow>
      n = name \<and> no_token uw None printed \<and>
      (sublist (lit ''secret'') (map ascii_lower name) \<longrightarrow> printed = AUTH_REDACTED) \<and>
      (\<not> sublist (lit ''secret'') (map ascii_lower name) \<and> no_token uw None v \<longrightarrow> printed = v)) \<and>
   redact_text uw (redact_text uw v) = redact_text uw v"
proof -
  have clean: "no_token uw None (redact_text uw v)" unfolding redact_text_def by (rule redact_no_token) simp
  have "no_token uw None AUTH_REDACTED" using no_token_sentinel [of uw "[]"] by simp
  with clean show ?thesis by (simp add: push_field_def redact_text_def no_token_id)
qed

theorem redaction_complete_witness:
  "redact_text (\<lambda>_. False) (lit ''cookie=ABCDEFGHIJKLMNOPQRSTUVWXYZ12= ok'') = lit ''cookie=<redacted> ok'' \<and>
   redact_text (\<lambda>_. False) (lit ''cookie=<redacted> ok'') = lit ''cookie=<redacted> ok''"
proof -
  have e: "redact_text (\<lambda>_. False) (lit ''cookie=ABCDEFGHIJKLMNOPQRSTUVWXYZ12= ok'') = lit ''cookie=<redacted> ok''" by code_simp
  with redaction_complete [where uw = "\<lambda>_. False" and v = "lit ''cookie=ABCDEFGHIJKLMNOPQRSTUVWXYZ12= ok''"] show ?thesis by simp
qed

text \<open>A letter beyond ASCII directly before a token hides it from the expression.\<close>

lemma token_after_letter_kept:
  assumes "uw 233"
  shows "redact_text uw (233 # replicate 40 65) = 233 # replicate 40 65"
proof -
  have "no_token uw (Some 65) (replicate n 65)" for n
    by (induction n) (auto simp: boundary_def word_before_def word_char_def is_ascii_alnum_def)
  then have "no_token uw (Some 65) (replicate 39 65)" .
  moreover have "replicate 40 (65::nat) = 65 # replicate 39 65" by (simp add: numeral_eq_Suc)
  ultimately have "no_token uw None (233 # replicate 40 65)" using assms
    by (simp add: boundary_def word_before_def word_char_def is_ascii_alnum_def token_char_def)
  then show ?thesis unfolding redact_text_def by (rule no_token_id)
qed

end
