(* ===== verification/Endpoint_Discovery.thy ===== *)
theory Endpoint_Discovery
  imports Auth_Redact "HOL-Library.Product_Lexorder"
begin

text \<open>
  Discovery of endpoints from captured traffic and script bundles (\<^verbatim>\<open>stealth-sites/src/discovery.rs\<close>) and the capture
  buffer in front of it (\<^verbatim>\<open>obscura-bridge/src/network_capture.rs\<close>). The URL parser and the matches of the bundle
  expression are parameters.
\<close>

section \<open>Definitions\<close>

record CapturedRequest =
  cr_url :: ustr
  cr_method :: ustr
  cr_resource_type :: ustr
  cr_status :: "nat option"
  cr_mime_type :: "ustr option"
  cr_same_etld_plus_1 :: bool

record EndpointCandidate =
  ec_method :: ustr
  ec_path_template :: ustr
  ec_url_template :: ustr
  ec_discovered_via :: "ustr option"

record url_view =
  uv_scheme :: ustr
  uv_host :: "ustr option"
  uv_path :: ustr

subsection \<open>The capture buffer\<close>

text \<open>The rows behind the mutex, and whether it is poisoned.\<close>

record NetworkCapture =
  nc_rows :: "CapturedRequest list"
  nc_poisoned :: bool

definition nc_new :: NetworkCapture where
  "nc_new = \<lparr>nc_rows = [], nc_poisoned = False\<rparr>"

definition nc_push :: "CapturedRequest \<Rightarrow> NetworkCapture \<Rightarrow> NetworkCapture" where
  "nc_push r c = (if nc_poisoned c then c else c\<lparr>nc_rows := nc_rows c @ [r]\<rparr>)"

definition nc_snapshot :: "NetworkCapture \<Rightarrow> CapturedRequest list" where
  "nc_snapshot c = (if nc_poisoned c then [] else nc_rows c)"

definition nc_finish :: "NetworkCapture \<Rightarrow> CapturedRequest list" where
  "nc_finish c = (if nc_poisoned c then [] else nc_rows c)"

definition nc_len :: "NetworkCapture \<Rightarrow> nat" where
  "nc_len c = (if nc_poisoned c then 0 else length (nc_rows c))"

definition nc_is_empty :: "NetworkCapture \<Rightarrow> bool" where
  "nc_is_empty c \<longleftrightarrow> nc_len c = 0"

definition to_ascii_lower :: "ustr \<Rightarrow> ustr" where
  "to_ascii_lower s = map ascii_lower s"

definition to_ascii_upper :: "ustr \<Rightarrow> ustr" where
  "to_ascii_upper s = map (\<lambda>c. if 97 \<le> c \<and> c \<le> 122 then c - 32 else c) s"

definition should_capture :: "ustr \<Rightarrow> nat \<Rightarrow> ustr \<Rightarrow> bool" where
  "should_capture resource_type status mime_type \<longleftrightarrow>
     (sublist (lit ''json'') (to_ascii_lower mime_type) \<or> eq_ignore_ascii_case resource_type (lit ''Script'')) \<and>
     200 \<le> status \<and> status < 400"

fun extract_loop :: "nat \<Rightarrow> CapturedRequest list \<Rightarrow> ustr list \<Rightarrow> ustr list" where
  "extract_loop limit [] out = out"
| "extract_loop limit (r # rs) out = (if limit \<le> length out then out else extract_loop limit rs (out @ [cr_url r]))"

definition extract_script_urls :: "CapturedRequest list \<Rightarrow> nat \<Rightarrow> ustr list" where
  "extract_script_urls rows limit =
     extract_loop limit (filter (\<lambda>r. eq_ignore_ascii_case (cr_resource_type r) (lit ''Script'')) rows) []"

subsection \<open>Templates\<close>

definition ascii_hexdigit :: "uchar \<Rightarrow> bool" where
  "ascii_hexdigit c \<longleftrightarrow> (48 \<le> c \<and> c \<le> 57) \<or> (97 \<le> c \<and> c \<le> 102) \<or> (65 \<le> c \<and> c \<le> 70)"

definition looks_like_uuid :: "ustr \<Rightarrow> bool" where
  "looks_like_uuid seg \<longleftrightarrow>
     (blen seg = 36 \<and> list_all (\<lambda>(i, c). if i \<in> {8, 13, 18, 23} then c = 45 else ascii_hexdigit c) (enumerate 0 seg)) \<or>
     (20 \<le> blen seg \<and> list_all token_char seg \<and> list_ex (\<lambda>c. 65 \<le> c \<and> c \<le> 90) seg \<and> list_ex (\<lambda>c. 97 \<le> c \<and> c \<le> 122) seg)"

definition looks_like_numeric :: "ustr \<Rightarrow> bool" where
  "looks_like_numeric seg \<longleftrightarrow> seg \<noteq> [] \<and> list_all is_digit seg"

definition KEEP_AS_LITERAL :: "ustr list" where
  "KEEP_AS_LITERAL = map lit [''users'', ''user'', ''articles'', ''article'', ''posts'', ''post'', ''items'', ''search'', ''list'',
     ''list_articles'', ''profile'', ''auth'', ''login'', ''logout'', ''session'', ''sessions'', ''feed'', ''feeds'', ''api'', ''v1'', ''v2'',
     ''v3'', ''v4'', ''graphql'', ''rest'', ''public'', ''private'', ''me'', ''categories'', ''tags'', ''comments'', ''comment'', ''data'',
     ''index'', ''home'', ''about'', ''contact'']"

definition looks_like_slug :: "ustr \<Rightarrow> bool" where
  "looks_like_slug seg \<longleftrightarrow>
     4 \<le> blen seg \<and> \<not> list_ex (\<lambda>k. eq_ignore_ascii_case k seg) KEEP_AS_LITERAL \<and>
     ((95 \<in> set seg \<and> list_all token_char seg) \<or>
      (6 \<le> blen seg \<and> list_all (\<lambda>c. (97 \<le> c \<and> c \<le> 122) \<or> is_digit c) seg \<and> list_ex is_digit seg))"

definition normalize_segment :: "ustr \<Rightarrow> ustr" where
  "normalize_segment seg =
     (if looks_like_uuid seg then lit ''{id}''
      else if looks_like_numeric seg then lit ''{id}''
      else if looks_like_slug seg then lit ''{slug}''
      else seg)"

definition normalize_path :: "ustr \<Rightarrow> ustr" where
  "normalize_path path = intersperse_concat (lit ''/'') (map (\<lambda>s. if s = [] then s else normalize_segment s) (split_char 47 path))"

definition normalize_url :: "(ustr \<Rightarrow> url_view option) \<Rightarrow> ustr \<Rightarrow> (ustr \<times> ustr) option" where
  "normalize_url parse url =
     Option.bind (parse url) (\<lambda>u.
     Option.bind (uv_host u) (\<lambda>host.
       let path_template = normalize_path (uv_path u) in
       Some (path_template, uv_scheme u @ lit ''://'' @ host @ path_template)))"

definition registrable_domain :: "ustr \<Rightarrow> ustr" where
  "registrable_domain host =
     (let parts = split_char 46 host; n = length parts in
      if n \<le> 2 then host else parts ! (n - 2) @ lit ''.'' @ parts ! (n - 1))"

subsection \<open>Candidates\<close>

definition is_candidate :: "CapturedRequest \<Rightarrow> bool" where
  "is_candidate r \<longleftrightarrow>
     cr_same_etld_plus_1 r \<and>
     (let rt = to_ascii_lower (cr_resource_type r) in rt = lit ''xhr'' \<or> rt = lit ''fetch'') \<and>
     (case cr_status r of None \<Rightarrow> True | Some s \<Rightarrow> 200 \<le> s \<and> s < 400) \<and>
     (case cr_mime_type r of
        None \<Rightarrow> True
      | Some m \<Rightarrow> (let l = to_ascii_lower m in sublist (lit ''json'') l \<or> sublist (lit ''javascript'') l \<or> l = []))"

type_synonym endpoint_id = "ustr \<times> ustr"

definition endpoint_key :: "EndpointCandidate \<Rightarrow> endpoint_id" where
  "endpoint_key c = (ec_method c, ec_path_template c)"

text \<open>A map from keys, as \<^verbatim>\<open>entry(..).or_insert(..)\<close> fills it.\<close>

definition or_insert_endpoint :: "EndpointCandidate \<Rightarrow> (endpoint_id \<times> EndpointCandidate) list \<Rightarrow> (endpoint_id \<times> EndpointCandidate) list" where
  "or_insert_endpoint c m = (if map_of m (endpoint_key c) = None then bt_insert (endpoint_key c) c m else m)"

definition collect_endpoints :: "EndpointCandidate list \<Rightarrow> EndpointCandidate list" where
  "collect_endpoints cs = map snd (foldl (\<lambda>m c. or_insert_endpoint c m) [] cs)"

definition captured_endpoint :: "(ustr \<Rightarrow> url_view option) \<Rightarrow> CapturedRequest \<Rightarrow> EndpointCandidate option" where
  "captured_endpoint parse r =
     map_option (\<lambda>(p, u). \<lparr>ec_method = to_ascii_upper (cr_method r), ec_path_template = p, ec_url_template = u,
       ec_discovered_via = Some (lit ''network-capture'')\<rparr>) (normalize_url parse (cr_url r))"

definition aggregate_endpoints :: "(ustr \<Rightarrow> url_view option) \<Rightarrow> CapturedRequest list \<Rightarrow> EndpointCandidate list" where
  "aggregate_endpoints parse reqs = collect_endpoints (List.map_filter (captured_endpoint parse) (filter is_candidate reqs))"

definition trim_origin :: "ustr \<Rightarrow> ustr" where
  "trim_origin s = rev (dropWhile (\<lambda>c. c = 47) (rev s))"

fun bundle_loop :: "ustr \<Rightarrow> ustr list \<Rightarrow> ustr list \<Rightarrow> ustr list" where
  "bundle_loop origin [] out = out"
| "bundle_loop origin (raw # raws) out =
     (let full = (if starts_with raw (lit ''http'') then raw else trim_origin origin @ raw) in
      bundle_loop origin raws (if full \<in> set out then out else out @ [full]))"

definition extract_bundle_url_candidates :: "(ustr \<Rightarrow> ustr list) \<Rightarrow> ustr \<Rightarrow> ustr \<Rightarrow> ustr list" where
  "extract_bundle_url_candidates captures body origin = bundle_loop origin (captures body) []"

definition bundle_endpoint :: "(ustr \<Rightarrow> url_view option) \<Rightarrow> ustr \<Rightarrow> ustr \<Rightarrow> EndpointCandidate option" where
  "bundle_endpoint parse origin_host u =
     Option.bind (parse u) (\<lambda>v.
     Option.bind (uv_host v) (\<lambda>host.
       if registrable_domain host \<noteq> registrable_domain origin_host then None
       else map_option (\<lambda>(p, t). \<lparr>ec_method = lit ''GET'', ec_path_template = p, ec_url_template = t,
         ec_discovered_via = Some (lit ''js-bundle-scan'')\<rparr>) (normalize_url parse u)))"

definition bundle_urls_to_candidates :: "(ustr \<Rightarrow> url_view option) \<Rightarrow> ustr list \<Rightarrow> ustr \<Rightarrow> EndpointCandidate list" where
  "bundle_urls_to_candidates parse urls origin_host = collect_endpoints (List.map_filter (bundle_endpoint parse origin_host) urls)"

definition merge_candidates :: "EndpointCandidate list \<Rightarrow> EndpointCandidate list \<Rightarrow> EndpointCandidate list" where
  "merge_candidates primary secondary = collect_endpoints (primary @ secondary)"

definition derive_purpose :: "EndpointCandidate \<Rightarrow> ustr" where
  "derive_purpose c =
     (let pieces = filter (\<lambda>s. s \<noteq> [] \<and> \<not> starts_with s (lit ''{'')) (split_char 47 (ec_path_template c));
          l = (if pieces = [] then lit ''endpoint'' else last pieces) in
      to_ascii_lower (ec_method c) @ lit ''_'' @ map (\<lambda>x. if x = 45 then 95 else x) l)"

section \<open>Lemmas\<close>

lemma nc_rows_push: "nc_snapshot (fold nc_push rs c) = (if nc_poisoned c then [] else nc_rows c @ rs)"
  by (induction rs arbitrary: c) (simp_all add: nc_push_def nc_snapshot_def)

text \<open>A new buffer returns what was pushed, in order, and is empty only if nothing was.\<close>

lemma nc_collects:
  "nc_finish (fold nc_push rs nc_new) = rs" "nc_is_empty (fold nc_push rs nc_new) \<longleftrightarrow> rs = []"
proof -
  have same: "nc_finish c = nc_snapshot c" "nc_len c = length (nc_snapshot c)" for c
    by (simp_all add: nc_finish_def nc_snapshot_def nc_len_def)
  show "nc_finish (fold nc_push rs nc_new) = rs" "nc_is_empty (fold nc_push rs nc_new) \<longleftrightarrow> rs = []"
    unfolding same nc_is_empty_def nc_rows_push by (simp_all add: nc_new_def)
qed

lemma extract_loop_take: "extract_loop limit rs out = out @ take (limit - length out) (map cr_url rs)"
  by (induction rs arbitrary: out) (auto simp: take_Cons' Suc_diff_le)

lemma script_urls_exact:
  "extract_script_urls rows limit =
   take limit (map cr_url (filter (\<lambda>r. eq_ignore_ascii_case (cr_resource_type r) (lit ''Script'')) rows))"
  by (simp add: extract_script_urls_def extract_loop_take)

lemma placeholder_literal: "normalize_segment (lit ''{id}'') = lit ''{id}''" "normalize_segment (lit ''{slug}'') = lit ''{slug}''"
  by code_simp+

lemma normalize_segment_idem: "normalize_segment (normalize_segment s) = normalize_segment s"
  using placeholder_literal by (auto simp: normalize_segment_def [of s])

lemma normalize_segment_free: "47 \<notin> set s \<Longrightarrow> 47 \<notin> set (normalize_segment s)"
  by (auto simp: normalize_segment_def lit_def)

lemma normalize_segment_nonempty: "s \<noteq> [] \<Longrightarrow> normalize_segment s \<noteq> []"
  by (auto simp: normalize_segment_def lit_def)

lemma lit_slash: "lit ''/'' = [47]"
  by (simp add: lit_def)

text \<open>Normalising a template changes nothing more.\<close>

lemma normalize_path_idem: "normalize_path (normalize_path p) = normalize_path p"
proof -
  let ?f = "\<lambda>s. if s = [] then s else normalize_segment s"
  have "47 \<notin> set (?f s)" if "s \<in> set (split_char 47 p)" for s
    using split_char_free_pieces [OF that] normalize_segment_free by simp
  then have "\<forall>s \<in> set (map ?f (split_char 47 p)). 47 \<notin> set s" unfolding set_map by blast
  then have "split_char 47 (intersperse_concat [47] (map ?f (split_char 47 p))) = map ?f (split_char 47 p)"
    by (rule split_char_join [rotated]) (simp only: map_is_Nil_conv split_char_nonempty not_False_eq_True)
  moreover have "?f (?f s) = ?f s" for s
    by (cases "s = []") (simp_all add: normalize_segment_idem normalize_segment_nonempty)
  then have "map ?f (map ?f ps) = map ?f ps" for ps by (simp only: map_map o_def)
  ultimately show ?thesis unfolding normalize_path_def by (simp only: lit_slash)
qed

text \<open>A placeholder that the URL parser has percent-encoded stays a literal.\<close>

text \<open>An undashed identifier in lower case becomes a slug, and a word in lower case without a digit stays a literal.\<close>

lemma undashed_uuid_slug:
  "normalize_segment (lit ''550e8400e29b41d4a716446655440000'') = lit ''{slug}''" "normalize_segment (lit ''alicesmith'') = lit ''alicesmith''"
  by code_simp+

lemma encoded_placeholder_kept: "normalize_segment (lit ''%7Busername%7D'') = lit ''%7Busername%7D''"
  by code_simp

definition first_for :: "EndpointCandidate list \<Rightarrow> endpoint_id \<Rightarrow> EndpointCandidate option" where
  "first_for cs k = List.find (\<lambda>c. endpoint_key c = k) cs"

lemma fold_endpoints:
  "bt_ok m \<Longrightarrow> (\<forall>(k, c) \<in> set m. endpoint_key c = k) \<Longrightarrow>
   bt_ok (foldl (\<lambda>m c. or_insert_endpoint c m) m cs) \<and>
   (\<forall>(k, c) \<in> set (foldl (\<lambda>m c. or_insert_endpoint c m) m cs). endpoint_key c = k) \<and>
   map_of (foldl (\<lambda>m c. or_insert_endpoint c m) m cs) k = (case map_of m k of Some c \<Rightarrow> Some c | None \<Rightarrow> first_for cs k)"
proof (induction cs arbitrary: m)
  case (Cons c cs)
  let ?m = "or_insert_endpoint c m"
  have "bt_ok ?m" using Cons.prems(1) bt_insert_ok by (auto simp: or_insert_endpoint_def)
  moreover have "\<forall>(k, c) \<in> set ?m. endpoint_key c = k"
    using Cons.prems(2) bt_insert_set [of "endpoint_key c" c m] by (auto simp: or_insert_endpoint_def)
  moreover have "map_of ?m k = (case map_of m k of Some d \<Rightarrow> Some d | None \<Rightarrow> if endpoint_key c = k then Some c else None)"
    by (auto simp: or_insert_endpoint_def bt_insert_lookup split: option.splits)
  ultimately show ?case using Cons.IH [of ?m] by (auto simp: first_for_def split: option.splits)
qed (auto simp: first_for_def split: option.splits)

lemma collect_exact:
  "set (collect_endpoints cs) = {c. first_for cs (endpoint_key c) = Some c} \<and>
   sorted_wrt (<) (map endpoint_key (collect_endpoints cs))"
proof -
  define m where "m = foldl (\<lambda>m c. or_insert_endpoint c m) [] cs"
  have m: "bt_ok m" "\<forall>(k, c) \<in> set m. endpoint_key c = k" "map_of m k = first_for cs k" for k
    using fold_endpoints [of "[]" cs k] by (auto simp: m_def)
  have keys: "map endpoint_key (map snd m) = map fst m" using m(2) by (auto simp: comp_def)
  have "distinct (map fst m)" using m(1) by (simp add: strict_sorted_iff)
  then have "c \<in> set (map snd m) \<longleftrightarrow> map_of m (endpoint_key c) = Some c" for c
    using m(2) by (force simp: map_of_eq_Some_iff)
  then have "set (collect_endpoints cs) = {c. first_for cs (endpoint_key c) = Some c}"
    using m(3) by (auto simp: collect_endpoints_def m_def [symmetric])
  moreover have "sorted_wrt (<) (map endpoint_key (collect_endpoints cs))"
    using m(1) unfolding collect_endpoints_def m_def [symmetric] keys .
  ultimately show ?thesis ..
qed

section \<open>Properties\<close>

text \<open>
  C38. Discovery is exact: the endpoints found are, for every method and path template of a request that passes the
  filters, the first such request, once each and in the order of their keys; the same holds of the endpoints made
  from the URLs of script bundles; merging keeps, for every key, the first source's endpoint if it has one and else
  the first of the second source, again once each and in the order of the keys; and templates are stable under
  normalisation.
\<close>

theorem discovery_exact:
  "set (aggregate_endpoints parse reqs) =
     {c. first_for (List.map_filter (captured_endpoint parse) (filter is_candidate reqs)) (endpoint_key c) = Some c} \<and>
   sorted_wrt (<) (map endpoint_key (aggregate_endpoints parse reqs)) \<and>
   set (bundle_urls_to_candidates parse urls origin) =
     {c. first_for (List.map_filter (bundle_endpoint parse origin) urls) (endpoint_key c) = Some c} \<and>
   sorted_wrt (<) (map endpoint_key (bundle_urls_to_candidates parse urls origin)) \<and>
   set (merge_candidates as bs) =
     {c. (case first_for as (endpoint_key c) of Some a \<Rightarrow> c = a | None \<Rightarrow> first_for bs (endpoint_key c) = Some c)} \<and>
   sorted_wrt (<) (map endpoint_key (merge_candidates as bs)) \<and>
   normalize_path (normalize_path p) = normalize_path p"
proof -
  have "first_for (as @ bs) k = (case first_for as k of Some a \<Rightarrow> Some a | None \<Rightarrow> first_for bs k)" for k
    by (induction as) (auto simp: first_for_def)
  then have "set (merge_candidates as bs) =
     {c. (case first_for as (endpoint_key c) of Some a \<Rightarrow> c = a | None \<Rightarrow> first_for bs (endpoint_key c) = Some c)}"
    using collect_exact [of "as @ bs"] by (auto simp: merge_candidates_def split: option.splits)
  then show ?thesis using collect_exact normalize_path_idem
    by (simp add: aggregate_endpoints_def bundle_urls_to_candidates_def merge_candidates_def)
qed

end
