(* ===== verification/Spec2Isabelle.thy ===== *)
theory Spec2Isabelle
  imports
    Sanitize_Pipeline
    Error_Contract Tokens Progress Tool_Rate_Limiter
    Ssrf
    Auth_Store_Logic
    Egress_Gate
    Vpn_Envelope
    Idempotency_Store
    Review_Trace Review_Runs
    Config_Profiles
    Semantic_Gc Endpoint_Discovery
begin

text \<open>
  A verification development for the Rust crates of the scraping toolkit \<^verbatim>\<open>rev_scraping\<close>. The toolkit fetches
  pages for an agent: a command line and an MCP server drive a browser through VPN egress, keep
  authenticated sessions in an encrypted store, and clean what a page says before a model reads it. The
  development models the parts that carry its guarantees, as executable definitions, and proves them.
  Paths below are under \<^verbatim>\<open>src/crates/\<close> unless they start with \<^verbatim>\<open>harness-rust\<close>.

  \<^bold>\<open>Shared vocabulary.\<close> \<^verbatim>\<open>Rust_Prelude\<close> has strings as lists of Unicode scalar values with byte lengths and
  slices that panic (\<open>None\<close>) off character boundaries, machine-integer operations, and ordered maps as
  sorted association lists. \<^verbatim>\<open>Rust_Str\<close> adds the text functions (trim, split, parse), \<^verbatim>\<open>Utf8\<close> the encoding,
  \<^verbatim>\<open>Json_Value\<close> JSON trees with the locales for tree walkers, \<^verbatim>\<open>Config_Loader\<close> the contract of the
  configuration loaders, \<^verbatim>\<open>Exit_Codes\<close> the error taxonomy (\<^verbatim>\<open>stealth-core/src/lib.rs\<close>,
  \<^verbatim>\<open>stealth-cli/src/commands/exit.rs\<close>).

  \<^bold>\<open>Sanitizer\<close> (\<^verbatim>\<open>stealth-sanitize\<close>): \<^verbatim>\<open>Sanitize_Policy\<close> (presets and report), \<^verbatim>\<open>Sanitize_Envelope\<close> (layer 2, fences
  with an unforgeable nonce), \<^verbatim>\<open>Sanitize_Canary\<close> (layer 3, injection patterns), \<^verbatim>\<open>Sanitize_Unicode\<close> (layer 4),
  \<^verbatim>\<open>Sanitize_Clamp\<close> (layer 5, byte budgets) and \<^verbatim>\<open>Sanitize_Pipeline\<close> (their composition in \<^verbatim>\<open>lib.rs\<close>). Shown:
  the strict preset fails closed, markers occur once, budgets hold, no layer panics, reports are
  honest, and what the canary layer reports and rewrites is exactly determined; also that a critical
  match can be shadowed by a longer one.

  \<^bold>\<open>Contracts\<close> (\<^verbatim>\<open>stealth-agent-contracts\<close>): \<^verbatim>\<open>Error_Contract\<close>, \<^verbatim>\<open>Tokens\<close>, \<^verbatim>\<open>Progress\<close>, \<^verbatim>\<open>Float64\<close> (double-precision
  arithmetic), \<^verbatim>\<open>Rate_Limiter\<close> and \<^verbatim>\<open>Tool_Rate_Limiter\<close>. Shown: wire round trips; every interleaving of tracker calls
  keeps its invariant; the rate bound with its roundings, the cooldown and that the wait announced in it is enough;
  replay within the time to live under concurrency. Also shown: a stale clock reading credits an interval twice,
  rounding can admit a request that the exact rate would not, and the count of a tracker can go back.

  \<^bold>\<open>Guarded navigation\<close> (\<^verbatim>\<open>obscura-bridge/src/ssrf.rs\<close>): \<^verbatim>\<open>Ssrf\<close>. Shown: the exact address blocks refused for
  both address families, embedded addresses included, and the exact set of URLs admitted, down to these blocks; the
  documentation blocks are admitted.

  \<^bold>\<open>Authenticated sessions\<close> (\<^verbatim>\<open>stealth-auth\<close>): \<^verbatim>\<open>Auth_Crypto\<close> (jar format), \<^verbatim>\<open>Auth_Cookies\<close> (cookie scope and
  jar), \<^verbatim>\<open>Auth_Store\<close> (the store over a file system and keyring in which every call may fail) and
  \<^verbatim>\<open>Auth_Store_Logic\<close> (a footprint logic for it). Shown: the format is exact, encryption binds its
  context, cookies are sent exactly in scope, a saved jar is loaded after any other calls, a save
  never loses the previous jar wherever it stops, a deleted profile is gone, and which trash files a
  rotation removes, those of profiles with a longer name among them.

  \<^bold>\<open>Egress\<close> (\<^verbatim>\<open>vpn-rotate\<close> and \<^verbatim>\<open>stealth-cli\<close>): \<^verbatim>\<open>Instance_Pool\<close> (rendezvous hashing with eviction),
  \<^verbatim>\<open>Session_Files\<close> (its session files), \<^verbatim>\<open>Proxy_Config\<close> and \<^verbatim>\<open>Proxy_Resolver\<close> (load-time and run-time halves of
  \<^verbatim>\<open>proxy_resolver.rs\<close>), \<^verbatim>\<open>Leak_Guard\<close> (\<^verbatim>\<open>leak_guard.rs\<close>), \<^verbatim>\<open>Egress_Policy\<close> (\<^verbatim>\<open>policy.rs\<close>), \<^verbatim>\<open>Vpn_Selector\<close>
  (\<^verbatim>\<open>vpn_selector.rs\<close>) and \<^verbatim>\<open>Egress_Gate\<close> (\<^verbatim>\<open>vpn_guard.rs\<close> and the gate in \<^verbatim>\<open>commands/spider.rs\<close>). The gate
  composes all of them: it loads the policy, applies the environment, probes every container, builds
  the pool or the resolver and selects. Shown: when a VPN is required and the spider proceeds, every
  instance passed the probe, and traffic goes through one of them unless the policy redefines the tier named
  surfshark; otherwise it exits with the leak code; a resolved tier is declared, ready and strong enough; load-time validation excludes the
  run-time configuration errors; the automatic chain equals a declarative ordering; fallback ends.
  Also shown: the gate recognises the VPN tier by its name alone, a cached session ignores the health
  of its instance, and the literal-secret check covers one spelling of URLs.

  \<^bold>\<open>The run under the monitor\<close> (\<^verbatim>\<open>vpn-rotate/src/leak_monitor.rs\<close>, \<^verbatim>\<open>commands/spider.rs\<close>,
  \<^verbatim>\<open>commands/vpn_envelope.rs\<close>): \<^verbatim>\<open>Traces\<close> has labelled step relations and the locales of invariants over
  their traces; \<^verbatim>\<open>Leak_Monitor\<close> is the polling task between its suspension points, \<^verbatim>\<open>Spider_Race\<close> its
  interleaving with the command, \<^verbatim>\<open>Http_Path\<close> the plain fetch loop with its change of instances,
  \<^verbatim>\<open>Vpn_Envelope\<close> the block that reports them. Shown: the monitor's state is a function of its verdicts, the
  first leak is latched and broadcast once, probes keep their pace, a shutdown ends the task; when
  exactly the race can end with the leak code; only the first request of the fetch loop can go out directly, and only
  when no instance was selected before. Also shown: a
  broadcast before the race is lost, the change of instances sticks to the failing one when the
  session file names it, and a leak is attributed to the first instance.

  \<^bold>\<open>Repeated commands\<close> (\<^verbatim>\<open>commands/idempotency.rs\<close>): \<^verbatim>\<open>Idempotency_Store\<close>. Shown: a recorded command answers
  its repetition without a second effect under any other calls in between, an entry is written
  atomically whatever fails, and collection removes exactly the stale entries.

  \<^bold>\<open>Configuration\<close> (\<^verbatim>\<open>stealth-cli/src/config_io\<close>, \<^verbatim>\<open>commands/config_cli.rs\<close>, \<^verbatim>\<open>commands/error_envelope.rs\<close>): \<^verbatim>\<open>Config_Writer\<close>
  (writes with backups, and the contract the commands rely on), \<^verbatim>\<open>Config_Toml\<close> (documents, dotted keys,
  migrations), \<^verbatim>\<open>Edit_Distance\<close> and \<^verbatim>\<open>Config_Validate\<close> (validation with suggestions), \<^verbatim>\<open>Config_Show\<close> (the redacted view
  and differences), \<^verbatim>\<open>Error_Envelope\<close> (failure envelopes), \<^verbatim>\<open>Config_Commands\<close> (set, edit, rollback, collection,
  history, migrate under the replay guard) and \<^verbatim>\<open>Config_Profiles\<close> (locations, init, profiles). Shown: no
  installed text is lost by writes, a set key is read back, a rollback can be undone, redaction is
  exact, migrations end and are exact, the distance is the least number of edits, leniency only
  downgrades, deletion is confined to one profile. Also shown: an edit is lost when its write fails, the
  guard of the active profile can be passed, and messages of failures are overwritten by their codes.

  \<^bold>\<open>Review coordination\<close> (\<^verbatim>\<open>harness-rust/crates/semantic-mcp/src/review_queue.rs\<close>): \<^verbatim>\<open>Review_Paths\<close> (argument
  checks), \<^verbatim>\<open>Review_Queue\<close> (the queue over its SQL table), \<^verbatim>\<open>Review_Spec\<close> (the abstract queue and the
  refinement), \<^verbatim>\<open>Review_Trace\<close> (sequences of operations) and \<^verbatim>\<open>Review_Runs\<close> (records of finished runs).
  Shown: every operation refines the abstract queue, in which a file is idle, pending or leased and a
  lease is dirty once the file changed again; no change is forgotten on any sequence of operations; the
  export is exact; accepted paths are the checked ones; a run is recorded once and never overwritten;
  accepted runs are well-formed. Also shown: a blank behind a dot segment passes the check for symbolic
  links.

  \<^bold>\<open>Leases\<close> (\<^verbatim>\<open>harness-rust/crates/agent-core/src/cmd/lease.rs\<close>): \<^verbatim>\<open>Lease_Registry\<close>. Shown: whatever command
  runs and however it ends, the registry written stays well-formed and keeps the leases of the one read, those that
  are not running unchanged;
  the completion gate is exact. Also shown: a relative registry path used outside the repository root makes
  the opening of a lease discard the registry.

  \<^bold>\<open>Task state\<close> (\<^verbatim>\<open>harness-rust/crates/agent-core/src/cmd/state.rs\<close> and \<^verbatim>\<open>types.rs\<close>, \<^verbatim>\<open>validation.rs\<close>, \<^verbatim>\<open>lock.rs\<close> of
  \<^verbatim>\<open>harness-rust/crates/shared/src\<close>): \<^verbatim>\<open>Harness_Types\<close> (the state and its JSON form, with the contract of serializers),
  \<^verbatim>\<open>Json_Path\<close> (paths into trees and scrubbing), \<^verbatim>\<open>File_Lock\<close> (the lock directory) and \<^verbatim>\<open>State_Manager\<close> (loading, saving and
  the commands). Shown: every state is read back from its JSON form, accepted path texts mean their segments,
  a value written at a path is read there, scrubbing is exact, sessions and phases are kept by any sequence of
  commands however they end, waiting for the lock ends within a bound and the lock excludes. Also shown: a command that only
  reads can revert a write of another process, an index that is too large addresses the whole array, and a
  write to an unknown field is silently dropped.

  \<^bold>\<open>Collection of semantic databases\<close> (\<^verbatim>\<open>harness-rust/crates/shared/src/semantic_gc.rs\<close>, \<^verbatim>\<open>semantic_lock.rs\<close>, \<^verbatim>\<open>paths.rs\<close>,
  the tool in \<^verbatim>\<open>semantic-mcp/src/admin_gc.rs\<close> and the command in \<^verbatim>\<open>agent-core/src/cmd/semantic.rs\<close>): \<^verbatim>\<open>Semantic_Gc\<close>. Shown:
  only files of managed, unlocked databases in scope that are old enough or orphaned are ever deleted by the
  collection, and only in a forced run; a preview reports no deletion, but the connections it opens can change the
  companion files of a database. Also shown: a huge age limit wraps to a negative one.

  \<^bold>\<open>Redaction, acceptable use and endpoint discovery\<close> (\<^verbatim>\<open>stealth-auth/src/redact.rs\<close>, \<^verbatim>\<open>auth_aup.rs\<close>,
  \<^verbatim>\<open>obscura-bridge/src/network_capture.rs\<close>, \<^verbatim>\<open>stealth-sites/src/discovery.rs\<close>): \<^verbatim>\<open>Auth_Redact\<close> and
  \<^verbatim>\<open>Endpoint_Discovery\<close>. Shown: no match of the redaction expression is left in a printed field, the first
  matching target decides about a login, the buffer returns what was pushed, and discovery yields the first
  endpoint of every method and path template, once and in order. Also shown: a letter beyond ASCII before a
  token hides it, and an undashed identifier becomes a slug.

  \<^bold>\<open>How state and effects are modelled.\<close> Structures are records and enumerations are datatypes with the
  source's constructors, prefixed where a name clashes. Every operation is a function that returns
  the updated state; a raised error is the left side of a sum, a panic is \<open>None\<close> or an outcome of its
  own. Shared handles are step relations or lists of atomic actions. Clock readings, random bytes,
  environment variables and the answers of services are arguments, one per call where they may
  differ. Integers keep their width where it matters (words, or saturation written out). Libraries
  not in the repository (hashing, encryption, regular expressions, URL, TOML and JSON text, Docker,
  keyring) are parameters with their documented behaviour as named hypotheses; expressions that are
  fixed in the source are written out as scanners, the one over script bundles excepted.

  \<^bold>\<open>Bounds and fuel.\<close> No definition uses fuel: loops are structural recursion or functions with a
  termination measure (byte or list lengths), and the tree walkers recurse on the size of the tree. Waiting
  for the file lock is a partial function, shown to end.
  Floating-point numbers are the finite binary64 values as reals, with infinities and not-a-number; every
  operation rounds as IEEE 754 prescribes, and only the sign of zero is left out.

  \<^bold>\<open>Not modelled.\<close> The vendored browser is third-party code; of the agent harness only the
  review coordination, the leases, the task state and the database collection are modelled, the rest
  runs processes, git and a symbol index. Browser and DevTools
  traffic, Docker control, the MCP transport, command orchestration and output are I/O.
  Element relocation rests on floating-point string similarity of a library. Site recipes are
  the next candidate.
\<close>

end
